(* ===== verification/Prelude.thy ===== *)
theory Prelude
  imports Main "HOL-Library.Word" "HOL-Library.Multiset" "HOL-Library.AList" "HOL-Library.Sublist"
begin

text \<open>
  What the component theories share.  Python strings are char lists holding the UTF-8
  encoding of the string, so splitting at an ASCII separator, prefix tests and replacement
  agree with the code; case mapping and digit tests are the ASCII ones.  Python dictionaries
  are association lists where their insertion order is observed (\<open>AList.update\<close> keeps the
  place of a key, as a Python dict does) and functions elsewhere.
\<close>

named_theorems py_str \<open>characteristic equations of the modelled string methods\<close>
named_theorems dict_laws \<open>lookup-after-insert laws of the modelled dictionaries\<close>

section \<open>Strings\<close>

definition py_startswith :: "string \<Rightarrow> string \<Rightarrow> bool" where
  "py_startswith s p = (take (length p) s = p)"

definition py_endswith :: "string \<Rightarrow> string \<Rightarrow> bool" where
  "py_endswith s p = (length p \<le> length s \<and> drop (length s - length p) s = p)"

text \<open>\<open>s.rsplit(c, 1)[-1]\<close>, also \<open>s.rpartition(c)[2]\<close>: everything after the last \<open>c\<close>.\<close>

definition after_last :: "char \<Rightarrow> string \<Rightarrow> string" where
  "after_last c s = rev (takeWhile (\<lambda>x. x \<noteq> c) (rev s))"

text \<open>\<open>s.rpartition(c)[0]\<close>: everything before the last \<open>c\<close>, empty when there is none.\<close>

definition before_last :: "char \<Rightarrow> string \<Rightarrow> string" where
  "before_last c s = rev (tl (dropWhile (\<lambda>x. x \<noteq> c) (rev s)))"

text \<open>\<open>s.rsplit(c, 1)[0]\<close>: the whole string when there is no \<open>c\<close>.\<close>

definition rsplit_head :: "char \<Rightarrow> string \<Rightarrow> string" where
  "rsplit_head c s = (if c \<in> set s then before_last c s else s)"

text \<open>\<open>s.split(c, 1)[0]\<close>.\<close>

definition before_first :: "char \<Rightarrow> string \<Rightarrow> string" where
  "before_first c s = takeWhile (\<lambda>x. x \<noteq> c) s"

text \<open>\<open>s.split(c)\<close>: never empty.\<close>

fun split_on :: "char \<Rightarrow> string \<Rightarrow> string list" where
  "split_on c [] = [[]]"
| "split_on c (x # xs) =
     (if x = c then [] # split_on c xs
      else (case split_on c xs of [] \<Rightarrow> [[x]] | y # ys \<Rightarrow> (x # y) # ys))"

text \<open>\<open>c.join(parts)\<close> for a one-character separator.\<close>

fun join_with :: "char \<Rightarrow> string list \<Rightarrow> string" where
  "join_with c [] = []"
| "join_with c [p] = p"
| "join_with c (p # q # ps) = p @ c # join_with c (q # ps)"

text \<open>\<open>s.replace(old, new)\<close> for a non-empty \<open>old\<close>: leftmost, non-overlapping.\<close>

function py_replace :: "string \<Rightarrow> string \<Rightarrow> string \<Rightarrow> string" where
  "py_replace old new s =
     (if s = [] \<or> old = [] then s
      else if take (length old) s = old then new @ py_replace old new (drop (length old) s)
      else hd s # py_replace old new (tl s))"
  by pat_completeness auto
termination
  by (relation "measure (\<lambda>(old, new, s). length s)")
    (auto simp: length_greater_0_conv[symmetric] simp del: length_greater_0_conv)

declare py_replace.simps [simp del]

lemma py_replace_Nil [simp]: "py_replace old new [] = []"
  by (simp add: py_replace.simps)

lemma py_replace_Cons [py_str]:
  "old \<noteq> [] \<Longrightarrow> py_replace old new (c # s) =
     (if take (length old) (c # s) = old then new @ py_replace old new (drop (length old) (c # s))
      else c # py_replace old new s)"
  by (simp add: py_replace.simps [of old new "c # s"])

definition replace_char :: "char \<Rightarrow> char \<Rightarrow> string \<Rightarrow> string" where
  "replace_char a b s = map (\<lambda>x. if x = a then b else x) s"

text \<open>The ASCII part of Python's whitespace: tab to carriage return, 0x1c to 0x1f, blank.\<close>

definition is_space :: "char \<Rightarrow> bool" where
  "is_space c = (let n = (of_char c :: nat) in (9 \<le> n \<and> n \<le> 13) \<or> (28 \<le> n \<and> n \<le> 32))"

definition strip_where :: "(char \<Rightarrow> bool) \<Rightarrow> string \<Rightarrow> string" where
  "strip_where p s = rev (dropWhile p (rev (dropWhile p s)))"

abbreviation py_strip :: "string \<Rightarrow> string" where
  "py_strip \<equiv> strip_where is_space"

definition is_digit :: "char \<Rightarrow> bool" where
  "is_digit c = (let n = (of_char c :: nat) in 48 \<le> n \<and> n \<le> 57)"

definition py_isdigit :: "string \<Rightarrow> bool" where
  "py_isdigit s = (s \<noteq> [] \<and> list_all is_digit s)"

definition lower_char :: "char \<Rightarrow> char" where
  "lower_char c = (let n = (of_char c :: nat) in if 65 \<le> n \<and> n \<le> 90 then char_of (n + 32) else c)"

definition upper_char :: "char \<Rightarrow> char" where
  "upper_char c = (let n = (of_char c :: nat) in if 97 \<le> n \<and> n \<le> 122 then char_of (n - 32) else c)"

definition py_lower :: "string \<Rightarrow> string" where
  "py_lower s = map lower_char s"

definition py_upper :: "string \<Rightarrow> string" where
  "py_upper s = map upper_char s"

lemma take_until [simp]: "c \<notin> set s \<Longrightarrow> takeWhile (\<lambda>x. x \<noteq> c) (s @ c # t) = s"
  by (induction s) auto

lemma drop_until [simp]: "c \<notin> set s \<Longrightarrow> dropWhile (\<lambda>x. x \<noteq> c) (s @ c # t) = c # t"
  by (induction s) auto

lemma after_last_none [py_str]: "c \<notin> set s \<Longrightarrow> after_last c s = s"
proof -
  assume "c \<notin> set s"
  then have "\<forall>x \<in> set (rev s). x \<noteq> c" by auto
  then have "takeWhile (\<lambda>x. x \<noteq> c) (rev s) = rev s"
    by (simp only: takeWhile_eq_all_conv)
  then show ?thesis by (simp only: after_last_def rev_rev_ident)
qed

lemma after_last_cut [py_str]: "c \<notin> set t \<Longrightarrow> after_last c (s @ c # t) = t"
proof -
  assume "c \<notin> set t"
  then have "takeWhile (\<lambda>x. x \<noteq> c) (rev t @ c # rev s) = rev t"
    by (subst takeWhile_append2) auto
  then show ?thesis by (simp add: after_last_def)
qed

lemma before_last_cut [py_str]: "c \<notin> set t \<Longrightarrow> before_last c (s @ c # t) = s"
proof -
  assume "c \<notin> set t"
  then have "dropWhile (\<lambda>x. x \<noteq> c) (rev t @ c # rev s) = c # rev s"
    by (subst dropWhile_append2) auto
  then show ?thesis by (simp add: before_last_def)
qed

lemma not_in_after_last [simp]: "c \<notin> set (after_last c s)"
  by (auto simp: after_last_def dest: set_takeWhileD)

lemma split_last_char:
  assumes "c \<in> set s"
  shows "s = before_last c s @ c # after_last c s"
proof -
  from split_list_last [OF assms] obtain u v where "s = u @ c # v" "c \<notin> set v"
    by blast
  then show ?thesis by (simp add: py_str)
qed

lemma strip_where_id: "s \<noteq> [] \<Longrightarrow> \<not> p (hd s) \<Longrightarrow> \<not> p (last s) \<Longrightarrow> strip_where p s = s"
proof -
  assume s: "s \<noteq> []" "\<not> p (hd s)" "\<not> p (last s)"
  then have "dropWhile p s = s" by (cases s) auto
  moreover have "dropWhile p (rev s) = rev s" using s by (cases s rule: rev_cases) auto
  ultimately show ?thesis by (simp add: strip_where_def)
qed

lemma split_on_nonempty [simp]: "split_on c s \<noteq> []"
  by (cases s) (auto split: list.splits)

lemma join_split [simp]: "join_with c (split_on c s) = s"
proof (induction s)
  case Nil
  then show ?case by simp
next
  case (Cons x xs)
  obtain y ys where y: "split_on c xs = y # ys"
    using split_on_nonempty [of c xs] by (cases "split_on c xs") auto
  then show ?case
    using Cons.IH by (cases ys) auto
qed

lemma split_on_no_sep: "p \<in> set (split_on c s) \<Longrightarrow> c \<notin> set p"
  by (induction s arbitrary: p) (auto split: if_splits list.splits)

lemma split_join:
  "ps \<noteq> [] \<Longrightarrow> \<forall>p \<in> set ps. c \<notin> set p \<Longrightarrow> split_on c (join_with c ps) = ps"
proof (induction c ps rule: join_with.induct)
  case (2 c p)
  then have "c \<notin> set p" by simp
  then show ?case
    by (induction p) auto
next
  case (3 c p q ps)
  then have IH: "split_on c (join_with c (q # ps)) = q # ps" and p: "c \<notin> set p"
    by auto
  from p have "split_on c (p @ c # join_with c (q # ps)) = p # split_on c (join_with c (q # ps))"
    by (induction p) auto
  with IH show ?case by simp
qed simp

section \<open>Dictionaries of lists\<close>

text \<open>
  Most indices of the program are dictionaries from a key to the list of values seen under
  it, filled by one loop.  The contract every such index has to meet, whatever its shape in
  memory: an empty index holds nothing, and adding a value appends it under its key only.
\<close>

locale multimap =
  fixes empty :: "'m"
    and add :: "'k \<Rightarrow> 'v \<Rightarrow> 'm \<Rightarrow> 'm"
    and look :: "'m \<Rightarrow> 'k \<Rightarrow> 'v list"
  assumes look_empty: "look empty k = []"
    and look_add: "look (add k v m) k' = look m k' @ (if k' = k then [v] else [])"
begin

text \<open>The loop that fills an index with the pairs that pass a filter.\<close>

lemma look_fold:
  "look (fold (\<lambda>x m. if p x then add (key x) (val x) m else m) xs m0) k =
     look m0 k @ map val (filter (\<lambda>x. p x \<and> key x = k) xs)"
  by (induction xs arbitrary: m0) (auto simp: look_add)

lemma look_build:
  "look (fold (\<lambda>x m. if p x then add (key x) (val x) m else m) xs empty) k =
     map val (filter (\<lambda>x. p x \<and> key x = k) xs)"
  by (simp add: look_fold look_empty)

text \<open>What an index answers is what the loop put in: nothing else, and in loop order.\<close>

lemma look_build_mem:
  "v \<in> set (look (fold (\<lambda>x m. if p x then add (key x) (val x) m else m) xs empty) k) \<longleftrightarrow>
     (\<exists>x \<in> set xs. p x \<and> key x = k \<and> val x = v)"
  by (auto simp: look_build)

end

text \<open>\<open>defaultdict(list)\<close> and \<open>d.setdefault(k, []).append(v)\<close>, order of keys not observed.\<close>

definition dd_append :: "'k \<Rightarrow> 'v \<Rightarrow> ('k \<Rightarrow> 'v list) \<Rightarrow> 'k \<Rightarrow> 'v list" where
  "dd_append k v d = d(k := d k @ [v])"

definition dd_empty :: "'k \<Rightarrow> 'v list" where
  "dd_empty = (\<lambda>_. [])"

interpretation dd: multimap dd_empty dd_append "\<lambda>d k. d k"
  by unfold_locales (auto simp: dd_empty_def dd_append_def)

text \<open>The same with the insertion order of the keys kept, for loops over the dictionary.\<close>

fun group_add :: "'k \<Rightarrow> 'v \<Rightarrow> ('k \<times> 'v list) list \<Rightarrow> ('k \<times> 'v list) list" where
  "group_add k v [] = [(k, [v])]"
| "group_add k v ((k', vs) # r) =
     (if k = k' then (k', vs @ [v]) # r else (k', vs) # group_add k v r)"

definition group_look :: "('k \<times> 'v list) list \<Rightarrow> 'k \<Rightarrow> 'v list" where
  "group_look g k = (case map_of g k of None \<Rightarrow> [] | Some vs \<Rightarrow> vs)"

lemma group_look_add:
  "group_look (group_add k v g) k' = group_look g k' @ (if k' = k then [v] else [])"
  by (induction k v g rule: group_add.induct) (auto simp: group_look_def)

interpretation grp: multimap "[]" group_add group_look
  by unfold_locales (simp_all add: group_look_add, simp add: group_look_def)

lemma group_add_keys: "set (map fst (group_add k v g)) = insert k (set (map fst g))"
  by (induction k v g rule: group_add.induct) auto

lemma group_add_distinct: "distinct (map fst g) \<Longrightarrow> distinct (map fst (group_add k v g))"
proof (induction k v g rule: group_add.induct)
  case (2 k v k' vs r)
  then show ?case using group_add_keys [of k v r] by auto
qed simp

lemma group_add_concat:
  "mset (concat (map snd (group_add k v g))) = mset (concat (map snd g)) + {#v#}"
  by (induction k v g rule: group_add.induct) auto

lemma group_add_nonempty:
  "\<forall>e \<in> set g. snd e \<noteq> [] \<Longrightarrow> \<forall>e \<in> set (group_add k v g). snd e \<noteq> []"
  by (induction k v g rule: group_add.induct) auto

section \<open>First-wins dictionaries\<close>

text \<open>\<open>d.setdefault(k, v)\<close>.\<close>

definition setdefault :: "'k \<Rightarrow> 'v \<Rightarrow> ('k \<rightharpoonup> 'v) \<Rightarrow> 'k \<rightharpoonup> 'v" where
  "setdefault k v m = (case m k of None \<Rightarrow> m(k \<mapsto> v) | Some _ \<Rightarrow> m)"

lemma setdefault_lookup:
  "setdefault k v m k' = (if k' = k \<and> m k = None then Some v else m k')"
  by (auto simp: setdefault_def split: option.splits)

lemma fold_setdefault [dict_laws]:
  "fold (\<lambda>x m. if p x then setdefault (key x) (val x) m else m) xs m0 k =
     (case m0 k of Some v \<Rightarrow> Some v | None \<Rightarrow> map_option val (find (\<lambda>x. p x \<and> key x = k) xs))"
  by (induction xs arbitrary: m0) (auto simp: setdefault_lookup split: option.splits)

text \<open>\<open>d[k] = v\<close> in a loop: the last value wins.\<close>

lemma find_snoc:
  "find P (xs @ [x]) = (case find P xs of Some y \<Rightarrow> Some y | None \<Rightarrow> if P x then Some x else None)"
  by (induction xs) auto

lemma fold_update [dict_laws]:
  "fold (\<lambda>x m. if p x then m(key x \<mapsto> val x) else m) xs m0 k =
     (case find (\<lambda>x. p x \<and> key x = k) (rev xs) of Some x \<Rightarrow> Some (val x) | None \<Rightarrow> m0 k)"
  by (induction xs arbitrary: m0) (auto simp: find_snoc split: option.splits)

section \<open>First-wins deduplication\<close>

text \<open>
  The loop \<open>if key(x) in seen: continue; seen.add(key(x)); out.append(x)\<close>, run with the
  set of keys already seen.  It returns what was kept and the set after the loop.
\<close>

fun keep_first :: "('a \<Rightarrow> 'k) \<Rightarrow> 'k set \<Rightarrow> 'a list \<Rightarrow> 'a list \<times> 'k set" where
  "keep_first key seen [] = ([], seen)"
| "keep_first key seen (x # xs) =
     (if key x \<in> seen then keep_first key seen xs
      else (case keep_first key (insert (key x) seen) xs of (ys, s) \<Rightarrow> (x # ys, s)))"

lemma keep_first_seen [simp]: "snd (keep_first key seen xs) = seen \<union> key ` set xs"
  by (induction key seen xs rule: keep_first.induct) (auto split: prod.splits)

lemma keep_first_keys:
  "key ` set (fst (keep_first key seen xs)) = key ` set xs - seen"
proof (induction key seen xs rule: keep_first.induct)
  case (2 key seen x xs)
  then show ?case
    by (cases "keep_first key (insert (key x) seen) xs") (auto split: if_splits)
qed simp

lemma keep_first_subseq: "subseq (fst (keep_first key seen xs)) xs"
  by (induction key seen xs rule: keep_first.induct) (auto split: prod.splits)

lemma keep_first_set: "set (fst (keep_first key seen xs)) \<subseteq> set xs"
  by (induction key seen xs rule: keep_first.induct) (auto split: prod.splits)

lemma keep_first_distinct: "distinct (map key (fst (keep_first key seen xs)))"
proof (induction key seen xs rule: keep_first.induct)
  case (2 key seen x xs)
  then show ?case
    using keep_first_keys [of key "insert (key x) seen" xs]
    by (cases "keep_first key (insert (key x) seen) xs") auto
qed simp

lemma keep_first_append:
  "keep_first key seen (xs @ ys) =
     (case keep_first key seen xs of (a, s) \<Rightarrow>
      case keep_first key s ys of (b, s') \<Rightarrow> (a @ b, s'))"
  by (induction key seen xs rule: keep_first.induct) (auto split: prod.splits)

text \<open>The kept elements, and the loop as a pair of them and the keys seen.\<close>

definition kept :: "('a \<Rightarrow> 'k) \<Rightarrow> 'k set \<Rightarrow> 'a list \<Rightarrow> 'a list" where
  "kept key seen xs = fst (keep_first key seen xs)"

lemma keep_first_kept: "keep_first key seen xs = (kept key seen xs, seen \<union> key ` set xs)"
  by (rule prod_eqI) (simp_all add: kept_def)

lemma kept_append: "kept key seen (xs @ ys) = kept key seen xs @ kept key (seen \<union> key ` set xs) ys"
  using keep_first_append [of key seen xs ys] by (simp add: keep_first_kept)

lemma kept_keys: "key ` set (kept key seen xs) = key ` set xs - seen"
  by (simp add: kept_def keep_first_keys)

lemma kept_distinct: "distinct (map key (kept key seen xs))"
  by (simp add: kept_def keep_first_distinct)

lemma kept_subseq: "subseq (kept key seen xs) xs"
  by (simp add: kept_def keep_first_subseq)

lemma kept_mem: "x \<in> set (kept key seen xs) \<Longrightarrow> x \<in> set xs"
  using keep_first_set [of key seen xs] by (auto simp: kept_def)

lemma kept_all:
  "distinct (map key xs) \<Longrightarrow> key ` set xs \<inter> seen = {} \<Longrightarrow> kept key seen xs = xs"
  unfolding kept_def
  by (induction key seen xs rule: keep_first.induct) (auto split: prod.splits)

text \<open>Each key that survives is represented by the first element that has it.\<close>

lemma kept_first:
  "key x \<notin> seen \<Longrightarrow> x \<in> set (kept key seen xs) \<Longrightarrow>
     find (\<lambda>y. key y = key x) xs = Some x"
  unfolding kept_def
proof (induction key seen xs rule: keep_first.induct)
  case (2 key seen y xs)
  show ?case
  proof (cases "key y = key x")
    case True
    with 2 have "key y \<notin> seen" by simp
    with 2 True show ?thesis
      using keep_first_keys [of key "insert (key y) seen" xs]
      by (auto split: prod.splits)
  next
    case False
    with 2 show ?thesis by (auto split: prod.splits if_splits)
  qed
qed simp

lemma map_filter_mem: "y \<in> set (List.map_filter f xs) \<longleftrightarrow> (\<exists>x \<in> set xs. f x = Some y)"
  by (force simp: List.map_filter_def)

end
