(* ===== verification/Models.thy ===== *)
theory Models
  imports Prelude
begin

text \<open>
  The data the stages exchange (\<open>graph_core/models.py\<close>): nodes, edges and unresolved
  references, their slim projections, and the property maps written to the database.
  Integers are unbounded, as in Python; a label, kind or edge type is a string, as there.
  Python identities that do not matter (interning) are not modelled.
\<close>

section \<open>Enumerations\<close>

datatype confidence = EXTRACTED | INFERRED | AMBIGUOUS

datatype origin = O_EXTRACTED | O_DERIVED

primrec conf_value :: "confidence \<Rightarrow> string" where
  "conf_value EXTRACTED = ''EXTRACTED''"
| "conf_value INFERRED = ''INFERRED''"
| "conf_value AMBIGUOUS = ''AMBIGUOUS''"

primrec origin_value :: "origin \<Rightarrow> string" where
  "origin_value O_EXTRACTED = ''EXTRACTED''"
| "origin_value O_DERIVED = ''DERIVED''"

section \<open>Property maps\<close>

datatype prop_val = PNone | PStr string | PInt int | PBool bool | PList "string list"

text \<open>\<open>v in ("", 0, None, False)\<close>, or an empty container.\<close>

fun meaningless :: "prop_val \<Rightarrow> bool" where
  "meaningless PNone = True"
| "meaningless (PStr s) = (s = [])"
| "meaningless (PInt i) = (i = 0)"
| "meaningless (PBool b) = (\<not> b)"
| "meaningless (PList xs) = (xs = [])"

fun clean :: "(string \<times> prop_val) list \<Rightarrow> (string \<times> prop_val) list" where
  "clean [] = []"
| "clean ((k, v) # d) = (if meaningless v then clean d else (k, v) # clean d)"

lemma clean_filter: "clean d = filter (\<lambda>kv. \<not> meaningless (snd kv)) d"
  by (induction d rule: clean.induct) auto

lemma clean_lookup:
  "distinct (map fst d) \<Longrightarrow>
   map_of (clean d) k = (case map_of d k of None \<Rightarrow> None
                         | Some v \<Rightarrow> if meaningless v then None else Some v)"
proof (induction d rule: clean.induct)
  case (2 k' v d)
  then have "map_of d k' = None" by (simp add: map_of_eq_None_iff)
  with 2 show ?case by (auto split: option.splits)
qed simp

section \<open>Nodes\<close>

record node =
  n_id :: string
  n_label :: string
  n_name :: string
  n_fqn :: string
  n_repo :: string
  n_kind :: string
  n_lang :: string
  n_file :: string
  n_package :: string
  n_start_line :: int
  n_start_col :: int
  n_end_line :: int
  n_end_col :: int
  n_display_name :: string
  n_visibility :: string
  n_modifiers :: "string list"
  n_is_static :: bool
  n_is_abstract :: bool
  n_is_async :: bool
  n_return_type :: string
  n_param_count :: int
  n_param_names :: "string list"
  n_param_types :: "string list"
  n_signature :: string
  n_docstring :: string
  n_body_hash :: string
  n_method :: string
  n_route :: string
  n_host :: string
  n_loc :: int
  n_cyclomatic :: int
  n_branch_count :: int
  n_loop_count :: int
  n_component_role :: string
  n_role_source :: string
  n_role_confidence :: string
  n_module_id :: string
  n_scope :: string
  n_is_lock :: bool
  n_taint_categories :: "string list"
  n_taint_source :: bool
  n_taint_sanitizer :: bool
  n_taint_sites :: string
  n_extractor :: string
  n_confidence :: confidence

text \<open>The dataclass defaults: the five positional fields are given, the rest are empty.\<close>

definition mk_node :: "string \<Rightarrow> string \<Rightarrow> string \<Rightarrow> string \<Rightarrow> string \<Rightarrow> node" where
  "mk_node i l nm fq rp = \<lparr>
     n_id = i, n_label = l, n_name = nm, n_fqn = fq, n_repo = rp,
     n_kind = [], n_lang = [], n_file = [], n_package = [],
     n_start_line = 0, n_start_col = 0, n_end_line = 0, n_end_col = 0,
     n_display_name = [], n_visibility = [], n_modifiers = [],
     n_is_static = False, n_is_abstract = False, n_is_async = False,
     n_return_type = [], n_param_count = 0, n_param_names = [], n_param_types = [],
     n_signature = [], n_docstring = [], n_body_hash = [],
     n_method = [], n_route = [], n_host = [],
     n_loc = 0, n_cyclomatic = 0, n_branch_count = 0, n_loop_count = 0,
     n_component_role = [], n_role_source = [], n_role_confidence = [], n_module_id = [],
     n_scope = [], n_is_lock = False,
     n_taint_categories = [], n_taint_source = False, n_taint_sanitizer = False,
     n_taint_sites = [], n_extractor = [], n_confidence = EXTRACTED\<rparr>"

definition node_props :: "node \<Rightarrow> (string \<times> prop_val) list" where
  "node_props n = clean [
     (''name'', PStr (n_name n)),
     (''fqn'', PStr (n_fqn n)),
     (''repo'', PStr (n_repo n)),
     (''kind'', PStr (n_kind n)),
     (''lang'', PStr (n_lang n)),
     (''file'', PStr (n_file n)),
     (''start_line'', PInt (n_start_line n)),
     (''end_line'', PInt (n_end_line n)),
     (''visibility'', PStr (n_visibility n)),
     (''modifiers'', PList (n_modifiers n)),
     (''is_static'', PBool (n_is_static n)),
     (''is_abstract'', PBool (n_is_abstract n)),
     (''is_async'', PBool (n_is_async n)),
     (''return_type'', PStr (n_return_type n)),
     (''param_count'', PInt (n_param_count n)),
     (''param_names'', PList (n_param_names n)),
     (''signature'', PStr (n_signature n)),
     (''docstring'', PStr (n_docstring n)),
     (''body_hash'', PStr (n_body_hash n)),
     (''method'', PStr (n_method n)),
     (''route'', PStr (n_route n)),
     (''component_role'', PStr (n_component_role n)),
     (''role_confidence'', PStr (n_role_confidence n)),
     (''module_id'', PStr (n_module_id n)),
     (''scope'', PStr (n_scope n)),
     (''is_lock'', PBool (n_is_lock n)),
     (''taint_categories'', PList (n_taint_categories n)),
     (''taint_source'', PBool (n_taint_source n)),
     (''taint_sanitizer'', PBool (n_taint_sanitizer n)),
     (''taint_sites'', PStr (n_taint_sites n)),
     (''confidence'', PStr (conf_value (n_confidence n)))]"

record slim_node =
  s_id :: string
  s_label :: string
  s_name :: string
  s_fqn :: string
  s_kind :: string
  s_lang :: string
  s_file :: string
  s_package :: string
  s_scope :: string
  s_param_count :: int
  s_method :: string
  s_route :: string
  s_repo :: string
  s_start_line :: int
  s_start_col :: int
  s_end_line :: int

definition node_to_slim :: "node \<Rightarrow> slim_node" where
  "node_to_slim n = \<lparr>
     s_id = n_id n, s_label = n_label n, s_name = n_name n, s_fqn = n_fqn n,
     s_kind = n_kind n, s_lang = n_lang n, s_file = n_file n, s_package = n_package n,
     s_scope = n_scope n, s_param_count = n_param_count n,
     s_method = n_method n, s_route = n_route n,
     s_repo = n_repo n, s_start_line = n_start_line n,
     s_start_col = n_start_col n, s_end_line = n_end_line n\<rparr>"

section \<open>Edges and references\<close>

record edge =
  e_type :: string
  e_src :: string
  e_dst :: string
  e_confidence :: confidence
  e_origin :: origin
  e_extractor :: string
  e_evidence_file :: string
  e_evidence_line :: int
  e_evidence_col :: int
  e_strategy :: string

definition mk_edge :: "string \<Rightarrow> string \<Rightarrow> string \<Rightarrow> edge" where
  "mk_edge t s d = \<lparr>e_type = t, e_src = s, e_dst = d, e_confidence = EXTRACTED,
     e_origin = O_EXTRACTED, e_extractor = [], e_evidence_file = [], e_evidence_line = 0,
     e_evidence_col = 0, e_strategy = []\<rparr>"

definition edge_props :: "edge \<Rightarrow> (string \<times> prop_val) list" where
  "edge_props e = clean [
     (''confidence'', PStr (conf_value (e_confidence e))),
     (''origin'', PStr (origin_value (e_origin e))),
     (''evidence_line'', PInt (e_evidence_line e)),
     (''strategy'', PStr (e_strategy e))]"

record slim_edge =
  se_type :: string
  se_src :: string
  se_dst :: string

definition edge_to_slim :: "edge \<Rightarrow> slim_edge" where
  "edge_to_slim e = \<lparr>se_type = e_type e, se_src = e_src e, se_dst = e_dst e\<rparr>"

record raw_ref =
  r_type :: string
  r_src :: string
  r_target_name :: string
  r_kind_hint :: string
  r_recv :: string
  r_recv_type :: string
  r_import_fqn :: string
  r_http_method :: string
  r_ref_file :: string
  r_ref_line :: int
  r_ref_col :: int
  r_call_arity :: int
  r_strategy_hint :: string

definition mk_ref :: "string \<Rightarrow> string \<Rightarrow> string \<Rightarrow> raw_ref" where
  "mk_ref t s nm = \<lparr>r_type = t, r_src = s, r_target_name = nm, r_kind_hint = [],
     r_recv = [], r_recv_type = [], r_import_fqn = [], r_http_method = [],
     r_ref_file = [], r_ref_line = 0, r_ref_col = 0, r_call_arity = -1,
     r_strategy_hint = []\<rparr>"

section \<open>What is written, and what is not\<close>

lemma clean_meaningful: "(k, v) \<in> set (clean d) \<Longrightarrow> \<not> meaningless v"
  by (simp add: clean_filter)

lemma node_props_meaningful: "(k, v) \<in> set (node_props n) \<Longrightarrow> \<not> meaningless v"
  unfolding node_props_def by (rule clean_meaningful)

lemma edge_props_meaningful: "(k, v) \<in> set (edge_props e) \<Longrightarrow> \<not> meaningless v"
  unfolding edge_props_def by (rule clean_meaningful)

lemma edge_props_confidence:
  "map_of (edge_props e) ''confidence'' = Some (PStr (conf_value (e_confidence e)))"
  by (cases "e_confidence e") (auto simp: edge_props_def)

end
