(* ===== verification/Canonical.thy ===== *)
theory Canonical
  imports Models
begin

text \<open>
  The stage between extraction and resolution: bundles of extractor output are merged with
  first-wins deduplication (\<open>graph_core/canonical_ir.py\<close>), and every later producer of nodes
  appends through the same rule (\<open>_extend_unique\<close> in \<open>graph_core/pipeline.py\<close>).
\<close>

section \<open>Bundles\<close>

record canonical_bundle =
  b_nodes :: "node list"
  b_edges :: "edge list"
  b_refs :: "raw_ref list"

definition from_extractor :: "node list \<Rightarrow> edge list \<Rightarrow> raw_ref list \<Rightarrow> canonical_bundle" where
  "from_extractor ns es rs = \<lparr>b_nodes = ns, b_edges = es, b_refs = rs\<rparr>"

type_synonym edge_key = "string \<times> string \<times> string \<times> int \<times> int \<times> string"
type_synonym ref_key = "string \<times> string \<times> string \<times> string \<times> int \<times> int"

definition edge_key :: "edge \<Rightarrow> edge_key" where
  "edge_key e = (e_type e, e_src e, e_dst e, e_evidence_line e, e_evidence_col e,
                 e_evidence_file e)"

definition ref_key :: "raw_ref \<Rightarrow> ref_key" where
  "ref_key r = (r_type r, r_src r, r_target_name r, r_ref_file r, r_ref_line r, r_ref_col r)"

section \<open>Merging\<close>

record merge_state =
  ms_out :: canonical_bundle
  ms_nodes :: "string set"
  ms_edges :: "edge_key set"
  ms_refs :: "ref_key set"

definition merge_init :: merge_state where
  "merge_init = \<lparr>ms_out = from_extractor [] [] [], ms_nodes = {}, ms_edges = {}, ms_refs = {}\<rparr>"

definition merge_step :: "canonical_bundle \<Rightarrow> merge_state \<Rightarrow> merge_state" where
  "merge_step b s =
     (case keep_first n_id (ms_nodes s) (b_nodes b) of (ns, seen_n) \<Rightarrow>
      case keep_first edge_key (ms_edges s) (b_edges b) of (es, seen_e) \<Rightarrow>
      case keep_first ref_key (ms_refs s) (b_refs b) of (rs, seen_r) \<Rightarrow>
        \<lparr>ms_out = from_extractor (b_nodes (ms_out s) @ ns) (b_edges (ms_out s) @ es)
                    (b_refs (ms_out s) @ rs),
         ms_nodes = seen_n, ms_edges = seen_e, ms_refs = seen_r\<rparr>)"

definition merge_bundles :: "canonical_bundle list \<Rightarrow> canonical_bundle" where
  "merge_bundles bs = ms_out (fold merge_step bs merge_init)"

text \<open>The loop over bundles does to each of the three lists what one pass over the
  concatenation would.\<close>

lemma merge_fold:
  "fold merge_step bs s =
     \<lparr>ms_out = from_extractor
        (b_nodes (ms_out s) @ kept n_id (ms_nodes s) (concat (map b_nodes bs)))
        (b_edges (ms_out s) @ kept edge_key (ms_edges s) (concat (map b_edges bs)))
        (b_refs (ms_out s) @ kept ref_key (ms_refs s) (concat (map b_refs bs))),
      ms_nodes = ms_nodes s \<union> n_id ` set (concat (map b_nodes bs)),
      ms_edges = ms_edges s \<union> edge_key ` set (concat (map b_edges bs)),
      ms_refs = ms_refs s \<union> ref_key ` set (concat (map b_refs bs))\<rparr>"
proof (induction bs arbitrary: s)
  case Nil
  then show ?case by (cases s) (simp add: from_extractor_def kept_def)
next
  case (Cons b bs)
  have step: "fold merge_step (b # bs) s = fold merge_step bs (merge_step b s)" by simp
  show ?case
    unfolding step Cons.IH
    by (simp add: merge_step_def from_extractor_def keep_first_kept kept_append Un_assoc image_Un)
qed

lemma merge_nodes: "b_nodes (merge_bundles bs) = kept n_id {} (concat (map b_nodes bs))"
  and merge_edges: "b_edges (merge_bundles bs) = kept edge_key {} (concat (map b_edges bs))"
  and merge_refs: "b_refs (merge_bundles bs) = kept ref_key {} (concat (map b_refs bs))"
  by (simp_all add: merge_bundles_def merge_fold merge_init_def from_extractor_def)

lemmas merge_lists = merge_nodes merge_edges merge_refs

lemma bundle_eqI:
  "b_nodes (a::canonical_bundle) = b_nodes b \<Longrightarrow> b_edges a = b_edges b \<Longrightarrow> b_refs a = b_refs b \<Longrightarrow> a = b"
  by (cases a, cases b) simp

lemma kept_resume: "kept key {} (kept key {} xs @ ys) = kept key {} (xs @ ys)"
  by (simp add: kept_append kept_all kept_distinct kept_keys)

text \<open>Merging is first-wins on every list.  Each node id, edge site and reference site
  survives exactly once, the survivor is the first one with its key, nothing is invented,
  and the original order is kept.\<close>

theorem merge_bundles_first_wins:
  "distinct (map n_id (b_nodes (merge_bundles bs)))
   \<and> distinct (map edge_key (b_edges (merge_bundles bs)))
   \<and> distinct (map ref_key (b_refs (merge_bundles bs)))
   \<and> n_id ` set (b_nodes (merge_bundles bs)) = n_id ` (\<Union>b \<in> set bs. set (b_nodes b))
   \<and> edge_key ` set (b_edges (merge_bundles bs)) = edge_key ` (\<Union>b \<in> set bs. set (b_edges b))
   \<and> ref_key ` set (b_refs (merge_bundles bs)) = ref_key ` (\<Union>b \<in> set bs. set (b_refs b))
   \<and> subseq (b_nodes (merge_bundles bs)) (concat (map b_nodes bs))
   \<and> (\<forall>n \<in> set (b_nodes (merge_bundles bs)).
        find (\<lambda>m. n_id m = n_id n) (concat (map b_nodes bs)) = Some n)"
  using kept_first [of n_id _ "{}" "concat (map b_nodes bs)"]
  by (auto simp: merge_lists kept_distinct kept_keys kept_subseq)

theorem merge_bundles_first_wins_witness:
  "let a = mk_node ''i'' ''Class'' ''A'' ''p.A'' ''r''; b = mk_node ''i'' ''Class'' ''B'' ''q.A'' ''r'';
       c = mk_node ''j'' ''Class'' ''C'' ''p.C'' ''r'';
       bs = [from_extractor [a, c] [] [], from_extractor [b] [] []]
   in b_nodes (merge_bundles bs) = [a, c]
      \<and> find (\<lambda>m. n_id m = n_id c) (concat (map b_nodes bs)) = Some c"
proof -
  let ?a = "mk_node ''i'' ''Class'' ''A'' ''p.A'' ''r''" and ?b = "mk_node ''i'' ''Class'' ''B'' ''q.A'' ''r''"
  let ?c = "mk_node ''j'' ''Class'' ''C'' ''p.C'' ''r''"
  let ?bs = "[from_extractor [?a, ?c] [] [], from_extractor [?b] [] []]"
  have out: "b_nodes (merge_bundles ?bs) = [?a, ?c]"
    by (simp add: merge_lists kept_def from_extractor_def mk_node_def)
  with merge_bundles_first_wins [of ?bs] have
    "find (\<lambda>m. n_id m = n_id ?c) (concat (map b_nodes ?bs)) = Some ?c" by simp
  with out show ?thesis by (simp add: Let_def)
qed

text \<open>Merging in stages gives what merging at once gives.\<close>

lemma merge_bundles_resume: "merge_bundles (merge_bundles as # bs) = merge_bundles (as @ bs)"
  by (rule bundle_eqI) (simp_all add: merge_lists kept_resume)

section \<open>Later producers\<close>

text \<open>\<open>_extend_unique\<close>: the nonlocal \<open>all_nodes\<close> and \<open>known_node_ids\<close> are threaded; the accepted
  nodes are returned.\<close>

definition extend_unique ::
  "slim_node list \<Rightarrow> slim_node list \<times> string set \<Rightarrow> slim_node list \<times> (slim_node list \<times> string set)" where
  "extend_unique new s = (case s of (all, known) \<Rightarrow>
     case keep_first s_id known new of (accepted, known') \<Rightarrow>
       (accepted, (all @ accepted, known')))"

definition ids_ok :: "slim_node list \<times> string set \<Rightarrow> bool" where
  "ids_ok s = (distinct (map s_id (fst s)) \<and> snd s = s_id ` set (fst s))"

lemma extend_unique_ok: "ids_ok s \<Longrightarrow> ids_ok (snd (extend_unique new s))"
  using kept_keys [of s_id "snd s" new] kept_distinct [of s_id "snd s" new]
  by (cases s) (auto simp: extend_unique_def keep_first_kept ids_ok_def image_Un)

lemma extend_unique_fold_ok: "ids_ok s \<Longrightarrow> ids_ok (fold (\<lambda>b t. snd (extend_unique b t)) batches s)"
proof (induction batches arbitrary: s)
  case (Cons b bs)
  then show ?case using extend_unique_ok by (simp del: split_paired_All)
qed simp

lemma extend_unique_prefix:
  "fst s = take (length (fst s)) (fst (fold (\<lambda>b t. snd (extend_unique b t)) batches s))"
proof (induction batches arbitrary: s)
  case (Cons b bs)
  let ?t = "snd (extend_unique b s)"
  have "\<exists>z. fst ?t = fst s @ z" by (auto simp: extend_unique_def split: prod.splits)
  then obtain z where z: "fst ?t = fst s @ z" by blast
  from Cons.IH [of ?t] obtain w where "fst (fold (\<lambda>b t. snd (extend_unique b t)) bs ?t) = fst ?t @ w"
    by (metis append_take_drop_id)
  with z show ?case by simp
qed simp

end
