(* ===== verification/Validator.thy ===== *)
theory Validator
  imports Canonical "HOL-Library.List_Lexorder" "HOL-Library.Char_ord"
begin

text \<open>
  The edge tallies kept while edges are produced and the final graph validation
  (\<open>graph_core/validator.py\<close>).  A tally is a total function from edge types to counts, the
  \<open>defaultdict(int)\<close> of the code.  Messages are constructors carrying their numbers.
\<close>

section \<open>Running edge statistics\<close>

record edge_stats =
  rel_counts :: "string \<Rightarrow> nat"
  dangling :: nat
  total :: nat

definition edge_stats_init :: edge_stats where
  "edge_stats_init = \<lparr>rel_counts = (\<lambda>_. 0), dangling = 0, total = 0\<rparr>"

definition is_dangling :: "string set \<Rightarrow> slim_edge \<Rightarrow> bool" where
  "is_dangling ids e = (se_src e \<notin> ids \<or> se_dst e \<notin> ids)"

text \<open>The loop of \<open>EdgeStats.add\<close> with its two local counters.\<close>

fun add_loop :: "string set \<Rightarrow> slim_edge list \<Rightarrow> (string \<Rightarrow> nat) \<times> nat \<times> nat \<Rightarrow>
    (string \<Rightarrow> nat) \<times> nat \<times> nat" where
  "add_loop ids [] acc = acc"
| "add_loop ids (e # es) (rc, dang, tot) =
     add_loop ids es (rc(se_type e := rc (se_type e) + 1),
                      dang + (if se_src e \<notin> ids \<or> se_dst e \<notin> ids then 1 else 0), tot + 1)"

definition stats_add :: "slim_edge list \<Rightarrow> string set \<Rightarrow> edge_stats \<Rightarrow> edge_stats" where
  "stats_add es ids s = (case add_loop ids es (rel_counts s, 0, 0) of (rc, dang, tot) \<Rightarrow>
     s\<lparr>rel_counts := rc, total := total s + tot, dangling := dangling s + dang\<rparr>)"

definition stats_add_count :: "string \<Rightarrow> nat \<Rightarrow> edge_stats \<Rightarrow> edge_stats" where
  "stats_add_count t n s = (if n \<noteq> 0
     then s\<lparr>rel_counts := (rel_counts s)(t := rel_counts s t + n), total := total s + n\<rparr> else s)"

definition stats_reset :: "edge_stats \<Rightarrow> edge_stats" where
  "stats_reset s = s\<lparr>rel_counts := (\<lambda>_. 0), dangling := 0, total := 0\<rparr>"

lemma add_loop_counts:
  "add_loop ids es (rc, dang, tot) =
     (\<lambda>t. rc t + length (filter (\<lambda>e. se_type e = t) es),
      dang + length (filter (is_dangling ids) es), tot + length es)"
  by (induction es arbitrary: rc dang tot) (auto simp: is_dangling_def fun_eq_iff)

lemma stats_add_counts:
  "stats_add es ids s =
     \<lparr>rel_counts = (\<lambda>t. rel_counts s t + length (filter (\<lambda>e. se_type e = t) es)),
      dangling = dangling s + length (filter (is_dangling ids) es),
      total = total s + length es\<rparr>"
  by (cases s) (simp add: stats_add_def add_loop_counts)

text \<open>The producers add one batch after another, each with the ids known by then.\<close>

definition run_batches :: "(slim_edge list \<times> string set) list \<Rightarrow> edge_stats \<Rightarrow> edge_stats" where
  "run_batches bs s = fold (\<lambda>(es, ids). stats_add es ids) bs s"

lemma run_batches_Cons: "run_batches ((es, ids) # bs) s = run_batches bs (stats_add es ids s)"
  by (simp add: run_batches_def)

definition grows_to :: "string set \<Rightarrow> (slim_edge list \<times> string set) list \<Rightarrow> bool" where
  "grows_to final bs = (\<forall>(es, ids) \<in> set bs. ids \<subseteq> final)"

definition late_endpoints :: "string set \<Rightarrow> (slim_edge list \<times> string set) list \<Rightarrow> bool" where
  "late_endpoints final bs = (\<forall>(es, ids) \<in> set bs. \<forall>e \<in> set es.
     (se_src e \<in> final \<longrightarrow> se_src e \<in> ids) \<and> (se_dst e \<in> final \<longrightarrow> se_dst e \<in> ids))"

lemma run_batches_counts:
  "grows_to final bs \<Longrightarrow> late_endpoints final bs \<Longrightarrow>
   run_batches bs s = stats_add (concat (map fst bs)) final s"
proof (induction bs arbitrary: s)
  case Nil
  then show ?case by (simp add: run_batches_def stats_add_counts)
next
  case (Cons b bs)
  obtain es ids where b: "b = (es, ids)" by (cases b)
  with Cons have IH: "run_batches bs t = stats_add (concat (map fst bs)) final t" for t
    by (simp add: grows_to_def late_endpoints_def)
  have "filter (is_dangling ids) es = filter (is_dangling final) es"
    using Cons.prems b by (intro filter_cong) (auto simp: grows_to_def late_endpoints_def is_dangling_def)
  with IH b show ?case
    by (simp add: run_batches_Cons stats_add_counts add.assoc)
qed

text \<open>The tallies kept while edges are produced are those of one scan over all the edges
  at the end, as long as every batch is added when the endpoints it will ever have are
  known: the same per-type histogram, total and dangling count.\<close>

theorem edge_stats_equal_scan:
  assumes "\<forall>(es, ids) \<in> set bs. ids \<subseteq> final"
    and "\<forall>(es, ids) \<in> set bs. \<forall>e \<in> set es. (se_src e \<in> final \<longrightarrow> se_src e \<in> ids) \<and>
          (se_dst e \<in> final \<longrightarrow> se_dst e \<in> ids)"
  shows "run_batches bs edge_stats_init =
     \<lparr>rel_counts = (\<lambda>t. length (filter (\<lambda>e. se_type e = t) (concat (map fst bs)))),
      dangling = length (filter (\<lambda>e. se_src e \<notin> final \<or> se_dst e \<notin> final) (concat (map fst bs))),
      total = length (concat (map fst bs))\<rparr>"
  using run_batches_counts [of final bs edge_stats_init] assms
  by (simp add: grows_to_def late_endpoints_def stats_add_counts edge_stats_init_def
      is_dangling_def [abs_def])

theorem edge_stats_equal_scan_witness:
  "let e1 = \<lparr>se_type = ''CALLS'', se_src = ''a'', se_dst = ''b''\<rparr>;
       e2 = \<lparr>se_type = ''CALLS'', se_src = ''a'', se_dst = ''x''\<rparr>;
       bs = [([e1], {''a'', ''b''}), ([e2], {''a'', ''b'', ''c''})]
   in dangling (run_batches bs edge_stats_init) = 1 \<and> rel_counts (run_batches bs edge_stats_init) ''CALLS'' = 2"
  using edge_stats_equal_scan [of "[([\<lparr>se_type = ''CALLS'', se_src = ''a'', se_dst = ''b''\<rparr>], {''a'', ''b''}),
      ([\<lparr>se_type = ''CALLS'', se_src = ''a'', se_dst = ''x''\<rparr>], {''a'', ''b'', ''c''})]" "{''a'', ''b'', ''c''}"]
  by (simp add: Let_def)

section \<open>Validation\<close>

datatype graph_error = Duplicate_Ids nat nat | Dangling_Edges nat | Bad_Ranges nat

datatype graph_warning = Zero_Relation string

record report_stats =
  rs_nodes :: nat
  rs_edges :: nat
  rs_functions :: nat
  rs_dangling :: nat
  rs_bad_ranges :: nat
  rs_relations :: "string \<Rightarrow> nat"

record graph_report =
  gr_ok :: bool
  gr_errors :: "graph_error list"
  gr_warnings :: "graph_warning list"
  gr_stats :: report_stats
  gr_log :: "(string \<times> nat \<times> string \<times> string \<times> string \<times> string list) list"
  gr_unlisted :: nat

definition required_relations :: "string list" where
  "required_relations = [''CALLS'', ''CONTAINS'']"

definition dup_sample :: nat where
  "dup_sample = 20"

text \<open>\<open>Counter(ids).items()\<close>: each distinct id, in order of first occurrence, with its count.\<close>

fun counter_add :: "'a \<Rightarrow> ('a \<times> nat) list \<Rightarrow> ('a \<times> nat) list" where
  "counter_add x [] = [(x, 1)]"
| "counter_add x ((y, c) # r) = (if x = y then (y, c + 1) # r else (y, c) # counter_add x r)"

definition counter :: "'a list \<Rightarrow> ('a \<times> nat) list" where
  "counter xs = fold counter_add xs []"

definition or_dash :: "string \<Rightarrow> string" where
  "or_dash s = (if s = [] then ''-'' else s)"

definition dup_files :: "slim_node list \<Rightarrow> string list" where
  "dup_files same = (let fs = sort (remdups (map s_file (filter (\<lambda>n. s_file n \<noteq> []) same)))
     in if fs = [] then [''-''] else fs)"

definition dup_row :: "slim_node list \<Rightarrow> string \<times> nat \<Rightarrow>
    string \<times> nat \<times> string \<times> string \<times> string \<times> string list" where
  "dup_row nodes d = (case d of (nid, c) \<Rightarrow>
     let same = filter (\<lambda>n. s_id n = nid) nodes; first = hd same
     in (nid, c, s_label first, or_dash (s_kind first), or_dash (s_fqn first), dup_files same))"

definition bad_range :: "slim_node \<Rightarrow> bool" where
  "bad_range n = (s_start_line n \<noteq> 0 \<and> s_end_line n \<noteq> 0 \<and> s_end_line n < s_start_line n)"

definition validate_graph :: "slim_node list \<Rightarrow> edge_stats \<Rightarrow> graph_report" where
  "validate_graph nodes st =
     (let ids = map s_id nodes;
          uniq = card (set ids);
          dup = (length ids \<noteq> uniq);
          dupes = (if dup then filter (\<lambda>d. snd d > 1) (counter ids) else []);
          errs1 = (if dup then [Duplicate_Ids (length dupes) (length ids - uniq)] else []);
          log_rows = map (dup_row nodes) (take dup_sample (sort_key (\<lambda>d. - int (snd d)) dupes));
          errs2 = (if dangling st \<noteq> 0 then [Dangling_Edges (dangling st)] else []);
          bad = length (filter bad_range nodes);
          errs3 = (if bad \<noteq> 0 then [Bad_Ranges bad] else []);
          errs = errs1 @ errs2 @ errs3;
          warns = map Zero_Relation (filter (\<lambda>r. rel_counts st r = 0) required_relations)
      in \<lparr>gr_ok = (errs = []), gr_errors = errs, gr_warnings = warns,
          gr_stats = \<lparr>rs_nodes = length nodes, rs_edges = total st,
            rs_functions = length (filter (\<lambda>n. s_label n = ''Function'') nodes),
            rs_dangling = dangling st, rs_bad_ranges = bad, rs_relations = rel_counts st\<rparr>,
          gr_log = log_rows, gr_unlisted = length dupes - dup_sample\<rparr>)"

lemma counter_add_map:
  "map_of (counter_add x c) y =
     (if y = x then Some (case map_of c x of None \<Rightarrow> 1 | Some n \<Rightarrow> n + 1) else map_of c y)"
  by (induction x c rule: counter_add.induct) auto

lemma counter_add_keys: "fst ` set (counter_add x c) = insert x (fst ` set c)"
  by (induction x c rule: counter_add.induct) auto

lemma counter_add_distinct: "distinct (map fst c) \<Longrightarrow> distinct (map fst (counter_add x c))"
proof (induction x c rule: counter_add.induct)
  case (2 x y c r)
  then show ?case using counter_add_keys [of x r] by auto
qed simp

lemma counter_fold:
  "map_of (fold counter_add xs c) y =
     (if y \<in> set xs then Some ((case map_of c y of None \<Rightarrow> 0 | Some n \<Rightarrow> n) + count_list xs y)
      else map_of c y)"
  by (induction xs arbitrary: c) (auto simp: counter_add_map count_notin split: option.splits)

lemma counter_fold_distinct: "distinct (map fst c) \<Longrightarrow> distinct (map fst (fold counter_add xs c))"
  by (induction xs arbitrary: c) (auto intro: counter_add_distinct)

lemma counter_distinct: "distinct (map fst (counter xs))"
  by (simp add: counter_def counter_fold_distinct)

lemma counter_mem: "(x, n) \<in> set (counter xs) \<longleftrightarrow> x \<in> set xs \<and> n = count_list xs x"
proof -
  have "(x, n) \<in> set (counter xs) \<longleftrightarrow> map_of (counter xs) x = Some n"
    by (simp add: counter_distinct)
  then show ?thesis by (auto simp: counter_def counter_fold)
qed

lemma card_set_distinct: "(length xs \<noteq> card (set xs)) = (\<not> distinct xs)"
  by (metis card_distinct distinct_card)

lemma count_list_gt1: "\<not> distinct xs \<longleftrightarrow> (\<exists>x \<in> set xs. count_list xs x > 1)"
proof (induction xs)
  case (Cons a xs)
  show ?case
  proof (cases "a \<in> set xs")
    case True
    then have "count_list xs a > 0" using count_list_0_iff [of xs a] by simp
    then show ?thesis using True by (intro iffI) auto
  next
    case False
    with Cons show ?thesis by auto
  qed
qed simp

definition dup_ids :: "string list \<Rightarrow> (string \<times> nat) list" where
  "dup_ids ids = filter (\<lambda>d. snd d > 1) (counter ids)"

lemma dup_ids_mem: "(x, n) \<in> set (dup_ids xs) \<longleftrightarrow> x \<in> set xs \<and> n = count_list xs x \<and> n > 1"
  by (auto simp: dup_ids_def counter_mem)

lemma dup_ids_set: "set (dup_ids xs) = (\<lambda>x. (x, count_list xs x)) ` {x \<in> set xs. count_list xs x > 1}"
  by (auto simp: dup_ids_mem)

lemma dup_ids_fst: "fst ` set (dup_ids xs) = {x \<in> set xs. count_list xs x > 1}"
  by (simp add: dup_ids_set image_image)

lemma dup_ids_empty: "dup_ids xs = [] \<longleftrightarrow> distinct xs"
proof -
  have "dup_ids xs = [] \<longleftrightarrow> {x \<in> set xs. count_list xs x > 1} = {}"
    unfolding dup_ids_fst [symmetric] by simp
  then show ?thesis using count_list_gt1 [of xs] by auto
qed

lemma dup_ids_sum: "sum_list (map (\<lambda>d. snd d - 1) (dup_ids xs)) + card (set xs) = length xs"
proof -
  have cs: "set (counter xs) = (\<lambda>x. (x, count_list xs x)) ` set xs" by (auto simp: counter_mem)
  have "sum_list (map (\<lambda>d. snd d - 1) (filter (\<lambda>d. snd d > 1) c)) = sum_list (map (\<lambda>d. snd d - 1) c)"
    for c :: "(string \<times> nat) list" by (induction c) auto
  then have "sum_list (map (\<lambda>d. snd d - 1) (dup_ids xs)) = sum_list (map (\<lambda>d. snd d - 1) (counter xs))"
    by (simp add: dup_ids_def)
  also have "\<dots> = (\<Sum>d \<in> set (counter xs). snd d - 1)"
    using counter_distinct [of xs] by (simp add: sum_list_distinct_conv_sum_set distinct_map)
  also have "\<dots> = (\<Sum>x \<in> set xs. count_list xs x - 1)"
    unfolding cs by (subst sum.reindex) (auto simp: inj_on_def)
  finally have d: "sum_list (map (\<lambda>d. snd d - 1) (dup_ids xs)) = (\<Sum>x \<in> set xs. count_list xs x - 1)" .
  have "(\<Sum>x \<in> set xs. count_list xs x - 1) + card (set xs)
      = (\<Sum>x \<in> set xs. (count_list xs x - 1) + 1)" by (subst sum.distrib) simp
  also have "\<dots> = (\<Sum>x \<in> set xs. count_list xs x)"
    by (rule sum.cong) (auto simp: neq0_conv [symmetric] count_list_0_iff simp del: neq0_conv intro!: Suc_pred)
  also have "\<dots> = length xs" by (rule sum_count_set) auto
  finally show ?thesis using d by simp
qed

lemma validate_errors:
  "gr_errors (validate_graph nodes st) =
     (if distinct (map s_id nodes) then []
      else [Duplicate_Ids (length (dup_ids (map s_id nodes)))
             (sum_list (map (\<lambda>d. snd d - 1) (dup_ids (map s_id nodes))))])
     @ (if dangling st = 0 then [] else [Dangling_Edges (dangling st)])
     @ (if filter bad_range nodes = [] then [] else [Bad_Ranges (length (filter bad_range nodes))])"
proof -
  have "length (map s_id nodes) - card (set (map s_id nodes))
      = sum_list (map (\<lambda>d. snd d - 1) (dup_ids (map s_id nodes)))"
    using dup_ids_sum [of "map s_id nodes"] by simp
  then show ?thesis
    using card_set_distinct [of "map s_id nodes"]
    by (auto simp: validate_graph_def Let_def dup_ids_def)
qed

text \<open>Validation accepts a graph exactly when node ids are unique, no tallied edge dangles
  and no range is inverted; the duplicate error carries how many ids repeat and how many
  nodes are redundant, and the logged sample lists only ids that repeat, with their true
  multiplicity, at most \<open>dup_sample\<close> of them.\<close>

theorem validate_graph_exact:
  "gr_ok (validate_graph nodes st) =
     (distinct (map s_id nodes) \<and> dangling st = 0 \<and> filter bad_range nodes = [])
   \<and> gr_errors (validate_graph nodes st) =
     (if distinct (map s_id nodes) then []
      else [Duplicate_Ids (card {x \<in> set (map s_id nodes). count_list (map s_id nodes) x > 1})
             (length nodes - card (set (map s_id nodes)))])
     @ (if dangling st = 0 then [] else [Dangling_Edges (dangling st)])
     @ (if filter bad_range nodes = [] then [] else [Bad_Ranges (length (filter bad_range nodes))])
   \<and> (\<lambda>(i, c, _). (i, c)) ` set (gr_log (validate_graph nodes st))
       \<subseteq> {(i, c). c = count_list (map s_id nodes) i \<and> c > 1}
   \<and> length (gr_log (validate_graph nodes st)) + gr_unlisted (validate_graph nodes st)
       = card {x \<in> set (map s_id nodes). count_list (map s_id nodes) x > 1}"
proof (intro conjI)
  let ?ids = "map s_id nodes"
  let ?D = "{x \<in> set ?ids. count_list ?ids x > 1}"
  have fst: "?D = fst ` set (dup_ids ?ids)" by (simp only: dup_ids_fst)
  have dd: "distinct (map fst (dup_ids ?ids))"
    using counter_distinct [of ?ids] by (simp add: dup_ids_def distinct_map_filter)
  have len: "length (dup_ids ?ids) = card ?D"
    unfolding fst using dd by (metis distinct_card length_map set_map)
  have red: "sum_list (map (\<lambda>d. snd d - 1) (dup_ids ?ids)) = length nodes - card (set ?ids)"
    using dup_ids_sum [of ?ids] by simp
  show err: "gr_errors (validate_graph nodes st) =
     (if distinct ?ids then [] else [Duplicate_Ids (card ?D) (length nodes - card (set ?ids))])
     @ (if dangling st = 0 then [] else [Dangling_Edges (dangling st)])
     @ (if filter bad_range nodes = [] then [] else [Bad_Ranges (length (filter bad_range nodes))])"
    unfolding validate_errors len red ..
  have "gr_ok (validate_graph nodes st) = (gr_errors (validate_graph nodes st) = [])"
    by (simp add: validate_graph_def Let_def)
  then show "gr_ok (validate_graph nodes st) =
     (distinct ?ids \<and> dangling st = 0 \<and> filter bad_range nodes = [])"
    unfolding err by simp
  have log: "gr_log (validate_graph nodes st) =
      map (dup_row nodes) (take dup_sample (sort_key (\<lambda>d. - int (snd d)) (dup_ids ?ids)))"
    and unl: "gr_unlisted (validate_graph nodes st) = length (dup_ids ?ids) - dup_sample"
    using dup_ids_empty [of ?ids] card_set_distinct [of ?ids]
    by (auto simp: validate_graph_def Let_def dup_ids_def)
  show "(\<lambda>(i, c, _). (i, c)) ` set (gr_log (validate_graph nodes st))
       \<subseteq> {(i, c). c = count_list ?ids i \<and> c > 1}"
    unfolding log by (auto simp: dup_row_def Let_def dup_ids_mem dest!: in_set_takeD)
  show "length (gr_log (validate_graph nodes st)) + gr_unlisted (validate_graph nodes st) = card ?D"
    unfolding log unl len [symmetric] by simp
qed

text \<open>Starting from the merged bundles, no sequence of later producers can make validation
  report duplicate ids, because each appends through \<open>_extend_unique\<close>; and nodes extracted
  first are never displaced.\<close>

theorem no_duplicate_ids_from_pipeline:
  "let start = map node_to_slim (b_nodes (merge_bundles bs));
       all_nodes = fst (fold (\<lambda>b t. snd (extend_unique b t)) batches (start, s_id ` set start))
   in distinct (map s_id all_nodes)
      \<and> Duplicate_Ids k r \<notin> set (gr_errors (validate_graph all_nodes st))
      \<and> take (length start) all_nodes = start"
proof -
  define start where "start = map node_to_slim (b_nodes (merge_bundles bs))"
  let ?f = "fold (\<lambda>b t. snd (extend_unique b t)) batches (start, s_id ` set start)"
  have "map s_id start = map n_id (b_nodes (merge_bundles bs))"
    by (simp add: start_def node_to_slim_def)
  then have "ids_ok (start, s_id ` set start)"
    by (simp add: ids_ok_def merge_nodes kept_distinct)
  then have "ids_ok ?f" by (rule extend_unique_fold_ok)
  moreover have "start = take (length start) (fst ?f)"
    using extend_unique_prefix [of "(start, s_id ` set start)" batches] by simp
  ultimately show ?thesis
    unfolding start_def [symmetric] by (auto simp: ids_ok_def validate_errors Let_def)
qed

end
