(* ===== verification/Descriptor.thy ===== *)
theory Descriptor
  imports Prelude
begin

text \<open>
  Descriptors and parsed shapes of the class file reader
  (\<open>graph_core/bytecode/classfile.py\<close>): the raised errors, the JVM descriptor scanner, and the
  records a parsed class consists of with their derived properties.
\<close>

unbundle bit_operations_syntax

section \<open>Errors\<close>

text \<open>One constructor per \<open>raise ClassFileError\<close>, and \<open>struct.error\<close> for an \<open>unpack\<close> of a
  short slice, which the callers catch beside it.\<close>

datatype class_error =
    Not_Method_Descriptor string
  | Truncated_Descriptor string
  | Unterminated_Object string
  | Truncated nat nat nat
  | Skip_Past_End nat nat
  | Unknown_Tag nat nat
  | Index_Out_Of_Range nat
  | Not_Utf8 nat
  | Not_A_Class nat
  | Not_A_Member_Ref nat
  | Not_NameAndType nat
  | Not_InvokeDynamic nat
  | Missing_NameAndType
  | Truncated_Wide
  | Bad_Magic
  | Struct_Error

section \<open>Descriptors\<close>

definition primitives :: "string \<Rightarrow> string option" where
  "primitives = map_of [
     (''B'', ''byte''), (''C'', ''char''), (''D'', ''double''), (''F'', ''float''),
     (''I'', ''int''), (''J'', ''long''), (''S'', ''short''), (''Z'', ''boolean''), (''V'', ''void'')]"

text \<open>One character of the UTF-8 text: a byte and the continuation bytes after it.\<close>

definition is_continuation :: "char \<Rightarrow> bool" where
  "is_continuation c = (let n = (of_char c :: nat) in 128 \<le> n \<and> n < 192)"

definition first_char :: "string \<Rightarrow> string" where
  "first_char s = (case s of [] \<Rightarrow> [] | c # r \<Rightarrow> c # takeWhile is_continuation r)"

text \<open>The scanning loop, on the text from \<open>i\<close> on; \<open>d\<close> is the whole descriptor.\<close>

function params_loop :: "string \<Rightarrow> string \<Rightarrow> class_error + string list" where
  "params_loop d s =
     (if s = [] \<or> hd s = CHR '')'' then Inr []
      else
        let dims = takeWhile (\<lambda>c. c = CHR ''['') s;
            r = dropWhile (\<lambda>c. c = CHR ''['') s
        in if r = [] then Inl (Truncated_Descriptor d)
           else if hd r = CHR ''L'' \<and> CHR '';'' \<notin> set r then Inl (Unterminated_Object d)
           else
             let tok = (if hd r = CHR ''L'' then takeWhile (\<lambda>c. c \<noteq> CHR '';'') r @ '';''
                        else first_char r)
             in case params_loop d (drop (length tok) r) of
                  Inl e \<Rightarrow> Inl e
                | Inr ps \<Rightarrow> Inr ((dims @ tok) # ps))"
  by pat_completeness auto
termination
proof (relation "measure (\<lambda>(d, s). length s)", goal_cases)
  case (2 d s dims r tok)
  then have "length r \<le> length s" "0 < length tok" "r \<noteq> []"
    by (auto simp: length_dropWhile_le first_char_def split: list.splits)
  then show ?case by (cases r; cases tok) auto
qed simp

declare params_loop.simps [simp del]

definition descriptor_param_types :: "string \<Rightarrow> class_error + string list" where
  "descriptor_param_types d =
     (if CHR ''('' \<notin> set d then Inl (Not_Method_Descriptor d)
      else params_loop d (tl (dropWhile (\<lambda>c. c \<noteq> CHR ''('') d)))"

definition descriptor_arity :: "string \<Rightarrow> class_error + nat" where
  "descriptor_arity d = map_sum (\<lambda>e. e) length (descriptor_param_types d)"

definition type_name :: "string \<Rightarrow> string" where
  "type_name d =
     (let arrays = length (takeWhile (\<lambda>c. c = CHR ''['') d);
          s = dropWhile (\<lambda>c. c = CHR ''['') d;
          base = (if py_startswith s ''L'' \<and> py_endswith s '';''
                  then replace_char (CHR ''/'') (CHR ''.'') (butlast (tl s))
                  else (case primitives s of Some p \<Rightarrow> p | None \<Rightarrow> s))
      in base @ concat (replicate arrays ''[]''))"

definition simple_name :: "string \<Rightarrow> string" where
  "simple_name t = after_last (CHR ''.'') (replace_char (CHR ''/'') (CHR ''.'') t)"

section \<open>Parsed shapes\<close>

record invocation =
  i_opcode :: string
  i_owner :: string
  i_name :: string
  i_descriptor :: string
  i_line :: int
  i_offset :: nat

record field_access =
  a_opcode :: string
  a_owner :: string
  a_name :: string
  a_descriptor :: string
  a_line :: int

definition is_read :: "field_access \<Rightarrow> bool" where
  "is_read a = (a_opcode a = ''getfield'' \<or> a_opcode a = ''getstatic'')"

record field_info =
  f_name :: string
  f_descriptor :: string
  f_flags :: nat

record method_info =
  m_name :: string
  m_descriptor :: string
  m_flags :: nat
  m_invocations :: "invocation list"
  m_accesses :: "field_access list"
  m_instantiations :: "string list"
  m_start_line :: int
  m_end_line :: int

record class_info =
  c_name :: string
  c_super :: string
  c_interfaces :: "string list"
  c_flags :: nat
  c_major :: nat
  c_source_file :: string
  c_fields :: "field_info list"
  c_methods :: "method_info list"

definition ACC_PRIVATE :: nat where "ACC_PRIVATE = 0x0002"
definition ACC_STATIC :: nat where "ACC_STATIC = 0x0008"
definition ACC_FINAL :: nat where "ACC_FINAL = 0x0010"
definition ACC_BRIDGE :: nat where "ACC_BRIDGE = 0x0040"
definition ACC_INTERFACE :: nat where "ACC_INTERFACE = 0x0200"
definition ACC_ABSTRACT :: nat where "ACC_ABSTRACT = 0x0400"
definition ACC_SYNTHETIC :: nat where "ACC_SYNTHETIC = 0x1000"

lemmas acc_defs = ACC_PRIVATE_def ACC_STATIC_def ACC_FINAL_def ACC_BRIDGE_def
  ACC_INTERFACE_def ACC_ABSTRACT_def ACC_SYNTHETIC_def

definition has_flag :: "nat \<Rightarrow> nat \<Rightarrow> bool" where
  "has_flag fl acc = (fl AND acc \<noteq> 0)"

definition m_is_static :: "method_info \<Rightarrow> bool" where
  "m_is_static m = has_flag (m_flags m) ACC_STATIC"

definition m_is_private :: "method_info \<Rightarrow> bool" where
  "m_is_private m = has_flag (m_flags m) ACC_PRIVATE"

definition m_is_synthetic :: "method_info \<Rightarrow> bool" where
  "m_is_synthetic m = has_flag (m_flags m) ACC_SYNTHETIC"

definition m_is_bridge :: "method_info \<Rightarrow> bool" where
  "m_is_bridge m = has_flag (m_flags m) ACC_BRIDGE"

definition m_is_constructor :: "method_info \<Rightarrow> bool" where
  "m_is_constructor m = (m_name m = ''<init>'')"

definition m_is_class_initializer :: "method_info \<Rightarrow> bool" where
  "m_is_class_initializer m = (m_name m = ''<clinit>'')"

definition lambda_prefix :: string where
  "lambda_prefix = ''lambda$''"

definition m_is_lambda_body :: "method_info \<Rightarrow> bool" where
  "m_is_lambda_body m = py_startswith (m_name m) lambda_prefix"

definition m_enclosing_of_lambda :: "method_info \<Rightarrow> string" where
  "m_enclosing_of_lambda m = (if \<not> m_is_lambda_body m then []
     else rsplit_head (CHR ''$'') (drop (length lambda_prefix) (m_name m)))"

definition m_has_line_numbers :: "method_info \<Rightarrow> bool" where
  "m_has_line_numbers m = (m_start_line m > 0)"

definition m_param_types :: "method_info \<Rightarrow> class_error + string list" where
  "m_param_types m = map_sum (\<lambda>e. e) (map type_name) (descriptor_param_types (m_descriptor m))"

definition f_is_static :: "field_info \<Rightarrow> bool" where
  "f_is_static f = has_flag (f_flags f) ACC_STATIC"

definition f_is_synthetic :: "field_info \<Rightarrow> bool" where
  "f_is_synthetic f = has_flag (f_flags f) ACC_SYNTHETIC"

definition c_is_interface :: "class_info \<Rightarrow> bool" where
  "c_is_interface c = has_flag (c_flags c) ACC_INTERFACE"

definition c_is_synthetic :: "class_info \<Rightarrow> bool" where
  "c_is_synthetic c = has_flag (c_flags c) ACC_SYNTHETIC"

definition c_package :: "class_info \<Rightarrow> string" where
  "c_package c = (if CHR ''.'' \<in> set (c_name c) then rsplit_head (CHR ''.'') (c_name c) else [])"

definition c_outer_name :: "class_info \<Rightarrow> string" where
  "c_outer_name c = (if CHR ''$'' \<in> set (c_name c) then rsplit_head (CHR ''$'') (c_name c) else [])"

definition c_is_anonymous :: "class_info \<Rightarrow> bool" where
  "c_is_anonymous c =
     py_isdigit (if CHR ''$'' \<in> set (c_name c) then after_last (CHR ''$'') (c_name c) else [])"

definition c_source_path_hint :: "class_info \<Rightarrow> string" where
  "c_source_path_hint c =
     (if c_source_file c = [] then []
      else if c_package c \<noteq> []
      then replace_char (CHR ''.'') (CHR ''/'') (c_package c) @ ''/'' @ c_source_file c
      else c_source_file c)"

section \<open>The grammar of JVM types\<close>

text \<open>The descriptor grammar of the class file format, as a reference for the scanner.\<close>

datatype jtype = JPrim char | JObject string | JArray jtype

primrec jtype_desc :: "jtype \<Rightarrow> string" where
  "jtype_desc (JPrim c) = [c]"
| "jtype_desc (JObject n) = CHR ''L'' # n @ '';''"
| "jtype_desc (JArray t) = CHR ''['' # jtype_desc t"

primrec jtype_ok :: "jtype \<Rightarrow> bool" where
  "jtype_ok (JPrim c) = (c \<in> set ''BCDFIJSZ'')"
| "jtype_ok (JObject n) = (CHR '';'' \<notin> set n)"
| "jtype_ok (JArray t) = jtype_ok t"

primrec jtype_dims :: "jtype \<Rightarrow> nat" where
  "jtype_dims (JPrim c) = 0"
| "jtype_dims (JObject n) = 0"
| "jtype_dims (JArray t) = Suc (jtype_dims t)"

primrec jtype_base :: "jtype \<Rightarrow> jtype" where
  "jtype_base (JPrim c) = JPrim c"
| "jtype_base (JObject n) = JObject n"
| "jtype_base (JArray t) = jtype_base t"

definition method_desc :: "jtype list \<Rightarrow> string \<Rightarrow> string" where
  "method_desc ps ret = ''('' @ concat (map jtype_desc ps) @ '')'' @ ret"

primrec java_name :: "jtype \<Rightarrow> string" where
  "java_name (JPrim c) = the (primitives [c])"
| "java_name (JObject n) = replace_char (CHR ''/'') (CHR ''.'') n"
| "java_name (JArray t) = java_name t @ ''[]''"

lemma jtype_desc_split:
  "jtype_desc t = replicate (jtype_dims t) (CHR ''['') @ jtype_desc (jtype_base t)"
  by (induction t) auto

lemma jtype_base_cases:
  assumes "jtype_ok t"
  obtains c where "jtype_base t = JPrim c" "c \<in> set ''BCDFIJSZ''"
        | n where "jtype_base t = JObject n" "CHR '';'' \<notin> set n"
  using assms by (induction t) auto

lemma dims_take: "x \<noteq> c \<Longrightarrow> takeWhile (\<lambda>y. y = c) (replicate n c @ x # r) = replicate n c"
  and dims_drop: "x \<noteq> c \<Longrightarrow> dropWhile (\<lambda>y. y = c) (replicate n c @ x # r) = x # r"
  by (induction n) auto

lemma first_char_ascii: "\<not> is_continuation d \<Longrightarrow> first_char (c # d # r) = [c]"
  by (simp add: first_char_def)

lemma jtype_desc_head:
  assumes "jtype_ok t"
  obtains c r where "jtype_desc t = c # r" "\<not> is_continuation c" "c \<noteq> CHR '')''"
  using assms by (cases t) (auto simp: is_continuation_def)

lemma descs_head:
  assumes "\<forall>t \<in> set ts. jtype_ok t"
  obtains c r where "concat (map jtype_desc ts) @ '')'' @ ret = c # r" "\<not> is_continuation c"
proof (cases ts)
  case Nil
  then show ?thesis using that by (simp add: is_continuation_def)
next
  case (Cons t us)
  with assms have "jtype_ok t" by simp
  then show ?thesis by (rule jtype_desc_head) (use that Cons in auto)
qed

text \<open>One turn of the scanning loop on a well-formed type.\<close>

lemma params_loop_step:
  assumes ok: "jtype_ok t" and rest: "rest = c # r" "\<not> is_continuation c"
  shows "params_loop d (jtype_desc t @ rest) = map_sum (\<lambda>e. e) ((#) (jtype_desc t)) (params_loop d rest)"
proof -
  let ?b = "jtype_desc (jtype_base t)"
  let ?dims = "replicate (jtype_dims t) (CHR ''['')"
  have full: "jtype_desc t = ?dims @ ?b" by (rule jtype_desc_split)
  have hd: "jtype_desc t @ rest \<noteq> []" "hd (jtype_desc t @ rest) \<noteq> CHR '')''"
    using ok by (auto elim: jtype_desc_head)
  from ok show ?thesis
  proof (cases rule: jtype_base_cases)
    case (1 p)
    then have p: "p \<noteq> CHR ''[''" "p \<noteq> CHR ''L''" by auto
    have "params_loop d (jtype_desc t @ rest) =
        (case params_loop d rest of Inl e \<Rightarrow> Inl e | Inr ps \<Rightarrow> Inr ((?dims @ [p]) # ps))"
      using hd p 1 rest full first_char_ascii [OF rest(2), of p r]
      by (subst params_loop.simps) (simp add: dims_take dims_drop Let_def)
    then show ?thesis using 1 full by (simp split: sum.splits)
  next
    case (2 n)
    have tw: "takeWhile (\<lambda>c. c \<noteq> CHR '';'') (CHR ''L'' # n @ CHR '';'' # rest) = CHR ''L'' # n"
      using 2 by simp
    have "params_loop d (jtype_desc t @ rest) =
        (case params_loop d rest of Inl e \<Rightarrow> Inl e | Inr ps \<Rightarrow> Inr ((?dims @ CHR ''L'' # n @ '';'') # ps))"
      using hd 2 full tw
      by (subst params_loop.simps) (simp add: dims_take dims_drop Let_def)
    then show ?thesis using 2 full by (simp split: sum.splits)
  qed
qed

lemma params_loop_descs:
  "\<forall>t \<in> set ts. jtype_ok t \<Longrightarrow>
   params_loop d (concat (map jtype_desc ts) @ '')'' @ ret) = Inr (map jtype_desc ts)"
proof (induction ts)
  case Nil
  then show ?case by (subst params_loop.simps) simp
next
  case (Cons t ts)
  then have "\<forall>t \<in> set ts. jtype_ok t" by simp
  then obtain c r where "concat (map jtype_desc ts) @ '')'' @ ret = c # r" "\<not> is_continuation c"
    by (rule descs_head)
  with Cons show ?case using params_loop_step [of t _ c r d] by simp
qed

lemma type_name_java: "jtype_ok t \<Longrightarrow> type_name (jtype_desc t) = java_name t"
proof -
  assume ok: "jtype_ok t"
  have base: "type_name (jtype_desc (jtype_base t)) = java_name (jtype_base t)"
    using ok by (rule jtype_base_cases)
      (auto simp: type_name_def py_startswith_def py_endswith_def primitives_def replace_char_def)
  have jn: "java_name t = java_name (jtype_base t) @ concat (replicate (jtype_dims t) ''[]'')"
  proof (induction t)
    case (JArray t)
    have "concat (replicate n ''[]'') @ ''[]'' = ''[]'' @ concat (replicate n ''[]'')" for n
      by (induction n) auto
    with JArray show ?case by simp
  qed auto
  obtain x y where xy: "jtype_desc (jtype_base t) = x # y" "x \<noteq> CHR ''[''"
    using ok by (rule jtype_base_cases) auto
  have "type_name (jtype_desc t) = type_name (jtype_desc (jtype_base t)) @ concat (replicate (jtype_dims t) ''[]'')"
    using xy unfolding type_name_def jtype_desc_split [of t]
    by (simp add: dims_take dims_drop Let_def)
  with base jn show ?thesis by simp
qed

text \<open>On every descriptor of the JVM grammar the scanner returns exactly the parameter
  descriptors in order, so its arity (the key bytecode methods are matched by) is the true
  one, and the readable types are the source types, arrays and objects included.\<close>

theorem descriptor_roundtrip:
  assumes "\<forall>t \<in> set ps. jtype_ok t"
  shows "descriptor_param_types (method_desc ps ret) = Inr (map jtype_desc ps)
    \<and> descriptor_arity (method_desc ps ret) = Inr (length ps)
    \<and> map type_name (map jtype_desc ps) = map java_name ps"
proof -
  have "descriptor_param_types (method_desc ps ret) = Inr (map jtype_desc ps)"
    using params_loop_descs [OF assms] by (simp add: descriptor_param_types_def method_desc_def)
  then show ?thesis using assms by (auto simp: descriptor_arity_def type_name_java)
qed

theorem descriptor_roundtrip_witness:
  "descriptor_param_types ''(JLjava/lang/String;[[I)V'' = Inr [''J'', ''Ljava/lang/String;'', ''[[I'']"
  using descriptor_roundtrip [of "[JPrim (CHR ''J''), JObject ''java/lang/String'', JArray (JArray (JPrim (CHR ''I'')))]" "''V''"]
  by (simp add: method_desc_def)

end
