(* ===== verification/ByteReader.thy ===== *)
theory ByteReader
  imports Descriptor
begin

text \<open>
  The bounds-checked big-endian cursor \<open>_Reader\<close> of \<open>graph_core/bytecode/classfile.py\<close>, as
  parsers that take the reader and return an error or a value with the reader after it.  A
  Python exception leaves the reader behind, so nothing observes how far it had advanced.
  The interface \<open>codec\<close> states that a parser inverts an encoder wherever the encoding stands.
\<close>

type_synonym byte = "8 word"

record reader =
  rd_data :: "byte list"
  rd_pos :: nat

type_synonym 'a parser = "reader \<Rightarrow> class_error + ('a \<times> reader)"

definition ret :: "'a \<Rightarrow> 'a parser" where
  "ret x r = Inr (x, r)"

definition fail :: "class_error \<Rightarrow> 'a parser" where
  "fail e r = Inl e"

definition and_then :: "'a parser \<Rightarrow> ('a \<Rightarrow> 'b parser) \<Rightarrow> 'b parser" where
  "and_then m f r = (case m r of Inl e \<Rightarrow> Inl e | Inr (x, r') \<Rightarrow> f x r')"

definition lift_res :: "class_error + 'a \<Rightarrow> 'a parser" where
  "lift_res v r = (case v of Inl e \<Rightarrow> Inl e | Inr x \<Rightarrow> Inr (x, r))"

text \<open>\<open>[f() for _ in range(n)]\<close>\<close>

fun times :: "nat \<Rightarrow> 'a parser \<Rightarrow> 'a list parser" where
  "times 0 m = ret []"
| "times (Suc n) m = and_then m (\<lambda>x. and_then (times n m) (\<lambda>xs. ret (x # xs)))"

text \<open>\<open>struct.unpack\<close> of an unsigned big-endian integer.\<close>

definition be_value :: "byte list \<Rightarrow> nat" where
  "be_value bs = foldl (\<lambda>a b. a * 256 + unat b) 0 bs"

definition rd_take :: "nat \<Rightarrow> byte list parser" where
  "rd_take n r =
     (let end = rd_pos r + n in
      if end > length (rd_data r)
      then Inl (Truncated n (rd_pos r) (length (rd_data r) - rd_pos r))
      else Inr (take n (drop (rd_pos r) (rd_data r)), r\<lparr>rd_pos := end\<rparr>))"

definition u1 :: "nat parser" where
  "u1 = and_then (rd_take 1) (\<lambda>bs. ret (unat (hd bs)))"

definition u2 :: "nat parser" where
  "u2 = and_then (rd_take 2) (\<lambda>bs. ret (be_value bs))"

definition u4 :: "nat parser" where
  "u4 = and_then (rd_take 4) (\<lambda>bs. ret (be_value bs))"

text \<open>The argument is unsigned wherever \<open>skip\<close> is called, so its negative case cannot arise.\<close>

definition rd_skip :: "nat \<Rightarrow> unit parser" where
  "rd_skip n r =
     (if rd_pos r + n > length (rd_data r) then Inl (Skip_Past_End n (rd_pos r))
      else Inr ((), r\<lparr>rd_pos := rd_pos r + n\<rparr>))"

section \<open>Reading an encoding in place\<close>

definition reads :: "'a parser \<Rightarrow> byte list \<Rightarrow> 'a \<Rightarrow> bool" where
  "reads m bs x = (\<forall>pre post. m \<lparr>rd_data = pre @ bs @ post, rd_pos = length pre\<rparr> =
     Inr (x, \<lparr>rd_data = pre @ bs @ post, rd_pos = length pre + length bs\<rparr>))"

named_theorems reads_intro \<open>how parsers read what encoders write\<close>

lemma reads_ret [reads_intro]: "reads (ret x) [] x"
  by (simp add: reads_def ret_def)

lemma reads_lift [reads_intro]: "v = Inr x \<Longrightarrow> reads (lift_res v) [] x"
  by (simp add: reads_def lift_res_def)

lemma reads_and_then [reads_intro]:
  assumes "reads m as x" "reads (f x) bs y"
  shows "reads (and_then m f) (as @ bs) y"
  unfolding reads_def
proof (intro allI)
  fix pre post
  have "m \<lparr>rd_data = pre @ as @ (bs @ post), rd_pos = length pre\<rparr> =
     Inr (x, \<lparr>rd_data = (pre @ as) @ bs @ post, rd_pos = length (pre @ as)\<rparr>)"
    using assms(1) by (auto simp: reads_def)
  moreover have "f x \<lparr>rd_data = (pre @ as) @ bs @ post, rd_pos = length (pre @ as)\<rparr> =
     Inr (y, \<lparr>rd_data = (pre @ as) @ bs @ post, rd_pos = length (pre @ as) + length bs\<rparr>)"
    using assms(2) unfolding reads_def by blast
  ultimately show "and_then m f \<lparr>rd_data = pre @ (as @ bs) @ post, rd_pos = length pre\<rparr> =
     Inr (y, \<lparr>rd_data = pre @ (as @ bs) @ post, rd_pos = length pre + length (as @ bs)\<rparr>)"
    by (simp add: and_then_def add.assoc)
qed

lemma reads_then_ret: "reads m bs x \<Longrightarrow> reads (and_then m (\<lambda>x. ret (f x))) bs (f x)"
  using reads_and_then [OF _ reads_ret, of m bs x f] by simp

lemma reads_take [reads_intro]: "n = length bs \<Longrightarrow> reads (rd_take n) bs bs"
  by (simp add: reads_def rd_take_def Let_def)

lemma reads_skip [reads_intro]: "n = length bs \<Longrightarrow> reads (rd_skip n) bs ()"
  by (simp add: reads_def rd_skip_def)

lemma reads_whole: "reads m bs x \<Longrightarrow> m \<lparr>rd_data = bs, rd_pos = 0\<rparr> =
    Inr (x, \<lparr>rd_data = bs, rd_pos = length bs\<rparr>)"
  unfolding reads_def by (drule spec [of _ "[]"], drule spec [of _ "[]"]) simp

lemma reads_prefix: "reads m bs x \<Longrightarrow> m \<lparr>rd_data = bs @ post, rd_pos = 0\<rparr> =
    Inr (x, \<lparr>rd_data = bs @ post, rd_pos = length bs\<rparr>)"
  unfolding reads_def by (drule spec [of _ "[]"], drule spec [of _ post]) simp

section \<open>Fixed-width integers\<close>

definition enc1 :: "nat \<Rightarrow> byte list" where
  "enc1 n = [of_nat n]"

definition enc2 :: "nat \<Rightarrow> byte list" where
  "enc2 n = [of_nat (n div 256), of_nat n]"

definition enc4 :: "nat \<Rightarrow> byte list" where
  "enc4 n = [of_nat (n div 16777216), of_nat (n div 65536), of_nat (n div 256), of_nat n]"

lemma enc_length [simp]: "length (enc1 n) = 1" "length (enc2 n) = 2" "length (enc4 n) = 4"
  by (simp_all add: enc1_def enc2_def enc4_def)

lemma unat_byte: "unat (of_nat n :: byte) = n mod 256"
  by (simp add: unat_of_nat)

lemma be_value_enc1: "n < 256 \<Longrightarrow> be_value (enc1 n) = n"
  by (simp add: be_value_def enc1_def unat_byte)

lemma be_value_enc2: "n < 65536 \<Longrightarrow> be_value (enc2 n) = n"
  by (simp add: be_value_def enc2_def unat_byte)

lemma be_value_enc4: "n < 4294967296 \<Longrightarrow> be_value (enc4 n) = n"
proof -
  assume n: "n < 4294967296"
  define a where "a = n div 256"
  define b where "b = a div 256"
  define c where "c = b div 256"
  have d: "n div 65536 = b" "n div 16777216 = c"
    by (simp_all add: a_def b_def c_def div_mult2_eq [symmetric])
  have c: "c < 256" using n unfolding c_def b_def a_def by (simp add: div_mult2_eq [symmetric])
  have "be_value (enc4 n) = ((c * 256 + b mod 256) * 256 + a mod 256) * 256 + n mod 256"
    using c by (simp add: be_value_def enc4_def unat_byte d a_def [symmetric])
  also have "\<dots> = n"
    unfolding a_def b_def c_def by (simp only: div_mult_mod_eq)
  finally show ?thesis .
qed

lemma reads_u1 [reads_intro]: "n < 256 \<Longrightarrow> reads u1 (enc1 n) n"
  using reads_then_ret [OF reads_take [of 1 "enc1 n"], of "\<lambda>bs. unat (hd bs)"]
  by (simp add: u1_def enc1_def unat_byte)

lemma reads_u2 [reads_intro]: "n < 65536 \<Longrightarrow> reads u2 (enc2 n) n"
  using reads_then_ret [OF reads_take [of 2 "enc2 n"], of be_value]
  by (simp add: u2_def be_value_enc2)

lemma reads_u4 [reads_intro]: "n < 4294967296 \<Longrightarrow> reads u4 (enc4 n) n"
  using reads_then_ret [OF reads_take [of 4 "enc4 n"], of be_value]
  by (simp add: u4_def be_value_enc4)

lemma reads_at:
  "reads m bs x \<Longrightarrow> p = length pre \<Longrightarrow> d = pre @ bs @ post \<Longrightarrow>
   m \<lparr>rd_data = d, rd_pos = p\<rparr> = Inr (x, \<lparr>rd_data = d, rd_pos = p + length bs\<rparr>)"
  by (simp add: reads_def)

lemma enc_inject:
  "m < 65536 \<Longrightarrow> n < 65536 \<Longrightarrow> enc2 m = enc2 n \<Longrightarrow> m = n"
  by (metis be_value_enc2)

section \<open>Codecs\<close>

text \<open>A counted table of the format: a two-byte length and the entries.\<close>

definition enc_table :: "('a \<Rightarrow> byte list) \<Rightarrow> 'a list \<Rightarrow> byte list" where
  "enc_table enc xs = enc2 (length xs) @ concat (map enc xs)"

text \<open>The contract between a writer of class files and a parser: wherever the encoding of an
  admissible value stands in the data, the parser started there returns what the value means
  and stops right behind it.  Repetition and the counted tables of the format follow.\<close>

locale codec =
  fixes enc :: "'a \<Rightarrow> byte list"
    and dec :: "'b parser"
    and meaning :: "'a \<Rightarrow> 'b"
    and ok :: "'a \<Rightarrow> bool"
  assumes dec_enc: "ok x \<Longrightarrow> reads dec (enc x) (meaning x)"
begin

lemma times_enc:
  "\<forall>x \<in> set xs. ok x \<Longrightarrow> n = length xs \<Longrightarrow>
   reads (times n dec) (concat (map enc xs)) (map meaning xs)"
proof (induction xs arbitrary: n)
  case Nil
  then show ?case by (simp add: reads_ret)
next
  case (Cons x xs)
  then have "reads dec (enc x) (meaning x)"
    and "reads (times (length xs) dec) (concat (map enc xs)) (map meaning xs)"
    by (auto intro: dec_enc)
  then show ?case
    using Cons.prems(2) by (auto intro: reads_and_then reads_then_ret)
qed

lemma table_enc:
  "\<forall>x \<in> set xs. ok x \<Longrightarrow> length xs < 65536 \<Longrightarrow>
   reads (and_then u2 (\<lambda>n. times n dec)) (enc_table enc xs) (map meaning xs)"
  unfolding enc_table_def by (rule reads_and_then [OF reads_u2]) (auto intro: times_enc)

lemma table_then:
  "\<forall>x \<in> set xs. ok x \<Longrightarrow> length xs < 65536 \<Longrightarrow> reads (f (map meaning xs)) bs y \<Longrightarrow>
   reads (and_then (and_then u2 (\<lambda>n. times n dec)) f) (enc_table enc xs @ bs) y"
  by (rule reads_and_then [OF table_enc])

lemma enc_then: "ok x \<Longrightarrow> reads (f (meaning x)) bs y \<Longrightarrow> reads (and_then dec f) (enc x @ bs) y"
  by (rule reads_and_then [OF dec_enc])

end

interpretation u2c: codec enc2 u2 "\<lambda>n. n" "\<lambda>n. n < 65536"
  by unfold_locales (rule reads_u2)

section \<open>Parsers only look at what they consume\<close>

text \<open>A parser is stable when a successful run keeps the data, does not move back, ends inside
  the data, and gives the same result when more data follows.\<close>

definition stable :: "'a parser \<Rightarrow> bool" where
  "stable m = (\<forall>d p x r. p \<le> length d \<longrightarrow> m \<lparr>rd_data = d, rd_pos = p\<rparr> = Inr (x, r) \<longrightarrow>
     rd_data r = d \<and> p \<le> rd_pos r \<and> rd_pos r \<le> length d \<and>
     (\<forall>z. m \<lparr>rd_data = d @ z, rd_pos = p\<rparr> = Inr (x, \<lparr>rd_data = d @ z, rd_pos = rd_pos r\<rparr>)))"

named_theorems stable_intro \<open>parsers that only look at what they consume\<close>

lemma stable_ret [stable_intro]: "stable (ret x)"
  by (auto simp: stable_def ret_def)

lemma stable_fail [stable_intro]: "stable (fail e)"
  by (auto simp: stable_def fail_def)

lemma stable_lift [stable_intro]: "stable (lift_res v)"
  by (auto simp: stable_def lift_res_def split: sum.splits)

lemma stable_take [stable_intro]: "stable (rd_take n)"
  by (auto simp: stable_def rd_take_def Let_def split: if_splits)

lemma stable_skip [stable_intro]: "stable (rd_skip n)"
  by (auto simp: stable_def rd_skip_def split: if_splits)

lemma stable_run:
  assumes "stable m" "p \<le> length d" "m \<lparr>rd_data = d, rd_pos = p\<rparr> = Inr (x, r)"
  obtains q where "r = \<lparr>rd_data = d, rd_pos = q\<rparr>" "p \<le> q" "q \<le> length d"
    "\<forall>z. m \<lparr>rd_data = d @ z, rd_pos = p\<rparr> = Inr (x, \<lparr>rd_data = d @ z, rd_pos = q\<rparr>)"
proof -
  have r: "rd_data r = d" "p \<le> rd_pos r" "rd_pos r \<le> length d"
    "\<forall>z. m \<lparr>rd_data = d @ z, rd_pos = p\<rparr> = Inr (x, \<lparr>rd_data = d @ z, rd_pos = rd_pos r\<rparr>)"
    using assms unfolding stable_def by blast+
  from r(1) have "r = \<lparr>rd_data = d, rd_pos = rd_pos r\<rparr>" by (cases r) simp
  then show ?thesis using that r(2-4) by blast
qed

lemma stable_and_then [stable_intro]:
  assumes m: "stable m" and f: "\<And>x. stable (f x)"
  shows "stable (and_then m f)"
  unfolding stable_def
proof (intro allI impI)
  fix d p y r
  assume p: "p \<le> length d" and run: "and_then m f \<lparr>rd_data = d, rd_pos = p\<rparr> = Inr (y, r)"
  from run obtain x r1 where 1: "m \<lparr>rd_data = d, rd_pos = p\<rparr> = Inr (x, r1)" and 2: "f x r1 = Inr (y, r)"
    by (auto simp: and_then_def split: sum.splits)
  from m p 1 obtain q where q: "r1 = \<lparr>rd_data = d, rd_pos = q\<rparr>" "p \<le> q" "q \<le> length d"
    "\<forall>z. m \<lparr>rd_data = d @ z, rd_pos = p\<rparr> = Inr (x, \<lparr>rd_data = d @ z, rd_pos = q\<rparr>)"
    by (rule stable_run)
  from f q(3) 2 [unfolded q(1)] obtain q' where "r = \<lparr>rd_data = d, rd_pos = q'\<rparr>" "q \<le> q'" "q' \<le> length d"
    "\<forall>z. f x \<lparr>rd_data = d @ z, rd_pos = q\<rparr> = Inr (y, \<lparr>rd_data = d @ z, rd_pos = q'\<rparr>)"
    by (rule stable_run)
  with q show "rd_data r = d \<and> p \<le> rd_pos r \<and> rd_pos r \<le> length d \<and>
     (\<forall>z. and_then m f \<lparr>rd_data = d @ z, rd_pos = p\<rparr> = Inr (y, \<lparr>rd_data = d @ z, rd_pos = rd_pos r\<rparr>))"
    by (auto simp: and_then_def)
qed

lemma stable_times [stable_intro]: "stable m \<Longrightarrow> stable (times n m)"
  by (induction n) (auto intro: stable_intro)

lemma stable_ints [stable_intro]: "stable u1" "stable u2" "stable u4"
  unfolding u1_def u2_def u4_def by (auto intro: stable_intro)

text \<open>So a parser that consumes all of an encoding fails on each of its strict prefixes.\<close>

lemma stable_truncated:
  assumes "stable m" "reads m bs x" "k < length bs"
  shows "\<exists>e. m \<lparr>rd_data = take k bs, rd_pos = 0\<rparr> = Inl e"
proof (cases "m \<lparr>rd_data = take k bs, rd_pos = 0\<rparr>")
  case (Inr yr)
  obtain y r where yr: "yr = (y, r)" by (cases yr)
  from assms(1) _ Inr [unfolded yr] obtain q where q: "q \<le> length (take k bs)"
    "\<forall>z. m \<lparr>rd_data = take k bs @ z, rd_pos = 0\<rparr> = Inr (y, \<lparr>rd_data = take k bs @ z, rd_pos = q\<rparr>)"
    by (rule stable_run) auto
  from q(2) [THEN spec, of "drop k bs"] reads_whole [OF assms(2)] have "q = length bs" by simp
  with q(1) assms(3) show ?thesis by simp
qed simp

end
