(* ===== verification/ConstPool.thy ===== *)
theory ConstPool
  imports ByteReader
begin

text \<open>
  The constant pool of a class file (\<open>graph_core/bytecode/classfile.py\<close>): UTF-8 decoding
  with replacement, the pool parser with its one- and two-slot entries, and the typed
  accessors of \<open>_Pool\<close>.  The values of numeric constants are kept as their bytes: no
  accessor reads them.
\<close>

section \<open>Decoding text\<close>

text \<open>\<open>bytes.decode("utf-8", "replace")\<close>: a maximal ill-formed prefix becomes one U+FFFD.\<close>

definition u_fffd :: string where
  "u_fffd = [CHR 0xEF, CHR 0xBF, CHR 0xBD]"

definition is_cont :: "byte \<Rightarrow> bool" where
  "is_cont b = (let n = unat b in 128 \<le> n \<and> n < 192)"

definition seq_need :: "byte \<Rightarrow> nat" where
  "seq_need b = (let n = unat b in
     if n < 128 then 1 else if n < 194 then 0 else if n < 224 then 2
     else if n < 240 then 3 else if n < 245 then 4 else 0)"

definition second_ok :: "byte \<Rightarrow> byte \<Rightarrow> bool" where
  "second_ok b c = (let n = unat b; m = unat c in is_cont c
     \<and> (n = 224 \<longrightarrow> 160 \<le> m) \<and> (n = 237 \<longrightarrow> m < 160) \<and> (n = 240 \<longrightarrow> 144 \<le> m) \<and> (n = 244 \<longrightarrow> m < 144))"

definition seq_have :: "byte \<Rightarrow> byte list \<Rightarrow> nat" where
  "seq_have b bs = (if seq_need b \<le> 1 then 1
     else if bs \<noteq> [] \<and> second_ok b (hd bs)
     then 2 + length (takeWhile is_cont (take (seq_need b - 2) (tl bs))) else 1)"

definition byte_char :: "byte \<Rightarrow> char" where
  "byte_char b = char_of (unat b)"

definition char_byte :: "char \<Rightarrow> byte" where
  "char_byte c = of_nat (of_char c)"

function utf8_replace :: "byte list \<Rightarrow> string" where
  "utf8_replace [] = []"
| "utf8_replace (b # bs) =
     (if seq_have b bs = seq_need b
      then map byte_char (take (seq_need b) (b # bs)) else u_fffd)
     @ utf8_replace (drop (seq_have b bs - 1) bs)"
  by pat_completeness auto
termination by (relation "measure length") auto

lemma char_byte_inverse [simp]: "byte_char (char_byte c) = c"
  by (simp add: byte_char_def char_byte_def unat_of_nat)

definition ascii :: "string \<Rightarrow> bool" where
  "ascii s = list_all (\<lambda>c. (of_char c :: nat) < 128) s"

lemma utf8_ascii: "ascii s \<Longrightarrow> utf8_replace (map char_byte s) = s"
proof (induction s)
  case (Cons c s)
  then have "unat (char_byte c) < 128" by (simp add: ascii_def char_byte_def unat_of_nat)
  then have "seq_need (char_byte c) = 1" by (simp add: seq_need_def)
  then have "seq_have (char_byte c) (map char_byte s) = 1" by (simp add: seq_have_def)
  with Cons \<open>seq_need (char_byte c) = 1\<close> show ?case by (simp add: ascii_def)
qed simp

section \<open>Entries\<close>

datatype cp_entry =
    CP_Unused
  | CP_Utf8 string
  | CP_One nat nat
  | CP_Two nat nat nat
  | CP_Number nat "byte list"

datatype cp_format = F_I | F_F | F_Q | F_D | F_H | F_HH

definition cp_layout :: "nat \<Rightarrow> (cp_format \<times> nat) option" where
  "cp_layout tag = map_of [
     (3, (F_I, 1)), (4, (F_F, 1)), (5, (F_Q, 2)), (6, (F_D, 2)),
     (7, (F_H, 1)), (8, (F_H, 1)), (9, (F_HH, 1)), (10, (F_HH, 1)), (11, (F_HH, 1)),
     (12, (F_HH, 1)), (16, (F_H, 1)), (17, (F_HH, 1)), (18, (F_HH, 1)), (19, (F_H, 1)),
     (20, (F_H, 1))] tag"

primrec calcsize :: "cp_format \<Rightarrow> nat" where
  "calcsize F_I = 4" | "calcsize F_F = 4" | "calcsize F_Q = 8" | "calcsize F_D = 8"
| "calcsize F_H = 2" | "calcsize F_HH = 4"

definition unpack_entry :: "nat \<Rightarrow> cp_format \<Rightarrow> byte list \<Rightarrow> cp_entry" where
  "unpack_entry tag f bs = (case f of
     F_H \<Rightarrow> CP_One tag (be_value bs)
   | F_HH \<Rightarrow> CP_Two tag (be_value (take 2 bs)) (be_value (drop 2 bs))
   | _ \<Rightarrow> CP_Number tag bs)"

text \<open>One turn of the loop: the entry stored at \<open>pool[i]\<close> and the slots it takes.\<close>

definition read_entry :: "nat \<Rightarrow> (cp_entry \<times> nat) parser" where
  "read_entry i = and_then u1 (\<lambda>tag.
     if tag = 1 then
       and_then u2 (\<lambda>n. and_then (rd_take n) (\<lambda>bs. ret (CP_Utf8 (utf8_replace bs), 1)))
     else if tag = 15 then
       and_then u1 (\<lambda>k. and_then u2 (\<lambda>x. ret (CP_Two tag k x, 1)))
     else (case cp_layout tag of
         None \<Rightarrow> fail (Unknown_Tag tag i)
       | Some (f, slots) \<Rightarrow> and_then (rd_take (calcsize f)) (\<lambda>bs. ret (unpack_entry tag f bs, slots))))"

lemma cp_layout_slots: "cp_layout tag = Some (f, n) \<Longrightarrow> n = 1 \<or> n = 2"
  by (auto simp: cp_layout_def split: if_splits)

lemma and_then_Inr: "and_then m f r = Inr z \<longleftrightarrow> (\<exists>x r'. m r = Inr (x, r') \<and> f x r' = Inr z)"
  by (auto simp: and_then_def split: sum.splits)

lemma read_entry_slots: "read_entry i r = Inr ((e, n), r') \<Longrightarrow> n = 1 \<or> n = 2"
  by (auto simp: read_entry_def and_then_Inr ret_def fail_def dest: cp_layout_slots
      split: if_splits option.splits prod.splits)

function cp_loop :: "nat \<Rightarrow> nat \<Rightarrow> cp_entry list \<Rightarrow> cp_entry list parser" where
  "cp_loop cnt i pool r =
     (if i < cnt then
        (case read_entry i r of
           Inl e \<Rightarrow> Inl e
         | Inr ((e, slots), r') \<Rightarrow> cp_loop cnt (i + slots) (pool[i := e]) r')
      else Inr (pool, r))"
  by pat_completeness auto
termination
proof (relation "measure (\<lambda>(cnt, i, pool, r). cnt - i)", goal_cases)
  case (2 cnt i pool r)
  then show ?case by (fastforce dest: read_entry_slots)
qed simp

declare cp_loop.simps [simp del]

definition parse_constant_pool :: "nat \<Rightarrow> cp_entry list parser" where
  "parse_constant_pool cnt = cp_loop cnt 1 (replicate cnt CP_Unused)"

section \<open>Typed accessors\<close>

definition entry_at :: "cp_entry list \<Rightarrow> nat \<Rightarrow> cp_entry" where
  "entry_at pool i = (if 0 < i \<and> i < length pool then pool ! i else CP_Unused)"

definition pool_utf8 :: "cp_entry list \<Rightarrow> nat \<Rightarrow> class_error + string" where
  "pool_utf8 pool i =
     (if \<not> (0 < i \<and> i < length pool) then Inl (Index_Out_Of_Range i)
      else (case pool ! i of CP_Utf8 s \<Rightarrow> Inr s | _ \<Rightarrow> Inl (Not_Utf8 i)))"

definition res_bind :: "'e + 'a \<Rightarrow> ('a \<Rightarrow> 'e + 'b) \<Rightarrow> 'e + 'b" where
  "res_bind m f = (case m of Inl e \<Rightarrow> Inl e | Inr x \<Rightarrow> f x)"

lemma res_bind_simps [simp]: "res_bind (Inl e) f = Inl e" "res_bind (Inr x) f = f x"
  by (simp_all add: res_bind_def)

definition pool_class_name :: "cp_entry list \<Rightarrow> nat \<Rightarrow> class_error + string" where
  "pool_class_name pool i =
     (if i = 0 then Inr []
      else (case entry_at pool i of
          CP_One t n \<Rightarrow>
            if t = 7 then res_bind (pool_utf8 pool n) (\<lambda>s. Inr (replace_char (CHR ''/'') (CHR ''.'') s))
            else Inl (Not_A_Class i)
        | _ \<Rightarrow> Inl (Not_A_Class i)))"

definition name_and_type :: "cp_entry list \<Rightarrow> nat \<Rightarrow> (nat \<times> nat) option" where
  "name_and_type pool i =
     (case entry_at pool i of CP_Two t a b \<Rightarrow> if t = 12 then Some (a, b) else None | _ \<Rightarrow> None)"

definition pool_member_ref :: "cp_entry list \<Rightarrow> nat \<Rightarrow> class_error + (string \<times> string \<times> string)" where
  "pool_member_ref pool i =
     (case entry_at pool i of
        CP_Two t ci ni \<Rightarrow>
          if t \<in> {9, 10, 11} then
            (case name_and_type pool ni of
               None \<Rightarrow> Inl (Not_NameAndType ni)
             | Some (a, b) \<Rightarrow>
                 res_bind (pool_class_name pool ci) (\<lambda>owner.
                 res_bind (pool_utf8 pool a) (\<lambda>nm.
                 res_bind (pool_utf8 pool b) (\<lambda>d. Inr (owner, nm, d)))))
          else Inl (Not_A_Member_Ref i)
      | _ \<Rightarrow> Inl (Not_A_Member_Ref i))"

definition pool_invokedynamic :: "cp_entry list \<Rightarrow> nat \<Rightarrow> class_error + (string \<times> string)" where
  "pool_invokedynamic pool i =
     (case entry_at pool i of
        CP_Two t b n \<Rightarrow>
          if t = 18 then
            (case name_and_type pool n of
               None \<Rightarrow> Inl Missing_NameAndType
             | Some (x, y) \<Rightarrow>
                 res_bind (pool_utf8 pool x) (\<lambda>nm. res_bind (pool_utf8 pool y) (\<lambda>d. Inr (nm, d))))
          else Inl (Not_InvokeDynamic i)
      | _ \<Rightarrow> Inl (Not_InvokeDynamic i))"

section \<open>What a writer puts into the pool\<close>

fun cp_ok :: "cp_entry \<Rightarrow> bool" where
  "cp_ok CP_Unused = False"
| "cp_ok (CP_Utf8 s) = (length s < 65536 \<and> utf8_replace (map char_byte s) = s)"
| "cp_ok (CP_One t a) = (t \<in> {7, 8, 16, 19, 20} \<and> a < 65536)"
| "cp_ok (CP_Two t a b) = ((t \<in> {9, 10, 11, 12, 17, 18} \<and> a < 65536 \<or> t = 15 \<and> a < 256) \<and> b < 65536)"
| "cp_ok (CP_Number t bs) = (t \<in> {3, 4} \<and> length bs = 4 \<or> t \<in> {5, 6} \<and> length bs = 8)"

fun enc_cp :: "cp_entry \<Rightarrow> byte list" where
  "enc_cp CP_Unused = []"
| "enc_cp (CP_Utf8 s) = enc1 1 @ enc2 (length s) @ map char_byte s"
| "enc_cp (CP_One t a) = enc1 t @ enc2 a"
| "enc_cp (CP_Two t a b) = enc1 t @ (if t = 15 then enc1 a else enc2 a) @ enc2 b"
| "enc_cp (CP_Number t bs) = enc1 t @ bs"

fun cp_slots :: "cp_entry \<Rightarrow> nat" where
  "cp_slots (CP_Number t bs) = (if t \<in> {5, 6} then 2 else 1)"
| "cp_slots _ = 1"

definition lay_out :: "cp_entry list \<Rightarrow> cp_entry list" where
  "lay_out es = concat (map (\<lambda>e. e # replicate (cp_slots e - 1) CP_Unused) es)"

lemma tag_reads: "t < 256 \<Longrightarrow> reads (f t) bs x \<Longrightarrow> reads (and_then u1 f) (enc1 t @ bs) x"
  by (rule reads_and_then [OF reads_u1])

lemma read_entry_enc:
  assumes "cp_ok e"
  shows "reads (read_entry i) (enc_cp e) (e, cp_slots e)"
proof (cases e)
  case (CP_Utf8 s)
  have "reads (and_then u2 (\<lambda>n. and_then (rd_take n) (\<lambda>bs. ret (CP_Utf8 (utf8_replace bs), Suc 0))))
      (enc2 (length s) @ map char_byte s) (CP_Utf8 (utf8_replace (map char_byte s)), Suc 0)"
    using assms CP_Utf8
    by (intro reads_and_then [OF reads_u2] reads_then_ret [where f = "\<lambda>bs. (CP_Utf8 (utf8_replace bs), Suc 0)"])
      (auto intro: reads_take)
  then show ?thesis
    unfolding read_entry_def using assms CP_Utf8 by (auto intro!: tag_reads)
next
  case (CP_One t a)
  then have lay: "cp_layout t = Some (F_H, 1)" and t: "t < 256" "t \<noteq> 1" "t \<noteq> 15" and a: "a < 65536"
    using assms by (auto simp: cp_layout_def)
  have "reads (and_then (rd_take 2) (\<lambda>bs. ret (CP_One t (be_value bs), Suc 0)))
      (enc2 a) (CP_One t (be_value (enc2 a)), Suc 0)"
    by (rule reads_then_ret) (simp add: reads_take)
  then show ?thesis
    unfolding read_entry_def using CP_One lay t a
    by (auto intro!: tag_reads simp: be_value_enc2 unpack_entry_def)
next
  case (CP_Two t a b)
  show ?thesis
  proof (cases "t = 15")
    case True
    with assms CP_Two have "reads (and_then u1 (\<lambda>k. and_then u2 (\<lambda>x. ret (CP_Two t k x, Suc 0))))
        (enc1 a @ enc2 b) (CP_Two t a b, Suc 0)"
      by (auto intro!: tag_reads reads_then_ret reads_u2)
    then show ?thesis
      unfolding read_entry_def using assms CP_Two True by (auto intro!: tag_reads)
  next
    case False
    then have lay: "cp_layout t = Some (F_HH, 1)" and t: "t < 256" "t \<noteq> 1" and ab: "a < 65536" "b < 65536"
      using assms CP_Two by (auto simp: cp_layout_def)
    have "reads (and_then (rd_take 4) (\<lambda>bs. ret (CP_Two t (be_value (take 2 bs)) (be_value (drop 2 bs)), Suc 0)))
        (enc2 a @ enc2 b) (CP_Two t (be_value (take 2 (enc2 a @ enc2 b))) (be_value (drop 2 (enc2 a @ enc2 b))), Suc 0)"
      by (rule reads_then_ret) (simp add: reads_take)
    then show ?thesis
      unfolding read_entry_def using CP_Two lay t ab False
      by (auto intro!: tag_reads simp: be_value_enc2 unpack_entry_def)
  qed
next
  case (CP_Number t bs)
  then obtain f where lay: "cp_layout t = Some (f, cp_slots e)" "calcsize f = length bs"
      "unpack_entry t f bs = e" and t: "t < 256" "t \<noteq> 1" "t \<noteq> 15"
    using assms by (auto simp: cp_layout_def unpack_entry_def)
  have "reads (and_then (rd_take (length bs)) (\<lambda>b. ret (unpack_entry t f b, cp_slots e)))
      bs (unpack_entry t f bs, cp_slots e)"
    by (rule reads_then_ret) (simp add: reads_take)
  then show ?thesis
    unfolding read_entry_def using CP_Number lay t by (auto intro!: tag_reads)
qed (use assms in simp)

lemma read_entry_stable [stable_intro]: "stable (read_entry i)"
  unfolding read_entry_def by (auto intro!: stable_intro split: option.splits prod.splits)

text \<open>The entries of a pool as its writer lists them, and the indexed pool they stand for: a
  Long or Double is followed by an unusable slot.\<close>

lemma lay_out_Cons: "lay_out (e # es) = e # replicate (cp_slots e - 1) CP_Unused @ lay_out es"
  by (simp add: lay_out_def)

lemma cp_slots_pos: "cp_slots e = 1 \<or> cp_slots e = 2"
  by (cases e) auto

lemma cp_loop_enc:
  assumes "\<forall>e \<in> set es. cp_ok e" "cnt = i + length (lay_out es)" "length pre = i"
  shows "reads (cp_loop cnt i (pre @ replicate (length (lay_out es)) CP_Unused))
      (concat (map enc_cp es)) (pre @ lay_out es)"
  using assms
proof (induction es arbitrary: i pre)
  case Nil
  then show ?case by (auto simp: reads_def lay_out_def cp_loop.simps)
next
  case (Cons e es)
  let ?n = "length (lay_out es)" and ?k = "cp_slots e"
  let ?pre = "pre @ e # replicate (?k - 1) CP_Unused"
  have k: "?k = 1 \<or> ?k = 2" by (rule cp_slots_pos)
  then have len: "length (lay_out (e # es)) = ?k + ?n" by (auto simp: lay_out_Cons)
  have upd: "(pre @ replicate (?k + ?n) CP_Unused)[i := e] = ?pre @ replicate ?n CP_Unused"
    using k Cons.prems(3) by (auto simp: list_update_append numeral_2_eq_2)
  have IH: "reads (cp_loop cnt (i + ?k) (?pre @ replicate ?n CP_Unused))
      (concat (map enc_cp es)) (?pre @ lay_out es)"
    using Cons.prems k len by (intro Cons.IH) auto
  have rd: "reads (read_entry i) (enc_cp e) (e, ?k)"
    using Cons.prems by (intro read_entry_enc) simp
  have "cp_loop cnt i (pre @ replicate (?k + ?n) CP_Unused) =
      and_then (read_entry i) (\<lambda>(e, s). cp_loop cnt (i + s) ((pre @ replicate (?k + ?n) CP_Unused)[i := e]))"
    using Cons.prems(2) len k
    by (intro ext, subst cp_loop.simps) (auto simp: and_then_def split: sum.splits prod.splits)
  moreover have "reads \<dots> (enc_cp e @ concat (map enc_cp es)) (?pre @ lay_out es)"
    by (rule reads_and_then [OF rd]) (simp add: upd IH [simplified])
  ultimately show ?case unfolding len by (simp add: lay_out_Cons)
qed

definition pool_of :: "cp_entry list \<Rightarrow> cp_entry list" where
  "pool_of es = CP_Unused # lay_out es"

lemma parse_pool_enc:
  assumes "\<forall>e \<in> set es. cp_ok e"
  shows "reads (parse_constant_pool (length (pool_of es))) (concat (map enc_cp es)) (pool_of es)"
  using cp_loop_enc [OF assms, of _ 1 "[CP_Unused]"]
  by (simp add: parse_constant_pool_def pool_of_def)

lemma cp_loop_stable: "stable (cp_loop cnt i pool)"
  unfolding stable_def
proof (intro allI impI)
  fix d p x r
  show "p \<le> length d \<Longrightarrow> cp_loop cnt i pool \<lparr>rd_data = d, rd_pos = p\<rparr> = Inr (x, r) \<Longrightarrow>
     rd_data r = d \<and> p \<le> rd_pos r \<and> rd_pos r \<le> length d \<and>
     (\<forall>z. cp_loop cnt i pool \<lparr>rd_data = d @ z, rd_pos = p\<rparr> = Inr (x, \<lparr>rd_data = d @ z, rd_pos = rd_pos r\<rparr>))"
  proof (induction cnt i pool "\<lparr>rd_data = d, rd_pos = p\<rparr>" arbitrary: p rule: cp_loop.induct)
    case (1 cnt i pool)
    show ?case
    proof (cases "i < cnt")
      case True
      from 1(3) True obtain e n r1 where step: "read_entry i \<lparr>rd_data = d, rd_pos = p\<rparr> = Inr ((e, n), r1)"
        and rest: "cp_loop cnt (i + n) (pool[i := e]) r1 = Inr (x, r)"
        by (subst (asm) cp_loop.simps) (auto split: sum.splits prod.splits)
      from read_entry_stable 1(2) step obtain q where q: "r1 = \<lparr>rd_data = d, rd_pos = q\<rparr>" "p \<le> q" "q \<le> length d"
        "\<forall>z. read_entry i \<lparr>rd_data = d @ z, rd_pos = p\<rparr> = Inr ((e, n), \<lparr>rd_data = d @ z, rd_pos = q\<rparr>)"
        by (rule stable_run)
      from 1(1) [OF True step [unfolded q(1)] refl refl q(3) rest [unfolded q(1)]] q True show ?thesis
        by (subst cp_loop.simps) auto
    next
      case False
      with 1 show ?thesis by (auto simp: cp_loop.simps)
    qed
  qed
qed

lemma parse_pool_stable [stable_intro]: "stable (parse_constant_pool n)"
  unfolding parse_constant_pool_def by (rule cp_loop_stable)

end
