(* ===== verification/CodeScan.thy ===== *)
theory CodeScan
  imports ConstPool
begin

text \<open>
  The instruction scanner of \<open>graph_core/bytecode/classfile.py\<close> (\<open>_scan_code\<close>, the operand
  lengths, the line lookup) and, against it, the instruction encoding of the JVM
  specification: an encoder that knows nothing of the scanner.
\<close>

section \<open>Opcode tables\<close>

definition invoke_ops :: "nat \<Rightarrow> string option" where
  "invoke_ops op = map_of [
     (0xb6, ''invokevirtual''), (0xb7, ''invokespecial''), (0xb8, ''invokestatic''),
     (0xb9, ''invokeinterface''), (0xba, ''invokedynamic'')] op"

definition field_ops :: "nat \<Rightarrow> string option" where
  "field_ops op = map_of [
     (0xb2, ''getstatic''), (0xb3, ''putstatic''), (0xb4, ''getfield''), (0xb5, ''putfield'')] op"

definition new_op :: nat where
  "new_op = 0xbb"

text \<open>The table as its initialiser leaves it: the last assignment to an opcode counts.\<close>

definition operand_len :: "nat \<Rightarrow> int" where
  "operand_len op =
     (if op \<in> {0xaa, 0xab, 0xc4} then -1
      else if op \<in> {0xb9, 0xba, 0xc8, 0xc9} then 4
      else if op = 0xc5 then 3
      else if 0x99 \<le> op \<and> op < 0xa9 then 2
      else if op \<in> {0x11, 0x13, 0x14, 0x84, 0xb2, 0xb3, 0xb4, 0xb5,
                    0xb6, 0xb7, 0xb8, 0xbb, 0xbd, 0xc0, 0xc1, 0xc6, 0xc7} then 2
      else if op \<in> {0x10, 0x12, 0x15, 0x16, 0x17, 0x18, 0x19,
                    0x36, 0x37, 0x38, 0x39, 0x3a, 0xa9, 0xbc} then 1
      else 0)"

section \<open>Lines\<close>

fun line_loop :: "int \<Rightarrow> (nat \<times> nat) list \<Rightarrow> nat \<Rightarrow> int" where
  "line_loop best [] off = best"
| "line_loop best ((start_pc, line) # t) off =
     (if start_pc > off then best else line_loop (int line) t off)"

definition line_for_offset :: "(nat \<times> nat) list \<Rightarrow> nat \<Rightarrow> int" where
  "line_for_offset table off = (if table = [] then -1 else line_loop (-1) table off)"

lemma line_loop_sorted:
  "sorted (map fst t) \<Longrightarrow>
   line_loop best t off =
     (case filter (\<lambda>e. fst e \<le> off) t of [] \<Rightarrow> best | es \<Rightarrow> int (snd (last es)))"
proof (induction best t off rule: line_loop.induct)
  case (2 best pc l t off)
  show ?case
  proof (cases "pc > off")
    case True
    then have "filter (\<lambda>e. fst e \<le> off) t = []" using 2 by (force simp: filter_empty_conv)
    then show ?thesis using True by simp
  next
    case False
    then show ?thesis using 2 by (auto split: list.splits)
  qed
qed simp

lemma line_for_offset_last:
  assumes "sorted (map fst t)" "filter (\<lambda>e. fst e \<le> off) t = es @ [(pc, l)]"
  shows "line_for_offset t off = int l"
proof -
  have "t \<noteq> []" "last (filter (\<lambda>e. fst e \<le> off) t) = (pc, l)" using assms(2) by auto
  then show ?thesis
    using assms by (cases "es @ [(pc, l)]") (simp_all add: line_for_offset_def line_loop_sorted)
qed

lemma line_for_offset_none:
  "sorted (map fst t) \<Longrightarrow> filter (\<lambda>e. fst e \<le> off) t = [] \<Longrightarrow> line_for_offset t off = -1"
  by (auto simp: line_for_offset_def line_loop_sorted)

section \<open>The scanner\<close>

text \<open>\<open>struct.unpack\<close> of \<open>code[pos:pos + n]\<close>: a short slice raises \<open>struct.error\<close>.\<close>

definition slice :: "byte list \<Rightarrow> nat \<Rightarrow> nat \<Rightarrow> class_error + byte list" where
  "slice code pos n =
     (let bs = take n (drop pos code) in if length bs = n then Inr bs else Inl Struct_Error)"

definition be_signed :: "byte list \<Rightarrow> int" where
  "be_signed bs = (let n = int (be_value bs) in if n \<ge> 2147483648 then n - 4294967296 else n)"

definition add_invocation :: "invocation \<Rightarrow> method_info \<Rightarrow> method_info" where
  "add_invocation i m = m\<lparr>m_invocations := m_invocations m @ [i]\<rparr>"

definition add_access :: "field_access \<Rightarrow> method_info \<Rightarrow> method_info" where
  "add_access a m = m\<lparr>m_accesses := m_accesses m @ [a]\<rparr>"

definition add_instantiation :: "string \<Rightarrow> method_info \<Rightarrow> method_info" where
  "add_instantiation c m = m\<lparr>m_instantiations := m_instantiations m @ [c]\<rparr>"

text \<open>One turn of the loop: the next position and the method with what was recorded.\<close>

definition scan_step ::
  "byte list \<Rightarrow> cp_entry list \<Rightarrow> (nat \<times> nat) list \<Rightarrow> nat \<Rightarrow> method_info \<Rightarrow> class_error + (nat \<times> method_info)" where
  "scan_step code pool lines offset m =
     (let op = unat (code ! offset); pos = offset + 1; line = line_for_offset lines offset in
      case invoke_ops op of
        Some opname \<Rightarrow>
          res_bind (slice code pos 2) (\<lambda>bs. let index = be_value bs in
          res_bind (if op = 0xba
                    then res_bind (pool_invokedynamic pool index) (\<lambda>(nm, d). Inr ([], nm, d))
                    else pool_member_ref pool index) (\<lambda>(owner, nm, d).
          Inr (pos + (if op = 0xb9 \<or> op = 0xba then 4 else 2),
               add_invocation \<lparr>i_opcode = opname, i_owner = owner, i_name = nm, i_descriptor = d,
                 i_line = line, i_offset = offset\<rparr> m)))
      | None \<Rightarrow>
      (case field_ops op of
        Some opname \<Rightarrow>
          res_bind (slice code pos 2) (\<lambda>bs.
          res_bind (pool_member_ref pool (be_value bs)) (\<lambda>(owner, nm, d).
          Inr (pos + 2, add_access \<lparr>a_opcode = opname, a_owner = owner, a_name = nm,
                          a_descriptor = d, a_line = line\<rparr> m)))
      | None \<Rightarrow>
        if op = new_op then
          res_bind (slice code pos 2) (\<lambda>bs.
          res_bind (pool_class_name pool (be_value bs)) (\<lambda>c.
          Inr (pos + 2, add_instantiation c m)))
        else if operand_len op \<ge> 0 then Inr (pos + nat (operand_len op), m)
        else if op = 0xc4 then
          (if pos \<ge> length code then Inl Truncated_Wide
           else Inr (pos + (if unat (code ! pos) = 0x84 then 5 else 3), m))
        else
          (let pos = pos + (4 - pos mod 4) mod 4 in
           if op = 0xaa then
             res_bind (slice code (pos + 4) 8) (\<lambda>bs.
             let low = be_signed (take 4 bs); high = be_signed (drop 4 bs) in
             Inr (pos + 12 + nat (max 0 (high - low + 1)) * 4, m))
           else
             res_bind (slice code (pos + 4) 4) (\<lambda>bs.
             Inr (pos + 8 + nat (max 0 (be_signed bs)) * 8, m)))))"

lemma res_bind_Inr: "res_bind m f = Inr z \<longleftrightarrow> (\<exists>x. m = Inr x \<and> f x = Inr z)"
  by (simp add: res_bind_def split: sum.splits)

lemma scan_step_advances: "scan_step code pool lines pos m = Inr (pos', m') \<Longrightarrow> pos < pos'"
  by (auto simp: scan_step_def Let_def res_bind_Inr split: option.splits if_splits prod.splits)

function scan_code ::
  "byte list \<Rightarrow> cp_entry list \<Rightarrow> (nat \<times> nat) list \<Rightarrow> nat \<Rightarrow> method_info \<Rightarrow> class_error + method_info" where
  "scan_code code pool lines pos m =
     (if pos < length code then
        (case scan_step code pool lines pos m of
           Inl e \<Rightarrow> Inl e
         | Inr (pos', m') \<Rightarrow> scan_code code pool lines pos' m')
      else Inr m)"
  by pat_completeness auto
termination
  by (relation "measure (\<lambda>(code, pool, lines, pos, m). length code - pos)")
    (auto dest!: scan_step_advances[OF sym] scan_step_advances)

declare scan_code.simps [simp del]

section \<open>The instruction encoding of the JVM specification\<close>

datatype instr =
    Plain nat "byte list"
  | Field_Instr nat nat
  | New_Instr nat
  | Invoke_Instr nat nat
  | Invoke_Interface nat nat
  | Invoke_Dynamic nat
  | Table_Switch int int "int list"
  | Lookup_Switch int "(int \<times> int) list"
  | Wide_Instr nat nat
  | Wide_Iinc nat int

text \<open>Operand bytes of the instructions that carry no reference to a class member, by opcode
  range.\<close>

definition jvm_operands :: "(nat \<times> nat \<times> nat) list" where
  "jvm_operands = [
     (0x00, 0x0f, 0), (0x10, 0x10, 1), (0x11, 0x11, 2), (0x12, 0x12, 1), (0x13, 0x14, 2),
     (0x15, 0x19, 1), (0x1a, 0x35, 0), (0x36, 0x3a, 1), (0x3b, 0x83, 0), (0x84, 0x84, 2),
     (0x85, 0x98, 0), (0x99, 0xa8, 2), (0xa9, 0xa9, 1), (0xac, 0xb1, 0), (0xbc, 0xbc, 1),
     (0xbd, 0xbd, 2), (0xbe, 0xbf, 0), (0xc0, 0xc1, 2), (0xc2, 0xc3, 0), (0xc5, 0xc5, 3),
     (0xc6, 0xc7, 2), (0xc8, 0xc9, 4)]"

definition plain_ok :: "nat \<Rightarrow> nat \<Rightarrow> bool" where
  "plain_ok op n = list_ex (\<lambda>(lo, hi, k). lo \<le> op \<and> op \<le> hi \<and> n = k) jvm_operands"

definition enc_i4 :: "int \<Rightarrow> byte list" where
  "enc_i4 i = enc4 (nat (i mod 4294967296))"

definition i4_ok :: "int \<Rightarrow> bool" where
  "i4_ok i = (- 2147483648 \<le> i \<and> i < 2147483648)"

definition switch_pad :: "nat \<Rightarrow> byte list" where
  "switch_pad pos = replicate (3 - pos mod 4) 0"

fun enc_instr :: "nat \<Rightarrow> instr \<Rightarrow> byte list" where
  "enc_instr pos (Plain op bs) = enc1 op @ bs"
| "enc_instr pos (Field_Instr op i) = enc1 op @ enc2 i"
| "enc_instr pos (New_Instr i) = enc1 0xbb @ enc2 i"
| "enc_instr pos (Invoke_Instr op i) = enc1 op @ enc2 i"
| "enc_instr pos (Invoke_Interface i n) = enc1 0xb9 @ enc2 i @ enc1 n @ enc1 0"
| "enc_instr pos (Invoke_Dynamic i) = enc1 0xba @ enc2 i @ enc2 0"
| "enc_instr pos (Table_Switch dflt low offs) = enc1 0xaa @ switch_pad pos @ enc_i4 dflt
     @ enc_i4 low @ enc_i4 (low + int (length offs) - 1) @ concat (map enc_i4 offs)"
| "enc_instr pos (Lookup_Switch dflt ps) = enc1 0xab @ switch_pad pos @ enc_i4 dflt
     @ enc_i4 (int (length ps)) @ concat (map (\<lambda>(k, t). enc_i4 k @ enc_i4 t) ps)"
| "enc_instr pos (Wide_Instr op i) = enc1 0xc4 @ enc1 op @ enc2 i"
| "enc_instr pos (Wide_Iinc i k) = enc1 0xc4 @ enc1 0x84 @ enc2 i @ enc2 (nat (k mod 65536))"

text \<open>Admissible instructions: opcodes of their group, operands in range, references that the
  constant pool resolves.\<close>

fun instr_ok :: "cp_entry list \<Rightarrow> instr \<Rightarrow> bool" where
  "instr_ok pool (Plain op bs) = plain_ok op (length bs)"
| "instr_ok pool (Field_Instr op i) = (0xb2 \<le> op \<and> op \<le> 0xb5 \<and> i < 65536 \<and> \<not> isl (pool_member_ref pool i))"
| "instr_ok pool (New_Instr i) = (i < 65536 \<and> \<not> isl (pool_class_name pool i))"
| "instr_ok pool (Invoke_Instr op i) = (0xb6 \<le> op \<and> op \<le> 0xb8 \<and> i < 65536 \<and> \<not> isl (pool_member_ref pool i))"
| "instr_ok pool (Invoke_Interface i n) = (i < 65536 \<and> n < 256 \<and> \<not> isl (pool_member_ref pool i))"
| "instr_ok pool (Invoke_Dynamic i) = (i < 65536 \<and> \<not> isl (pool_invokedynamic pool i))"
| "instr_ok pool (Table_Switch dflt low offs) =
     (offs \<noteq> [] \<and> i4_ok low \<and> i4_ok (low + int (length offs) - 1))"
| "instr_ok pool (Lookup_Switch dflt ps) = i4_ok (int (length ps))"
| "instr_ok pool (Wide_Instr op i) = (op < 256 \<and> op \<noteq> 0x84 \<and> i < 65536)"
| "instr_ok pool (Wide_Iinc i k) = (i < 65536)"

text \<open>What an instruction contributes: the call, access or instantiation it denotes, at its
  own offset.\<close>

fun instr_effect :: "cp_entry list \<Rightarrow> (nat \<times> nat) list \<Rightarrow> nat \<Rightarrow> instr \<Rightarrow> method_info \<Rightarrow> method_info" where
  "instr_effect pool lines pos (Field_Instr op i) m =
     (case projr (pool_member_ref pool i) of (c, nm, d) \<Rightarrow>
        add_access \<lparr>a_opcode = [''getstatic'', ''putstatic'', ''getfield'', ''putfield''] ! (op - 0xb2),
          a_owner = c, a_name = nm, a_descriptor = d, a_line = line_for_offset lines pos\<rparr> m)"
| "instr_effect pool lines pos (New_Instr i) m = add_instantiation (projr (pool_class_name pool i)) m"
| "instr_effect pool lines pos (Invoke_Instr op i) m =
     (case projr (pool_member_ref pool i) of (c, nm, d) \<Rightarrow>
        add_invocation \<lparr>i_opcode = [''invokevirtual'', ''invokespecial'', ''invokestatic''] ! (op - 0xb6),
          i_owner = c, i_name = nm, i_descriptor = d, i_line = line_for_offset lines pos,
          i_offset = pos\<rparr> m)"
| "instr_effect pool lines pos (Invoke_Interface i n) m =
     (case projr (pool_member_ref pool i) of (c, nm, d) \<Rightarrow>
        add_invocation \<lparr>i_opcode = ''invokeinterface'', i_owner = c, i_name = nm, i_descriptor = d,
          i_line = line_for_offset lines pos, i_offset = pos\<rparr> m)"
| "instr_effect pool lines pos (Invoke_Dynamic i) m =
     (case projr (pool_invokedynamic pool i) of (nm, d) \<Rightarrow>
        add_invocation \<lparr>i_opcode = ''invokedynamic'', i_owner = [], i_name = nm, i_descriptor = d,
          i_line = line_for_offset lines pos, i_offset = pos\<rparr> m)"
| "instr_effect pool lines pos _ m = m"

fun code_bytes :: "nat \<Rightarrow> instr list \<Rightarrow> byte list" where
  "code_bytes pos [] = []"
| "code_bytes pos (i # is) =
     enc_instr pos i @ code_bytes (pos + length (enc_instr pos i)) is"

fun code_effect :: "cp_entry list \<Rightarrow> (nat \<times> nat) list \<Rightarrow> nat \<Rightarrow> instr list \<Rightarrow> method_info \<Rightarrow> method_info" where
  "code_effect pool lines pos [] m = m"
| "code_effect pool lines pos (i # is) m =
     code_effect pool lines (pos + length (enc_instr pos i)) is (instr_effect pool lines pos i m)"

text \<open>The operand table agrees with the specification on every opcode of fixed length.\<close>

lemma operand_len_low: "op < 16 \<Longrightarrow> operand_len op = 0"
  by (auto simp: operand_len_def)

lemma jvm_table_checked:
  "list_all (\<lambda>(lo, hi, k). list_all (\<lambda>op. operand_len op = int k) [lo ..< Suc hi]) (tl jvm_operands)"
  by (simp add: jvm_operands_def operand_len_def)

lemma plain_opcode:
  assumes "plain_ok op n"
  shows "operand_len op = int n" "op < 256" "invoke_ops op = None" "field_ops op = None" "op \<noteq> new_op"
proof -
  from assms obtain lo hi where r: "(lo, hi, n) \<in> set jvm_operands" "lo \<le> op" "op \<le> hi"
    by (auto simp: plain_ok_def list_ex_iff)
  then have mem: "op \<in> set [lo ..< Suc hi]" by (simp only: set_upt) auto
  have "jvm_operands = (0x00, 0x0f, 0) # tl jvm_operands" by (simp add: jvm_operands_def)
  with r(1) consider "(lo, hi, n) = (0x00, 0x0f, 0)" | "(lo, hi, n) \<in> set (tl jvm_operands)"
    by (metis set_ConsD)
  then show "operand_len op = int n"
  proof cases
    case 1
    with r show ?thesis by (simp add: operand_len_low)
  next
    case 2
    with mem jvm_table_checked show ?thesis by (fastforce simp: list_all_iff simp del: set_upt)
  qed
  show "op < 256" "invoke_ops op = None" "field_ops op = None" "op \<noteq> new_op"
    using r by (auto simp: jvm_operands_def invoke_ops_def field_ops_def new_op_def)
qed

lemma nth_pre: "(pre @ enc1 op @ xs) ! length pre = of_nat op"
  by (simp add: enc1_def nth_append)

lemma slice_pre: "n = length bs \<Longrightarrow> slice (pre @ bs @ post) (length pre) n = Inr bs"
  by (simp add: slice_def Let_def)

lemma slice_at:
  "code = pre @ bs @ post \<Longrightarrow> p = length pre \<Longrightarrow> n = length bs \<Longrightarrow> slice code p n = Inr bs"
  by (simp add: slice_pre)

lemma be_signed_enc: "i4_ok i \<Longrightarrow> be_signed (enc_i4 i) = i"
proof -
  assume i: "i4_ok i"
  have m: "0 \<le> i mod 4294967296" "i mod 4294967296 < 4294967296" by simp_all
  then have b: "int (be_value (enc_i4 i)) = i mod 4294967296"
    unfolding enc_i4_def by (subst be_value_enc4) auto
  show ?thesis
  proof (cases "i < 0")
    case True
    have "i mod 4294967296 = (i + 4294967296) mod 4294967296" by simp
    also have "\<dots> = i + 4294967296" using True i by (intro mod_pos_pos_trivial) (auto simp: i4_ok_def)
    finally have "i mod 4294967296 = i + 4294967296" .
    with b True i show ?thesis by (simp add: be_signed_def i4_ok_def)
  next
    case False
    with i have "i mod 4294967296 = i" by (auto simp: i4_ok_def)
    with b False i show ?thesis by (simp add: be_signed_def i4_ok_def)
  qed
qed

lemma length_enc_i4 [simp]: "length (enc_i4 i) = 4"
  by (simp add: enc_i4_def)

lemma length_concat_enc_i4 [simp]: "length (concat (map enc_i4 is)) = 4 * length is"
  by (induction "is") auto

lemma length_concat_pairs [simp]:
  "length (concat (map (\<lambda>(k, t). enc_i4 k @ enc_i4 t) ps)) = 8 * length ps"
  by (induction ps) auto

lemma length_switch_pad [simp]: "length (switch_pad pos) = (4 - (pos + 1) mod 4) mod 4"
proof -
  have "pos mod 4 < 4" by simp
  then consider "pos mod 4 = 0" | "pos mod 4 = 1" | "pos mod 4 = 2" | "pos mod 4 = 3" by linarith
  then show ?thesis by cases (simp_all add: switch_pad_def mod_Suc)
qed

lemma op_at: "op < 256 \<Longrightarrow> code = pre @ enc1 op @ xs \<Longrightarrow> unat (code ! length pre) = op"
  by (simp add: nth_pre unat_byte)

lemma op_at_next: "op < 256 \<Longrightarrow> code = pre @ [b] @ enc1 op @ xs \<Longrightarrow> unat (code ! Suc (length pre)) = op"
  using op_at [of op code "pre @ [b]" xs] by simp

lemma index_at:
  "i < 65536 \<Longrightarrow> code = pre @ enc1 op @ enc2 i @ xs \<Longrightarrow> slice code (Suc (length pre)) 2 = Inr (enc2 i)"
  by (rule slice_at [of _ "pre @ enc1 op" _ xs]) auto

lemmas step_simps = scan_step_def Let_def be_value_enc2 invoke_ops_def field_ops_def new_op_def

lemma step_plain:
  assumes "plain_ok op (length bs)" "code = pre @ enc1 op @ bs @ post"
  shows "scan_step code pool lines (length pre) m = Inr (length pre + length (enc1 op @ bs), m)"
  using plain_opcode [OF assms(1)] op_at [OF _ assms(2)]
  by (simp add: scan_step_def Let_def)

lemma step_field:
  assumes "instr_ok pool (Field_Instr op i)" "code = pre @ enc_instr (length pre) (Field_Instr op i) @ post"
  shows "scan_step code pool lines (length pre) m =
     Inr (length pre + 3, instr_effect pool lines (length pre) (Field_Instr op i) m)"
proof -
  have op: "op = 0xb2 \<or> op = 0xb3 \<or> op = 0xb4 \<or> op = 0xb5" and i: "i < 65536" using assms(1) by auto
  obtain c nm d where ref: "pool_member_ref pool i = Inr (c, nm, d)"
    using assms(1) by (cases "pool_member_ref pool i") auto
  have "unat (code ! length pre) = op" using op assms(2) by (intro op_at) auto
  moreover have "slice code (Suc (length pre)) 2 = Inr (enc2 i)" using i assms(2) by (intro index_at) auto
  ultimately show ?thesis using op i ref by (elim disjE) (simp_all add: step_simps)
qed

lemma step_new:
  assumes "instr_ok pool (New_Instr i)" "code = pre @ enc_instr (length pre) (New_Instr i) @ post"
  shows "scan_step code pool lines (length pre) m =
     Inr (length pre + 3, instr_effect pool lines (length pre) (New_Instr i) m)"
proof -
  have i: "i < 65536" using assms(1) by auto
  obtain c where c: "pool_class_name pool i = Inr c"
    using assms(1) by (cases "pool_class_name pool i") auto
  have "unat (code ! length pre) = 0xbb" using assms(2) by (intro op_at) auto
  moreover have "slice code (Suc (length pre)) 2 = Inr (enc2 i)" using i assms(2) by (intro index_at) auto
  ultimately show ?thesis using i c by (simp add: step_simps)
qed

lemma step_invoke:
  assumes "instr_ok pool (Invoke_Instr op i)" "code = pre @ enc_instr (length pre) (Invoke_Instr op i) @ post"
  shows "scan_step code pool lines (length pre) m =
     Inr (length pre + 3, instr_effect pool lines (length pre) (Invoke_Instr op i) m)"
proof -
  have op: "op = 0xb6 \<or> op = 0xb7 \<or> op = 0xb8" and i: "i < 65536" using assms(1) by auto
  obtain c nm d where ref: "pool_member_ref pool i = Inr (c, nm, d)"
    using assms(1) by (cases "pool_member_ref pool i") auto
  have "unat (code ! length pre) = op" using op assms(2) by (intro op_at) auto
  moreover have "slice code (Suc (length pre)) 2 = Inr (enc2 i)" using i assms(2) by (intro index_at) auto
  ultimately show ?thesis using op i ref by (elim disjE) (simp_all add: step_simps)
qed

lemma step_interface:
  assumes "instr_ok pool (Invoke_Interface i n)" "code = pre @ enc_instr (length pre) (Invoke_Interface i n) @ post"
  shows "scan_step code pool lines (length pre) m =
     Inr (length pre + 5, instr_effect pool lines (length pre) (Invoke_Interface i n) m)"
proof -
  have i: "i < 65536" using assms(1) by auto
  obtain c nm d where ref: "pool_member_ref pool i = Inr (c, nm, d)"
    using assms(1) by (cases "pool_member_ref pool i") auto
  have "unat (code ! length pre) = 0xb9" using assms(2) by (intro op_at) auto
  moreover have "slice code (Suc (length pre)) 2 = Inr (enc2 i)" using i assms(2) by (intro index_at) auto
  ultimately show ?thesis using i ref by (simp add: step_simps)
qed

lemma step_dynamic:
  assumes "instr_ok pool (Invoke_Dynamic i)" "code = pre @ enc_instr (length pre) (Invoke_Dynamic i) @ post"
  shows "scan_step code pool lines (length pre) m =
     Inr (length pre + 5, instr_effect pool lines (length pre) (Invoke_Dynamic i) m)"
proof -
  have i: "i < 65536" using assms(1) by auto
  obtain nm d where ref: "pool_invokedynamic pool i = Inr (nm, d)"
    using assms(1) by (cases "pool_invokedynamic pool i") auto
  have "unat (code ! length pre) = 0xba" using assms(2) by (intro op_at) auto
  moreover have "slice code (Suc (length pre)) 2 = Inr (enc2 i)" using i assms(2) by (intro index_at) auto
  ultimately show ?thesis using i ref by (simp add: step_simps)
qed

lemma switch_op:
  "op = 0xaa \<or> op = 0xab \<or> op = 0xc4 \<Longrightarrow> invoke_ops op = None \<and> field_ops op = None \<and> op \<noteq> new_op \<and> operand_len op = -1"
  by (auto simp: invoke_ops_def field_ops_def new_op_def operand_len_def)

lemma step_table:
  assumes "instr_ok pool (Table_Switch dflt low offs)"
    and "code = pre @ enc_instr (length pre) (Table_Switch dflt low offs) @ post"
  shows "scan_step code pool lines (length pre) m =
     Inr (length pre + length (enc_instr (length pre) (Table_Switch dflt low offs)), m)"
proof -
  let ?high = "low + int (length offs) - 1"
  let ?pad = "(4 - Suc (length pre) mod 4) mod 4"
  have ok: "i4_ok low" "i4_ok ?high" "offs \<noteq> []" using assms(1) by auto
  have "unat (code ! length pre) = 0xaa" using assms(2) by (intro op_at) auto
  moreover have "slice code (length pre + 5 + ?pad) 8 = Inr (enc_i4 low @ enc_i4 ?high)"
    using assms(2)
    by (intro slice_at [of _ "pre @ enc1 0xaa @ switch_pad (length pre) @ enc_i4 dflt" _ "concat (map enc_i4 offs) @ post"])
      auto
  ultimately show ?thesis
    using switch_op [of "0xaa"] ok
    by (simp add: scan_step_def Let_def be_signed_enc algebra_simps)
qed

lemma step_lookup:
  assumes "instr_ok pool (Lookup_Switch dflt ps)"
    and "code = pre @ enc_instr (length pre) (Lookup_Switch dflt ps) @ post"
  shows "scan_step code pool lines (length pre) m =
     Inr (length pre + length (enc_instr (length pre) (Lookup_Switch dflt ps)), m)"
proof -
  let ?pad = "(4 - Suc (length pre) mod 4) mod 4"
  have ok: "i4_ok (int (length ps))" using assms(1) by auto
  have "unat (code ! length pre) = 0xab" using assms(2) by (intro op_at) auto
  moreover have "slice code (length pre + 5 + ?pad) 4 = Inr (enc_i4 (int (length ps)))"
    using assms(2)
    by (intro slice_at [of _ "pre @ enc1 0xab @ switch_pad (length pre) @ enc_i4 dflt" _
          "concat (map (\<lambda>(k, t). enc_i4 k @ enc_i4 t) ps) @ post"]) auto
  ultimately show ?thesis
    using switch_op [of "0xab"] ok
    by (simp add: scan_step_def Let_def be_signed_enc algebra_simps)
qed

lemma step_wide:
  assumes "op < 256" "code = pre @ enc1 0xc4 @ enc1 op @ bs @ post" "length bs = (if op = 0x84 then 4 else 2)"
  shows "scan_step code pool lines (length pre) m = Inr (length pre + 2 + length bs, m)"
proof -
  have "unat (code ! length pre) = 0xc4" using assms(2) by (intro op_at) auto
  moreover have "unat (code ! Suc (length pre)) = op"
    using op_at_next [OF assms(1), of code pre "of_nat 0xc4" "bs @ post"] assms(2) by (simp add: enc1_def)
  ultimately show ?thesis
    using switch_op [of "0xc4"] assms by (simp add: scan_step_def Let_def)
qed

lemma scan_step_instr:
  assumes "instr_ok pool i" "code = pre @ enc_instr (length pre) i @ post"
  shows "scan_step code pool lines (length pre) m =
     Inr (length pre + length (enc_instr (length pre) i), instr_effect pool lines (length pre) i m)"
proof (cases i)
  case (Plain op bs)
  with assms show ?thesis using step_plain [of op bs code pre post] by simp
next
  case (Field_Instr op i)
  with assms show ?thesis using step_field by simp
next
  case (New_Instr i)
  with assms show ?thesis using step_new by simp
next
  case (Invoke_Instr op i)
  with assms show ?thesis using step_invoke by simp
next
  case (Invoke_Interface i n)
  with assms show ?thesis using step_interface by simp
next
  case (Invoke_Dynamic i)
  with assms show ?thesis using step_dynamic by simp
next
  case (Table_Switch d l os)
  with assms show ?thesis using step_table [of pool d l os] by simp
next
  case (Lookup_Switch d ps)
  with assms show ?thesis using step_lookup [of pool d ps] by simp
next
  case (Wide_Instr op i)
  with assms show ?thesis using step_wide [of op code pre "enc2 i" post] by simp
next
  case (Wide_Iinc i k)
  with assms show ?thesis
    using step_wide [of "0x84" code pre "enc2 i @ enc2 (nat (k mod 65536))" post] by simp
qed

lemma enc_instr_pos: "enc_instr p i \<noteq> []"
  by (cases i) (auto simp: enc1_def)

lemma scan_code_instrs:
  "\<forall>i \<in> set is. instr_ok pool i \<Longrightarrow> code = pre @ code_bytes (length pre) is \<Longrightarrow>
   scan_code code pool lines (length pre) m = Inr (code_effect pool lines (length pre) is m)"
proof (induction "is" arbitrary: pre m)
  case Nil
  then show ?case by (simp add: scan_code.simps)
next
  case (Cons i js)
  let ?e = "enc_instr (length pre) i"
  have code: "code = pre @ ?e @ code_bytes (length (pre @ ?e)) js" using Cons.prems(2) by simp
  have "scan_step code pool lines (length pre) m =
      Inr (length (pre @ ?e), instr_effect pool lines (length pre) i m)"
    using scan_step_instr [OF _ code] Cons.prems(1) by simp
  moreover have "length pre < length code"
    using code enc_instr_pos [of "length pre" i] by (cases ?e) auto
  ultimately have "scan_code code pool lines (length pre) m =
      scan_code code pool lines (length (pre @ ?e)) (instr_effect pool lines (length pre) i m)"
    by (subst scan_code.simps) simp
  also have "\<dots> = Inr (code_effect pool lines (length (pre @ ?e)) js (instr_effect pool lines (length pre) i m))"
    using Cons.prems code by (intro Cons.IH) auto
  finally show ?case by simp
qed

text \<open>C13: on the code array of any admissible instruction sequence (switches with their
  alignment padding and \<open>wide\<close> included) the scanner stays in step: it records exactly the
  calls, field accesses and instantiations of the instructions, in order, each call at the
  true offset of its instruction.\<close>

theorem scan_code_exact:
  assumes "\<forall>i \<in> set is. instr_ok pool i"
  shows "scan_code (code_bytes 0 is) pool lines 0 m = Inr (code_effect pool lines 0 is m)"
  using scan_code_instrs [OF assms, of _ "[]"] by simp

definition mk_method :: "string \<Rightarrow> string \<Rightarrow> nat \<Rightarrow> method_info" where
  "mk_method nm d fl = \<lparr>m_name = nm, m_descriptor = d, m_flags = fl, m_invocations = [],
     m_accesses = [], m_instantiations = [], m_start_line = -1, m_end_line = -1\<rparr>"

theorem scan_code_exact_witness:
  "let pool = [CP_Unused, CP_Utf8 ''a/B'', CP_One 7 1, CP_Utf8 ''f'', CP_Utf8 ''()V'', CP_Two 12 3 4, CP_Two 10 2 5];
       js = [Plain 0x2a [], Table_Switch 0 5 [1, 2], Wide_Iinc 3 (-1), Invoke_Instr 0xb6 6]
   in map_sum (\<lambda>e. e) (map (\<lambda>i. (i_owner i, i_name i, i_line i, i_offset i)) \<circ> m_invocations)
        (scan_code (code_bytes 0 js) pool [(0, 7), (30, 9)] 0 (mk_method ''g'' ''()V'' 0))
      = Inr [(''a.B'', ''f'', 9, 30)]"
proof -
  let ?pool = "[CP_Unused, CP_Utf8 ''a/B'', CP_One 7 1, CP_Utf8 ''f'', CP_Utf8 ''()V'', CP_Two 12 3 4, CP_Two 10 2 5]"
  let ?js = "[Plain 0x2a [], Table_Switch 0 5 [1, 2], Wide_Iinc 3 (-1), Invoke_Instr 0xb6 6]"
  have ref: "pool_member_ref ?pool 6 = Inr (''a.B'', ''f'', ''()V'')"
    by (simp add: pool_member_ref_def entry_at_def name_and_type_def pool_class_name_def pool_utf8_def
        replace_char_def)
  have "\<forall>i \<in> set ?js. instr_ok ?pool i"
    using ref by (simp add: plain_ok_def jvm_operands_def i4_ok_def)
  from scan_code_exact [OF this, of "[(0, 7), (30, 9)]" "mk_method ''g'' ''()V'' 0"] ref show ?thesis
    by (simp add: Let_def add_invocation_def mk_method_def line_for_offset_def)
qed

end
