(* ===== verification/ClassFile.thy ===== *)
theory ClassFile
  imports CodeScan "HOL-Library.Product_Lexorder"
begin

text \<open>
  Attributes, members and the class itself (\<open>graph_core/bytecode/classfile.py\<close>), and the
  round trip with the class file format: a writer built from the layouts of the format only.
\<close>

section \<open>Attributes\<close>

definition skip_attributes :: "unit parser" where
  "skip_attributes = and_then u2 (\<lambda>n.
     and_then (times n (and_then u2 (\<lambda>_. and_then u4 rd_skip))) (\<lambda>_. ret ()))"

fun find_loop :: "cp_entry list \<Rightarrow> string set \<Rightarrow> nat \<Rightarrow> (string \<rightharpoonup> byte list) \<Rightarrow> (string \<rightharpoonup> byte list) parser" where
  "find_loop pool wanted 0 found = ret found"
| "find_loop pool wanted (Suc n) found =
     and_then u2 (\<lambda>i. and_then (lift_res (pool_utf8 pool i)) (\<lambda>nm. and_then u4 (\<lambda>len.
       if nm \<in> wanted
       then and_then (rd_take len) (\<lambda>b. find_loop pool wanted n (found(nm \<mapsto> b)))
       else and_then (rd_skip len) (\<lambda>_. find_loop pool wanted n found))))"

definition find_attributes :: "cp_entry list \<Rightarrow> string set \<Rightarrow> (string \<rightharpoonup> byte list) parser" where
  "find_attributes pool wanted = and_then u2 (\<lambda>n. find_loop pool wanted n (\<lambda>_. None))"

definition run_parser :: "'a parser \<Rightarrow> byte list \<Rightarrow> class_error + 'a" where
  "run_parser m bs = map_sum (\<lambda>e. e) fst (m \<lparr>rd_data = bs, rd_pos = 0\<rparr>)"

definition parse_line_number_table :: "byte list \<Rightarrow> class_error + (nat \<times> nat) list" where
  "parse_line_number_table body = map_sum (\<lambda>e. e) sort (run_parser
     (and_then u2 (\<lambda>n. times n (and_then u2 (\<lambda>pc. and_then u2 (\<lambda>line. ret (pc, line)))))) body)"

section \<open>Members\<close>

definition parse_field :: "cp_entry list \<Rightarrow> field_info parser" where
  "parse_field pool = and_then u2 (\<lambda>fl. and_then u2 (\<lambda>ni. and_then (lift_res (pool_utf8 pool ni)) (\<lambda>nm.
     and_then u2 (\<lambda>di. and_then (lift_res (pool_utf8 pool di)) (\<lambda>d.
     and_then skip_attributes (\<lambda>_. ret \<lparr>f_name = nm, f_descriptor = d, f_flags = fl\<rparr>))))))"

text \<open>The part of a Code attribute that is kept: the code array and its own attributes.\<close>

definition read_code :: "cp_entry list \<Rightarrow> (byte list \<times> (string \<rightharpoonup> byte list)) parser" where
  "read_code pool = and_then (rd_skip 4) (\<lambda>_. and_then u4 (\<lambda>n. and_then (rd_take n) (\<lambda>code.
     and_then u2 (\<lambda>k. and_then (rd_skip (k * 8)) (\<lambda>_.
     and_then (find_attributes pool {''LineNumberTable''}) (\<lambda>attrs. ret (code, attrs)))))))"

definition parse_code :: "cp_entry list \<Rightarrow> byte list \<Rightarrow> method_info \<Rightarrow> class_error + method_info" where
  "parse_code pool attr m =
     res_bind (run_parser (read_code pool) attr) (\<lambda>(code, attrs).
     res_bind (case attrs ''LineNumberTable'' of Some t \<Rightarrow> parse_line_number_table t | None \<Rightarrow> Inr []) (\<lambda>lines.
     scan_code code pool lines 0
       (if lines = [] then m
        else m\<lparr>m_start_line := int (Min (set (map snd lines))), m_end_line := int (Max (set (map snd lines)))\<rparr>)))"

definition add_code :: "cp_entry list \<Rightarrow> method_info \<Rightarrow> (string \<rightharpoonup> byte list) \<Rightarrow> method_info parser" where
  "add_code pool m attrs = (case attrs ''Code'' of None \<Rightarrow> ret m
     | Some a \<Rightarrow> lift_res (parse_code pool a m))"

definition parse_method :: "cp_entry list \<Rightarrow> method_info parser" where
  "parse_method pool = and_then u2 (\<lambda>fl. and_then u2 (\<lambda>ni. and_then (lift_res (pool_utf8 pool ni)) (\<lambda>nm.
     and_then u2 (\<lambda>di. and_then (lift_res (pool_utf8 pool di)) (\<lambda>d.
     and_then (find_attributes pool {''Code''}) (add_code pool (mk_method nm d fl)))))))"

definition read_source :: "cp_entry list \<Rightarrow> (string \<rightharpoonup> byte list) \<Rightarrow> string parser" where
  "read_source pool attrs = (case attrs ''SourceFile'' of None \<Rightarrow> ret []
     | Some b \<Rightarrow> lift_res (res_bind (slice b 0 2) (\<lambda>x. pool_utf8 pool (be_value x))))"

definition parse_fields :: "cp_entry list \<Rightarrow> field_info list parser" where
  "parse_fields pool = and_then u2 (\<lambda>n. times n (parse_field pool))"

definition parse_methods :: "cp_entry list \<Rightarrow> method_info list parser" where
  "parse_methods pool = and_then u2 (\<lambda>n. times n (parse_method pool))"

section \<open>The class\<close>

definition MAGIC :: nat where
  "MAGIC = 0xCAFEBABE"

definition read_class_name :: "cp_entry list \<Rightarrow> string parser" where
  "read_class_name pool = and_then u2 (\<lambda>i. lift_res (pool_class_name pool i))"

text \<open>Everything after the constant pool.\<close>

definition parse_body :: "nat \<Rightarrow> cp_entry list \<Rightarrow> class_info parser" where
  "parse_body major pool =
     and_then u2 (\<lambda>fl. and_then (read_class_name pool) (\<lambda>nm. and_then (read_class_name pool) (\<lambda>super.
     and_then (and_then u2 (\<lambda>n. times n (read_class_name pool))) (\<lambda>ifs.
     and_then (parse_fields pool) (\<lambda>fs. and_then (parse_methods pool) (\<lambda>ms.
     and_then (find_attributes pool {''SourceFile''}) (\<lambda>attrs.
     and_then (read_source pool attrs) (\<lambda>src.
     ret \<lparr>c_name = nm, c_super = super, c_interfaces = ifs, c_flags = fl, c_major = major,
          c_source_file = src, c_fields = fs, c_methods = ms\<rparr>))))))))"

definition parse_class_from :: "class_info parser" where
  "parse_class_from = and_then u4 (\<lambda>magic. if magic \<noteq> MAGIC then fail Bad_Magic else
     and_then u2 (\<lambda>minor. and_then u2 (\<lambda>major. and_then u2 (\<lambda>n.
     and_then (parse_constant_pool n) (\<lambda>pool. parse_body major pool)))))"

definition parse_class :: "byte list \<Rightarrow> class_error + class_info" where
  "parse_class data = run_parser parse_class_from data"

text \<open>\<open>iter_jar_classes\<close> over the entries of an archive, each with its bytes: directories and
  other files are skipped, an entry that does not parse costs only itself.\<close>

definition iter_jar_classes :: "bool \<Rightarrow> (string \<times> byte list) list \<Rightarrow> (string \<times> class_info) list" where
  "iter_jar_classes skip_meta_inf entries = concat (map (\<lambda>(nm, data).
     if py_endswith nm ''/'' \<or> \<not> py_endswith nm ''.class'' then []
     else if skip_meta_inf \<and> py_startswith nm ''META-INF/'' then []
     else case parse_class data of Inl _ \<Rightarrow> [] | Inr ci \<Rightarrow> [(nm, ci)]) entries)"

section \<open>The writer\<close>

type_synonym attr = "nat \<times> byte list"

fun enc_attr :: "attr \<Rightarrow> byte list" where
  "enc_attr (i, b) = enc2 i @ enc4 (length b) @ b"

definition attr_ok :: "cp_entry list \<Rightarrow> attr \<Rightarrow> bool" where
  "attr_ok pool a = (fst a < 65536 \<and> length (snd a) < 4294967296 \<and> \<not> isl (pool_utf8 pool (fst a)))"

definition attrs_ok :: "cp_entry list \<Rightarrow> attr list \<Rightarrow> bool" where
  "attrs_ok pool as = (length as < 65536 \<and> (\<forall>a \<in> set as. attr_ok pool a))"

text \<open>The bodies of the wanted attributes; of several with one name the last.\<close>

fun attr_map :: "cp_entry list \<Rightarrow> string set \<Rightarrow> attr list \<Rightarrow> (string \<rightharpoonup> byte list) \<Rightarrow> (string \<rightharpoonup> byte list)" where
  "attr_map pool wanted [] found = found"
| "attr_map pool wanted ((i, b) # as) found =
     (let nm = projr (pool_utf8 pool i) in
      attr_map pool wanted as (if nm \<in> wanted then found(nm \<mapsto> b) else found))"

lemma find_loop_enc:
  "\<forall>a \<in> set as. attr_ok pool a \<Longrightarrow>
   reads (find_loop pool wanted (length as) found) (concat (map enc_attr as)) (attr_map pool wanted as found)"
proof (induction "as" arbitrary: found)
  case Nil
  then show ?case by (simp add: reads_ret)
next
  case (Cons a as)
  obtain i b where a: "a = (i, b)" by (cases a)
  obtain nm where nm: "pool_utf8 pool i = Inr nm"
    using Cons.prems a by (cases "pool_utf8 pool i") (auto simp: attr_ok_def)
  have ib: "i < 65536" "length b < 4294967296" using Cons.prems a by (auto simp: attr_ok_def)
  let ?rest = "concat (map enc_attr as)"
  have IH: "reads (find_loop pool wanted (length as) f) ?rest (attr_map pool wanted as f)" for f
    using Cons by simp
  have "reads (and_then u4 (\<lambda>len. if nm \<in> wanted
       then and_then (rd_take len) (\<lambda>b. find_loop pool wanted (length as) (found(nm \<mapsto> b)))
       else and_then (rd_skip len) (\<lambda>_. find_loop pool wanted (length as) found)))
     (enc4 (length b) @ (b @ ?rest)) (attr_map pool wanted (a # as) found)"
    using ib(2) IH
    by (intro reads_and_then [OF reads_u4]) (auto simp: a nm intro!: reads_and_then reads_take reads_skip)
  then have "reads (and_then (lift_res (pool_utf8 pool i)) (\<lambda>nm. and_then u4 (\<lambda>len. if nm \<in> wanted
       then and_then (rd_take len) (\<lambda>b. find_loop pool wanted (length as) (found(nm \<mapsto> b)))
       else and_then (rd_skip len) (\<lambda>_. find_loop pool wanted (length as) found))))
     ([] @ (enc4 (length b) @ (b @ ?rest))) (attr_map pool wanted (a # as) found)"
    using nm by (intro reads_and_then [OF reads_lift])
  then show ?case
    using ib(1) by (auto simp: a intro!: reads_and_then [OF reads_u2])
qed

lemma find_attributes_enc:
  "attrs_ok pool as \<Longrightarrow>
   reads (find_attributes pool wanted) (enc_table enc_attr as) (attr_map pool wanted as (\<lambda>_. None))"
  unfolding find_attributes_def enc_table_def attrs_ok_def
  by (rule reads_and_then [OF reads_u2]) (auto intro: find_loop_enc)

lemma skip_attr_enc:
  "attr_ok pool a \<Longrightarrow> reads (and_then u2 (\<lambda>_. and_then u4 rd_skip)) (enc_attr a) ()"
  by (cases a) (auto simp: attr_ok_def intro!: reads_and_then [OF reads_u2] reads_and_then [OF reads_u4] reads_skip)

interpretation skipped_attr: codec enc_attr "and_then u2 (\<lambda>_. and_then u4 rd_skip)" "\<lambda>_. ()" "attr_ok pool"
  for pool
  by unfold_locales (rule skip_attr_enc)

lemma skip_attributes_enc:
  "attrs_ok pool as \<Longrightarrow> reads skip_attributes (enc_table enc_attr as) ()"
  unfolding skip_attributes_def enc_table_def attrs_ok_def
  by (rule reads_and_then [OF reads_u2])
    (auto intro!: reads_then_ret [where f = "\<lambda>_. ()"] skipped_attr.times_enc)

section \<open>Line number tables\<close>

definition enc_line :: "nat \<times> nat \<Rightarrow> byte list" where
  "enc_line e = enc2 (fst e) @ enc2 (snd e)"

definition line_ok :: "nat \<times> nat \<Rightarrow> bool" where
  "line_ok e = (fst e < 65536 \<and> snd e < 65536)"

interpretation line_entry: codec enc_line "and_then u2 (\<lambda>pc. and_then u2 (\<lambda>line. ret (pc, line)))"
  "\<lambda>e. e" line_ok
proof
  fix e assume "line_ok e"
  then have "reads (and_then u2 (\<lambda>line. ret (fst e, line))) (enc2 (snd e)) (fst e, snd e)"
    by (intro reads_then_ret reads_u2) (simp add: line_ok_def)
  then show "reads (and_then u2 (\<lambda>pc. and_then u2 (\<lambda>line. ret (pc, line)))) (enc_line e) e"
    using \<open>line_ok e\<close> unfolding enc_line_def
    by (intro reads_and_then [OF reads_u2]) (auto simp: line_ok_def)
qed

definition lines_ok :: "(nat \<times> nat) list \<Rightarrow> bool" where
  "lines_ok es = (length es < 65536 \<and> (\<forall>e \<in> set es. line_ok e))"

lemma run_parser_reads: "reads m bs x \<Longrightarrow> run_parser m bs = Inr x"
  by (simp add: run_parser_def reads_whole)

lemma parse_lines_enc: "lines_ok es \<Longrightarrow> parse_line_number_table (enc_table enc_line es) = Inr (sort es)"
  unfolding parse_line_number_table_def lines_ok_def
  using run_parser_reads [OF line_entry.table_enc, of es] by simp

lemma sort_pairs_fst: "sorted (map fst (sort (es :: (nat \<times> nat) list)))"
  by (rule sorted_wrt_map [THEN iffD2], rule sorted_wrt_mono_rel [OF _ sorted_sort])
    (auto simp: less_eq_prod_def)

section \<open>Fields\<close>

record field_file =
  ff_flags :: nat
  ff_name :: nat
  ff_desc :: nat
  ff_attrs :: "attr list"

definition enc_field :: "field_file \<Rightarrow> byte list" where
  "enc_field f = enc2 (ff_flags f) @ enc2 (ff_name f) @ enc2 (ff_desc f) @ enc_table enc_attr (ff_attrs f)"

definition field_ok :: "cp_entry list \<Rightarrow> field_file \<Rightarrow> bool" where
  "field_ok pool f = (ff_flags f < 65536 \<and> ff_name f < 65536 \<and> ff_desc f < 65536
     \<and> \<not> isl (pool_utf8 pool (ff_name f)) \<and> \<not> isl (pool_utf8 pool (ff_desc f)) \<and> attrs_ok pool (ff_attrs f))"

definition field_meaning :: "cp_entry list \<Rightarrow> field_file \<Rightarrow> field_info" where
  "field_meaning pool f = \<lparr>f_name = projr (pool_utf8 pool (ff_name f)),
     f_descriptor = projr (pool_utf8 pool (ff_desc f)), f_flags = ff_flags f\<rparr>"

lemma reads_lift_then: "v = Inr x \<Longrightarrow> reads (f x) bs y \<Longrightarrow> reads (and_then (lift_res v) f) bs y"
  using reads_and_then [OF reads_lift, of v x f bs y] by simp

lemma reads_u2_then: "n < 65536 \<Longrightarrow> reads (f n) bs y \<Longrightarrow> reads (and_then u2 f) (enc2 n @ bs) y"
  by (rule reads_and_then [OF reads_u2])

lemma reads_u4_then: "n < 4294967296 \<Longrightarrow> reads (f n) bs y \<Longrightarrow> reads (and_then u4 f) (enc4 n @ bs) y"
  by (rule reads_and_then [OF reads_u4])

lemma not_isl: "\<not> isl v \<Longrightarrow> v = Inr (projr v)"
  by (cases v) auto

interpretation fld: codec enc_field "parse_field pool" "field_meaning pool" "field_ok pool" for pool
proof
  fix f assume "field_ok pool f"
  then show "reads (parse_field pool) (enc_field f) (field_meaning pool f)"
    unfolding parse_field_def enc_field_def field_meaning_def field_ok_def
    by (intro reads_u2_then reads_lift_then [OF not_isl] reads_then_ret [where f = "\<lambda>_. _"])
      (auto intro: skip_attributes_enc)
qed

section \<open>Methods\<close>

record code_file =
  cf_stack :: nat
  cf_locals :: nat
  cf_instrs :: "instr list"
  cf_handlers :: "byte list list"
  cf_attrs :: "attr list"

definition enc_code :: "code_file \<Rightarrow> byte list" where
  "enc_code c = enc2 (cf_stack c) @ enc2 (cf_locals c)
     @ enc4 (length (code_bytes 0 (cf_instrs c))) @ code_bytes 0 (cf_instrs c)
     @ enc2 (length (cf_handlers c)) @ concat (cf_handlers c) @ enc_table enc_attr (cf_attrs c)"

text \<open>The line table a Code attribute carries: none, or one that the writer encoded.\<close>

definition code_lines :: "cp_entry list \<Rightarrow> code_file \<Rightarrow> byte list option" where
  "code_lines pool c = attr_map pool {''LineNumberTable''} (cf_attrs c) (\<lambda>_. None) ''LineNumberTable''"

definition code_ok :: "cp_entry list \<Rightarrow> (nat \<times> nat) list \<Rightarrow> code_file \<Rightarrow> bool" where
  "code_ok pool lines c = (length (code_bytes 0 (cf_instrs c)) < 4294967296
     \<and> (\<forall>i \<in> set (cf_instrs c). instr_ok pool i)
     \<and> length (cf_handlers c) < 65536 \<and> (\<forall>h \<in> set (cf_handlers c). length h = 8)
     \<and> attrs_ok pool (cf_attrs c) \<and> lines_ok lines
     \<and> code_lines pool c = (if lines = [] then None else Some (enc_table enc_line lines)))"

definition set_lines :: "(nat \<times> nat) list \<Rightarrow> method_info \<Rightarrow> method_info" where
  "set_lines lines m = (if lines = [] then m
     else m\<lparr>m_start_line := int (Min (snd ` set lines)), m_end_line := int (Max (snd ` set lines))\<rparr>)"

lemma read_code_enc:
  assumes "code_ok pool lines c"
  shows "reads (read_code pool) (enc_code c)
     (code_bytes 0 (cf_instrs c), attr_map pool {''LineNumberTable''} (cf_attrs c) (\<lambda>_. None))"
proof -
  have h: "length (concat (cf_handlers c)) = length (cf_handlers c) * 8"
    using assms unfolding code_ok_def length_concat by (induction "cf_handlers c" arbitrary: c) (auto simp: sum_list_triv map_idI cong: map_cong)
  have "reads (read_code pool) ((enc2 (cf_stack c) @ enc2 (cf_locals c))
     @ enc4 (length (code_bytes 0 (cf_instrs c))) @ code_bytes 0 (cf_instrs c)
     @ enc2 (length (cf_handlers c)) @ concat (cf_handlers c) @ enc_table enc_attr (cf_attrs c))
     (code_bytes 0 (cf_instrs c), attr_map pool {''LineNumberTable''} (cf_attrs c) (\<lambda>_. None))"
    unfolding read_code_def using assms h
    by (intro reads_and_then [OF reads_skip] reads_u4_then reads_and_then [OF reads_take] reads_u2_then
        reads_then_ret find_attributes_enc) (auto simp: code_ok_def)
  then show ?thesis by (simp add: enc_code_def)
qed

lemma parse_code_enc:
  assumes "code_ok pool lines c"
  shows "parse_code pool (enc_code c) m =
     Inr (code_effect pool (sort lines) 0 (cf_instrs c) (set_lines lines m))"
proof -
  have "sort lines = [] \<longleftrightarrow> lines = []" by (metis set_empty set_sort)
  then show ?thesis
    using assms run_parser_reads [OF read_code_enc [OF assms]]
    by (auto simp: parse_code_def code_ok_def code_lines_def parse_lines_enc set_lines_def
        scan_code_instrs [where pre = "[]", simplified])
qed

record method_file =
  mf_flags :: nat
  mf_name :: nat
  mf_desc :: nat
  mf_attrs :: "attr list"
  mf_code :: "(code_file \<times> (nat \<times> nat) list) option"

definition enc_method :: "method_file \<Rightarrow> byte list" where
  "enc_method f = enc2 (mf_flags f) @ enc2 (mf_name f) @ enc2 (mf_desc f) @ enc_table enc_attr (mf_attrs f)"

definition method_ok :: "cp_entry list \<Rightarrow> method_file \<Rightarrow> bool" where
  "method_ok pool f = (mf_flags f < 65536 \<and> mf_name f < 65536 \<and> mf_desc f < 65536
     \<and> \<not> isl (pool_utf8 pool (mf_name f)) \<and> \<not> isl (pool_utf8 pool (mf_desc f)) \<and> attrs_ok pool (mf_attrs f)
     \<and> attr_map pool {''Code''} (mf_attrs f) (\<lambda>_. None) ''Code'' = map_option (enc_code \<circ> fst) (mf_code f)
     \<and> (case mf_code f of None \<Rightarrow> True | Some (c, lines) \<Rightarrow> code_ok pool lines c))"

definition method_meaning :: "cp_entry list \<Rightarrow> method_file \<Rightarrow> method_info" where
  "method_meaning pool f =
     (let m = mk_method (projr (pool_utf8 pool (mf_name f))) (projr (pool_utf8 pool (mf_desc f))) (mf_flags f) in
      case mf_code f of None \<Rightarrow> m
      | Some (c, lines) \<Rightarrow> code_effect pool (sort lines) 0 (cf_instrs c) (set_lines lines m))"

interpretation mth: codec enc_method "parse_method pool" "method_meaning pool" "method_ok pool" for pool
proof
  fix f assume ok: "method_ok pool f"
  let ?m = "mk_method (projr (pool_utf8 pool (mf_name f))) (projr (pool_utf8 pool (mf_desc f))) (mf_flags f)"
  let ?attrs = "attr_map pool {''Code''} (mf_attrs f) (\<lambda>_. None)"
  have tail: "reads (add_code pool ?m ?attrs) [] (method_meaning pool f)"
  proof (cases "mf_code f")
    case None
    with ok have none: "?attrs ''Code'' = None" unfolding method_ok_def by simp
    show ?thesis using None by (simp add: add_code_def none method_meaning_def reads_ret)
  next
    case (Some cl)
    obtain c lines where cl: "cl = (c, lines)" by (cases cl)
    with ok Some have code: "?attrs ''Code'' = Some (enc_code c)" and c: "code_ok pool lines c"
      unfolding method_ok_def by simp_all
    show ?thesis using Some cl
      by (simp add: add_code_def code method_meaning_def reads_lift [OF parse_code_enc [OF c]])
  qed
  have "attrs_ok pool (mf_attrs f)" using ok unfolding method_ok_def by blast
  then have find: "reads (find_attributes pool {''Code''}) (enc_table enc_attr (mf_attrs f)) ?attrs"
    by (rule find_attributes_enc)
  have "reads (and_then (find_attributes pool {''Code''}) (add_code pool ?m))
      (enc_table enc_attr (mf_attrs f) @ []) (method_meaning pool f)"
    by (rule reads_and_then [of "find_attributes pool {''Code''}" "enc_table enc_attr (mf_attrs f)" ?attrs
          "add_code pool ?m"]) (rule find, rule tail)
  note body = this [unfolded append_Nil2]
  have "mf_flags f < 65536" "mf_name f < 65536" "mf_desc f < 65536"
     "\<not> isl (pool_utf8 pool (mf_name f))" "\<not> isl (pool_utf8 pool (mf_desc f))"
    using ok unfolding method_ok_def by blast+
  then show "reads (parse_method pool) (enc_method f) (method_meaning pool f)"
    unfolding parse_method_def enc_method_def
    by (intro reads_u2_then reads_lift_then [OF not_isl] body)
qed

section \<open>Classes\<close>

record class_file =
  k_minor :: nat
  k_major :: nat
  k_pool :: "cp_entry list"
  k_flags :: nat
  k_this :: nat
  k_super :: nat
  k_interfaces :: "nat list"
  k_fields :: "field_file list"
  k_methods :: "method_file list"
  k_attrs :: "attr list"

definition enc_class :: "class_file \<Rightarrow> byte list" where
  "enc_class k = enc4 0xCAFEBABE @ enc2 (k_minor k) @ enc2 (k_major k)
     @ enc2 (length (pool_of (k_pool k))) @ concat (map enc_cp (k_pool k))
     @ enc2 (k_flags k) @ enc2 (k_this k) @ enc2 (k_super k)
     @ enc_table enc2 (k_interfaces k) @ enc_table enc_field (k_fields k)
     @ enc_table enc_method (k_methods k) @ enc_table enc_attr (k_attrs k)"

definition class_ref_ok :: "cp_entry list \<Rightarrow> nat \<Rightarrow> bool" where
  "class_ref_ok pool i = (i < 65536 \<and> \<not> isl (pool_class_name pool i))"

text \<open>The name of the source file, given by the last SourceFile attribute.\<close>

definition source_of :: "cp_entry list \<Rightarrow> attr list \<Rightarrow> class_error + string" where
  "source_of pool as = (case attr_map pool {''SourceFile''} as (\<lambda>_. None) ''SourceFile'' of
     None \<Rightarrow> Inr [] | Some b \<Rightarrow> if length b < 2 then Inl Struct_Error else pool_utf8 pool (be_value (take 2 b)))"

definition class_ok :: "class_file \<Rightarrow> bool" where
  "class_ok k = (let pool = pool_of (k_pool k) in
     k_minor k < 65536 \<and> k_major k < 65536 \<and> length pool < 65536 \<and> (\<forall>e \<in> set (k_pool k). cp_ok e)
     \<and> k_flags k < 65536 \<and> class_ref_ok pool (k_this k) \<and> class_ref_ok pool (k_super k)
     \<and> length (k_interfaces k) < 65536 \<and> (\<forall>i \<in> set (k_interfaces k). class_ref_ok pool i)
     \<and> length (k_fields k) < 65536 \<and> (\<forall>f \<in> set (k_fields k). field_ok pool f)
     \<and> length (k_methods k) < 65536 \<and> (\<forall>m \<in> set (k_methods k). method_ok pool m)
     \<and> attrs_ok pool (k_attrs k) \<and> \<not> isl (source_of pool (k_attrs k)))"

definition class_meaning :: "class_file \<Rightarrow> class_info" where
  "class_meaning k = (let pool = pool_of (k_pool k) in
     \<lparr>c_name = projr (pool_class_name pool (k_this k)), c_super = projr (pool_class_name pool (k_super k)),
      c_interfaces = map (\<lambda>i. projr (pool_class_name pool i)) (k_interfaces k), c_flags = k_flags k,
      c_major = k_major k, c_source_file = projr (source_of pool (k_attrs k)),
      c_fields = map (field_meaning pool) (k_fields k), c_methods = map (method_meaning pool) (k_methods k)\<rparr>)"

interpretation cls_ref: codec enc2 "read_class_name pool" "\<lambda>i. projr (pool_class_name pool i)" "class_ref_ok pool"
  for pool
proof
  fix i assume "class_ref_ok pool i"
  then have "reads (and_then u2 (\<lambda>i. lift_res (pool_class_name pool i))) (enc2 i @ []) (projr (pool_class_name pool i))"
    by (intro reads_u2_then reads_lift not_isl) (auto simp: class_ref_ok_def)
  then show "reads (read_class_name pool) (enc2 i) (projr (pool_class_name pool i))"
    by (simp add: read_class_name_def)
qed

lemma source_reads:
  assumes "\<not> isl (source_of pool as)"
  shows "reads (read_source pool (attr_map pool {''SourceFile''} as (\<lambda>_. None))) [] (projr (source_of pool as))"
  using assms
  by (auto simp: read_source_def source_of_def slice_def Let_def intro!: reads_ret reads_lift not_isl
      split: option.splits if_splits)

lemma parse_body_enc:
  assumes "class_ok k"
  shows "reads (parse_body (k_major k) (pool_of (k_pool k)))
     (enc2 (k_flags k) @ enc2 (k_this k) @ enc2 (k_super k)
     @ enc_table enc2 (k_interfaces k) @ enc_table enc_field (k_fields k)
     @ enc_table enc_method (k_methods k) @ enc_table enc_attr (k_attrs k) @ []) (class_meaning k)"
  unfolding parse_body_def parse_fields_def parse_methods_def using assms
proof (intro reads_u2_then cls_ref.enc_then cls_ref.table_then fld.table_then mth.table_then, goal_cases)
  case 10
  have "reads (and_then (find_attributes (pool_of (k_pool k)) {''SourceFile''}) (\<lambda>attrs.
     and_then (read_source (pool_of (k_pool k)) attrs) (\<lambda>src. ret (f src)))) (enc_table enc_attr (k_attrs k) @ []) (f (projr (source_of (pool_of (k_pool k)) (k_attrs k))))"
    for f :: "string \<Rightarrow> class_info"
    using assms
    by (intro reads_and_then [OF find_attributes_enc] reads_then_ret source_reads) (auto simp: class_ok_def Let_def)
  then show ?case by (simp add: class_meaning_def Let_def)
qed (auto simp: class_ok_def Let_def)

lemma reads_class: "class_ok k \<Longrightarrow> reads parse_class_from (enc_class k) (class_meaning k)"
  unfolding parse_class_from_def enc_class_def MAGIC_def
  by (intro reads_u4_then) (auto simp: class_ok_def Let_def
      intro!: reads_u2_then reads_and_then [OF parse_pool_enc] parse_body_enc [simplified])

text \<open>C14: whatever class a writer of the format encodes, with any constant pool, unknown
  attributes, switches and line tables, \<open>parse_class\<close> returns exactly that class: its names,
  members, calls with offsets and lines.\<close>

theorem parse_class_roundtrip:
  assumes "class_ok k"
  shows "parse_class (enc_class k) = Inr (class_meaning k)"
  by (simp add: parse_class_def run_parser_reads [OF reads_class [OF assms]])

definition demo_class :: class_file where
  "demo_class = \<lparr>k_minor = 0, k_major = 52,
     k_pool = [CP_Utf8 ''p/A'', CP_One 7 1, CP_Number 5 (replicate 8 1), CP_Utf8 ''m'', CP_Utf8 ''()V'',
       CP_Two 12 5 6, CP_Two 10 2 7, CP_Utf8 ''Code'', CP_Utf8 ''LineNumberTable'', CP_Utf8 ''Weird''],
     k_flags = 1, k_this = 2, k_super = 0, k_interfaces = [],
     k_fields = [\<lparr>ff_flags = 8, ff_name = 5, ff_desc = 6, ff_attrs = [(11, [1, 2, 3])]\<rparr>],
     k_methods = [\<lparr>mf_flags = 9, mf_name = 5, mf_desc = 6,
       mf_attrs = [(11, []), (9, enc_code \<lparr>cf_stack = 1, cf_locals = 1, cf_instrs = [Plain 0 [], Invoke_Instr 0xb8 8],
          cf_handlers = [replicate 8 0], cf_attrs = [(10, enc_table enc_line [(1, 42), (0, 41)])]\<rparr>)],
       mf_code = Some (\<lparr>cf_stack = 1, cf_locals = 1, cf_instrs = [Plain 0 [], Invoke_Instr 0xb8 8],
          cf_handlers = [replicate 8 0], cf_attrs = [(10, enc_table enc_line [(1, 42), (0, 41)])]\<rparr>, [(1, 42), (0, 41)])\<rparr>],
     k_attrs = []\<rparr>"

lemma demo_pool: "pool_of (k_pool demo_class) = [CP_Unused, CP_Utf8 ''p/A'', CP_One 7 1,
    CP_Number 5 (replicate 8 1), CP_Unused, CP_Utf8 ''m'', CP_Utf8 ''()V'', CP_Two 12 5 6, CP_Two 10 2 7,
    CP_Utf8 ''Code'', CP_Utf8 ''LineNumberTable'', CP_Utf8 ''Weird'']"
  by (simp add: demo_class_def pool_of_def lay_out_def numeral_2_eq_2)

lemmas pool_simps = entry_at_def name_and_type_def pool_class_name_def pool_utf8_def pool_member_ref_def
  replace_char_def

lemma demo_cp_ok: "\<forall>e \<in> set (k_pool demo_class). cp_ok e"
  using utf8_ascii [of "''p/A''"] utf8_ascii [of "''m''"] utf8_ascii [of "''()V''"] utf8_ascii [of "''Code''"]
    utf8_ascii [of "''LineNumberTable''"] utf8_ascii [of "''Weird''"]
  by (simp add: demo_class_def ascii_def)

lemma demo_class_ok: "class_ok demo_class"
proof -
  let ?pool = "pool_of (k_pool demo_class)"
  let ?c = "\<lparr>cf_stack = 1, cf_locals = 1, cf_instrs = [Plain 0 [], Invoke_Instr 0xb8 8],
          cf_handlers = [replicate 8 0], cf_attrs = [(10, enc_table enc_line [(1, 42), (0, 41)])]\<rparr>"
  have code: "code_ok ?pool [(1, 42), (0, 41)] ?c"
    unfolding demo_pool
    by (simp add: code_ok_def code_lines_def attrs_ok_def attr_ok_def lines_ok_def line_ok_def plain_ok_def
        jvm_operands_def pool_simps enc_table_def enc_line_def)
  have "\<forall>m \<in> set (k_methods demo_class). method_ok ?pool m"
    using code unfolding demo_pool
    by (simp add: demo_class_def method_ok_def attrs_ok_def attr_ok_def pool_simps enc_code_def
        enc_table_def enc_line_def)
  moreover have "\<forall>f \<in> set (k_fields demo_class). field_ok ?pool f"
    unfolding demo_pool by (simp add: demo_class_def field_ok_def attrs_ok_def attr_ok_def pool_simps)
  moreover have "class_ref_ok ?pool 2" "class_ref_ok ?pool 0" "length ?pool < 65536"
    unfolding demo_pool by (simp_all add: class_ref_ok_def pool_simps)
  ultimately show ?thesis
    using demo_cp_ok by (simp add: class_ok_def Let_def) (simp add: demo_class_def source_of_def attrs_ok_def)
qed

theorem parse_class_roundtrip_witness:
  "map_sum (\<lambda>e. e) (\<lambda>c. (c_name c, map (\<lambda>m. (m_start_line m, m_end_line m,
       map (\<lambda>i. (i_owner i, i_name i, i_line i, i_offset i)) (m_invocations m))) (c_methods c)))
     (parse_class (enc_class demo_class)) = Inr (''p.A'', [(41, 42, [(''p.A'', ''m'', 42, 1)])])"
  unfolding parse_class_roundtrip [OF demo_class_ok]
  by (simp add: class_meaning_def Let_def demo_pool)
    (simp add: demo_class_def method_meaning_def pool_simps mk_method_def set_lines_def add_invocation_def
      line_for_offset_def less_eq_prod_def)

section \<open>Truncation\<close>

lemma find_loop_stable [stable_intro]: "stable (find_loop pool wanted n found)"
  by (induction n arbitrary: found) (auto intro!: stable_intro)

lemma stable_parsers [stable_intro]:
  "stable (find_attributes pool wanted)" "stable skip_attributes" "stable (read_class_name pool)"
  "stable (add_code pool m attrs)" "stable (read_source pool attrs)"
  by (auto simp: find_attributes_def skip_attributes_def read_class_name_def add_code_def read_source_def
      intro!: stable_intro split: option.splits)

lemma stable_members [stable_intro]: "stable (parse_field pool)" "stable (parse_method pool)"
  by (auto simp: parse_field_def parse_method_def intro!: stable_intro)

lemma parse_class_from_stable: "stable parse_class_from"
  unfolding parse_class_from_def parse_body_def parse_fields_def parse_methods_def
  by (auto intro!: stable_intro)

text \<open>C15: a class file cut off anywhere is reported as an error, never read as a shorter class;
  and bytes after the class change nothing.\<close>

theorem parse_class_truncated:
  assumes "class_ok k" and "n < length (enc_class k)"
  shows "(\<exists>e. parse_class (take n (enc_class k)) = Inl e)
    \<and> parse_class (enc_class k @ junk) = Inr (class_meaning k)"
proof
  show "\<exists>e. parse_class (take n (enc_class k)) = Inl e"
    using stable_truncated [OF parse_class_from_stable reads_class [OF assms(1)] assms(2)]
    by (auto simp: parse_class_def run_parser_def)
  show "parse_class (enc_class k @ junk) = Inr (class_meaning k)"
    by (simp add: parse_class_def run_parser_def reads_prefix [OF reads_class [OF assms(1)]])
qed

theorem parse_class_truncated_witness:
  "(\<exists>e. parse_class (take 10 (enc_class demo_class)) = Inl e)
   \<and> parse_class (enc_class demo_class @ [1, 2]) = Inr (class_meaning demo_class)"
  by (rule parse_class_truncated [OF demo_class_ok]) (simp add: enc_class_def)

section \<open>Several line tables\<close>

text \<open>The format allows a Code attribute to carry several LineNumberTable attributes, which
  together give the lines.  The reader keeps one body per name, so only the last table
  counts: a call covered by an earlier one is reported without a line.\<close>

theorem line_tables_last_wins:
  "\<exists>pool c m'. cf_attrs c = [(10, enc_table enc_line [(0, 41)]), (10, enc_table enc_line [(3, 42)])]
     \<and> parse_code pool (enc_code c) (mk_method ''m'' ''()V'' 9) = Inr m'
     \<and> map (\<lambda>i. (i_offset i, i_line i)) (m_invocations m') = [(0, -1)] \<and> m_start_line m' = 42"
proof -
  let ?pool = "pool_of (k_pool demo_class)"
  let ?c = "\<lparr>cf_stack = 1, cf_locals = 1, cf_instrs = [Invoke_Instr 0xb8 8, Plain 0xb1 []], cf_handlers = [],
     cf_attrs = [(10, enc_table enc_line [(0, 41)]), (10, enc_table enc_line [(3, 42)])]\<rparr>"
  have ok: "code_ok ?pool [(3, 42)] ?c"
    unfolding demo_pool
    by (simp add: code_ok_def code_lines_def attrs_ok_def attr_ok_def lines_ok_def line_ok_def plain_ok_def
        jvm_operands_def pool_simps enc_table_def enc_line_def)
  let ?m = "code_effect ?pool (sort [(3, 42)]) 0 (cf_instrs ?c) (set_lines [(3, 42)] (mk_method ''m'' ''()V'' 9))"
  have "parse_code ?pool (enc_code ?c) (mk_method ''m'' ''()V'' 9) = Inr ?m"
    by (rule parse_code_enc [OF ok])
  moreover have "map (\<lambda>i. (i_offset i, i_line i)) (m_invocations ?m) = [(0, -1)] \<and> m_start_line ?m = 42"
    unfolding demo_pool
    by (simp add: pool_simps set_lines_def mk_method_def add_invocation_def line_for_offset_def)
  ultimately show ?thesis by (intro exI [of _ ?pool] exI [of _ ?c] exI [of _ ?m]) simp
qed

end
