(* ===== verification/Matcher.thy ===== *)
theory Matcher
  imports Models Descriptor
begin

text \<open>
  The join between bytecode members and extracted nodes
  (\<open>graph_core/bytecode/matcher.py\<close>): name and type normalisation, the node index, and the
  lookups, each against a reference that scans the node list directly.
\<close>

section \<open>Names and types\<close>

definition binary_to_source_fqn :: "string \<Rightarrow> string" where
  "binary_to_source_fqn nm =
     (if CHR ''$'' \<notin> set nm then nm
      else if py_isdigit (after_last (CHR ''$'') nm) then []
      else replace_char (CHR ''$'') (CHR ''.'') nm)"

definition normalize_type :: "string \<Rightarrow> string" where
  "normalize_type t =
     (let a = before_first (CHR ''<'') t;
          b = py_strip (py_replace ''...'' [] (py_replace ''[]'' [] a));
          c = (if CHR ''.'' \<in> set b then after_last (CHR ''.'') b else b)
      in (if CHR ''$'' \<in> set c then after_last (CHR ''$'') c else c))"

definition descriptor_simple_types :: "string \<Rightarrow> class_error + string list" where
  "descriptor_simple_types d =
     map_sum (\<lambda>e. e) (map (\<lambda>t. normalize_type (type_name t))) (descriptor_param_types d)"

definition method_lookup_name :: "string \<Rightarrow> string \<Rightarrow> string" where
  "method_lookup_name fqn nm = (if nm = ''<init>'' then after_last (CHR ''.'') fqn else nm)"

section \<open>The index\<close>

record match_stats =
  st_matched_methods :: nat
  st_matched_fields :: nat
  st_unmatched_class :: nat
  st_unmatched_method :: nat
  st_unmatched_field :: nat
  st_implicit_ctor :: nat
  st_ambiguous_method :: nat
  st_anonymous_class :: nat
  st_lambda_body :: nat
  st_class_initializer :: nat
  st_skipped_synthetic :: nat

definition no_stats :: match_stats where
  "no_stats = \<lparr>st_matched_methods = 0, st_matched_fields = 0, st_unmatched_class = 0,
     st_unmatched_method = 0, st_unmatched_field = 0, st_implicit_ctor = 0,
     st_ambiguous_method = 0, st_anonymous_class = 0, st_lambda_body = 0,
     st_class_initializer = 0, st_skipped_synthetic = 0\<rparr>"

type_synonym method_key = "string \<times> string \<times> int"

record node_index =
  ni_methods :: "method_key \<Rightarrow> (string \<times> string list) list"
  ni_classes :: "string \<rightharpoonup> string"
  ni_fields :: "string \<rightharpoonup> string"
  ni_file_of :: "string \<rightharpoonup> string"
  ni_has_ctor :: "string set"

definition empty_index :: node_index where
  "empty_index = \<lparr>ni_methods = dd_empty, ni_classes = (\<lambda>_. None), ni_fields = (\<lambda>_. None),
     ni_file_of = (\<lambda>_. None), ni_has_ctor = {}\<rparr>"

definition is_method_node :: "node \<Rightarrow> bool" where
  "is_method_node n = (n_label n = ''Function'' \<and> n_fqn n \<noteq> [] \<and> CHR ''#'' \<in> set (n_fqn n))"

definition node_key :: "node \<Rightarrow> method_key" where
  "node_key n = (before_last (CHR ''#'') (n_fqn n), after_last (CHR ''#'') (n_fqn n), n_param_count n)"

definition index_file :: "node \<Rightarrow> node_index \<Rightarrow> node_index" where
  "index_file n ix = (if n_file n \<noteq> [] then ix\<lparr>ni_file_of := (ni_file_of ix)(n_id n \<mapsto> n_file n)\<rparr> else ix)"

definition index_node :: "node \<Rightarrow> node_index \<Rightarrow> node_index" where
  "index_node n ix = index_file n
     (if n_label n = ''Class'' then ix\<lparr>ni_classes := setdefault (n_fqn n) (n_id n) (ni_classes ix)\<rparr>
      else if n_label n = ''Field'' then ix\<lparr>ni_fields := setdefault (n_fqn n) (n_id n) (ni_fields ix)\<rparr>
      else if is_method_node n then
        ix\<lparr>ni_methods := dd_append (node_key n) (n_id n, n_param_types n) (ni_methods ix),
           ni_has_ctor := (if n_kind n = ''constructor'' then insert (fst (node_key n)) (ni_has_ctor ix)
                           else ni_has_ctor ix)\<rparr>
      else ix)"

definition build_index :: "node list \<Rightarrow> node_index" where
  "build_index nodes = fold index_node nodes empty_index"

section \<open>Lookups\<close>

definition or_empty :: "string option \<Rightarrow> string" where
  "or_empty v = (case v of None \<Rightarrow> [] | Some x \<Rightarrow> x)"

definition class_id :: "node_index \<Rightarrow> string \<Rightarrow> string" where
  "class_id ix nm = (let fqn = binary_to_source_fqn nm in
     if fqn \<noteq> [] then or_empty (ni_classes ix fqn) else [])"

definition field_id :: "node_index \<Rightarrow> string \<Rightarrow> string \<Rightarrow> string" where
  "field_id ix owner fname = (let fqn = binary_to_source_fqn owner in
     if fqn = [] then [] else or_empty (ni_fields ix (fqn @ ''.'' @ fname)))"

definition file_of :: "node_index \<Rightarrow> string \<Rightarrow> string" where
  "file_of ix i = or_empty (ni_file_of ix i)"

text \<open>The candidates whose erased parameter types agree, in index order.\<close>

definition exact_ids :: "string list \<Rightarrow> (string \<times> string list) list \<Rightarrow> string list" where
  "exact_ids wanted candidates = map fst (filter (\<lambda>c. map normalize_type (snd c) = wanted) candidates)"

definition method_id ::
  "node_index \<Rightarrow> string \<Rightarrow> string \<Rightarrow> string \<Rightarrow> match_stats \<Rightarrow> string \<times> match_stats" where
  "method_id ix owner nm d st =
     (let fqn = binary_to_source_fqn owner in
      if fqn = [] then ([], st\<lparr>st_anonymous_class := st_anonymous_class st + 1\<rparr>)
      else
        let lookup = method_lookup_name fqn nm in
        case descriptor_param_types d of
          Inl _ \<Rightarrow> ([], st)
        | Inr params \<Rightarrow>
          let arity = int (length params); candidates = ni_methods ix (fqn, lookup, arity) in
          if candidates = [] then
            ([], if ni_classes ix fqn = None then st\<lparr>st_unmatched_class := st_unmatched_class st + 1\<rparr>
                 else if nm = ''<init>'' \<and> arity = 0 \<and> fqn \<notin> ni_has_ctor ix
                 then st\<lparr>st_implicit_ctor := st_implicit_ctor st + 1\<rparr>
                 else st\<lparr>st_unmatched_method := st_unmatched_method st + 1\<rparr>)
          else if length candidates = 1
          then (fst (hd candidates), st\<lparr>st_matched_methods := st_matched_methods st + 1\<rparr>)
          else
            let wanted = map (\<lambda>t. normalize_type (type_name t)) params;
                exact = exact_ids wanted candidates
            in if length exact = 1
               then (hd exact, st\<lparr>st_matched_methods := st_matched_methods st + 1\<rparr>)
               else ([], st\<lparr>st_ambiguous_method := st_ambiguous_method st + 1\<rparr>))"

definition override_target :: "node_index \<Rightarrow> string \<Rightarrow> string \<Rightarrow> string \<Rightarrow> string" where
  "override_target ix ancestor nm d =
     (let fqn = binary_to_source_fqn ancestor in
      if fqn = [] then []
      else
        let lookup = method_lookup_name fqn nm in
        case descriptor_simple_types d of
          Inl _ \<Rightarrow> []
        | Inr wanted \<Rightarrow>
          let candidates = ni_methods ix (fqn, lookup, int (length wanted)) in
          if candidates = [] then []
          else
            let exact = exact_ids wanted candidates
            in if length exact = 1 then hd exact else [])"

section \<open>Member filters\<close>

definition should_skip_method :: "method_info \<Rightarrow> bool" where
  "should_skip_method m = ((m_is_synthetic m \<or> m_is_bridge m) \<and> \<not> m_is_lambda_body m)"

definition can_override :: "method_info \<Rightarrow> bool" where
  "can_override m = (\<not> (m_is_static m \<or> m_is_private m \<or> m_is_constructor m
     \<or> m_is_class_initializer m \<or> m_is_lambda_body m))"

definition caller_needs_synthesis :: "class_info \<Rightarrow> method_info \<Rightarrow> bool" where
  "caller_needs_synthesis c m = (c_is_anonymous c \<or> m_is_lambda_body m \<or> m_is_class_initializer m)"

section \<open>What the index holds\<close>

lemma build_methods:
  "ni_methods (build_index nodes) k =
     map (\<lambda>n. (n_id n, n_param_types n)) (filter (\<lambda>n. is_method_node n \<and> node_key n = k) nodes)"
proof -
  have "ni_methods (fold index_node nodes ix) =
      fold (\<lambda>n m. if is_method_node n then dd_append (node_key n) (n_id n, n_param_types n) m else m)
        nodes (ni_methods ix)" for ix
    by (induction nodes arbitrary: ix) (auto simp: index_node_def index_file_def is_method_node_def)
  then show ?thesis
    by (simp add: build_index_def empty_index_def dd.look_build)
qed

lemma build_classes:
  "ni_classes (build_index nodes) k = map_option n_id (find (\<lambda>n. n_label n = ''Class'' \<and> n_fqn n = k) nodes)"
proof -
  have "ni_classes (fold index_node nodes ix) =
      fold (\<lambda>n m. if n_label n = ''Class'' then setdefault (n_fqn n) (n_id n) m else m)
        nodes (ni_classes ix)" for ix
    by (induction nodes arbitrary: ix) (auto simp: index_node_def index_file_def)
  then show ?thesis
    by (simp add: build_index_def empty_index_def dict_laws)
qed

lemma build_fields:
  "ni_fields (build_index nodes) k = map_option n_id (find (\<lambda>n. n_label n = ''Field'' \<and> n_fqn n = k) nodes)"
proof -
  have "ni_fields (fold index_node nodes ix) =
      fold (\<lambda>n m. if n_label n = ''Field'' then setdefault (n_fqn n) (n_id n) m else m)
        nodes (ni_fields ix)" for ix
    by (induction nodes arbitrary: ix) (auto simp: index_node_def index_file_def)
  then show ?thesis
    by (simp add: build_index_def empty_index_def dict_laws)
qed

text \<open>The methods a bytecode reference could mean: right class, name and arity.\<close>

definition same_arity :: "node list \<Rightarrow> string \<Rightarrow> string \<Rightarrow> nat \<Rightarrow> node list" where
  "same_arity nodes owner nm a =
     (let fqn = binary_to_source_fqn owner in
      filter (\<lambda>n. is_method_node n \<and> node_key n = (fqn, method_lookup_name fqn nm, int a)) nodes)"

definition same_types :: "string list \<Rightarrow> node \<Rightarrow> bool" where
  "same_types ps n = (map normalize_type (n_param_types n) = map (\<lambda>t. normalize_type (type_name t)) ps)"

lemma exact_ids_nodes:
  "exact_ids (map (\<lambda>t. normalize_type (type_name t)) ps) (map (\<lambda>n. (n_id n, n_param_types n)) ns)
     = map n_id (filter (same_types ps) ns)"
  by (simp add: exact_ids_def filter_map o_def same_types_def [abs_def])

lemma length_one: "length xs = Suc 0 \<longleftrightarrow> (\<exists>x. xs = [x])"
  by (cases xs) auto

lemma candidates_same_arity:
  "ni_methods (build_index nodes) (binary_to_source_fqn owner, method_lookup_name (binary_to_source_fqn owner) nm, int a)
     = map (\<lambda>n. (n_id n, n_param_types n)) (same_arity nodes owner nm a)"
  by (simp add: build_methods same_arity_def Let_def)

text \<open>The node a call means, if the extracted nodes pin it: the only method of that class, name
  and arity, or the only one whose erased parameter types agree.\<close>

fun the_only :: "'a list \<Rightarrow> 'a option" where
  "the_only [x] = Some x"
| "the_only _ = None"

lemma the_only_length: "the_only xs = (if length xs = 1 then Some (hd xs) else None)"
  by (cases xs rule: the_only.cases) auto

definition pinned :: "node list \<Rightarrow> string \<Rightarrow> string \<Rightarrow> string list \<Rightarrow> node option" where
  "pinned nodes owner nm ps =
     (let cs = same_arity nodes owner nm (length ps) in
      case the_only cs of Some n \<Rightarrow> Some n | None \<Rightarrow> the_only (filter (same_types ps) cs))"

text \<open>C16: a bytecode method resolves to the node the extracted nodes pin, and to nothing when
  they do not: no candidate is ever picked among several.  This holds for every node list
  the index is built from, and a pinned node is a method of exactly that class, name and
  arity.\<close>

theorem method_id_exact:
  assumes "descriptor_param_types d = Inr ps" and "binary_to_source_fqn owner \<noteq> []"
  shows "fst (method_id (build_index nodes) owner nm d st) =
           (case pinned nodes owner nm ps of Some n \<Rightarrow> n_id n | None \<Rightarrow> [])
    \<and> (\<forall>n. pinned nodes owner nm ps = Some n \<longrightarrow> n \<in> set nodes \<and> n_label n = ''Function''
         \<and> n_fqn n = binary_to_source_fqn owner @ ''#'' @ method_lookup_name (binary_to_source_fqn owner) nm
         \<and> n_param_count n = int (length ps)
         \<and> (\<forall>m \<in> set nodes. m \<noteq> n \<and> node_key m = node_key n \<and> is_method_node m
              \<longrightarrow> same_types ps n \<and> \<not> same_types ps m))"
proof
  let ?fqn = "binary_to_source_fqn owner" and ?cs = "same_arity nodes owner nm (length ps)"
  show "fst (method_id (build_index nodes) owner nm d st) =
           (case pinned nodes owner nm ps of Some n \<Rightarrow> n_id n | None \<Rightarrow> [])"
    using assms
    by (auto simp: method_id_def Let_def candidates_same_arity pinned_def the_only_length hd_map
        exact_ids_nodes length_one)
  show "\<forall>n. pinned nodes owner nm ps = Some n \<longrightarrow> n \<in> set nodes \<and> n_label n = ''Function''
         \<and> n_fqn n = ?fqn @ ''#'' @ method_lookup_name ?fqn nm \<and> n_param_count n = int (length ps)
         \<and> (\<forall>m \<in> set nodes. m \<noteq> n \<and> node_key m = node_key n \<and> is_method_node m
              \<longrightarrow> same_types ps n \<and> \<not> same_types ps m)"
  proof (intro allI impI)
    fix n assume "pinned nodes owner nm ps = Some n"
    then have only: "?cs = [n] \<or> filter (same_types ps) ?cs = [n]"
      by (auto simp: pinned_def the_only_length Let_def length_one split: option.splits if_splits)
    then have n: "n \<in> set ?cs" by (metis filter_is_subset list.set_intros(1) subsetD)
    then have key: "n \<in> set nodes" "is_method_node n"
        "node_key n = (?fqn, method_lookup_name ?fqn nm, int (length ps))"
      by (auto simp: same_arity_def Let_def)
    then have fqn: "n_fqn n = ?fqn @ ''#'' @ method_lookup_name ?fqn nm"
      using split_last_char [of "CHR ''#''" "n_fqn n"] by (simp add: is_method_node_def node_key_def)
    have "same_types ps n \<and> \<not> same_types ps m"
      if "m \<in> set nodes" "m \<noteq> n" "node_key m = node_key n" "is_method_node m" for m
    proof -
      have m: "m \<in> set ?cs" using that key by (simp add: same_arity_def Let_def)
      with only that have f: "filter (same_types ps) ?cs = [n]" by auto
      have "n \<in> set (filter (same_types ps) ?cs)" unfolding f by simp
      moreover have "m \<notin> set (filter (same_types ps) ?cs)" unfolding f using that by simp
      ultimately show ?thesis using m by simp
    qed
    with key fqn show "n \<in> set nodes \<and> n_label n = ''Function''
         \<and> n_fqn n = ?fqn @ ''#'' @ method_lookup_name ?fqn nm \<and> n_param_count n = int (length ps)
         \<and> (\<forall>m \<in> set nodes. m \<noteq> n \<and> node_key m = node_key n \<and> is_method_node m
              \<longrightarrow> same_types ps n \<and> \<not> same_types ps m)"
      by (auto simp: is_method_node_def node_key_def)
  qed
qed

definition demo_methods :: "node list" where
  "demo_methods =
     [(mk_node ''i1'' ''Function'' ''f'' ''p.A#f'' ''r'')\<lparr>n_param_count := 1, n_param_types := [''int'']\<rparr>,
      (mk_node ''i2'' ''Function'' ''f'' ''p.A#f'' ''r'')\<lparr>n_param_count := 1, n_param_types := [''String'']\<rparr>,
      mk_node ''i3'' ''Function'' ''g'' ''p.A#g'' ''r'']"

lemma demo_params: "descriptor_param_types ''(Ljava/lang/String;)V'' = Inr [''Ljava/lang/String;'']"
  by (simp add: descriptor_param_types_def params_loop.simps)

theorem method_id_exact_witness:
  "fst (method_id (build_index demo_methods) ''p.A'' ''f'' ''(Ljava/lang/String;)V'' no_stats) = ''i2''"
proof -
  have fqn: "binary_to_source_fqn ''p.A'' = ''p.A''" by (simp add: binary_to_source_fqn_def)
  have "pinned demo_methods ''p.A'' ''f'' [''Ljava/lang/String;''] = Some (demo_methods ! 1)"
    by (simp add: pinned_def same_arity_def fqn demo_methods_def mk_node_def is_method_node_def node_key_def
        method_lookup_name_def after_last_def before_last_def same_types_def normalize_type_def type_name_def
        primitives_def py_startswith_def py_endswith_def replace_char_def before_first_def py_replace_Cons
        strip_where_def is_space_def)
  then show ?thesis
    using method_id_exact [OF demo_params, of "''p.A''" demo_methods "''f''" no_stats]
    by (simp add: fqn) (simp add: demo_methods_def mk_node_def)
qed

text \<open>An override target is only ever a method of the ancestor with the same name, arity and
  erased parameter types, even when there is a single candidate; whenever exactly one such
  method exists it is found, and otherwise nothing is claimed.\<close>

theorem override_target_exact:
  assumes "descriptor_param_types d = Inr ps" and "binary_to_source_fqn ancestor \<noteq> []"
  shows "override_target (build_index nodes) ancestor nm d =
    (case the_only (filter (same_types ps) (same_arity nodes ancestor nm (length ps))) of
       Some n \<Rightarrow> n_id n | None \<Rightarrow> [])"
proof -
  let ?cs = "same_arity nodes ancestor nm (length ps)"
  show ?thesis
    using assms
    by (auto simp: exact_ids_nodes override_target_def descriptor_simple_types_def Let_def candidates_same_arity
        the_only_length hd_map length_one)
qed

theorem override_target_exact_witness:
  "override_target (build_index demo_methods) ''p.A'' ''g'' ''(Ljava/lang/String;)V'' = []"
proof -
  have fqn: "binary_to_source_fqn ''p.A'' = ''p.A''" by (simp add: binary_to_source_fqn_def)
  have "filter (same_types [''Ljava/lang/String;'']) (same_arity demo_methods ''p.A'' ''g'' 1) = []"
    by (simp add: same_arity_def fqn demo_methods_def mk_node_def is_method_node_def node_key_def
        method_lookup_name_def after_last_def before_last_def)
  then show ?thesis
    using override_target_exact [OF demo_params, of "''p.A''" demo_methods "''g''"] by (simp add: fqn)
qed

definition stats_total :: "match_stats \<Rightarrow> nat" where
  "stats_total s = st_matched_methods s + st_matched_fields s + st_unmatched_class s + st_unmatched_method s
     + st_unmatched_field s + st_implicit_ctor s + st_ambiguous_method s + st_anonymous_class s
     + st_lambda_body s + st_class_initializer s + st_skipped_synthetic s"

lemma method_id_accounts:
  assumes "descriptor_param_types d = Inr ps"
  shows "stats_total (snd (method_id ix owner nm d st)) = stats_total st + 1"
  using assms by (simp add: method_id_def Let_def stats_total_def)

end
