(* ===== verification/RouteSpec.thy ===== *)
theory RouteSpec
  imports Prelude
begin

text \<open>
  Normalised HTTP routes, the matching key of endpoints and outbound calls
  (\<open>graph_core/apispec.py\<close>).  The three substitutions are the code's regular expressions
  unfolded into scans; \<open>make_id\<close> (a SHA-1 prefix) is an argument.
\<close>

section \<open>Path parameters\<close>

definition quote_char :: "char \<Rightarrow> bool" where
  "quote_char c = (c = CHR 0x27 \<or> c = CHR 0x22)"

text \<open>\<open>re.sub(o + "[^/" + c + "]*" + c, "*", s)\<close> for one-character brackets.\<close>

function sub_bracket :: "char \<Rightarrow> char \<Rightarrow> string \<Rightarrow> string" where
  "sub_bracket o1 c1 [] = []"
| "sub_bracket o1 c1 (x # s) =
     (let rest = dropWhile (\<lambda>y. y \<noteq> CHR ''/'' \<and> y \<noteq> c1) s in
      if x = o1 \<and> rest \<noteq> [] \<and> hd rest = c1 then CHR ''*'' # sub_bracket o1 c1 (tl rest)
      else x # sub_bracket o1 c1 s)"
  by pat_completeness auto
termination
proof (relation "measure (\<lambda>(a, b, s). length s)", goal_cases)
  case (2 o1 c1 x s rest)
  have "length rest \<le> length s" using 2 by (simp add: length_dropWhile_le)
  then show ?case by (simp add: le_imp_less_Suc le_diff_conv)
qed simp_all

text \<open>\<open>re.sub(":[^/]+", "*", s)\<close>.\<close>

function sub_colon :: "string \<Rightarrow> string" where
  "sub_colon [] = []"
| "sub_colon (x # s) =
     (if x = CHR '':'' \<and> takeWhile (\<lambda>y. y \<noteq> CHR ''/'') s \<noteq> []
      then CHR ''*'' # sub_colon (dropWhile (\<lambda>y. y \<noteq> CHR ''/'') s)
      else x # sub_colon s)"
  by pat_completeness auto
termination
  by (relation "measure length") (simp_all add: length_dropWhile_le le_imp_less_Suc)

definition normalize_route :: "string \<Rightarrow> string" where
  "normalize_route route =
     (let r = strip_where quote_char (py_strip route) in
      if r = [] then []
      else
        let r = sub_colon (sub_bracket (CHR ''<'') (CHR ''>'') (sub_bracket (CHR ''{'') (CHR ''}'') r));
            r = (if py_startswith r ''/'' then r else CHR ''/'' # r)
        in if length r > 1 \<and> py_endswith r ''/''
           then rev (dropWhile (\<lambda>c. c = CHR ''/'') (rev r)) else r)"

definition or_get :: "string \<Rightarrow> string" where
  "or_get m = (if m = [] then ''GET'' else m)"

definition match_key :: "string \<Rightarrow> string \<Rightarrow> string \<times> string" where
  "match_key m r = (py_upper (or_get m), normalize_route r)"

definition endpoint_fqn :: "string \<Rightarrow> string \<Rightarrow> string \<Rightarrow> string" where
  "endpoint_fqn m r host = py_upper (or_get m) @ '' '' @ host @ normalize_route r"

definition endpoint_display :: "string \<Rightarrow> string \<Rightarrow> string \<Rightarrow> string" where
  "endpoint_display m r host = py_strip (endpoint_fqn m r host)"

definition endpoint_id ::
  "(string \<Rightarrow> string \<Rightarrow> string \<Rightarrow> string) \<Rightarrow> string \<Rightarrow> string \<Rightarrow> string \<Rightarrow> string \<Rightarrow> string" where
  "endpoint_id make_id repo m r host = make_id repo (endpoint_fqn m r host) ''endpoint''"

section \<open>One key for every framework\<close>

text \<open>A route template: literal segments and parameters, and the spelling of a parameter in
  the frameworks the extractors read.\<close>

datatype seg = Lit string | Param string

datatype framework = FastAPI | Flask | Express

primrec show_param :: "framework \<Rightarrow> string \<Rightarrow> string" where
  "show_param FastAPI p = ''{'' @ p @ ''}''"
| "show_param Flask p = ''<'' @ p @ ''>''"
| "show_param Express p = CHR '':'' # p"

fun show_seg :: "framework \<Rightarrow> seg \<Rightarrow> string" where
  "show_seg f (Lit l) = l"
| "show_seg f (Param p) = show_param f p"

fun star_seg :: "seg \<Rightarrow> string" where
  "star_seg (Lit l) = l"
| "star_seg (Param p) = ''*''"

definition show_route :: "(seg \<Rightarrow> string) \<Rightarrow> seg list \<Rightarrow> string" where
  "show_route f segs = concat (map (\<lambda>s. CHR ''/'' # f s) segs)"

definition plain_char :: "char \<Rightarrow> bool" where
  "plain_char c = (\<not> is_space c \<and> \<not> quote_char c \<and> c \<notin> set ''/{}<>:'')"

fun seg_ok :: "seg \<Rightarrow> bool" where
  "seg_ok (Lit l) = (l \<noteq> [] \<and> list_all plain_char l)"
| "seg_ok (Param p) = (p \<noteq> [] \<and> list_all plain_char p)"

lemma sub_bracket_skip:
  "list_all (\<lambda>c. c \<noteq> o1) l \<Longrightarrow> sub_bracket o1 c1 (l @ s) = l @ sub_bracket o1 c1 s"
  by (induction l) (auto simp: Let_def)

lemma sub_colon_skip: "list_all (\<lambda>c. c \<noteq> CHR '':'') l \<Longrightarrow> sub_colon (l @ s) = l @ sub_colon s"
  by (induction l) auto

lemma drop_seg:
  "list_all (\<lambda>c. P c) p \<Longrightarrow> \<not> P x \<Longrightarrow> dropWhile P (p @ x # s) = x # s"
  by (induction p) auto

lemma sub_bracket_param:
  "list_all (\<lambda>c. c \<noteq> CHR ''/'' \<and> c \<noteq> c1) p \<Longrightarrow> sub_bracket o1 c1 (o1 # p @ c1 # s) = CHR ''*'' # sub_bracket o1 c1 s"
  by (simp add: drop_seg Let_def)

lemma plain_all:
  "list_all plain_char l \<Longrightarrow> c \<in> set ''/{}<>:'' \<Longrightarrow> list_all (\<lambda>x. x \<noteq> c) l"
  by (auto simp: list_all_iff plain_char_def)

lemma sub_bracket_none: "list_all (\<lambda>c. c \<noteq> o1) l \<Longrightarrow> sub_bracket o1 c1 l = l"
  using sub_bracket_skip [of o1 l c1 "[]"] by simp

lemma sub_colon_none: "list_all (\<lambda>c. c \<noteq> CHR '':'') l \<Longrightarrow> sub_colon l = l"
  using sub_colon_skip [of l "[]"] by simp

lemma show_route_all:
  "P (CHR ''/'') \<Longrightarrow> \<forall>s \<in> set segs. list_all P (f s) \<Longrightarrow> list_all P (show_route f segs)"
  by (induction segs) (auto simp: show_route_def)

lemma show_route_Cons: "show_route f (s # segs) = CHR ''/'' # f s @ show_route f segs"
  by (simp add: show_route_def)

lemma bracket_route:
  assumes "\<forall>s \<in> set segs. seg_ok s" "o1 \<in> set ''{<''" "c1 \<in> set ''}>''"
    and "\<And>p. show_seg f (Param p) = o1 # p @ [c1]"
  shows "sub_bracket o1 c1 (show_route (show_seg f) segs) = show_route star_seg segs"
  using assms(1)
proof (induction segs)
  case Nil
  then show ?case by (simp add: show_route_def)
next
  case (Cons s segs)
  then have IH: "sub_bracket o1 c1 (show_route (show_seg f) segs) = show_route star_seg segs"
    and s: "seg_ok s" by auto
  have o: "CHR ''/'' \<noteq> o1" using assms(2) by auto
  show ?case
  proof (cases s)
    case (Lit l)
    then have "list_all (\<lambda>c. c \<noteq> o1) l" using s assms(2) by (auto simp: list_all_iff plain_char_def)
    then show ?thesis using o IH Lit by (simp add: show_route_Cons sub_bracket_skip Let_def)
  next
    case (Param p)
    then have "list_all (\<lambda>c. c \<noteq> CHR ''/'' \<and> c \<noteq> c1) p"
      using s assms(3) by (auto simp: list_all_iff plain_char_def)
    then show ?thesis
      using o IH Param assms(4) sub_bracket_param [of c1 p o1 "show_route (show_seg f) segs"]
      by (simp add: show_route_Cons Let_def)
  qed
qed

lemma split_seg:
  "\<forall>x \<in> set p. P x \<Longrightarrow> r = [] \<or> \<not> P (hd r) \<Longrightarrow> takeWhile P (p @ r) = p \<and> dropWhile P (p @ r) = r"
  by (induction p) (cases r; auto)+

lemma colon_route:
  assumes "\<forall>s \<in> set segs. seg_ok s"
  shows "sub_colon (show_route (show_seg Express) segs) = show_route star_seg segs"
  using assms
proof (induction segs)
  case Nil
  then show ?case by (simp add: show_route_def)
next
  case (Cons s segs)
  then have IH: "sub_colon (show_route (show_seg Express) segs) = show_route star_seg segs"
    and s: "seg_ok s" by auto
  show ?case
  proof (cases s)
    case (Lit l)
    then have "list_all (\<lambda>c. c \<noteq> CHR '':'') l" using s by (auto simp: list_all_iff plain_char_def)
    then show ?thesis using IH Lit by (simp add: show_route_Cons sub_colon_skip)
  next
    case (Param p)
    have p: "\<forall>x \<in> set p. x \<noteq> CHR ''/''" "p \<noteq> []"
      using s Param by (auto simp: list_all_iff plain_char_def)
    let ?r = "show_route (show_seg Express) segs"
    have "?r = [] \<or> \<not> hd ?r \<noteq> CHR ''/''" by (cases segs) (simp_all add: show_route_def)
    then have "takeWhile (\<lambda>y. y \<noteq> CHR ''/'') (p @ ?r) = p \<and> dropWhile (\<lambda>y. y \<noteq> CHR ''/'') (p @ ?r) = ?r"
      using p(1) by (intro split_seg)
    then show ?thesis using Param p IH by (simp add: show_route_Cons)
  qed
qed

lemma plain_not: "plain_char x \<Longrightarrow> x \<notin> set ''{}<>:''"
  by (simp add: plain_char_def)

lemma plain_free: "list_all plain_char l \<Longrightarrow> c \<in> set ''{}<>:'' \<Longrightarrow> list_all (\<lambda>x. x \<noteq> c) l"
  unfolding list_all_iff using plain_not by blast

lemma star_seg_free: "seg_ok s \<Longrightarrow> c \<in> set ''{}<>:'' \<Longrightarrow> list_all (\<lambda>x. x \<noteq> c) (star_seg s)"
  using plain_free by (cases s) auto

lemma star_free:
  "\<forall>s \<in> set segs. seg_ok s \<Longrightarrow> c \<in> set ''{}<>:'' \<Longrightarrow> list_all (\<lambda>x. x \<noteq> c) (show_route star_seg segs)"
  using star_seg_free by (intro show_route_all) auto

definition own_chars :: "framework \<Rightarrow> string" where
  "own_chars f = (case f of FastAPI \<Rightarrow> ''{}'' | Flask \<Rightarrow> ''<>'' | Express \<Rightarrow> '':'')"

lemma show_seg_free:
  "seg_ok s \<Longrightarrow> c \<in> set ''{}<>:'' \<Longrightarrow> c \<notin> set (own_chars f) \<Longrightarrow> list_all (\<lambda>x. x \<noteq> c) (show_seg f s)"
  using plain_free by (cases s; cases f) (auto simp: own_chars_def)

lemma show_free:
  "\<forall>s \<in> set segs. seg_ok s \<Longrightarrow> c \<in> set ''{}<>:'' \<Longrightarrow> c \<notin> set (own_chars f)
   \<Longrightarrow> list_all (\<lambda>x. x \<noteq> c) (show_route (show_seg f) segs)"
  using show_seg_free by (intro show_route_all) auto

lemma substitutions:
  assumes ok: "\<forall>s \<in> set segs. seg_ok s"
  shows "sub_colon (sub_bracket (CHR ''<'') (CHR ''>'') (sub_bracket (CHR ''{'') (CHR ''}'')
     (show_route (show_seg f) segs))) = show_route star_seg segs"
proof -
  let ?t = "show_route star_seg segs"
  have t: "sub_bracket (CHR ''<'') (CHR ''>'') ?t = ?t" "sub_colon ?t = ?t"
    using star_free [OF ok] by (auto intro!: sub_bracket_none sub_colon_none)
  show ?thesis
  proof (cases f)
    case FastAPI
    have "sub_bracket (CHR ''{'') (CHR ''}'') (show_route (show_seg FastAPI) segs) = ?t"
      by (rule bracket_route [OF ok]) simp_all
    with t FastAPI show ?thesis by simp
  next
    case Flask
    have "sub_bracket (CHR ''{'') (CHR ''}'') (show_route (show_seg Flask) segs) = show_route (show_seg Flask) segs"
      by (rule sub_bracket_none, rule show_free [OF ok]) (simp_all add: own_chars_def)
    moreover have "sub_bracket (CHR ''<'') (CHR ''>'') (show_route (show_seg Flask) segs) = ?t"
      by (rule bracket_route [OF ok]) simp_all
    ultimately show ?thesis using t Flask by simp
  next
    case Express
    have "sub_bracket a b (show_route (show_seg Express) segs) = show_route (show_seg Express) segs"
      if "a \<in> set ''{<''" for a b
      by (rule sub_bracket_none, rule show_free [OF ok]) (use that in \<open>auto simp: own_chars_def\<close>)
    then show ?thesis using Express colon_route [OF ok] by simp
  qed
qed

lemma last_show_route:
  "segs \<noteq> [] \<Longrightarrow> f (last segs) \<noteq> [] \<Longrightarrow> last (show_route f segs) = last (f (last segs))"
  by (induction segs) (auto simp: show_route_def)

lemma plain_last:
  "list_all plain_char l \<Longrightarrow> l \<noteq> [] \<Longrightarrow> plain_char (last l)"
  by (auto simp: list_all_iff)

lemma last_seg_plain:
  assumes "seg_ok s"
  shows "show_seg f s \<noteq> []" "\<not> is_space (last (show_seg f s))" "\<not> quote_char (last (show_seg f s))"
    "star_seg s \<noteq> []" "last (star_seg s) \<noteq> CHR ''/''"
proof -
  have p: "plain_char c \<Longrightarrow> \<not> is_space c \<and> \<not> quote_char c \<and> c \<noteq> CHR ''/''" for c
    by (simp add: plain_char_def)
  have b: "\<not> is_space c \<and> \<not> quote_char c" if "c \<in> set ''}>''" for c
    using that by (auto simp: is_space_def quote_char_def)
  have l: "l \<noteq> [] \<Longrightarrow> list_all plain_char l \<Longrightarrow> \<not> is_space (last l) \<and> \<not> quote_char (last l) \<and> last l \<noteq> CHR ''/''" for l
    using p plain_last by blast
  show "show_seg f s \<noteq> []" "star_seg s \<noteq> []" using assms by (cases s; cases f; simp)+
  show "\<not> is_space (last (show_seg f s))" "\<not> quote_char (last (show_seg f s))"
    using assms l b by (cases s; cases f; simp)+
  show "last (star_seg s) \<noteq> CHR ''/''" using assms l by (cases s) auto
qed

text \<open>One route template, written with parameters in the style of FastAPI, Flask or
  Express, always normalises to the same key, the template with its parameters starred; so a
  caller and a handler written in different frameworks meet.\<close>

theorem normalize_route_frameworks:
  assumes "segs \<noteq> []" and "\<forall>s \<in> set segs. seg_ok s"
  shows "normalize_route (show_route (show_seg f) segs) = show_route star_seg segs"
proof -
  let ?r = "show_route (show_seg f) segs" and ?t = "show_route star_seg segs"
  have ok: "seg_ok (last segs)" using assms by simp
  have hd: "?r \<noteq> []" "hd ?r = CHR ''/''" "?t \<noteq> []" "hd ?t = CHR ''/''"
    using assms(1) by (cases segs; simp add: show_route_def)+
  have "last ?r = last (show_seg f (last segs))" using assms(1) last_seg_plain(1) [OF ok] by (rule last_show_route)
  then have "py_strip ?r = ?r" "strip_where quote_char ?r = ?r"
    using hd last_seg_plain [OF ok] by (intro strip_where_id; simp add: is_space_def quote_char_def)+
  moreover have "last ?t \<noteq> CHR ''/''"
    using last_show_route [where f = star_seg, OF assms(1) last_seg_plain(4) [OF ok]] last_seg_plain(5) [OF ok] by simp
  then have "\<not> py_endswith ?t ''/''"
    using hd(3) by (cases ?t rule: rev_cases) (auto simp: py_endswith_def)
  moreover have "py_startswith ?t ''/''" using hd(3,4) by (cases ?t) (auto simp: py_startswith_def)
  ultimately show ?thesis
    using hd(1) substitutions [OF assms(2), of f] by (simp add: normalize_route_def Let_def)
qed

theorem normalize_route_frameworks_witness:
  "normalize_route ''/api/users/<id>'' = normalize_route ''/api/users/:uid''"
  using normalize_route_frameworks [of "[Lit ''api'', Lit ''users'', Param ''id'']" Flask]
    normalize_route_frameworks [of "[Lit ''api'', Lit ''users'', Param ''uid'']" Express]
  by (simp add: show_route_def plain_char_def is_space_def quote_char_def)

end
