(* ===== verification/ResolveIndex.thy ===== *)
theory ResolveIndex
  imports Models RouteSpec
begin

text \<open>
  The lookup indices that \<open>resolve\<close> (\<open>graph_core/resolver.py\<close>) builds before its main loop:
  one step function per loop of the code, over the slim nodes, the structural edges and the
  references.  A \<open>defaultdict(list)\<close> is a total function; a name is a key of it exactly when
  its list is not empty, since lists only ever grow.
\<close>

section \<open>Names\<close>

definition tail_name :: "string \<Rightarrow> string" where
  "tail_name nm = after_last (CHR ''.'') nm"

definition class_package :: "slim_node \<Rightarrow> string" where
  "class_package n =
     (if s_fqn n = s_name n \<or> \<not> py_endswith (s_fqn n) (''.'' @ s_name n) then []
      else take (length (s_fqn n) - (length (s_name n) + 1)) (s_fqn n))"

record name_index =
  nx_by_name :: "string \<Rightarrow> slim_node list"
  nx_classes :: "string \<Rightarrow> slim_node list"
  nx_funcs :: "string \<Rightarrow> slim_node list"
  nx_files :: "string \<Rightarrow> slim_node list"
  nx_package :: "string \<rightharpoonup> string"

definition is_class :: "slim_node \<Rightarrow> bool" where
  "is_class n = (s_label n = ''Class'')"

definition is_func :: "slim_node \<Rightarrow> bool" where
  "is_func n = (s_label n = ''Function'')"

definition index_name :: "slim_node \<Rightarrow> name_index \<Rightarrow> name_index" where
  "index_name n ix =
     (let ix1 = (if is_class n \<or> is_func n
                 then ix\<lparr>nx_by_name := dd_append (s_name n) n (nx_by_name ix),
                         nx_package := (nx_package ix)(s_id n \<mapsto> class_package n),
                         nx_funcs := (if is_func n then dd_append (s_name n) n (nx_funcs ix) else nx_funcs ix)\<rparr>
                 else ix)
      in if is_class n then ix1\<lparr>nx_classes := dd_append (s_name n) n (nx_classes ix1)\<rparr>
         else if s_label n = ''File'' then ix1\<lparr>nx_files := dd_append (s_name n) n (nx_files ix1)\<rparr>
         else ix1)"

definition name_index :: "slim_node list \<Rightarrow> name_index" where
  "name_index nodes = fold index_name nodes
     \<lparr>nx_by_name = dd_empty, nx_classes = dd_empty, nx_funcs = dd_empty, nx_files = dd_empty,
      nx_package = (\<lambda>_. None)\<rparr>"

definition nodes_by_id :: "slim_node list \<Rightarrow> string \<rightharpoonup> slim_node" where
  "nodes_by_id nodes = fold (\<lambda>n m. m(s_id n \<mapsto> n)) nodes (\<lambda>_. None)"

definition classes_by_fqn :: "slim_node list \<Rightarrow> string \<rightharpoonup> slim_node" where
  "classes_by_fqn nodes = fold (\<lambda>n m. if is_class n \<and> s_fqn n \<noteq> [] then setdefault (s_fqn n) n m else m)
     nodes (\<lambda>_. None)"

definition parent_of :: "slim_edge list \<Rightarrow> string \<rightharpoonup> string" where
  "parent_of edges = fold (\<lambda>e m. if se_type e = ''CONTAINS'' then m(se_dst e \<mapsto> se_src e) else m)
     edges (\<lambda>_. None)"

definition package_by_file :: "slim_node list \<Rightarrow> string \<rightharpoonup> string" where
  "package_by_file nodes = fold (\<lambda>n m. if s_label n = ''File'' \<and> s_file n \<noteq> []
     then m(s_file n \<mapsto> s_package n) else m) nodes (\<lambda>_. None)"

section \<open>Imports\<close>

definition set_add :: "'k \<Rightarrow> 'v \<Rightarrow> ('k \<Rightarrow> 'v set) \<Rightarrow> 'k \<Rightarrow> 'v set" where
  "set_add k v d = d(k := insert v (d k))"

record import_index =
  ii_hierarchy :: "raw_ref list"
  ii_wildcards :: "string \<Rightarrow> string set"
  ii_imports :: "string \<Rightarrow> string set"
  ii_fqns :: "string \<Rightarrow> string set"

definition index_import :: "raw_ref \<Rightarrow> import_index \<Rightarrow> import_index" where
  "index_import r ix =
     (if r_type r = ''EXTENDS'' \<or> r_type r = ''IMPLEMENTS'' then ix\<lparr>ii_hierarchy := ii_hierarchy ix @ [r]\<rparr>
      else if r_type r \<noteq> ''IMPORTS'' \<or> r_ref_file r = [] then ix
      else if r_kind_hint r = ''import_wildcard'' then
        (if r_import_fqn r \<noteq> []
         then ix\<lparr>ii_wildcards := set_add (r_ref_file r) (r_import_fqn r) (ii_wildcards ix)\<rparr> else ix)
      else
        (let ix1 = (if r_target_name r \<noteq> []
                    then ix\<lparr>ii_imports := set_add (r_ref_file r) (tail_name (r_target_name r)) (ii_imports ix)\<rparr>
                    else ix)
         in if r_import_fqn r \<noteq> []
            then ix1\<lparr>ii_fqns := set_add (r_ref_file r) (r_import_fqn r) (ii_fqns ix1)\<rparr> else ix1))"

definition import_index :: "raw_ref list \<Rightarrow> import_index" where
  "import_index refs = fold index_import refs
     \<lparr>ii_hierarchy = [], ii_wildcards = (\<lambda>_. {}), ii_imports = (\<lambda>_. {}), ii_fqns = (\<lambda>_. {})\<rparr>"

definition import_tails :: "import_index \<Rightarrow> string \<Rightarrow> string set" where
  "import_tails ii f = tail_name ` ii_fqns ii f - {[]}"

section \<open>Endpoints\<close>

definition route_segments :: "string \<Rightarrow> string list" where
  "route_segments route = filter (\<lambda>s. s \<noteq> []) (split_on (CHR ''/'') route)"

record endpoint_index =
  ep_by_key :: "string \<times> string \<Rightarrow> slim_node list"
  ep_by_route :: "string \<Rightarrow> slim_node list"
  ep_patterns :: "string \<Rightarrow> (string list \<times> slim_node) list"

definition index_endpoint :: "slim_node \<Rightarrow> endpoint_index \<Rightarrow> endpoint_index" where
  "index_endpoint n ix =
     (if s_label n \<noteq> ''Endpoint'' then ix
      else case match_key (s_method n) (s_route n) of (m, r) \<Rightarrow>
        ix\<lparr>ep_by_key := dd_append (m, r) n (ep_by_key ix),
           ep_by_route := dd_append r n (ep_by_route ix),
           ep_patterns := (if CHR ''*'' \<in> set r then dd_append m (route_segments r, n) (ep_patterns ix)
                           else ep_patterns ix)\<rparr>)"

definition endpoint_index :: "slim_node list \<Rightarrow> endpoint_index" where
  "endpoint_index nodes = fold index_endpoint nodes
     \<lparr>ep_by_key = dd_empty, ep_by_route = dd_empty, ep_patterns = dd_empty\<rparr>"

definition segs_match :: "string list \<Rightarrow> string list \<Rightarrow> bool" where
  "segs_match segs caller = (length segs = length caller \<and>
     list_all (\<lambda>(ps, cs). ps = ''*'' \<or> ps = cs) (zip segs caller))"

definition match_endpoints :: "endpoint_index \<Rightarrow> string \<Rightarrow> string \<Rightarrow> slim_node list" where
  "match_endpoints ix m r =
     (if ep_by_key ix (m, r) \<noteq> [] then ep_by_key ix (m, r)
      else
        let fallback = (if m \<noteq> ''ANY'' then ep_by_key ix (''ANY'', r) else ep_by_route ix r) in
        if fallback \<noteq> [] then fallback
        else map snd (filter (\<lambda>(segs, ep). segs_match segs (route_segments r)) (ep_patterns ix m)))"

section \<open>Members\<close>

text \<open>\<open>_index_member\<close> and \<open>_members\<close>: a flat dictionary holding one node, or a list once a
  second node arrives.\<close>

datatype slot = One slim_node | Many "slim_node list"

definition index_member :: "'k \<Rightarrow> slim_node \<Rightarrow> ('k \<rightharpoonup> slot) \<Rightarrow> 'k \<rightharpoonup> slot" where
  "index_member k n idx = (case idx k of
     None \<Rightarrow> idx(k \<mapsto> One n)
   | Some (Many cur) \<Rightarrow> idx(k \<mapsto> Many (cur @ [n]))
   | Some (One cur) \<Rightarrow> idx(k \<mapsto> Many [cur, n]))"

definition members :: "('k \<rightharpoonup> slot) \<Rightarrow> 'k \<Rightarrow> slim_node list" where
  "members idx k = (case idx k of None \<Rightarrow> [] | Some (Many cur) \<Rightarrow> cur | Some (One n) \<Rightarrow> [n])"

interpretation slots: multimap "\<lambda>_. None" index_member members
  by unfold_locales (auto simp: members_def index_member_def split: option.splits slot.splits)

record member_index =
  mi_methods :: "string \<times> string \<rightharpoonup> slot"
  mi_fields :: "string \<times> string \<rightharpoonup> slot"
  mi_file_fields :: "string \<times> string \<rightharpoonup> slot"
  mi_name_parent :: "string \<times> string option \<rightharpoonup> slot"
  mi_name_file :: "string \<times> string \<rightharpoonup> slot"

definition class_parent :: "(string \<rightharpoonup> slim_node) \<Rightarrow> string option \<Rightarrow> string option" where
  "class_parent byid p = (case p of None \<Rightarrow> None
     | Some q \<Rightarrow> if q = [] then None else
        (case byid q of None \<Rightarrow> None | Some pn \<Rightarrow> if is_class pn then Some q else None))"

definition index_members ::
  "(string \<rightharpoonup> slim_node) \<Rightarrow> (string \<rightharpoonup> string) \<Rightarrow> slim_node \<Rightarrow> member_index \<Rightarrow> member_index" where
  "index_members byid par n ix =
     (let ix1 = (if s_label n = ''Field'' \<and> s_scope n = ''module'' \<and> s_file n \<noteq> []
                 then ix\<lparr>mi_file_fields := index_member (s_file n, s_name n) n (mi_file_fields ix)\<rparr> else ix);
          p = par (s_id n);
          ix2 = (if is_class n \<or> is_func n
                 then ix1\<lparr>mi_name_parent := index_member (s_name n, p) n (mi_name_parent ix1),
                          mi_name_file := (if s_file n \<noteq> []
                            then index_member (s_name n, s_file n) n (mi_name_file ix1) else mi_name_file ix1)\<rparr>
                 else ix1)
      in case class_parent byid p of
           None \<Rightarrow> ix2
         | Some q \<Rightarrow>
             if is_func n \<and> s_kind n = ''method''
             then ix2\<lparr>mi_methods := index_member (q, s_name n) n (mi_methods ix2)\<rparr>
             else if s_label n = ''Field''
             then ix2\<lparr>mi_fields := index_member (q, s_name n) n (mi_fields ix2)\<rparr>
             else ix2)"

definition member_index :: "(string \<rightharpoonup> slim_node) \<Rightarrow> (string \<rightharpoonup> string) \<Rightarrow> slim_node list \<Rightarrow> member_index" where
  "member_index byid par nodes = fold (index_members byid par) nodes
     \<lparr>mi_methods = (\<lambda>_. None), mi_fields = (\<lambda>_. None), mi_file_fields = (\<lambda>_. None),
      mi_name_parent = (\<lambda>_. None), mi_name_file = (\<lambda>_. None)\<rparr>"

section \<open>All indices\<close>

record rindex =
  rx_byid :: "string \<rightharpoonup> slim_node"
  rx_names :: name_index
  rx_fqn :: "string \<rightharpoonup> slim_node"
  rx_parent :: "string \<rightharpoonup> string"
  rx_depth :: nat
  rx_imports :: import_index
  rx_file_package :: "string \<rightharpoonup> string"
  rx_endpoints :: endpoint_index
  rx_members :: member_index

definition build_rindex :: "slim_node list \<Rightarrow> slim_edge list \<Rightarrow> raw_ref list \<Rightarrow> rindex" where
  "build_rindex nodes edges refs =
     (let byid = nodes_by_id nodes; par = parent_of edges in
      \<lparr>rx_byid = byid, rx_names = name_index nodes, rx_fqn = classes_by_fqn nodes, rx_parent = par,
       rx_depth = length edges + 1, rx_imports = import_index refs,
       rx_file_package = package_by_file nodes, rx_endpoints = endpoint_index nodes,
       rx_members = member_index byid par nodes\<rparr>)"

section \<open>What the indices hold\<close>

lemma not_both: "is_class n \<Longrightarrow> \<not> is_func n"
  by (simp add: is_class_def is_func_def)

lemma by_name_holds:
  "nx_by_name (name_index nodes) k = filter (\<lambda>n. (is_class n \<or> is_func n) \<and> s_name n = k) nodes"
proof -
  have "nx_by_name (fold index_name nodes ix) =
      fold (\<lambda>n m. if is_class n \<or> is_func n then dd_append (s_name n) n m else m) nodes (nx_by_name ix)" for ix
    by (induction nodes arbitrary: ix) (auto simp: index_name_def Let_def)
  then show ?thesis by (simp add: name_index_def dd.look_build [where val = "\<lambda>n. n"])
qed

lemma classes_holds: "nx_classes (name_index nodes) k = filter (\<lambda>n. is_class n \<and> s_name n = k) nodes"
proof -
  have "nx_classes (fold index_name nodes ix) =
      fold (\<lambda>n m. if is_class n then dd_append (s_name n) n m else m) nodes (nx_classes ix)" for ix
    by (induction nodes arbitrary: ix) (auto simp: index_name_def Let_def)
  then show ?thesis by (simp add: name_index_def dd.look_build [where val = "\<lambda>n. n"])
qed

lemma funcs_holds: "nx_funcs (name_index nodes) k = filter (\<lambda>n. is_func n \<and> s_name n = k) nodes"
proof -
  have "nx_funcs (fold index_name nodes ix) =
      fold (\<lambda>n m. if is_func n then dd_append (s_name n) n m else m) nodes (nx_funcs ix)" for ix
    by (induction nodes arbitrary: ix) (auto simp: index_name_def Let_def not_both)
  then show ?thesis by (simp add: name_index_def dd.look_build [where val = "\<lambda>n. n"])
qed

lemma files_holds: "nx_files (name_index nodes) k = filter (\<lambda>n. s_label n = ''File'' \<and> s_name n = k) nodes"
proof -
  have "nx_files (fold index_name nodes ix) =
      fold (\<lambda>n m. if s_label n = ''File'' then dd_append (s_name n) n m else m) nodes (nx_files ix)" for ix
    by (induction nodes arbitrary: ix) (auto simp: index_name_def Let_def is_class_def)
  then show ?thesis by (simp add: name_index_def dd.look_build [where val = "\<lambda>n. n"])
qed

lemmas names_hold = by_name_holds classes_holds funcs_holds files_holds

lemma byid_holds: "nodes_by_id nodes i = find (\<lambda>n. s_id n = i) (rev nodes)"
  using fold_update [of "\<lambda>_. True" s_id "\<lambda>n. n" nodes "\<lambda>_. None" i]
  by (simp add: nodes_by_id_def split: option.splits)

lemma find_mem: "find P xs = Some x \<Longrightarrow> x \<in> set xs \<and> P x"
  by (induction xs) (auto split: if_splits)

lemma byid_mem: "nodes_by_id nodes i = Some n \<Longrightarrow> n \<in> set nodes \<and> s_id n = i"
  using find_mem [of "\<lambda>n. s_id n = i" "rev nodes" n] by (simp add: byid_holds)

lemma fqn_mem: "classes_by_fqn nodes f = Some n \<Longrightarrow> n \<in> set nodes \<and> is_class n \<and> s_fqn n = f"
  using fold_setdefault [of "\<lambda>n. is_class n \<and> s_fqn n \<noteq> []" s_fqn "\<lambda>n. n" nodes "\<lambda>_. None" f]
  by (auto simp: classes_by_fqn_def dest: find_mem)

definition owner_class :: "(string \<rightharpoonup> slim_node) \<Rightarrow> (string \<rightharpoonup> string) \<Rightarrow> slim_node \<Rightarrow> string option" where
  "owner_class byid par n = class_parent byid (par (s_id n))"

lemma member_step:
  "mi_methods (index_members byid par n ix) =
     (if owner_class byid par n \<noteq> None \<and> is_func n \<and> s_kind n = ''method''
      then index_member (the (owner_class byid par n), s_name n) n (mi_methods ix) else mi_methods ix)"
  "mi_fields (index_members byid par n ix) =
     (if owner_class byid par n \<noteq> None \<and> s_label n = ''Field''
      then index_member (the (owner_class byid par n), s_name n) n (mi_fields ix) else mi_fields ix)"
  "mi_file_fields (index_members byid par n ix) =
     (if s_label n = ''Field'' \<and> s_scope n = ''module'' \<and> s_file n \<noteq> []
      then index_member (s_file n, s_name n) n (mi_file_fields ix) else mi_file_fields ix)"
  "mi_name_parent (index_members byid par n ix) =
     (if is_class n \<or> is_func n
      then index_member (s_name n, par (s_id n)) n (mi_name_parent ix) else mi_name_parent ix)"
  "mi_name_file (index_members byid par n ix) =
     (if (is_class n \<or> is_func n) \<and> s_file n \<noteq> []
      then index_member (s_name n, s_file n) n (mi_name_file ix) else mi_name_file ix)"
  by (auto simp: index_members_def Let_def owner_class_def is_func_def split: option.splits)

lemma member_folds:
  "mi_methods (fold (index_members byid par) nodes ix) = fold (\<lambda>n m.
     if owner_class byid par n \<noteq> None \<and> is_func n \<and> s_kind n = ''method''
     then index_member (the (owner_class byid par n), s_name n) n m else m) nodes (mi_methods ix)"
  "mi_fields (fold (index_members byid par) nodes ix) = fold (\<lambda>n m.
     if owner_class byid par n \<noteq> None \<and> s_label n = ''Field''
     then index_member (the (owner_class byid par n), s_name n) n m else m) nodes (mi_fields ix)"
  "mi_file_fields (fold (index_members byid par) nodes ix) = fold (\<lambda>n m.
     if s_label n = ''Field'' \<and> s_scope n = ''module'' \<and> s_file n \<noteq> []
     then index_member (s_file n, s_name n) n m else m) nodes (mi_file_fields ix)"
  "mi_name_parent (fold (index_members byid par) nodes ix) = fold (\<lambda>n m.
     if is_class n \<or> is_func n then index_member (s_name n, par (s_id n)) n m else m) nodes (mi_name_parent ix)"
  "mi_name_file (fold (index_members byid par) nodes ix) = fold (\<lambda>n m.
     if (is_class n \<or> is_func n) \<and> s_file n \<noteq> []
     then index_member (s_name n, s_file n) n m else m) nodes (mi_name_file ix)"
  by (induction nodes arbitrary: ix) (simp_all only: fold_simps member_step)

lemma members_hold:
  "members (mi_methods (member_index byid par nodes)) (c, k) =
     filter (\<lambda>n. is_func n \<and> s_kind n = ''method'' \<and> s_name n = k \<and> owner_class byid par n = Some c) nodes"
  "members (mi_fields (member_index byid par nodes)) (c, k) =
     filter (\<lambda>n. s_label n = ''Field'' \<and> s_name n = k \<and> owner_class byid par n = Some c) nodes"
  "members (mi_file_fields (member_index byid par nodes)) (f, k) =
     filter (\<lambda>n. s_label n = ''Field'' \<and> s_scope n = ''module'' \<and> s_file n \<noteq> [] \<and> s_file n = f \<and> s_name n = k) nodes"
  "members (mi_name_parent (member_index byid par nodes)) (k, p) =
     filter (\<lambda>n. (is_class n \<or> is_func n) \<and> s_name n = k \<and> par (s_id n) = p) nodes"
  "members (mi_name_file (member_index byid par nodes)) (k, f) =
     filter (\<lambda>n. (is_class n \<or> is_func n) \<and> s_file n \<noteq> [] \<and> s_name n = k \<and> s_file n = f) nodes"
  unfolding member_index_def member_folds
  by (simp_all add: slots.look_build [where val = "\<lambda>n. n"]) (rule filter_cong, auto)+

text \<open>The flat member dictionaries, scalar or list, answer exactly what a scan over the
  nodes would: the methods of a class by name, in node order, and nothing a class does not
  contain.\<close>

theorem methods_of_class_exact:
  "members (mi_methods (rx_members (build_rindex nodes edges refs))) (c, k) =
     filter (\<lambda>n. s_label n = ''Function'' \<and> s_kind n = ''method'' \<and> s_name n = k
        \<and> parent_of edges (s_id n) = Some c \<and> c \<noteq> []
        \<and> map_option s_label (nodes_by_id nodes c) = Some ''Class'') nodes"
  unfolding build_rindex_def Let_def
  by (simp add: members_hold) (rule filter_cong,
    auto simp: owner_class_def class_parent_def is_func_def is_class_def split: option.splits if_splits)

section \<open>Endpoint matching\<close>

lemma endpoint_folds:
  "ep_by_key (fold index_endpoint nodes ix) = fold (\<lambda>n m. if s_label n = ''Endpoint''
     then dd_append (match_key (s_method n) (s_route n)) n m else m) nodes (ep_by_key ix)"
  "ep_by_route (fold index_endpoint nodes ix) = fold (\<lambda>n m. if s_label n = ''Endpoint''
     then dd_append (normalize_route (s_route n)) n m else m) nodes (ep_by_route ix)"
  "ep_patterns (fold index_endpoint nodes ix) = fold (\<lambda>n m. if s_label n = ''Endpoint'' \<and> CHR ''*'' \<in> set (normalize_route (s_route n))
     then dd_append (fst (match_key (s_method n) (s_route n))) (route_segments (normalize_route (s_route n)), n) m else m)
     nodes (ep_patterns ix)"
  by (induction nodes arbitrary: ix) (simp_all add: index_endpoint_def match_key_def)

lemma endpoints_hold:
  "ep_by_key (endpoint_index nodes) k =
     filter (\<lambda>n. s_label n = ''Endpoint'' \<and> match_key (s_method n) (s_route n) = k) nodes"
  "ep_by_route (endpoint_index nodes) r =
     filter (\<lambda>n. s_label n = ''Endpoint'' \<and> normalize_route (s_route n) = r) nodes"
  "ep_patterns (endpoint_index nodes) m =
     map (\<lambda>n. (route_segments (normalize_route (s_route n)), n))
       (filter (\<lambda>n. (s_label n = ''Endpoint'' \<and> CHR ''*'' \<in> set (normalize_route (s_route n)))
          \<and> fst (match_key (s_method n) (s_route n)) = m) nodes)"
  unfolding endpoint_index_def endpoint_folds
  by (simp_all add: dd.look_build [where val = "\<lambda>n. n"] dd.look_build)

definition first_nonempty :: "'a list list \<Rightarrow> 'a list" where
  "first_nonempty ls = (case filter (\<lambda>l. l \<noteq> []) ls of [] \<Rightarrow> [] | l # _ \<Rightarrow> l)"

lemma segs_match_list_all2: "segs_match segs caller = list_all2 (\<lambda>ps cs. ps = ''*'' \<or> ps = cs) segs caller"
  by (auto simp: segs_match_def list_all2_iff list_all_iff)

text \<open>An outbound call meets the endpoints with its verb and normalised route; failing
  that, those with the route that serve any verb (or, when the caller knows no verb, all with
  the route); failing that, the templates of its verb that its path instantiates segment by
  segment.  It never meets anything else.\<close>

theorem match_endpoints_precedence:
  "match_endpoints (endpoint_index nodes) m r =
     (let eps = filter (\<lambda>n. s_label n = ''Endpoint'') nodes;
          verb = (\<lambda>n. fst (match_key (s_method n) (s_route n)));
          route = (\<lambda>n. normalize_route (s_route n))
      in first_nonempty
        [filter (\<lambda>n. verb n = m \<and> route n = r) eps,
         filter (\<lambda>n. (m = ''ANY'' \<or> verb n = ''ANY'') \<and> route n = r) eps,
         filter (\<lambda>n. verb n = m \<and> CHR ''*'' \<in> set (route n)
           \<and> list_all2 (\<lambda>ps cs. ps = ''*'' \<or> ps = cs) (route_segments (route n)) (route_segments r)) eps])"
proof -
  let ?ix = "endpoint_index nodes" and ?eps = "filter (\<lambda>n. s_label n = ''Endpoint'') nodes"
  let ?verb = "\<lambda>n. fst (match_key (s_method n) (s_route n))" and ?route = "\<lambda>n. normalize_route (s_route n)"
  have key: "(match_key (s_method n) (s_route n) = (v, r)) = (?verb n = v \<and> ?route n = r)" for n v
    by (auto simp: match_key_def)
  have e1: "ep_by_key ?ix (v, r) = filter (\<lambda>n. ?verb n = v \<and> ?route n = r) ?eps" for v
    unfolding endpoints_hold key by (simp add: conj_commute)
  have e2: "(if m \<noteq> ''ANY'' then ep_by_key ?ix (''ANY'', r) else ep_by_route ?ix r)
      = filter (\<lambda>n. (m = ''ANY'' \<or> ?verb n = ''ANY'') \<and> ?route n = r) ?eps"
    unfolding e1 endpoints_hold(2) filter_filter
    by (cases "m = ''ANY''") simp_all
  have pats: "map snd (filter (\<lambda>(segs, ep). segs_match segs (route_segments r)) (map (\<lambda>n. (g n, n)) ns))
      = filter (\<lambda>n. segs_match (g n) (route_segments r)) ns" for g and ns :: "slim_node list"
    by (induction ns) auto
  have e3: "map snd (filter (\<lambda>(segs, ep). segs_match segs (route_segments r)) (ep_patterns ?ix m))
      = filter (\<lambda>n. ?verb n = m \<and> CHR ''*'' \<in> set (?route n)
           \<and> list_all2 (\<lambda>ps cs. ps = ''*'' \<or> ps = cs) (route_segments (?route n)) (route_segments r)) ?eps"
    unfolding endpoints_hold pats
    unfolding segs_match_list_all2 filter_filter by (rule filter_cong) auto
  show ?thesis
    unfolding match_endpoints_def Let_def e2 e3 first_nonempty_def unfolding e1 by simp
qed

end
