(* ===== verification/Hierarchy.thy ===== *)
theory Hierarchy
  imports ResolveIndex
begin

text \<open>
  Containment and inheritance in \<open>resolve\<close> (\<open>graph_core/resolver.py\<close>): the walk to the
  enclosing class and the breadth-first chain of ancestors.  The walk of the code does not
  end on a cyclic containment; the model walks at most one step per structural edge more,
  which is enough on every acyclic one (\<open>enclosing_enough\<close>).
\<close>

section \<open>The enclosing class\<close>

fun enclosing_loop ::
  "nat \<Rightarrow> (string \<rightharpoonup> slim_node) \<Rightarrow> (string \<rightharpoonup> string) \<Rightarrow> string option \<Rightarrow> string option" where
  "enclosing_loop 0 byid par cur = None"
| "enclosing_loop (Suc k) byid par None = None"
| "enclosing_loop (Suc k) byid par (Some c) =
     (case byid c of None \<Rightarrow> None
      | Some n \<Rightarrow> if is_class n then Some c else enclosing_loop k byid par (par c))"

definition enclosing_class_id :: "rindex \<Rightarrow> string \<Rightarrow> string option" where
  "enclosing_class_id ix i =
     enclosing_loop (Suc (rx_depth ix)) (rx_byid ix) (rx_parent ix) (rx_parent ix i)"

text \<open>The containers of a node, nearest first: its parent, then the parent of that.\<close>

fun ancestors_by :: "nat \<Rightarrow> (string \<rightharpoonup> string) \<Rightarrow> string option \<Rightarrow> string list" where
  "ancestors_by 0 par cur = []"
| "ancestors_by (Suc k) par None = []"
| "ancestors_by (Suc k) par (Some c) = c # ancestors_by k par (par c)"

definition class_at :: "(string \<rightharpoonup> slim_node) \<Rightarrow> string \<Rightarrow> bool" where
  "class_at byid c = (case byid c of None \<Rightarrow> False | Some n \<Rightarrow> is_class n)"

definition known_plain :: "(string \<rightharpoonup> slim_node) \<Rightarrow> string \<Rightarrow> bool" where
  "known_plain byid c = (case byid c of None \<Rightarrow> False | Some n \<Rightarrow> \<not> is_class n)"

lemma enclosing_nearest:
  "enclosing_loop k byid par cur =
     (case dropWhile (known_plain byid) (ancestors_by k par cur) of
        [] \<Rightarrow> None | c # _ \<Rightarrow> if class_at byid c then Some c else None)"
  by (induction k byid par cur rule: enclosing_loop.induct)
    (auto simp: known_plain_def class_at_def split: option.splits)

lemma ancestors_chain:
  "i + 1 < length (ancestors_by k par cur) \<Longrightarrow>
   par (ancestors_by k par cur ! i) = Some (ancestors_by k par cur ! (i + 1))"
proof (induction k par cur arbitrary: i rule: ancestors_by.induct)
  case (3 k par c)
  show ?case
  proof (cases i)
    case 0
    then show ?thesis using 3 by (cases k; cases "par c") auto
  next
    case (Suc j)
    then show ?thesis using 3 by simp
  qed
qed auto

definition parent_rel :: "(string \<rightharpoonup> string) \<Rightarrow> (string \<times> string) set" where
  "parent_rel par = {(c, p). par c = Some p}"

lemma chain_trancl:
  "j < length (ancestors_by k par cur) \<Longrightarrow> i < j \<Longrightarrow>
   (ancestors_by k par cur ! i, ancestors_by k par cur ! j) \<in> (parent_rel par)\<^sup>+"
proof (induction j)
  case (Suc j)
  have step: "(ancestors_by k par cur ! j, ancestors_by k par cur ! Suc j) \<in> parent_rel par"
    using ancestors_chain [of j k par cur] Suc.prems by (simp add: parent_rel_def)
  show ?case
  proof (cases "i = j")
    case True
    with step show ?thesis by auto
  next
    case False
    with Suc have "(ancestors_by k par cur ! i, ancestors_by k par cur ! j) \<in> (parent_rel par)\<^sup>+" by simp
    then show ?thesis using step by (rule trancl_into_trancl)
  qed
qed simp

lemma ancestors_distinct:
  "acyclic (parent_rel par) \<Longrightarrow> distinct (ancestors_by k par cur)"
proof (rule ccontr)
  let ?a = "ancestors_by k par cur"
  assume ac: "acyclic (parent_rel par)" and "\<not> distinct ?a"
  then obtain i j where ij: "i < length ?a" "j < length ?a" "i \<noteq> j" "?a ! i = ?a ! j"
    by (auto simp: distinct_conv_nth)
  then have "(?a ! i, ?a ! i) \<in> (parent_rel par)\<^sup>+"
    using chain_trancl [of j k par cur i] chain_trancl [of i k par cur j]
    by (cases "i < j") auto
  with ac show False by (simp add: acyclic_def)
qed

lemma ancestors_bounded:
  assumes "acyclic (parent_rel par)" "finite (dom par)"
  shows "length (ancestors_by k par cur) \<le> Suc (card (dom par))"
proof -
  let ?a = "ancestors_by k par cur"
  have "set (butlast ?a) \<subseteq> dom par"
  proof
    fix x assume "x \<in> set (butlast ?a)"
    then obtain i where "i < length ?a - 1" "x = ?a ! i" by (auto simp: in_set_conv_nth nth_butlast)
    then show "x \<in> dom par" using ancestors_chain [of i k par cur] by auto
  qed
  then have "card (set (butlast ?a)) \<le> card (dom par)" using assms(2) by (rule card_mono [rotated])
  moreover have "distinct (butlast ?a)" using ancestors_distinct [OF assms(1)] by (rule distinct_butlast)
  ultimately show ?thesis by (simp add: distinct_card)
qed

lemma ancestors_stable:
  "length (ancestors_by (Suc k) par cur) \<le> k \<Longrightarrow> ancestors_by (Suc k + m) par cur = ancestors_by (Suc k) par cur"
proof (induction k arbitrary: cur)
  case 0
  then show ?case by (cases cur) auto
next
  case (Suc k)
  then show ?case by (cases cur) auto
qed

lemma parent_of_edges:
  "parent_of edges c = Some p \<Longrightarrow> \<lparr>se_type = ''CONTAINS'', se_src = p, se_dst = c\<rparr> \<in> set edges"
proof -
  have "parent_of edges c = (case find (\<lambda>e. se_type e = ''CONTAINS'' \<and> se_dst e = c) (rev edges) of
      Some e \<Rightarrow> Some (se_src e) | None \<Rightarrow> None)"
    unfolding parent_of_def by (simp add: dict_laws)
  moreover assume "parent_of edges c = Some p"
  ultimately obtain e where "find (\<lambda>e. se_type e = ''CONTAINS'' \<and> se_dst e = c) (rev edges) = Some e" "se_src e = p"
    by (auto split: option.splits)
  with find_mem [OF this(1)] show ?thesis by (cases e) auto
qed

lemma parent_dom: "dom (parent_of edges) \<subseteq> se_dst ` set edges"
  using parent_of_edges by force

lemma card_parent_dom: "finite (dom (parent_of edges))" "card (dom (parent_of edges)) \<le> length edges"
proof -
  show "finite (dom (parent_of edges))" by (rule finite_subset [OF parent_dom]) simp
  have "card (dom (parent_of edges)) \<le> card (se_dst ` set edges)" by (rule card_mono [OF _ parent_dom]) simp
  also have "\<dots> \<le> length edges" by (metis card_image_le card_length finite_set le_trans)
  finally show "card (dom (parent_of edges)) \<le> length edges" .
qed

text \<open>On an acyclic containment the walk returns the nearest class that contains the node:
  the containers before it are known and are no classes, and no bound on the walk shows,
  since a longer one gives the same answer.\<close>

theorem enclosing_enough:
  assumes "acyclic {(c, p). parent_of edges c = Some p}"
  shows "enclosing_class_id (build_rindex nodes edges refs) i =
           enclosing_loop (length edges + 2 + m) (nodes_by_id nodes) (parent_of edges) (parent_of edges i)
    \<and> (\<forall>c. enclosing_class_id (build_rindex nodes edges refs) i = Some c \<longrightarrow>
         (i, c) \<in> {(c, p). parent_of edges c = Some p}\<^sup>+ \<and> class_at (nodes_by_id nodes) c)"
proof
  let ?par = "parent_of edges" and ?byid = "nodes_by_id nodes"
  let ?k = "length edges + 1"
  let ?a = "ancestors_by (Suc ?k) ?par (?par i)"
  have ac: "acyclic (parent_rel ?par)" using assms by (simp add: parent_rel_def)
  have def: "enclosing_class_id (build_rindex nodes edges refs) i = enclosing_loop (Suc ?k) ?byid ?par (?par i)"
    by (simp add: enclosing_class_id_def build_rindex_def Let_def)
  have "length ?a \<le> ?k"
    using ancestors_bounded [OF ac card_parent_dom(1), of "Suc ?k" "?par i"] card_parent_dom(2) [of edges] by simp
  from ancestors_stable [OF this, of m]
  show "enclosing_class_id (build_rindex nodes edges refs) i =
      enclosing_loop (length edges + 2 + m) ?byid ?par (?par i)"
    unfolding def enclosing_nearest by (simp del: ancestors_by.simps)
  show "\<forall>c. enclosing_class_id (build_rindex nodes edges refs) i = Some c \<longrightarrow>
         (i, c) \<in> {(c, p). ?par c = Some p}\<^sup>+ \<and> class_at ?byid c"
  proof (intro allI impI)
    fix c assume "enclosing_class_id (build_rindex nodes edges refs) i = Some c"
    then obtain r where d: "dropWhile (known_plain ?byid) ?a = c # r" and cl: "class_at ?byid c"
      unfolding def enclosing_nearest by (auto split: list.splits if_splits)
    then have "c \<in> set ?a" by (metis list.set_intros(1) set_dropWhileD)
    then obtain j where j: "j < length ?a" "?a ! j = c" by (auto simp: in_set_conv_nth)
    obtain p where p: "?par i = Some p" using j(1) by (cases "?par i") auto
    have first: "(i, ?a ! 0) \<in> parent_rel ?par" using p by (simp add: parent_rel_def)
    have "(i, c) \<in> (parent_rel ?par)\<^sup>+"
    proof (cases j)
      case 0
      with first j show ?thesis by auto
    next
      case (Suc l)
      then have "(?a ! 0, c) \<in> (parent_rel ?par)\<^sup>+" using chain_trancl [of j "Suc ?k" ?par "?par i" 0] j by simp
      with first show ?thesis by (rule trancl_into_trancl2)
    qed
    then show "(i, c) \<in> {(c, p). ?par c = Some p}\<^sup>+ \<and> class_at ?byid c"
      using cl by (simp add: parent_rel_def)
  qed
qed

theorem enclosing_enough_witness:
  "let f = \<lparr>se_type = ''CONTAINS'', se_src = ''C'', se_dst = ''m''\<rparr>
   in enclosing_class_id (build_rindex [node_to_slim (mk_node ''C'' ''Class'' ''A'' ''p.A'' ''r'')] [f] []) ''m'' = Some ''C''
      \<and> (''m'', ''C'') \<in> {(c, p). parent_of [f] c = Some p}\<^sup>+"
proof -
  let ?f = "\<lparr>se_type = ''CONTAINS'', se_src = ''C'', se_dst = ''m''\<rparr>"
  let ?n = "node_to_slim (mk_node ''C'' ''Class'' ''A'' ''p.A'' ''r'')"
  have par: "{(c, p). parent_of [?f] c = Some p} = {(''m'', ''C'')}"
    by (auto simp: parent_of_def split: if_splits)
  have "acyclic {(''m'', ''C'')}" by (simp add: acyclic_insert, simp add: acyclic_def)
  then have ac: "acyclic {(c, p). parent_of [?f] c = Some p}" unfolding par .
  have "enclosing_class_id (build_rindex [?n] [?f] []) ''m'' = Some ''C''"
    unfolding conjunct1 [OF enclosing_enough [OF ac], of "[?n]" "[]" "''m''" 0]
    by (simp add: parent_of_def nodes_by_id_def node_to_slim_def mk_node_def is_class_def eval_nat_numeral)
  moreover from this enclosing_enough [OF ac, of "[?n]" "[]" "''m''" 0]
  have "(''m'', ''C'') \<in> {(c, p). parent_of [?f] c = Some p}\<^sup>+" by blast
  ultimately show ?thesis unfolding Let_def by blast
qed

section \<open>Ancestors\<close>

type_synonym supers = "(string \<times> string list) list"

definition supers_of :: "supers \<Rightarrow> string \<Rightarrow> string list" where
  "supers_of s c = group_look s c"

text \<open>One element of a frontier: the next frontier, the classes seen, the chain so far.\<close>

fun visit :: "supers \<Rightarrow> string \<Rightarrow> string list \<times> string set \<times> string list \<Rightarrow> string list \<times> string set \<times> string list" where
  "visit s c (nxt, seen, out) =
     (if c \<in> seen then (nxt, seen, out) else (nxt @ supers_of s c, insert c seen, out @ [c]))"

definition sweep :: "supers \<Rightarrow> string list \<Rightarrow> string set \<Rightarrow> string list \<Rightarrow> string list \<times> string set \<times> string list" where
  "sweep s frontier seen out = fold (visit s) frontier ([], seen, out)"

text \<open>What a frontier contributes is its first occurrences outside \<open>seen\<close>.\<close>

lemma visit_fold:
  "fold (visit s) frontier (nxt, seen, out) =
     (nxt @ concat (map (supers_of s) (kept (\<lambda>c. c) seen frontier)),
      seen \<union> set frontier, out @ kept (\<lambda>c. c) seen frontier)"
  by (induction frontier arbitrary: nxt seen out)
    (auto simp: kept_def split: prod.splits)

lemma sweep_kept:
  "sweep s frontier seen out = (concat (map (supers_of s) (kept (\<lambda>c. c) seen frontier)),
     seen \<union> set frontier, out @ kept (\<lambda>c. c) seen frontier)"
  by (simp add: sweep_def visit_fold)

function chain_loop :: "supers \<Rightarrow> string list \<Rightarrow> string set \<Rightarrow> string list \<Rightarrow> string list" where
  "chain_loop s frontier seen out =
     (if frontier = [] then out
      else case sweep s frontier seen out of (nxt, seen', out') \<Rightarrow> chain_loop s nxt seen' out')"
  by pat_completeness auto

definition open_keys :: "supers \<Rightarrow> string set \<Rightarrow> string set" where
  "open_keys s seen = set (map fst s) - seen"

lemma supers_key: "supers_of s c \<noteq> [] \<Longrightarrow> c \<in> set (map fst s)"
  by (auto simp: supers_of_def group_look_def split: option.splits dest: map_of_SomeD) (metis fst_conv image_eqI map_of_SomeD)

lemma open_keys_shrink:
  assumes "concat (map (supers_of s) (kept (\<lambda>c. c) seen frontier)) \<noteq> []"
  shows "card (open_keys s (seen \<union> set frontier)) < card (open_keys s seen)"
proof -
  from assms obtain c where c: "c \<in> set (kept (\<lambda>c. c) seen frontier)" "supers_of s c \<noteq> []" by auto
  then have "c \<in> set frontier" "c \<notin> seen"
    using kept_keys [of "\<lambda>c. c" seen frontier] by auto
  with supers_key [OF c(2)] have "open_keys s (seen \<union> set frontier) \<subset> open_keys s seen"
    by (auto simp: open_keys_def)
  then show ?thesis by (rule psubset_card_mono [rotated]) (simp add: open_keys_def)
qed

definition chain_size :: "supers \<Rightarrow> string list \<Rightarrow> string set \<Rightarrow> nat" where
  "chain_size s frontier seen = 2 * card (open_keys s seen) + (if frontier = [] then 0 else 1)"

lemma chain_decreases:
  assumes "frontier \<noteq> []" "sweep s frontier seen out = (nxt, seen', out')"
  shows "chain_size s nxt seen' < chain_size s frontier seen"
proof -
  have n: "nxt = concat (map (supers_of s) (kept (\<lambda>c. c) seen frontier))" "seen' = seen \<union> set frontier"
    using assms(2) by (auto simp: sweep_kept)
  have mono: "card (open_keys s seen') \<le> card (open_keys s seen)"
    unfolding n by (rule card_mono) (auto simp: open_keys_def)
  show ?thesis
  proof (cases "nxt = []")
    case True
    with assms(1) mono show ?thesis by (simp add: chain_size_def)
  next
    case False
    with open_keys_shrink [of s seen frontier] n assms(1) show ?thesis by (simp add: chain_size_def)
  qed
qed

termination chain_loop
proof (relation "measure (\<lambda>(s, f, seen, out). chain_size s f seen)", goal_cases)
  case (2 s f seen out nxt r seen' out')
  then have "chain_size s nxt seen' < chain_size s f seen" by (metis chain_decreases)
  then show ?case by simp
qed simp

declare chain_loop.simps [simp del]

definition ancestor_chain :: "supers \<Rightarrow> string \<Rightarrow> string list" where
  "ancestor_chain s c = chain_loop s (supers_of s c) {c} []"

text \<open>\<open>_inherited_members\<close>: of each class, the declarations on its first ancestor that has any.\<close>

definition nearest_members :: "('k \<times> string \<rightharpoonup> slot) \<Rightarrow> string \<Rightarrow> 'k list \<Rightarrow> slim_node list" where
  "nearest_members methods nm chain =
     (case find (\<lambda>a. members methods (a, nm) \<noteq> []) chain of
        None \<Rightarrow> [] | Some a \<Rightarrow> members methods (a, nm))"

definition inherited_members ::
  "supers \<Rightarrow> (string \<times> string \<rightharpoonup> slot) \<Rightarrow> string list \<Rightarrow> string \<Rightarrow> slim_node list" where
  "inherited_members s methods cids nm =
     concat (map (\<lambda>c. nearest_members methods nm (ancestor_chain s c)) cids)"

section \<open>The chain is the ancestry, nearest first\<close>

definition supers_rel :: "supers \<Rightarrow> (string \<times> string) set" where
  "supers_rel s = {(c, d). d \<in> set (supers_of s c)}"

definition ball :: "supers \<Rightarrow> string \<Rightarrow> nat \<Rightarrow> string set" where
  "ball s c k = {a. \<exists>j \<le> k. (c, a) \<in> supers_rel s ^^ j}"

definition generation :: "supers \<Rightarrow> string \<Rightarrow> string \<Rightarrow> nat" where
  "generation s c a = (LEAST j. (c, a) \<in> supers_rel s ^^ j)"

lemma ball_0: "ball s c 0 = {c}"
  by (auto simp: ball_def)

lemma ball_Suc: "ball s c (Suc k) = ball s c k \<union> supers_rel s `` ball s c k"
proof (rule set_eqI)
  fix a
  have "a \<in> ball s c (Suc k) \<longleftrightarrow> a \<in> ball s c k \<or> (c, a) \<in> supers_rel s ^^ Suc k"
    by (auto simp: ball_def le_Suc_eq simp del: relpow.simps)
  also have "\<dots> \<longleftrightarrow> a \<in> ball s c k \<or> a \<in> supers_rel s `` ball s c k"
  proof
    assume "a \<in> ball s c k \<or> a \<in> supers_rel s `` ball s c k"
    then show "a \<in> ball s c k \<or> (c, a) \<in> supers_rel s ^^ Suc k"
    proof
      assume "a \<in> supers_rel s `` ball s c k"
      then obtain b j where "j \<le> k" "(c, b) \<in> supers_rel s ^^ j" "(b, a) \<in> supers_rel s"
        by (auto simp: ball_def)
      then have st: "(c, a) \<in> supers_rel s ^^ Suc j" "Suc j \<le> Suc k" by auto
      show ?thesis
      proof (cases "j = k")
        case True
        with st(1) show ?thesis by (simp del: relpow.simps)
      next
        case False
        with st have "Suc j \<le> k" by simp
        with st(1) show ?thesis by (auto simp: ball_def simp del: relpow.simps)
      qed
    qed simp
  qed (auto simp: ball_def)
  finally show "a \<in> ball s c (Suc k) \<longleftrightarrow> a \<in> ball s c k \<union> supers_rel s `` ball s c k" by simp
qed

lemma ball_closed:
  assumes "supers_rel s `` ball s c k \<subseteq> ball s c k"
  shows "(supers_rel s)\<^sup>* `` {c} = ball s c k"
proof
  show "ball s c k \<subseteq> (supers_rel s)\<^sup>* `` {c}" by (auto simp: ball_def intro: relpow_imp_rtrancl)
  show "(supers_rel s)\<^sup>* `` {c} \<subseteq> ball s c k"
  proof
    fix a assume "a \<in> (supers_rel s)\<^sup>* `` {c}"
    then have "(c, a) \<in> (supers_rel s)\<^sup>*" by simp
    then show "a \<in> ball s c k"
    proof induction
      case base
      show ?case by (auto simp: ball_def intro: exI [of _ 0])
    next
      case (step y z)
      with assms show ?case by auto
    qed
  qed
qed

lemma generation_ball: "a \<in> ball s c k \<Longrightarrow> generation s c a \<le> k"
  by (auto simp: ball_def generation_def intro: Least_le order_trans)

lemma generation_outside: "a \<in> ball s c (Suc k) \<Longrightarrow> a \<notin> ball s c k \<Longrightarrow> generation s c a = Suc k"
proof -
  assume a: "a \<in> ball s c (Suc k)" "a \<notin> ball s c k"
  then obtain j where j: "(c, a) \<in> supers_rel s ^^ j" by (auto simp: ball_def)
  then have "(c, a) \<in> supers_rel s ^^ generation s c a" unfolding generation_def by (rule LeastI)
  with a(2) have "\<not> generation s c a \<le> k" by (auto simp: ball_def)
  with generation_ball [OF a(1)] show ?thesis by simp
qed

definition level_state :: "supers \<Rightarrow> string \<Rightarrow> nat \<Rightarrow> string list \<Rightarrow> string set \<Rightarrow> string list \<Rightarrow> bool" where
  "level_state s c k frontier seen out \<longleftrightarrow>
     seen = ball s c k \<and> seen \<union> set frontier = ball s c (Suc k) \<and> set out = seen - {c} \<and>
     distinct out \<and> sorted (map (generation s c) out)"

lemma level_start: "level_state s c 0 (supers_of s c) {c} []"
  by (auto simp: level_state_def ball_0 ball_Suc supers_rel_def)

lemma level_step:
  assumes "level_state s c k frontier seen out" "sweep s frontier seen out = (nxt, seen', out')"
  shows "level_state s c (Suc k) nxt seen' out'"
proof -
  let ?new = "kept (\<lambda>c. c) seen frontier"
  have eqs: "nxt = concat (map (supers_of s) ?new)" "seen' = seen \<union> set frontier" "out' = out @ ?new"
    using assms(2) by (auto simp: sweep_kept)
  have new: "set ?new = set frontier - seen" using kept_keys [of "\<lambda>c. c" seen frontier] by simp
  have st: "seen = ball s c k" "seen \<union> set frontier = ball s c (Suc k)" "set out = seen - {c}"
    "distinct out" "sorted (map (generation s c) out)"
    using assms(1) by (auto simp: level_state_def)
  have c: "c \<in> seen" using st(1) by (auto simp: ball_def intro: exI [of _ 0])
  have "supers_rel s `` seen \<subseteq> ball s c (Suc k)" unfolding st(1) ball_Suc by blast
  moreover have "set nxt = supers_rel s `` (set frontier - seen)"
    unfolding eqs by (auto simp: new supers_rel_def)
  ultimately have all: "seen' \<union> set nxt = ball s c (Suc (Suc k))"
    unfolding eqs ball_Suc [of s c "Suc k"] st(2) [symmetric] by blast
  have gen: "generation s c a = Suc k" if "a \<in> set ?new" for a
    using that new st by (intro generation_outside) auto
  have low: "generation s c a \<le> k" if "a \<in> set out" for a
    using that st by (intro generation_ball) auto
  have "map (generation s c) ?new = replicate (length ?new) (Suc k)"
    by (rule replicate_eqI) (auto simp: gen)
  then have "sorted (map (generation s c) out')"
    unfolding eqs using st(5) low gen by (fastforce simp: sorted_append)
  moreover have "distinct out'"
    unfolding eqs using st(3,4) new kept_distinct [of "\<lambda>c. c" seen frontier] by auto
  moreover have "set out' = seen' - {c}" unfolding eqs using st(3) new c by auto
  ultimately show ?thesis using all st(2) eqs(2) by (simp add: level_state_def)
qed

lemma chain_levels:
  "level_state s c k frontier seen out \<Longrightarrow>
     distinct (chain_loop s frontier seen out)
   \<and> sorted (map (generation s c) (chain_loop s frontier seen out))
   \<and> set (chain_loop s frontier seen out) = (supers_rel s)\<^sup>* `` {c} - {c}"
proof (induction s frontier seen out arbitrary: k rule: chain_loop.induct)
  case (1 s frontier seen out)
  show ?case
  proof (cases "frontier = []")
    case True
    with 1(2) have "ball s c (Suc k) = ball s c k" by (auto simp: level_state_def)
    then have "(supers_rel s)\<^sup>* `` {c} = ball s c k" by (intro ball_closed) (auto simp: ball_Suc)
    with 1(2) True show ?thesis by (simp add: chain_loop.simps level_state_def)
  next
    case False
    obtain nxt seen' out' where sw: "sweep s frontier seen out = (nxt, seen', out')"
      by (cases "sweep s frontier seen out") auto
    with 1(2) have "level_state s c (Suc k) nxt seen' out'" by (rule level_step)
    from 1(1) [OF False sw [symmetric] refl this] show ?thesis
      using False sw by (simp add: chain_loop.simps)
  qed
qed

text \<open>C17: the chain of a class is every class it transitively extends or implements, each
  once, never itself even in a cyclic hierarchy, and ordered by distance: a nearer ancestor
  comes before a farther one, so that the first that declares a name is a nearest one.\<close>

theorem ancestor_chain_exact:
  "distinct (ancestor_chain s c)
   \<and> set (ancestor_chain s c) = {(c, d). d \<in> set (supers_of s c)}\<^sup>* `` {c} - {c}
   \<and> sorted (map (\<lambda>a. LEAST j. (c, a) \<in> {(c, d). d \<in> set (supers_of s c)} ^^ j) (ancestor_chain s c))"
  using chain_levels [OF level_start, of s c]
  by (simp add: ancestor_chain_def supers_rel_def generation_def [abs_def])

text \<open>What is inherited comes from an ancestor that has it, and no nearer ancestor has any.\<close>

lemma nearest_members_first:
  "n \<in> set (nearest_members methods nm chain) \<Longrightarrow>
   \<exists>us a vs. chain = us @ a # vs \<and> n \<in> set (members methods (a, nm)) \<and> (\<forall>u \<in> set us. members methods (u, nm) = [])"
proof (induction chain)
  case (Cons x xs)
  show ?case
  proof (cases "members methods (x, nm) = []")
    case True
    with Cons have "n \<in> set (nearest_members methods nm xs)" by (simp add: nearest_members_def)
    from Cons.IH [OF this] obtain us a vs where "xs = us @ a # vs" "n \<in> set (members methods (a, nm))"
      "\<forall>u \<in> set us. members methods (u, nm) = []" by blast
    with True show ?thesis by (intro exI [of _ "x # us"] exI [of _ a] exI [of _ vs]) auto
  next
    case False
    with Cons.prems have "n \<in> set (members methods (x, nm))" by (simp add: nearest_members_def)
    then show ?thesis by (intro exI [of _ "[]"] exI [of _ x] exI [of _ xs]) auto
  qed
qed (simp add: nearest_members_def)

end
