(* ===== verification/Narrowing.thy ===== *)
theory Narrowing
  imports Hierarchy
begin

text \<open>
  How \<open>resolve\<close> (\<open>graph_core/resolver.py\<close>) narrows the same-named declarations of a
  reference: type names by file, import and package; calls by scope, file, import, receiver
  and arity; and the hierarchy that inherited calls are looked up in.  A chain of
  \<open>if hits: return hits, strategy\<close> is the first step with hits of a list of steps.
\<close>

section \<open>Steps\<close>

fun first_hit :: "('a list \<times> 'b) list \<Rightarrow> 'a list \<times> 'b \<Rightarrow> 'a list \<times> 'b" where
  "first_hit [] d = d"
| "first_hit ((hits, s) # steps) d = (if hits \<noteq> [] then (hits, s) else first_hit steps d)"

definition apply_arity :: "raw_ref \<Rightarrow> slim_node list \<times> string \<Rightarrow> slim_node list \<times> string" where
  "apply_arity r cs = (case cs of (cands, base) \<Rightarrow>
     if r_call_arity r < 0 then (cands, base)
     else let narrowed = filter (\<lambda>c. s_param_count c = r_call_arity r) cands
          in if narrowed \<noteq> [] then (narrowed, base @ ''+arity'') else (cands, base))"

definition qualified_hit :: "string set \<Rightarrow> slim_node \<Rightarrow> bool" where
  "qualified_hit tails c = (set (tl (split_on (CHR ''.'') (s_fqn c))) \<inter> tails \<noteq> {})"

definition import_qualified_hits :: "slim_node list \<Rightarrow> string set \<Rightarrow> slim_node list" where
  "import_qualified_hits cands tails = (if tails = {} then [] else filter (qualified_hit tails) cands)"

definition package_of :: "rindex \<Rightarrow> slim_node \<Rightarrow> string" where
  "package_of ix c = (case nx_package (rx_names ix) (s_id c) of None \<Rightarrow> [] | Some p \<Rightarrow> p)"

definition file_package :: "rindex \<Rightarrow> string \<Rightarrow> string" where
  "file_package ix f = (case rx_file_package ix f of None \<Rightarrow> [] | Some p \<Rightarrow> p)"

definition src_file :: "rindex \<Rightarrow> raw_ref \<Rightarrow> string" where
  "src_file ix r = (case rx_byid ix (r_src r) of None \<Rightarrow> [] | Some n \<Rightarrow> s_file n)"

section \<open>Type references\<close>

definition same_package :: "rindex \<Rightarrow> string \<Rightarrow> slim_node list \<Rightarrow> slim_node list" where
  "same_package ix f cs = (if file_package ix f \<noteq> []
     then filter (\<lambda>c. package_of ix c = file_package ix f) cs else [])"

definition narrow_classes_for_recv :: "rindex \<Rightarrow> slim_node list \<Rightarrow> string \<Rightarrow> slim_node list" where
  "narrow_classes_for_recv ix cs f =
     (if length cs \<le> 1 \<or> f = [] then cs
      else let imp = rx_imports ix in fst (first_hit
        [(filter (\<lambda>c. s_file c = f) cs, ()),
         (filter (\<lambda>c. s_fqn c \<in> ii_fqns imp f) cs, ()),
         (import_qualified_hits cs (import_tails imp f), ()),
         (same_package ix f cs, ()),
         (if ii_wildcards imp f \<noteq> {} then filter (\<lambda>c. package_of ix c \<in> ii_wildcards imp f) cs else [], ()),
         (filter (\<lambda>c. s_name c \<in> ii_imports imp f) cs, ())]
        (cs, ())))"

definition narrow_type :: "rindex \<Rightarrow> raw_ref \<Rightarrow> slim_node list \<times> string" where
  "narrow_type ix r =
     (let pool = nx_classes (rx_names ix) (tail_name (r_target_name r)) in
      if pool = [] then ([], ''none'')
      else if length pool = 1 then (pool, ''unique'')
      else let f = src_file ix r; imp = rx_imports ix; known = (\<lambda>hits. if f \<noteq> [] then hits else []) in first_hit
        [(known (filter (\<lambda>c. s_file c = f) pool), ''same_file''),
         (known (filter (\<lambda>c. s_fqn c \<in> ii_fqns imp f) pool), ''imports_qualified_exact''),
         (known (import_qualified_hits pool (import_tails imp f)), ''imports_qualified''),
         (known (same_package ix f pool), ''same_package''),
         (known (if ii_wildcards imp f \<noteq> {} then filter (\<lambda>c. package_of ix c \<in> ii_wildcards imp f) pool else []),
          ''imports_wildcard''),
         (known (filter (\<lambda>c. s_name c \<in> ii_imports imp f) pool), ''imports'')]
        (pool, ''name''))"

section \<open>The hierarchy\<close>

definition ref_class :: "rindex \<Rightarrow> raw_ref \<Rightarrow> string option" where
  "ref_class ix r = (if rx_byid ix (r_src r) = None then enclosing_class_id ix (r_src r) else Some (r_src r))"

definition edge_supers :: "slim_edge list \<Rightarrow> supers" where
  "edge_supers edges = fold (\<lambda>e m. if se_type e = ''EXTENDS'' \<or> se_type e = ''IMPLEMENTS''
     then group_add (se_src e) (se_dst e) m else m) edges []"

definition add_super :: "rindex \<Rightarrow> raw_ref \<Rightarrow> supers \<Rightarrow> supers" where
  "add_super ix r m = (case ref_class ix r of None \<Rightarrow> m | Some c \<Rightarrow>
     if \<not> class_at (rx_byid ix) c then m
     else case fst (narrow_type ix r) of
       [d] \<Rightarrow> if s_id d \<noteq> c \<and> s_id d \<notin> set (supers_of m c) then group_add c (s_id d) m else m
     | _ \<Rightarrow> m)"

definition direct_supers :: "rindex \<Rightarrow> slim_edge list \<Rightarrow> supers" where
  "direct_supers ix edges = fold (add_super ix) (ii_hierarchy (rx_imports ix)) (edge_supers edges)"

section \<open>Calls\<close>

text \<open>Steps of \<open>narrow_call\<close>: the functions of the name, or failing that the classes too.\<close>

definition call_pool :: "rindex \<Rightarrow> string \<Rightarrow> slim_node list" where
  "call_pool ix nm = (let fns = nx_funcs (rx_names ix) nm in
     if fns \<noteq> [] then fns else nx_by_name (rx_names ix) nm)"

definition functions_only :: "rindex \<Rightarrow> string \<Rightarrow> slim_node list \<Rightarrow> slim_node list" where
  "functions_only ix nm cs = (if nx_funcs (rx_names ix) nm \<noteq> [] then filter is_func cs else cs)"

definition scope_steps :: "rindex \<Rightarrow> raw_ref \<Rightarrow> (slim_node list \<times> string) list" where
  "scope_steps ix r = (let nm = r_target_name r; mi = rx_members ix; f = src_file ix r in
     [(case rx_parent ix (r_src r) of None \<Rightarrow> []
       | Some p \<Rightarrow> functions_only ix nm (members (mi_name_parent mi) (nm, Some p)), ''same_scope''),
      (if f \<noteq> [] then functions_only ix nm (members (mi_name_file mi) (nm, f)) else [], ''same_file'')])"

definition import_steps :: "rindex \<Rightarrow> raw_ref \<Rightarrow> (slim_node list \<times> string) list" where
  "import_steps ix r = (let pool = call_pool ix (r_target_name r); f = src_file ix r; imp = rx_imports ix in
     if f = [] then []
     else [(filter (\<lambda>c. package_of ix c \<in> ii_fqns imp f) pool, ''imports_qualified_exact''),
           (import_qualified_hits pool (import_tails imp f), ''imports_qualified''),
           (filter (\<lambda>c. s_name c \<in> ii_imports imp f \<or> tail_name (s_fqn c) \<in> ii_imports imp f) pool,
            ''imports'')])"

text \<open>The methods the narrowed classes declare, then what they inherit.\<close>

definition class_steps ::
  "rindex \<Rightarrow> supers \<Rightarrow> string \<Rightarrow> string list \<Rightarrow> string \<Rightarrow> (slim_node list \<times> string) list" where
  "class_steps ix hier nm cids strat = (let ms = mi_methods (rx_members ix) in
     [(concat (map (\<lambda>c. members ms (c, nm)) cids), strat),
      (inherited_members hier ms cids nm, strat @ ''_inherited'')])"

definition self_recv :: "raw_ref \<Rightarrow> bool" where
  "self_recv r = (r_recv r = ''self'' \<or> r_recv r = ''cls'')"

definition receiver_steps :: "rindex \<Rightarrow> supers \<Rightarrow> raw_ref \<Rightarrow> (slim_node list \<times> string) list" where
  "receiver_steps ix hier r = (let nm = r_target_name r; classes = nx_classes (rx_names ix);
       narrowed = (\<lambda>t. map s_id (narrow_classes_for_recv ix (classes t) (src_file ix r))) in
     (if r_recv_type r \<noteq> [] \<and> classes (r_recv_type r) \<noteq> []
      then class_steps ix hier nm (narrowed (r_recv_type r)) ''receiver_type_hint'' else [])
   @ (if self_recv r
      then (case enclosing_class_id ix (r_src r) of None \<Rightarrow> []
            | Some c \<Rightarrow> class_steps ix hier nm [c] ''receiver_type'') else [])
   @ (if r_recv r \<noteq> [] \<and> \<not> self_recv r \<and> classes (r_recv r) \<noteq> []
      then class_steps ix hier nm (narrowed (r_recv r)) ''receiver_type'' else []))"

definition narrow_call :: "rindex \<Rightarrow> supers \<Rightarrow> raw_ref \<Rightarrow> slim_node list \<times> string" where
  "narrow_call ix hier r =
     (if r_recv_type r \<noteq> [] \<and> nx_classes (rx_names ix) (r_recv_type r) = [] then ([], ''external_receiver'')
      else let pool = call_pool ix (r_target_name r) in
        if pool = [] then ([], ''none'')
        else apply_arity r (first_hit (scope_steps ix r @ import_steps ix r @ receiver_steps ix hier r)
               (pool, ''name'')))"

definition fallback_reference_candidates :: "rindex \<Rightarrow> string \<Rightarrow> slim_node list" where
  "fallback_reference_candidates ix t =
     (let tail = tail_name t in
      if tail = [] \<or> tail = t then []
      else let cands = nx_by_name (rx_names ix) tail; fns = filter is_func cands in
        if fns \<noteq> [] then fns else cands)"

section \<open>Cascades choose the best rank\<close>

fun rank_by :: "('a \<Rightarrow> bool) list \<Rightarrow> 'a \<Rightarrow> nat" where
  "rank_by [] x = 0"
| "rank_by (P # Ps) x = (if P x then 0 else Suc (rank_by Ps x))"

definition least_by :: "('a \<Rightarrow> nat) \<Rightarrow> 'a list \<Rightarrow> 'a list" where
  "least_by f xs = filter (\<lambda>x. \<forall>y \<in> set xs. f x \<le> f y) xs"

lemma least_by_cong: "(\<And>x y. x \<in> set xs \<Longrightarrow> y \<in> set xs \<Longrightarrow> (f x \<le> f y) = (g x \<le> g y)) \<Longrightarrow> least_by f xs = least_by g xs"
  unfolding least_by_def by (rule filter_cong) auto

lemma first_hit_least:
  "length ss = length Ps \<Longrightarrow>
   fst (first_hit (zip (map (\<lambda>P. filter P xs) Ps) ss) (xs, d)) = least_by (rank_by Ps) xs"
proof (induction Ps arbitrary: ss)
  case Nil
  then show ?case by (simp add: least_by_def)
next
  case (Cons P Ps)
  then obtain s ss' where ss: "ss = s # ss'" "length ss' = length Ps" by (cases ss) auto
  show ?case
  proof (cases "filter P xs = []")
    case True
    then have "\<not> P x" if "x \<in> set xs" for x using that by (auto simp: filter_empty_conv)
    then have "least_by (rank_by (P # Ps)) xs = least_by (rank_by Ps) xs"
      by (intro least_by_cong) auto
    moreover have "fst (first_hit (zip (map (\<lambda>P. filter P xs) (P # Ps)) ss) (xs, d)) = least_by (rank_by Ps) xs"
      using True ss Cons.IH [OF ss(2)] by (simp del: rank_by.simps)
    ultimately show ?thesis by (simp only:)
  next
    case False
    then obtain y where "y \<in> set xs" "P y" by (auto simp: filter_empty_conv)
    then have "least_by (rank_by (P # Ps)) xs = filter P xs"
      unfolding least_by_def by (intro filter_cong) (auto split: if_splits)
    moreover have "fst (first_hit (zip (map (\<lambda>P. filter P xs) (P # Ps)) ss) (xs, d)) = filter P xs"
      using False ss by (simp del: rank_by.simps)
    ultimately show ?thesis by (simp only:)
  qed
qed

lemma first_hit_cases:
  "first_hit steps d = (hits, s) \<Longrightarrow>
     ((hits, s) = d \<and> (\<forall>u \<in> set steps. fst u = []))
   \<or> (\<exists>us vs. steps = us @ (hits, s) # vs \<and> hits \<noteq> [] \<and> (\<forall>u \<in> set us. fst u = []))"
proof (induction steps d rule: first_hit.induct)
  case (2 h t steps d)
  show ?case
  proof (cases "h = []")
    case True
    with 2 consider "(hits, s) = d" "\<forall>u \<in> set steps. fst u = []"
      | us vs where "steps = us @ (hits, s) # vs" "hits \<noteq> []" "\<forall>u \<in> set us. fst u = []"
      by auto
    then show ?thesis
    proof cases
      case 1
      with True show ?thesis by auto
    next
      case 2
      with True show ?thesis
        by (intro disjI2 exI [of _ "(h, t) # us"] exI [of _ vs]) auto
    qed
  next
    case False
    with 2 show ?thesis by (intro disjI2 exI [of _ "[]"] exI [of _ steps]) auto
  qed
qed auto

section \<open>Visibility of a class from a file\<close>

text \<open>The scoping rules, strongest first.\<close>

definition scope_tests :: "rindex \<Rightarrow> string \<Rightarrow> (slim_node \<Rightarrow> bool) list" where
  "scope_tests ix f = (let imp = rx_imports ix in
     if f = [] then []
     else [\<lambda>c. s_file c = f,
           \<lambda>c. s_fqn c \<in> ii_fqns imp f,
           \<lambda>c. qualified_hit (import_tails imp f) c,
           \<lambda>c. file_package ix f \<noteq> [] \<and> package_of ix c = file_package ix f,
           \<lambda>c. package_of ix c \<in> ii_wildcards imp f,
           \<lambda>c. s_name c \<in> ii_imports imp f])"

definition visibility :: "rindex \<Rightarrow> string \<Rightarrow> slim_node \<Rightarrow> nat" where
  "visibility ix f c = rank_by (scope_tests ix f) c"

lemma qualified_filter: "import_qualified_hits cs tails = filter (qualified_hit tails) cs"
  by (auto simp: import_qualified_hits_def qualified_hit_def)

lemma package_filter:
  "same_package ix f cs = filter (\<lambda>c. file_package ix f \<noteq> [] \<and> package_of ix c = file_package ix f) cs"
  by (simp add: same_package_def)

lemma wildcard_filter:
  "(if W \<noteq> {} then filter (\<lambda>c. g c \<in> W) cs else []) = filter (\<lambda>c. g c \<in> W) cs"
  by auto

lemma least_by_small: "length xs \<le> 1 \<Longrightarrow> least_by f xs = xs"
  by (cases xs) (auto simp: least_by_def)

lemma recv_least: "narrow_classes_for_recv ix cs f = least_by (visibility ix f) cs"
proof (cases "length cs \<le> 1 \<or> f = []")
  case True
  then show ?thesis
    by (auto simp: narrow_classes_for_recv_def visibility_def [abs_def] scope_tests_def least_by_small)
      (simp add: least_by_def)
next
  case False
  then have "narrow_classes_for_recv ix cs f =
      fst (first_hit (zip (map (\<lambda>P. filter P cs) (scope_tests ix f)) (replicate 6 ())) (cs, ()))"
    unfolding narrow_classes_for_recv_def scope_tests_def Let_def qualified_filter package_filter wildcard_filter
    by (simp add: eval_nat_numeral del: first_hit.simps)
  also have "\<dots> = least_by (rank_by (scope_tests ix f)) cs"
    by (rule first_hit_least) (use False in \<open>simp add: scope_tests_def Let_def\<close>)
  finally show ?thesis by (simp add: visibility_def [abs_def])
qed

lemma type_least:
  "fst (narrow_type ix r) =
     least_by (visibility ix (src_file ix r)) (nx_classes (rx_names ix) (tail_name (r_target_name r)))"
proof -
  let ?pool = "nx_classes (rx_names ix) (tail_name (r_target_name r))" and ?f = "src_file ix r"
  show ?thesis
  proof (cases "length ?pool \<le> 1 \<or> ?f = []")
    case True
    then have "least_by (visibility ix ?f) ?pool = ?pool"
      by (elim disjE) (simp_all add: least_by_small, simp add: visibility_def scope_tests_def least_by_def)
    moreover have "fst (narrow_type ix r) = ?pool"
    proof (cases "?f = []")
      case True
      then show ?thesis by (simp add: narrow_type_def Let_def)
    next
      case False
      with True have "?pool = [] \<or> length ?pool = 1" by (cases ?pool) auto
      then show ?thesis unfolding narrow_type_def Let_def by (elim disjE) (simp_all only: if_True if_False fst_conv refl, simp)
    qed
    ultimately show ?thesis by simp
  next
    case False
    then have p: "?pool \<noteq> []" "length ?pool \<noteq> 1" "?f \<noteq> []" by auto
    let ?ss = "[''same_file'', ''imports_qualified_exact'', ''imports_qualified'',
        ''same_package'', ''imports_wildcard'', ''imports'']"
    have "narrow_type ix r = first_hit (zip (map (\<lambda>P. filter P ?pool) (scope_tests ix ?f)) ?ss) (?pool, ''name'')"
      using p
      unfolding narrow_type_def scope_tests_def Let_def qualified_filter package_filter wildcard_filter
      by (simp del: first_hit.simps)
    also have "fst \<dots> = least_by (rank_by (scope_tests ix ?f)) ?pool"
      by (rule first_hit_least) (use p in \<open>simp add: scope_tests_def Let_def\<close>)
    finally show ?thesis by (simp add: visibility_def [abs_def])
  qed
qed

text \<open>A type reference resolves to exactly the same-named classes that are the most visible
  from its file - its own file, then exact imports, imports by tail, the package, wildcards,
  plain names - and the classes of a receiver are narrowed by the same order.\<close>

theorem type_and_receiver_agree:
  "fst (narrow_type (build_rindex nodes edges refs) r) =
     narrow_classes_for_recv (build_rindex nodes edges refs)
       (filter (\<lambda>n. s_label n = ''Class'' \<and> s_name n = tail_name (r_target_name r)) nodes)
       (src_file (build_rindex nodes edges refs) r)
   \<and> fst (narrow_type (build_rindex nodes edges refs) r) =
     least_by (visibility (build_rindex nodes edges refs) (src_file (build_rindex nodes edges refs) r))
       (filter (\<lambda>n. s_label n = ''Class'' \<and> s_name n = tail_name (r_target_name r)) nodes)"
  unfolding recv_least type_least
  by (simp add: build_rindex_def Let_def classes_holds is_class_def)

section \<open>What a call can resolve to\<close>

lemma apply_arity_subset: "set (fst (apply_arity r cs)) \<subseteq> set (fst cs)"
  by (cases cs) (auto simp: apply_arity_def Let_def)

lemma apply_arity_empty: "fst (apply_arity r cs) = [] \<longleftrightarrow> fst cs = []"
  by (cases cs) (auto simp: apply_arity_def Let_def)

lemma functions_only_pool:
  assumes "set cs \<subseteq> set (nx_by_name (rx_names (build_rindex nodes edges refs)) nm)"
  shows "set (functions_only (build_rindex nodes edges refs) nm cs) \<subseteq> set (call_pool (build_rindex nodes edges refs) nm)"
  using assms
  by (auto simp: functions_only_def call_pool_def build_rindex_def Let_def names_hold)

lemma methods_pool:
  "set (members (mi_methods (rx_members (build_rindex nodes edges refs))) (c, nm))
     \<subseteq> set (call_pool (build_rindex nodes edges refs) nm)"
  unfolding methods_of_class_exact
  by (auto simp: call_pool_def build_rindex_def Let_def names_hold is_func_def)

lemma inherited_from:
  "n \<in> set (inherited_members h ms cids nm) \<Longrightarrow>
     \<exists>c \<in> set cids. \<exists>a \<in> set (ancestor_chain h c). n \<in> set (members ms (a, nm))"
  by (auto simp: inherited_members_def dest!: nearest_members_first) force

lemma class_steps_pool:
  "(hits, s) \<in> set (class_steps (build_rindex nodes edges refs) h nm cids strat) \<Longrightarrow>
     set hits \<subseteq> set (call_pool (build_rindex nodes edges refs) nm)"
  by (auto simp: class_steps_def Let_def dest!: inherited_from intro: subsetD [OF methods_pool])

lemma guarded_mem: "x \<in> set (if b then xs else []) \<Longrightarrow> x \<in> set xs"
  by (simp split: if_splits)

lemma guarded_case: "x \<in> set (case k of None \<Rightarrow> [] | Some c \<Rightarrow> f c) \<Longrightarrow> (\<And>c. x \<in> set (f c) \<Longrightarrow> P) \<Longrightarrow> P"
  by (cases k) auto

lemma receiver_step_cases:
  assumes "x \<in> set (receiver_steps ix h r)"
  obtains cids strat where "x \<in> set (class_steps ix h (r_target_name r) cids strat)"
    "strat = ''receiver_type_hint'' \<or> strat = ''receiver_type''"
  using assms unfolding receiver_steps_def Let_def set_append Un_iff
proof (elim disjE, goal_cases)
  case 1
  show ?case by (rule 1(1) [OF guarded_mem [OF 1(2)] disjI1 [OF refl]])
next
  case 2
  then obtain c where "x \<in> set (class_steps ix h (r_target_name r) [c] ''receiver_type'')"
    by (elim guarded_case [OF guarded_mem])
  then show ?case by (rule 2(1) [OF _ disjI2 [OF refl]])
next
  case 3
  show ?case by (rule 3(1) [OF guarded_mem [OF 3(2)] disjI2 [OF refl]])
qed

lemma steps_pool:
  assumes "(hits, s) \<in> set (scope_steps ix r @ import_steps ix r @ receiver_steps ix h r)"
    and ix: "ix = build_rindex nodes edges refs"
  shows "set hits \<subseteq> set (call_pool ix (r_target_name r))"
proof -
  let ?nm = "r_target_name r"
  have by_parent: "set (members (mi_name_parent (rx_members ix)) (?nm, p)) \<subseteq> set (nx_by_name (rx_names ix) ?nm)" for p
    by (auto simp: ix build_rindex_def Let_def members_hold names_hold)
  have by_file: "set (members (mi_name_file (rx_members ix)) (?nm, f)) \<subseteq> set (nx_by_name (rx_names ix) ?nm)" for f
    by (auto simp: ix build_rindex_def Let_def members_hold names_hold)
  from assms(1) consider "(hits, s) \<in> set (scope_steps ix r)" | "(hits, s) \<in> set (import_steps ix r)"
    | "(hits, s) \<in> set (receiver_steps ix h r)" by auto
  then show ?thesis
  proof cases
    case 1
    then consider "hits = []" | p where "hits = functions_only ix ?nm (members (mi_name_parent (rx_members ix)) (?nm, Some p))"
      | f where "hits = functions_only ix ?nm (members (mi_name_file (rx_members ix)) (?nm, f))"
      by (auto simp: scope_steps_def Let_def split: option.splits if_splits)
    then show ?thesis
    proof cases
      case 2
      show ?thesis using functions_only_pool [OF by_parent [unfolded ix]] unfolding 2 ix .
    next
      case 3
      show ?thesis using functions_only_pool [OF by_file [unfolded ix]] unfolding 3 ix .
    qed simp
  next
    case 2
    then show ?thesis by (auto simp: import_steps_def Let_def qualified_filter split: if_splits)
  next
    case 3
    then obtain cids strat where "(hits, s) \<in> set (class_steps ix h ?nm cids strat)"
      by (rule receiver_step_cases)
    then show ?thesis unfolding ix by (rule class_steps_pool)
  qed
qed

lemma first_hit_subset:
  "(\<And>hits s. (hits, s) \<in> set steps \<Longrightarrow> set hits \<subseteq> A) \<Longrightarrow> set (fst d) \<subseteq> A \<Longrightarrow> set (fst (first_hit steps d)) \<subseteq> A"
  by (induction steps d rule: first_hit.induct) auto

lemma first_hit_nonempty: "fst d \<noteq> [] \<Longrightarrow> fst (first_hit steps d) \<noteq> []"
  by (induction steps d rule: first_hit.induct) auto

lemma pool_set:
  "set (call_pool (build_rindex nodes edges refs) nm) =
     {n \<in> set nodes. s_name n = nm \<and>
        s_label n = (if \<exists>m \<in> set nodes. s_label m = ''Function'' \<and> s_name m = nm then ''Function'' else ''Class'')}"
  by (auto simp: call_pool_def build_rindex_def Let_def names_hold is_func_def is_class_def filter_empty_conv)

text \<open>C18: a call resolves only to declarations of its own name - functions when any function
  has the name, classes otherwise - and to nothing only when no declaration has the name or
  when the receiver's declared type is no class of the repository.\<close>

theorem narrow_call_sound:
  "set (fst (narrow_call (build_rindex nodes edges refs) h r)) \<subseteq>
     {n \<in> set nodes. s_name n = r_target_name r \<and> s_label n =
        (if \<exists>m \<in> set nodes. s_label m = ''Function'' \<and> s_name m = r_target_name r then ''Function'' else ''Class'')}
   \<and> (fst (narrow_call (build_rindex nodes edges refs) h r) = [] \<longleftrightarrow>
       (r_recv_type r \<noteq> [] \<and> filter (\<lambda>n. s_label n = ''Class'' \<and> s_name n = r_recv_type r) nodes = [])
     \<or> filter (\<lambda>n. (s_label n = ''Class'' \<or> s_label n = ''Function'') \<and> s_name n = r_target_name r) nodes = [])"
proof -
  let ?ix = "build_rindex nodes edges refs" and ?nm = "r_target_name r"
  let ?steps = "scope_steps ?ix r @ import_steps ?ix r @ receiver_steps ?ix h r"
  let ?p = "call_pool ?ix ?nm"
  have sub: "set (fst (first_hit ?steps (?p, ''name''))) \<subseteq> set ?p"
    by (rule first_hit_subset) (rule steps_pool [OF _ refl], simp_all)
  have "set (fst (narrow_call ?ix h r)) \<subseteq> set ?p"
    using order_trans [OF apply_arity_subset [of r] sub] by (simp add: narrow_call_def Let_def)
  moreover have "fst (narrow_call ?ix h r) = [] \<longleftrightarrow>
      (r_recv_type r \<noteq> [] \<and> nx_classes (rx_names ?ix) (r_recv_type r) = []) \<or> ?p = []"
    unfolding narrow_call_def Let_def
    using first_hit_nonempty [of "(?p, ''name'')" ?steps] by (auto simp: apply_arity_empty)
  moreover have "?p = [] \<longleftrightarrow>
      filter (\<lambda>n. (s_label n = ''Class'' \<or> s_label n = ''Function'') \<and> s_name n = ?nm) nodes = []"
    by (auto simp: call_pool_def build_rindex_def Let_def names_hold is_class_def is_func_def filter_empty_conv)
  moreover have "nx_classes (rx_names ?ix) t = filter (\<lambda>n. s_label n = ''Class'' \<and> s_name n = t) nodes" for t
    by (simp add: build_rindex_def Let_def names_hold is_class_def)
  ultimately show ?thesis unfolding pool_set by simp
qed

section \<open>Inherited calls\<close>

lemma direct_strategies:
  "(hits, s) \<in> set (scope_steps ix r @ import_steps ix r) \<Longrightarrow> s \<in> {''same_scope'', ''same_file'',
     ''imports_qualified_exact'', ''imports_qualified'', ''imports''}"
  by (auto simp: scope_steps_def import_steps_def Let_def split: if_splits)

lemma append_after: "us @ x # vs = pre @ post \<Longrightarrow> x \<notin> set pre \<Longrightarrow> \<exists>ws. us = pre @ ws \<and> post = ws @ x # vs"
  by (induction pre arbitrary: us) (auto simp: append_eq_Cons_conv)

lemma hint_steps:
  assumes "steps = us @ (hits, ''receiver_type_hint_inherited'') # vs"
    and "steps = scope_steps ix r @ import_steps ix r @ receiver_steps ix h r"
  shows "hits = inherited_members h (mi_methods (rx_members ix))
      (map s_id (narrow_classes_for_recv ix (nx_classes (rx_names ix) (r_recv_type r)) (src_file ix r))) (r_target_name r)
   \<and> (concat (map (\<lambda>c. members (mi_methods (rx_members ix)) (s_id c, r_target_name r))
        (narrow_classes_for_recv ix (nx_classes (rx_names ix) (r_recv_type r)) (src_file ix r))),
      ''receiver_type_hint'') \<in> set us"
proof -
  let ?pre = "scope_steps ix r @ import_steps ix r"
  have notpre: "''receiver_type_hint_inherited'' \<notin> snd ` set ?pre"
    using direct_strategies by fastforce
  have "us @ (hits, ''receiver_type_hint_inherited'') # vs = ?pre @ receiver_steps ix h r" using assms by simp
  then obtain ws where ws: "us = ?pre @ ws" "receiver_steps ix h r = ws @ (hits, ''receiver_type_hint_inherited'') # vs"
    using append_after [of us "(hits, ''receiver_type_hint_inherited'')" vs ?pre] notpre by force
  let ?nw = "narrow_classes_for_recv ix (nx_classes (rx_names ix) (r_recv_type r)) (src_file ix r)"
  have "receiver_steps ix h r = ws @ (hits, ''receiver_type_hint_inherited'') # vs" by (rule ws(2))
  then have "ws = [(concat (map (\<lambda>c. members (mi_methods (rx_members ix)) (c, r_target_name r)) (map s_id ?nw)), ''receiver_type_hint'')]
      \<and> hits = inherited_members h (mi_methods (rx_members ix)) (map s_id ?nw) (r_target_name r)"
    by (auto simp: receiver_steps_def class_steps_def Let_def Cons_eq_append_conv append_eq_Cons_conv
        split: if_splits option.splits)
  then show ?thesis using ws(1) by (auto simp: comp_def)
qed

definition strategies :: "string list" where
  "strategies = [''same_scope'', ''same_file'', ''imports_qualified_exact'', ''imports_qualified'', ''imports'',
     ''receiver_type_hint'', ''receiver_type_hint_inherited'', ''receiver_type'', ''receiver_type_inherited'',
     ''name'']"

lemma step_strategies:
  assumes "st \<in> set (scope_steps ix r @ import_steps ix r @ receiver_steps ix h r)"
  shows "snd st \<in> set strategies"
proof -
  from assms consider "st \<in> set (scope_steps ix r @ import_steps ix r)" | "st \<in> set (receiver_steps ix h r)" by auto
  then show ?thesis
  proof cases
    case 1
    with direct_strategies [of "fst st" "snd st" ix r] show ?thesis by (auto simp: strategies_def)
  next
    case 2
    then obtain cids strat where "st \<in> set (class_steps ix h (r_target_name r) cids strat)"
      "strat = ''receiver_type_hint'' \<or> strat = ''receiver_type''" by (rule receiver_step_cases)
    then show ?thesis by (auto simp: class_steps_def Let_def strategies_def)
  qed
qed

lemma arity_base:
  assumes "apply_arity r (cs, base) = (ds, s)" "base \<in> set strategies"
    and "s = ''receiver_type_hint_inherited'' \<or> s = ''receiver_type_hint_inherited+arity''"
  shows "base = ''receiver_type_hint_inherited''"
proof -
  have "s = base \<or> s = base @ ''+arity''"
    using assms(1) by (auto simp: apply_arity_def Let_def split: if_splits)
  moreover have "list_all (\<lambda>b. \<forall>t \<in> {b, b @ ''+arity''}.
      t = ''receiver_type_hint_inherited'' \<or> t = ''receiver_type_hint_inherited+arity''
      \<longrightarrow> b = ''receiver_type_hint_inherited'') strategies" by code_simp
  ultimately show ?thesis using assms(2,3) by (force simp: list_all_iff)
qed

text \<open>A call is taken as inherited only when no class of the receiver's declared type that
  is visible from the file declares the method itself, and then it is bound to a declaration
  on an ancestor before which no nearer ancestor declares any: an override shadows what it
  overrides.\<close>

theorem inherited_shadowed:
  assumes "narrow_call ix h r = (cs, s)"
    and "s = ''receiver_type_hint_inherited'' \<or> s = ''receiver_type_hint_inherited+arity''"
  shows "let visible = narrow_classes_for_recv ix (nx_classes (rx_names ix) (r_recv_type r)) (src_file ix r);
             declared = (\<lambda>c. members (mi_methods (rx_members ix)) (c, r_target_name r))
         in (\<forall>c \<in> set visible. declared (s_id c) = [])
          \<and> (\<forall>n \<in> set cs. \<exists>c \<in> set visible. \<exists>us a vs.
               ancestor_chain h (s_id c) = us @ a # vs \<and> n \<in> set (declared a) \<and> (\<forall>u \<in> set us. declared u = []))"
proof -
  let ?visible = "narrow_classes_for_recv ix (nx_classes (rx_names ix) (r_recv_type r)) (src_file ix r)"
  let ?declared = "\<lambda>c. members (mi_methods (rx_members ix)) (c, r_target_name r)"
  let ?steps = "scope_steps ix r @ import_steps ix r @ receiver_steps ix h r"
  obtain hits base where fh: "first_hit ?steps (call_pool ix (r_target_name r), ''name'') = (hits, base)"
    by (cases "first_hit ?steps (call_pool ix (r_target_name r), ''name'')") auto
  then have ar: "apply_arity r (hits, base) = (cs, s)"
    using assms by (auto simp: narrow_call_def Let_def split: if_splits)
  have "(hits, base) \<in> set ?steps \<or> base = ''name''" 
    using first_hit_cases [OF fh] by (metis in_set_conv_decomp prod.inject)
  then have "base \<in> set strategies"
  proof
    assume "(hits, base) \<in> set ?steps"
    from step_strategies [OF this] show ?thesis by simp
  qed (simp add: strategies_def)
  from arity_base [OF ar this assms(2)] have base: "base = ''receiver_type_hint_inherited''" .
  with first_hit_cases [OF fh] obtain us vs where st: "?steps = us @ (hits, ''receiver_type_hint_inherited'') # vs"
    "\<forall>u \<in> set us. fst u = []" by auto
  note hs = hint_steps [OF st(1) refl]
  have own: "\<forall>c \<in> set ?visible. ?declared (s_id c) = []"
    using hs st(2) by force
  have "set cs \<subseteq> set hits" using apply_arity_subset [of r "(hits, base)"] ar by simp
  then have "\<exists>c \<in> set ?visible. n \<in> set (nearest_members (mi_methods (rx_members ix)) (r_target_name r) (ancestor_chain h (s_id c)))"
    if "n \<in> set cs" for n
    using that hs by (auto simp: inherited_members_def)
  then have "\<forall>n \<in> set cs. \<exists>c \<in> set ?visible. \<exists>us a vs. ancestor_chain h (s_id c) = us @ a # vs
      \<and> n \<in> set (?declared a) \<and> (\<forall>u \<in> set us. ?declared u = [])"
    by (meson nearest_members_first)
  with own show ?thesis by (simp add: Let_def)
qed

theorem inherited_shadowed_witness:
  "let m = (node_to_slim (mk_node ''m'' ''Function'' ''run'' ''p.A.run'' ''r''))\<lparr>s_kind := ''method''\<rparr>;
       ix = build_rindex [node_to_slim (mk_node ''A'' ''Class'' ''A'' ''p.A'' ''r''),
              node_to_slim (mk_node ''B'' ''Class'' ''B'' ''p.B'' ''r''), m]
              [\<lparr>se_type = ''CONTAINS'', se_src = ''A'', se_dst = ''m''\<rparr>] [];
       r = (mk_ref ''CALLS'' ''x'' ''run'')\<lparr>r_recv := ''b'', r_recv_type := ''B''\<rparr>
   in narrow_call ix [(''B'', [''A''])] r = ([m], ''receiver_type_hint_inherited'')
      \<and> members (mi_methods (rx_members ix)) (''B'', ''run'') = []"
proof -
  let ?m = "(node_to_slim (mk_node ''m'' ''Function'' ''run'' ''p.A.run'' ''r''))\<lparr>s_kind := ''method''\<rparr>"
  let ?b = "node_to_slim (mk_node ''B'' ''Class'' ''B'' ''p.B'' ''r'')"
  let ?ix = "build_rindex [node_to_slim (mk_node ''A'' ''Class'' ''A'' ''p.A'' ''r''), ?b, ?m]
              [\<lparr>se_type = ''CONTAINS'', se_src = ''A'', se_dst = ''m''\<rparr>] []"
  let ?r = "(mk_ref ''CALLS'' ''x'' ''run'')\<lparr>r_recv := ''b'', r_recv_type := ''B''\<rparr>"
  have n: "narrow_call ?ix [(''B'', [''A''])] ?r = ([?m], ''receiver_type_hint_inherited'')"
    by code_simp
  have v: "narrow_classes_for_recv ?ix (nx_classes (rx_names ?ix) (r_recv_type ?r)) (src_file ?ix ?r) = [?b]"
    by code_simp
  have b: "s_id ?b = ''B''" "r_target_name ?r = ''run''" by code_simp+
  from inherited_shadowed [OF n disjI1 [OF refl]]
  have "members (mi_methods (rx_members ?ix)) (''B'', ''run'') = []"
    unfolding Let_def v b by (simp only: b list.set ball_simps simp_thms)
  with n show ?thesis unfolding Let_def by blast
qed

end
