(* ===== verification/CatalogData.thy ===== *)
theory CatalogData
  imports Prelude
begin

text \<open>
  The data of the vulnerability catalog: the tables mined from FindSecBugs
  (\<open>graph_core/catalog/findsecbugs_java.py\<close>) and the curated entries
  (\<open>graph_core/catalog/__init__.py\<close>), in the order the dictionaries list them.  A method maps
  to the argument positions that carry its role; \<open>-1\<close> is any argument, \<open>-2\<close> the receiver.
\<close>

datatype role = SOURCE | SINK | SANITIZER

type_synonym method_args = "(string \<times> int list) list"

record entry =
  en_role :: role
  en_category :: string
  en_methods :: method_args

definition mk_entry :: "role \<Rightarrow> string \<Rightarrow> method_args \<Rightarrow> entry" where
  "mk_entry r c m = \<lparr>en_role = r, en_category = c, en_methods = m\<rparr>"

section \<open>Mined tables\<close>

definition fsb_sinks :: "(string \<times> method_args) list" where
  "fsb_sinks = [
     (''com.amazonaws.services.simpledb.model.SelectRequest'', [(''<init>'', [0]), (''withselectexpression'', [0])]),
     (''com.sun.jndi.ldap.LdapCtx'', [(''lookup'', [0]), (''search'', [0, 1])]),
     (''com.sun.org.apache.xpath.internal.XPathAPI'', [(''eval'', [1]), (''selectnodeiterator'', [1]), (''selectnodelist'', [1]), (''selectsinglenode'', [1])]),
     (''com.unboundid.ldap.sdk.LDAPConnection'', [(''search'', [0, 2])]),
     (''jakarta.activation.FileDataSource'', [(''<init>'', [0])]),
     (''java.io.File'', [(''<init>'', [0, 1]), (''createtempfile'', [0, 1, 2])]),
     (''java.io.FileInputStream'', [(''<init>'', [0])]),
     (''java.io.FileOutputStream'', [(''<init>'', [0])]),
     (''java.io.FileReader'', [(''<init>'', [0])]),
     (''java.io.FileWriter'', [(''<init>'', [0])]),
     (''java.io.PrintStream'', [(''format'', [0, 1]), (''printf'', [0, 1])]),
     (''java.io.PrintWriter'', [(''append'', [0]), (''format'', [0, 1, 2]), (''print'', [0]), (''printf'', [0, 1, 2]), (''println'', [0]), (''write'', [0])]),
     (''java.io.RandomAccessFile'', [(''<init>'', [0])]),
     (''java.lang.ProcessBuilder'', [(''<init>'', [0]), (''command'', [0])]),
     (''java.lang.Runtime'', [(''exec'', [0, 1])]),
     (''java.lang.String'', [(''format'', [0, 1])]),
     (''java.net.URL'', [(''getcontent'', [- 2]), (''openconnection'', [- 2, 0]), (''openstream'', [- 2])]),
     (''java.nio.file.Files'', [(''createtempdirectory'', [0, 1]), (''createtempfile'', [0, 1, 2])]),
     (''java.nio.file.Path'', [(''of'', [0, 1])]),
     (''java.nio.file.Paths'', [(''get'', [0, 1])]),
     (''java.sql.Connection'', [(''nativesql'', [0]), (''preparecall'', [0]), (''preparestatement'', [0])]),
     (''java.sql.PreparedStatement'', [(''addbatch'', [0]), (''execute'', [0]), (''executelargeupdate'', [0]), (''executequery'', [0]), (''executeupdate'', [0])]),
     (''java.sql.Statement'', [(''addbatch'', [0]), (''execute'', [0]), (''executelargeupdate'', [0]), (''executequery'', [0]), (''executeupdate'', [0])]),
     (''java.util.Formatter'', [(''format'', [0, 1])]),
     (''javax.activation.FileDataSource'', [(''<init>'', [0])]),
     (''javax.el.ExpressionFactory'', [(''createmethodexpression'', [1]), (''createvalueexpression'', [1])]),
     (''javax.mail.Message'', [(''addheader'', [0, 1]), (''setdescription'', [0]), (''setdisposition'', [0]), (''setsubject'', [0])]),
     (''javax.naming.Context'', [(''lookup'', [0])]),
     (''javax.naming.directory.DirContext'', [(''lookup'', [0]), (''search'', [0, 1])]),
     (''javax.naming.directory.InitialDirContext'', [(''lookup'', [0]), (''search'', [0, 1])]),
     (''javax.naming.event.EventDirContext'', [(''lookup'', [0]), (''search'', [0, 1])]),
     (''javax.naming.ldap.InitialLdapContext'', [(''lookup'', [0]), (''search'', [0, 1])]),
     (''javax.naming.ldap.LdapContext'', [(''lookup'', [0]), (''search'', [0, 1])]),
     (''javax.naming.ldap.LdapName'', [(''<init>'', [0])]),
     (''javax.script.ScriptEngine'', [(''eval'', [0])]),
     (''javax.servlet.RequestDispatcher'', [(''forward'', [- 2]), (''include'', [- 2])]),
     (''javax.servlet.ServletOutputStream'', [(''print'', [0]), (''println'', [0])]),
     (''javax.servlet.http.Cookie'', [(''<init>'', [0, 1]), (''setvalue'', [0])]),
     (''javax.servlet.http.HttpServletResponse'', [(''addheader'', [0, 1]), (''senderror'', [1]), (''setheader'', [0, 1]), (''setstatus'', [1])]),
     (''javax.servlet.http.HttpServletResponseWrapper'', [(''addheader'', [0, 1]), (''senderror'', [1]), (''setheader'', [0, 1]), (''setstatus'', [1])]),
     (''javax.servlet.http.HttpSession'', [(''putvalue'', [1]), (''setattribute'', [1])]),
     (''javax.servlet.jsp.JspWriter'', [(''append'', [0]), (''print'', [0]), (''println'', [0]), (''write'', [0])]),
     (''javax.xml.transform.TransformerFactory'', [(''newtransformer'', [0])]),
     (''javax.xml.xpath.XPath'', [(''compile'', [0]), (''evaluate'', [0])]),
     (''org.apache.commons.beanutils.BeanUtils'', [(''copyproperties'', [1]), (''populate'', [1])]),
     (''org.apache.commons.beanutils.BeanUtilsBean'', [(''populate'', [1])]),
     (''org.apache.commons.httpclient.methods.GetMethod'', [(''<init>'', [0]), (''setquerystring'', [0])]),
     (''org.apache.http.client.methods.HttpGet'', [(''<init>'', [0])]),
     (''org.apache.torque.util.BasePeer'', [(''executequery'', [0])]),
     (''org.apache.turbine.om.peer.BasePeer'', [(''executequery'', [0])]),
     (''org.apache.xml.security.utils.JDKXPathAPI'', [(''evaluate'', [2]), (''selectnodelist'', [2])]),
     (''org.apache.xml.security.utils.XPathAPI'', [(''evaluate'', [2]), (''selectnodelist'', [2])]),
     (''org.apache.xml.security.utils.XalanXPathAPI'', [(''evaluate'', [2]), (''selectnodelist'', [2])]),
     (''org.apache.xpath.XPathAPI'', [(''eval'', [1]), (''selectnodeiterator'', [1]), (''selectnodelist'', [1]), (''selectsinglenode'', [1])]),
     (''org.jboss.seam.log.Log'', [(''debug'', [0]), (''error'', [0]), (''fatal'', [0]), (''info'', [0]), (''trace'', [0]), (''warn'', [0])]),
     (''org.owasp.encoder.tag.ForHtmlTag'', [(''dotag'', [- 2])]),
     (''org.springframework.beans.BeanUtils'', [(''copyproperties'', [0])]),
     (''org.springframework.expression.ExpressionParser'', [(''parseexpression'', [0])]),
     (''org.springframework.expression.common.TemplateAwareExpressionParser'', [(''parseexpression'', [0])]),
     (''org.springframework.expression.spel.standard.SpelExpressionParser'', [(''parseexpression'', [0])]),
     (''org.springframework.jdbc.core.JdbcOperations'', [(''batchupdate'', [0]), (''execute'', [0]), (''query'', [0]), (''queryforint'', [0]), (''queryforlist'', [0]), (''queryforlong'', [0]), (''queryformap'', [0]), (''queryforobject'', [0]), (''queryforrowset'', [0]), (''update'', [0])]),
     (''org.springframework.jdbc.core.JdbcTemplate'', [(''batchupdate'', [0]), (''execute'', [0]), (''query'', [0]), (''queryforint'', [0]), (''queryforlist'', [0]), (''queryforlong'', [0]), (''queryformap'', [0]), (''queryforobject'', [0]), (''queryforrowset'', [0]), (''update'', [0])]),
     (''org.springframework.jdbc.core.PreparedStatementCreatorFactory'', [(''<init>'', [0]), (''newpreparedstatementcreator'', [0])]),
     (''org.springframework.ldap.core.LdapOperations'', [(''list'', [0]), (''lookup'', [0]), (''search'', [0, 1])]),
     (''org.springframework.ldap.core.LdapTemplate'', [(''list'', [0]), (''lookup'', [0]), (''search'', [0, 1])])]"

definition fsb_sink_category :: "(string \<times> string) list" where
  "fsb_sink_category = [
     (''com.amazonaws.services.simpledb.model.SelectRequest'', ''CWE-99/resource-injection''),
     (''com.sun.jndi.ldap.LdapCtx'', ''CWE-90/ldap-injection''),
     (''com.sun.org.apache.xpath.internal.XPathAPI'', ''CWE-643/xpath-injection''),
     (''com.unboundid.ldap.sdk.LDAPConnection'', ''CWE-90/ldap-injection''),
     (''jakarta.activation.FileDataSource'', ''CWE-22/path-traversal''),
     (''java.io.File'', ''CWE-22/path-traversal''),
     (''java.io.FileInputStream'', ''CWE-22/path-traversal''),
     (''java.io.FileOutputStream'', ''CWE-22/path-traversal''),
     (''java.io.FileReader'', ''CWE-22/path-traversal''),
     (''java.io.FileWriter'', ''CWE-22/path-traversal''),
     (''java.io.PrintStream'', ''CWE-134/format-string''),
     (''java.io.PrintWriter'', ''CWE-79/xss''),
     (''java.io.RandomAccessFile'', ''CWE-22/path-traversal''),
     (''java.lang.ProcessBuilder'', ''CWE-78/command-injection''),
     (''java.lang.Runtime'', ''CWE-78/command-injection''),
     (''java.lang.String'', ''CWE-134/format-string''),
     (''java.net.URL'', ''CWE-918/ssrf''),
     (''java.nio.file.Files'', ''CWE-22/path-traversal''),
     (''java.nio.file.Path'', ''CWE-22/path-traversal''),
     (''java.nio.file.Paths'', ''CWE-22/path-traversal''),
     (''java.sql.Connection'', ''CWE-89/sql-injection''),
     (''java.sql.PreparedStatement'', ''CWE-89/sql-injection''),
     (''java.sql.Statement'', ''CWE-89/sql-injection''),
     (''java.util.Formatter'', ''CWE-134/format-string''),
     (''javax.activation.FileDataSource'', ''CWE-22/path-traversal''),
     (''javax.el.ExpressionFactory'', ''CWE-917/el-injection''),
     (''javax.mail.Message'', ''CWE-93/smtp-header-injection''),
     (''javax.naming.Context'', ''CWE-90/ldap-injection''),
     (''javax.naming.directory.DirContext'', ''CWE-90/ldap-injection''),
     (''javax.naming.directory.InitialDirContext'', ''CWE-90/ldap-injection''),
     (''javax.naming.event.EventDirContext'', ''CWE-90/ldap-injection''),
     (''javax.naming.ldap.InitialLdapContext'', ''CWE-90/ldap-injection''),
     (''javax.naming.ldap.LdapContext'', ''CWE-90/ldap-injection''),
     (''javax.naming.ldap.LdapName'', ''CWE-90/ldap-injection''),
     (''javax.script.ScriptEngine'', ''CWE-94/code-injection''),
     (''javax.servlet.RequestDispatcher'', ''CWE-552/file-disclosure''),
     (''javax.servlet.ServletOutputStream'', ''CWE-79/xss''),
     (''javax.servlet.http.Cookie'', ''CWE-113/response-splitting''),
     (''javax.servlet.http.HttpServletResponse'', ''CWE-113/response-splitting''),
     (''javax.servlet.http.HttpServletResponseWrapper'', ''CWE-113/response-splitting''),
     (''javax.servlet.http.HttpSession'', ''CWE-501/trust-boundary''),
     (''javax.servlet.jsp.JspWriter'', ''CWE-79/xss''),
     (''javax.xml.transform.TransformerFactory'', ''CWE-611/xslt-injection''),
     (''javax.xml.xpath.XPath'', ''CWE-643/xpath-injection''),
     (''org.apache.commons.beanutils.BeanUtils'', ''CWE-915/bean-property-injection''),
     (''org.apache.commons.beanutils.BeanUtilsBean'', ''CWE-915/bean-property-injection''),
     (''org.apache.commons.httpclient.methods.GetMethod'', ''CWE-235/parameter-pollution''),
     (''org.apache.http.client.methods.HttpGet'', ''CWE-235/parameter-pollution''),
     (''org.apache.torque.util.BasePeer'', ''CWE-89/sql-injection''),
     (''org.apache.turbine.om.peer.BasePeer'', ''CWE-89/sql-injection''),
     (''org.apache.xml.security.utils.JDKXPathAPI'', ''CWE-643/xpath-injection''),
     (''org.apache.xml.security.utils.XPathAPI'', ''CWE-643/xpath-injection''),
     (''org.apache.xml.security.utils.XalanXPathAPI'', ''CWE-643/xpath-injection''),
     (''org.apache.xpath.XPathAPI'', ''CWE-643/xpath-injection''),
     (''org.jboss.seam.log.Log'', ''CWE-917/el-injection''),
     (''org.owasp.encoder.tag.ForHtmlTag'', ''CWE-79/xss''),
     (''org.springframework.beans.BeanUtils'', ''CWE-915/bean-property-injection''),
     (''org.springframework.expression.ExpressionParser'', ''CWE-917/el-injection''),
     (''org.springframework.expression.common.TemplateAwareExpressionParser'', ''CWE-917/el-injection''),
     (''org.springframework.expression.spel.standard.SpelExpressionParser'', ''CWE-917/el-injection''),
     (''org.springframework.jdbc.core.JdbcOperations'', ''CWE-89/sql-injection''),
     (''org.springframework.jdbc.core.JdbcTemplate'', ''CWE-89/sql-injection''),
     (''org.springframework.jdbc.core.PreparedStatementCreatorFactory'', ''CWE-89/sql-injection''),
     (''org.springframework.ldap.core.LdapOperations'', ''CWE-90/ldap-injection''),
     (''org.springframework.ldap.core.LdapTemplate'', ''CWE-90/ldap-injection'')]"

definition fsb_sources :: "(string \<times> method_args) list" where
  "fsb_sources = [
     (''java.awt.TextComponent'', [(''getselectedtext'', [- 2]), (''gettext'', [- 2])]),
     (''java.io.BufferedReader'', [(''readline'', [- 2])]),
     (''java.io.Console'', [(''readline'', [- 2])]),
     (''java.io.DataInputStream'', [(''readline'', [- 2]), (''readutf'', [- 2])]),
     (''java.io.LineNumberReader'', [(''readline'', [- 2])]),
     (''java.net.URL'', [(''getcontent'', [- 2])]),
     (''java.sql.ResultSet'', [(''getnstring'', [- 2]), (''getstring'', [- 2])]),
     (''javax.servlet.ServletRequest'', [(''getcontenttype'', [- 2]), (''getlocaladdr'', [- 2]), (''getlocalname'', [- 2]), (''getparameter'', [- 2]), (''getparametermap'', [- 2]), (''getparameternames'', [- 2]), (''getparametervalues'', [- 2]), (''getremotehost'', [- 2]), (''getservername'', [- 2])]),
     (''javax.servlet.ServletRequestWrapper'', [(''getcontenttype'', [- 2]), (''getlocalname'', [- 2]), (''getparameter'', [- 2]), (''getparametermap'', [- 2]), (''getparameternames'', [- 2]), (''getparametervalues'', [- 2]), (''getremotehost'', [- 2]), (''getservername'', [- 2])]),
     (''javax.servlet.http.Cookie'', [(''getcomment'', [- 2]), (''getdomain'', [- 2]), (''getname'', [- 2]), (''getpath'', [- 2]), (''getvalue'', [- 2])]),
     (''javax.servlet.http.HttpServletRequest'', [(''getcontenttype'', [- 2]), (''getcookies'', [- 2]), (''getheader'', [- 2]), (''getheadernames'', [- 2]), (''getheaders'', [- 2]), (''getlocaladdr'', [- 2]), (''getlocalname'', [- 2]), (''getparameter'', [- 2]), (''getparametermap'', [- 2]), (''getparameternames'', [- 2]), (''getparametervalues'', [- 2]), (''getpathinfo'', [- 2]), (''getpathtranslated'', [- 2]), (''getquerystring'', [- 2]), (''getremotehost'', [- 2]), (''getremoteuser'', [- 2]), (''getrequesturi'', [- 2]), (''getrequesturl'', [- 2]), (''getservername'', [- 2]), (''getservletpath'', [- 2])]),
     (''javax.servlet.http.HttpServletRequestWrapper'', [(''getcontenttype'', [- 2]), (''getcookies'', [- 2]), (''getheader'', [- 2]), (''getheadernames'', [- 2]), (''getheaders'', [- 2]), (''getlocalname'', [- 2]), (''getparameter'', [- 2]), (''getparametermap'', [- 2]), (''getparameternames'', [- 2]), (''getparametervalues'', [- 2]), (''getpathinfo'', [- 2]), (''getpathtranslated'', [- 2]), (''getquerystring'', [- 2]), (''getremotehost'', [- 2]), (''getremoteuser'', [- 2]), (''getrequesturi'', [- 2]), (''getrequesturl'', [- 2]), (''getservername'', [- 2]), (''getservletpath'', [- 2])]),
     (''javax.swing.text.JTextComponent'', [(''getselectedtext'', [- 2]), (''gettext'', [- 2])]),
     (''javax.ws.rs.core.MultivaluedMap'', [(''getfirst'', [- 2])]),
     (''org.apache.commons.fileupload.FileItem'', [(''getname'', [- 2])])]"

definition fsb_propagators :: "(string \<times> method_args) list" where
  "fsb_propagators = [
     (''flexjson.JSONSerializer'', [(''deepserialize'', [0]), (''serialize'', [0])]),
     (''java.io.File'', [(''createtempfile'', [0, 1, 2]), (''getcanonicalpath'', [- 2])]),
     (''java.lang.CharSequence'', [(''subsequence'', [- 2])]),
     (''java.lang.Character'', [(''getname'', [0]), (''tostring'', [- 2, 0])]),
     (''java.lang.Iterable'', [(''iterator'', [- 2])]),
     (''java.lang.Object'', [(''clone'', [- 2]), (''tostring'', [- 2])]),
     (''java.lang.String'', [(''concat'', [- 2, 0]), (''format'', [1, 2]), (''intern'', [- 2]), (''join'', [0, 1]), (''replace'', [- 2, 1]), (''replaceall'', [- 2, 1]), (''replacefirst'', [- 2, 1]), (''split'', [- 2]), (''subsequence'', [- 2]), (''substring'', [- 2]), (''tochararray'', [- 2]), (''tolowercase'', [- 2]), (''touppercase'', [- 2]), (''trim'', [- 2]), (''valueof'', [0])]),
     (''java.lang.StringBuffer'', [(''append'', [- 2, 0]), (''insert'', [- 2]), (''subsequence'', [- 2]), (''substring'', [- 2])]),
     (''java.lang.StringBuilder'', [(''append'', [- 2, 0]), (''insert'', [- 2]), (''subsequence'', [- 2]), (''substring'', [- 2])]),
     (''java.net.URI'', [(''create'', [0]), (''getauthority'', [- 2]), (''getfragment'', [- 2]), (''gethost'', [- 2]), (''getpath'', [- 2]), (''getquery'', [- 2]), (''getrawauthority'', [- 2]), (''getrawfragment'', [- 2]), (''getrawpath'', [- 2]), (''getrawquery'', [- 2]), (''getrawschemespecificpart'', [- 2]), (''getrawuserinfo'', [- 2]), (''getscheme'', [- 2]), (''getschemespecificpart'', [- 2]), (''getuserinfo'', [- 2]), (''normalize'', [- 2]), (''parseserverauthority'', [- 2]), (''relativize'', [- 2, 0]), (''resolve'', [- 2, 0]), (''toasciistring'', [- 2]), (''tostring'', [- 2]), (''tourl'', [- 2])]),
     (''java.net.URL'', [(''getauthority'', [- 2]), (''getfile'', [- 2]), (''gethost'', [- 2]), (''getpath'', [- 2]), (''getprotocol'', [- 2]), (''getquery'', [- 2]), (''getref'', [- 2]), (''getuserinfo'', [- 2]), (''toexternalform'', [- 2]), (''tostring'', [- 2]), (''touri'', [- 2])]),
     (''java.text.MessageFormat'', [(''format'', [0, 1])]),
     (''java.util.Arrays'', [(''tostring'', [0])]),
     (''java.util.Scanner'', [(''next'', [- 2]), (''nextline'', [- 2])]),
     (''java.util.StringTokenizer'', [(''nexttoken'', [- 2])]),
     (''javax.servlet.ServletContext'', [(''getnameddispatcher'', [0]), (''getrealpath'', [0]), (''getrequestdispatcher'', [0]), (''getresource'', [0]), (''getresourceasstream'', [0]), (''getresourcepaths'', [0])]),
     (''javax.servlet.ServletRequest'', [(''getrealpath'', [0]), (''getrequestdispatcher'', [0])]),
     (''javax.servlet.ServletRequestWrapper'', [(''getrealpath'', [0]), (''getrequestdispatcher'', [0])]),
     (''javax.servlet.http.HttpServletRequest'', [(''getrealpath'', [0]), (''getrequestdispatcher'', [0])]),
     (''javax.servlet.http.HttpServletRequestWrapper'', [(''getrealpath'', [0]), (''getrequestdispatcher'', [0])]),
     (''kotlin.text.Regex'', [(''replace'', [0])])]"

section \<open>Curated entries\<close>

definition curated_a :: "(string \<times> entry) list" where
  "curated_a = [
     (''java.sql.PreparedStatement'', mk_entry SANITIZER ''CWE-89/sql-injection'' [(''setstring'', [1]), (''setint'', [1]), (''setlong'', [1]), (''setdouble'', [1]), (''setfloat'', [1]), (''setboolean'', [1]), (''setdate'', [1]), (''settimestamp'', [1]), (''settime'', [1]), (''setbigdecimal'', [1]), (''setobject'', [1]), (''setnull'', [1]), (''setbytes'', [1])]),
     (''java.sql.CallableStatement'', mk_entry SANITIZER ''CWE-89/sql-injection'' [(''setstring'', [1]), (''setint'', [1]), (''setlong'', [1]), (''setobject'', [1])]),
     (''org.apache.commons.text.StringEscapeUtils'', mk_entry SANITIZER ''CWE-79/xss'' [(''escapehtml4'', [0]), (''escapehtml3'', [0]), (''escapexml10'', [0]), (''escapexml11'', [0]), (''escapeecmascript'', [0]), (''escapejson'', [0])]),
     (''org.apache.commons.lang.StringEscapeUtils'', mk_entry SANITIZER ''CWE-79/xss'' [(''escapehtml'', [0]), (''escapexml'', [0]), (''escapejavascript'', [0]), (''escapesql'', [0])]),
     (''org.owasp.esapi.Encoder'', mk_entry SANITIZER ''CWE-79/xss'' [(''encodeforhtml'', [0]), (''encodeforhtmlattribute'', [0]), (''encodeforjavascript'', [0]), (''encodeforurl'', [0]), (''encodeforsql'', [0]), (''encodeforldap'', [0])]),
     (''java.security.MessageDigest'', mk_entry SINK ''CWE-327/weak-crypto'' [(''getinstance'', [0])]),
     (''javax.crypto.Cipher'', mk_entry SINK ''CWE-327/weak-crypto'' [(''getinstance'', [0])]),
     (''java.util.Random'', mk_entry SINK ''CWE-330/weak-random'' [(''<init>'', [- 1]), (''nextint'', [- 1]), (''nextlong'', [- 1]), (''nextdouble'', [- 1]), (''nextfloat'', [- 1]), (''nextboolean'', [- 1]), (''nextbytes'', [- 1]), (''nextgaussian'', [- 1]), (''ints'', [- 1]), (''longs'', [- 1]), (''doubles'', [- 1])]),
     (''java.lang.Math'', mk_entry SINK ''CWE-330/weak-random'' [(''random'', [- 1])]),
     (''org.apache.commons.lang.math.JVMRandom'', mk_entry SINK ''CWE-330/weak-random'' [(''nextint'', [- 1]), (''nextlong'', [- 1]), (''nextdouble'', [- 1])]),
     (''org.apache.commons.lang3.RandomStringUtils'', mk_entry SINK ''CWE-330/weak-random'' [(''random'', [- 1]), (''randomalphabetic'', [- 1]), (''randomalphanumeric'', [- 1]), (''randomascii'', [- 1]), (''randomnumeric'', [- 1])]),
     (''javax.servlet.http.Cookie'', mk_entry SINK ''CWE-614/insecure-cookie'' [(''setsecure'', [0]), (''sethttponly'', [0])]),
     (''java.lang.Integer'', mk_entry SANITIZER ''CWE-20/type-coercion'' [(''parseint'', [0]), (''valueof'', [0]), (''parseunsignedint'', [0]), (''decode'', [0])]),
     (''java.lang.Long'', mk_entry SANITIZER ''CWE-20/type-coercion'' [(''parselong'', [0]), (''valueof'', [0]), (''parseunsignedlong'', [0]), (''decode'', [0])]),
     (''java.lang.Short'', mk_entry SANITIZER ''CWE-20/type-coercion'' [(''parseshort'', [0]), (''valueof'', [0]), (''decode'', [0])]),
     (''java.lang.Byte'', mk_entry SANITIZER ''CWE-20/type-coercion'' [(''parsebyte'', [0]), (''valueof'', [0]), (''decode'', [0])]),
     (''java.lang.Double'', mk_entry SANITIZER ''CWE-20/type-coercion'' [(''parsedouble'', [0]), (''valueof'', [0])]),
     (''java.lang.Float'', mk_entry SANITIZER ''CWE-20/type-coercion'' [(''parsefloat'', [0]), (''valueof'', [0])]),
     (''java.lang.Boolean'', mk_entry SANITIZER ''CWE-20/type-coercion'' [(''parseboolean'', [0]), (''valueof'', [0])]),
     (''java.util.UUID'', mk_entry SANITIZER ''CWE-20/type-coercion'' [(''fromstring'', [0])]),
     (''java.math.BigDecimal'', mk_entry SANITIZER ''CWE-20/type-coercion'' [(''<init>'', [0]), (''valueof'', [0])])]"

definition curated_b :: "(string \<times> entry) list" where
  "curated_b = [
     (''java.math.BigInteger'', mk_entry SANITIZER ''CWE-20/type-coercion'' [(''<init>'', [0]), (''valueof'', [0])]),
     (''java.net.URLEncoder'', mk_entry SANITIZER ''CWE-79/xss'' [(''encode'', [0])]),
     (''org.owasp.encoder.Encode'', mk_entry SANITIZER ''CWE-79/xss'' [(''forhtml'', [0]), (''forhtmlcontent'', [0]), (''forhtmlattribute'', [0]), (''forjavascript'', [0]), (''forjavascriptblock'', [0]), (''forjavascriptattribute'', [0]), (''foruricomponent'', [0]), (''forcssstring'', [0]), (''forxml'', [0]), (''forxmlcontent'', [0]), (''forxmlattribute'', [0])]),
     (''org.springframework.web.util.HtmlUtils'', mk_entry SANITIZER ''CWE-79/xss'' [(''htmlescape'', [0]), (''htmlescapedecimal'', [0]), (''htmlescapehex'', [0])]),
     (''com.mongodb.client.MongoCollection'', mk_entry SINK ''CWE-943/nosql-injection'' [(''find'', [0]), (''aggregate'', [0]), (''count'', [0]), (''countdocuments'', [0]), (''distinct'', [1]), (''deleteone'', [0]), (''deletemany'', [0]), (''updateone'', [0]), (''updatemany'', [0]), (''replaceone'', [0]), (''findoneanddelete'', [0]), (''findoneandreplace'', [0]), (''findoneandupdate'', [0]), (''insertone'', [0]), (''insertmany'', [0]), (''bulkwrite'', [0]), (''watch'', [0])]),
     (''com.mongodb.client.MongoDatabase'', mk_entry SINK ''CWE-943/nosql-injection'' [(''runcommand'', [0])]),
     (''com.mongodb.DBCollection'', mk_entry SINK ''CWE-943/nosql-injection'' [(''find'', [0]), (''findone'', [0]), (''count'', [0]), (''aggregate'', [0]), (''remove'', [0]), (''update'', [0]), (''updatemulti'', [0]), (''insert'', [0]), (''save'', [0]), (''group'', [0]), (''mapreduce'', [0]), (''distinct'', [1])]),
     (''org.bson.Document'', mk_entry SINK ''CWE-943/nosql-injection'' [(''parse'', [0])]),
     (''com.mongodb.BasicDBObject'', mk_entry SINK ''CWE-943/nosql-injection'' [(''parse'', [0])]),
     (''com.mongodb.client.model.Filters'', mk_entry SANITIZER ''CWE-943/nosql-injection'' [(''eq'', [1]), (''ne'', [1]), (''gt'', [1]), (''gte'', [1]), (''lt'', [1]), (''lte'', [1]), (''in'', [1]), (''nin'', [1]), (''all'', [1]), (''size'', [1]), (''exists'', [1])]),
     (''com.mongodb.client.model.Filters$where'', mk_entry SINK ''CWE-94/code-injection'' [(''where'', [0])]),
     (''java.sql.ResultSet'', mk_entry SOURCE ''CWE-20/untrusted-input'' [(''getstring'', [- 2]), (''getobject'', [- 2]), (''getnstring'', [- 2]), (''getcharacterstream'', [- 2]), (''getncharacterstream'', [- 2]), (''getclob'', [- 2]), (''getnclob'', [- 2]), (''getbytes'', [- 2]), (''getbinarystream'', [- 2]), (''getasciistream'', [- 2]), (''getblob'', [- 2]), (''getarray'', [- 2]), (''getsqlxml'', [- 2]), (''getref'', [- 2])]),
     (''java.io.ObjectInputStream'', mk_entry SINK ''CWE-502/unsafe-deserialization'' [(''readobject'', [- 1]), (''readunshared'', [- 1])])]"

end
