(* ===== verification/Catalog.thy ===== *)
theory Catalog
  imports CatalogData
begin

text \<open>
  How the vulnerability catalog is assembled and asked
  (\<open>graph_core/catalog/__init__.py\<close>).  A table maps an owner to an entry and the identity of
  the entry object, because the simple-name index compares entries by identity.  Dictionaries
  keep insertion order: \<open>AList.update\<close> replaces in place or appends, as a dict does.
\<close>

type_synonym table = "(string \<times> nat \<times> entry) list"

definition mined_sources :: table where
  "mined_sources = map (\<lambda>(i, o1, ms). (o1, i, mk_entry SOURCE ''CWE-20/untrusted-input'' ms))
     (enumerate 0 fsb_sources)"

definition sink_category :: "string \<Rightarrow> string" where
  "sink_category o1 = (case map_of fsb_sink_category o1 of None \<Rightarrow> ''CWE-unknown'' | Some c \<Rightarrow> c)"

definition mined_sinks :: table where
  "mined_sinks = map (\<lambda>(i, o1, ms). (o1, i, mk_entry SINK (sink_category o1) ms))
     (enumerate (length fsb_sources) fsb_sinks)"

definition curated :: table where
  "curated = map (\<lambda>(i, o1, e). (o1, i, e))
     (enumerate (length fsb_sources + length fsb_sinks) (curated_a @ curated_b))"

definition curated_wins :: "string set" where
  "curated_wins = {''java.sql.PreparedStatement''}"

definition dict_update :: "table \<Rightarrow> table \<Rightarrow> table" where
  "dict_update new d = fold (\<lambda>(k, v) d. AList.update k v d) new d"

definition add_curated :: "string set \<Rightarrow> table \<Rightarrow> table \<Rightarrow> table" where
  "add_curated wins cs d = fold (\<lambda>(k, v) d.
     if map_of d k \<noteq> None \<and> k \<notin> wins then d else AList.update k v d) cs d"

definition jakarta_name :: "string \<Rightarrow> string" where
  "jakarta_name o1 = ''jakarta.'' @ drop (length ''javax.'') o1"

definition add_aliases :: "table \<Rightarrow> table \<Rightarrow> table" where
  "add_aliases items d = fold (\<lambda>(k, v) d.
     if py_startswith k ''javax.'' \<and> map_of d (jakarta_name k) = None
     then AList.update (jakarta_name k) v d else d) items d"

definition merge_tables :: "table \<Rightarrow> table \<Rightarrow> table" where
  "merge_tables mined cs = (let d = add_curated curated_wins cs mined in add_aliases d d)"

definition JAVA :: table where
  "JAVA = merge_tables (dict_update mined_sinks mined_sources) curated"

section \<open>Simple names\<close>

definition simple_of :: "string \<Rightarrow> string" where
  "simple_of o1 = after_last (CHR ''.'') o1"

definition owners_by_simple :: "table \<Rightarrow> (string \<times> string list) list" where
  "owners_by_simple t = fold (\<lambda>(o1, v) g. group_add (simple_of o1) o1 g) t []"

definition build_simple_index :: "table \<Rightarrow> (string \<times> nat \<times> entry) list" where
  "build_simple_index t = concat (map (\<lambda>(simple, owners).
     if length (remdups (map (\<lambda>o1. fst (the (map_of t o1))) owners)) = 1
     then [(simple, the (map_of t (hd owners)))] else []) (owners_by_simple t))"

section \<open>Questions\<close>

definition lookup_entry :: "table \<Rightarrow> string \<Rightarrow> entry option" where
  "lookup_entry t owner = (case map_of t owner of Some (i, e) \<Rightarrow> Some e
     | None \<Rightarrow> map_option snd (map_of (build_simple_index t) (simple_of owner)))"

definition classify_in :: "table \<Rightarrow> string \<Rightarrow> string \<Rightarrow> (entry \<times> int list) option" where
  "classify_in t owner meth =
     (if owner = [] \<or> meth = [] then None
      else case lookup_entry t owner of None \<Rightarrow> None
      | Some e \<Rightarrow> map_option (\<lambda>args. (e, args)) (map_of (en_methods e) (py_lower meth)))"

definition classify_taint :: "string \<Rightarrow> string \<Rightarrow> (entry \<times> int list) option" where
  "classify_taint owner meth = classify_in JAVA owner meth"

definition propagators_simple :: "string \<Rightarrow> method_args option" where
  "propagators_simple s = (case filter (\<lambda>(o1, _). simple_of o1 = s) fsb_propagators of
     [(o1, ms)] \<Rightarrow> Some ms | _ \<Rightarrow> None)"

definition classify_propagator :: "string \<Rightarrow> string \<Rightarrow> int list option" where
  "classify_propagator owner meth =
     (if owner = [] \<or> meth = [] then None
      else case (case map_of fsb_propagators owner of
                   Some t \<Rightarrow> if t = [] then propagators_simple (simple_of owner) else Some t
                 | None \<Rightarrow> propagators_simple (simple_of owner)) of
        None \<Rightarrow> None
      | Some t \<Rightarrow> if t = [] then None else map_of t (py_lower meth))"

definition all_categories :: "string set" where
  "all_categories = set (map (\<lambda>(o1, i, e). en_category e) JAVA)"

definition high_volume_categories :: "string set" where
  "high_volume_categories = {''CWE-134/format-string'', ''CWE-117/log-injection''}"

definition recommended_categories :: "string set" where
  "recommended_categories = all_categories - high_volume_categories"

definition inventory_noise_prefixes :: "string list" where
  "inventory_noise_prefixes = [
     ''java.lang.String'',
     ''java.lang.Integer'', ''java.lang.Long'', ''java.lang.Double'',
     ''java.lang.Float'', ''java.lang.Short'', ''java.lang.Byte'',
     ''java.lang.Boolean'', ''java.lang.Character'', ''java.lang.Number'',
     ''java.lang.Math'', ''java.lang.Object'', ''java.lang.Enum'',
     ''java.lang.Comparable'', ''java.lang.Iterable'', ''java.lang.CharSequence'',
     ''java.util.Vector'', ''java.util.Hashtable'', ''java.util.ArrayList'',
     ''java.util.HashMap'', ''java.util.LinkedList'', ''java.util.LinkedHashMap'',
     ''java.util.HashSet'', ''java.util.TreeMap'', ''java.util.TreeSet'',
     ''java.util.Iterator'', ''java.util.Enumeration'', ''java.util.Collection'',
     ''java.util.List'', ''java.util.Map'', ''java.util.Set'', ''java.util.Arrays'',
     ''java.util.Collections'', ''java.util.Objects'', ''java.util.Optional'',
     ''java.util.StringTokenizer'', ''java.util.stream'',
     ''java.math.BigDecimal'', ''java.math.BigInteger'']"

definition is_inventory_noise :: "string \<Rightarrow> bool" where
  "is_inventory_noise owner = list_ex (py_startswith owner) inventory_noise_prefixes"

section \<open>What the merge yields\<close>

lemma dict_update_lookup:
  "map_of (dict_update new d) k = (case map_of (rev new) k of Some v \<Rightarrow> Some v | None \<Rightarrow> map_of d k)"
proof (induction new arbitrary: d)
  case (Cons kv new)
  then show ?case
    by (cases kv) (auto simp: dict_update_def update_conv' map_of_append map_add_def split: option.splits)
qed (simp add: dict_update_def)

lemma add_curated_lookup:
  "distinct (map fst cs) \<Longrightarrow>
   map_of (add_curated wins cs d) k =
     (case map_of cs k of None \<Rightarrow> map_of d k
      | Some v \<Rightarrow> if map_of d k \<noteq> None \<and> k \<notin> wins then map_of d k else Some v)"
proof (induction cs arbitrary: d)
  case (Cons kv cs)
  obtain k1 v1 where kv: "kv = (k1, v1)" by (cases kv)
  have none: "map_of cs k1 = None" using Cons.prems kv by (simp add: map_of_eq_None_iff)
  let ?d1 = "if map_of d k1 \<noteq> None \<and> k1 \<notin> wins then d else AList.update k1 v1 d"
  have "map_of (add_curated wins (kv # cs) d) k = map_of (add_curated wins cs ?d1) k"
    by (simp add: add_curated_def kv del: not_None_eq)
  also have "\<dots> = (case map_of cs k of None \<Rightarrow> map_of ?d1 k
      | Some v \<Rightarrow> if map_of ?d1 k \<noteq> None \<and> k \<notin> wins then map_of ?d1 k else Some v)"
    by (rule Cons.IH) (use Cons.prems in simp)
  finally show ?case
    using none kv by (auto simp: update_conv' split: option.splits if_splits)
qed (simp add: add_curated_def)

lemma add_aliases_keeps:
  "map_of d k = Some v \<Longrightarrow> map_of (add_aliases items d) k = Some v"
proof (induction items arbitrary: d)
  case (Cons kv items)
  obtain k1 v1 where kv: "kv = (k1, v1)" by (cases kv)
  have "add_aliases (kv # items) d = add_aliases items
      (if py_startswith k1 ''javax.'' \<and> map_of d (jakarta_name k1) = None
       then AList.update (jakarta_name k1) v1 d else d)"
    by (simp add: add_aliases_def kv)
  moreover have "map_of (if py_startswith k1 ''javax.'' \<and> map_of d (jakarta_name k1) = None
       then AList.update (jakarta_name k1) v1 d else d) k = Some v"
    using Cons.prems by (auto simp: update_conv')
  ultimately show ?case using Cons.IH by presburger
qed (simp add: add_aliases_def)

lemma owners_look: "group_look (owners_by_simple t) s = map fst (filter (\<lambda>x. simple_of (fst x) = s) t)"
  using grp.look_build [of "\<lambda>_. True" "\<lambda>x. simple_of (fst x)" fst t s]
  by (simp add: owners_by_simple_def case_prod_beta')

lemma owners_distinct: "distinct (map fst (owners_by_simple t))"
proof -
  have "distinct (map fst g) \<Longrightarrow> distinct (map fst (fold (\<lambda>(o1, v) g. group_add (simple_of o1) o1 g) t g))" for g
    by (induction t arbitrary: g) (auto intro: group_add_distinct)
  then show ?thesis by (simp add: owners_by_simple_def)
qed

lemma simple_index_sound:
  assumes "map_of (build_simple_index t) s = Some v"
  shows "\<exists>o1. simple_of o1 = s \<and> map_of t o1 = Some v"
    and "\<forall>o2. simple_of o2 = s \<and> map_of t o2 \<noteq> None \<longrightarrow> map_option fst (map_of t o2) = Some (fst v)"
proof -
  from map_of_SomeD [OF assms] obtain owners where g: "(s, owners) \<in> set (owners_by_simple t)"
    and one: "length (remdups (map (\<lambda>o1. fst (the (map_of t o1))) owners)) = 1"
    and v: "v = the (map_of t (hd owners))"
    by (auto simp: build_simple_index_def split: if_splits)
  have owners: "owners = map fst (filter (\<lambda>x. simple_of (fst x) = s) t)"
    using g owners_distinct [of t] owners_look [of t s] by (simp add: group_look_def)
  from one obtain u where u: "set (map (\<lambda>o1. fst (the (map_of t o1))) owners) = {u}"
    by (metis One_nat_def length_0_conv length_Suc_conv list.set(1) list.simps(15) set_remdups)
  then have ne: "owners \<noteq> []" by auto
  then have h: "hd owners \<in> set owners" by simp
  then obtain w where w: "(hd owners, w) \<in> set t" and hs1: "simple_of (hd owners) = s"
    unfolding owners by force
  then have "map_of t (hd owners) \<noteq> None" by (metis weak_map_of_SomeI option.discI)
  then have hs: "simple_of (hd owners) = s" "map_of t (hd owners) = Some v"
    using v hs1 by auto
  then show "\<exists>o1. simple_of o1 = s \<and> map_of t o1 = Some v" by blast
  have "fst v = u" using u h v by auto
  moreover have "map_option fst (map_of t o2) = Some u" if "simple_of o2 = s" "map_of t o2 \<noteq> None" for o2
  proof -
    from that obtain w where w: "map_of t o2 = Some w" by auto
    then have "(o2, w) \<in> set t" by (rule map_of_SomeD)
    with that have "o2 \<in> set owners" by (force simp: owners)
    with u w show ?thesis by (metis (no_types, lifting) image_eqI list.set_map option.map(2) option.sel singletonD)
  qed
  ultimately show "\<forall>o2. simple_of o2 = s \<and> map_of t o2 \<noteq> None \<longrightarrow> map_option fst (map_of t o2) = Some (fst v)"
    by blast
qed

text \<open>The catalog answers by owner first.  An answer is the entry of that very owner or,
  for an owner it does not list, the one entry object that every listed owner of the same
  simple name shares; an ambiguous simple name is never resolved, and the argument
  positions are those the entry gives for the method.\<close>

theorem classify_taint_unambiguous:
  assumes "classify_taint owner meth = Some (e, args)"
  shows "map_of (en_methods e) (py_lower meth) = Some args
    \<and> ((\<exists>i. map_of JAVA owner = Some (i, e))
       \<or> map_of JAVA owner = None
         \<and> (\<exists>i. (\<exists>o1. simple_of o1 = simple_of owner \<and> map_of JAVA o1 = Some (i, e))
              \<and> (\<forall>o2. simple_of o2 = simple_of owner \<and> map_of JAVA o2 \<noteq> None
                    \<longrightarrow> map_option fst (map_of JAVA o2) = Some i)))"
proof -
  from assms have e: "lookup_entry JAVA owner = Some e" and args: "map_of (en_methods e) (py_lower meth) = Some args"
    by (auto simp: classify_taint_def classify_in_def split: if_splits option.splits)
  show ?thesis
  proof (cases "map_of JAVA owner")
    case (Some ie)
    with e args show ?thesis by (cases ie) (auto simp: lookup_entry_def)
  next
    case None
    with e obtain i where "map_of (build_simple_index JAVA) (simple_of owner) = Some (i, e)"
      by (auto simp: lookup_entry_def)
    from simple_index_sound [OF this] None args show ?thesis by auto
  qed
qed

section \<open>Evaluating the tables\<close>

lemma map_of_enumerate:
  "map_of (map (\<lambda>(i, o1, ms). (o1, i, f o1 ms)) (enumerate n xs)) k \<noteq> None \<longleftrightarrow> map_of xs k \<noteq> None"
  by (induction xs arbitrary: n) auto

lemma map_of_enumerate_Some:
  "map_of xs k = Some ms \<Longrightarrow>
   \<exists>i. map_of (map (\<lambda>(i, o1, ms). (o1, i, f o1 ms)) (enumerate n xs)) k = Some (i, f k ms)"
  by (induction xs arbitrary: n) auto

lemma mined_entry:
  "map_of fsb_sources k = Some ms \<Longrightarrow>
     \<exists>i. map_of mined_sources k = Some (i, mk_entry SOURCE ''CWE-20/untrusted-input'' ms)"
  "map_of fsb_sinks k = Some ms \<Longrightarrow> \<exists>i. map_of mined_sinks k = Some (i, mk_entry SINK (sink_category k) ms)"
  unfolding mined_sources_def mined_sinks_def
  using map_of_enumerate_Some [of fsb_sources k ms "\<lambda>o1. mk_entry SOURCE ''CWE-20/untrusted-input''" 0]
    map_of_enumerate_Some [of fsb_sinks k ms "\<lambda>o1. mk_entry SINK (sink_category o1)" "length fsb_sources"]
  by auto

lemma mined_none: "map_of fsb_sinks k = None \<Longrightarrow> map_of mined_sinks k = None"
  unfolding mined_sinks_def
  by (rule ccontr) (simp only: not_not map_of_enumerate, blast)

lemma enumerate_keys:
  "map fst (map (\<lambda>(i, o1, v). (o1, f i o1 v)) (enumerate n xs)) = map fst xs"
  by (induction xs arbitrary: n) auto

lemma curated_keys: "map fst curated = map fst (curated_a @ curated_b)"
  unfolding curated_def by (rule enumerate_keys [of "\<lambda>i o1 e. (i, e)"])

lemma map_of_rev: "distinct (map fst xs) \<Longrightarrow> map_of (rev xs) = map_of xs"
  by (rule map_of_inject_set [THEN iffD2]) (simp_all add: rev_map [symmetric])

lemma curated_distinct: "distinct (map fst curated)"
  unfolding curated_keys by (simp add: curated_a_def curated_b_def)

lemma fsb_sinks_distinct: "distinct (map fst fsb_sinks)"
  by (simp add: fsb_sinks_def)

lemma mined_sinks_distinct: "distinct (map fst mined_sinks)"
  unfolding mined_sinks_def enumerate_keys [of "\<lambda>i o1 ms. (i, mk_entry SINK (sink_category o1) ms)"]
  by (rule fsb_sinks_distinct)

lemma JAVA_mined:
  assumes "map_of (dict_update mined_sinks mined_sources) k = Some v" "k \<notin> curated_wins"
  shows "map_of JAVA k = Some v"
proof -
  have "map_of (add_curated curated_wins curated (dict_update mined_sinks mined_sources)) k = Some v"
    using assms by (simp add: add_curated_lookup [OF curated_distinct] split: option.splits)
  then show ?thesis unfolding JAVA_def merge_tables_def Let_def by (rule add_aliases_keeps)
qed

lemma JAVA_sink:
  assumes "map_of fsb_sinks k = Some ms" "k \<notin> curated_wins"
  shows "\<exists>i. map_of JAVA k = Some (i, mk_entry SINK (sink_category k) ms)"
proof -
  from mined_entry(2) [OF assms(1)] obtain i where "map_of mined_sinks k = Some (i, mk_entry SINK (sink_category k) ms)" ..
  then have "map_of (dict_update mined_sinks mined_sources) k = Some (i, mk_entry SINK (sink_category k) ms)"
    by (simp add: dict_update_lookup map_of_rev [OF mined_sinks_distinct])
  from JAVA_mined [OF this assms(2)] show ?thesis by blast
qed

lemma JAVA_source:
  assumes "map_of fsb_sources k = Some ms" "map_of fsb_sinks k = None" "k \<notin> curated_wins"
  shows "\<exists>i. map_of JAVA k = Some (i, mk_entry SOURCE ''CWE-20/untrusted-input'' ms)"
proof -
  from mined_entry(1) [OF assms(1)] obtain i where "map_of mined_sources k = Some (i, mk_entry SOURCE ''CWE-20/untrusted-input'' ms)" ..
  then have "map_of (dict_update mined_sinks mined_sources) k = Some (i, mk_entry SOURCE ''CWE-20/untrusted-input'' ms)"
    by (simp only: dict_update_lookup map_of_rev [OF mined_sinks_distinct] mined_none [OF assms(2)] option.case)
  from JAVA_mined [OF this assms(3)] show ?thesis by blast
qed

lemma classify_listed:
  "map_of JAVA owner = Some (i, e) \<Longrightarrow> owner \<noteq> [] \<Longrightarrow> meth \<noteq> [] \<Longrightarrow>
   classify_taint owner meth = map_option (\<lambda>args. (e, args)) (map_of (en_methods e) (py_lower meth))"
  by (simp add: classify_taint_def classify_in_def lookup_entry_def)

lemma lower_names:
  "py_lower ''exec'' = ''exec''" "py_lower ''getValue'' = ''getvalue''"
  "py_lower ''getObject'' = ''getobject''" "py_lower ''getString'' = ''getstring''"
  by code_simp+

theorem classify_taint_unambiguous_witness:
  "\<exists>e args i. classify_taint ''java.lang.Runtime'' ''exec'' = Some (e, args) \<and> map_of JAVA ''java.lang.Runtime'' = Some (i, e)"
proof -
  obtain i where j: "map_of JAVA ''java.lang.Runtime'' = Some (i, mk_entry SINK (sink_category ''java.lang.Runtime'') [(''exec'', [0, 1])])"
    using JAVA_sink [of "''java.lang.Runtime''" "[(''exec'', [0, 1])]"] by (auto simp: fsb_sinks_def curated_wins_def)
  have "classify_taint ''java.lang.Runtime'' ''exec'' =
      Some (mk_entry SINK (sink_category ''java.lang.Runtime'') [(''exec'', [0, 1])], [0, 1])"
    by (simp add: classify_listed [OF j] mk_entry_def lower_names)
  from classify_taint_unambiguous [OF this] j this show ?thesis by auto
qed

text \<open>Two mined or curated roles do not survive the merge, because one owner carries one
  entry.  The cookie getters that the mined source table lists are no sources in the merged
  catalog (the sink entry of the same owner replaces them), and of the curated second-order
  \<open>ResultSet\<close> getters only the two mined ones remain.\<close>

theorem merge_loses_sources:
  "map_of fsb_sources ''javax.servlet.http.Cookie'' \<noteq> None
   \<and> classify_taint ''javax.servlet.http.Cookie'' ''getValue'' = None
   \<and> map_of (en_methods (the (map_of curated_b ''java.sql.ResultSet''))) ''getobject'' \<noteq> None
   \<and> classify_taint ''java.sql.ResultSet'' ''getObject'' = None
   \<and> classify_taint ''java.sql.ResultSet'' ''getString'' \<noteq> None"
proof -
  obtain i where c: "map_of JAVA ''javax.servlet.http.Cookie'' =
      Some (i, mk_entry SINK (sink_category ''javax.servlet.http.Cookie'') [(''<init>'', [0, 1]), (''setvalue'', [0])])"
    using JAVA_sink [of "''javax.servlet.http.Cookie''" "[(''<init>'', [0, 1]), (''setvalue'', [0])]"]
    by (auto simp: fsb_sinks_def curated_wins_def)
  obtain j where r: "map_of JAVA ''java.sql.ResultSet'' =
      Some (j, mk_entry SOURCE ''CWE-20/untrusted-input'' [(''getnstring'', [-2]), (''getstring'', [-2])])"
    using JAVA_source [of "''java.sql.ResultSet''" "[(''getnstring'', [-2]), (''getstring'', [-2])]"]
    by (auto simp: fsb_sinks_def fsb_sources_def curated_wins_def)
  show ?thesis
    by (simp add: classify_listed [OF c] classify_listed [OF r] mk_entry_def lower_names)
      (simp add: fsb_sources_def curated_b_def mk_entry_def)
qed

end
