(* ===== verification/ExternalApi.thy ===== *)
theory ExternalApi
  imports Catalog
begin

text \<open>
  Classification of calls that leave the repository (\<open>graph_core/external_api.py\<close>): the
  resource vocabulary, reflection, and the catalog behind them.  The enabled catalog
  categories, read once from the environment, are an argument; the memoisation is not
  modelled, since both functions are pure.
\<close>

section \<open>Known types and methods\<close>

definition jdbc_types :: "string list" where
  "jdbc_types = [
     ''java.sql.Connection'', ''java.sql.Statement'', ''java.sql.PreparedStatement'',
     ''java.sql.CallableStatement'', ''java.sql.ResultSet'', ''java.sql.DataSource'',
     ''javax.sql.DataSource'', ''javax.sql.PooledConnection'', ''java.sql.DriverManager'']"

definition jpa_types :: "string list" where
  "jpa_types = [
     ''javax.persistence.EntityManager'', ''jakarta.persistence.EntityManager'',
     ''javax.persistence.EntityManagerFactory'', ''jakarta.persistence.EntityManagerFactory'',
     ''javax.persistence.Query'', ''jakarta.persistence.Query'',
     ''javax.persistence.TypedQuery'', ''jakarta.persistence.TypedQuery'',
     ''org.hibernate.Session'', ''org.hibernate.SessionFactory'', ''org.hibernate.Transaction'']"

definition spring_types :: "string list" where
  "spring_types = [
     ''org.springframework.jdbc.core.JdbcTemplate'',
     ''org.springframework.jdbc.core.namedparam.NamedParameterJdbcTemplate'',
     ''org.springframework.transaction.support.TransactionTemplate'']"

definition mybatis_types :: "string list" where
  "mybatis_types = [
     ''org.apache.ibatis.session.SqlSession'',
     ''org.apache.ibatis.session.SqlSessionFactory'']"

definition db_types :: "string list" where
  "db_types = jdbc_types @ jpa_types @ spring_types @ mybatis_types"

definition db_simple_names :: "string list" where
  "db_simple_names = map simple_of db_types"

definition connection_types :: "string list" where
  "connection_types = [
     ''java.sql.Connection'', ''javax.sql.PooledConnection'',
     ''org.hibernate.Session'',
     ''javax.persistence.EntityManager'', ''jakarta.persistence.EntityManager'',
     ''org.apache.ibatis.session.SqlSession'']"

definition connection_simple_names :: "string list" where
  "connection_simple_names = map simple_of connection_types"

definition acquire_methods :: "string list" where
  "acquire_methods = [
     ''getconnection'', ''createstatement'', ''preparestatement'', ''preparecall'',
     ''getsession'', ''opensession'', ''createentitymanager'', ''opensqlsession'',
     ''getcurrentsession'']"

definition execute_methods :: "string list" where
  "execute_methods = [
     ''executequery'', ''executeupdate'', ''execute'', ''executebatch'',
     ''executelargeupdate'', ''query'', ''queryforobject'', ''queryforlist'', ''update'',
     ''createquery'', ''createnativequery'', ''getresultlist'', ''getsingleresult'',
     ''selectone'', ''selectlist'', ''insert'', ''delete'', ''persist'', ''merge'', ''remove'',
     ''save'', ''find'']"

definition release_methods :: "string list" where
  "release_methods = [''close'', ''commit'', ''rollback'', ''setautocommit'', ''releasesavepoint'']"

definition reflect_types :: "string list" where
  "reflect_types = [
     ''java.lang.reflect.Method'',
     ''java.lang.reflect.Constructor'',
     ''java.lang.reflect.Field'']"

definition reflect_methods_by_type :: "(string \<times> string list) list" where
  "reflect_methods_by_type = [
     (''java.lang.Class'', [
       ''forname'', ''newinstance'',
       ''getmethod'', ''getmethods'', ''getdeclaredmethod'', ''getdeclaredmethods'',
       ''getconstructor'', ''getconstructors'',
       ''getdeclaredconstructor'', ''getdeclaredconstructors'',
       ''getfield'', ''getfields'', ''getdeclaredfield'', ''getdeclaredfields'']),
     (''java.lang.ClassLoader'', [''loadclass''])]"

section \<open>Classification\<close>

definition classify_reflection :: "string \<Rightarrow> string \<Rightarrow> string" where
  "classify_reflection owner meth =
     (if owner \<in> set reflect_types then ''reflection''
      else case map_of reflect_methods_by_type owner of
        None \<Rightarrow> []
      | Some allowed \<Rightarrow> if py_lower meth \<in> set allowed then ''reflection'' else [])"

definition role_to_kind :: "role \<Rightarrow> string" where
  "role_to_kind r = (case r of SOURCE \<Rightarrow> ''taint_source'' | SINK \<Rightarrow> ''taint_sink''
     | SANITIZER \<Rightarrow> ''taint_sanitizer'')"

definition category_to_kind :: "string \<Rightarrow> string option" where
  "category_to_kind c = map_of [
     (''CWE-78/command-injection'', ''exec''),
     (''CWE-94/code-injection'', ''exec''),
     (''CWE-22/path-traversal'', ''file_write''),
     (''CWE-502/unsafe-deserialization'', ''deserialize''),
     (''CWE-79/xss'', ''response''),
     (''CWE-113/response-splitting'', ''response''),
     (''CWE-89/sql-injection'', ''db_execute''),
     (''CWE-943/nosql-injection'', ''db_execute'')] c"

definition enabled_categories :: "string \<Rightarrow> string set" where
  "enabled_categories raw =
     (let low = py_lower raw in
      if low \<in> {[], ''off'', ''0'', ''false'', ''no''} then {}
      else if low = ''all'' then all_categories
      else if low = ''recommended'' then recommended_categories
      else set (filter (\<lambda>p. p \<noteq> []) (map py_strip (split_on (CHR '','') raw))))"

definition classify_catalogued :: "string set \<Rightarrow> string \<Rightarrow> string \<Rightarrow> string" where
  "classify_catalogued enabled owner meth =
     (if enabled = {} then []
      else case classify_taint owner meth of
        None \<Rightarrow> []
      | Some (e, args) \<Rightarrow>
          if en_category e \<notin> enabled then []
          else if en_role e = SINK
          then (case category_to_kind (en_category e) of Some k \<Rightarrow> k | None \<Rightarrow> ''taint_sink'')
          else role_to_kind (en_role e))"

definition is_db_type :: "string \<Rightarrow> bool" where
  "is_db_type t = (t \<in> set db_types \<or> simple_of t \<in> set db_simple_names)"

definition is_connection_type :: "string \<Rightarrow> bool" where
  "is_connection_type t = (t \<in> set connection_types \<or> simple_of t \<in> set connection_simple_names)"

definition classify_call :: "string set \<Rightarrow> string \<Rightarrow> string \<Rightarrow> string \<Rightarrow> string" where
  "classify_call enabled owner meth return_type =
     (if return_type \<noteq> [] \<and> is_connection_type return_type then ''db_acquire''
      else
        let reflect = classify_reflection owner meth in
        if reflect \<noteq> [] then reflect
        else if owner \<noteq> [] \<and> is_db_type owner then
          let nm = py_lower meth in
          if nm \<in> set acquire_methods then ''db_acquire''
          else if nm \<in> set release_methods then ''db_release''
          else if nm \<in> set execute_methods then ''db_execute''
          else
            let catalogued = classify_catalogued enabled owner meth in
            if catalogued \<noteq> [] then catalogued else ''db_other''
        else classify_catalogued enabled owner meth)"

definition classify_external ::
  "string set \<Rightarrow> string \<Rightarrow> string \<Rightarrow> string \<Rightarrow> bool \<Rightarrow> string" where
  "classify_external enabled owner meth return_type include_other =
     (let kind = classify_call enabled owner meth return_type in
      if kind \<noteq> [] then kind else if include_other then ''other'' else [])"

definition external_key :: "string \<Rightarrow> string \<Rightarrow> string" where
  "external_key owner meth = owner @ ''#'' @ meth"

definition external_id ::
  "(string \<Rightarrow> string \<Rightarrow> string \<Rightarrow> string) \<Rightarrow> string \<Rightarrow> string \<Rightarrow> string" where
  "external_id make_id owner meth = make_id ''external'' (external_key owner meth) ''external''"

definition external_display :: "string \<Rightarrow> string \<Rightarrow> string" where
  "external_display owner meth = simple_of owner @ ''.'' @ meth"

section \<open>The type decides before the method\<close>

lemma catalogued_off [simp]: "classify_catalogued {} owner meth = []"
  by (simp add: classify_catalogued_def)

text \<open>The owner type decides before the method name.  With the catalog off, a call is
  recorded as an acquire only when it returns a connection or is an acquiring method of a
  database type, as a release or execute only on a database type, as reflection only on a
  reflective type, and every other call on a type that is none of these is dropped.\<close>

theorem classify_call_type_first:
  "(classify_call {} owner meth rt = ''db_release''
      \<longrightarrow> is_db_type owner \<and> py_lower meth \<in> set release_methods)
   \<and> (classify_call {} owner meth rt = ''db_execute''
      \<longrightarrow> is_db_type owner \<and> py_lower meth \<in> set execute_methods)
   \<and> (classify_call {} owner meth rt = ''db_acquire''
      \<longrightarrow> (rt \<noteq> [] \<and> is_connection_type rt) \<or> is_db_type owner \<and> py_lower meth \<in> set acquire_methods)
   \<and> (classify_call {} owner meth rt = ''reflection''
      \<longrightarrow> owner \<in> set reflect_types \<or> (\<exists>ms. map_of reflect_methods_by_type owner = Some ms \<and> py_lower meth \<in> set ms))
   \<and> (classify_call {} owner meth rt = [] \<longleftrightarrow>
        \<not> (rt \<noteq> [] \<and> is_connection_type rt) \<and> classify_reflection owner meth = []
        \<and> \<not> (owner \<noteq> [] \<and> is_db_type owner))"
proof -
  have r: "classify_reflection owner meth = [] \<or> classify_reflection owner meth = ''reflection''"
    by (auto simp: classify_reflection_def split: option.splits)
  then show ?thesis
    by (auto simp: classify_call_def Let_def classify_reflection_def split: if_splits option.splits)
qed

theorem classify_call_type_first_witness:
  "classify_call {} ''java.io.InputStream'' ''close'' [] = []
   \<and> (classify_call {} ''java.sql.Connection'' ''close'' [] = ''db_release''
      \<and> is_db_type ''java.sql.Connection'')"
proof -
  have l: "py_lower ''close'' = ''close''" by code_simp
  have s: "simple_of ''java.io.InputStream'' = ''InputStream''" by code_simp
  have n: "db_simple_names = [''Connection'', ''Statement'', ''PreparedStatement'', ''CallableStatement'',
      ''ResultSet'', ''DataSource'', ''DataSource'', ''PooledConnection'', ''DriverManager'', ''EntityManager'',
      ''EntityManager'', ''EntityManagerFactory'', ''EntityManagerFactory'', ''Query'', ''Query'', ''TypedQuery'',
      ''TypedQuery'', ''Session'', ''SessionFactory'', ''Transaction'', ''JdbcTemplate'',
      ''NamedParameterJdbcTemplate'', ''TransactionTemplate'', ''SqlSession'', ''SqlSessionFactory'']"
    by code_simp
  have i: "\<not> is_db_type ''java.io.InputStream''"
    unfolding is_db_type_def s n
    by (simp add: db_types_def jdbc_types_def jpa_types_def spring_types_def mybatis_types_def)
  have "classify_reflection ''java.io.InputStream'' ''close'' = []"
    by (simp add: classify_reflection_def reflect_types_def reflect_methods_by_type_def)
  then have a: "classify_call {} ''java.io.InputStream'' ''close'' [] = []"
    using i classify_call_type_first [of "''java.io.InputStream''" "''close''" "[]"] by simp
  have c: "is_db_type ''java.sql.Connection''"
    by (simp add: is_db_type_def db_types_def jdbc_types_def)
  have "classify_call {} ''java.sql.Connection'' ''close'' [] = ''db_release''"
    unfolding classify_call_def Let_def l using c
    by (simp add: classify_reflection_def reflect_types_def reflect_methods_by_type_def
        acquire_methods_def release_methods_def)
  with a c show ?thesis by simp
qed

end
