(* ===== verification/ResolveState.thy ===== *)
theory ResolveState
  imports Narrowing ExternalApi
begin

text \<open>
  What the main loop of \<open>resolve\<close> (\<open>graph_core/resolver.py\<close>) reads and writes: its
  arguments, its accumulators, and the primitive effects every branch is built from.  A
  primitive only ever appends to the edges, which is what allows them to be streamed out
  (\<open>stream_laws\<close>).
\<close>

section \<open>Arguments and accumulators\<close>

record renv =
  en_repo :: string
  en_make_id :: "string \<Rightarrow> string \<Rightarrow> string \<Rightarrow> string"
  en_name_cap :: nat
  en_skip_files :: "string set"
  en_categories :: "string set"
  en_marking :: bool

record coverage =
  cv_total :: int
  cv_resolved :: int
  cv_ambiguous :: int
  cv_unresolved :: int
  cv_external :: int

definition no_coverage :: coverage where
  "no_coverage = \<lparr>cv_total = 0, cv_resolved = 0, cv_ambiguous = 0, cv_unresolved = 0, cv_external = 0\<rparr>"

definition inrepo :: "coverage \<Rightarrow> int" where
  "inrepo c = cv_resolved c + cv_ambiguous c + cv_unresolved c"

record mark =
  mk_cats :: "string set"
  mk_src :: bool
  mk_sites :: "(int \<times> string \<times> role \<times> int list) list"

definition no_mark :: mark where
  "no_mark = \<lparr>mk_cats = {}, mk_src = False, mk_sites = []\<rparr>"

record rstate =
  rs_nodes :: "node list"
  rs_annotations :: "string \<rightharpoonup> string"
  rs_events :: "string \<rightharpoonup> string"
  rs_policies :: "string \<rightharpoonup> string"
  rs_endpoints :: "string set"
  rs_external :: "string set"
  rs_edges :: "edge list"
  rs_coverage :: "string \<Rightarrow> coverage"
  rs_strategies :: "string \<Rightarrow> nat"
  rs_cap_emit :: nat
  rs_cap_recv :: nat
  rs_cap_by_type :: "string \<Rightarrow> nat"
  rs_marks :: "string \<rightharpoonup> mark"

definition empty_state :: rstate where
  "empty_state = \<lparr>rs_nodes = [], rs_annotations = (\<lambda>_. None), rs_events = (\<lambda>_. None),
     rs_policies = (\<lambda>_. None), rs_endpoints = {}, rs_external = {}, rs_edges = [],
     rs_coverage = (\<lambda>_. no_coverage), rs_strategies = (\<lambda>_. 0), rs_cap_emit = 0, rs_cap_recv = 0,
     rs_cap_by_type = (\<lambda>_. 0), rs_marks = (\<lambda>_. None)\<rparr>"

section \<open>Effects\<close>

definition tally :: "string \<Rightarrow> (coverage \<Rightarrow> coverage) \<Rightarrow> rstate \<Rightarrow> rstate" where
  "tally t f st = st\<lparr>rs_coverage := (rs_coverage st)(t := f (rs_coverage st t))\<rparr>"

definition add_total :: "int \<Rightarrow> coverage \<Rightarrow> coverage" where
  "add_total i c = c\<lparr>cv_total := cv_total c + i\<rparr>"

definition add_resolved :: "coverage \<Rightarrow> coverage" where
  "add_resolved c = c\<lparr>cv_resolved := cv_resolved c + 1\<rparr>"

definition add_ambiguous :: "coverage \<Rightarrow> coverage" where
  "add_ambiguous c = c\<lparr>cv_ambiguous := cv_ambiguous c + 1\<rparr>"

definition add_unresolved :: "coverage \<Rightarrow> coverage" where
  "add_unresolved c = c\<lparr>cv_unresolved := cv_unresolved c + 1\<rparr>"

definition add_external :: "coverage \<Rightarrow> coverage" where
  "add_external c = c\<lparr>cv_external := cv_external c + 1\<rparr>"

definition add_node :: "node \<Rightarrow> rstate \<Rightarrow> rstate" where
  "add_node n st = st\<lparr>rs_nodes := rs_nodes st @ [n]\<rparr>"

definition make_edge :: "raw_ref \<Rightarrow> string \<Rightarrow> string \<Rightarrow> confidence \<Rightarrow> string \<Rightarrow> edge" where
  "make_edge r etype dst conf strat = \<lparr>e_type = (if etype = [] then r_type r else etype),
     e_src = r_src r, e_dst = dst, e_confidence = conf, e_origin = O_EXTRACTED,
     e_extractor = ''heuristic'', e_evidence_file = r_ref_file r, e_evidence_line = r_ref_line r,
     e_evidence_col = r_ref_col r, e_strategy = strat\<rparr>"

definition push_edge :: "raw_ref \<Rightarrow> string \<Rightarrow> string \<Rightarrow> confidence \<Rightarrow> string \<Rightarrow> rstate \<Rightarrow> rstate" where
  "push_edge r etype dst conf strat st =
     (let key = (if strat = [] then ''(none)'' else strat) in
      st\<lparr>rs_edges := rs_edges st @ [make_edge r etype dst conf strat],
         rs_strategies := (rs_strategies st)(key := rs_strategies st key + 1)\<rparr>)"

definition push_edges :: "raw_ref \<Rightarrow> string \<Rightarrow> slim_node list \<Rightarrow> confidence \<Rightarrow> string \<Rightarrow> rstate \<Rightarrow> rstate" where
  "push_edges r etype ns conf strat st = fold (\<lambda>c. push_edge r etype (s_id c) conf strat) ns st"

text \<open>A bare-name match with more candidates than the cap, when there is a cap.\<close>

definition over_cap :: "renv \<Rightarrow> 'a list \<Rightarrow> bool" where
  "over_cap env ns = (en_name_cap env \<noteq> 0 \<and> length ns > en_name_cap env)"

definition emit ::
  "renv \<Rightarrow> raw_ref \<Rightarrow> slim_node list \<Rightarrow> confidence \<Rightarrow> bool \<Rightarrow> string \<Rightarrow> rstate \<Rightarrow> rstate" where
  "emit env r wanted conf known strat st =
     (case wanted of
        [] \<Rightarrow> if known then tally (r_type r) add_unresolved st else tally (r_type r) add_external st
      | [c] \<Rightarrow> tally (r_type r) add_resolved (push_edge r [] (s_id c) conf strat st)
      | c # d # rest \<Rightarrow>
          if py_startswith strat ''name'' \<and> over_cap env wanted
          then (tally (r_type r) add_unresolved st)\<lparr>rs_cap_emit := rs_cap_emit st + 1,
                 rs_cap_by_type := (rs_cap_by_type st)(r_type r := rs_cap_by_type st (r_type r) + 1)\<rparr>
          else tally (r_type r) add_ambiguous (push_edges r [] wanted AMBIGUOUS strat st))"

section \<open>Normalised names\<close>

text \<open>\<open>_normalize_event_name\<close> and \<open>_normalize_policy_name\<close>, which have the same body.\<close>

definition lower_or_digit :: "char \<Rightarrow> bool" where
  "lower_or_digit c = (is_digit c \<or> (let n = (of_char c :: nat) in 97 \<le> n \<and> n \<le> 122))"

definition is_upper :: "char \<Rightarrow> bool" where
  "is_upper c = (let n = (of_char c :: nat) in 65 \<le> n \<and> n \<le> 90)"

fun dot_camel :: "string \<Rightarrow> string" where
  "dot_camel (a # b # s) = (if lower_or_digit a \<and> is_upper b then a # CHR ''.'' # dot_camel (b # s) else a # dot_camel (b # s))"
| "dot_camel s = s"

definition sep_char :: "char \<Rightarrow> bool" where
  "sep_char c = (c \<in> set ''_-/:'')"

text \<open>One pass of a substitution that replaces each maximal run of \<open>p\<close> by a dot.\<close>

fun runs_to_dot :: "(char \<Rightarrow> bool) \<Rightarrow> bool \<Rightarrow> string \<Rightarrow> string" where
  "runs_to_dot p inside [] = []"
| "runs_to_dot p inside (c # s) =
     (if p c then (if inside then runs_to_dot p True s else CHR ''.'' # runs_to_dot p True s)
      else c # runs_to_dot p False s)"

definition normalize_name :: "string \<Rightarrow> string" where
  "normalize_name nm =
     (let n = strip_where quote_char (py_strip nm) in
      if n = [] then []
      else strip_where (\<lambda>c. c = CHR ''.'') (runs_to_dot (\<lambda>c. c = CHR ''.'') False
             (runs_to_dot is_space False (runs_to_dot sep_char False (py_lower (dot_camel n))))))"

section \<open>Streaming: every effect only appends edges\<close>

definition with_prefix :: "edge list \<Rightarrow> rstate \<Rightarrow> rstate" where
  "with_prefix es st = st\<lparr>rs_edges := es @ rs_edges st\<rparr>"

named_theorems stream_laws \<open>an effect commutes with edges emitted before it\<close>

lemma tally_prefix [stream_laws]: "tally t f (with_prefix es st) = with_prefix es (tally t f st)"
  by (simp add: tally_def with_prefix_def)

lemma add_node_prefix [stream_laws]: "add_node n (with_prefix es st) = with_prefix es (add_node n st)"
  by (simp add: add_node_def with_prefix_def)

lemma push_edge_prefix [stream_laws]:
  "push_edge r etype dst conf strat (with_prefix es st) = with_prefix es (push_edge r etype dst conf strat st)"
  by (simp add: push_edge_def with_prefix_def Let_def)

lemma push_edges_prefix [stream_laws]:
  "push_edges r etype ns conf strat (with_prefix es st) = with_prefix es (push_edges r etype ns conf strat st)"
  unfolding push_edges_def by (induction ns arbitrary: st) (simp_all add: push_edge_prefix)

lemma prefix_fields [stream_laws]:
  "rs_nodes (with_prefix es st) = rs_nodes st" "rs_annotations (with_prefix es st) = rs_annotations st"
  "rs_events (with_prefix es st) = rs_events st" "rs_policies (with_prefix es st) = rs_policies st"
  "rs_endpoints (with_prefix es st) = rs_endpoints st" "rs_external (with_prefix es st) = rs_external st"
  "rs_coverage (with_prefix es st) = rs_coverage st" "rs_cap_emit (with_prefix es st) = rs_cap_emit st"
  "rs_cap_recv (with_prefix es st) = rs_cap_recv st" "rs_cap_by_type (with_prefix es st) = rs_cap_by_type st"
  "rs_marks (with_prefix es st) = rs_marks st" "rs_edges (with_prefix es st) = es @ rs_edges st"
  by (simp_all add: with_prefix_def)

lemma prefix_updates [stream_laws]:
  "rs_annotations_update f (with_prefix es st) = with_prefix es (rs_annotations_update f st)"
  "rs_events_update f (with_prefix es st) = with_prefix es (rs_events_update f st)"
  "rs_policies_update f (with_prefix es st) = with_prefix es (rs_policies_update f st)"
  "rs_endpoints_update g (with_prefix es st) = with_prefix es (rs_endpoints_update g st)"
  "rs_external_update g (with_prefix es st) = with_prefix es (rs_external_update g st)"
  "rs_cap_emit_update k (with_prefix es st) = with_prefix es (rs_cap_emit_update k st)"
  "rs_cap_recv_update k (with_prefix es st) = with_prefix es (rs_cap_recv_update k st)"
  "rs_cap_by_type_update l (with_prefix es st) = with_prefix es (rs_cap_by_type_update l st)"
  "rs_marks_update m (with_prefix es st) = with_prefix es (rs_marks_update m st)"
  by (simp_all add: with_prefix_def)

lemma emit_prefix [stream_laws]:
  "emit env r wanted conf known strat (with_prefix es st) = with_prefix es (emit env r wanted conf known strat st)"
  by (simp add: emit_def stream_laws split: list.splits)

end
