(* ===== verification/Resolve.thy ===== *)
theory Resolve
  imports ResolveState
begin

text \<open>
  The main loop of \<open>resolve\<close> (\<open>graph_core/resolver.py\<close>): one definition per branch of
  \<open>_resolve_one_ref\<close>, the loop with its tallies, the streaming sink and the resume from a
  checkpoint.
\<close>

section \<open>Constants\<close>

definition dropped_edge_types :: "string set" where
  "dropped_edge_types = {''RETURNS'', ''HAS_TYPE'', ''HAS_GENERIC'', ''THROWS'', ''CATCHES'', ''REFERENCES'',
     ''BELONGS_TO'', ''RE_EXPORTS'', ''EMITS_EVENT'', ''CONSUMES_EVENT'', ''REQUIRES_AUTH'',
     ''ENFORCES_POLICY'', ''IMPORTS''}"

definition noise_annotations :: "string set" where
  "noise_annotations = {''Override'', ''SuppressWarnings'', ''SafeVarargs'', ''FunctionalInterface'',
     ''Generated'', ''SuppressFBWarnings''}"

definition file_ref_langs :: "string \<rightharpoonup> string set" where
  "file_ref_langs t = (if t = ''RENDERS'' \<or> t = ''INCLUDES_PAGE'' then Some {''jsp''}
     else if t = ''INCLUDES_SCRIPT'' then Some {''javascript'', ''typescript'', ''tsx''} else None)"

section \<open>Synthesised nodes\<close>

definition resolve_annotation :: "renv \<Rightarrow> raw_ref \<Rightarrow> rstate \<Rightarrow> rstate" where
  "resolve_annotation env r st =
     (let nm = r_target_name r in
      if nm \<in> noise_annotations then tally (r_type r) add_external st
      else
        let known = rs_annotations st nm;
            aid = (case known of Some a \<Rightarrow> a | None \<Rightarrow> en_make_id env (en_repo env) (CHR 0x40 # nm) ''annotation'');
            st1 = (if known = None
                   then add_node ((mk_node aid ''Annotation'' nm (CHR 0x40 # nm) (en_repo env))\<lparr>n_kind := ''annotation''\<rparr>)
                          (st\<lparr>rs_annotations := (rs_annotations st)(nm \<mapsto> aid)\<rparr>)
                   else st)
        in tally (r_type r) add_resolved (push_edge r [] aid EXTRACTED ''annotation'' st1))"

definition fuzzy :: "raw_ref \<Rightarrow> string \<Rightarrow> confidence \<times> string" where
  "fuzzy r marker = (if r_strategy_hint r = ''fuzzy_name'' then (AMBIGUOUS, ''fuzzy_name'') else (EXTRACTED, marker))"

definition resolve_event :: "renv \<Rightarrow> raw_ref \<Rightarrow> rstate \<Rightarrow> rstate" where
  "resolve_event env r st =
     (let topic = normalize_name (r_target_name r) in
      if topic = [] then tally (r_type r) add_unresolved st
      else
        let known = rs_events st topic;
            eid = (case known of Some e \<Rightarrow> e | None \<Rightarrow> en_make_id env (en_repo env) (''event:'' @ topic) ''event'');
            st1 = (if known = None
                   then add_node ((mk_node eid ''Event'' topic (''event://'' @ topic) (en_repo env))
                                    \<lparr>n_kind := ''event'', n_display_name := r_target_name r\<rparr>)
                          (st\<lparr>rs_events := (rs_events st)(topic \<mapsto> eid)\<rparr>)
                   else st)
        in case fuzzy r ''event_marker'' of (conf, strat) \<Rightarrow>
             tally (r_type r) add_resolved (push_edge r [] eid conf strat st1))"

definition policy_name :: "raw_ref \<Rightarrow> string" where
  "policy_name r = (let n = normalize_name (r_target_name r) in
     if n \<noteq> [] then n else if r_type r = ''REQUIRES_AUTH'' then ''AUTH_REQUIRED'' else ''POLICY'')"

definition resolve_policy :: "renv \<Rightarrow> raw_ref \<Rightarrow> rstate \<Rightarrow> rstate" where
  "resolve_policy env r st =
     (let pname = policy_name r;
          known = rs_policies st pname;
          pid = (case known of Some p \<Rightarrow> p | None \<Rightarrow> en_make_id env (en_repo env) (''policy:'' @ pname) ''policy'');
          st1 = (if known = None
                 then add_node ((mk_node pid ''Policy'' pname (''policy://'' @ pname) (en_repo env))\<lparr>n_kind := ''policy''\<rparr>)
                        (st\<lparr>rs_policies := (rs_policies st)(pname \<mapsto> pid)\<rparr>)
                 else st)
      in case fuzzy r ''auth_marker'' of (conf, strat) \<Rightarrow>
           tally (r_type r) add_resolved (push_edge r [] pid conf strat st1))"

definition resolve_api :: "renv \<Rightarrow> rindex \<Rightarrow> raw_ref \<Rightarrow> rstate \<Rightarrow> rstate" where
  "resolve_api env ix r st =
     (let m = py_upper (or_get (r_http_method r)); route = normalize_route (r_target_name r);
          host = r_recv r; hits = match_endpoints (rx_endpoints ix) m route in
      if hits \<noteq> [] then tally (r_type r) add_resolved (push_edges r [] hits EXTRACTED ''api_match'' st)
      else
        let (eid, erepo, conf, strat) =
              (if host \<noteq> [] then (endpoint_id (en_make_id env) ''external'' m route host, ''external'', EXTRACTED, ''api_external'')
               else (endpoint_id (en_make_id env) (en_repo env) m route [], en_repo env, INFERRED, ''api_unresolved''));
            st1 = (if eid \<in> rs_endpoints st then st
                   else add_node ((mk_node eid ''Endpoint'' (endpoint_display m route host) (endpoint_fqn m route host) erepo)
                                    \<lparr>n_kind := ''endpoint'', n_method := m, n_route := route, n_host := host\<rparr>)
                          (st\<lparr>rs_endpoints := insert eid (rs_endpoints st)\<rparr>))
        in tally (r_type r) add_resolved (push_edge r [] eid conf strat st1))"

section \<open>Files and handlers\<close>

definition dir_of :: "string \<Rightarrow> string" where
  "dir_of f = before_last (CHR ''/'') (replace_char (CHR 0x5C) (CHR ''/'') f)"

definition file_candidates :: "rindex \<Rightarrow> raw_ref \<Rightarrow> slim_node list" where
  "file_candidates ix r = (let named = nx_files (rx_names ix) (r_target_name r) in
     case file_ref_langs (r_type r) of None \<Rightarrow> named | Some langs \<Rightarrow> filter (\<lambda>c. s_lang c \<in> langs) named)"

definition resolve_file :: "renv \<Rightarrow> rindex \<Rightarrow> raw_ref \<Rightarrow> rstate \<Rightarrow> rstate" where
  "resolve_file env ix r st =
     (if r_kind_hint r \<noteq> ''file'' then tally (r_type r) add_external st
      else
        let candidates = file_candidates ix r;
            same_dir = filter (\<lambda>c. dir_of (s_file c) = dir_of (r_ref_file r)) candidates;
            (chosen, strat) = (if length candidates > 1 \<and> r_ref_file r \<noteq> [] \<and> same_dir \<noteq> []
                               then (same_dir, ''file_same_dir'') else (candidates, ''file_basename''))
        in emit env r chosen EXTRACTED (nx_files (rx_names ix) (r_target_name r) \<noteq> []) strat st)"

definition resolve_handler :: "renv \<Rightarrow> rindex \<Rightarrow> raw_ref \<Rightarrow> rstate \<Rightarrow> rstate" where
  "resolve_handler env ix r st =
     (case rx_fqn ix (r_target_name r) of
        Some c \<Rightarrow> tally (r_type r) add_resolved (push_edge r [] (s_id c) EXTRACTED ''handler_fqn'' st)
      | None \<Rightarrow>
          let named = nx_classes (rx_names ix) (tail_name (r_target_name r)) in
          emit env r named INFERRED (named \<noteq> []) ''handler_name'' st)"

section \<open>Calls\<close>

definition mark_taint :: "renv \<Rightarrow> raw_ref \<Rightarrow> rstate \<Rightarrow> rstate" where
  "mark_taint env r st =
     (if \<not> en_marking env \<or> r_src r = [] then st
      else case classify_taint (r_recv_type r) (r_target_name r) of
        None \<Rightarrow> st
      | Some (e, args) \<Rightarrow>
          let m = (case rs_marks st (r_src r) of None \<Rightarrow> no_mark | Some m \<Rightarrow> m);
              m1 = (if en_role e = SOURCE then m\<lparr>mk_src := True\<rparr>
                    else if en_role e = SINK then m\<lparr>mk_cats := insert (en_category e) (mk_cats m)\<rparr> else m);
              m2 = (if r_ref_line r \<noteq> 0
                    then m1\<lparr>mk_sites := mk_sites m1 @ [(r_ref_line r, en_category e, en_role e, args)]\<rparr> else m1)
          in st\<lparr>rs_marks := (rs_marks st)(r_src r \<mapsto> m2)\<rparr>)"

definition external_call :: "renv \<Rightarrow> raw_ref \<Rightarrow> rstate \<Rightarrow> rstate" where
  "external_call env r st =
     (let owner = r_recv_type r; nm = r_target_name r;
          kind = classify_call (en_categories env) owner nm [];
          st1 = mark_taint env r (tally (r_type r) add_external st) in
      if kind = [] then st1
      else
        let eid = external_id (en_make_id env) owner nm;
            st2 = (if eid \<in> rs_external st1 then st1
                   else add_node ((mk_node eid ''External'' (external_display owner nm) (external_key owner nm) ''external'')
                                    \<lparr>n_kind := kind\<rparr>)
                          (st1\<lparr>rs_external := insert eid (rs_external st1)\<rparr>))
        in push_edge r ''CALLS_EXTERNAL'' eid EXTRACTED ''external_typed'' st2)"

definition demote :: "renv \<Rightarrow> raw_ref \<Rightarrow> slim_node list \<Rightarrow> string \<Rightarrow> rstate \<Rightarrow> rstate" where
  "demote env r wanted strat st =
     (let st1 = tally ''REFERENCES'' (add_total 1) (tally (r_type r) (add_total (-1)) st) in
      case wanted of
        [c] \<Rightarrow> tally ''REFERENCES'' add_resolved
                 (push_edge r ''REFERENCES'' (s_id c) INFERRED (strat @ ''+unknown_recv'') st1)
      | _ \<Rightarrow> if over_cap env wanted
             then (tally ''REFERENCES'' add_unresolved st1)\<lparr>rs_cap_recv := rs_cap_recv st1 + 1\<rparr>
             else tally ''REFERENCES'' add_ambiguous
                    (push_edges r ''REFERENCES'' wanted AMBIGUOUS (strat @ ''+unknown_recv'') st1))"

definition tail_fallback :: "rindex \<Rightarrow> raw_ref \<Rightarrow> string \<Rightarrow> rstate \<Rightarrow> rstate" where
  "tail_fallback ix r strat st =
     (let fb = fallback_reference_candidates ix (r_target_name r);
          tag = (if strat = [] then ''none'' else strat) @ ''+fallback_tail'';
          st1 = tally ''REFERENCES'' (add_total 1) st in
      case fb of
        [] \<Rightarrow> st
      | [c] \<Rightarrow> tally ''REFERENCES'' add_resolved (push_edge r ''REFERENCES'' (s_id c) INFERRED tag st1)
      | _ \<Rightarrow> tally ''REFERENCES'' add_ambiguous (push_edges r ''REFERENCES'' fb AMBIGUOUS tag st1))"

definition resolve_call :: "renv \<Rightarrow> rindex \<Rightarrow> supers \<Rightarrow> raw_ref \<Rightarrow> rstate \<Rightarrow> rstate" where
  "resolve_call env ix h r st =
     (if r_ref_file r \<in> en_skip_files env then tally (r_type r) add_external st
      else case narrow_call ix h r of (wanted, strat) \<Rightarrow>
        if strat = ''external_receiver'' then external_call env r st
        else if wanted \<noteq> [] \<and> py_startswith strat ''name'' \<and> r_recv r \<noteq> [] \<and> \<not> self_recv r
        then demote env r wanted strat st
        else
          let st1 = emit env r wanted INFERRED (nx_by_name (rx_names ix) (r_target_name r) \<noteq> []) strat st
          in if wanted = [] then tail_fallback ix r strat st1 else st1)"

section \<open>Fields, types, the rest\<close>

definition resolve_access :: "renv \<Rightarrow> rindex \<Rightarrow> raw_ref \<Rightarrow> rstate \<Rightarrow> rstate" where
  "resolve_access env ix r st =
     (let own = (case enclosing_class_id ix (r_src r) of None \<Rightarrow> []
                 | Some c \<Rightarrow> if c = [] then [] else members (mi_fields (rx_members ix)) (c, r_target_name r));
          f = src_file ix r;
          (wanted, strat) = (if own \<noteq> [] then (own, ''same_scope'')
             else if f \<noteq> [] then (members (mi_file_fields (rx_members ix)) (f, r_target_name r), ''same_file_global'')
             else ([], ''same_scope''))
      in emit env r wanted EXTRACTED (wanted \<noteq> []) strat st)"

definition resolve_type :: "renv \<Rightarrow> rindex \<Rightarrow> raw_ref \<Rightarrow> rstate \<Rightarrow> rstate" where
  "resolve_type env ix r st =
     (case narrow_type ix r of (wanted, strat) \<Rightarrow>
        emit env r wanted (if strat \<noteq> ''name'' \<and> strat \<noteq> ''none'' then EXTRACTED else INFERRED)
          (nx_classes (rx_names ix) (tail_name (r_target_name r)) \<noteq> []) strat st)"

definition resolve_other :: "renv \<Rightarrow> rindex \<Rightarrow> raw_ref \<Rightarrow> rstate \<Rightarrow> rstate" where
  "resolve_other env ix r st =
     (let candidates = nx_by_name (rx_names ix) (r_target_name r);
          wanted = (if r_kind_hint r = ''type'' \<or> r_kind_hint r = ''import'' then filter is_class candidates
                    else if r_kind_hint r = ''call'' then filter is_func candidates else candidates)
      in emit env r (if wanted \<noteq> [] then wanted else candidates) INFERRED (candidates \<noteq> []) ''kind_hint'' st)"

definition resolve_one_ref :: "renv \<Rightarrow> rindex \<Rightarrow> supers \<Rightarrow> raw_ref \<Rightarrow> rstate \<Rightarrow> rstate" where
  "resolve_one_ref env ix h r st =
     (let t = r_type r in
      if t \<in> dropped_edge_types then st
      else if t = ''ANNOTATED_WITH'' then resolve_annotation env r st
      else if t = ''EMITS_EVENT'' \<or> t = ''CONSUMES_EVENT'' then resolve_event env r st
      else if t = ''REQUIRES_AUTH'' \<or> t = ''ENFORCES_POLICY'' then resolve_policy env r st
      else if t = ''CALLS_API'' then resolve_api env ix r st
      else if t = ''RENDERS'' \<or> t = ''INCLUDES_SCRIPT'' \<or> t = ''INCLUDES_PAGE'' then resolve_file env ix r st
      else if t = ''HANDLED_BY'' then resolve_handler env ix r st
      else if t = ''CALLS'' then resolve_call env ix h r st
      else if t = ''READS'' \<or> t = ''WRITES'' then resolve_access env ix r st
      else if t = ''EXTENDS'' \<or> t = ''IMPLEMENTS'' \<or> t = ''INSTANTIATES'' \<or> t = ''AUTOWIRED'' then resolve_type env ix r st
      else resolve_other env ix r st)"

section \<open>The loop\<close>

definition loop_step :: "renv \<Rightarrow> rindex \<Rightarrow> supers \<Rightarrow> raw_ref \<Rightarrow> rstate \<Rightarrow> rstate" where
  "loop_step env ix h r st = resolve_one_ref env ix h r (tally (r_type r) (add_total 1) st)"

definition resolve_loop :: "renv \<Rightarrow> rindex \<Rightarrow> supers \<Rightarrow> raw_ref list \<Rightarrow> rstate \<Rightarrow> rstate" where
  "resolve_loop env ix h refs st = fold (loop_step env ix h) refs st"

definition resolve :: "renv \<Rightarrow> slim_node list \<Rightarrow> slim_edge list \<Rightarrow> raw_ref list \<Rightarrow> rstate" where
  "resolve env nodes edges refs =
     (let ix = build_rindex nodes edges refs
      in resolve_loop env ix (direct_supers ix edges) refs empty_state)"

end
