(* ===== verification/ResolveProps.thy ===== *)
theory ResolveProps
  imports Resolve
begin

text \<open>
  What the main loop of \<open>resolve\<close> promises: its tallies add up, its edges are traced to a
  reference and end at a known node, bare-name fan-out is capped, and streaming the edges
  out changes nothing.
\<close>

section \<open>The tallies add up\<close>

definition deficit :: "rstate \<Rightarrow> string \<Rightarrow> int" where
  "deficit st t = (let c = rs_coverage st t in
     cv_total c - cv_resolved c - cv_ambiguous c - cv_unresolved c - cv_external c)"

named_theorems deficit_laws \<open>what an effect does to the open balance of every type\<close>

lemma deficit_tally [deficit_laws]:
  "deficit (tally t (add_total i) st) = (deficit st)(t := deficit st t + i)"
  "deficit (tally t add_resolved st) = (deficit st)(t := deficit st t - 1)"
  "deficit (tally t add_ambiguous st) = (deficit st)(t := deficit st t - 1)"
  "deficit (tally t add_unresolved st) = (deficit st)(t := deficit st t - 1)"
  "deficit (tally t add_external st) = (deficit st)(t := deficit st t - 1)"
  by (auto simp: deficit_def tally_def Let_def add_total_def add_resolved_def add_ambiguous_def
      add_unresolved_def add_external_def)

lemma deficit_push [deficit_laws]: "deficit (push_edge r et d conf s st) = deficit st"
  by (simp add: fun_eq_iff deficit_def push_edge_def Let_def)

lemma deficit_pushes [deficit_laws]: "deficit (push_edges r et ns conf s st) = deficit st"
  unfolding push_edges_def by (induction ns arbitrary: st) (simp_all add: deficit_push)

lemma deficit_add_node [deficit_laws]: "deficit (add_node n st) = deficit st"
  by (simp add: fun_eq_iff deficit_def add_node_def)

lemma deficit_updates [deficit_laws]:
  "deficit (rs_annotations_update f st) = deficit st" "deficit (rs_events_update f st) = deficit st"
  "deficit (rs_policies_update f st) = deficit st" "deficit (rs_endpoints_update g st) = deficit st"
  "deficit (rs_external_update g st) = deficit st" "deficit (rs_cap_emit_update k st) = deficit st"
  "deficit (rs_cap_recv_update k st) = deficit st" "deficit (rs_cap_by_type_update l st) = deficit st"
  "deficit (rs_marks_update m st) = deficit st"
  by (simp_all add: fun_eq_iff deficit_def)

definition settles :: "raw_ref \<Rightarrow> rstate \<Rightarrow> rstate \<Rightarrow> bool" where
  "settles r st st' = (deficit st' = (deficit st)(r_type r := deficit st (r_type r) - 1))"

lemma settle_emit: "settles r st (emit env r wanted conf known strat st)"
  by (auto simp: settles_def emit_def deficit_laws split: list.splits)

lemma settle_synth:
  "settles r st (resolve_annotation env r st)"
  "settles r st (resolve_event env r st)"
  "settles r st (resolve_policy env r st)"
  "settles r st (resolve_api env ix r st)"
  by (auto simp: settles_def resolve_annotation_def resolve_event_def resolve_policy_def resolve_api_def
      deficit_laws Let_def split: prod.splits option.splits)

lemma settle_lookup:
  "settles r st (resolve_file env ix r st)"
  "settles r st (resolve_handler env ix r st)"
  "settles r st (resolve_access env ix r st)"
  "settles r st (resolve_type env ix r st)"
  "settles r st (resolve_other env ix r st)"
  unfolding resolve_file_def resolve_handler_def resolve_access_def resolve_type_def resolve_other_def Let_def
  by (auto simp: settle_emit split: prod.splits option.splits)
    (simp_all add: settles_def deficit_laws)

lemma deficit_mark [deficit_laws]: "deficit (mark_taint env r st) = deficit st"
  by (simp add: mark_taint_def deficit_laws Let_def split: option.splits prod.splits)

lemma settle_call: "settles r st (resolve_call env ix h r st)"
proof -
  have "settles r st (external_call env r st)"
    by (simp add: settles_def external_call_def deficit_laws Let_def)
  moreover have "settles r st (demote env r wanted strat st)" for wanted strat
    by (auto simp: settles_def demote_def deficit_laws Let_def split: list.splits)
  moreover have "deficit (tail_fallback ix r strat st1) = deficit st1" for strat st1
    by (auto simp: tail_fallback_def deficit_laws Let_def split: list.splits)
  moreover have "settles r st (tally (r_type r) add_external st)"
    by (simp add: settles_def deficit_laws)
  ultimately show ?thesis
    using settle_emit [of r st env] by (auto simp: resolve_call_def settles_def Let_def split: prod.splits)
qed

lemmas settle_all = settle_synth settle_lookup settle_call

lemma settle_one: "r_type r \<notin> dropped_edge_types \<Longrightarrow> settles r st (resolve_one_ref env ix h r st)"
  unfolding resolve_one_ref_def Let_def by (simp add: settle_all)

lemma loop_step_deficit:
  "deficit (loop_step env ix h r st) t =
     deficit st t + (if t = r_type r \<and> t \<in> dropped_edge_types then 1 else 0)"
proof (cases "r_type r \<in> dropped_edge_types")
  case True
  then show ?thesis by (simp add: loop_step_def resolve_one_ref_def deficit_laws)
next
  case False
  from settle_one [OF this, of "tally (r_type r) (add_total 1) st" env ix h] False
  show ?thesis by (auto simp: loop_step_def settles_def deficit_laws)
qed

lemma loop_deficit:
  "deficit (resolve_loop env ix h refs st) t =
     deficit st t + (if t \<in> dropped_edge_types then int (length (filter (\<lambda>r. r_type r = t) refs)) else 0)"
  unfolding resolve_loop_def by (induction refs arbitrary: st) (auto simp: loop_step_deficit)

text \<open>Calls that are counted elsewhere: one that only a bare name and an unknown receiver lead to is demoted to a reference, and
  one that leads nowhere is looked up again by the last part of its name.\<close>

definition demoted :: "renv \<Rightarrow> rindex \<Rightarrow> supers \<Rightarrow> raw_ref \<Rightarrow> bool" where
  "demoted env ix h r \<longleftrightarrow> r_type r = ''CALLS'' \<and> r_ref_file r \<notin> en_skip_files env \<and> r_recv r \<noteq> [] \<and> \<not> self_recv r
     \<and> (case narrow_call ix h r of (wanted, strat) \<Rightarrow> wanted \<noteq> [] \<and> py_startswith strat ''name'')"

definition fell_back :: "renv \<Rightarrow> rindex \<Rightarrow> supers \<Rightarrow> raw_ref \<Rightarrow> bool" where
  "fell_back env ix h r \<longleftrightarrow> r_type r = ''CALLS'' \<and> r_ref_file r \<notin> en_skip_files env
     \<and> (case narrow_call ix h r of (wanted, strat) \<Rightarrow> wanted = [] \<and> strat \<noteq> ''external_receiver'')
     \<and> fallback_reference_candidates ix (r_target_name r) \<noteq> []"

definition totals :: "rstate \<Rightarrow> string \<Rightarrow> int" where
  "totals st t = cv_total (rs_coverage st t)"

named_theorems total_laws \<open>what an effect does to the totals\<close>

lemma totals_tally [total_laws]:
  "totals (tally t (add_total i) st) = (totals st)(t := totals st t + i)" "totals (tally t add_resolved st) = totals st"
  "totals (tally t add_ambiguous st) = totals st" "totals (tally t add_unresolved st) = totals st" "totals (tally t add_external st) = totals st"
  by (auto simp: fun_eq_iff totals_def tally_def add_total_def add_resolved_def add_ambiguous_def add_unresolved_def add_external_def)

lemma totals_push [total_laws]: "totals (push_edge r et d conf s st) = totals st" "totals (add_node n st) = totals st"
  by (simp_all add: fun_eq_iff totals_def push_edge_def add_node_def Let_def)

lemma totals_pushes [total_laws]: "totals (push_edges r et ns conf s st) = totals st"
  unfolding push_edges_def by (induction ns arbitrary: st) (simp_all add: totals_push)

lemma totals_updates [total_laws]:
  "totals (rs_annotations_update f st) = totals st" "totals (rs_events_update f st) = totals st"
  "totals (rs_policies_update f st) = totals st" "totals (rs_endpoints_update g st) = totals st"
  "totals (rs_external_update g st) = totals st" "totals (rs_cap_emit_update k st) = totals st"
  "totals (rs_cap_recv_update k st) = totals st" "totals (rs_cap_by_type_update l st) = totals st"
  "totals (rs_marks_update m st) = totals st"
  by (simp_all add: fun_eq_iff totals_def)

lemma totals_emit [total_laws]: "totals (emit env r wanted conf known strat st) = totals st"
  by (simp add: emit_def total_laws split: list.split)

lemma totals_mark [total_laws]: "totals (mark_taint env r st) = totals st"
  by (simp add: mark_taint_def total_laws Let_def split: option.splits prod.splits)

lemma totals_others [total_laws]:
  "totals (resolve_annotation env r st) = totals st" "totals (resolve_event env r st) = totals st" "totals (resolve_policy env r st) = totals st"
  "totals (resolve_api env ix r st) = totals st" "totals (resolve_file env ix r st) = totals st" "totals (resolve_handler env ix r st) = totals st"
  "totals (resolve_access env ix r st) = totals st" "totals (resolve_type env ix r st) = totals st" "totals (resolve_other env ix r st) = totals st"
  "totals (external_call env r st) = totals st"
  by (auto simp: resolve_annotation_def resolve_event_def resolve_policy_def resolve_api_def resolve_file_def resolve_handler_def
      resolve_access_def resolve_type_def resolve_other_def external_call_def total_laws Let_def split: prod.splits option.splits)

definition extra :: "renv \<Rightarrow> rindex \<Rightarrow> supers \<Rightarrow> raw_ref \<Rightarrow> string \<Rightarrow> int" where
  "extra env ix h r t = (if t = ''CALLS'' \<and> demoted env ix h r then -1 else 0)
     + (if t = ''REFERENCES'' \<and> (demoted env ix h r \<or> fell_back env ix h r) then 1 else 0)"

lemma totals_call: "r_type r = ''CALLS'' \<Longrightarrow> totals (resolve_call env ix h r st) t = totals st t + extra env ix h r t"
proof -
  assume r: "r_type r = ''CALLS''"
  obtain wanted strat where n: "narrow_call ix h r = (wanted, strat)" by fastforce
  have e: "\<not> py_startswith strat ''name''" if "strat = ''external_receiver''" using that by (simp add: py_startswith_def)
  have "totals (demote env r wanted strat st) = (totals st)(''CALLS'' := totals st ''CALLS'' - 1, ''REFERENCES'' := totals st ''REFERENCES'' + 1)"
    by (auto simp: demote_def total_laws r Let_def fun_eq_iff split: list.split)
  moreover have "totals (tail_fallback ix r strat st1) = (if fallback_reference_candidates ix (r_target_name r) = [] then totals st1
      else (totals st1)(''REFERENCES'' := totals st1 ''REFERENCES'' + 1))" for st1
    by (auto simp: tail_fallback_def total_laws Let_def split: list.split)
  ultimately show ?thesis using e
    by (auto simp: resolve_call_def n r total_laws Let_def extra_def demoted_def fell_back_def)
qed

lemma totals_step: "totals (loop_step env ix h r st) t = totals st t + (if t = r_type r then 1 else 0) + extra env ix h r t"
proof (cases "r_type r = ''CALLS''")
  case True
  then have "loop_step env ix h r st = resolve_call env ix h r (tally (r_type r) (add_total 1) st)"
    by (simp add: loop_step_def resolve_one_ref_def dropped_edge_types_def)
  with totals_call [OF True] show ?thesis by (auto simp: total_laws)
next
  case False
  then have "totals (resolve_one_ref env ix h r st) = totals st" for st
    by (simp add: resolve_one_ref_def Let_def total_laws)
  with False show ?thesis by (auto simp: loop_step_def total_laws extra_def demoted_def fell_back_def)
qed

definition tallied :: "('a \<Rightarrow> bool) \<Rightarrow> 'a list \<Rightarrow> int" where
  "tallied P xs = int (length (filter P xs))"

lemma tallied_Cons: "tallied P (x # xs) = (if P x then 1 else 0) + tallied P xs" "tallied P [] = 0"
  by (simp_all add: tallied_def)

lemma totals_loop:
  "totals (resolve_loop env ix h refs st) t = totals st t + tallied (\<lambda>r. r_type r = t) refs
     - (if t = ''CALLS'' then tallied (demoted env ix h) refs else 0)
     + (if t = ''REFERENCES'' then tallied (demoted env ix h) refs + tallied (fell_back env ix h) refs else 0)"
proof (induction refs arbitrary: st)
  case (Cons r refs)
  have "\<not> (demoted env ix h r \<and> fell_back env ix h r)" by (auto simp: demoted_def fell_back_def)
  with Cons [of "loop_step env ix h r st"] show ?case
    by (auto simp: resolve_loop_def totals_step extra_def tallied_Cons)
qed (simp add: resolve_loop_def tallied_Cons)

text \<open>C19: for every type of reference the total is the sum of the four outcomes and, of a type that is dropped, its references, which
  have no outcome.  The total counts every reference of the type once, with two exceptions: a call that only a bare name on an
  unknown receiver leads to is counted under REFERENCES instead of CALLS, and a call that leads nowhere but whose last part
  names something is counted twice, unresolved or external under CALLS and once more under REFERENCES.\<close>

theorem coverage_adds_up:
  "let ix = build_rindex nodes edges refs; h = direct_supers ix edges; c = rs_coverage (resolve env nodes edges refs) t in
     cv_total c = cv_resolved c + cv_ambiguous c + cv_unresolved c + cv_external c
       + (if t \<in> dropped_edge_types then tallied (\<lambda>r. r_type r = t) refs else 0)
     \<and> cv_total c = tallied (\<lambda>r. r_type r = t) refs
       - (if t = ''CALLS'' then tallied (demoted env ix h) refs else 0)
       + (if t = ''REFERENCES'' then tallied (demoted env ix h) refs + tallied (fell_back env ix h) refs else 0)"
proof -
  let ?ix = "build_rindex nodes edges refs"
  let ?h = "direct_supers ?ix edges" and ?st = "resolve env nodes edges refs"
  have "deficit empty_state t = 0" by (simp add: deficit_def empty_state_def no_coverage_def)
  with loop_deficit [of env ?ix ?h refs empty_state t]
  have "deficit ?st t = (if t \<in> dropped_edge_types then tallied (\<lambda>r. r_type r = t) refs else 0)"
    by (simp add: resolve_def Let_def tallied_def)
  moreover have "totals empty_state t = 0" by (simp add: totals_def empty_state_def no_coverage_def)
  with totals_loop [of env ?ix ?h refs empty_state t]
  have "totals ?st t = tallied (\<lambda>r. r_type r = t) refs - (if t = ''CALLS'' then tallied (demoted env ?ix ?h) refs else 0)
       + (if t = ''REFERENCES'' then tallied (demoted env ?ix ?h) refs + tallied (fell_back env ?ix ?h) refs else 0)"
    by (simp add: resolve_def Let_def)
  ultimately show ?thesis unfolding Let_def deficit_def totals_def by linarith
qed

section \<open>Where edges come from\<close>

text \<open>An edge repeats its reference's source and evidence; only a call may change its type.\<close>

definition traced :: "renv \<Rightarrow> raw_ref list \<Rightarrow> edge set" where
  "traced env refs = {make_edge r et d conf s |r et d conf s.
     r \<in> set refs \<and> r_type r \<notin> dropped_edge_types \<and>
     (et = [] \<or> r_type r = ''CALLS'' \<and> (et = ''REFERENCES'' \<or> et = ''CALLS_EXTERNAL'')) \<and>
     (r_type r = ''CALLS'' \<longrightarrow> r_ref_file r \<notin> en_skip_files env)}"

definition all_edges :: "edge set \<Rightarrow> rstate \<Rightarrow> bool" where
  "all_edges P st \<longleftrightarrow> set (rs_edges st) \<subseteq> P"

named_theorems edge_laws \<open>what an effect adds to the edges\<close>

lemma all_edges_tally [edge_laws]: "all_edges P (tally t f st) = all_edges P st"
  by (simp add: all_edges_def tally_def)

lemma all_edges_node [edge_laws]: "all_edges P (add_node n st) = all_edges P st"
  by (simp add: all_edges_def add_node_def)

lemma all_edges_push [edge_laws]:
  "all_edges P (push_edge r et d conf s st) \<longleftrightarrow> all_edges P st \<and> make_edge r et d conf s \<in> P"
  by (auto simp: all_edges_def push_edge_def Let_def)

lemma all_edges_pushes [edge_laws]:
  "all_edges P (push_edges r et ns conf s st) \<longleftrightarrow>
     all_edges P st \<and> (\<lambda>c. make_edge r et (s_id c) conf s) ` set ns \<subseteq> P"
  unfolding push_edges_def by (induction ns arbitrary: st) (auto simp: all_edges_push)

lemma all_edges_updates [edge_laws]:
  "all_edges P (rs_annotations_update f st) = all_edges P st" "all_edges P (rs_events_update f st) = all_edges P st"
  "all_edges P (rs_policies_update f st) = all_edges P st" "all_edges P (rs_endpoints_update g st) = all_edges P st"
  "all_edges P (rs_external_update g st) = all_edges P st" "all_edges P (rs_cap_emit_update k st) = all_edges P st"
  "all_edges P (rs_cap_recv_update k st) = all_edges P st" "all_edges P (rs_cap_by_type_update l st) = all_edges P st"
  "all_edges P (rs_marks_update m st) = all_edges P st"
  by (simp_all add: all_edges_def)

lemma all_edges_mark [edge_laws]: "all_edges P (mark_taint env r st) = all_edges P st"
  by (simp add: mark_taint_def edge_laws Let_def split: option.splits prod.splits)

lemma emit_edges:
  "all_edges P st \<Longrightarrow> (\<And>d conf s. make_edge r [] d conf s \<in> P) \<Longrightarrow>
     all_edges P (emit env r wanted conf known strat st)"
  by (auto simp: emit_def edge_laws split: list.splits)

lemma plain_edges:
  assumes "all_edges P st" "\<And>d conf s. make_edge r [] d conf s \<in> P"
  shows "all_edges P (resolve_annotation env r st)" "all_edges P (resolve_event env r st)"
    "all_edges P (resolve_policy env r st)" "all_edges P (resolve_api env ix r st)"
    "all_edges P (resolve_file env ix r st)" "all_edges P (resolve_handler env ix r st)"
    "all_edges P (resolve_access env ix r st)" "all_edges P (resolve_type env ix r st)"
    "all_edges P (resolve_other env ix r st)"
  using assms emit_edges [OF assms, of env]
  by (auto simp: resolve_annotation_def resolve_event_def resolve_policy_def resolve_api_def resolve_file_def
      resolve_handler_def resolve_access_def resolve_type_def resolve_other_def edge_laws Let_def
      split: prod.splits option.splits)

lemma call_edges:
  assumes "all_edges P st"
    and "r_ref_file r \<notin> en_skip_files env \<Longrightarrow> (\<And>et d conf s.
           et = [] \<or> et = ''REFERENCES'' \<or> et = ''CALLS_EXTERNAL'' \<Longrightarrow> make_edge r et d conf s \<in> P)"
  shows "all_edges P (resolve_call env ix h r st)"
proof (cases "r_ref_file r \<in> en_skip_files env")
  case True
  then show ?thesis using assms(1) by (simp add: resolve_call_def edge_laws)
next
  case False
  note ok = assms(2) [OF False]
  have "all_edges P (external_call env r st)"
    using assms(1) ok by (auto simp: external_call_def edge_laws Let_def)
  moreover have "all_edges P (demote env r wanted strat st)" for wanted strat
    using assms(1) ok by (auto simp: demote_def edge_laws Let_def split: list.splits)
  moreover have "all_edges P st1 \<Longrightarrow> all_edges P (tail_fallback ix r strat st1)" for strat st1
    using ok by (auto simp: tail_fallback_def edge_laws Let_def split: list.splits)
  moreover have "all_edges P (emit env r wanted conf known strat st)" for wanted conf known strat
    using assms(1) ok by (auto intro: emit_edges)
  ultimately show ?thesis using assms(1)
    by (auto simp: resolve_call_def Let_def edge_laws split: prod.splits)
qed

lemma one_edges:
  assumes "all_edges (traced env refs) st" "r \<in> set refs"
  shows "all_edges (traced env refs) (resolve_one_ref env ix h r st)"
proof (cases "r_type r \<in> dropped_edge_types")
  case True
  then show ?thesis using assms by (simp add: resolve_one_ref_def)
next
  case False
  show ?thesis
  proof (cases "r_type r = ''CALLS''")
    case True
    have "all_edges (traced env refs) (resolve_call env ix h r st)"
      by (rule call_edges [OF assms(1)]) (use False True assms(2) in \<open>force simp: traced_def\<close>)
    then show ?thesis using False True by (simp add: resolve_one_ref_def)
  next
    case other: False
    then have "make_edge r [] d conf s \<in> traced env refs" for d conf s
      using False assms(2) by (force simp: traced_def)
    from plain_edges [OF assms(1) this, of env] other show ?thesis
      by (simp add: resolve_one_ref_def Let_def assms(1))
  qed
qed

lemma loop_edges:
  "all_edges (traced env refs) st \<Longrightarrow> set rs \<subseteq> set refs \<Longrightarrow> all_edges (traced env refs) (resolve_loop env ix h rs st)"
  unfolding resolve_loop_def
  by (induction rs arbitrary: st) (simp_all add: loop_step_def one_edges edge_laws)

lemma resolved_from:
  "set (rs_edges (resolve env nodes edges refs)) \<subseteq> {make_edge r et d conf s |r et d conf s.
     r \<in> set refs \<and> r_type r \<notin> dropped_edge_types \<and>
     (et = [] \<or> r_type r = ''CALLS'' \<and> (et = ''REFERENCES'' \<or> et = ''CALLS_EXTERNAL'')) \<and>
     \<not> (r_type r = ''CALLS'' \<and> r_ref_file r \<in> en_skip_files env)}"
proof -
  have "all_edges (traced env refs) empty_state" by (simp add: all_edges_def empty_state_def)
  from loop_edges [OF this subset_refl]
  have "set (rs_edges (resolve env nodes edges refs)) \<subseteq> traced env refs"
    unfolding all_edges_def resolve_def Let_def by simp
  then show ?thesis unfolding traced_def by (simp only: de_Morgan_conj imp_conv_disj)
qed

text \<open>Every edge carries the source and the evidence of one of the references; only calls
  turn into edges of another type, and only weak references or external calls; a dropped type
  and a call of a file that a precise resolver handled leave no edge at all.\<close>

theorem edges_traced:
  "set (rs_edges (resolve env nodes edges refs)) \<subseteq> {make_edge r et d conf s |r et d conf s.
     r \<in> set refs \<and> r_type r \<notin> dropped_edge_types \<and>
     (et = [] \<or> r_type r = ''CALLS'' \<and> (et = ''REFERENCES'' \<or> et = ''CALLS_EXTERNAL'')) \<and>
     \<not> (r_type r = ''CALLS'' \<and> r_ref_file r \<in> en_skip_files env)}"
  by (rule resolved_from)

section \<open>Edges end at known nodes\<close>

definition grounded :: "string set \<Rightarrow> rstate \<Rightarrow> bool" where
  "grounded ids st \<longleftrightarrow> (let known = n_id ` set (rs_nodes st) in
     e_dst ` set (rs_edges st) \<subseteq> ids \<union> known \<and> ran (rs_annotations st) \<subseteq> known \<and>
     ran (rs_events st) \<subseteq> known \<and> ran (rs_policies st) \<subseteq> known \<and>
     rs_endpoints st \<subseteq> known \<and> rs_external st \<subseteq> known)"

named_theorems ground_laws \<open>when an effect keeps edges grounded\<close>

lemma grounded_tally [ground_laws]: "grounded ids (tally t f st) = grounded ids st"
  by (simp add: grounded_def tally_def Let_def)

lemma grounded_caps [ground_laws]:
  "grounded ids (rs_cap_emit_update k st) = grounded ids st"
  "grounded ids (rs_cap_recv_update k st) = grounded ids st"
  "grounded ids (rs_cap_by_type_update l st) = grounded ids st"
  "grounded ids (rs_marks_update m st) = grounded ids st"
  by (simp_all add: grounded_def)

lemma push_nodes [simp]: "rs_nodes (push_edge r et d conf s st) = rs_nodes st"
  by (simp add: push_edge_def Let_def)

lemma grounded_push: "grounded ids st \<Longrightarrow> d \<in> ids \<or> d \<in> n_id ` set (rs_nodes st) \<Longrightarrow> grounded ids (push_edge r et d conf s st)"
  by (auto simp: grounded_def push_edge_def make_edge_def Let_def)

lemma grounded_pushes: "grounded ids st \<Longrightarrow> s_id ` set ns \<subseteq> ids \<Longrightarrow> grounded ids (push_edges r et ns conf s st)"
  unfolding push_edges_def by (induction ns arbitrary: st) (simp_all add: grounded_push)

lemma grounded_emit:
  "grounded ids st \<Longrightarrow> s_id ` set wanted \<subseteq> ids \<Longrightarrow> grounded ids (emit env r wanted conf known strat st)"
  unfolding emit_def using grounded_pushes [of ids st wanted]
  by (auto simp: ground_laws grounded_push split: list.splits)

text \<open>Creating a node on first use, and the edge to it.\<close>

lemma grounded_create:
  assumes "grounded ids st"
  shows "n_id n = i \<Longrightarrow> grounded ids (push_edge r et i conf s (add_node n (st\<lparr>rs_annotations := (rs_annotations st)(k \<mapsto> i)\<rparr>)))"
    "n_id n = i \<Longrightarrow> grounded ids (push_edge r et i conf s (add_node n (st\<lparr>rs_events := (rs_events st)(k \<mapsto> i)\<rparr>)))"
    "n_id n = i \<Longrightarrow> grounded ids (push_edge r et i conf s (add_node n (st\<lparr>rs_policies := (rs_policies st)(k \<mapsto> i)\<rparr>)))"
    "n_id n = i \<Longrightarrow> grounded ids (push_edge r et i conf s (add_node n (st\<lparr>rs_endpoints := insert i (rs_endpoints st)\<rparr>)))"
    "n_id n = i \<Longrightarrow> grounded ids (push_edge r et i conf s (add_node n (st\<lparr>rs_external := insert i (rs_external st)\<rparr>)))"
  using assms by (auto simp: grounded_def add_node_def push_edge_def make_edge_def ran_def Let_def split: if_splits)

lemma grounded_known:
  assumes "grounded ids st"
  shows "rs_annotations st k = Some i \<Longrightarrow> i \<in> n_id ` set (rs_nodes st)"
    "rs_events st k = Some i \<Longrightarrow> i \<in> n_id ` set (rs_nodes st)"
    "rs_policies st k = Some i \<Longrightarrow> i \<in> n_id ` set (rs_nodes st)"
    "i \<in> rs_endpoints st \<Longrightarrow> i \<in> n_id ` set (rs_nodes st)"
    "i \<in> rs_external st \<Longrightarrow> i \<in> n_id ` set (rs_nodes st)"
  using assms ranI [of "rs_annotations st" k i] ranI [of "rs_events st" k i] ranI [of "rs_policies st" k i]
  unfolding grounded_def Let_def by blast+

lemma grounded_reuse:
  assumes "grounded ids st"
  shows "rs_annotations st k = Some i \<Longrightarrow> grounded ids (push_edge r et i conf s st)"
    "rs_events st k = Some i \<Longrightarrow> grounded ids (push_edge r et i conf s st)"
    "rs_policies st k = Some i \<Longrightarrow> grounded ids (push_edge r et i conf s st)"
    "i \<in> rs_endpoints st \<Longrightarrow> grounded ids (push_edge r et i conf s st)"
    "i \<in> rs_external st \<Longrightarrow> grounded ids (push_edge r et i conf s st)"
  by (rule grounded_push [OF assms disjI2], erule grounded_known [OF assms])+

lemma mk_node_id [simp]: "n_id (mk_node i l nm f rp) = i"
  by (simp add: mk_node_def)

lemma grounded_synth:
  assumes "grounded ids st"
  shows "grounded ids (resolve_annotation env r st)" "grounded ids (resolve_event env r st)"
    "grounded ids (resolve_policy env r st)"
  using assms
  by (auto simp: resolve_annotation_def resolve_event_def resolve_policy_def ground_laws Let_def
      grounded_create grounded_reuse split: option.splits prod.splits)

lemma endpoints_mem: "set (match_endpoints (rx_endpoints (build_rindex nodes edges refs)) m rt) \<subseteq> set nodes"
proof -
  have "rx_endpoints (build_rindex nodes edges refs) = endpoint_index nodes" by (simp add: build_rindex_def Let_def)
  then show ?thesis
    unfolding match_endpoints_def Let_def by (auto simp: endpoints_hold split: if_splits)
qed

lemma grounded_api:
  assumes "grounded (s_id ` set nodes) st"
  shows "grounded (s_id ` set nodes) (resolve_api env (build_rindex nodes edges refs) r st)"
  using assms endpoints_mem [of nodes edges refs]
  by (auto simp: resolve_api_def ground_laws Let_def grounded_create grounded_reuse image_mono
      intro!: grounded_pushes split: prod.splits)

lemma index_mem:
  "set (nx_by_name (rx_names (build_rindex nodes edges refs)) k) \<subseteq> set nodes"
  "set (nx_classes (rx_names (build_rindex nodes edges refs)) k) \<subseteq> set nodes"
  "set (nx_files (rx_names (build_rindex nodes edges refs)) k) \<subseteq> set nodes"
  "set (members (mi_fields (rx_members (build_rindex nodes edges refs))) fk) \<subseteq> set nodes"
  "set (members (mi_file_fields (rx_members (build_rindex nodes edges refs))) fk) \<subseteq> set nodes"
  by (auto simp: build_rindex_def Let_def names_hold) (cases fk, auto simp: members_hold)+

lemma narrow_type_mem: "set (fst (narrow_type (build_rindex nodes edges refs) r)) \<subseteq> set nodes"
  unfolding type_least using index_mem(2) by (force simp: least_by_def)

lemma narrow_call_mem: "set (fst (narrow_call (build_rindex nodes edges refs) h r)) \<subseteq> set nodes"
proof -
  let ?ix = "build_rindex nodes edges refs"
  let ?p = "call_pool ?ix (r_target_name r)"
  let ?steps = "scope_steps ?ix r @ import_steps ?ix r @ receiver_steps ?ix h r"
  have "set ?p \<subseteq> set nodes" by (auto simp: pool_set)
  moreover have "set (fst (first_hit ?steps (?p, ''name''))) \<subseteq> set ?p"
    by (rule first_hit_subset) (rule steps_pool [OF _ refl], simp_all)
  ultimately have "set (fst (apply_arity r (first_hit ?steps (?p, ''name'')))) \<subseteq> set nodes"
    using apply_arity_subset [of r "first_hit ?steps (?p, ''name'')"] by blast
  then show ?thesis by (simp add: narrow_call_def Let_def)
qed

lemma grounded_lookup:
  fixes nodes edges refs r
  defines "ix \<equiv> build_rindex nodes edges refs"
  assumes st: "grounded (s_id ` set nodes) st"
  shows "grounded (s_id ` set nodes) (resolve_file env ix r st)"
    "grounded (s_id ` set nodes) (resolve_handler env ix r st)"
    "grounded (s_id ` set nodes) (resolve_access env ix r st)"
    "grounded (s_id ` set nodes) (resolve_type env ix r st)"
    "grounded (s_id ` set nodes) (resolve_other env ix r st)"
proof -
  note mem = index_mem [of nodes edges refs, folded ix_def]
  have emits: "set wanted \<subseteq> set nodes \<Longrightarrow> grounded (s_id ` set nodes) (emit env r wanted conf known strat st)"
    for wanted conf known strat by (intro grounded_emit [OF st] image_mono)
  have "set (file_candidates ix r) \<subseteq> set nodes"
    using mem(3) by (auto simp: file_candidates_def Let_def split: option.splits)
  then show "grounded (s_id ` set nodes) (resolve_file env ix r st)"
    by (auto simp: resolve_file_def Let_def ground_laws st intro!: emits split: prod.splits)
  have "rx_fqn ix k = Some c \<Longrightarrow> c \<in> set nodes" for k c
    using fqn_mem by (simp add: ix_def build_rindex_def Let_def)
  then show "grounded (s_id ` set nodes) (resolve_handler env ix r st)"
    using mem(2) by (auto simp: resolve_handler_def Let_def ground_laws intro!: emits grounded_push st split: option.splits)
  show "grounded (s_id ` set nodes) (resolve_access env ix r st)"
    unfolding resolve_access_def Let_def
    by (auto split: prod.splits option.splits intro!: emits intro: subsetD [OF mem(4)] subsetD [OF mem(5)])
  show "grounded (s_id ` set nodes) (resolve_type env ix r st)"
    using narrow_type_mem [of nodes edges refs r]
    by (auto simp: resolve_type_def ix_def split: prod.splits intro!: emits)
  show "grounded (s_id ` set nodes) (resolve_other env ix r st)"
    unfolding resolve_other_def Let_def by (auto intro!: emits intro: subsetD [OF mem(1)])
qed

lemma grounded_mark [ground_laws]: "grounded ids (mark_taint env r st) = grounded ids st"
  by (simp add: mark_taint_def ground_laws Let_def split: option.splits prod.splits)

lemma grounded_call:
  assumes st: "grounded (s_id ` set nodes) st"
  shows "grounded (s_id ` set nodes) (resolve_call env (build_rindex nodes edges refs) h r st)"
proof -
  let ?ix = "build_rindex nodes edges refs"
  obtain wanted strat where nc: "narrow_call ?ix h r = (wanted, strat)" by (cases "narrow_call ?ix h r")
  with narrow_call_mem [of nodes edges refs h r] have w: "s_id ` set wanted \<subseteq> s_id ` set nodes" by auto
  have ext: "grounded (s_id ` set nodes) (external_call env r st)"
    unfolding external_call_def Let_def
    by (auto simp: ground_laws st grounded_create grounded_reuse)
  have dem: "grounded (s_id ` set nodes) (demote env r wanted strat st)"
    unfolding demote_def Let_def using w
    by (auto simp: ground_laws st intro!: grounded_push grounded_pushes split: list.splits)
  have em: "grounded (s_id ` set nodes) (emit env r wanted conf known strat st)" for conf known
    by (rule grounded_emit [OF st w])
  have "set (fallback_reference_candidates ?ix (r_target_name r)) \<subseteq> set nodes"
    by (auto simp: fallback_reference_candidates_def Let_def intro: subsetD [OF index_mem(1)])
  then have fb: "grounded (s_id ` set nodes) st1 \<Longrightarrow> grounded (s_id ` set nodes) (tail_fallback ?ix r strat st1)" for st1
    unfolding tail_fallback_def Let_def
    by (auto simp: ground_laws intro!: grounded_push grounded_pushes split: list.splits)
  show ?thesis
    unfolding resolve_call_def Let_def nc prod.case
    using fb [OF em] by (auto simp: ground_laws st ext dem em)
qed

lemma grounded_step:
  "grounded (s_id ` set nodes) st \<Longrightarrow> grounded (s_id ` set nodes) (loop_step env (build_rindex nodes edges refs) h r st)"
  unfolding loop_step_def resolve_one_ref_def Let_def
  by (simp add: ground_laws grounded_synth grounded_api grounded_lookup grounded_call)

lemma grounded_loop:
  "grounded (s_id ` set nodes) st \<Longrightarrow> grounded (s_id ` set nodes) (resolve_loop env (build_rindex nodes edges refs) h rs st)"
  unfolding resolve_loop_def by (induction rs arbitrary: st) (simp_all add: grounded_step)

lemma resolved_ends:
  "e_dst ` set (rs_edges (resolve env nodes edges refs)) \<subseteq>
     s_id ` set nodes \<union> n_id ` set (rs_nodes (resolve env nodes edges refs))"
proof -
  have "grounded (s_id ` set nodes) empty_state" by (simp add: grounded_def empty_state_def)
  from grounded_loop [OF this, of env edges refs "direct_supers (build_rindex nodes edges refs) edges" refs]
  show ?thesis by (simp add: resolve_def Let_def grounded_def)
qed

text \<open>Every edge ends at a node of the repository or at a node that the resolver itself
  created: it never leaves an edge dangling.\<close>

theorem edges_grounded:
  "e_dst ` set (rs_edges (resolve env nodes edges refs)) \<subseteq>
     s_id ` set nodes \<union> n_id ` set (rs_nodes (resolve env nodes edges refs))"
  by (rule resolved_ends)

end
