(* ===== verification/ResolveStream.thy ===== *)
theory ResolveStream
  imports ResolveProps
begin

text \<open>
  The fan-out cap, the streaming sink and the resume of \<open>resolve\<close>
  (\<open>graph_core/resolver.py\<close>).  The sink is an argument: what it returns for a batch is kept
  in the place of the batch.
\<close>

section \<open>Definitions\<close>

record 'e sink_state =
  sk_state :: rstate
  sk_kept :: "'e list"
  sk_flushed :: nat
  sk_calls :: "(node list \<times> edge list) list"

text \<open>\<open>_sink_flush\<close>: \<open>rs_edges\<close> holds the edges behind \<open>flushed_edges\<close>, \<open>sk_kept\<close> those before.\<close>

definition sink_flush :: "(node list \<Rightarrow> edge list \<Rightarrow> 'e list) \<Rightarrow> 'e sink_state \<Rightarrow> 'e sink_state" where
  "sink_flush sink s =
     (let st = sk_state s; ns = drop (sk_flushed s) (rs_nodes st); es = rs_edges st in
      if es = [] \<and> sk_flushed s = length (rs_nodes st) then s
      else s\<lparr>sk_state := st\<lparr>rs_edges := []\<rparr>, sk_kept := sk_kept s @ sink ns es,
             sk_flushed := length (rs_nodes st), sk_calls := sk_calls s @ [(ns, es)]\<rparr>)"

definition sink_step ::
  "nat \<Rightarrow> (node list \<Rightarrow> edge list \<Rightarrow> 'e list) \<Rightarrow> renv \<Rightarrow> rindex \<Rightarrow> supers \<Rightarrow> raw_ref \<Rightarrow> 'e sink_state \<Rightarrow> 'e sink_state" where
  "sink_step batch sink env ix h r s =
     (let s1 = (if length (rs_edges (sk_state s)) \<ge> batch then sink_flush sink s else s)
      in s1\<lparr>sk_state := loop_step env ix h r (sk_state s1)\<rparr>)"

definition sink_run ::
  "nat \<Rightarrow> (node list \<Rightarrow> edge list \<Rightarrow> 'e list) \<Rightarrow> renv \<Rightarrow> rindex \<Rightarrow> supers \<Rightarrow> raw_ref list \<Rightarrow> 'e sink_state" where
  "sink_run batch sink env ix h refs =
     sink_flush sink (fold (sink_step batch sink env ix h) refs
       \<lparr>sk_state = empty_state, sk_kept = [], sk_flushed = 0, sk_calls = []\<rparr>)"

text \<open>What a checkpoint saves, and what a resumed run starts from.\<close>

record checkpoint =
  ck_next :: nat
  ck_nodes :: "node list"
  ck_annotations :: "string \<rightharpoonup> string"
  ck_events :: "string \<rightharpoonup> string"
  ck_policies :: "string \<rightharpoonup> string"
  ck_endpoints :: "string set"
  ck_edges :: "edge list"
  ck_coverage :: "string \<Rightarrow> coverage"

definition save_checkpoint :: "nat \<Rightarrow> rstate \<Rightarrow> checkpoint" where
  "save_checkpoint i st = \<lparr>ck_next = i, ck_nodes = rs_nodes st, ck_annotations = rs_annotations st,
     ck_events = rs_events st, ck_policies = rs_policies st, ck_endpoints = rs_endpoints st,
     ck_edges = rs_edges st, ck_coverage = rs_coverage st\<rparr>"

definition restore :: "checkpoint \<Rightarrow> rstate" where
  "restore ck = empty_state\<lparr>rs_nodes := ck_nodes ck, rs_annotations := ck_annotations ck,
     rs_events := ck_events ck, rs_policies := ck_policies ck, rs_endpoints := ck_endpoints ck,
     rs_edges := ck_edges ck, rs_coverage := ck_coverage ck\<rparr>"

text \<open>The references are numbered from 1; the checkpoint at number \<open>i\<close> is taken before
  reference \<open>i\<close> is resolved, and a resumed loop skips the numbers up to the saved one.\<close>

definition checkpoint_at :: "renv \<Rightarrow> rindex \<Rightarrow> supers \<Rightarrow> raw_ref list \<Rightarrow> nat \<Rightarrow> checkpoint" where
  "checkpoint_at env ix h refs i = save_checkpoint i (resolve_loop env ix h (take (i - 1) refs) empty_state)"

definition resume :: "renv \<Rightarrow> rindex \<Rightarrow> supers \<Rightarrow> raw_ref list \<Rightarrow> checkpoint \<Rightarrow> rstate" where
  "resume env ix h refs ck =
     fold (\<lambda>(i, r) st. if i \<le> ck_next ck then st else loop_step env ix h r st) (enumerate 1 refs) (restore ck)"

section \<open>Bare-name fan-out\<close>

definition named :: "edge \<Rightarrow> bool" where
  "named e = py_startswith (e_strategy e) ''name''"

definition named_count :: "rstate \<Rightarrow> nat" where
  "named_count st = length (filter named (rs_edges st))"

named_theorems count_laws \<open>what an effect adds to the bare-name edges\<close>

lemma count_same [count_laws]:
  "named_count (tally t f st) = named_count st" "named_count (add_node n st) = named_count st"
  "named_count (rs_annotations_update a st) = named_count st" "named_count (rs_events_update a st) = named_count st"
  "named_count (rs_policies_update a st) = named_count st" "named_count (rs_endpoints_update g st) = named_count st"
  "named_count (rs_external_update g st) = named_count st" "named_count (rs_cap_emit_update k st) = named_count st"
  "named_count (rs_cap_recv_update k st) = named_count st" "named_count (rs_cap_by_type_update l st) = named_count st"
  "named_count (rs_marks_update m st) = named_count st"
  by (simp_all add: named_count_def tally_def add_node_def)

lemma count_push [count_laws]:
  "named_count (push_edge r et d conf s st) = named_count st + (if py_startswith s ''name'' then 1 else 0)"
  by (simp add: named_count_def push_edge_def make_edge_def named_def Let_def)

lemma count_pushes [count_laws]:
  "named_count (push_edges r et ns conf s st) = named_count st + (if py_startswith s ''name'' then length ns else 0)"
  unfolding push_edges_def by (induction ns arbitrary: st) (simp_all add: count_push)

lemma count_mark [count_laws]: "named_count (mark_taint env r st) = named_count st"
  by (simp add: mark_taint_def count_laws Let_def split: option.splits prod.splits)

lemma not_named [simp]:
  "\<not> py_startswith ''annotation'' ''name''" "\<not> py_startswith ''fuzzy_name'' ''name''"
  "\<not> py_startswith ''event_marker'' ''name''" "\<not> py_startswith ''auth_marker'' ''name''"
  "\<not> py_startswith ''api_match'' ''name''" "\<not> py_startswith ''api_external'' ''name''"
  "\<not> py_startswith ''api_unresolved'' ''name''" "\<not> py_startswith ''handler_fqn'' ''name''"
  "\<not> py_startswith ''external_typed'' ''name''" "\<not> py_startswith (''none'' @ s) ''name''"
  by (simp_all add: py_startswith_def)

lemma emit_count:
  "en_name_cap env \<noteq> 0 \<Longrightarrow> named_count (emit env r wanted conf known strat st) \<le> named_count st + en_name_cap env"
  by (auto simp: emit_def count_laws over_cap_def split: list.splits)

lemma synth_count:
  "named_count (resolve_annotation env r st) = named_count st"
  "named_count (resolve_event env r st) = named_count st"
  "named_count (resolve_policy env r st) = named_count st"
  "named_count (resolve_api env ix r st) = named_count st"
  by (auto simp: resolve_annotation_def resolve_event_def resolve_policy_def resolve_api_def fuzzy_def
      count_laws Let_def split: prod.splits option.splits)

lemma lookup_count:
  assumes "en_name_cap env \<noteq> 0"
  shows "named_count (resolve_file env ix r st) \<le> named_count st + en_name_cap env"
    "named_count (resolve_handler env ix r st) \<le> named_count st + en_name_cap env"
    "named_count (resolve_access env ix r st) \<le> named_count st + en_name_cap env"
    "named_count (resolve_type env ix r st) \<le> named_count st + en_name_cap env"
    "named_count (resolve_other env ix r st) \<le> named_count st + en_name_cap env"
  unfolding resolve_file_def resolve_handler_def resolve_access_def resolve_type_def resolve_other_def Let_def
  by (auto simp: emit_count [OF assms] count_laws split: prod.splits option.splits)

lemma narrow_call_none:
  "narrow_call ix h r = ([], s) \<Longrightarrow> s = ''external_receiver'' \<or> s = ''none''"
proof -
  assume nc: "narrow_call ix h r = ([], s)"
  let ?p = "call_pool ix (r_target_name r)"
  let ?steps = "scope_steps ix r @ import_steps ix r @ receiver_steps ix h r"
  have "?p \<noteq> [] \<Longrightarrow> fst (apply_arity r (first_hit ?steps (?p, ''name''))) \<noteq> []"
    by (simp add: apply_arity_empty first_hit_nonempty)
  with nc show ?thesis by (auto simp: narrow_call_def Let_def split: if_splits)
qed

lemma call_count:
  assumes cap: "en_name_cap env \<noteq> 0"
  shows "named_count (resolve_call env ix h r st) \<le> named_count st + en_name_cap env"
proof -
  obtain wanted strat where nc: "narrow_call ix h r = (wanted, strat)" by (cases "narrow_call ix h r")
  have ext: "named_count (external_call env r st) = named_count st"
    by (simp add: external_call_def count_laws Let_def)
  have dem: "named_count (demote env r wanted strat st) \<le> named_count st + en_name_cap env"
    using cap by (auto simp: demote_def count_laws over_cap_def Let_def split: list.splits)
  have "wanted = [] \<Longrightarrow> strat \<noteq> ''external_receiver'' \<Longrightarrow> strat = ''none''"
    using narrow_call_none nc by blast
  then have fb: "wanted = [] \<Longrightarrow> strat \<noteq> ''external_receiver'' \<Longrightarrow>
      named_count (tail_fallback ix r strat st1) = named_count st1" for st1
    by (auto simp: tail_fallback_def count_laws Let_def py_startswith_def split: list.splits)
  show ?thesis
    unfolding resolve_call_def Let_def nc prod.case
    using emit_count [OF cap, of r wanted INFERRED _ strat st] by (auto simp: count_laws ext dem fb)
qed

lemma one_count:
  "en_name_cap env \<noteq> 0 \<Longrightarrow> named_count (resolve_one_ref env ix h r st) \<le> named_count st + en_name_cap env"
  unfolding resolve_one_ref_def Let_def by (simp add: synth_count lookup_count call_count)

section \<open>Streaming\<close>

lemma mark_prefix [stream_laws]: "mark_taint env r (with_prefix es st) = with_prefix es (mark_taint env r st)"
  by (simp add: mark_taint_def stream_laws Let_def split: option.splits prod.splits)

lemma prefix_annotation [stream_laws]:
  "resolve_annotation env r (with_prefix es st) = with_prefix es (resolve_annotation env r st)"
  by (simp add: resolve_annotation_def stream_laws Let_def split: option.splits)

lemma prefix_event [stream_laws]:
  "resolve_event env r (with_prefix es st) = with_prefix es (resolve_event env r st)"
  by (simp add: resolve_event_def stream_laws Let_def split: option.splits prod.splits)

lemma prefix_policy [stream_laws]:
  "resolve_policy env r (with_prefix es st) = with_prefix es (resolve_policy env r st)"
  by (simp add: resolve_policy_def stream_laws Let_def split: option.splits prod.splits)

lemma prefix_api [stream_laws]:
  "resolve_api env ix r (with_prefix es st) = with_prefix es (resolve_api env ix r st)"
  by (simp add: resolve_api_def stream_laws Let_def split: prod.splits)

lemma prefix_file [stream_laws]:
  "resolve_file env ix r (with_prefix es st) = with_prefix es (resolve_file env ix r st)"
  by (simp add: resolve_file_def stream_laws Let_def split: prod.splits)

lemma prefix_handler [stream_laws]:
  "resolve_handler env ix r (with_prefix es st) = with_prefix es (resolve_handler env ix r st)"
  by (simp add: resolve_handler_def stream_laws Let_def split: option.splits)

lemma prefix_access [stream_laws]:
  "resolve_access env ix r (with_prefix es st) = with_prefix es (resolve_access env ix r st)"
  by (simp add: resolve_access_def stream_laws Let_def split: prod.splits)

lemma prefix_type [stream_laws]:
  "resolve_type env ix r (with_prefix es st) = with_prefix es (resolve_type env ix r st)"
  by (simp add: resolve_type_def stream_laws Let_def split: prod.splits)

lemma prefix_other [stream_laws]:
  "resolve_other env ix r (with_prefix es st) = with_prefix es (resolve_other env ix r st)"
  by (simp add: resolve_other_def stream_laws Let_def )

lemma prefix_call [stream_laws]:
  "external_call env r (with_prefix es st) = with_prefix es (external_call env r st)"
  "demote env r wanted strat (with_prefix es st) = with_prefix es (demote env r wanted strat st)"
  "tail_fallback ix r strat (with_prefix es st) = with_prefix es (tail_fallback ix r strat st)"
  by (simp_all add: external_call_def demote_def tail_fallback_def stream_laws Let_def split: list.splits)

lemma prefix_one [stream_laws]:
  "resolve_call env ix h r (with_prefix es st) = with_prefix es (resolve_call env ix h r st)"
  "resolve_one_ref env ix h r (with_prefix es st) = with_prefix es (resolve_one_ref env ix h r st)"
proof -
  show call: "resolve_call env ix h r (with_prefix es st) = with_prefix es (resolve_call env ix h r st)"
    by (simp add: resolve_call_def stream_laws Let_def split: prod.splits)
  show "resolve_one_ref env ix h r (with_prefix es st) = with_prefix es (resolve_one_ref env ix h r st)"
    by (simp add: resolve_one_ref_def stream_laws call Let_def)
qed

lemma prefix_loop [stream_laws]:
  "loop_step env ix h r (with_prefix es st) = with_prefix es (loop_step env ix h r st)"
  by (simp add: loop_step_def stream_laws)

lemma step_appends: "loop_step env ix h r st = with_prefix (rs_edges st) (loop_step env ix h r (st\<lparr>rs_edges := []\<rparr>))"
proof -
  have "st = with_prefix (rs_edges st) (st\<lparr>rs_edges := []\<rparr>)" by (simp add: with_prefix_def)
  then have "loop_step env ix h r st = loop_step env ix h r (with_prefix (rs_edges st) (st\<lparr>rs_edges := []\<rparr>))"
    by (rule arg_cong)
  then show ?thesis by (simp only: prefix_loop)
qed

text \<open>C20: with a cap set, one reference adds at most that many edges whose strategy is \<open>name\<close> or one of its refinements,
  however many declarations share the name; and it only ever appends.  The other strategies that rest on a name alone (handler_name,
  kind_hint and fallback_tail) have no cap.\<close>

theorem name_fanout_capped:
  assumes "en_name_cap env \<noteq> 0"
  shows "\<exists>es. rs_edges (loop_step env ix h r st) = rs_edges st @ es
    \<and> length (filter (\<lambda>e. py_startswith (e_strategy e) ''name'') es) \<le> en_name_cap env"
proof -
  let ?e = "st\<lparr>rs_edges := []\<rparr>"
  have "named_count (loop_step env ix h r ?e) \<le> named_count (tally (r_type r) (add_total 1) ?e) + en_name_cap env"
    unfolding loop_step_def by (rule one_count [OF assms])
  then have "length (filter named (rs_edges (loop_step env ix h r ?e))) \<le> en_name_cap env"
    by (simp add: count_laws) (simp add: named_count_def)
  moreover have "rs_edges (loop_step env ix h r st) = rs_edges st @ rs_edges (loop_step env ix h r ?e)"
    by (subst step_appends) (simp add: stream_laws)
  ultimately show ?thesis unfolding named_def by blast
qed

definition demo_env :: renv where
  "demo_env = \<lparr>en_repo = ''r'', en_make_id = (\<lambda>a b c. c @ b), en_name_cap = 2, en_skip_files = {},
     en_categories = {}, en_marking = False\<rparr>"

definition demo_classes :: "slim_node list" where
  "demo_classes = map (\<lambda>i. node_to_slim (mk_node i ''Class'' ''A'' (i @ ''.A'') ''r'')) [''x'', ''y'', ''z'']"

theorem name_fanout_capped_witness:
  "(\<exists>es. rs_edges (loop_step demo_env (build_rindex demo_classes [] []) [] (mk_ref ''INSTANTIATES'' ''m'' ''A'') empty_state)
       = rs_edges empty_state @ es \<and> length (filter (\<lambda>e. py_startswith (e_strategy e) ''name'') es) \<le> 2)
   \<and> rs_cap_emit (loop_step demo_env (build_rindex demo_classes [] []) [] (mk_ref ''INSTANTIATES'' ''m'' ''A'') empty_state) = 1"
proof
  have cap: "en_name_cap demo_env = 2" by (simp add: demo_env_def)
  have "en_name_cap demo_env \<noteq> 0" by (simp add: cap)
  from name_fanout_capped [OF this, of "build_rindex demo_classes [] []" "[]" "mk_ref ''INSTANTIATES'' ''m'' ''A''" empty_state]
  show "\<exists>es. rs_edges (loop_step demo_env (build_rindex demo_classes [] []) [] (mk_ref ''INSTANTIATES'' ''m'' ''A'') empty_state)
       = rs_edges empty_state @ es \<and> length (filter (\<lambda>e. py_startswith (e_strategy e) ''name'') es) \<le> 2"
    unfolding cap .
  show "rs_cap_emit (loop_step demo_env (build_rindex demo_classes [] []) [] (mk_ref ''INSTANTIATES'' ''m'' ''A'') empty_state) = 1"
    by code_simp
qed

text \<open>The strategies without a cap: three edges although the cap is two.\<close>

definition demo_functions :: "slim_node list" where
  "demo_functions = map (\<lambda>i. node_to_slim (mk_node i ''Function'' ''f'' (i @ ''.f'') ''r'')) [''x'', ''y'', ''z'']"

definition strategies_of :: "rstate \<Rightarrow> string list" where
  "strategies_of st = map e_strategy (rs_edges st)"

lemma uncapped_names:
  "strategies_of (loop_step demo_env (build_rindex demo_classes [] []) [] (mk_ref ''HANDLED_BY'' ''m'' ''A'') empty_state)
     = [''handler_name'', ''handler_name'', ''handler_name'']"
  "strategies_of (loop_step demo_env (build_rindex demo_functions [] []) [] (mk_ref ''OVERRIDES'' ''m'' ''f'') empty_state)
     = [''kind_hint'', ''kind_hint'', ''kind_hint'']"
  "strategies_of (loop_step demo_env (build_rindex demo_functions [] []) [] (mk_ref ''CALLS'' ''m'' ''q.f'') empty_state)
     = [''none+fallback_tail'', ''none+fallback_tail'', ''none+fallback_tail'']"
  by code_simp+

section \<open>Nodes are only added\<close>

definition extends :: "rstate \<Rightarrow> rstate \<Rightarrow> bool" where
  "extends st st' \<longleftrightarrow> prefix (rs_nodes st) (rs_nodes st')"

lemma nodes_same [simp]:
  "rs_nodes (tally t f st) = rs_nodes st" "rs_nodes (add_node n st) = rs_nodes st @ [n]"
  "rs_nodes (push_edges r et ns conf s st) = rs_nodes st" "rs_nodes (mark_taint env r st) = rs_nodes st"
  unfolding push_edges_def
  by (simp_all add: tally_def add_node_def mark_taint_def Let_def split: option.splits prod.splits)
    (induction ns arbitrary: st, simp_all)

lemma emit_nodes [simp]: "rs_nodes (emit env r wanted conf known strat st) = rs_nodes st"
  by (simp add: emit_def split: list.splits)

lemma synth_nodes:
  "extends st (resolve_annotation env r st)" "extends st (resolve_event env r st)"
  "extends st (resolve_policy env r st)" "extends st (resolve_api env ix r st)"
  "extends st (external_call env r st)"
  by (auto simp: extends_def resolve_annotation_def resolve_event_def resolve_policy_def resolve_api_def
      external_call_def Let_def split: prod.splits option.splits)

lemma lookup_nodes [simp]:
  "rs_nodes (resolve_file env ix r st) = rs_nodes st" "rs_nodes (resolve_handler env ix r st) = rs_nodes st"
  "rs_nodes (resolve_access env ix r st) = rs_nodes st" "rs_nodes (resolve_type env ix r st) = rs_nodes st"
  "rs_nodes (resolve_other env ix r st) = rs_nodes st" "rs_nodes (demote env r wanted strat st) = rs_nodes st"
  "rs_nodes (tail_fallback ix r strat st) = rs_nodes st"
  by (simp_all add: resolve_file_def resolve_handler_def resolve_access_def resolve_type_def resolve_other_def
      demote_def tail_fallback_def Let_def split: prod.splits option.splits list.splits)

lemma call_nodes: "extends st (resolve_call env ix h r st)"
  using synth_nodes(5) [of st env r]
  by (auto simp: extends_def resolve_call_def Let_def split: prod.splits)

lemma step_adds_nodes: "\<exists>ns. rs_nodes (loop_step env ix h r st) = rs_nodes st @ ns"
proof -
  have "extends st (resolve_one_ref env ix h r st)" for st
    unfolding resolve_one_ref_def Let_def using call_nodes synth_nodes by (simp add: extends_def)
  from this [of "tally (r_type r) (add_total 1) st"] show ?thesis
    by (auto simp: extends_def loop_step_def prefix_def)
qed

section \<open>The sink\<close>

text \<open>A sink that writes its nodes first never writes an edge before its end.\<close>

fun safe_writes :: "string set \<Rightarrow> (node list \<times> edge list) list \<Rightarrow> bool" where
  "safe_writes ids [] = True"
| "safe_writes ids ((ns, es) # calls) =
     (e_dst ` set es \<subseteq> ids \<union> n_id ` set ns \<and> safe_writes (ids \<union> n_id ` set ns) calls)"

lemma safe_writes_snoc:
  "safe_writes ids (calls @ [(ns, es)]) \<longleftrightarrow>
     safe_writes ids calls \<and> e_dst ` set es \<subseteq> ids \<union> n_id ` set (concat (map fst calls)) \<union> n_id ` set ns"
  by (induction ids calls rule: safe_writes.induct) (auto simp: image_Un Un_assoc)

definition streams ::
  "string set \<Rightarrow> (node list \<Rightarrow> edge list \<Rightarrow> 'e list) \<Rightarrow> 'e sink_state \<Rightarrow> rstate \<Rightarrow> bool" where
  "streams ids sink s u \<longleftrightarrow>
     u = with_prefix (concat (map snd (sk_calls s))) (sk_state s) \<and>
     sk_flushed s \<le> length (rs_nodes u) \<and>
     concat (map fst (sk_calls s)) = take (sk_flushed s) (rs_nodes u) \<and>
     sk_kept s = concat (map (\<lambda>(ns, es). sink ns es) (sk_calls s)) \<and>
     safe_writes ids (sk_calls s) \<and> grounded ids u"

lemma streams_flush:
  assumes "streams ids sink s u"
  shows "streams ids sink (sink_flush sink s) u
    \<and> rs_edges (sk_state (sink_flush sink s)) = [] \<and> sk_flushed (sink_flush sink s) = length (rs_nodes u)"
proof (cases "rs_edges (sk_state s) = [] \<and> sk_flushed s = length (rs_nodes (sk_state s))")
  case True
  then show ?thesis using assms by (auto simp: sink_flush_def streams_def stream_laws)
next
  case False
  let ?st = "sk_state s" and ?done = "concat (map snd (sk_calls s))"
  let ?ns = "drop (sk_flushed s) (rs_nodes ?st)"
  have nodes: "rs_nodes u = rs_nodes ?st" and edges: "rs_edges u = ?done @ rs_edges ?st"
    and g: "grounded ids u" and old: "concat (map fst (sk_calls s)) = take (sk_flushed s) (rs_nodes u)"
    using assms by (auto simp: streams_def stream_laws)
  have "e_dst ` set (rs_edges ?st) \<subseteq> ids \<union> n_id ` set (rs_nodes u)"
    using g edges by (auto simp: grounded_def Let_def)
  also have "rs_nodes u = concat (map fst (sk_calls s)) @ ?ns"
    unfolding old nodes by simp
  finally have fin: "e_dst ` set (rs_edges ?st) \<subseteq> ids \<union> n_id ` set (concat (map fst (sk_calls s))) \<union> n_id ` set ?ns"
    by (simp only: set_append image_Un Un_assoc)
  have "safe_writes ids (sk_calls s)" using assms by (simp only: streams_def)
  with fin have safe: "safe_writes ids (sk_calls s @ [(?ns, rs_edges ?st)])" by (simp only: safe_writes_snoc)
  have flush: "sink_flush sink s = s\<lparr>sk_state := ?st\<lparr>rs_edges := []\<rparr>, sk_kept := sk_kept s @ sink ?ns (rs_edges ?st),
      sk_flushed := length (rs_nodes ?st), sk_calls := sk_calls s @ [(?ns, rs_edges ?st)]\<rparr>"
    using False by (simp only: sink_flush_def Let_def if_False)
  have "u = with_prefix (?done @ rs_edges ?st) (?st\<lparr>rs_edges := []\<rparr>)"
    using assms by (simp add: streams_def with_prefix_def)
  moreover have "concat (map fst (sk_calls s)) @ ?ns = rs_nodes u" unfolding old nodes by simp
  moreover have "sk_kept s = concat (map (\<lambda>(ns, es). sink ns es) (sk_calls s))" using assms by (simp add: streams_def)
  ultimately show ?thesis
    unfolding streams_def flush using safe g nodes by simp
qed

lemma streams_step:
  assumes "streams (s_id ` set nodes) sink s u"
  shows "streams (s_id ` set nodes) sink (sink_step batch sink env (build_rindex nodes edges refs) h r s)
      (loop_step env (build_rindex nodes edges refs) h r u)"
proof -
  let ?ix = "build_rindex nodes edges refs"
  define s1 where "s1 = (if length (rs_edges (sk_state s)) \<ge> batch then sink_flush sink s else s)"
  have s1: "streams (s_id ` set nodes) sink s1 u" using assms streams_flush [OF assms] by (simp add: s1_def)
  have u: "loop_step env ?ix h r u = with_prefix (concat (map snd (sk_calls s1))) (loop_step env ?ix h r (sk_state s1))"
    using s1 by (simp add: streams_def stream_laws)
  have parts: "sk_flushed s1 \<le> length (rs_nodes u)" "concat (map fst (sk_calls s1)) = take (sk_flushed s1) (rs_nodes u)"
    "sk_kept s1 = concat (map (\<lambda>(ns, es). sink ns es) (sk_calls s1))" "safe_writes (s_id ` set nodes) (sk_calls s1)"
    using s1 unfolding streams_def by blast+
  have "\<exists>ns. rs_nodes (loop_step env ?ix h r u) = rs_nodes u @ ns"
    by (rule step_adds_nodes)
  then obtain ns where ns: "rs_nodes (loop_step env ?ix h r u) = rs_nodes u @ ns" by blast
  have g: "grounded (s_id ` set nodes) (loop_step env ?ix h r u)"
    by (rule grounded_step) (use s1 in \<open>unfold streams_def, blast\<close>)
  show ?thesis
    unfolding streams_def sink_step_def Let_def s1_def [symmetric] using parts u g ns by simp
qed

lemma streams_fold:
  "streams (s_id ` set nodes) sink s u \<Longrightarrow>
     streams (s_id ` set nodes) sink (fold (sink_step batch sink env (build_rindex nodes edges refs) h) rs s)
       (resolve_loop env (build_rindex nodes edges refs) h rs u)"
  unfolding resolve_loop_def by (induction rs arbitrary: s u) (simp_all add: streams_step)

lemma sink_streams:
  fixes nodes edges refs env batch and sink :: "node list \<Rightarrow> edge list \<Rightarrow> 'e list"
  defines "ix \<equiv> build_rindex nodes edges refs"
  defines "s \<equiv> sink_run batch sink env ix (direct_supers ix edges) refs"
  shows "streams (s_id ` set nodes) sink s (resolve env nodes edges refs)" "rs_edges (sk_state s) = []"
    "sk_flushed s = length (rs_nodes (resolve env nodes edges refs))"
proof -
  let ?start = "\<lparr>sk_state = empty_state, sk_kept = [], sk_flushed = 0, sk_calls = []\<rparr>"
  have "streams (s_id ` set nodes) sink ?start empty_state"
    by (simp add: streams_def with_prefix_def grounded_def empty_state_def)
  from streams_flush [OF streams_fold [OF this]]
  show "streams (s_id ` set nodes) sink s (resolve env nodes edges refs)" "rs_edges (sk_state s) = []"
    "sk_flushed s = length (rs_nodes (resolve env nodes edges refs))"
    unfolding s_def ix_def sink_run_def resolve_def Let_def by blast+
qed

lemma streamed:
  fixes nodes edges refs env batch and sink :: "node list \<Rightarrow> edge list \<Rightarrow> 'e list"
  defines "ix \<equiv> build_rindex nodes edges refs"
  defines "s \<equiv> sink_run batch sink env ix (direct_supers ix edges) refs" and "whole \<equiv> resolve env nodes edges refs"
  shows "concat (map snd (sk_calls s)) = rs_edges whole" "concat (map fst (sk_calls s)) = rs_nodes whole"
    "sk_kept s = concat (map (\<lambda>(ns, es). sink ns es) (sk_calls s))" "rs_coverage (sk_state s) = rs_coverage whole"
    "safe_writes (s_id ` set nodes) (sk_calls s)" "rs_nodes (sk_state s) = rs_nodes whole"
proof -
  note run = sink_streams [where nodes = nodes and edges = edges and refs = refs and env = env and batch = batch and sink = sink, folded ix_def, folded s_def, folded whole_def]
  from run(1) have u: "whole = with_prefix (concat (map snd (sk_calls s))) (sk_state s)" by (simp add: streams_def)
  from run(2) show "concat (map snd (sk_calls s)) = rs_edges whole" by (subst u) (simp add: stream_laws)
  show "rs_coverage (sk_state s) = rs_coverage whole" "rs_nodes (sk_state s) = rs_nodes whole"
    by (subst u, simp add: stream_laws)+
  from run show "concat (map fst (sk_calls s)) = rs_nodes whole"
    "sk_kept s = concat (map (\<lambda>(ns, es). sink ns es) (sk_calls s))" "safe_writes (s_id ` set nodes) (sk_calls s)"
    by (simp_all add: streams_def)
qed

text \<open>C21: streaming the result out in batches, of whatever size, hands the sink exactly the
  nodes and the edges of the run without a sink, each once and in order, keeps the same
  tallies, retains what the sink returned in their place, and never hands over an edge
  before the node it ends at.\<close>

theorem streaming_exact:
  "let ix = build_rindex nodes edges refs; h = direct_supers ix edges;
       s = sink_run batch sink env ix h refs; whole = resolve env nodes edges refs
   in concat (map snd (sk_calls s)) = rs_edges whole
    \<and> concat (map fst (sk_calls s)) = rs_nodes whole
    \<and> sk_kept s = concat (map (\<lambda>(ns, es). sink ns es) (sk_calls s))
    \<and> rs_coverage (sk_state s) = rs_coverage whole
    \<and> safe_writes (s_id ` set nodes) (sk_calls s)"
  by (simp add: Let_def streamed)

section \<open>Resuming\<close>

definition total :: "rstate \<Rightarrow> string \<Rightarrow> int" where
  "total st t = cv_total (rs_coverage st t)"

named_theorems total_laws \<open>what an effect does to the totals\<close>

lemma total_tally [total_laws]:
  "total (tally t (add_total i) st) = (total st)(t := total st t + i)"
  "total (tally t add_resolved st) = total st" "total (tally t add_ambiguous st) = total st"
  "total (tally t add_unresolved st) = total st" "total (tally t add_external st) = total st"
  by (auto simp: total_def tally_def add_total_def add_resolved_def add_ambiguous_def
      add_unresolved_def add_external_def)

lemma total_same [total_laws]:
  "total (add_node n st) = total st" "total (push_edge r et d conf s st) = total st"
  "total (rs_annotations_update a st) = total st" "total (rs_events_update a st) = total st"
  "total (rs_policies_update a st) = total st" "total (rs_endpoints_update g st) = total st"
  "total (rs_external_update g st) = total st" "total (rs_cap_emit_update k st) = total st"
  "total (rs_cap_recv_update k st) = total st" "total (rs_cap_by_type_update l st) = total st"
  "total (rs_marks_update m st) = total st"
  by (simp_all add: fun_eq_iff total_def add_node_def push_edge_def Let_def)

lemma total_pushes [total_laws]: "total (push_edges r et ns conf s st) = total st"
  unfolding push_edges_def by (induction ns arbitrary: st) (simp_all add: total_laws)

lemma total_mark [total_laws]: "total (mark_taint env r st) = total st"
  by (simp add: mark_taint_def total_laws Let_def split: option.splits prod.splits)

lemma total_emit [total_laws]: "total (emit env r wanted conf known strat st) = total st"
  by (simp add: emit_def total_laws split: list.splits)

lemma total_plain [total_laws]:
  "total (resolve_annotation env r st) = total st"
  "total (resolve_event env r st) = total st"
  "total (resolve_policy env r st) = total st"
  "total (resolve_api env ix r st) = total st"
  "total (resolve_file env ix r st) = total st"
  "total (resolve_handler env ix r st) = total st"
  "total (resolve_access env ix r st) = total st"
  "total (resolve_type env ix r st) = total st"
  "total (resolve_other env ix r st) = total st"
  "total (external_call env r st) = total st"
proof -
  show "total (resolve_annotation env r st) = total st"
    by (simp add: resolve_annotation_def total_laws Let_def split: option.splits)
  show "total (resolve_event env r st) = total st"
    by (simp add: resolve_event_def total_laws Let_def split: option.splits prod.splits)
  show "total (resolve_policy env r st) = total st"
    by (simp add: resolve_policy_def total_laws Let_def split: option.splits prod.splits)
  show "total (resolve_api env ix r st) = total st"
    by (simp add: resolve_api_def total_laws Let_def split: prod.splits)
  show "total (resolve_file env ix r st) = total st"
    by (simp add: resolve_file_def total_laws Let_def split: prod.splits)
  show "total (resolve_handler env ix r st) = total st"
    by (simp add: resolve_handler_def total_laws Let_def split: option.splits)
  show "total (resolve_access env ix r st) = total st"
    by (simp add: resolve_access_def total_laws Let_def split: prod.splits)
  show "total (resolve_type env ix r st) = total st"
    by (simp add: resolve_type_def total_laws Let_def split: prod.splits)
  show "total (resolve_other env ix r st) = total st"
    by (simp add: resolve_other_def total_laws Let_def )
  show "total (external_call env r st) = total st"
    by (simp add: external_call_def total_laws Let_def )
qed

lemma total_call: "t \<noteq> ''REFERENCES'' \<Longrightarrow> t \<noteq> r_type r \<Longrightarrow> total (resolve_call env ix h r st) t = total st t"
proof -
  assume t: "t \<noteq> ''REFERENCES''" "t \<noteq> r_type r"
  have "total (demote env r wanted strat st) t = total st t" for wanted strat
    unfolding demote_def Let_def using t by (simp add: total_laws split: list.splits)
  moreover have "total (tail_fallback ix r strat st1) t = total st1 t" for strat st1
    unfolding tail_fallback_def Let_def using t by (simp add: total_laws split: list.splits)
  ultimately show ?thesis by (simp add: resolve_call_def total_laws Let_def split: prod.splits)
qed

lemma total_step:
  assumes "t \<noteq> ''CALLS''" "t \<noteq> ''REFERENCES''"
  shows "total (loop_step env ix h r st) t = total st t + (if r_type r = t then 1 else 0)"
proof -
  have "total (resolve_one_ref env ix h r st) t = total st t" for st
  proof (cases "r_type r = ''CALLS''")
    case True
    with assms have "t \<noteq> r_type r" by simp
    with True show ?thesis by (simp add: resolve_one_ref_def total_call [OF assms(2)] Let_def)
  next
    case False
    then show ?thesis unfolding resolve_one_ref_def Let_def by (simp add: total_laws)
  qed
  then show ?thesis by (simp add: loop_step_def total_laws)
qed

lemma total_loop:
  assumes "t \<noteq> ''CALLS''" "t \<noteq> ''REFERENCES''"
  shows "total (resolve_loop env ix h rs st) t = total st t + int (length (filter (\<lambda>r. r_type r = t) rs))"
  unfolding resolve_loop_def by (induction rs arbitrary: st) (simp_all add: total_step [OF assms])

lemma resume_drop: "resume env ix h refs ck = resolve_loop env ix h (drop (ck_next ck) refs) (restore ck)"
proof -
  have "fold (\<lambda>(i, r) st. if i \<le> k then st else loop_step env ix h r st) (enumerate n rs) st
      = fold (loop_step env ix h) (drop (Suc k - n) rs) st" for n k rs st
  proof (induction rs arbitrary: n st)
    case (Cons r rs)
    show ?case
    proof (cases "n \<le> k")
      case True
      then have "Suc k - n = Suc (Suc k - Suc n)" by simp
      with True Cons.IH [of "Suc n"] show ?thesis by simp
    next
      case False
      then have "Suc k - n = 0" "Suc k - Suc n = 0" by simp_all
      with False Cons.IH [of "Suc n"] show ?thesis by simp
    qed
  qed simp
  from this [of "ck_next ck" 1] show ?thesis by (simp add: resume_def resolve_loop_def)
qed

text \<open>A run resumed from the checkpoint taken at a reference never resolves that reference:
  it ends with one reference of its type fewer than the run that was not interrupted.\<close>

theorem resume_skips_one:
  assumes "1 \<le> i" "i \<le> length refs" "r_type (refs ! (i - 1)) = t" "t \<noteq> ''CALLS''" "t \<noteq> ''REFERENCES''"
  shows "cv_total (rs_coverage (resume env ix h refs (checkpoint_at env ix h refs i)) t) + 1 =
         cv_total (rs_coverage (resolve_loop env ix h refs empty_state) t)"
proof -
  let ?n = "\<lambda>rs. int (length (filter (\<lambda>r. r_type r = t) rs))"
  let ?ck = "checkpoint_at env ix h refs i"
  have "total (restore ?ck) t = total (resolve_loop env ix h (take (i - 1) refs) empty_state) t"
    by (simp add: total_def restore_def checkpoint_at_def save_checkpoint_def)
  moreover have "total empty_state t = 0" by (simp add: total_def empty_state_def no_coverage_def)
  moreover have "ck_next ?ck = i" by (simp add: checkpoint_at_def save_checkpoint_def)
  ultimately have "total (resume env ix h refs ?ck) t = ?n (take (i - 1) refs) + ?n (drop i refs)"
    by (simp add: resume_drop total_loop [OF assms(4,5)])
  moreover have "refs = take (i - 1) refs @ refs ! (i - 1) # drop i refs"
    using id_take_nth_drop [of "i - 1" refs] assms(1,2) by simp
  then have "?n refs = ?n (take (i - 1) refs @ refs ! (i - 1) # drop i refs)" by (rule arg_cong)
  then have "?n refs = ?n (take (i - 1) refs) + 1 + ?n (drop i refs)"
    by (simp only: filter_append filter.simps assms(3) if_True length_append list.size) simp
  moreover have "total (resolve_loop env ix h refs empty_state) t = ?n refs"
    using total_loop [OF assms(4,5), of env ix h refs empty_state]
    by (simp add: total_def empty_state_def no_coverage_def)
  ultimately show ?thesis unfolding total_def by simp
qed

theorem resume_skips_one_witness:
  "cv_total (rs_coverage (resume demo_env (build_rindex [] [] []) [] [mk_ref ''ANNOTATED_WITH'' ''m'' ''Test'']
      (checkpoint_at demo_env (build_rindex [] [] []) [] [mk_ref ''ANNOTATED_WITH'' ''m'' ''Test''] 1)) ''ANNOTATED_WITH'') = 0
   \<and> cv_total (rs_coverage (resolve_loop demo_env (build_rindex [] [] []) [] [mk_ref ''ANNOTATED_WITH'' ''m'' ''Test''] empty_state)
      ''ANNOTATED_WITH'') = 1"
proof -
  let ?refs = "[mk_ref ''ANNOTATED_WITH'' ''m'' ''Test'']" and ?ix = "build_rindex [] [] []"
  have t: "r_type (?refs ! (1 - 1)) = ''ANNOTATED_WITH''" by (simp add: mk_ref_def)
  have full: "cv_total (rs_coverage (resolve_loop demo_env ?ix [] ?refs empty_state) ''ANNOTATED_WITH'') = 1"
    using total_loop [of "''ANNOTATED_WITH''" demo_env ?ix "[]" ?refs empty_state]
    by (simp add: total_def empty_state_def no_coverage_def mk_ref_def)
  have "cv_total (rs_coverage (resume demo_env ?ix [] ?refs (checkpoint_at demo_env ?ix [] ?refs 1)) ''ANNOTATED_WITH'') + 1 =
      cv_total (rs_coverage (resolve_loop demo_env ?ix [] ?refs empty_state) ''ANNOTATED_WITH'')"
    by (rule resume_skips_one [OF _ _ t]) simp_all
  with full show ?thesis by linarith
qed

end
