(* ===== verification/Checkpoint.thy ===== *)
theory Checkpoint
  imports Canonical
begin

text \<open>
  Extraction checkpoints (\<open>graph_core/checkpoint.py\<close> and the batch loop of \<open>index_repo\<close>):
  what is on disk, one definition per function, and the loop with its crashes as a step
  relation, every atomic write of the code one step.  The extraction of a batch is an
  argument; a manifest that cannot be read is absent, and a batch file may be there and not be readable.
\<close>

section \<open>Directories\<close>

definition tag_char :: "char \<Rightarrow> bool" where
  "tag_char c = (let n = (of_char c :: nat) in
     is_digit c \<or> (65 \<le> n \<and> n \<le> 90) \<or> (97 \<le> n \<and> n \<le> 122) \<or> c \<in> set ''_.-'')"

definition safe_tag :: "string \<Rightarrow> string" where
  "safe_tag s = map (\<lambda>c. if tag_char c then c else CHR ''_'') s"

definition checkpoint_dir_for :: "string \<Rightarrow> string \<Rightarrow> string" where
  "checkpoint_dir_for root tag = root @ ''/'' @ safe_tag tag"

section \<open>One directory\<close>

record manifest =
  mf_total :: nat
  mf_size :: nat
  mf_done :: "nat list"

record disk =
  dk_manifest :: "manifest option"
  dk_batches :: "nat \<rightharpoonup> canonical_bundle option"

definition clear_checkpoint :: "disk \<Rightarrow> disk" where
  "clear_checkpoint d = \<lparr>dk_manifest = None, dk_batches = (\<lambda>_. None)\<rparr>"

definition write_manifest :: "manifest \<Rightarrow> disk \<Rightarrow> disk" where
  "write_manifest m d = d\<lparr>dk_manifest := Some m\<rparr>"

definition same_shape :: "nat \<Rightarrow> nat \<Rightarrow> manifest \<Rightarrow> bool" where
  "same_shape nb sz m = (mf_total m = nb \<and> mf_size m = sz)"

definition fresh_manifest :: "nat \<Rightarrow> nat \<Rightarrow> manifest" where
  "fresh_manifest nb sz = \<lparr>mf_total = nb, mf_size = sz, mf_done = []\<rparr>"

definition init_manifest :: "nat \<Rightarrow> nat \<Rightarrow> disk \<Rightarrow> manifest \<times> disk" where
  "init_manifest nb sz d =
     (case dk_manifest d of
        Some m \<Rightarrow> if same_shape nb sz m then (m, d)
                  else let f = fresh_manifest nb sz in (f, write_manifest f (clear_checkpoint d))
      | None \<Rightarrow> let f = fresh_manifest nb sz in (f, write_manifest f d))"

text \<open>\<open>save_batch\<close> in its two atomic writes: the batch file, then the manifest that names it.\<close>

definition write_batch :: "nat \<Rightarrow> canonical_bundle \<Rightarrow> disk \<Rightarrow> disk" where
  "write_batch i b d = d\<lparr>dk_batches := (dk_batches d)(i \<mapsto> Some b)\<rparr>"

definition mark_done :: "nat \<Rightarrow> manifest \<Rightarrow> manifest" where
  "mark_done i m = (if i \<in> set (mf_done m) then m else m\<lparr>mf_done := mf_done m @ [i]\<rparr>)"

definition save_batch :: "nat \<Rightarrow> canonical_bundle \<Rightarrow> manifest \<Rightarrow> disk \<Rightarrow> manifest \<times> disk" where
  "save_batch i b m d = (mark_done i m, write_manifest (mark_done i m) (write_batch i b d))"

definition batch_exists :: "nat \<Rightarrow> disk \<Rightarrow> bool" where
  "batch_exists i d = (dk_batches d i \<noteq> None)"

definition load_batch :: "nat \<Rightarrow> disk \<Rightarrow> canonical_bundle option" where
  "load_batch i d = (case dk_batches d i of None \<Rightarrow> None | Some content \<Rightarrow> content)"

text \<open>\<open>RefStream\<close>: the references of the batches in order; a batch that cannot be loaded is skipped.\<close>

definition ref_stream :: "nat \<Rightarrow> disk \<Rightarrow> raw_ref list" where
  "ref_stream n d = concat (map (\<lambda>i. case load_batch i d of None \<Rightarrow> [] | Some b \<Rightarrow> b_refs b) [0..<n])"

definition ref_stream_len :: "nat \<Rightarrow> disk \<Rightarrow> nat" where
  "ref_stream_len n d = sum_list (map (\<lambda>i. case load_batch i d of None \<Rightarrow> 0 | Some b \<Rightarrow> length (b_refs b)) [0..<n])"

lemma ref_stream_length: "length (ref_stream n d) = ref_stream_len n d"
  by (simp add: ref_stream_def ref_stream_len_def length_concat comp_def, rule arg_cong [of _ _ sum_list])
    (auto split: option.splits)

section \<open>Resolve checkpoints\<close>

text \<open>\<open>load_resolve_checkpoint\<close>: only a state saved for the same number of references is used.\<close>

definition load_resolve_checkpoint :: "nat \<Rightarrow> (nat \<times> 's) option \<Rightarrow> 's option" where
  "load_resolve_checkpoint refs saved = (case saved of None \<Rightarrow> None
     | Some (n, s) \<Rightarrow> if n = refs then Some s else None)"

section \<open>The batch loop, with crashes\<close>

datatype phase = Down | Running manifest nat | Written manifest nat | Finished

text \<open>A process starts (or starts again after a crash), goes through the batches in order,
  skips what an earlier process finished, and may crash between any two writes.\<close>

inductive loop_step :: "(nat \<Rightarrow> canonical_bundle) \<Rightarrow> nat \<Rightarrow> nat \<Rightarrow> phase \<times> disk \<Rightarrow> phase \<times> disk \<Rightarrow> bool"
  for produce n sz where
  start: "init_manifest n sz d = (m, d') \<Longrightarrow> loop_step produce n sz (Down, d) (Running m 0, d')"
| skip: "i < n \<Longrightarrow> i \<in> set (mf_done m) \<Longrightarrow> batch_exists i d \<Longrightarrow>
     loop_step produce n sz (Running m i, d) (Running m (Suc i), d)"
| save: "i < n \<Longrightarrow> \<not> (i \<in> set (mf_done m) \<and> batch_exists i d) \<Longrightarrow>
     loop_step produce n sz (Running m i, d) (Written m i, write_batch i (produce i) d)"
| mark: "loop_step produce n sz (Written m i, d)
     (Running (mark_done i m) (Suc i), write_manifest (mark_done i m) d)"
| finish: "loop_step produce n sz (Running m n, d) (Finished, d)"
| crash: "p \<noteq> Finished \<Longrightarrow> loop_step produce n sz (p, d) (Down, d)"

definition runs :: "(nat \<Rightarrow> canonical_bundle) \<Rightarrow> nat \<Rightarrow> nat \<Rightarrow> phase \<times> disk \<Rightarrow> phase \<times> disk \<Rightarrow> bool" where
  "runs produce n sz = (loop_step produce n sz)\<^sup>*\<^sup>*"

section \<open>A finished run has every batch\<close>

text \<open>The batches a run takes over: a manifest with the same number and size of batches names them, and
  their file is there.  The file is not looked at.\<close>

definition inherited :: "nat \<Rightarrow> nat \<Rightarrow> disk \<Rightarrow> nat \<Rightarrow> bool" where
  "inherited n sz d i \<longleftrightarrow> (\<exists>m. dk_manifest d = Some m \<and> mf_total m = n \<and> mf_size m = sz \<and> i \<in> set (mf_done m)) \<and> dk_batches d i \<noteq> None"

definition outcome_of :: "(nat \<Rightarrow> canonical_bundle) \<Rightarrow> nat \<Rightarrow> nat \<Rightarrow> disk \<Rightarrow> nat \<Rightarrow> canonical_bundle option option" where
  "outcome_of produce n sz d0 i = (if inherited n sz d0 i then dk_batches d0 i else Some (Some (produce i)))"

definition disk_ok :: "(nat \<Rightarrow> canonical_bundle) \<Rightarrow> nat \<Rightarrow> nat \<Rightarrow> disk \<Rightarrow> disk \<Rightarrow> bool" where
  "disk_ok produce n sz d0 d \<longleftrightarrow>
     (\<forall>i. inherited n sz d0 i \<longrightarrow> inherited n sz d i \<and> dk_batches d i = dk_batches d0 i)
     \<and> (\<forall>i. inherited n sz d i \<longrightarrow> dk_batches d i = outcome_of produce n sz d0 i)"

fun phase_ok :: "(nat \<Rightarrow> canonical_bundle) \<Rightarrow> nat \<Rightarrow> nat \<Rightarrow> disk \<Rightarrow> phase \<times> disk \<Rightarrow> bool" where
  "phase_ok produce n sz d0 (Down, d) = True"
| "phase_ok produce n sz d0 (Running m i, d) =
     (dk_manifest d = Some m \<and> same_shape n sz m \<and> (\<forall>j < i. dk_batches d j = outcome_of produce n sz d0 j) \<and> i \<le> n)"
| "phase_ok produce n sz d0 (Written m i, d) =
     (dk_manifest d = Some m \<and> same_shape n sz m \<and> (\<forall>j < i. dk_batches d j = outcome_of produce n sz d0 j) \<and>
      dk_batches d i = outcome_of produce n sz d0 i \<and> i < n)"
| "phase_ok produce n sz d0 (Finished, d) = (\<forall>j < n. dk_batches d j = outcome_of produce n sz d0 j)"

definition run_inv :: "(nat \<Rightarrow> canonical_bundle) \<Rightarrow> nat \<Rightarrow> nat \<Rightarrow> disk \<Rightarrow> phase \<times> disk \<Rightarrow> bool" where
  "run_inv produce n sz d0 s \<longleftrightarrow> disk_ok produce n sz d0 (snd s) \<and> phase_ok produce n sz d0 s"

lemma disk_ok_initial: "disk_ok produce n sz d d"
  by (simp add: disk_ok_def outcome_of_def)

lemma init_ok:
  assumes "disk_ok produce n sz d0 d" "init_manifest n sz d = (m, d')"
  shows "disk_ok produce n sz d0 d' \<and> dk_manifest d' = Some m \<and> same_shape n sz m"
proof -
  consider (kept) "dk_manifest d = Some m" "same_shape n sz m" "d' = d"
    | (fresh) e where "m = fresh_manifest n sz" "d' = write_manifest m e" "\<forall>m. dk_manifest d = Some m \<longrightarrow> \<not> same_shape n sz m"
    using assms(2) by (auto simp: init_manifest_def Let_def split: option.splits if_splits)
  then show ?thesis
  proof cases
    case kept
    with assms(1) show ?thesis by simp
  next
    case fresh
    have "\<not> inherited n sz d i" for i using fresh(3) by (auto simp: inherited_def same_shape_def)
    with assms(1) have "\<not> inherited n sz d0 i" for i unfolding disk_ok_def by blast
    moreover have "\<not> inherited n sz d' i" for i by (simp add: fresh inherited_def write_manifest_def fresh_manifest_def)
    ultimately show ?thesis by (simp add: disk_ok_def fresh write_manifest_def fresh_manifest_def same_shape_def)
  qed
qed

lemma step_inv: "loop_step produce n sz s t \<Longrightarrow> run_inv produce n sz d0 s \<Longrightarrow> run_inv produce n sz d0 t"
proof (induction rule: loop_step.induct)
  case (start d m d')
  then show ?case using init_ok [of produce n sz d0 d m d'] by (simp add: run_inv_def)
next
  case (skip i m d)
  then have "inherited n sz d i" by (simp add: run_inv_def inherited_def same_shape_def batch_exists_def)
  with skip(4) have "dk_batches d i = outcome_of produce n sz d0 i" by (simp add: run_inv_def disk_ok_def)
  with skip show ?case by (auto simp: run_inv_def less_Suc_eq)
next
  case (save i m d)
  have "\<not> inherited n sz d i" using save by (auto simp: run_inv_def inherited_def batch_exists_def)
  with save(3) have no: "\<not> inherited n sz d0 i" by (auto simp: run_inv_def disk_ok_def)
  have at: "dk_batches (write_batch i (produce i) d) j = (if j = i then Some (Some (produce i)) else dk_batches d j)" for j
    by (simp add: write_batch_def)
  have inh: "inherited n sz (write_batch i (produce i) d) j \<longleftrightarrow> inherited n sz d j \<or> j = i \<and> i \<in> set (mf_done m)" for j
    using save(3) by (auto simp: run_inv_def inherited_def write_batch_def same_shape_def)
  have "disk_ok produce n sz d0 (write_batch i (produce i) d)"
    using save(3) no unfolding disk_ok_def inh at run_inv_def by (auto simp: outcome_of_def)
  moreover have "dk_manifest (write_batch i (produce i) d) = dk_manifest d" by (simp add: write_batch_def)
  ultimately show ?case using save no by (auto simp: run_inv_def at outcome_of_def)
next
  case (mark m i d)
  let ?d = "write_manifest (mark_done i m) d"
  have s: "same_shape n sz m" "dk_manifest d = Some m" "dk_batches d i = outcome_of produce n sz d0 i" using mark by (simp_all add: run_inv_def)
  have inh: "inherited n sz ?d j \<longleftrightarrow> inherited n sz d j \<or> j = i" for j
    using s by (auto simp: inherited_def write_manifest_def mark_done_def same_shape_def outcome_of_def split: if_splits)
  have "disk_ok produce n sz d0 ?d"
    using mark s(3) unfolding disk_ok_def inh run_inv_def by (auto simp: write_manifest_def)
  with mark s show ?case
    by (auto simp: run_inv_def write_manifest_def mark_done_def same_shape_def less_Suc_eq)
qed (simp_all add: run_inv_def)

lemma runs_inv: "runs produce n sz s t \<Longrightarrow> run_inv produce n sz d0 s \<Longrightarrow> run_inv produce n sz d0 t"
  unfolding runs_def by (induction rule: rtranclp_induct) (auto intro: step_inv)

text \<open>C33: whatever is on disk before, and however often the process crashes and is started again, a run that finishes leaves for every
  batch what this extraction produces, except for a batch that was on disk already and is named by a manifest with the same
  number and size of batches: its file is taken over as it is, even when the repository has changed since or the file cannot be
  read, and an unreadable one is left out of the references streamed to the resolver.\<close>

theorem finished_has_every_batch:
  assumes "runs produce n sz (Down, d) (Finished, d')"
  shows "(\<forall>i < n. if inherited n sz d i then dk_batches d' i = dk_batches d i else load_batch i d' = Some (produce i))
    \<and> ref_stream n d' = concat (map (\<lambda>i. if inherited n sz d i then (case load_batch i d of None \<Rightarrow> [] | Some b \<Rightarrow> b_refs b)
        else b_refs (produce i)) [0..<n])"
proof -
  have "run_inv produce n sz d (Finished, d')"
    using runs_inv [OF assms] disk_ok_initial by (simp add: run_inv_def)
  then have all: "\<forall>i < n. dk_batches d' i = outcome_of produce n sz d i" by (simp add: run_inv_def)
  then have "ref_stream n d' = concat (map (\<lambda>i. if inherited n sz d i then (case load_batch i d of None \<Rightarrow> [] | Some b \<Rightarrow> b_refs b)
        else b_refs (produce i)) [0..<n])"
    unfolding ref_stream_def by (intro arg_cong [of _ _ concat] map_cong) (auto simp: load_batch_def outcome_of_def)
  with all show ?thesis by (simp add: load_batch_def outcome_of_def)
qed

text \<open>A batch of another content of the repository is taken over.\<close>

lemma stale_batch_resumed:
  assumes "dk_manifest d = Some \<lparr>mf_total = n, mf_size = sz, mf_done = [i]\<rparr>" "dk_batches d i = Some (Some old)"
    "runs produce n sz (Down, d) (Finished, d')" "i < n"
  shows "load_batch i d' = Some old"
proof -
  have inv: "run_inv produce n sz d (Finished, d')" using runs_inv [OF assms(3)] disk_ok_initial by (simp add: run_inv_def)
  have "inherited n sz d i" using assms(1,2) by (simp add: inherited_def)
  with inv assms(2,4) show ?thesis by (simp add: run_inv_def outcome_of_def load_batch_def)
qed

theorem finished_has_every_batch_witness:
  "let b = from_extractor [] [] [mk_ref ''CALLS'' ''m'' ''f'']; empty = \<lparr>dk_manifest = None, dk_batches = (\<lambda>_. None)\<rparr>
   in \<exists>d. runs (\<lambda>_. b) 1 10 (Down, empty) (Finished, d) \<and> ref_stream 1 d = [mk_ref ''CALLS'' ''m'' ''f'']"
proof -
  let ?b = "from_extractor [] [] [mk_ref ''CALLS'' ''m'' ''f'']"
  let ?empty = "\<lparr>dk_manifest = None, dk_batches = (\<lambda>_. None)\<rparr>"
  let ?m = "fresh_manifest 1 10"
  let ?d1 = "write_manifest ?m ?empty" and ?s = "loop_step (\<lambda>_. ?b) 1 10"
  let ?d2 = "write_batch 0 ?b ?d1"
  let ?d3 = "write_manifest (mark_done 0 ?m) (write_batch 0 ?b ?d2)"
  have "?s (Down, ?empty) (Running ?m 0, ?d1)"
    by (rule loop_step.start) (simp add: init_manifest_def Let_def)
  moreover have "?s (Running ?m 0, ?d1) (Written ?m 0, ?d2)"
    by (rule loop_step.save [of 0]) (simp_all add: fresh_manifest_def)
  moreover have "?s (Written ?m 0, ?d2) (Down, ?d2)" by (rule loop_step.crash) simp
  moreover have "?s (Down, ?d2) (Running ?m 0, ?d2)"
    by (rule loop_step.start) (simp add: init_manifest_def write_batch_def write_manifest_def same_shape_def fresh_manifest_def)
  moreover have "?s (Running ?m 0, ?d2) (Written ?m 0, write_batch 0 ?b ?d2)"
    by (rule loop_step.save [of 0]) (simp_all add: fresh_manifest_def)
  moreover have "?s (Written ?m 0, write_batch 0 ?b ?d2) (Running (mark_done 0 ?m) (Suc 0), ?d3)"
    by (rule loop_step.mark)
  moreover have "?s (Running (mark_done 0 ?m) (Suc 0), ?d3) (Finished, ?d3)"
    using loop_step.finish [of "\<lambda>_. ?b" "Suc 0" 10] by simp
  ultimately have r: "runs (\<lambda>_. ?b) 1 10 (Down, ?empty) (Finished, ?d3)"
    unfolding runs_def by (meson converse_rtranclp_into_rtranclp rtranclp.rtrancl_refl)
  from finished_has_every_batch [OF r]
  have "ref_stream 1 ?d3 = [mk_ref ''CALLS'' ''m'' ''f'']" by (simp add: from_extractor_def inherited_def)
  with r show ?thesis unfolding Let_def by blast
qed

end
