(* ===== verification/Derive.thy ===== *)
theory Derive
  imports Hierarchy
begin

text \<open>
  Derived edges of \<open>index_repo\<close> (\<open>graph_core/pipeline.py\<close>): overriding methods from the class
  hierarchy, and the tree of packages above the files.  The hash of a node identity is an
  argument.
\<close>

section \<open>Overrides\<close>

text \<open>The hierarchy the pass builds itself: edges between two known classes.\<close>

definition class_supers :: "(string \<rightharpoonup> slim_node) \<Rightarrow> slim_edge list \<Rightarrow> supers" where
  "class_supers byid edges = fold (\<lambda>e m.
     if (se_type e = ''EXTENDS'' \<or> se_type e = ''IMPLEMENTS'') \<and> class_at byid (se_src e) \<and> class_at byid (se_dst e)
     then group_add (se_src e) (se_dst e) m else m) edges []"

definition is_method :: "slim_node \<Rightarrow> bool" where
  "is_method n = (s_label n = ''Function'' \<and> s_kind n = ''method'')"

definition methods_of ::
  "(string \<rightharpoonup> slim_node) \<Rightarrow> (string \<rightharpoonup> string) \<Rightarrow> slim_node list \<Rightarrow> string \<times> string \<Rightarrow> slim_node list" where
  "methods_of byid par nodes = fold (\<lambda>n d.
     if is_method n \<and> class_parent byid (par (s_id n)) \<noteq> None
     then dd_append (the (par (s_id n)), s_name n) n d else d) nodes dd_empty"

definition override_edge :: "slim_node \<Rightarrow> slim_node \<Rightarrow> edge" where
  "override_edge n m = (mk_edge ''OVERRIDES'' (s_id n) (s_id m))\<lparr>e_confidence := INFERRED,
     e_extractor := ''heuristic'', e_strategy := ''hierarchy'', e_evidence_file := s_file n,
     e_evidence_line := s_start_line n\<rparr>"

type_synonym override_acc = "edge list \<times> (string \<times> string) set"

definition add_override :: "(string \<times> string) set \<Rightarrow> slim_node \<Rightarrow> slim_node \<Rightarrow> override_acc \<Rightarrow> override_acc" where
  "add_override skip n m acc = (case acc of (out, seen) \<Rightarrow>
     if s_id m \<noteq> s_id n \<and> s_param_count m = s_param_count n then
       if (s_id n, s_id m) \<in> skip then (out, seen)
       else if (s_id n, s_id m) \<notin> seen then (out @ [override_edge n m], insert (s_id n, s_id m) seen)
       else (out, seen)
     else (out, seen))"

text \<open>The ancestors by a stack: the last one pushed is visited first, each once.\<close>

function stack_walk :: "supers \<Rightarrow> (string \<Rightarrow> 'a \<Rightarrow> 'a) \<Rightarrow> string list \<Rightarrow> string set \<Rightarrow> 'a \<Rightarrow> 'a" where
  "stack_walk s f stack visited acc =
     (if stack = [] then acc
      else let anc = last stack; rest = butlast stack in
        if anc \<in> visited then stack_walk s f rest visited acc
        else stack_walk s f (rest @ supers_of s anc) (insert anc visited) (f anc acc))"
  by pat_completeness auto

termination
proof (relation "inv_image (less_than <*lex*> less_than)
    (\<lambda>(s, f, stack, visited, acc). (card (open_keys s visited), length stack))", goal_cases)
  case (3 s f stack visited acc anc rest)
  show ?case
  proof (cases "supers_of s anc = []")
    case True
    have "card (open_keys s (insert anc visited)) \<le> card (open_keys s visited)"
      by (rule card_mono) (auto simp: open_keys_def)
    with True 3 show ?thesis by (cases stack rule: rev_cases) auto
  next
    case False
    from supers_key [OF False] 3 have "open_keys s (insert anc visited) \<subset> open_keys s visited"
      by (auto simp: open_keys_def)
    then have "card (open_keys s (insert anc visited)) < card (open_keys s visited)"
      by (rule psubset_card_mono [rotated]) (simp add: open_keys_def)
    then show ?thesis by simp
  qed
next
  case (2 s f stack visited acc anc rest)
  then show ?case by (cases stack rule: rev_cases) auto
qed auto

declare stack_walk.simps [simp del]

definition overrides_of ::
  "(string \<times> string) set \<Rightarrow> supers \<Rightarrow> (string \<times> string \<Rightarrow> slim_node list) \<Rightarrow> string \<Rightarrow> slim_node \<Rightarrow> override_acc \<Rightarrow> override_acc" where
  "overrides_of skip s methods cls n acc =
     stack_walk s (\<lambda>anc. fold (add_override skip n) (methods (anc, s_name n))) (supers_of s cls) {} acc"

definition derive_overrides ::
  "string set \<Rightarrow> (string \<times> string) set \<Rightarrow> slim_node list \<Rightarrow> slim_edge list \<Rightarrow> edge list" where
  "derive_overrides skip_methods skip_pairs nodes edges =
     (let byid = nodes_by_id nodes; par = parent_of edges; s = class_supers byid edges; methods = methods_of byid par nodes
      in fst (fold (\<lambda>n acc.
           if \<not> is_method n \<or> s_id n \<in> skip_methods then acc
           else case par (s_id n) of None \<Rightarrow> acc | Some cls \<Rightarrow> overrides_of skip_pairs s methods cls n acc)
         nodes ([], {})))"

section \<open>What the walk visits\<close>

lemma walk_visits:
  fixes f :: "string \<Rightarrow> 'a \<Rightarrow> 'a" and b :: 'a
  shows "\<exists>vs. (\<forall>g b. stack_walk s g stack visited (b :: 'a) = fold g vs b)
      \<and> set stack \<subseteq> visited \<union> set vs \<and> set vs \<subseteq> (supers_rel s)\<^sup>* `` set stack
      \<and> supers_rel s `` set vs \<subseteq> visited \<union> set vs"
proof (induction s f stack visited b rule: stack_walk.induct)
  case (1 s f stack visited b)
  show ?case
  proof (cases "stack = []")
    case True
    then show ?thesis by (intro exI [of _ "[]"]) (simp add: stack_walk.simps)
  next
    case False
    let ?anc = "last stack" and ?rest = "butlast stack"
    have st: "set stack = insert ?anc (set ?rest)" using False by (cases stack rule: rev_cases) auto
    show ?thesis
    proof (cases "?anc \<in> visited")
      case True
      from 1(1) [OF False refl refl True] obtain vs where vs:
        "\<forall>g b. stack_walk s g ?rest visited (b :: 'a) = fold g vs b" "set ?rest \<subseteq> visited \<union> set vs"
        "set vs \<subseteq> (supers_rel s)\<^sup>* `` set ?rest" "supers_rel s `` set vs \<subseteq> visited \<union> set vs" by blast
      have "\<forall>g b. stack_walk s g stack visited (b :: 'a) = fold g vs b"
        using False True vs(1) by (simp add: stack_walk.simps [of _ _ stack] Let_def)
      then show ?thesis using vs True st by (intro exI [of _ vs]) auto
    next
      case new: False
      let ?next = "?rest @ supers_of s ?anc" and ?vis = "insert ?anc visited"
      from 1(2) [OF False refl refl new] obtain vs where vs:
        "\<forall>g b. stack_walk s g ?next ?vis (b :: 'a) = fold g vs b" "set ?next \<subseteq> ?vis \<union> set vs"
        "set vs \<subseteq> (supers_rel s)\<^sup>* `` set ?next" "supers_rel s `` set vs \<subseteq> ?vis \<union> set vs" by blast
      have w: "\<forall>g b. stack_walk s g stack visited (b :: 'a) = fold g (?anc # vs) b"
        using False new vs(1) by (simp add: stack_walk.simps [of _ _ stack] Let_def)
      have "set ?next \<subseteq> (supers_rel s)\<^sup>* `` set stack"
        unfolding st by (auto simp: supers_rel_def)
      then have "set vs \<subseteq> (supers_rel s)\<^sup>* `` set stack"
        using vs(3) by (blast intro: rtrancl_trans)
      then have r: "set (?anc # vs) \<subseteq> (supers_rel s)\<^sup>* `` set stack" using st by auto
      have "supers_rel s `` set (?anc # vs) \<subseteq> visited \<union> set (?anc # vs)"
        using vs(2,4) by (auto simp: supers_rel_def)
      moreover have "set stack \<subseteq> visited \<union> set (?anc # vs)" using vs(2) st by auto
      ultimately show ?thesis using w r by blast
    qed
  qed
qed

lemma walk_reaches:
  "\<exists>vs. (\<forall>g b. stack_walk s g (supers_of s c) {} (b :: 'a) = fold g vs b) \<and> set vs = (supers_rel s)\<^sup>+ `` {c}"
proof -
  from walk_visits [of s "supers_of s c" "{}", where 'a = 'a] obtain vs where vs:
    "\<forall>g b. stack_walk s g (supers_of s c) {} (b :: 'a) = fold g vs b" "set (supers_of s c) \<subseteq> set vs"
    "set vs \<subseteq> (supers_rel s)\<^sup>* `` set (supers_of s c)" "supers_rel s `` set vs \<subseteq> set vs" by auto
  have "set vs \<subseteq> (supers_rel s)\<^sup>+ `` {c}"
    using vs(3) by (auto simp: supers_rel_def trancl_unfold_left intro: rtrancl_into_trancl2)
  moreover have "(supers_rel s)\<^sup>+ `` {c} \<subseteq> set vs"
  proof
    fix a assume "a \<in> (supers_rel s)\<^sup>+ `` {c}"
    then have "(c, a) \<in> (supers_rel s)\<^sup>+" by simp
    then show "a \<in> set vs"
    proof induction
      case (base y)
      with vs(2) show ?case by (auto simp: supers_rel_def)
    next
      case (step y z)
      with vs(4) show ?case by auto
    qed
  qed
  ultimately show ?thesis using vs(1) by blast
qed

section \<open>The overriding pairs\<close>

definition pair_key :: "slim_node \<times> slim_node \<Rightarrow> string \<times> string" where
  "pair_key p = (s_id (fst p), s_id (snd p))"

definition pair_ok :: "(string \<times> string) set \<Rightarrow> slim_node \<times> slim_node \<Rightarrow> bool" where
  "pair_ok skip p = (s_id (snd p) \<noteq> s_id (fst p) \<and> s_param_count (snd p) = s_param_count (fst p) \<and> pair_key p \<notin> skip)"

definition after_pairs :: "(string \<times> string) set \<Rightarrow> (slim_node \<times> slim_node) list \<Rightarrow> override_acc \<Rightarrow> override_acc" where
  "after_pairs skip ps acc = (fst acc @ map (\<lambda>(n, m). override_edge n m) (kept pair_key (snd acc) (filter (pair_ok skip) ps)),
     snd acc \<union> pair_key ` set (filter (pair_ok skip) ps))"

lemma after_pairs_append: "after_pairs skip (ps @ qs) acc = after_pairs skip qs (after_pairs skip ps acc)"
  by (simp add: after_pairs_def kept_append image_Un Un_assoc)

lemma add_override_pairs: "add_override skip n m acc = after_pairs skip [(n, m)] acc"
  by (cases acc) (auto simp: add_override_def after_pairs_def pair_ok_def pair_key_def kept_def)

lemma fold_override_pairs: "fold (add_override skip n) ms acc = after_pairs skip (map (Pair n) ms) acc"
proof (induction ms arbitrary: acc)
  case Nil
  show ?case by (simp add: after_pairs_def kept_def)
next
  case (Cons m ms)
  then show ?case using after_pairs_append [of skip "[(n, m)]" "map (Pair n) ms" acc] by (simp add: add_override_pairs)
qed

lemma fold_pairs:
  "(\<And>x acc. x \<in> set xs \<Longrightarrow> g x acc = after_pairs skip (ps x) acc) \<Longrightarrow> fold g xs acc = after_pairs skip (concat (map ps xs)) acc"
proof (induction xs arbitrary: acc)
  case Nil
  show ?case by (simp add: after_pairs_def kept_def)
next
  case (Cons x xs)
  then show ?case by (simp add: after_pairs_append)
qed

lemma overrides_of_pairs:
  "\<exists>ps. (\<forall>acc. overrides_of skip s methods cls n acc = after_pairs skip ps acc)
      \<and> set ps = {(n, m) |m anc. (cls, anc) \<in> (supers_rel s)\<^sup>+ \<and> m \<in> set (methods (anc, s_name n))}"
proof -
  from walk_reaches [of s cls, where 'a = override_acc] obtain vs where vs:
    "\<forall>g b. stack_walk s g (supers_of s cls) {} (b :: override_acc) = fold g vs b" "set vs = (supers_rel s)\<^sup>+ `` {cls}" by blast
  let ?ps = "concat (map (\<lambda>anc. map (Pair n) (methods (anc, s_name n))) vs)"
  have "overrides_of skip s methods cls n acc = after_pairs skip ?ps acc" for acc
    unfolding overrides_of_def vs(1) [rule_format] by (rule fold_pairs) (rule fold_override_pairs)
  moreover have "set ?ps = {(n, m) |m anc. (cls, anc) \<in> (supers_rel s)\<^sup>+ \<and> m \<in> set (methods (anc, s_name n))}"
    using vs(2) by auto
  ultimately show ?thesis by blast
qed

lemma methods_of_holds:
  "methods_of byid par nodes (c, nm) = filter (\<lambda>n. is_method n \<and> s_name n = nm \<and> class_parent byid (par (s_id n)) = Some c) nodes"
proof -
  have "methods_of byid par nodes (c, nm) = filter (\<lambda>n. (is_method n \<and> class_parent byid (par (s_id n)) \<noteq> None)
      \<and> (the (par (s_id n)), s_name n) = (c, nm)) nodes"
    unfolding methods_of_def by (simp add: dd.look_build [where val = "\<lambda>n. n"])
  also have "\<dots> = filter (\<lambda>n. is_method n \<and> s_name n = nm \<and> class_parent byid (par (s_id n)) = Some c) nodes"
    by (rule filter_cong) (auto simp: class_parent_def split: option.splits if_splits)
  finally show ?thesis .
qed

lemma class_supers_rel:
  "supers_rel (class_supers byid edges) = {(se_src e, se_dst e) |e. e \<in> set edges
     \<and> (se_type e = ''EXTENDS'' \<or> se_type e = ''IMPLEMENTS'') \<and> class_at byid (se_src e) \<and> class_at byid (se_dst e)}"
  unfolding supers_rel_def supers_of_def class_supers_def
  by (auto simp: grp.look_build [where val = se_dst])

definition is_override ::
  "slim_node list \<Rightarrow> slim_edge list \<Rightarrow> slim_node \<Rightarrow> slim_node \<Rightarrow> bool" where
  "is_override nodes edges n m \<longleftrightarrow> (\<exists>c a. n \<in> set nodes \<and> m \<in> set nodes \<and> is_method n \<and> is_method m
     \<and> parent_of edges (s_id n) = Some c \<and> class_parent (nodes_by_id nodes) (parent_of edges (s_id m)) = Some a
     \<and> (c, a) \<in> {(se_src e, se_dst e) |e. e \<in> set edges \<and> (se_type e = ''EXTENDS'' \<or> se_type e = ''IMPLEMENTS'')
           \<and> class_at (nodes_by_id nodes) (se_src e) \<and> class_at (nodes_by_id nodes) (se_dst e)}\<^sup>+
     \<and> s_name m = s_name n \<and> s_param_count m = s_param_count n \<and> s_id m \<noteq> s_id n)"

lemma derive_pairs:
  "\<exists>ps. derive_overrides skipm skipp nodes edges = map (\<lambda>(n, m). override_edge n m) (kept pair_key {} (filter (pair_ok skipp) ps))
     \<and> set (filter (pair_ok skipp) ps) = {(n, m). is_override nodes edges n m \<and> s_id n \<notin> skipm \<and> (s_id n, s_id m) \<notin> skipp}"
proof -
  let ?byid = "nodes_by_id nodes" and ?par = "parent_of edges"
  let ?s = "class_supers ?byid edges" and ?ms = "methods_of ?byid ?par nodes"
  let ?one = "\<lambda>n acc. if \<not> is_method n \<or> s_id n \<in> skipm then acc
      else case ?par (s_id n) of None \<Rightarrow> acc | Some cls \<Rightarrow> overrides_of skipp ?s ?ms cls n acc"
  let ?of = "\<lambda>n. {(n, m) |m c a. is_method n \<and> s_id n \<notin> skipm \<and> ?par (s_id n) = Some c
      \<and> (c, a) \<in> (supers_rel ?s)\<^sup>+ \<and> m \<in> set (?ms (a, s_name n))}"
  have "\<exists>ps. (\<forall>acc. ?one n acc = after_pairs skipp ps acc) \<and> set ps = ?of n" for n
  proof (cases "is_method n \<and> s_id n \<notin> skipm \<and> ?par (s_id n) \<noteq> None")
    case True
    then obtain cls where "?par (s_id n) = Some cls" by blast
    with True overrides_of_pairs [of skipp ?s ?ms cls n] show ?thesis by auto
  next
    case False
    then have "?one n acc = acc" and "?of n = {}" for acc by (auto split: option.splits)
    then show ?thesis by (intro exI [of _ "[]"]) (simp add: after_pairs_def kept_def)
  qed
  then have "\<forall>n. \<exists>ps. (\<forall>acc. ?one n acc = after_pairs skipp ps acc) \<and> set ps = ?of n" ..
  from choice [OF this] obtain f where F: "\<forall>n. (\<forall>acc. ?one n acc = after_pairs skipp (f n) acc) \<and> set (f n) = ?of n" ..
  then have f: "?one n acc = after_pairs skipp (f n) acc" "set (f n) = ?of n" for n acc by blast+
  let ?ps = "concat (map f nodes)"
  have "derive_overrides skipm skipp nodes edges = fst (after_pairs skipp ?ps ([], {}))"
    unfolding derive_overrides_def Let_def by (subst fold_pairs [OF f(1)]) (rule refl)
  then have out: "derive_overrides skipm skipp nodes edges
      = map (\<lambda>(n, m). override_edge n m) (kept pair_key {} (filter (pair_ok skipp) ?ps))"
    by (simp add: after_pairs_def)
  have "(n, m) \<in> set (filter (pair_ok skipp) ?ps) \<longleftrightarrow>
      is_override nodes edges n m \<and> s_id n \<notin> skipm \<and> (s_id n, s_id m) \<notin> skipp" for n m
    unfolding is_override_def class_supers_rel [symmetric]
    by (auto simp: f(2) pair_ok_def pair_key_def methods_of_holds)
  then have "set (filter (pair_ok skipp) ?ps) = {(n, m). is_override nodes edges n m \<and> s_id n \<notin> skipm \<and> (s_id n, s_id m) \<notin> skipp}"
    by auto
  with out show ?thesis by blast
qed

text \<open>C34: an override edge joins exactly the pairs of methods of the same name and number of
  parameters whose second is declared on a class that the class of the first transitively
  extends or implements, less those that the precise pass has answered; each pair once, and
  the search ends on a cyclic hierarchy too.\<close>

theorem derive_overrides_exact:
  "(\<lambda>e. (e_src e, e_dst e)) ` set (derive_overrides skip_methods skip_pairs nodes edges) =
     {(s_id n, s_id m) |n m. is_override nodes edges n m \<and> s_id n \<notin> skip_methods \<and> (s_id n, s_id m) \<notin> skip_pairs}
   \<and> distinct (map (\<lambda>e. (e_src e, e_dst e)) (derive_overrides skip_methods skip_pairs nodes edges))
   \<and> e_type ` set (derive_overrides skip_methods skip_pairs nodes edges) \<subseteq> {''OVERRIDES''}"
proof -
  from derive_pairs [of skip_methods skip_pairs nodes edges] obtain ps where ps:
    "derive_overrides skip_methods skip_pairs nodes edges = map (\<lambda>(n, m). override_edge n m) (kept pair_key {} (filter (pair_ok skip_pairs) ps))"
    "set (filter (pair_ok skip_pairs) ps) = {(n, m). is_override nodes edges n m \<and> s_id n \<notin> skip_methods \<and> (s_id n, s_id m) \<notin> skip_pairs}"
    by blast
  let ?k = "kept pair_key {} (filter (pair_ok skip_pairs) ps)"
  have key: "(\<lambda>e. (e_src e, e_dst e)) \<circ> (\<lambda>(n, m). override_edge n m) = pair_key"
    by (auto simp: fun_eq_iff override_edge_def mk_edge_def pair_key_def)
  have "(\<lambda>e. (e_src e, e_dst e)) ` set (map (\<lambda>(n, m). override_edge n m) ?k) = pair_key ` set ?k"
    unfolding set_map image_comp key ..
  also have "\<dots> = pair_key ` {(n, m). is_override nodes edges n m \<and> s_id n \<notin> skip_methods \<and> (s_id n, s_id m) \<notin> skip_pairs}"
    unfolding kept_keys ps(2) by simp
  also have "\<dots> = {(s_id n, s_id m) |n m. is_override nodes edges n m \<and> s_id n \<notin> skip_methods \<and> (s_id n, s_id m) \<notin> skip_pairs}"
    by (force simp: pair_key_def)
  finally have pairs: "(\<lambda>e. (e_src e, e_dst e)) ` set (derive_overrides skip_methods skip_pairs nodes edges) = \<dots>"
    unfolding ps(1) .
  have "distinct (map pair_key ?k)" by (rule kept_distinct)
  then have dist: "distinct (map (\<lambda>e. (e_src e, e_dst e)) (derive_overrides skip_methods skip_pairs nodes edges))"
    unfolding ps(1) map_map key .
  have "e_type ` set (derive_overrides skip_methods skip_pairs nodes edges) \<subseteq> {''OVERRIDES''}"
    unfolding ps(1) by (auto simp: override_edge_def mk_edge_def)
  with pairs dist show ?thesis by blast
qed

section \<open>The package tree\<close>

record tree =
  tr_nodes :: "node list"
  tr_edges :: "edge list"
  tr_seen :: "string set"
  tr_pairs :: "(string \<times> string) set"

definition tree_node :: "node \<Rightarrow> tree \<Rightarrow> tree" where
  "tree_node n t = (if n_id n \<in> tr_seen t then t
     else t\<lparr>tr_seen := insert (n_id n) (tr_seen t), tr_nodes := tr_nodes t @ [n]\<rparr>)"

definition contains_edge :: "string \<Rightarrow> string \<Rightarrow> edge" where
  "contains_edge src dst = (mk_edge ''CONTAINS'' src dst)\<lparr>e_extractor := ''structure''\<rparr>"

definition tree_contains :: "string \<Rightarrow> string \<Rightarrow> tree \<Rightarrow> tree" where
  "tree_contains src dst t = (if (src, dst) \<in> tr_pairs t then t
     else t\<lparr>tr_pairs := insert (src, dst) (tr_pairs t), tr_edges := tr_edges t @ [contains_edge src dst]\<rparr>)"

definition package_node :: "(string \<Rightarrow> string) \<Rightarrow> string \<Rightarrow> slim_node \<Rightarrow> string list \<Rightarrow> nat \<Rightarrow> node" where
  "package_node pid repo n parts i = (let fqn = join_with (CHR ''.'') (take (i + 1) parts) in
     (mk_node (pid fqn) ''Package'' (parts ! i) fqn repo)\<lparr>n_kind := ''package'', n_package := fqn, n_lang := s_lang n\<rparr>)"

fun package_loop :: "(string \<Rightarrow> string) \<Rightarrow> string \<Rightarrow> slim_node \<Rightarrow> string list \<Rightarrow> nat list \<Rightarrow> string \<Rightarrow> tree \<Rightarrow> string \<times> tree" where
  "package_loop pid repo n parts [] parent t = (parent, t)"
| "package_loop pid repo n parts (i # is) parent t =
     (let p = package_node pid repo n parts i
      in package_loop pid repo n parts is (n_id p) (tree_contains parent (n_id p) (tree_node p t)))"

definition tree_file :: "(string \<Rightarrow> string) \<Rightarrow> string \<Rightarrow> string \<Rightarrow> slim_node \<Rightarrow> tree \<Rightarrow> tree" where
  "tree_file pid repo repo_id n t =
     (if s_label n \<noteq> ''File'' then t
      else let parts = split_on (CHR ''.'') (s_package n);
             (parent, t1) = (if s_package n \<noteq> [] then package_loop pid repo n parts [0..<length parts] repo_id t else (repo_id, t))
           in tree_contains parent (s_id n) t1)"

definition build_package_tree ::
  "(string \<Rightarrow> string \<Rightarrow> string \<Rightarrow> string) \<Rightarrow> string \<Rightarrow> slim_node list \<Rightarrow> node list \<times> edge list" where
  "build_package_tree make_id repo nodes =
     (let repo_id = make_id repo repo ''repository'';
          root = (mk_node repo_id ''Repository'' repo repo repo)\<lparr>n_kind := ''repository''\<rparr>;
          t = fold (tree_file (\<lambda>fqn. make_id repo fqn ''package'') repo repo_id) nodes
                (tree_node root \<lparr>tr_nodes = [], tr_edges = [], tr_seen = {}, tr_pairs = {}\<rparr>)
      in (tr_nodes t, tr_edges t))"

text \<open>The chain above a file: the repository, each enclosing package, the file.\<close>

fun links :: "'a list \<Rightarrow> ('a \<times> 'a) list" where
  "links (a # b # r) = (a, b) # links (b # r)"
| "links _ = []"

definition package_chain :: "(string \<Rightarrow> string) \<Rightarrow> slim_node \<Rightarrow> string list" where
  "package_chain pid n = (if s_package n = [] then []
     else map (\<lambda>i. pid (join_with (CHR ''.'') (take (i + 1) (split_on (CHR ''.'') (s_package n)))))
       [0..<length (split_on (CHR ''.'') (s_package n))])"

definition containment_chain :: "(string \<Rightarrow> string) \<Rightarrow> string \<Rightarrow> slim_node \<Rightarrow> string list" where
  "containment_chain pid repo_id n = (if s_label n \<noteq> ''File'' then [] else repo_id # package_chain pid n @ [s_id n])"

definition tree_ok :: "string set \<Rightarrow> (string \<times> string) set \<Rightarrow> tree \<Rightarrow> bool" where
  "tree_ok ids ps t \<longleftrightarrow> n_id ` set (tr_nodes t) = ids \<and> tr_seen t = ids \<and> distinct (map n_id (tr_nodes t))
     \<and> (\<lambda>e. (e_src e, e_dst e)) ` set (tr_edges t) = ps \<and> tr_pairs t = ps
     \<and> distinct (map (\<lambda>e. (e_src e, e_dst e)) (tr_edges t))"

lemma tree_ok_node: "tree_ok ids ps t \<Longrightarrow> tree_ok (insert (n_id n) ids) ps (tree_node n t)"
  by (auto simp: tree_ok_def tree_node_def)

lemma tree_ok_contains: "tree_ok ids ps t \<Longrightarrow> tree_ok ids (insert (a, b) ps) (tree_contains a b t)"
  by (auto simp: tree_ok_def tree_contains_def contains_edge_def mk_edge_def image_iff)

lemma mk_package_id [simp]: "n_id (package_node pid repo n parts i) = pid (join_with (CHR ''.'') (take (i + 1) parts))"
  by (simp add: package_node_def mk_node_def Let_def)

lemma package_loop_ok:
  "tree_ok ids ps t \<Longrightarrow> (let chain = map (\<lambda>i. pid (join_with (CHR ''.'') (take (i + 1) parts))) is;
       r = package_loop pid repo n parts is parent t
   in fst r = last (parent # chain) \<and> tree_ok (ids \<union> set chain) (ps \<union> set (links (parent # chain))) (snd r))"
proof (induction "is" arbitrary: ids ps parent t)
  case (Cons i "is")
  let ?p = "package_node pid repo n parts i"
  from tree_ok_contains [OF tree_ok_node [OF Cons.prems, of ?p], of parent "n_id ?p"]
  have "tree_ok (insert (n_id ?p) ids) (insert (parent, n_id ?p) ps) (tree_contains parent (n_id ?p) (tree_node ?p t))" .
  from Cons.IH [OF this, of "n_id ?p"] show ?case by (simp add: Let_def Un_commute insert_commute)
qed simp

lemma links_snoc: "links (xs @ [a, b]) = links (xs @ [a]) @ [(a, b)]"
  by (induction xs rule: links.induct) auto

lemma tree_file_ok:
  assumes "tree_ok ids ps t"
  shows "tree_ok (ids \<union> (if s_label n = ''File'' then set (package_chain pid n) else {}))
    (ps \<union> set (links (containment_chain pid repo_id n))) (tree_file pid repo repo_id n t)"
proof (cases "s_label n = ''File''")
  case True
  let ?parts = "split_on (CHR ''.'') (s_package n)" and ?chain = "package_chain pid n"
  obtain parent t1 where r: "(if s_package n \<noteq> [] then package_loop pid repo n ?parts [0..<length ?parts] repo_id t else (repo_id, t)) = (parent, t1)"
    by (cases "if s_package n \<noteq> [] then package_loop pid repo n ?parts [0..<length ?parts] repo_id t else (repo_id, t)") auto
  have "parent = last (repo_id # ?chain) \<and> tree_ok (ids \<union> set ?chain) (ps \<union> set (links (repo_id # ?chain))) t1"
  proof (cases "s_package n = []")
    case True
    with r assms show ?thesis by (simp add: package_chain_def)
  next
    case False
    with r package_loop_ok [OF assms, of pid ?parts "[0..<length ?parts]" repo n repo_id]
    show ?thesis unfolding package_chain_def Let_def by simp
  qed
  then have p: "parent = last (repo_id # ?chain)" and ok: "tree_ok (ids \<union> set ?chain) (ps \<union> set (links (repo_id # ?chain))) t1" by auto
  have "repo_id # ?chain @ [s_id n] = butlast (repo_id # ?chain) @ [parent, s_id n]"
    unfolding p by (metis append.assoc append_Cons append_Nil append_butlast_last_id list.distinct(1))
  then have "links (repo_id # ?chain @ [s_id n]) = links (repo_id # ?chain) @ [(parent, s_id n)]"
    by (metis append_butlast_last_id links_snoc list.distinct(1) p)
  then have "tree_ok (ids \<union> set ?chain) (ps \<union> set (links (containment_chain pid repo_id n))) (tree_contains parent (s_id n) t1)"
    using tree_ok_contains [OF ok, of parent "s_id n"] True by (simp add: containment_chain_def)
  then show ?thesis using True r by (simp add: tree_file_def Let_def)
next
  case False
  with assms show ?thesis by (simp add: tree_file_def containment_chain_def)
qed

lemma tree_exact:
  "let r = build_package_tree make_id repo nodes; pid = (\<lambda>fqn. make_id repo fqn ''package''); root = make_id repo repo ''repository'';
       files = filter (\<lambda>n. s_label n = ''File'') nodes
   in (\<lambda>e. (e_src e, e_dst e)) ` set (snd r) = (\<Union>n \<in> set files. set (links (root # package_chain pid n @ [s_id n])))
    \<and> distinct (map (\<lambda>e. (e_src e, e_dst e)) (snd r))
    \<and> n_id ` set (fst r) = insert root (\<Union>n \<in> set files. set (package_chain pid n)) \<and> distinct (map n_id (fst r))"
proof -
  let ?pid = "\<lambda>fqn. make_id repo fqn ''package''" and ?root = "make_id repo repo ''repository''"
  let ?files = "filter (\<lambda>n. s_label n = ''File'') nodes"
  have step: "tree_ok ids ps t \<Longrightarrow> tree_ok (ids \<union> (\<Union>n \<in> {n \<in> set ns. s_label n = ''File''}. set (package_chain ?pid n)))
      (ps \<union> (\<Union>n \<in> set ns. set (links (containment_chain ?pid ?root n)))) (fold (tree_file ?pid repo ?root) ns t)" for ids ps t ns
  proof (induction ns arbitrary: ids ps t)
    case (Cons n ns)
    have e1: "ids \<union> (if s_label n = ''File'' then set (package_chain ?pid n) else {})
        \<union> (\<Union>n \<in> {n \<in> set ns. s_label n = ''File''}. set (package_chain ?pid n))
      = ids \<union> (\<Union>m \<in> {m \<in> set (n # ns). s_label m = ''File''}. set (package_chain ?pid m))" by auto
    have e2: "ps \<union> set (links (containment_chain ?pid ?root n)) \<union> (\<Union>n \<in> set ns. set (links (containment_chain ?pid ?root n)))
      = ps \<union> (\<Union>m \<in> set (n # ns). set (links (containment_chain ?pid ?root m)))" by auto
    from Cons.IH [OF tree_file_ok [OF Cons.prems, of n ?pid ?root repo]]
    show ?case unfolding e1 e2 fold_simps by simp
  qed simp
  have "tree_ok {} {} \<lparr>tr_nodes = [], tr_edges = [], tr_seen = {}, tr_pairs = {}\<rparr>" by (simp add: tree_ok_def)
  note final = step [OF tree_ok_node [OF this, of "(mk_node ?root ''Repository'' repo repo repo)\<lparr>n_kind := ''repository''\<rparr>"], of nodes]
  have root: "n_id ((mk_node ?root ''Repository'' repo repo repo)\<lparr>n_kind := ''repository''\<rparr>) = ?root" by (simp add: mk_node_def)
  have files: "{n \<in> set nodes. s_label n = ''File''} = set ?files" by auto
  have chains: "(\<Union>n \<in> set nodes. set (links (containment_chain ?pid ?root n)))
      = (\<Union>n \<in> set ?files. set (links (?root # package_chain ?pid n @ [s_id n])))"
    by (auto simp: containment_chain_def split: if_splits)
  from final show ?thesis
    unfolding build_package_tree_def Let_def tree_ok_def root files chains fst_conv snd_conv Un_insert_left Un_empty_left
    by (elim conjE, intro conjI) assumption+
qed

text \<open>The containment edges are exactly the steps from the repository through every
  enclosing package down to each file, each once, and a package node exists once for every
  package on such a path.\<close>

theorem package_tree_exact:
  "let r = build_package_tree make_id repo nodes; pid = (\<lambda>fqn. make_id repo fqn ''package''); root = make_id repo repo ''repository'';
       files = filter (\<lambda>n. s_label n = ''File'') nodes
   in (\<lambda>e. (e_src e, e_dst e)) ` set (snd r) = (\<Union>n \<in> set files. set (links (root # package_chain pid n @ [s_id n])))
    \<and> distinct (map (\<lambda>e. (e_src e, e_dst e)) (snd r))
    \<and> n_id ` set (fst r) = insert root (\<Union>n \<in> set files. set (package_chain pid n)) \<and> distinct (map n_id (fst r))"
  by (rule tree_exact)

end
