(* ===== verification/BytecodeState.thy ===== *)
theory BytecodeState
  imports Complex_Main Matcher ExternalApi "HOL-Library.AList"
begin

text \<open>
  The state of the bytecode pass (\<open>graph_core/bytecode_resolver.py\<close>): the local variables of
  \<open>resolve_java_bytecode\<close> and the counters of its report in one record, and the small
  updates its loop is made of.  What comes from outside is in \<open>bc_env\<close>: the hash of a node
  identity, the path separator and the two settings.
\<close>

section \<open>Environment and state\<close>

record bc_env =
  be_make_id :: "string \<Rightarrow> string \<Rightarrow> string \<Rightarrow> string"
  be_repo :: string
  be_sep :: char
  be_enabled :: "string set"
  be_include_other :: bool

type_synonym header = "string \<times> string list"

type_synonym site = "int \<times> string \<times> role \<times> int list"

record bc_state =
  bs_edges :: "edge list"
  bs_nodes :: "node list"
  bs_seen :: "(string \<times> string \<times> string) set"
  bs_external_ids :: "string set"
  bs_stats :: match_stats
  bs_attributed :: "string set"
  bs_unclassified :: "(string \<times> nat) list"
  bs_owners :: "(string \<times> nat) list"
  bs_overflow :: nat
  bs_sink_kinds :: "(string \<times> string list) list"
  bs_sources :: "string set"
  bs_sanitizers :: "string set"
  bs_sites :: "(string \<times> site list) list"
  bs_hierarchy :: "(string \<times> header) list"
  bs_own_ids :: "string \<rightharpoonup> string"
  bs_declared :: "(string \<times> (method_info \<times> string) list) list"
  bs_classes_seen :: nat
  bs_classes_in_repo :: nat
  bs_call_edges :: nat
  bs_field_edges :: nat
  bs_hierarchy_edges :: nat
  bs_override_edges :: nat
  bs_truncated :: nat
  bs_external_edges :: nat
  bs_external_nodes :: nat
  bs_synthesized_nodes :: nat
  bs_skipped_no_lines :: nat
  bs_external_calls :: nat
  bs_hierarchy_files :: "string set"
  bs_authoritative :: "string set"
  bs_override_pairs :: "(string \<times> string) set"

definition bc_start :: bc_state where
  "bc_start = \<lparr>bs_edges = [], bs_nodes = [], bs_seen = {}, bs_external_ids = {}, bs_stats = no_stats,
     bs_attributed = {}, bs_unclassified = [], bs_owners = [], bs_overflow = 0, bs_sink_kinds = [],
     bs_sources = {}, bs_sanitizers = {}, bs_sites = [], bs_hierarchy = [], bs_own_ids = (\<lambda>_. None),
     bs_declared = [], bs_classes_seen = 0, bs_classes_in_repo = 0, bs_call_edges = 0,
     bs_field_edges = 0, bs_hierarchy_edges = 0, bs_override_edges = 0, bs_truncated = 0,
     bs_external_edges = 0, bs_external_nodes = 0, bs_synthesized_nodes = 0,
     bs_skipped_no_lines = 0, bs_external_calls = 0, bs_hierarchy_files = {},
     bs_authoritative = {}, bs_override_pairs = {}\<rparr>"

section \<open>Updates\<close>

definition bc_edge :: "string \<Rightarrow> string \<Rightarrow> string \<Rightarrow> string \<Rightarrow> int \<Rightarrow> edge" where
  "bc_edge t s d file line = (mk_edge t s d)\<lparr>e_confidence := EXTRACTED, e_origin := O_EXTRACTED,
     e_extractor := ''bytecode'', e_evidence_file := file, e_evidence_line := line,
     e_strategy := ''bytecode''\<rparr>"

definition edge_key :: "edge \<Rightarrow> string \<times> string \<times> string" where
  "edge_key e = (e_type e, e_src e, e_dst e)"

lemma bc_edge_simps [simp]:
  "edge_key (bc_edge t s d f l) = (t, s, d)" "e_type (bc_edge t s d f l) = t"
  "e_src (bc_edge t s d f l) = s" "e_dst (bc_edge t s d f l) = d"
  by (simp_all add: bc_edge_def edge_key_def mk_edge_def)

text \<open>\<open>if key in seen: continue; seen.add(key); edges.append(...); counter += 1\<close>.\<close>

definition bc_emit :: "(bc_state \<Rightarrow> bc_state) \<Rightarrow> edge \<Rightarrow> bc_state \<Rightarrow> bc_state" where
  "bc_emit bump e st = (if edge_key e \<in> bs_seen st then st
     else bump (st\<lparr>bs_seen := insert (edge_key e) (bs_seen st), bs_edges := bs_edges st @ [e]\<rparr>))"

definition tally :: "string \<Rightarrow> (string \<times> nat) list \<Rightarrow> (string \<times> nat) list" where
  "tally k d = AList.update k ((case map_of d k of None \<Rightarrow> 0 | Some n \<Rightarrow> n) + 1) d"

definition count_at :: "(string \<times> nat) list \<Rightarrow> string \<Rightarrow> nat" where
  "count_at d k = (case map_of d k of None \<Rightarrow> 0 | Some n \<Rightarrow> n)"

definition UNCLASSIFIED_MAX_KEYS :: nat where
  "UNCLASSIFIED_MAX_KEYS = 200000"

text \<open>The per-method inventory: a known key is counted, a new one only below the limit.\<close>

definition tally_capped :: "string \<Rightarrow> bc_state \<Rightarrow> bc_state" where
  "tally_capped k st =
     (if map_of (bs_unclassified st) k \<noteq> None then st\<lparr>bs_unclassified := tally k (bs_unclassified st)\<rparr>
      else if length (bs_unclassified st) < UNCLASSIFIED_MAX_KEYS
      then st\<lparr>bs_unclassified := bs_unclassified st @ [(k, 1)]\<rparr>
      else st\<lparr>bs_overflow := bs_overflow st + 1\<rparr>)"

definition inventory :: "invocation \<Rightarrow> bc_state \<Rightarrow> bc_state" where
  "inventory call st =
     (let st1 = st\<lparr>bs_owners := tally (i_owner call) (bs_owners st)\<rparr>
      in if is_inventory_noise (i_owner call) then st1
         else tally_capped (external_key (i_owner call) (i_name call)) st1)"

text \<open>The catalog facts of one call: which functions are sources, sinks and sanitizers, and where.\<close>

definition add_kind :: "string \<Rightarrow> string \<Rightarrow> (string \<times> string list) list \<Rightarrow> (string \<times> string list) list" where
  "add_kind c k g = (if k \<in> set (group_look g c) then g else group_add c k g)"

definition taint_mark :: "string \<Rightarrow> invocation \<Rightarrow> bc_state \<Rightarrow> bc_state" where
  "taint_mark caller call st =
     (case classify_taint (i_owner call) (i_name call) of None \<Rightarrow> st
      | Some (e, args) \<Rightarrow>
          if caller = [] then st
          else
            let st1 = (case en_role e of
                SOURCE \<Rightarrow> st\<lparr>bs_sources := insert caller (bs_sources st)\<rparr>
              | SINK \<Rightarrow> st\<lparr>bs_sink_kinds := add_kind caller (en_category e) (bs_sink_kinds st)\<rparr>
              | SANITIZER \<Rightarrow> st\<lparr>bs_sanitizers := insert caller (bs_sanitizers st)\<rparr>)
            in if i_line call \<noteq> 0
               then st1\<lparr>bs_sites := group_add caller (i_line call, en_category e, en_role e, args) (bs_sites st1)\<rparr>
               else st1)"

text \<open>The node of an external API, created once, and the call to it.\<close>

definition external_node :: "bc_env \<Rightarrow> string \<Rightarrow> invocation \<Rightarrow> node" where
  "external_node env kind call =
     (mk_node (external_id (be_make_id env) (i_owner call) (i_name call)) ''External''
        (external_display (i_owner call) (i_name call)) (external_key (i_owner call) (i_name call)) ''external'')
       \<lparr>n_kind := kind, n_lang := ''java'', n_extractor := ''bytecode'', n_confidence := EXTRACTED\<rparr>"

definition call_external :: "bc_env \<Rightarrow> string \<Rightarrow> string \<Rightarrow> string \<Rightarrow> invocation \<Rightarrow> bc_state \<Rightarrow> bc_state" where
  "call_external env file caller kind call st =
     (let nd = external_node env kind call;
          st1 = (if n_id nd \<in> bs_external_ids st then st
                 else st\<lparr>bs_external_ids := insert (n_id nd) (bs_external_ids st),
                         bs_nodes := bs_nodes st @ [nd], bs_external_nodes := bs_external_nodes st + 1\<rparr>)
      in bc_emit (\<lambda>s. s\<lparr>bs_external_edges := bs_external_edges s + 1\<rparr>)
           (bc_edge ''CALLS_EXTERNAL'' caller (n_id nd) file (i_line call)) st1)"

section \<open>Synthesized nodes\<close>

text \<open>\<open>_synthesize_node\<close>: nothing without line numbers; the parameter count parses the
  descriptor, which raises on a malformed one.\<close>

definition synthesized_kind :: "class_info \<Rightarrow> method_info \<Rightarrow> (string \<times> string) option" where
  "synthesized_kind info m =
     (if m_is_lambda_body m then Some (''lambda'', m_name m)
      else if m_is_class_initializer m then Some (''initializer'', ''<clinit>'')
      else if c_is_anonymous info
      then Some (''anonymous'', after_last (CHR ''$'') (c_name info) @ ''.'' @ m_name m)
      else None)"

definition synthesized_id :: "bc_env \<Rightarrow> string \<Rightarrow> string \<Rightarrow> method_info \<Rightarrow> string" where
  "synthesized_id env owner_fqn nm m =
     be_make_id env (be_repo env) (owner_fqn @ ''#'' @ nm @ m_descriptor m) ''method''"

definition synthesize_node ::
  "bc_env \<Rightarrow> class_info \<Rightarrow> method_info \<Rightarrow> string \<Rightarrow> string \<Rightarrow> class_error + node option" where
  "synthesize_node env info m owner_file owner_fqn =
     (if \<not> m_has_line_numbers m \<or> owner_file = [] then Inr None
      else case synthesized_kind info m of None \<Rightarrow> Inr None
      | Some (kind, nm) \<Rightarrow>
          (case descriptor_arity (m_descriptor m) of Inl e \<Rightarrow> Inl e
           | Inr arity \<Rightarrow> Inr (Some
              ((mk_node (synthesized_id env owner_fqn nm m) ''Function'' nm (owner_fqn @ ''#'' @ nm) (be_repo env))
                \<lparr>n_kind := kind, n_lang := ''java'', n_file := owner_file,
                 n_start_line := m_start_line m, n_end_line := m_end_line m,
                 n_param_count := int arity, n_is_static := m_is_static m,
                 n_signature := nm @ m_descriptor m, n_extractor := ''bytecode'',
                 n_confidence := EXTRACTED\<rparr>))))"

section \<open>Laws of the updates\<close>

lemma count_tally: "count_at (tally k d) k' = count_at d k' + (if k' = k then 1 else 0)"
  by (auto simp: count_at_def tally_def AList.update_conv' split: option.splits)

lemma tally_keys: "set (map fst (tally k d)) = insert k (set (map fst d))"
  by (simp add: tally_def dom_update)

lemma tally_distinct: "distinct (map fst d) \<Longrightarrow> distinct (map fst (tally k d))"
  by (simp add: tally_def distinct_update)

lemma tally_known: "map_of d k \<noteq> None \<Longrightarrow> length (tally k d) = length d"
proof -
  have "length (AList.update k v d) = length d" if "k \<in> fst ` set d" for v
    using that by (induction d) auto
  then show "map_of d k \<noteq> None \<Longrightarrow> length (tally k d) = length d"
    by (simp add: tally_def map_of_eq_None_iff)
qed

lemma tally_sum: "distinct (map fst d) \<Longrightarrow> sum_list (map snd (tally k d)) = Suc (sum_list (map snd d))"
  unfolding tally_def
proof (induction d)
  case (Cons e d)
  then show ?case by (cases e) (auto simp: map_of_eq_None_iff split: option.splits)
qed simp

end
