(* ===== verification/Bytecode.thy ===== *)
theory Bytecode
  imports BytecodeState ClassFile
begin

text \<open>
  The bytecode pass (\<open>resolve_java_bytecode\<close>): the loop over the parsed classes, the two guards
  that discard the pass, the class hierarchy from the headers and the proven overrides.  The
  only exception a well-formed argument can raise is that of a malformed method descriptor.
\<close>

section \<open>Class sources\<close>

text \<open>\<open>_iter_class_sources\<close> over what the roots hold: a directory by its files, an archive by
  its entries, a single class file by its bytes; anything else, and what does not parse,
  contributes nothing.\<close>

datatype class_source =
    Directory "(string \<times> byte list) list"
  | Archive "(string \<times> byte list) list"
  | Class_File "byte list"
  | Other_Source

definition iter_class_files :: "(string \<times> byte list) list \<Rightarrow> (string \<times> class_info) list" where
  "iter_class_files entries = concat (map (\<lambda>(nm, data).
     if \<not> py_endswith nm ''.class'' then []
     else case parse_class data of Inl _ \<Rightarrow> [] | Inr ci \<Rightarrow> [(nm, ci)]) entries)"

fun source_classes :: "class_source \<Rightarrow> class_info list" where
  "source_classes (Directory files) = map snd (iter_class_files files)"
| "source_classes (Archive entries) = map snd (iter_jar_classes True entries)"
| "source_classes (Class_File data) = (case parse_class data of Inl _ \<Rightarrow> [] | Inr ci \<Rightarrow> [ci])"
| "source_classes Other_Source = []"

definition iter_class_sources :: "class_source list \<Rightarrow> class_info list" where
  "iter_class_sources roots = concat (map source_classes roots)"

section \<open>One method\<close>

definition return_type_of :: "string \<Rightarrow> string" where
  "return_type_of d = (let r = after_last (CHR '')'') d in if py_startswith r ''L'' then type_name r else [])"

definition call_kind :: "bc_env \<Rightarrow> invocation \<Rightarrow> string" where
  "call_kind env call = classify_external (be_enabled env) (i_owner call) (i_name call)
     (return_type_of (i_descriptor call)) (be_include_other env)"

definition callee_of :: "node_index \<Rightarrow> invocation \<Rightarrow> string" where
  "callee_of ix call = fst (method_id ix (i_owner call) (i_name call) (i_descriptor call) no_stats)"

definition bc_call :: "bc_env \<Rightarrow> node_index \<Rightarrow> string \<Rightarrow> string \<Rightarrow> invocation \<Rightarrow> bc_state \<Rightarrow> bc_state" where
  "bc_call env ix file caller call st =
     (if i_opcode call = ''invokedynamic'' then st
      else
        let kind = call_kind env call;
            st1 = taint_mark caller call st;
            st2 = (if kind \<noteq> [] then call_external env file caller kind call st1 else st1);
            callee = callee_of ix call
        in if callee = [] then
             let st3 = st2\<lparr>bs_external_calls := bs_external_calls st2 + 1\<rparr>
             in if kind = [] then inventory call st3 else st3
           else bc_emit (\<lambda>s. s\<lparr>bs_call_edges := bs_call_edges s + 1\<rparr>)
                  (bc_edge ''CALLS'' caller callee file (i_line call)) st2)"

definition bump_stats :: "(match_stats \<Rightarrow> match_stats) \<Rightarrow> bc_state \<Rightarrow> bc_state" where
  "bump_stats f st = st\<lparr>bs_stats := f (bs_stats st)\<rparr>"

definition bc_access :: "node_index \<Rightarrow> string \<Rightarrow> string \<Rightarrow> field_access \<Rightarrow> bc_state \<Rightarrow> bc_state" where
  "bc_access ix file caller a st =
     (let dst = field_id ix (a_owner a) (a_name a) in
      if dst = [] then bump_stats (\<lambda>s. s\<lparr>st_unmatched_field := st_unmatched_field s + 1\<rparr>) st
      else bc_emit (\<lambda>s. (bump_stats (\<lambda>t. t\<lparr>st_matched_fields := st_matched_fields t + 1\<rparr>) s)
               \<lparr>bs_field_edges := bs_field_edges s + 1\<rparr>)
             (bc_edge (if is_read a then ''READS'' else ''WRITES'') caller dst file (a_line a)) st)"

definition bc_body :: "bc_env \<Rightarrow> node_index \<Rightarrow> string \<Rightarrow> method_info \<Rightarrow> string \<Rightarrow> bc_state \<Rightarrow> bc_state" where
  "bc_body env ix file m caller st =
     fold (bc_access ix file caller) (m_accesses m)
       (fold (bc_call env ix file caller) (m_invocations m) st)"

definition declare_method :: "string \<Rightarrow> string \<Rightarrow> method_info \<Rightarrow> string \<Rightarrow> bc_state \<Rightarrow> bc_state" where
  "declare_method own_id cname m caller st =
     (if own_id \<noteq> [] \<and> can_override m
      then st\<lparr>bs_declared := group_add cname (m, caller) (bs_declared st)\<rparr> else st)"

definition note_synthesis :: "method_info \<Rightarrow> bc_state \<Rightarrow> bc_state" where
  "note_synthesis m st =
     (if m_is_lambda_body m then bump_stats (\<lambda>s. s\<lparr>st_lambda_body := st_lambda_body s + 1\<rparr>) st
      else if m_is_class_initializer m
      then bump_stats (\<lambda>s. s\<lparr>st_class_initializer := st_class_initializer s + 1\<rparr>) st else st)"

definition add_synthesized :: "string \<Rightarrow> string \<Rightarrow> method_info \<Rightarrow> node \<Rightarrow> bc_state \<Rightarrow> bc_state" where
  "add_synthesized owner file m nd st =
     st\<lparr>bs_nodes := bs_nodes st @ [nd], bs_synthesized_nodes := bs_synthesized_nodes st + 1,
        bs_edges := bs_edges st @ [bc_edge ''CONTAINS'' owner (n_id nd) file (m_start_line m)]\<rparr>"

text \<open>The class a method is in: its binary name, its own node, the node that owns it, the file
  and the source name of the owner.\<close>

record bc_class =
  k_info :: class_info
  k_own :: string
  k_owner :: string
  k_file :: string
  k_fqn :: string

definition bc_method :: "bc_env \<Rightarrow> node_index \<Rightarrow> bc_class \<Rightarrow> method_info \<Rightarrow> bc_state \<Rightarrow> class_error + bc_state" where
  "bc_method env ix k m st =
     (if should_skip_method m
      then Inr (bump_stats (\<lambda>s. s\<lparr>st_skipped_synthetic := st_skipped_synthetic s + 1\<rparr>) st)
      else if caller_needs_synthesis (k_info k) m then
        (case synthesize_node env (k_info k) m (k_file k) (k_fqn k) of
           Inl e \<Rightarrow> Inl e
         | Inr None \<Rightarrow> let st1 = note_synthesis m st in
             Inr (st1\<lparr>bs_skipped_no_lines := bs_skipped_no_lines st1 + 1\<rparr>)
         | Inr (Some nd) \<Rightarrow> Inr (bc_body env ix (k_file k) m (n_id nd)
             (declare_method (k_own k) (c_name (k_info k)) m (n_id nd)
               (add_synthesized (k_owner k) (k_file k) m nd (note_synthesis m st)))))
      else
        (case method_id ix (c_name (k_info k)) (m_name m) (m_descriptor m) (bs_stats st) of
           (caller, stats) \<Rightarrow>
             let st1 = st\<lparr>bs_stats := stats\<rparr> in
             if caller = [] then Inr st1
             else Inr (bc_body env ix (k_file k) m caller
               (declare_method (k_own k) (c_name (k_info k)) m caller st1))))"

fun fold_res :: "('a \<Rightarrow> 's \<Rightarrow> 'e + 's) \<Rightarrow> 'a list \<Rightarrow> 's \<Rightarrow> 'e + 's" where
  "fold_res f [] s = Inr s"
| "fold_res f (x # xs) s = (case f x s of Inl e \<Rightarrow> Inl e | Inr s' \<Rightarrow> fold_res f xs s')"

section \<open>One class\<close>

definition class_of :: "node_index \<Rightarrow> class_info \<Rightarrow> bc_class option" where
  "class_of ix info =
     (let source_fqn = binary_to_source_fqn (c_name info);
          owner_fqn = (if source_fqn \<noteq> [] then source_fqn else binary_to_source_fqn (c_outer_name info));
          own_id = class_id ix (c_name info);
          owner = (if own_id \<noteq> [] then own_id else class_id ix (c_outer_name info))
      in if owner_fqn = [] \<or> owner = [] then None
         else Some \<lparr>k_info = info, k_own = own_id, k_owner = owner, k_file = file_of ix owner, k_fqn = owner_fqn\<rparr>)"

definition both_spellings :: "char \<Rightarrow> string \<Rightarrow> string set" where
  "both_spellings sep p = (if p = [] then {} else {p, replace_char (CHR ''/'') sep p})"

definition enter_class :: "bc_env \<Rightarrow> bc_class \<Rightarrow> bc_state \<Rightarrow> bc_state" where
  "enter_class env k st =
     (let st1 = st\<lparr>bs_classes_in_repo := bs_classes_in_repo st + 1,
                   bs_attributed := bs_attributed st \<union> both_spellings (be_sep env) (k_file k)\<rparr>
      in if k_own k = [] then st1
         else st1\<lparr>bs_hierarchy := AList.update (c_name (k_info k)) (c_super (k_info k), c_interfaces (k_info k)) (bs_hierarchy st1),
                  bs_own_ids := (bs_own_ids st1)(c_name (k_info k) \<mapsto> k_own k)\<rparr>)"

definition bc_class_step :: "bc_env \<Rightarrow> node_index \<Rightarrow> class_info \<Rightarrow> bc_state \<Rightarrow> class_error + bc_state" where
  "bc_class_step env ix info st =
     (let st1 = st\<lparr>bs_classes_seen := bs_classes_seen st + 1\<rparr> in
      case class_of ix info of None \<Rightarrow> Inr st1
      | Some k \<Rightarrow> fold_res (bc_method env ix k) (c_methods info) (enter_class env k st1))"


section \<open>The hierarchy and the proven overrides\<close>

definition hierarchy_edge :: "node_index \<Rightarrow> string \<Rightarrow> string \<times> string \<Rightarrow> bc_state \<Rightarrow> bc_state" where
  "hierarchy_edge ix src t st =
     (let dst = (if snd t = [] then [] else class_id ix (snd t))
      in if dst = [] \<or> dst = src then st
         else bc_emit (\<lambda>s. s\<lparr>bs_hierarchy_edges := bs_hierarchy_edges s + 1\<rparr>)
                (bc_edge (fst t) src dst (file_of ix src) 0) st)"

definition header_targets :: "header \<Rightarrow> (string \<times> string) list" where
  "header_targets h = (''EXTENDS'', fst h) # map (\<lambda>i. (''IMPLEMENTS'', i)) (snd h)"

definition hierarchy_step :: "bc_env \<Rightarrow> node_index \<Rightarrow> string \<times> header \<Rightarrow> bc_state \<Rightarrow> bc_state" where
  "hierarchy_step env ix entry st =
     (let src = the (bs_own_ids st (fst entry))
      in fold (hierarchy_edge ix src) (header_targets (snd entry))
           (st\<lparr>bs_hierarchy_files := bs_hierarchy_files st \<union> both_spellings (be_sep env) (file_of ix src)\<rparr>))"

definition direct_ancestors :: "header option \<Rightarrow> string list" where
  "direct_ancestors h = (case h of None \<Rightarrow> []
     | Some (super_name, ifaces) \<Rightarrow> (if super_name \<noteq> [] then [super_name] else []) @ ifaces)"

definition unvisited :: "(string \<times> header) list \<Rightarrow> string set \<Rightarrow> string set" where
  "unvisited h visited = set (map fst h) - visited"

text \<open>The walk up the chain of one class: a stack, each ancestor once, and whether every
  ancestor inside the repository was parsed.\<close>

function chain_walk ::
  "node_index \<Rightarrow> (string \<times> header) list \<Rightarrow> string list \<Rightarrow> string set \<Rightarrow> string list \<Rightarrow> bool \<Rightarrow> string list \<times> bool" where
  "chain_walk ix h stack visited chain whole =
     (if stack = [] then (chain, whole)
      else let anc = last stack; rest = butlast stack in
        if anc = [] \<or> anc \<in> visited then chain_walk ix h rest visited chain whole
        else case map_of h anc of
          None \<Rightarrow> chain_walk ix h rest (insert anc visited) (chain @ [anc])
                    (if class_id ix anc \<noteq> [] then False else whole)
        | Some e \<Rightarrow> chain_walk ix h (rest @ direct_ancestors (Some e)) (insert anc visited)
                      (chain @ [anc]) whole)"
  by pat_completeness auto
termination
proof (relation "inv_image (less_than <*lex*> less_than)
    (\<lambda>(ix, h, stack, visited, chain, whole). (card (unvisited h visited), length stack))", goal_cases)
  case 1
  show ?case by (intro wf_inv_image wf_lex_prod wf_less_than)
next
  case (2 ix h stack visited chain whole anc rest)
  then show ?case by simp
next
  case (3 ix h stack visited chain whole anc rest)
  then have "unvisited h (insert anc visited) = unvisited h visited"
    by (auto simp: unvisited_def map_of_eq_None_iff)
  with 3 show ?case by simp
next
  case (4 ix h stack visited chain whole anc rest e)
  then have "anc \<in> set (map fst h)" "anc \<notin> visited" by (auto dest: map_of_SomeD intro: rev_image_eqI)
  then have "unvisited h (insert anc visited) \<subset> unvisited h visited" by (auto simp: unvisited_def)
  then have "card (unvisited h (insert anc visited)) < card (unvisited h visited)"
    by (rule psubset_card_mono [rotated]) (simp add: unvisited_def)
  then show ?case by simp
qed

declare chain_walk.simps [simp del]

definition override_step :: "node_index \<Rightarrow> method_info \<Rightarrow> string \<Rightarrow> string \<Rightarrow> bc_state \<Rightarrow> bc_state" where
  "override_step ix m mid anc st =
     (let dst = override_target ix anc (m_name m) (m_descriptor m)
      in if dst = [] \<or> dst = mid then st
         else bc_emit (\<lambda>s. s\<lparr>bs_override_edges := bs_override_edges s + 1,
                             bs_override_pairs := insert (mid, dst) (bs_override_pairs s)\<rparr>)
                (bc_edge ''OVERRIDES'' mid dst (file_of ix mid) (m_start_line m)) st)"

definition override_method :: "node_index \<Rightarrow> string list \<Rightarrow> bool \<Rightarrow> method_info \<times> string \<Rightarrow> bc_state \<Rightarrow> bc_state" where
  "override_method ix chain whole mm st =
     (let st1 = fold (override_step ix (fst mm) (snd mm)) chain st
      in if whole then st1\<lparr>bs_authoritative := insert (snd mm) (bs_authoritative st1)\<rparr> else st1)"

definition override_class :: "node_index \<Rightarrow> string \<times> (method_info \<times> string) list \<Rightarrow> bc_state \<Rightarrow> bc_state" where
  "override_class ix entry st =
     (case chain_walk ix (bs_hierarchy st) (direct_ancestors (map_of (bs_hierarchy st) (fst entry))) {} [] True of
        (chain, whole) \<Rightarrow>
          let st1 = fold (override_method ix chain whole) (snd entry) st
          in if whole then st1 else st1\<lparr>bs_truncated := bs_truncated st1 + 1\<rparr>)"

section \<open>The pass\<close>

definition match_rate :: "match_stats \<Rightarrow> rat" where
  "match_rate s =
     (let matched = st_matched_methods s;
          missed = st_unmatched_method s + st_unmatched_class s + st_ambiguous_method s
      in if matched + missed = 0 then 0 else of_nat matched / of_nat (matched + missed))"

datatype bc_reason = No_Sources | None_In_Repo nat | Stale nat nat nat

record bc_report =
  rp_reason :: "bc_reason option"
  rp_counts :: bc_state

definition rp_available :: "bc_report \<Rightarrow> bool" where
  "rp_available r = (rp_reason r = None)"

definition file_coverage :: "nat \<Rightarrow> nat \<Rightarrow> rat" where
  "file_coverage attributed java_files = (if java_files = 0 then 0 else of_nat attributed / of_nat java_files)"

definition attributed_count :: "char \<Rightarrow> string set \<Rightarrow> nat" where
  "attributed_count sep fs = card (replace_char sep (CHR ''/'') ` fs)"

text \<open>A discarded pass publishes no inventory and no marks: they are set after the guards.\<close>

definition withhold :: "bc_state \<Rightarrow> bc_state" where
  "withhold st = st\<lparr>bs_unclassified := [], bs_owners := [], bs_sink_kinds := [], bs_sources := {},
     bs_sanitizers := {}, bs_sites := []\<rparr>"

definition scan_classes :: "bc_env \<Rightarrow> node_index \<Rightarrow> class_info list \<Rightarrow> class_error + bc_state" where
  "scan_classes env ix infos = fold_res (bc_class_step env ix) infos bc_start"

definition derive_hierarchy :: "bc_env \<Rightarrow> node_index \<Rightarrow> bc_state \<Rightarrow> bc_state" where
  "derive_hierarchy env ix st = fold (hierarchy_step env ix) (bs_hierarchy st) st"

definition derive_proven :: "node_index \<Rightarrow> bc_state \<Rightarrow> bc_state" where
  "derive_proven ix st = fold (override_class ix) (bs_declared st) st"

definition finish_pass :: "bc_env \<Rightarrow> node_index \<Rightarrow> rat \<Rightarrow> bc_state \<Rightarrow> edge list \<times> node list \<times> bc_report" where
  "finish_pass env ix min_rate st =
     (if bs_classes_in_repo st = 0
      then ([], [], \<lparr>rp_reason = Some (None_In_Repo (bs_classes_seen st)), rp_counts = withhold st\<rparr>)
      else if match_rate (bs_stats st) < min_rate
      then ([], [], \<lparr>rp_reason = Some (Stale (st_matched_methods (bs_stats st)) (st_unmatched_method (bs_stats st))
             (st_ambiguous_method (bs_stats st))), rp_counts = withhold st\<rparr>)
      else let r = derive_proven ix (derive_hierarchy env ix st)
           in (bs_edges r, bs_nodes r, \<lparr>rp_reason = None, rp_counts = r\<rparr>))"

definition resolve_java_bytecode ::
  "bc_env \<Rightarrow> node list \<Rightarrow> class_source list \<Rightarrow> rat \<Rightarrow> class_error + edge list \<times> node list \<times> bc_report" where
  "resolve_java_bytecode env nodes roots min_rate =
     (if roots = [] then Inr ([], [], \<lparr>rp_reason = Some No_Sources, rp_counts = bc_start\<rparr>)
      else let ix = build_index nodes in
        case scan_classes env ix (iter_class_sources roots) of
          Inl e \<Rightarrow> Inl e
        | Inr st \<Rightarrow> Inr (finish_pass env ix min_rate st))"

end
