(* ===== verification/BytecodeScan.thy ===== *)
theory BytecodeScan
  imports Bytecode
begin

text \<open>
  What the loop of the bytecode pass accumulates.  An observer is a view of the state that the
  steps of the loop change in a known way; its value after the loop is a fold over the classes
  and method bodies the pass enters, which are described without the state.
\<close>

section \<open>What is entered\<close>

text \<open>The function node a method's body is attributed to.\<close>

definition method_caller :: "bc_env \<Rightarrow> node_index \<Rightarrow> bc_class \<Rightarrow> method_info \<Rightarrow> class_error + string option" where
  "method_caller env ix k m =
     (if should_skip_method m then Inr None
      else if caller_needs_synthesis (k_info k) m
      then map_sum (\<lambda>e. e) (map_option n_id) (synthesize_node env (k_info k) m (k_file k) (k_fqn k))
      else let c = fst (method_id ix (c_name (k_info k)) (m_name m) (m_descriptor m) no_stats)
           in Inr (if c = [] then None else Some c))"

definition class_bodies :: "bc_env \<Rightarrow> node_index \<Rightarrow> bc_class \<Rightarrow> (method_info \<times> string) list" where
  "class_bodies env ix k = concat (map (\<lambda>m. case method_caller env ix k m of
     Inr (Some c) \<Rightarrow> [(m, c)] | _ \<Rightarrow> []) (c_methods (k_info k)))"

definition entered :: "node_index \<Rightarrow> class_info list \<Rightarrow> bc_class list" where
  "entered ix infos = List.map_filter (class_of ix) infos"

definition bodies :: "bc_env \<Rightarrow> node_index \<Rightarrow> class_info list \<Rightarrow> (bc_class \<times> method_info \<times> string) list" where
  "bodies env ix infos = concat (map (\<lambda>k. map (Pair k) (class_bodies env ix k)) (entered ix infos))"

lemma method_id_stats: "fst (method_id ix owner nm d st) = fst (method_id ix owner nm d no_stats)"
  by (simp add: method_id_def Let_def split: sum.splits)

lemma class_of_info: "class_of ix info = Some k \<Longrightarrow> k_info k = info"
  by (auto simp: class_of_def Let_def split: if_splits)

lemma entered_Cons:
  "entered ix (i # is) = (case class_of ix i of None \<Rightarrow> entered ix is | Some k \<Rightarrow> k # entered ix is)"
  by (simp add: entered_def List.map_filter_simps split: option.splits)

lemma entered_mem: "k \<in> set (entered ix infos) \<longleftrightarrow> (\<exists>i \<in> set infos. class_of ix i = Some k)"
  by (induction infos) (auto simp: entered_Cons entered_def List.map_filter_simps split: option.splits)

lemma fold_res_Inl: "fold_res f xs s = Inl e \<Longrightarrow> \<exists>x \<in> set xs. \<exists>s'. f x s' = Inl e"
  by (induction f xs s rule: fold_res.induct) (auto split: sum.splits)

lemma fold_res_raises: "x \<in> set xs \<Longrightarrow> (\<And>s. \<exists>e. f x s = Inl e) \<Longrightarrow> \<exists>e. fold_res f xs s = Inl e"
proof (induction f xs s rule: fold_res.induct)
  case (2 f y xs s)
  show ?case
  proof (cases "f y s")
    case (Inr s')
    with 2(3) [of s] have "x \<noteq> y" by auto
    with 2 Inr show ?thesis by auto
  qed simp
qed simp

text \<open>The three outcomes of a method.\<close>

lemma bc_method_raise: "method_caller env ix k m = Inl e \<Longrightarrow> bc_method env ix k m st = Inl e"
  by (auto simp: method_caller_def bc_method_def Let_def split: if_splits sum.splits)

lemma bc_method_found:
  assumes "method_caller env ix k m = Inr (Some c)" "\<not> caller_needs_synthesis (k_info k) m"
  shows "\<exists>f. bc_method env ix k m st = Inr (bc_body env ix (k_file k) m c
    (declare_method (k_own k) (c_name (k_info k)) m c (bump_stats f st)))"
proof -
  obtain stats where r: "method_id ix (c_name (k_info k)) (m_name m) (m_descriptor m) (bs_stats st) = (c, stats)"
    using assms method_id_stats [of ix "c_name (k_info k)" "m_name m" "m_descriptor m" "bs_stats st"]
    by (cases "method_id ix (c_name (k_info k)) (m_name m) (m_descriptor m) (bs_stats st)")
      (auto simp: method_caller_def Let_def split: if_splits)
  then show ?thesis using assms
    by (intro exI [of _ "\<lambda>_. stats"]) (auto simp: method_caller_def bc_method_def bump_stats_def Let_def split: if_splits)
qed

lemma bc_method_synth:
  assumes "method_caller env ix k m = Inr (Some c)" "caller_needs_synthesis (k_info k) m"
  shows "\<exists>nd. synthesize_node env (k_info k) m (k_file k) (k_fqn k) = Inr (Some nd) \<and> n_id nd = c \<and>
    bc_method env ix k m st = Inr (bc_body env ix (k_file k) m c
      (declare_method (k_own k) (c_name (k_info k)) m c
        (add_synthesized (k_owner k) (k_file k) m nd (note_synthesis m st))))"
  using assms by (cases "synthesize_node env (k_info k) m (k_file k) (k_fqn k)")
    (auto simp: method_caller_def bc_method_def split: if_splits)

lemma bc_method_none:
  assumes "method_caller env ix k m = Inr None"
  shows "(\<exists>f. bc_method env ix k m st = Inr (bump_stats f st))
    \<or> (\<exists>n. bc_method env ix k m st = Inr ((note_synthesis m st)\<lparr>bs_skipped_no_lines := n\<rparr>))"
proof (cases "should_skip_method m")
  case True
  then show ?thesis by (auto simp: bc_method_def)
next
  case False
  note keep = this
  show ?thesis
  proof (cases "caller_needs_synthesis (k_info k) m")
    case True
    with assms keep have "synthesize_node env (k_info k) m (k_file k) (k_fqn k) = Inr None"
      by (cases "synthesize_node env (k_info k) m (k_file k) (k_fqn k)") (auto simp: method_caller_def)
    with keep True show ?thesis by (auto simp: bc_method_def Let_def)
  next
    case False
    obtain stats where "method_id ix (c_name (k_info k)) (m_name m) (m_descriptor m) (bs_stats st) = ([], stats)"
      using assms keep False method_id_stats [of ix "c_name (k_info k)" "m_name m" "m_descriptor m" "bs_stats st"]
      by (cases "method_id ix (c_name (k_info k)) (m_name m) (m_descriptor m) (bs_stats st)")
        (auto simp: method_caller_def Let_def split: if_splits)
    with keep False have "bc_method env ix k m st = Inr (bump_stats (\<lambda>_. stats) st)"
      by (simp add: bc_method_def bump_stats_def)
    then show ?thesis by blast
  qed
qed

section \<open>Observers\<close>

locale observer =
  fixes env :: bc_env and ix :: node_index
    and obs :: "bc_state \<Rightarrow> 'o"
    and on_class :: "bc_class \<Rightarrow> 'o \<Rightarrow> 'o"
    and on_body :: "bc_class \<Rightarrow> method_info \<Rightarrow> string \<Rightarrow> 'o \<Rightarrow> 'o"
  assumes obs_seen: "obs (st\<lparr>bs_classes_seen := n\<rparr>) = obs st"
    and obs_stats: "obs (bump_stats f st) = obs st"
    and obs_skip: "obs (st\<lparr>bs_skipped_no_lines := n\<rparr>) = obs st"
    and obs_class: "obs (enter_class env k st) = on_class k (obs st)"
    and obs_found: "\<not> caller_needs_synthesis (k_info k) m \<Longrightarrow>
      obs (bc_body env ix (k_file k) m c (declare_method (k_own k) (c_name (k_info k)) m c st)) = on_body k m c (obs st)"
    and obs_synth: "caller_needs_synthesis (k_info k) m \<Longrightarrow>
      synthesize_node env (k_info k) m (k_file k) (k_fqn k) = Inr (Some nd) \<Longrightarrow>
      obs (bc_body env ix (k_file k) m (n_id nd) (declare_method (k_own k) (c_name (k_info k)) m (n_id nd)
        (add_synthesized (k_owner k) (k_file k) m nd st))) = on_body k m (n_id nd) (obs st)"
begin

lemma obs_note: "obs (note_synthesis m st) = obs st"
  by (simp add: note_synthesis_def obs_stats)

lemma obs_method:
  assumes "bc_method env ix k m st = Inr st'"
  shows "obs st' = (case method_caller env ix k m of Inr (Some c) \<Rightarrow> on_body k m c (obs st) | _ \<Rightarrow> obs st)"
proof (cases "method_caller env ix k m")
  case (Inl e)
  with assms bc_method_raise show ?thesis by fastforce
next
  case (Inr r)
  show ?thesis
  proof (cases r)
    case None
    with Inr bc_method_none [of env ix k m st] assms show ?thesis
      by (auto simp: obs_stats obs_skip obs_note)
  next
    case (Some c)
    with Inr have caller: "method_caller env ix k m = Inr (Some c)" by simp
    show ?thesis
    proof (cases "caller_needs_synthesis (k_info k) m")
      case True
      from bc_method_synth [OF caller True, of st] assms obs_synth [OF True] show ?thesis
        by (auto simp: caller obs_note)
    next
      case False
      from bc_method_found [OF caller False, of st] assms obs_found [OF False] show ?thesis
        by (auto simp: caller obs_stats)
    qed
  qed
qed

lemma obs_methods:
  "fold_res (bc_method env ix k) ms st = Inr st' \<Longrightarrow>
   obs st' = fold (\<lambda>(m, c). on_body k m c) (concat (map (\<lambda>m. case method_caller env ix k m of
     Inr (Some c) \<Rightarrow> [(m, c)] | _ \<Rightarrow> []) ms)) (obs st)"
proof (induction ms arbitrary: st)
  case (Cons m ms)
  then obtain st1 where s: "bc_method env ix k m st = Inr st1" "fold_res (bc_method env ix k) ms st1 = Inr st'"
    by (auto split: sum.splits)
  from Cons.IH [OF s(2)] obs_method [OF s(1)] show ?case
    by (auto split: sum.splits option.splits)
qed simp

lemma obs_scan:
  "fold_res (bc_class_step env ix) infos st = Inr st' \<Longrightarrow>
   obs st' = fold (\<lambda>k o1. fold (\<lambda>(m, c). on_body k m c) (class_bodies env ix k) (on_class k o1)) (entered ix infos) (obs st)"
proof (induction infos arbitrary: st)
  case (Cons i infos)
  then obtain st1 where s: "bc_class_step env ix i st = Inr st1" "fold_res (bc_class_step env ix) infos st1 = Inr st'"
    by (auto split: sum.splits)
  show ?case
  proof (cases "class_of ix i")
    case None
    with s(1) have "obs st1 = obs st" by (auto simp: bc_class_step_def Let_def obs_seen)
    with Cons.IH [OF s(2)] None show ?thesis by (simp add: entered_Cons)
  next
    case (Some k)
    with s(1) have "fold_res (bc_method env ix k) (c_methods i) (enter_class env k (st\<lparr>bs_classes_seen := bs_classes_seen st + 1\<rparr>)) = Inr st1"
      by (simp add: bc_class_step_def Let_def)
    from obs_methods [OF this] have "obs st1 = fold (\<lambda>(m, c). on_body k m c) (class_bodies env ix k) (on_class k (obs st))"
      by (simp add: obs_class obs_seen class_bodies_def class_of_info [OF Some])
    with Cons.IH [OF s(2)] Some show ?thesis by (simp add: entered_Cons)
  qed
qed (simp add: entered_def List.map_filter_simps)

end

text \<open>An observer that looks at nothing but calls and field accesses.\<close>

locale body_observer =
  fixes env :: bc_env and ix :: node_index
    and obs :: "bc_state \<Rightarrow> 'o"
    and on_call :: "string \<Rightarrow> string \<Rightarrow> invocation \<Rightarrow> 'o \<Rightarrow> 'o"
    and on_access :: "string \<Rightarrow> string \<Rightarrow> field_access \<Rightarrow> 'o \<Rightarrow> 'o"
  assumes only_seen: "obs (st\<lparr>bs_classes_seen := n\<rparr>) = obs st"
    and only_stats: "obs (bump_stats f st) = obs st"
    and only_skip: "obs (st\<lparr>bs_skipped_no_lines := n\<rparr>) = obs st"
    and only_class: "obs (enter_class env k st) = obs st"
    and only_declare: "obs (declare_method own cname m c st) = obs st"
    and only_synth: "obs (add_synthesized owner file m nd st) = obs st"
    and obs_call: "obs (bc_call env ix file c v st) = on_call file c v (obs st)"
    and obs_access: "obs (bc_access ix file c a st) = on_access file c a (obs st)"
begin

lemma obs_calls: "obs (fold (bc_call env ix file c) vs st) = fold (on_call file c) vs (obs st)"
  by (induction vs arbitrary: st) (simp_all add: obs_call)

lemma obs_accesses: "obs (fold (bc_access ix file c) xs st) = fold (on_access file c) xs (obs st)"
  by (induction xs arbitrary: st) (simp_all add: obs_access)

lemma obs_body: "obs (bc_body env ix file m c st) =
    fold (on_access file c) (m_accesses m) (fold (on_call file c) (m_invocations m) (obs st))"
  by (simp add: bc_body_def obs_calls obs_accesses)

end

sublocale body_observer \<subseteq> observer env ix obs "\<lambda>_ o1. o1"
  "\<lambda>k m c o1. fold (on_access (k_file k) c) (m_accesses m) (fold (on_call (k_file k) c) (m_invocations m) o1)"
  by unfold_locales (simp_all add: only_seen only_stats only_skip only_class only_declare only_synth obs_body)

context body_observer begin

lemma obs_bodies:
  assumes "scan_classes env ix infos = Inr st"
  shows "obs st = fold (\<lambda>(k, m, c) o1. fold (on_access (k_file k) c) (m_accesses m)
    (fold (on_call (k_file k) c) (m_invocations m) o1)) (bodies env ix infos) (obs bc_start)"
proof -
  have flat: "fold (\<lambda>k o1. fold (\<lambda>(m, c). g k m c) (class_bodies env ix k) o1) ks o1
      = fold (\<lambda>(k, m, c). g k m c) (concat (map (\<lambda>k. map (Pair k) (class_bodies env ix k)) ks)) o1" for g ks and o1 :: 'o
  proof (induction ks arbitrary: o1)
    case (Cons k ks)
    have "fold (\<lambda>(m, c). g k m c) xs o2 = fold (\<lambda>(k, m, c). g k m c) (map (Pair k) xs) o2" for xs o2
      by (induction xs arbitrary: o2) auto
    with Cons show ?case by (simp add: fold_append)
  qed simp
  from obs_scan [OF assms [unfolded scan_classes_def]] show ?thesis
    unfolding bodies_def by (simp add: flat)
qed

end

end
