(* ===== verification/BytecodeProps.thy ===== *)
theory BytecodeProps
  imports BytecodeScan
begin

text \<open>
  What the bytecode pass returns: its edges as the deduplication of a list of candidates read
  off the instructions and headers, the exact overrides with the methods it answers for, the
  accounting of unrecognised calls, and the marks of the catalog.
\<close>

section \<open>Candidates\<close>

definition call_edges :: "bc_env \<Rightarrow> node_index \<Rightarrow> string \<Rightarrow> string \<Rightarrow> invocation \<Rightarrow> edge list" where
  "call_edges env ix file c v =
     (if i_opcode v = ''invokedynamic'' then []
      else (if call_kind env v = [] then []
            else [bc_edge ''CALLS_EXTERNAL'' c (external_id (be_make_id env) (i_owner v) (i_name v)) file (i_line v)])
         @ (if callee_of ix v = [] then [] else [bc_edge ''CALLS'' c (callee_of ix v) file (i_line v)]))"

definition access_edges :: "node_index \<Rightarrow> string \<Rightarrow> string \<Rightarrow> field_access \<Rightarrow> edge list" where
  "access_edges ix file c a = (let dst = field_id ix (a_owner a) (a_name a) in
     if dst = [] then [] else [bc_edge (if is_read a then ''READS'' else ''WRITES'') c dst file (a_line a)])"

definition body_edges :: "bc_env \<Rightarrow> node_index \<Rightarrow> bc_class \<times> method_info \<times> string \<Rightarrow> edge list" where
  "body_edges env ix b = (case b of (k, m, c) \<Rightarrow>
     concat (map (call_edges env ix (k_file k) c) (m_invocations m)) @
     concat (map (access_edges ix (k_file k) c) (m_accesses m)))"

definition headers :: "node_index \<Rightarrow> class_info list \<Rightarrow> (string \<times> header) list" where
  "headers ix infos = fold (\<lambda>k h. if k_own k = [] then h
     else AList.update (c_name (k_info k)) (c_super (k_info k), c_interfaces (k_info k)) h) (entered ix infos) []"

definition declared :: "bc_env \<Rightarrow> node_index \<Rightarrow> class_info list \<Rightarrow> (string \<times> (method_info \<times> string) list) list" where
  "declared env ix infos = fold (\<lambda>(k, m, c) g. if k_own k \<noteq> [] \<and> can_override m
     then group_add (c_name (k_info k)) (m, c) g else g) (bodies env ix infos) []"

definition target_edges :: "node_index \<Rightarrow> string \<Rightarrow> string \<times> string \<Rightarrow> edge list" where
  "target_edges ix src t = (let dst = (if snd t = [] then [] else class_id ix (snd t))
     in if dst = [] \<or> dst = src then [] else [bc_edge (fst t) src dst (file_of ix src) 0])"

definition header_edges :: "node_index \<Rightarrow> string \<times> header \<Rightarrow> edge list" where
  "header_edges ix entry = concat (map (target_edges ix (class_id ix (fst entry))) (header_targets (snd entry)))"

definition override_edges :: "node_index \<Rightarrow> method_info \<Rightarrow> string \<Rightarrow> string \<Rightarrow> edge list" where
  "override_edges ix m mid anc = (let dst = override_target ix anc (m_name m) (m_descriptor m)
     in if dst = [] \<or> dst = mid then [] else [bc_edge ''OVERRIDES'' mid dst (file_of ix mid) (m_start_line m)])"

definition chain_of :: "node_index \<Rightarrow> (string \<times> header) list \<Rightarrow> string \<Rightarrow> string list \<times> bool" where
  "chain_of ix h cname = chain_walk ix h (direct_ancestors (map_of h cname)) {} [] True"

definition class_overrides :: "node_index \<Rightarrow> (string \<times> header) list \<Rightarrow> string \<times> (method_info \<times> string) list \<Rightarrow> edge list" where
  "class_overrides ix h entry = concat (map (\<lambda>(m, mid).
     concat (map (override_edges ix m mid) (fst (chain_of ix h (fst entry))))) (snd entry))"

definition candidate_edges :: "bc_env \<Rightarrow> node_index \<Rightarrow> class_info list \<Rightarrow> edge list" where
  "candidate_edges env ix infos =
     concat (map (body_edges env ix) (bodies env ix infos)) @
     concat (map (header_edges ix) (headers ix infos)) @
     concat (map (class_overrides ix (headers ix infos)) (declared env ix infos))"

section \<open>Emission\<close>

definition linked :: "bc_state \<Rightarrow> edge list \<times> (string \<times> string \<times> string) set" where
  "linked st = (filter (\<lambda>e. e_type e \<noteq> ''CONTAINS'') (bs_edges st), bs_seen st)"

definition emits :: "edge list \<Rightarrow> edge list \<times> (string \<times> string \<times> string) set \<Rightarrow> edge list \<times> (string \<times> string \<times> string) set" where
  "emits es = (\<lambda>(out, S). (out @ kept edge_key S es, S \<union> edge_key ` set es))"

lemma emits_Nil [simp]: "emits [] p = p"
  by (simp add: emits_def kept_def split: prod.splits)

lemma emits_append: "emits (xs @ ys) p = emits ys (emits xs p)"
  by (simp add: emits_def kept_append Un_assoc image_Un split: prod.splits)

lemma fold_emits: "fold (\<lambda>x. emits (f x)) xs p = emits (concat (map f xs)) p"
  by (induction xs arbitrary: p) (simp_all add: emits_append)

lemma linked_emit:
  assumes "e_type e \<noteq> ''CONTAINS''" "\<And>s. bs_edges (bump s) = bs_edges s \<and> bs_seen (bump s) = bs_seen s"
  shows "linked (bc_emit bump e st) = emits [e] (linked st)"
  using assms by (auto simp: linked_def bc_emit_def emits_def kept_def)

lemma linked_same:
  "bs_edges st' = bs_edges st \<Longrightarrow> bs_seen st' = bs_seen st \<Longrightarrow> linked st' = linked st"
  by (simp add: linked_def)

lemma taint_mark_keeps [simp]:
  "bs_edges (taint_mark c v st) = bs_edges st" "bs_seen (taint_mark c v st) = bs_seen st"
  "bs_nodes (taint_mark c v st) = bs_nodes st" "bs_external_ids (taint_mark c v st) = bs_external_ids st"
  "bs_unclassified (taint_mark c v st) = bs_unclassified st" "bs_owners (taint_mark c v st) = bs_owners st"
  "bs_overflow (taint_mark c v st) = bs_overflow st" "bs_external_calls (taint_mark c v st) = bs_external_calls st"
  "bs_hierarchy (taint_mark c v st) = bs_hierarchy st" "bs_own_ids (taint_mark c v st) = bs_own_ids st"
  "bs_declared (taint_mark c v st) = bs_declared st"
  by (simp_all add: taint_mark_def Let_def split: option.splits role.splits)

lemma tally_capped_keeps [simp]:
  "bs_edges (tally_capped k st) = bs_edges st" "bs_seen (tally_capped k st) = bs_seen st"
  "bs_nodes (tally_capped k st) = bs_nodes st" "bs_external_ids (tally_capped k st) = bs_external_ids st"
  "bs_owners (tally_capped k st) = bs_owners st" "bs_external_calls (tally_capped k st) = bs_external_calls st"
  "bs_hierarchy (tally_capped k st) = bs_hierarchy st" "bs_own_ids (tally_capped k st) = bs_own_ids st"
  "bs_declared (tally_capped k st) = bs_declared st"
  by (simp_all add: tally_capped_def)

lemma inventory_keeps [simp]:
  "bs_edges (inventory v st) = bs_edges st" "bs_seen (inventory v st) = bs_seen st"
  "bs_nodes (inventory v st) = bs_nodes st" "bs_external_ids (inventory v st) = bs_external_ids st"
  "bs_external_calls (inventory v st) = bs_external_calls st" "bs_hierarchy (inventory v st) = bs_hierarchy st"
  "bs_own_ids (inventory v st) = bs_own_ids st" "bs_declared (inventory v st) = bs_declared st"
  by (simp_all add: inventory_def Let_def)

lemma linked_external: "linked (call_external env file c kind v st) =
    emits [bc_edge ''CALLS_EXTERNAL'' c (external_id (be_make_id env) (i_owner v) (i_name v)) file (i_line v)] (linked st)"
proof -
  have "n_id (external_node env kind v) = external_id (be_make_id env) (i_owner v) (i_name v)"
    by (simp add: external_node_def mk_node_def)
  then show ?thesis unfolding call_external_def Let_def
    by (subst linked_emit) (simp_all add: linked_def)
qed

lemma linked_call: "linked (bc_call env ix file c v st) = emits (call_edges env ix file c v) (linked st)"
proof (cases "i_opcode v = ''invokedynamic''")
  case False
  let ?kind = "call_kind env v" and ?st1 = "taint_mark c v st"
  define st2 where "st2 = (if ?kind \<noteq> [] then call_external env file c ?kind v ?st1 else ?st1)"
  have st2: "linked st2 = emits (if ?kind = [] then [] else [bc_edge ''CALLS_EXTERNAL'' c
      (external_id (be_make_id env) (i_owner v) (i_name v)) file (i_line v)]) (linked st)"
    by (simp add: st2_def linked_external) (simp add: linked_def)
  show ?thesis
  proof (cases "callee_of ix v = []")
    case True
    then have "linked (bc_call env ix file c v st) = linked st2"
      using False by (intro linked_same) (simp_all add: bc_call_def Let_def st2_def)
    with True False st2 show ?thesis by (simp add: call_edges_def)
  next
    case callee: False
    then have "linked (bc_call env ix file c v st) = emits [bc_edge ''CALLS'' c (callee_of ix v) file (i_line v)] (linked st2)"
      using False by (simp add: bc_call_def Let_def st2_def linked_emit)
    with callee False st2 show ?thesis by (simp add: call_edges_def flip: emits_append)
  qed
qed (simp add: bc_call_def call_edges_def)

lemma linked_access: "linked (bc_access ix file c a st) = emits (access_edges ix file c a) (linked st)"
  by (simp add: bc_access_def access_edges_def Let_def linked_emit bump_stats_def)
    (simp add: linked_def)

interpretation links: body_observer env ix linked
  "\<lambda>file c v. emits (call_edges env ix file c v)" "\<lambda>file c a. emits (access_edges ix file c a)" for env ix
  by unfold_locales (simp_all add: linked_call linked_access,
    simp_all add: linked_def bump_stats_def enter_class_def declare_method_def add_synthesized_def Let_def)

lemma linked_scan:
  assumes "scan_classes env ix infos = Inr st"
  shows "linked st = emits (concat (map (body_edges env ix) (bodies env ix infos))) ([], {})"
proof -
  have body: "(\<lambda>(k, m, c) p. fold (\<lambda>a. emits (access_edges ix (k_file k) c a)) (m_accesses m)
      (fold (\<lambda>v. emits (call_edges env ix (k_file k) c v)) (m_invocations m) p)) = (\<lambda>b. emits (body_edges env ix b))"
    by (intro ext) (simp add: fold_emits body_edges_def emits_append split: prod.splits)
  have start: "linked bc_start = ([], {})" by (simp add: linked_def bc_start_def)
  show ?thesis unfolding links.obs_bodies [OF assms] body start by (rule fold_emits)
qed


section \<open>The hierarchy and the declarations\<close>

lemma external_keeps [simp]:
  "bs_hierarchy (call_external env file c kind v st) = bs_hierarchy st"
  "bs_own_ids (call_external env file c kind v st) = bs_own_ids st"
  "bs_declared (call_external env file c kind v st) = bs_declared st"
  "bs_unclassified (call_external env file c kind v st) = bs_unclassified st"
  "bs_owners (call_external env file c kind v st) = bs_owners st"
  "bs_overflow (call_external env file c kind v st) = bs_overflow st"
  "bs_external_calls (call_external env file c kind v st) = bs_external_calls st"
  "bs_sources (call_external env file c kind v st) = bs_sources st"
  "bs_sanitizers (call_external env file c kind v st) = bs_sanitizers st"
  "bs_sink_kinds (call_external env file c kind v st) = bs_sink_kinds st"
  "bs_sites (call_external env file c kind v st) = bs_sites st"
  by (simp_all add: call_external_def bc_emit_def Let_def)

definition heads :: "bc_state \<Rightarrow> (string \<times> header) list \<times> (string \<rightharpoonup> string)" where
  "heads st = (bs_hierarchy st, bs_own_ids st)"

definition add_head :: "bc_class \<Rightarrow> (string \<times> header) list \<Rightarrow> (string \<times> header) list" where
  "add_head k h = (if k_own k = [] then h
     else AList.update (c_name (k_info k)) (c_super (k_info k), c_interfaces (k_info k)) h)"

definition add_own :: "bc_class \<Rightarrow> (string \<rightharpoonup> string) \<Rightarrow> string \<rightharpoonup> string" where
  "add_own k ids = (if k_own k = [] then ids else ids(c_name (k_info k) \<mapsto> k_own k))"

definition add_declared :: "bc_class \<Rightarrow> method_info \<Rightarrow> string \<Rightarrow>
    (string \<times> (method_info \<times> string) list) list \<Rightarrow> (string \<times> (method_info \<times> string) list) list" where
  "add_declared k m c g = (if k_own k \<noteq> [] \<and> can_override m then group_add (c_name (k_info k)) (m, c) g else g)"

lemma heads_body [simp]: "heads (bc_body env ix file m c st) = heads st"
proof -
  have "heads (fold (bc_call env ix file c) vs st) = heads st" for vs st
    by (induction vs arbitrary: st) (simp_all add: heads_def bc_call_def bc_emit_def Let_def)
  moreover have "heads (fold (bc_access ix file c) xs st) = heads st" for xs st
    by (induction xs arbitrary: st) (simp_all add: heads_def bc_access_def bc_emit_def bump_stats_def Let_def)
  ultimately show ?thesis by (simp add: bc_body_def)
qed

lemma declared_body [simp]: "bs_declared (bc_body env ix file m c st) = bs_declared st"
proof -
  have "bs_declared (fold (bc_call env ix file c) vs st) = bs_declared st" for vs st
    by (induction vs arbitrary: st) (simp_all add: bc_call_def bc_emit_def Let_def)
  moreover have "bs_declared (fold (bc_access ix file c) xs st) = bs_declared st" for xs st
    by (induction xs arbitrary: st) (simp_all add: bc_access_def bc_emit_def bump_stats_def Let_def)
  ultimately show ?thesis by (simp add: bc_body_def)
qed

interpretation hd_obs: observer env ix heads "\<lambda>k (h, ids). (add_head k h, add_own k ids)" "\<lambda>_ _ _ o1. o1" for env ix
  by unfold_locales (simp_all, simp_all add: heads_def bump_stats_def enter_class_def declare_method_def
    add_synthesized_def add_head_def add_own_def Let_def)

interpretation decl_obs: observer env ix bs_declared "\<lambda>_ o1. o1" add_declared for env ix
  by unfold_locales (simp_all add: bump_stats_def enter_class_def declare_method_def add_synthesized_def add_declared_def Let_def)

lemma class_of_own: "class_of ix info = Some k \<Longrightarrow> k_own k = class_id ix (c_name (k_info k))"
  by (auto simp: class_of_def Let_def split: if_splits)

lemma fold_heads: "fold (\<lambda>k (h, ids). (add_head k h, add_own k ids)) ks (h, ids) = (fold add_head ks h, fold add_own ks ids)"
  by (induction ks arbitrary: h ids) simp_all

lemma add_head_keys: "fst ` set (add_head k h) = (if k_own k = [] then fst ` set h else insert (c_name (k_info k)) (fst ` set h))"
  by (simp add: add_head_def dom_update)

lemma own_ids:
  "\<forall>k \<in> set ks. k_own k = class_id ix (c_name (k_info k)) \<Longrightarrow> \<forall>n \<in> fst ` set h. ids n = Some (class_id ix n) \<Longrightarrow>
   \<forall>n \<in> fst ` set (fold add_head ks h). fold add_own ks ids n = Some (class_id ix n)"
proof (induction ks arbitrary: h ids)
  case (Cons k ks)
  have "\<forall>n \<in> fst ` set (add_head k h). add_own k ids n = Some (class_id ix n)"
    using Cons.prems unfolding add_head_keys by (simp add: add_own_def)
  with Cons show ?case by simp
qed simp

lemma fold_idle [simp]: "fold (\<lambda>(m, c) o1. o1) xs o2 = o2"
  by (induction xs) auto

lemma fold_bodies: "fold (\<lambda>k o1. fold (\<lambda>(m, c). g k m c) (f k) o1) ks o1
    = fold (\<lambda>(k, m, c). g k m c) (concat (map (\<lambda>k. map (Pair k) (f k)) ks)) o1"
proof (induction ks arbitrary: o1)
  case (Cons k ks)
  have "fold (\<lambda>(m, c). g k m c) xs o2 = fold (\<lambda>(k, m, c). g k m c) (map (Pair k) xs) o2" for xs o2
    by (induction xs arbitrary: o2) auto
  with Cons show ?case by (simp add: fold_append)
qed simp

lemma heads_scan:
  assumes "scan_classes env ix infos = Inr st"
  shows "bs_hierarchy st = headers ix infos"
    and "n \<in> fst ` set (headers ix infos) \<Longrightarrow> bs_own_ids st n = Some (class_id ix n)"
proof -
  have "heads st = fold (\<lambda>k (h, ids). (add_head k h, add_own k ids)) (entered ix infos) ([], \<lambda>_. None)"
    using hd_obs.obs_scan [OF assms [unfolded scan_classes_def]] by (simp add: heads_def bc_start_def)
  then have h: "bs_hierarchy st = fold add_head (entered ix infos) []"
      "bs_own_ids st = fold add_own (entered ix infos) (\<lambda>_. None)"
    by (simp_all add: fold_heads heads_def)
  then show e: "bs_hierarchy st = headers ix infos"
    unfolding headers_def add_head_def [abs_def] by simp
  have "\<forall>k \<in> set (entered ix infos). k_own k = class_id ix (c_name (k_info k))"
    by (auto simp: entered_mem dest: class_of_own)
  from own_ids [OF this, of "[]"] show "n \<in> fst ` set (headers ix infos) \<Longrightarrow> bs_own_ids st n = Some (class_id ix n)"
    unfolding e [symmetric] h by auto
qed

lemma declared_scan: "scan_classes env ix infos = Inr st \<Longrightarrow> bs_declared st = declared env ix infos"
  unfolding declared_def bodies_def
  using decl_obs.obs_scan [of env ix infos bc_start st]
  by (simp add: scan_classes_def fold_bodies bc_start_def add_declared_def [abs_def])


section \<open>After the loop\<close>

lemma linked_target: "linked (hierarchy_edge ix src t st) =
    emits (target_edges ix src t) (linked st)" if "fst t \<noteq> ''CONTAINS''"
  using that by (simp add: hierarchy_edge_def target_edges_def Let_def linked_emit)

lemma linked_header:
  assumes "bs_own_ids st (fst entry) = Some (class_id ix (fst entry))"
  shows "linked (hierarchy_step env ix entry st) = emits (header_edges ix entry) (linked st)"
proof -
  have "linked (fold (hierarchy_edge ix src) ts s) = emits (concat (map (target_edges ix src) ts)) (linked s)"
    if "\<forall>t \<in> set ts. fst t \<noteq> ''CONTAINS''" for src ts s
    using that by (induction ts arbitrary: s) (simp_all add: linked_target emits_append)
  moreover have "\<forall>t \<in> set (header_targets h). fst t \<noteq> ''CONTAINS''" for h
    by (auto simp: header_targets_def)
  moreover have "linked (st\<lparr>bs_hierarchy_files := fs\<rparr>) = linked st" for fs by (simp add: linked_def)
  ultimately show ?thesis using assms by (simp add: hierarchy_step_def header_edges_def Let_def)
qed

definition unlinked :: "bc_state \<Rightarrow> (string \<times> header) list \<times> (string \<rightharpoonup> string) \<times>
    (string \<times> (method_info \<times> string) list) list \<times> node list \<times> match_stats \<times> nat \<times> edge list" where
  "unlinked st = (bs_hierarchy st, bs_own_ids st, bs_declared st, bs_nodes st, bs_stats st,
     bs_classes_in_repo st, filter (\<lambda>e. e_type e = ''CONTAINS'') (bs_edges st))"

lemma unlinked_header: "unlinked (hierarchy_step env ix entry st) = unlinked st"
proof -
  have "unlinked (fold (hierarchy_edge ix src) ts s) = unlinked s" if "\<forall>t \<in> set ts. fst t \<noteq> ''CONTAINS''" for src ts s
    using that by (induction ts arbitrary: s) (simp_all add: unlinked_def hierarchy_edge_def bc_emit_def Let_def)
  moreover have "\<forall>t \<in> set (header_targets h). fst t \<noteq> ''CONTAINS''" for h
    by (auto simp: header_targets_def)
  ultimately show ?thesis by (simp add: hierarchy_step_def Let_def) (simp add: unlinked_def)
qed

lemma unlinked_override: "unlinked (override_class ix entry st) = unlinked st"
proof -
  have s: "unlinked (fold (override_step ix m mid) xs s) = unlinked s" for m mid xs s
    by (induction xs arbitrary: s) (simp_all add: unlinked_def override_step_def bc_emit_def Let_def)
  have a: "unlinked (s\<lparr>bs_authoritative := x\<rparr>) = unlinked s" "unlinked (s\<lparr>bs_truncated := n\<rparr>) = unlinked s" for s x n
    by (simp_all add: unlinked_def)
  have "unlinked (fold (override_method ix chain whole) ms s) = unlinked s" for chain whole ms s
    by (induction ms arbitrary: s) (simp_all add: override_method_def Let_def s a)
  then show ?thesis by (simp add: override_class_def Let_def a split: prod.splits)
qed

lemma linked_override:
  "linked (override_class ix entry st) = emits (class_overrides ix (bs_hierarchy st) entry) (linked st)"
proof -
  have s: "linked (fold (override_step ix m mid) xs s) = emits (concat (map (override_edges ix m mid) xs)) (linked s)" for m mid xs s
  proof (induction xs arbitrary: s)
    case (Cons a xs)
    have "linked (override_step ix m mid a s) = emits (override_edges ix m mid a) (linked s)"
      by (simp add: override_step_def override_edges_def Let_def linked_emit)
    with Cons show ?case by (simp add: emits_append)
  qed simp
  have a: "linked (s\<lparr>bs_authoritative := x\<rparr>) = linked s" "linked (s\<lparr>bs_truncated := n\<rparr>) = linked s" for s x n
    by (simp_all add: linked_def)
  have "linked (fold (override_method ix chain whole) ms s) =
      emits (concat (map (\<lambda>(m, mid). concat (map (override_edges ix m mid) chain)) ms)) (linked s)" for chain whole ms s
    by (induction ms arbitrary: s) (simp_all add: override_method_def Let_def s a emits_append split: prod.splits)
  then show ?thesis
    by (simp add: override_class_def class_overrides_def chain_of_def Let_def a split: prod.splits)
qed

lemma after_scan:
  assumes "scan_classes env ix infos = Inr st"
  defines "fin \<equiv> derive_proven ix (derive_hierarchy env ix st)"
  shows "linked fin = (kept edge_key {} (candidate_edges env ix infos), edge_key ` set (candidate_edges env ix infos))"
    and "unlinked fin = unlinked st"
proof -
  note h = heads_scan [OF assms(1)]
  let ?mid = "derive_hierarchy env ix st"
  have own: "unlinked s' = unlinked s \<Longrightarrow> bs_own_ids s' = bs_own_ids s \<and> bs_hierarchy s' = bs_hierarchy s \<and> bs_declared s' = bs_declared s" for s s'
    by (simp add: unlinked_def)
  have hs: "linked (fold (hierarchy_step env ix) es s) = emits (concat (map (header_edges ix) es)) (linked s)
      \<and> unlinked (fold (hierarchy_step env ix) es s) = unlinked s"
    if "\<forall>e \<in> set es. bs_own_ids s (fst e) = Some (class_id ix (fst e))" for es s
    using that
  proof (induction es arbitrary: s)
    case (Cons e es)
    note step = linked_header [of s e ix env] and keep = unlinked_header [of env ix e s]
    from own [OF keep] Cons.prems have "\<forall>e' \<in> set es. bs_own_ids (hierarchy_step env ix e s) (fst e') = Some (class_id ix (fst e'))"
      by simp
    from Cons.IH [OF this] step keep Cons.prems show ?case by (simp add: emits_append)
  qed simp
  have "\<forall>e \<in> set (bs_hierarchy st). bs_own_ids st (fst e) = Some (class_id ix (fst e))"
    using h by auto
  from hs [OF this] have mid: "linked ?mid = emits (concat (map (header_edges ix) (headers ix infos))) (linked st)"
      "unlinked ?mid = unlinked st"
    by (simp_all add: derive_hierarchy_def h)
  have os: "linked (fold (override_class ix) ds s) = emits (concat (map (class_overrides ix hs) ds)) (linked s)
      \<and> unlinked (fold (override_class ix) ds s) = unlinked s" if "bs_hierarchy s = hs" for ds s hs
    using that
  proof (induction ds arbitrary: s)
    case (Cons d ds)
    note keep = unlinked_override [of ix d s]
    from own [OF keep] Cons.prems have "bs_hierarchy (override_class ix d s) = hs" by simp
    from Cons.IH [OF this] keep linked_override [of ix d s] Cons.prems show ?case by (simp add: emits_append)
  qed simp
  have f: "linked fin = emits (concat (map (class_overrides ix (headers ix infos)) (declared env ix infos))) (linked ?mid)"
      "unlinked fin = unlinked ?mid"
    using os [of ?mid "headers ix infos" "bs_declared ?mid"] own [OF mid(2)] h declared_scan [OF assms(1)]
    by (simp_all add: fin_def derive_proven_def)
  show "unlinked fin = unlinked st" using f mid by simp
  show "linked fin = (kept edge_key {} (candidate_edges env ix infos), edge_key ` set (candidate_edges env ix infos))"
    unfolding f mid linked_scan [OF assms(1)] emits_append [symmetric] candidate_edges_def
    by (simp add: emits_def)
qed

end
