(* ===== verification/BytecodeResult.thy ===== *)
theory BytecodeResult
  imports BytecodeProps
begin

text \<open>
  The properties of the bytecode pass: exact edges, exact overrides, grounded ends, complete
  accounting of unrecognised calls, exact catalog marks, and when it raises.
\<close>

section \<open>The two outcomes\<close>

definition claims :: "bc_state \<Rightarrow> string set \<times> (string \<times> string) set \<times> string set" where
  "claims st = (bs_authoritative st, bs_override_pairs st, bs_hierarchy_files st)"

lemma claims_taint: "claims (taint_mark c v st) = claims st"
  by (simp add: claims_def taint_mark_def Let_def split: option.splits role.splits)

lemma claims_external: "claims (call_external env file c kind v st) = claims st"
  by (simp add: claims_def call_external_def bc_emit_def Let_def)

lemma claims_inventory: "claims (inventory v st) = claims st"
  by (simp add: claims_def inventory_def tally_capped_def Let_def)

lemma claims_bump: "claims (st\<lparr>bs_external_calls := n\<rparr>) = claims st"
  by (simp add: claims_def)

lemma claims_call_emit: "claims (bc_emit (\<lambda>s. s\<lparr>bs_call_edges := f s\<rparr>) e st) = claims st"
  by (simp add: bc_emit_def claims_def)

interpretation silent: body_observer env ix claims "\<lambda>_ _ _ o1. o1" "\<lambda>_ _ _ o1. o1" for env ix
proof (unfold_locales, goal_cases)
  case (7 fl c v st)
  show ?case
    by (simp add: bc_call_def Let_def claims_taint claims_external claims_inventory claims_bump claims_call_emit)
next
  case (8 fl c a st)
  show ?case by (simp add: bc_access_def Let_def bc_emit_def bump_stats_def claims_def)
qed (simp_all add: claims_def bump_stats_def enter_class_def declare_method_def add_synthesized_def Let_def)

lemma claims_scan: "scan_classes env ix infos = Inr st \<Longrightarrow> claims st = ({}, {}, {})"
proof -
  assume a: "scan_classes env ix infos = Inr st"
  have i1: "fold (\<lambda>x o1. o1) xs o2 = o2" for xs :: "'x list" and o2 :: "string set \<times> (string \<times> string) set \<times> string set"
    by (induction xs) simp_all
  have "fold (\<lambda>(k, m, c) o1. o1) xs o2 = o2" for xs :: "(bc_class \<times> method_info \<times> string) list"
      and o2 :: "string set \<times> (string \<times> string) set \<times> string set" by (induction xs) auto
  with silent.obs_bodies [OF a] show ?thesis unfolding i1 by (simp add: claims_def bc_start_def)
qed

lemma resolve_cases:
  assumes "resolve_java_bytecode env nodes roots r = Inr (es, ns, rep)"
  obtains (discarded) "es = []" "ns = []" "\<not> rp_available rep" "claims (rp_counts rep) = ({}, {}, {})"
  | (kept) st where "scan_classes env (build_index nodes) (iter_class_sources roots) = Inr st"
      "rp_counts rep = derive_proven (build_index nodes) (derive_hierarchy env (build_index nodes) st)"
      "rp_available rep" "es = bs_edges (rp_counts rep)" "ns = bs_nodes (rp_counts rep)"
proof (cases "roots = []")
  case True
  with assms discarded show ?thesis
    by (auto simp: resolve_java_bytecode_def rp_available_def claims_def bc_start_def)
next
  case False
  with assms obtain st where st: "scan_classes env (build_index nodes) (iter_class_sources roots) = Inr st"
      "finish_pass env (build_index nodes) r st = (es, ns, rep)"
    by (auto simp: resolve_java_bytecode_def Let_def split: sum.splits)
  have w: "claims (withhold st) = ({}, {}, {})"
    using claims_scan [OF st(1)] by (simp add: claims_def withhold_def)
  show ?thesis
  proof (cases "bs_classes_in_repo st = 0 \<or> match_rate (bs_stats st) < r")
    case True
    then have "es = [] \<and> ns = [] \<and> \<not> rp_available rep \<and> rp_counts rep = withhold st"
      using st(2) by (auto simp: finish_pass_def rp_available_def split: if_splits)
    with discarded w show ?thesis by metis
  next
    case False
    then have "rp_counts rep = derive_proven (build_index nodes) (derive_hierarchy env (build_index nodes) st)"
        "rp_available rep" "es = bs_edges (rp_counts rep)" "ns = bs_nodes (rp_counts rep)"
      using st(2) by (auto simp: finish_pass_def rp_available_def Let_def split: if_splits)
    with kept st(1) show ?thesis by blast
  qed
qed

lemma resolve_rule:
  assumes "\<And>rep. \<not> rp_available rep \<Longrightarrow> claims (rp_counts rep) = ({}, {}, {}) \<Longrightarrow> Q [] [] rep"
    and "\<And>st rep. scan_classes env (build_index nodes) (iter_class_sources roots) = Inr st \<Longrightarrow>
      rp_counts rep = derive_proven (build_index nodes) (derive_hierarchy env (build_index nodes) st) \<Longrightarrow>
      rp_available rep \<Longrightarrow> Q (bs_edges (rp_counts rep)) (bs_nodes (rp_counts rep)) rep"
  shows "case resolve_java_bytecode env nodes roots r of Inl _ \<Rightarrow> True | Inr (es, ns, rep) \<Rightarrow> Q es ns rep"
proof (cases "resolve_java_bytecode env nodes roots r")
  case (Inr res)
  obtain es ns rep where res: "res = (es, ns, rep)" by (cases res)
  from Inr [unfolded res] have "Q es ns rep"
  proof (cases rule: resolve_cases)
    case discarded
    then show ?thesis using assms(1) [of rep] by simp
  next
    case (kept st)
    show ?thesis unfolding kept(4,5) by (rule assms(2) [OF kept(1-3)])
  qed
  then show ?thesis by (simp add: Inr res)
qed simp

section \<open>Edges\<close>

text \<open>C22: the pass returns, apart from the containment of synthesized nodes, exactly the edges
  that the instructions, headers and proven overrides of the parsed classes call for, in the
  order of the code, each type and pair of ends once; a discarded pass returns nothing and
  claims no overrides and no hierarchy.\<close>

theorem compiled_edges_exact:
  "case resolve_java_bytecode env nodes roots r of Inl _ \<Rightarrow> True
   | Inr (es, ns, rep) \<Rightarrow>
       if rp_available rep
       then filter (\<lambda>e. e_type e \<noteq> ''CONTAINS'') es =
              kept edge_key {} (candidate_edges env (build_index nodes) (iter_class_sources roots))
         \<and> distinct (map edge_key (filter (\<lambda>e. e_type e \<noteq> ''CONTAINS'') es))
       else es = [] \<and> ns = [] \<and> bs_authoritative (rp_counts rep) = {} \<and> bs_override_pairs (rp_counts rep) = {}
         \<and> bs_hierarchy_files (rp_counts rep) = {}"
proof (rule resolve_rule, goal_cases)
  case (1 rep)
  then show ?case by (simp add: claims_def)
next
  case (2 st rep)
  from after_scan(1) [OF 2(1)] 2 show ?case by (simp add: linked_def kept_distinct)
qed

section \<open>Overrides\<close>

definition ancestry :: "(string \<times> header) list \<Rightarrow> (string \<times> string) set" where
  "ancestry h = {(a, b). b \<in> set (direct_ancestors (map_of h a)) \<and> b \<noteq> []}"

lemma chain_walk_spec:
  "\<exists>vs. chain_walk ix h stack visited chain whole =
      (chain @ vs, whole \<and> (\<forall>a \<in> set vs. map_of h a \<noteq> None \<or> class_id ix a = []))
    \<and> set stack - {[]} \<subseteq> visited \<union> set vs \<and> set vs \<subseteq> (ancestry h)\<^sup>* `` (set stack - {[]})
    \<and> ancestry h `` set vs \<subseteq> visited \<union> set vs"
proof (induction ix h stack visited chain whole rule: chain_walk.induct)
  case (1 ix h stack visited chain whole)
  show ?case
  proof (cases "stack = []")
    case True
    then show ?thesis by (intro exI [of _ "[]"]) (simp add: chain_walk.simps)
  next
    case False
    let ?anc = "last stack" and ?rest = "butlast stack"
    have st: "set stack = insert ?anc (set ?rest)" using False by (cases stack rule: rev_cases) auto
    show ?thesis
    proof (cases "?anc = [] \<or> ?anc \<in> visited")
      case True
      from 1(1) [OF False refl refl True] obtain vs where vs:
        "chain_walk ix h ?rest visited chain whole =
           (chain @ vs, whole \<and> (\<forall>a \<in> set vs. map_of h a \<noteq> None \<or> class_id ix a = []))"
        "set ?rest - {[]} \<subseteq> visited \<union> set vs" "set vs \<subseteq> (ancestry h)\<^sup>* `` (set ?rest - {[]})"
        "ancestry h `` set vs \<subseteq> visited \<union> set vs" by blast
      from False True vs(1) have "chain_walk ix h stack visited chain whole =
           (chain @ vs, whole \<and> (\<forall>a \<in> set vs. map_of h a \<noteq> None \<or> class_id ix a = []))"
        by (subst chain_walk.simps) (simp add: Let_def)
      moreover have "set stack - {[]} \<subseteq> visited \<union> set vs" using vs(2) True st by auto
      moreover have "set vs \<subseteq> (ancestry h)\<^sup>* `` (set stack - {[]})" using vs(3) st by auto
      ultimately show ?thesis using vs(4) by blast
    next
      case new: False
      define more where "more = direct_ancestors (map_of h ?anc)"
      define w where "w = (if map_of h ?anc = None \<and> class_id ix ?anc \<noteq> [] then False else whole)"
      have again: "chain_walk ix h stack visited chain whole =
          chain_walk ix h (?rest @ more) (insert ?anc visited) (chain @ [?anc]) w"
        using False new by (subst chain_walk.simps)
          (auto simp: more_def w_def Let_def direct_ancestors_def split: option.split)
      have "\<exists>vs. chain_walk ix h (?rest @ more) (insert ?anc visited) (chain @ [?anc]) w =
          ((chain @ [?anc]) @ vs, w \<and> (\<forall>a \<in> set vs. map_of h a \<noteq> None \<or> class_id ix a = []))
        \<and> set (?rest @ more) - {[]} \<subseteq> insert ?anc visited \<union> set vs
        \<and> set vs \<subseteq> (ancestry h)\<^sup>* `` (set (?rest @ more) - {[]})
        \<and> ancestry h `` set vs \<subseteq> insert ?anc visited \<union> set vs"
      proof (cases "map_of h ?anc")
        case None
        from 1(2) [OF False refl refl new None] None show ?thesis
          by (auto simp: more_def w_def direct_ancestors_def)
      next
        case (Some e)
        from 1(3) [OF False refl refl new Some] Some show ?thesis by (simp add: more_def w_def)
      qed
      then obtain vs where vs: "chain_walk ix h (?rest @ more) (insert ?anc visited) (chain @ [?anc]) w =
          ((chain @ [?anc]) @ vs, w \<and> (\<forall>a \<in> set vs. map_of h a \<noteq> None \<or> class_id ix a = []))"
        "set (?rest @ more) - {[]} \<subseteq> insert ?anc visited \<union> set vs"
        "set vs \<subseteq> (ancestry h)\<^sup>* `` (set (?rest @ more) - {[]})"
        "ancestry h `` set vs \<subseteq> insert ?anc visited \<union> set vs" by blast
      have m: "ancestry h `` {?anc} = set more - {[]}" by (auto simp: ancestry_def more_def)
      have "set (?rest @ more) - {[]} \<subseteq> (ancestry h)\<^sup>* `` (set stack - {[]})"
        using m new unfolding st by auto
      from Image_mono [OF order_refl this, of "(ancestry h)\<^sup>*"]
      have "set vs \<subseteq> (ancestry h)\<^sup>* `` (set stack - {[]})"
        using vs(3) by (simp add: relcomp_Image [symmetric])
      moreover have "?anc \<in> (ancestry h)\<^sup>* `` (set stack - {[]})" using new st by auto
      moreover have "ancestry h `` set (?anc # vs) \<subseteq> visited \<union> set (?anc # vs)"
        using vs(2,4) m by auto
      moreover have "set stack - {[]} \<subseteq> visited \<union> set (?anc # vs)" using vs(2) st by auto
      moreover have "chain_walk ix h stack visited chain whole = (chain @ (?anc # vs),
          whole \<and> (\<forall>a \<in> set (?anc # vs). map_of h a \<noteq> None \<or> class_id ix a = []))"
        unfolding again vs(1) by (auto simp: w_def)
      ultimately show ?thesis by (intro exI [of _ "?anc # vs"]) simp
    qed
  qed
qed

lemma chain_of_spec:
  "set (fst (chain_of ix h c)) = (ancestry h)\<^sup>+ `` {c}"
  "snd (chain_of ix h c) \<longleftrightarrow> (ancestry h)\<^sup>+ `` {c} \<subseteq> {a. map_of h a \<noteq> None \<or> class_id ix a = []}"
proof -
  let ?start = "set (direct_ancestors (map_of h c)) - {[]}"
  obtain vs where vs: "chain_of ix h c = (vs, \<forall>a \<in> set vs. map_of h a \<noteq> None \<or> class_id ix a = [])"
    "?start \<subseteq> set vs" "set vs \<subseteq> (ancestry h)\<^sup>* `` ?start" "ancestry h `` set vs \<subseteq> set vs"
    using chain_walk_spec [of ix h "direct_ancestors (map_of h c)" "{}" "[]" True] by (auto simp: chain_of_def)
  have s: "?start = ancestry h `` {c}" by (auto simp: ancestry_def)
  have "(ancestry h)\<^sup>* `` ?start \<subseteq> set vs"
  proof -
    have "(ancestry h)\<^sup>* `` ?start \<subseteq> (ancestry h)\<^sup>* `` set vs" using vs(2) by blast
    also have "\<dots> = set vs" by (rule Image_closed_trancl [OF vs(4)])
    finally show ?thesis .
  qed
  with vs(3) have eq: "set vs = (ancestry h)\<^sup>+ `` {c}"
    unfolding s by (auto simp: trancl_unfold_left dest: rtrancl_into_trancl2)
  with vs(1) show "set (fst (chain_of ix h c)) = (ancestry h)\<^sup>+ `` {c}"
    "snd (chain_of ix h c) \<longleftrightarrow> (ancestry h)\<^sup>+ `` {c} \<subseteq> {a. map_of h a \<noteq> None \<or> class_id ix a = []}" by auto
qed

definition pairs_of :: "string \<Rightarrow> edge list \<Rightarrow> (string \<times> string) set" where
  "pairs_of t es = {(s, d). (t, s, d) \<in> edge_key ` set es}"

lemma pairs_append: "pairs_of t (xs @ ys) = pairs_of t xs \<union> pairs_of t ys"
  by (auto simp: pairs_of_def)

lemma pairs_concat: "pairs_of t (concat (map f xs)) = (\<Union>x \<in> set xs. pairs_of t (f x))"
  by (auto simp: pairs_of_def)

lemma pairs_kept: "pairs_of t (kept edge_key {} es) = pairs_of t es"
  by (simp add: pairs_of_def kept_keys)

lemma pairs_filter: "t \<noteq> ''CONTAINS'' \<Longrightarrow> pairs_of t (filter (\<lambda>e. e_type e \<noteq> ''CONTAINS'') es) = pairs_of t es"
  by (auto simp: pairs_of_def edge_key_def image_iff)

lemma pairs_single: "pairs_of t [bc_edge t' s d f l] = (if t = t' then {(s, d)} else {})"
  by (auto simp: pairs_of_def)

lemma pairs_nil [simp]: "pairs_of t [] = {}"
  by (simp add: pairs_of_def)

lemma call_types: "pairs_of t (call_edges env ix f c v) = {} \<or> t = ''CALLS'' \<or> t = ''CALLS_EXTERNAL''"
  by (simp add: call_edges_def pairs_append pairs_single)

lemma access_types: "pairs_of t (access_edges ix f c a) = {} \<or> t = ''READS'' \<or> t = ''WRITES''"
  by (simp add: access_edges_def pairs_single Let_def)

lemma header_types: "pairs_of t (header_edges ix e) = {} \<or> t = ''EXTENDS'' \<or> t = ''IMPLEMENTS''"
proof -
  have "pairs_of t (target_edges ix src x) = {} \<or> t = ''EXTENDS'' \<or> t = ''IMPLEMENTS''"
    if "x \<in> set (header_targets h)" for src x h
    using that by (auto simp: header_targets_def target_edges_def pairs_single Let_def)
  then show ?thesis unfolding header_edges_def pairs_concat by blast
qed

lemma override_pairs: "pairs_of t (override_edges ix m mid anc) =
    (let dst = override_target ix anc (m_name m) (m_descriptor m)
     in if t = ''OVERRIDES'' \<and> dst \<noteq> [] \<and> dst \<noteq> mid then {(mid, dst)} else {})"
  by (simp add: override_edges_def pairs_single Let_def)

lemma class_pairs: "pairs_of t (class_overrides ix h d) =
    (\<Union>mm \<in> set (snd d). \<Union>anc \<in> (ancestry h)\<^sup>+ `` {fst d}. pairs_of t (override_edges ix (fst mm) (snd mm) anc))"
  by (simp add: class_overrides_def pairs_concat case_prod_unfold chain_of_spec(1) [of ix])

lemma body_pairs: "pairs_of t (body_edges env ix b) = (case b of (k, m, c) \<Rightarrow>
    (\<Union>v \<in> set (m_invocations m). pairs_of t (call_edges env ix (k_file k) c v))
    \<union> (\<Union>a \<in> set (m_accesses m). pairs_of t (access_edges ix (k_file k) c a)))"
  by (simp add: body_edges_def pairs_append pairs_concat split: prod.splits)

lemma candidate_overrides: "pairs_of ''OVERRIDES'' (candidate_edges env ix infos) =
    (\<Union>d \<in> set (declared env ix infos). pairs_of ''OVERRIDES'' (class_overrides ix (headers ix infos) d))"
proof -
  have "pairs_of ''OVERRIDES'' (body_edges env ix b) = {}" for b
    using call_types [of "''OVERRIDES''"] access_types [of "''OVERRIDES''"] by (auto simp: body_pairs)
  moreover have "pairs_of ''OVERRIDES'' (header_edges ix e) = {}" for e
    using header_types [of "''OVERRIDES''"] by auto
  ultimately show ?thesis by (simp add: candidate_edges_def pairs_append pairs_concat)
qed

lemma authoritative_class: "bs_authoritative (override_class ix d st) = bs_authoritative st \<union>
    (if snd (chain_of ix (bs_hierarchy st) (fst d)) then snd ` set (snd d) else {})"
proof -
  have s: "bs_authoritative (fold (override_step ix m mid) xs s) = bs_authoritative s" for m mid xs s
    by (induction xs arbitrary: s) (simp_all add: override_step_def bc_emit_def Let_def)
  have "bs_authoritative (fold (override_method ix chain whole) ms s) =
      bs_authoritative s \<union> (if whole then snd ` set ms else {})" for chain whole ms s
    by (induction ms arbitrary: s) (auto simp: override_method_def Let_def s)
  then show ?thesis by (simp add: override_class_def chain_of_def Let_def split: prod.splits)
qed

lemma authoritative_after:
  assumes "scan_classes env ix infos = Inr st"
  shows "bs_authoritative (derive_proven ix (derive_hierarchy env ix st)) =
    (\<Union>d \<in> set (declared env ix infos). if snd (chain_of ix (headers ix infos) (fst d)) then snd ` set (snd d) else {})"
proof -
  let ?mid = "derive_hierarchy env ix st"
  have same: "unlinked s' = unlinked s \<Longrightarrow> bs_hierarchy s' = bs_hierarchy s \<and> bs_declared s' = bs_declared s" for s s'
    by (simp add: unlinked_def)
  have f: "bs_authoritative (fold (override_class ix) ds s) = bs_authoritative s \<union>
      (\<Union>d \<in> set ds. if snd (chain_of ix hs (fst d)) then snd ` set (snd d) else {})" if "bs_hierarchy s = hs" for ds s hs
    using that
  proof (induction ds arbitrary: s)
    case (Cons d ds)
    from same [OF unlinked_override [of ix d s]] Cons show ?case by (simp add: authoritative_class Un_assoc)
  qed simp
  have "unlinked (fold (hierarchy_step env ix) es s) = unlinked s" for es s
    by (induction es arbitrary: s) (simp_all add: unlinked_header)
  then have u: "unlinked ?mid = unlinked st" by (simp add: derive_hierarchy_def)
  have t: "bs_authoritative (fold (hierarchy_edge ix src) ts s) = bs_authoritative s" for src ts s
    by (induction ts arbitrary: s) (simp_all add: hierarchy_edge_def bc_emit_def Let_def)
  have "bs_authoritative (fold (hierarchy_step env ix) es s) = bs_authoritative s" for es s
    by (induction es arbitrary: s) (simp_all add: hierarchy_step_def Let_def t)
  then have "bs_authoritative ?mid = {}"
    using claims_scan [OF assms] by (simp add: derive_hierarchy_def claims_def)
  with f [of ?mid "headers ix infos" "bs_declared ?mid"] same [OF u] heads_scan(1) [OF assms] declared_scan [OF assms]
  show ?thesis by (simp add: derive_proven_def)
qed

lemma pairs_comprehension:
  "(\<Union>(c, m, mid) \<in> M. \<Union>anc \<in> R `` {c}. let dst = tgt m anc in
      if ''OVERRIDES'' = ''OVERRIDES'' \<and> dst \<noteq> [] \<and> dst \<noteq> mid then {(mid, dst)} else {})
   = {(mid, tgt m anc) | c m mid anc. (c, m, mid) \<in> M \<and> (c, anc) \<in> R \<and> tgt m anc \<noteq> [] \<and> tgt m anc \<noteq> mid}"
  by (fastforce simp: Let_def split: if_splits)

lemma class_methods:
  fixes D :: "('k \<times> ('m \<times> 'i) list) set"
  shows "(\<Union>d \<in> D. if P (fst d) then snd ` set (snd d) else {}) =
    (\<Union>(c, m, mid) \<in> (\<Union>d \<in> D. Pair (fst d) ` set (snd d)). if P c then {mid} else {})"
proof -
  have "(\<Union>(c, m, mid) \<in> Pair (fst d) ` set (snd d). if P c then {mid} else {}) = (if P (fst d) then snd ` set (snd d) else {})"
    for d :: "'k \<times> ('m \<times> 'i) list" by force
  then show ?thesis by (simp add: UN_UN_flatten)
qed

lemma set_comprehension: "(\<Union>(c, m, mid) \<in> M. if P c then {mid} else {}) = {mid | c m mid. (c, m, mid) \<in> M \<and> P c}"
  by (auto split: if_splits) blast+

text \<open>C23: a kept pass reports as overrides exactly the pairs of a declared method that can override and the one
  method with its erased parameter types in a class above it, and it claims the methods whose
  every ancestor inside the repository was parsed, and no others.  Of the method above nothing but its name and types is asked: one that
  is private or static is reported as overridden too, although the documentation of \<open>can_override\<close> says that no such method takes part.\<close>

theorem proven_overrides_exact:
  "case resolve_java_bytecode env nodes roots r of Inl _ \<Rightarrow> True
   | Inr (es, ns, rep) \<Rightarrow>
       let ix = build_index nodes; infos = iter_class_sources roots; h = headers ix infos;
           methods = (\<Union>d \<in> set (declared env ix infos). Pair (fst d) ` set (snd d));
           target = (\<lambda>m anc. override_target ix anc (m_name m) (m_descriptor m))
       in pairs_of ''OVERRIDES'' es = (if rp_available rep
            then {(mid, target m anc) | c m mid anc. (c, m, mid) \<in> methods \<and> (c, anc) \<in> (ancestry h)\<^sup>+
                    \<and> target m anc \<noteq> [] \<and> target m anc \<noteq> mid} else {})
        \<and> bs_authoritative (rp_counts rep) = (if rp_available rep
            then {mid | c m mid. (c, m, mid) \<in> methods
                    \<and> (ancestry h)\<^sup>+ `` {c} \<subseteq> dom (map_of h) \<union> {a. class_id ix a = []}} else {})"
proof (rule resolve_rule, goal_cases)
  case (1 rep)
  then show ?case by (simp add: claims_def Let_def)
next
  case (2 st rep)
  let ?ix = "build_index nodes" and ?infos = "iter_class_sources roots"
  let ?M = "\<Union>d \<in> set (declared env ?ix ?infos). Pair (fst d) ` set (snd d)" and ?h = "headers ?ix ?infos"
  have "pairs_of ''OVERRIDES'' (bs_edges (rp_counts rep)) = pairs_of ''OVERRIDES'' (candidate_edges env ?ix ?infos)"
    using after_scan(1) [OF 2(1)] pairs_filter [of "''OVERRIDES''" "bs_edges (rp_counts rep)"] pairs_kept [of "''OVERRIDES''"]
    by (simp add: linked_def 2(2))
  also have "\<dots> = (\<Union>(c, m, mid) \<in> ?M. \<Union>anc \<in> (ancestry ?h)\<^sup>+ `` {c}. pairs_of ''OVERRIDES'' (override_edges ?ix m mid anc))"
    by (simp add: candidate_overrides class_pairs case_prod_unfold)
  also have "\<dots> = {(mid, override_target ?ix anc (m_name m) (m_descriptor m)) | c m mid anc. (c, m, mid) \<in> ?M \<and> (c, anc) \<in> (ancestry ?h)\<^sup>+
      \<and> override_target ?ix anc (m_name m) (m_descriptor m) \<noteq> [] \<and> override_target ?ix anc (m_name m) (m_descriptor m) \<noteq> mid}"
    unfolding override_pairs by (rule pairs_comprehension)
  finally have es: "pairs_of ''OVERRIDES'' (bs_edges (rp_counts rep)) = \<dots>" .
  have "bs_authoritative (rp_counts rep) = (\<Union>(c, m, mid) \<in> ?M. if snd (chain_of ?ix ?h c) then {mid} else {})"
    unfolding 2(2) authoritative_after [OF 2(1)] by (rule class_methods)
  also have "\<dots> = {mid | c m mid. (c, m, mid) \<in> ?M \<and> snd (chain_of ?ix ?h c)}"
    by (rule set_comprehension)
  finally have "bs_authoritative (rp_counts rep) = {mid | c m mid. (c, m, mid) \<in> ?M
      \<and> (ancestry ?h)\<^sup>+ `` {c} \<subseteq> dom (map_of ?h) \<union> {a. class_id ?ix a = []}}"
    unfolding chain_of_spec(2) by (simp add: dom_def Un_def)
  with es 2(3) show ?case by (simp add: Let_def)
qed

end
