(* ===== verification/BytecodeFacts.thy ===== *)
theory BytecodeFacts
  imports BytecodeResult
begin

text \<open>
  What the bytecode pass reports beside its edges: the accounting of calls out of the
  repository and the catalog marks of functions; and when the pass raises.
\<close>

section \<open>Every call, in order\<close>

definition all_calls :: "bc_env \<Rightarrow> node_index \<Rightarrow> class_info list \<Rightarrow> (string \<times> string \<times> invocation) list" where
  "all_calls env ix infos = concat (map (\<lambda>(k, m, c). map (\<lambda>v. (k_file k, c, v)) (m_invocations m)) (bodies env ix infos))"

locale call_observer = body_observer env ix obs on_call "\<lambda>_ _ _ o1. o1"
  for env :: bc_env and ix :: node_index and obs :: "bc_state \<Rightarrow> 'o"
    and on_call :: "string \<Rightarrow> string \<Rightarrow> invocation \<Rightarrow> 'o \<Rightarrow> 'o"
begin

lemma obs_all:
  assumes "scan_classes env ix infos = Inr st"
  shows "obs st = fold (\<lambda>(fl, c, v). on_call fl c v) (all_calls env ix infos) (obs bc_start)"
proof -
  have id: "fold (\<lambda>x o1. o1) xs o2 = o2" for xs :: "field_access list" and o2 :: 'o by (induction xs) simp_all
  have one: "fold (on_call fl c) vs o2 = fold (\<lambda>(fl, c, v). on_call fl c v) (map (\<lambda>v. (fl, c, v)) vs) o2" for fl c vs and o2 :: 'o
    by (induction vs arbitrary: o2) simp_all
  have "fold (\<lambda>(k, m, c) o1. fold (on_call (k_file k) c) (m_invocations m) o1) bs o2 =
      fold (\<lambda>(fl, c, v). on_call fl c v) (concat (map (\<lambda>(k, m, c). map (\<lambda>v. (k_file k, c, v)) (m_invocations m)) bs)) o2"
    for bs :: "(bc_class \<times> method_info \<times> string) list" and o2 :: 'o
  proof (induction bs arbitrary: o2)
    case (Cons b bs)
    then show ?case by (cases b) (simp add: one fold_append)
  qed simp
  with obs_bodies [OF assms] show ?thesis by (simp add: id all_calls_def)
qed

end

text \<open>What the passes after the loop do not touch.\<close>

locale late_blind =
  fixes obs :: "bc_state \<Rightarrow> 'o"
  assumes late_edge: "obs (hierarchy_edge ix src t st) = obs st"
    and late_files: "obs (st\<lparr>bs_hierarchy_files := fs\<rparr>) = obs st"
    and late_override: "obs (override_step ix m mid anc st) = obs st"
    and late_claim: "obs (st\<lparr>bs_authoritative := a\<rparr>) = obs st"
    and late_truncated: "obs (st\<lparr>bs_truncated := n\<rparr>) = obs st"
begin

lemma late: "obs (derive_proven ix (derive_hierarchy env ix st)) = obs st"
proof -
  have "obs (fold (hierarchy_edge ix src) ts s) = obs s" for src ts s
    by (induction ts arbitrary: s) (simp_all add: late_edge)
  then have "obs (fold (hierarchy_step env ix) es s) = obs s" for es s
    by (induction es arbitrary: s) (simp_all add: hierarchy_step_def Let_def late_files)
  moreover have o: "obs (fold (override_step ix m mid) xs s) = obs s" for m mid xs s
    by (induction xs arbitrary: s) (simp_all add: late_override)
  then have "obs (fold (override_method ix chain whole) ms s) = obs s" for chain whole ms s
    by (induction ms arbitrary: s) (simp_all add: override_method_def Let_def late_claim)
  then have "obs (fold (override_class ix) ds s) = obs s" for ds s
    by (induction ds arbitrary: s) (simp_all add: override_class_def Let_def late_truncated split: prod.splits)
  ultimately show ?thesis by (simp add: derive_proven_def derive_hierarchy_def)
qed

end

section \<open>Calls out of the repository\<close>

definition call_tallies :: "bc_state \<Rightarrow> (string \<times> nat) list \<times> (string \<times> nat) list \<times> nat \<times> nat" where
  "call_tallies st = (bs_owners st, bs_unclassified st, bs_overflow st, bs_external_calls st)"

definition outside :: "node_index \<Rightarrow> invocation \<Rightarrow> bool" where
  "outside ix v = (i_opcode v \<noteq> ''invokedynamic'' \<and> callee_of ix v = [])"

definition unrecognised :: "bc_env \<Rightarrow> node_index \<Rightarrow> invocation \<Rightarrow> bool" where
  "unrecognised env ix v = (outside ix v \<and> call_kind env v = [])"

definition capped :: "string \<Rightarrow> (string \<times> nat) list \<times> nat \<Rightarrow> (string \<times> nat) list \<times> nat" where
  "capped k p = (case p of (un, ov) \<Rightarrow>
     if map_of un k \<noteq> None then (tally k un, ov)
     else if length un < UNCLASSIFIED_MAX_KEYS then (un @ [(k, 1)], ov) else (un, ov + 1))"

definition tally_call :: "bc_env \<Rightarrow> node_index \<Rightarrow> invocation \<Rightarrow> (string \<times> nat) list \<times> (string \<times> nat) list \<times> nat \<times> nat
    \<Rightarrow> (string \<times> nat) list \<times> (string \<times> nat) list \<times> nat \<times> nat" where
  "tally_call env ix v t = (case t of (ow, un, ov, ex) \<Rightarrow>
     if \<not> outside ix v then t
     else if \<not> unrecognised env ix v then (ow, un, ov, ex + 1)
     else let p = (if is_inventory_noise (i_owner v) then (un, ov) else capped (external_key (i_owner v) (i_name v)) (un, ov))
       in (tally (i_owner v) ow, fst p, snd p, ex + 1))"

lemma tallies_emit: "call_tallies (bc_emit (\<lambda>s. s\<lparr>bs_call_edges := f s\<rparr>) e st) = call_tallies st"
  by (simp add: bc_emit_def call_tallies_def)

lemma tallies_taint: "call_tallies (taint_mark c v st) = call_tallies st"
  by (simp add: call_tallies_def)

lemma tallies_external: "call_tallies (call_external env fl c kind v st) = call_tallies st"
  by (simp add: call_tallies_def)

lemma tallies_call: "call_tallies (bc_call env ix fl c v st) = tally_call env ix v (call_tallies st)"
proof -
  have "call_tallies (inventory v s) = (case call_tallies s of (ow, un, ov, ex) \<Rightarrow>
      let p = (if is_inventory_noise (i_owner v) then (un, ov) else capped (external_key (i_owner v) (i_name v)) (un, ov))
      in (tally (i_owner v) ow, fst p, snd p, ex))" for s
    by (simp add: call_tallies_def inventory_def tally_capped_def capped_def Let_def)
  moreover have "call_tallies (s\<lparr>bs_external_calls := n\<rparr>) =
      (case call_tallies s of (ow, un, ov, ex) \<Rightarrow> (ow, un, ov, n))" for s n
    by (simp add: call_tallies_def)
  moreover obtain ow un ov ex where t: "call_tallies st = (ow, un, ov, ex)" by (cases "call_tallies st")
  moreover from t have "bs_external_calls st = ex" by (simp add: call_tallies_def)
  ultimately show ?thesis
    by (simp add: bc_call_def tally_call_def outside_def unrecognised_def Let_def tallies_taint tallies_external tallies_emit t)
qed

interpretation counted: call_observer env ix call_tallies "\<lambda>fl c v. tally_call env ix v" for env ix
proof (unfold_locales, goal_cases)
  case (7 fl c v st)
  show ?case by (rule tallies_call)
next
  case (8 fl c a st)
  show ?case by (simp add: bc_access_def Let_def bc_emit_def bump_stats_def call_tallies_def)
qed (simp_all add: call_tallies_def bump_stats_def enter_class_def declare_method_def add_synthesized_def Let_def)

interpretation late_counts: late_blind call_tallies
  by unfold_locales (simp_all add: call_tallies_def hierarchy_edge_def override_step_def bc_emit_def Let_def)

text \<open>The accounting, as an invariant of the list of calls seen so far.\<close>

definition accounted :: "bc_env \<Rightarrow> node_index \<Rightarrow> invocation list \<Rightarrow>
    (string \<times> nat) list \<times> (string \<times> nat) list \<times> nat \<times> nat \<Rightarrow> bool" where
  "accounted env ix vs t = (case t of (ow, un, ov, ex) \<Rightarrow>
     ex = length (filter (outside ix) vs)
     \<and> (\<forall>o1. count_at ow o1 = length (filter (\<lambda>v. unrecognised env ix v \<and> i_owner v = o1) vs))
     \<and> sum_list (map snd un) + ov = length (filter (\<lambda>v. unrecognised env ix v \<and> \<not> is_inventory_noise (i_owner v)) vs)
     \<and> distinct (map fst un) \<and> length un \<le> UNCLASSIFIED_MAX_KEYS)"

lemma capped_keeps:
  assumes "distinct (map fst un)" "length un \<le> UNCLASSIFIED_MAX_KEYS" "capped k (un, ov) = (un', ov')"
  shows "distinct (map fst un') \<and> length un' \<le> UNCLASSIFIED_MAX_KEYS \<and> sum_list (map snd un') + ov' = Suc (sum_list (map snd un) + ov)"
  using assms by (auto simp: capped_def tally_distinct tally_known tally_sum map_of_eq_None_iff split: if_splits)

lemma accounted_step:
  assumes "accounted env ix vs t"
  shows "accounted env ix (vs @ [v]) (tally_call env ix v t)"
proof -
  obtain ow un ov ex where t: "t = (ow, un, ov, ex)" by (cases t)
  obtain un' ov' where p: "capped (external_key (i_owner v) (i_name v)) (un, ov) = (un', ov')"
    by (cases "capped (external_key (i_owner v) (i_name v)) (un, ov)")
  have keep: "distinct (map fst un') \<and> length un' \<le> UNCLASSIFIED_MAX_KEYS \<and> sum_list (map snd un') + ov' = Suc (sum_list (map snd un) + ov)"
    using assms by (intro capped_keeps [OF _ _ p]) (simp_all add: accounted_def t)
  show ?thesis
  proof (cases "unrecognised env ix v")
    case True
    then have "outside ix v" by (simp add: unrecognised_def)
    with True assms keep show ?thesis
      by (simp add: accounted_def tally_call_def t p Let_def count_tally)
  next
    case False
    with assms show ?thesis by (simp add: accounted_def tally_call_def t)
  qed
qed

lemma accounted_fold:
  "accounted env ix us t \<Longrightarrow> accounted env ix (us @ map (\<lambda>(fl, c, v). v) xs) (fold (\<lambda>(fl, c, v). tally_call env ix v) xs t)"
proof (induction xs arbitrary: us t)
  case (Cons x xs)
  obtain fl c v where x: "x = (fl, c, v)" by (cases x)
  from Cons.IH [OF accounted_step [OF Cons.prems, of v]] show ?case by (simp add: x)
qed simp

text \<open>No call out of the repository is lost from the report.  The calls without an in-repository
  target are all counted; the tally of owner types counts every unrecognised call of every
  type, without limit; and the per-method inventory, limited to 200000 keys, together with
  its overflow counts every unrecognised call on a type that is not excluded as noise.\<close>

theorem external_calls_accounted:
  "case resolve_java_bytecode env nodes roots r of Inl _ \<Rightarrow> True
   | Inr (es, ns, rep) \<Rightarrow>
       if rp_available rep
       then let st = rp_counts rep; ix = build_index nodes;
                calls = map (\<lambda>(fl, c, v). v) (all_calls env ix (iter_class_sources roots))
         in bs_external_calls st = length (filter (outside ix) calls)
          \<and> (\<forall>o1. count_at (bs_owners st) o1 = length (filter (\<lambda>v. unrecognised env ix v \<and> i_owner v = o1) calls))
          \<and> sum_list (map snd (bs_unclassified st)) + bs_overflow st =
              length (filter (\<lambda>v. unrecognised env ix v \<and> \<not> is_inventory_noise (i_owner v)) calls)
          \<and> length (bs_unclassified st) \<le> 200000
       else True"
proof (rule resolve_rule, goal_cases)
  case (2 st rep)
  let ?ix = "build_index nodes" and ?infos = "iter_class_sources roots"
  have "accounted env ?ix [] (call_tallies bc_start)"
    by (simp add: accounted_def call_tallies_def bc_start_def count_at_def)
  from accounted_fold [OF this, of "all_calls env ?ix ?infos"]
  have "accounted env ?ix (map (\<lambda>(fl, c, v). v) (all_calls env ?ix ?infos)) (call_tallies (rp_counts rep))"
    unfolding 2(2) late_counts.late counted.obs_all [OF 2(1)] by simp
  with 2(3) show ?case
    unfolding accounted_def call_tallies_def UNCLASSIFIED_MAX_KEYS_def by (simp add: Let_def)
qed simp


section \<open>Catalog marks\<close>

definition fact_of :: "invocation \<Rightarrow> (entry \<times> int list) option" where
  "fact_of v = (if i_opcode v = ''invokedynamic'' then None else classify_taint (i_owner v) (i_name v))"

definition has_role :: "role \<Rightarrow> invocation \<Rightarrow> bool" where
  "has_role r v = (case fact_of v of None \<Rightarrow> False | Some (e, args) \<Rightarrow> en_role e = r)"

definition site_of :: "invocation \<Rightarrow> site" where
  "site_of v = (case the (fact_of v) of (e, args) \<Rightarrow> (i_line v, en_category e, en_role e, args))"

definition marks :: "bc_state \<Rightarrow> string set \<times> string set \<times> (string \<times> string list) list \<times> (string \<times> site list) list" where
  "marks st = (bs_sources st, bs_sanitizers st, bs_sink_kinds st, bs_sites st)"

definition mark_call :: "string \<Rightarrow> invocation \<Rightarrow> string set \<times> string set \<times> (string \<times> string list) list \<times> (string \<times> site list) list
    \<Rightarrow> string set \<times> string set \<times> (string \<times> string list) list \<times> (string \<times> site list) list" where
  "mark_call c v m = (case m of (so, sa, ki, si) \<Rightarrow>
     (if has_role SOURCE v \<and> c \<noteq> [] then insert c so else so,
      if has_role SANITIZER v \<and> c \<noteq> [] then insert c sa else sa,
      if has_role SINK v \<and> c \<noteq> [] then add_kind c (en_category (fst (the (fact_of v)))) ki else ki,
      if fact_of v \<noteq> None \<and> c \<noteq> [] \<and> i_line v \<noteq> 0 then group_add c (site_of v) si else si))"

lemma marks_emit: "marks (bc_emit (\<lambda>s. s\<lparr>bs_call_edges := f s\<rparr>) e st) = marks st"
  by (simp add: bc_emit_def marks_def)

lemma marks_inventory: "marks (inventory v st) = marks st"
  by (simp add: marks_def inventory_def tally_capped_def Let_def)

lemma marks_external: "marks (call_external env fl c kind v st) = marks st"
  by (simp add: marks_def)

lemma marks_count: "marks (st\<lparr>bs_external_calls := n\<rparr>) = marks st"
  by (simp add: marks_def)

lemma marks_taint: "i_opcode v \<noteq> ''invokedynamic'' \<Longrightarrow> marks (taint_mark c v st) = mark_call c v (marks st)"
  by (simp add: marks_def taint_mark_def mark_call_def has_role_def fact_of_def site_of_def Let_def split: option.splits role.splits)

interpretation marked: call_observer env ix marks "\<lambda>fl. mark_call" for env ix
proof (unfold_locales, goal_cases)
  case (7 fl c v st)
  show ?case
  proof (cases "i_opcode v = ''invokedynamic''")
    case True
    then show ?thesis
      by (simp add: bc_call_def mark_call_def has_role_def fact_of_def split: prod.splits)
  next
    case False
    then show ?thesis
      by (simp add: bc_call_def Let_def marks_emit marks_inventory marks_external marks_count marks_taint)
  qed
next
  case (8 fl c a st)
  show ?case by (simp add: bc_access_def Let_def bc_emit_def bump_stats_def marks_def)
qed (simp_all add: marks_def bump_stats_def enter_class_def declare_method_def add_synthesized_def Let_def)

interpretation late_marks: late_blind marks
  by unfold_locales (simp_all add: marks_def hierarchy_edge_def override_step_def bc_emit_def Let_def)

lemma add_kind_look: "set (group_look (add_kind c k g) c') = set (group_look g c') \<union> (if c' = c then {k} else {})"
  by (auto simp: add_kind_def group_look_add)

definition marked_as :: "role \<Rightarrow> string \<times> string \<times> invocation \<Rightarrow> bool" where
  "marked_as r x = (has_role r (snd (snd x)) \<and> fst (snd x) \<noteq> [])"

definition kind_step :: "string \<times> string \<times> invocation \<Rightarrow> (string \<times> string list) list \<Rightarrow> (string \<times> string list) list" where
  "kind_step x g = (if marked_as SINK x
     then add_kind (fst (snd x)) (en_category (fst (the (fact_of (snd (snd x)))))) g else g)"

definition site_step :: "string \<times> string \<times> invocation \<Rightarrow> (string \<times> site list) list \<Rightarrow> (string \<times> site list) list" where
  "site_step x g = (if fact_of (snd (snd x)) \<noteq> None \<and> fst (snd x) \<noteq> [] \<and> i_line (snd (snd x)) \<noteq> 0
     then group_add (fst (snd x)) (site_of (snd (snd x))) g else g)"

lemma mark_fold:
  "fold (\<lambda>(fl, c, v). mark_call c v) xs (so, sa, ki, si) =
    (fold (\<lambda>x S. if marked_as SOURCE x then insert (fst (snd x)) S else S) xs so,
     fold (\<lambda>x S. if marked_as SANITIZER x then insert (fst (snd x)) S else S) xs sa,
     fold kind_step xs ki, fold site_step xs si)"
proof (induction xs arbitrary: so sa ki si)
  case (Cons x xs)
  obtain fl c v where x: "x = (fl, c, v)" by (cases x)
  have "mark_call c v (so, sa, ki, si) =
     (if marked_as SOURCE x then insert (fst (snd x)) so else so,
      if marked_as SANITIZER x then insert (fst (snd x)) sa else sa, kind_step x ki, site_step x si)"
    by (simp add: mark_call_def marked_as_def kind_step_def site_step_def x)
  with Cons.IH show ?case by (simp add: x)
qed simp

lemma set_fold: "fold (\<lambda>x S. if p x then insert (key x) S else S) xs S = S \<union> {key x | x. x \<in> set xs \<and> p x}"
  by (induction xs arbitrary: S) auto

lemma kinds_fold:
  "set (group_look (fold (\<lambda>x g. if p x then add_kind (key x) (val x) g else g) xs g) c) =
     set (group_look g c) \<union> {val x | x. x \<in> set xs \<and> p x \<and> key x = c}"
  by (induction xs arbitrary: g) (auto simp: add_kind_look)

text \<open>The functions a kept pass marks are exactly those with a call the catalog recognises: as
  sources, as sanitizers, and with the categories of the sinks they call; and the sites of a
  function are its recognised calls in order, with line, category, role and argument
  positions.  Only a line number 0 is left out: a call without line information has line -1
  and gets a site.\<close>

theorem catalog_marks_exact:
  "case resolve_java_bytecode env nodes roots r of Inl _ \<Rightarrow> True
   | Inr (es, ns, rep) \<Rightarrow>
       if rp_available rep
       then let st = rp_counts rep; calls = all_calls env (build_index nodes) (iter_class_sources roots)
         in bs_sources st = {c. \<exists>fl v. (fl, c, v) \<in> set calls \<and> has_role SOURCE v \<and> c \<noteq> []}
          \<and> bs_sanitizers st = {c. \<exists>fl v. (fl, c, v) \<in> set calls \<and> has_role SANITIZER v \<and> c \<noteq> []}
          \<and> (\<forall>c. set (group_look (bs_sink_kinds st) c) =
               {en_category (fst (the (fact_of v))) | fl v. (fl, c, v) \<in> set calls \<and> has_role SINK v \<and> c \<noteq> []})
          \<and> (\<forall>c. group_look (bs_sites st) c = map (\<lambda>(fl, c, v). site_of v)
               (filter (\<lambda>(fl, c', v). (fact_of v \<noteq> None \<and> c' \<noteq> [] \<and> i_line v \<noteq> 0) \<and> c' = c) calls))
       else True"
proof (rule resolve_rule, goal_cases)
  case (2 st rep)
  let ?calls = "all_calls env (build_index nodes) (iter_class_sources roots)"
  have start: "marks bc_start = ({}, {}, [], [])" by (simp add: marks_def bc_start_def)
  have m: "marks (rp_counts rep) = fold (\<lambda>(fl, c, v). mark_call c v) ?calls ({}, {}, [], [])"
    unfolding 2(2) late_marks.late marked.obs_all [OF 2(1)] start ..
  have so: "{fst (snd x) | x. x \<in> set ?calls \<and> marked_as ro x} = {c. \<exists>fl v. (fl, c, v) \<in> set ?calls \<and> has_role ro v \<and> c \<noteq> []}" for ro
    by (force simp: marked_as_def)
  have k: "set (group_look (fold kind_step ?calls []) c) = {en_category (fst (the (fact_of v))) | fl v. (fl, c, v) \<in> set ?calls \<and> has_role SINK v \<and> c \<noteq> []}" for c
    unfolding kind_step_def [abs_def] kinds_fold by (force simp: group_look_def marked_as_def)
  have s: "group_look (fold site_step ?calls []) c = map (\<lambda>(fl, c, v). site_of v)
       (filter (\<lambda>(fl, c', v). (fact_of v \<noteq> None \<and> c' \<noteq> [] \<and> i_line v \<noteq> 0) \<and> c' = c) ?calls)" for c
    unfolding site_step_def [abs_def] grp.look_build by (simp add: case_prod_unfold)
  have "bs_sources (rp_counts rep) = {c. \<exists>fl v. (fl, c, v) \<in> set ?calls \<and> has_role SOURCE v \<and> c \<noteq> []}"
      "bs_sanitizers (rp_counts rep) = {c. \<exists>fl v. (fl, c, v) \<in> set ?calls \<and> has_role SANITIZER v \<and> c \<noteq> []}"
      "bs_sink_kinds (rp_counts rep) = fold kind_step ?calls []" "bs_sites (rp_counts rep) = fold site_step ?calls []"
    using m unfolding mark_fold set_fold so by (simp_all add: marks_def)
  then show ?case using 2(3) unfolding Let_def by (simp only: if_True k s) blast
qed simp

section \<open>When the pass raises\<close>

definition bad_descriptor :: "bc_class \<Rightarrow> method_info \<Rightarrow> bool" where
  "bad_descriptor k m = (\<not> should_skip_method m \<and> caller_needs_synthesis (k_info k) m \<and> m_has_line_numbers m
     \<and> k_file k \<noteq> [] \<and> (\<forall>n. descriptor_arity (m_descriptor m) \<noteq> Inr n))"

lemma caller_raises: "(\<exists>e. method_caller env ix k m = Inl e) \<longleftrightarrow> bad_descriptor k m"
proof (cases "descriptor_arity (m_descriptor m)")
  case (Inl e)
  then show ?thesis
    by (auto simp: method_caller_def bad_descriptor_def synthesize_node_def synthesized_kind_def
        caller_needs_synthesis_def Let_def split: option.splits)
next
  case (Inr n)
  then show ?thesis
    by (auto simp: method_caller_def bad_descriptor_def synthesize_node_def Let_def split: option.splits prod.splits)
qed

lemma method_raises: "(\<exists>e. bc_method env ix k m st = Inl e) \<longleftrightarrow> bad_descriptor k m"
proof (cases "method_caller env ix k m")
  case (Inl e)
  with bc_method_raise [OF Inl] caller_raises [of env ix k m] show ?thesis by auto
next
  case (Inr c)
  have "\<exists>st'. bc_method env ix k m st = Inr st'"
  proof (cases c)
    case None
    with Inr bc_method_none [of env ix k m st] show ?thesis by auto
  next
    case (Some i)
    with Inr bc_method_found [of env ix k m i st] bc_method_synth [of env ix k m i st] show ?thesis by blast
  qed
  with Inr caller_raises [of env ix k m] show ?thesis by auto
qed

lemma fold_res_raises_iff:
  assumes "\<And>x s. (\<exists>e. f x s = Inl e) \<longleftrightarrow> P x"
  shows "(\<exists>e. fold_res f xs s = Inl e) \<longleftrightarrow> (\<exists>x \<in> set xs. P x)"
proof (induction xs arbitrary: s)
  case (Cons x xs)
  show ?case
  proof (cases "f x s")
    case (Inl e)
    with assms [of x s] show ?thesis by simp
  next
    case (Inr s')
    then have "\<not> P x" using assms [of x s] by simp
    with Inr Cons show ?thesis by simp
  qed
qed simp

text \<open>The pass raises exactly when a lambda body, class initializer or member of an anonymous
  class that it would give a node has a method descriptor that cannot be parsed; one such
  method in one class file ends the whole pass, and no other input does.\<close>

theorem pass_raises_iff:
  "(\<exists>e. resolve_java_bytecode env nodes roots r = Inl e) \<longleftrightarrow>
   (\<exists>k m. k \<in> set (entered (build_index nodes) (iter_class_sources roots)) \<and> m \<in> set (c_methods (k_info k)) \<and> bad_descriptor k m)"
proof -
  let ?ix = "build_index nodes" and ?infos = "iter_class_sources roots"
  have cls: "(\<exists>e. bc_class_step env ?ix i st = Inl e) \<longleftrightarrow>
      (case class_of ?ix i of None \<Rightarrow> False | Some k \<Rightarrow> \<exists>m \<in> set (c_methods i). bad_descriptor k m)" for i st
    using fold_res_raises_iff [of "bc_method env ?ix k" "bad_descriptor k" for k, OF method_raises]
    by (simp add: bc_class_step_def Let_def split: option.split)
  have "(\<exists>e. scan_classes env ?ix ?infos = Inl e) \<longleftrightarrow>
      (\<exists>i \<in> set ?infos. case class_of ?ix i of None \<Rightarrow> False | Some k \<Rightarrow> \<exists>m \<in> set (c_methods i). bad_descriptor k m)"
    unfolding scan_classes_def by (rule fold_res_raises_iff [OF cls])
  also have "\<dots> \<longleftrightarrow> (\<exists>k m. k \<in> set (entered ?ix ?infos) \<and> m \<in> set (c_methods (k_info k)) \<and> bad_descriptor k m)"
    by (force simp: entered_mem class_of_info split: option.splits)
  finally have scan: "(\<exists>e. scan_classes env ?ix ?infos = Inl e) \<longleftrightarrow> \<dots>" .
  show ?thesis
  proof (cases "roots = []")
    case True
    then show ?thesis by (simp add: resolve_java_bytecode_def iter_class_sources_def entered_def List.map_filter_simps)
  next
    case False
    then have "(\<exists>e. resolve_java_bytecode env nodes roots r = Inl e) \<longleftrightarrow> (\<exists>e. scan_classes env ?ix ?infos = Inl e)"
      by (auto simp: resolve_java_bytecode_def Let_def split: sum.splits)
    with scan show ?thesis by simp
  qed
qed

end
