(* ===== verification/BytecodeGround.thy ===== *)
theory BytecodeGround
  imports BytecodeFacts
begin

text \<open>
  Both ends of every edge of the bytecode pass are nodes: extracted ones, or nodes the pass
  returns.
\<close>

section \<open>Lookups find nodes\<close>

lemma class_id_node: "class_id (build_index nodes) nm \<in> insert [] (n_id ` set nodes)"
  by (auto simp: class_id_def build_classes or_empty_def Let_def find_Some_iff split: option.splits dest: nth_mem)

lemma field_id_node: "field_id (build_index nodes) ow nm \<in> insert [] (n_id ` set nodes)"
  by (auto simp: field_id_def build_fields or_empty_def Let_def find_Some_iff split: option.splits dest: nth_mem)

lemma method_entries: "c \<in> set (ni_methods (build_index nodes) key) \<Longrightarrow> fst c \<in> n_id ` set nodes"
  by (auto simp: build_methods)

lemma exact_node: "length (exact_ids w (ni_methods (build_index nodes) key)) = 1 \<Longrightarrow>
    hd (exact_ids w (ni_methods (build_index nodes) key)) \<in> n_id ` set nodes"
proof -
  assume a: "length (exact_ids w (ni_methods (build_index nodes) key)) = 1"
  then have "hd (exact_ids w (ni_methods (build_index nodes) key)) \<in> set (exact_ids w (ni_methods (build_index nodes) key))"
    by (intro hd_in_set) auto
  then obtain c where "c \<in> set (ni_methods (build_index nodes) key)"
      "hd (exact_ids w (ni_methods (build_index nodes) key)) = fst c"
    unfolding exact_ids_def by auto
  with method_entries show ?thesis by metis
qed

lemma override_target_node: "override_target (build_index nodes) anc nm d \<in> insert [] (n_id ` set nodes)"
proof (cases "descriptor_simple_types d")
  case (Inl e)
  then show ?thesis by (simp add: override_target_def Let_def)
next
  case (Inr w)
  let ?fqn = "binary_to_source_fqn anc"
  let ?cs = "ni_methods (build_index nodes) (?fqn, method_lookup_name ?fqn nm, int (length w))"
  have "override_target (build_index nodes) anc nm d = [] \<or> length (exact_ids w ?cs) = 1
      \<and> override_target (build_index nodes) anc nm d = hd (exact_ids w ?cs)"
    using Inr by (simp add: override_target_def Let_def)
  then show ?thesis
  proof (elim disjE conjE)
    assume "length (exact_ids w ?cs) = 1" "override_target (build_index nodes) anc nm d = hd (exact_ids w ?cs)"
    with exact_node [of w nodes] show ?thesis by (metis insertI2)
  qed simp
qed

lemma only_node: "length (ni_methods (build_index nodes) key) = 1 \<Longrightarrow> fst (hd (ni_methods (build_index nodes) key)) \<in> n_id ` set nodes"
  by (intro method_entries [of _ _ key] hd_in_set) auto

lemma method_id_node: "fst (method_id (build_index nodes) ow nm d st) \<in> insert [] (n_id ` set nodes)"
proof (cases "descriptor_param_types d")
  case (Inl e)
  then show ?thesis by (simp add: method_id_def Let_def)
next
  case (Inr ps)
  let ?fqn = "binary_to_source_fqn ow"
  let ?key = "(?fqn, method_lookup_name ?fqn nm, int (length ps))"
  let ?w = "map (\<lambda>t. normalize_type (type_name t)) ps"
  have "fst (method_id (build_index nodes) ow nm d st) = [] \<or> length (ni_methods (build_index nodes) ?key) = 1
      \<and> fst (method_id (build_index nodes) ow nm d st) = fst (hd (ni_methods (build_index nodes) ?key))
      \<or> length (exact_ids ?w (ni_methods (build_index nodes) ?key)) = 1
      \<and> fst (method_id (build_index nodes) ow nm d st) = hd (exact_ids ?w (ni_methods (build_index nodes) ?key))"
    using Inr by (simp add: method_id_def Let_def)
  then show ?thesis
  proof (elim disjE conjE)
    assume "length (ni_methods (build_index nodes) ?key) = 1"
      "fst (method_id (build_index nodes) ow nm d st) = fst (hd (ni_methods (build_index nodes) ?key))"
    with only_node [of nodes ?key] show ?thesis by (metis insertI2)
  next
    assume "length (exact_ids ?w (ni_methods (build_index nodes) ?key)) = 1"
      "fst (method_id (build_index nodes) ow nm d st) = hd (exact_ids ?w (ni_methods (build_index nodes) ?key))"
    with exact_node [of ?w nodes ?key] show ?thesis by (metis insertI2)
  qed simp
qed

lemma callee_node: "callee_of (build_index nodes) v \<in> insert [] (n_id ` set nodes)"
  unfolding callee_of_def by (rule method_id_node)

section \<open>The nodes of the pass\<close>

definition external_of :: "bc_env \<Rightarrow> invocation \<Rightarrow> string" where
  "external_of env v = external_id (be_make_id env) (i_owner v) (i_name v)"

definition is_external_call :: "bc_env \<Rightarrow> invocation \<Rightarrow> bool" where
  "is_external_call env v = (i_opcode v \<noteq> ''invokedynamic'' \<and> call_kind env v \<noteq> [])"

definition node_ids :: "bc_state \<Rightarrow> string set \<times> string set" where
  "node_ids st = (n_id ` set (bs_nodes st), bs_external_ids st)"

definition meet_call :: "bc_env \<Rightarrow> invocation \<Rightarrow> string set \<times> string set \<Rightarrow> string set \<times> string set" where
  "meet_call env v p = (if is_external_call env v \<and> external_of env v \<notin> snd p
     then (insert (external_of env v) (fst p), insert (external_of env v) (snd p)) else p)"

lemma ids_emit: "node_ids (bc_emit (\<lambda>s. s\<lparr>bs_call_edges := f s\<rparr>) e st) = node_ids st"
  by (simp add: bc_emit_def node_ids_def)

lemma ids_taint: "node_ids (taint_mark c v st) = node_ids st"
  by (simp add: node_ids_def)

lemma ids_inventory: "node_ids (inventory v st) = node_ids st"
  by (simp add: node_ids_def)

lemma ids_count: "node_ids (st\<lparr>bs_external_calls := n\<rparr>) = node_ids st"
  by (simp add: node_ids_def)

lemma ids_external: "is_external_call env v \<Longrightarrow> node_ids (call_external env fl c (call_kind env v) v st) = meet_call env v (node_ids st)"
proof -
  have "n_id (external_node env (call_kind env v) v) = external_of env v"
    by (simp add: external_node_def external_of_def mk_node_def)
  then show "is_external_call env v \<Longrightarrow> ?thesis"
    by (simp add: call_external_def meet_call_def node_ids_def bc_emit_def Let_def)
qed

lemma ids_call: "node_ids (bc_call env ix fl c v st) = meet_call env v (node_ids st)"
proof (cases "is_external_call env v")
  case True
  then show ?thesis using ids_external [OF True]
    by (simp add: bc_call_def Let_def is_external_call_def ids_emit ids_taint ids_inventory ids_count)
next
  case False
  then have "meet_call env v (node_ids st) = node_ids st" by (simp add: meet_call_def)
  with False show ?thesis
    by (auto simp: bc_call_def Let_def is_external_call_def ids_emit ids_taint ids_inventory ids_count)
qed

lemma ids_access: "node_ids (bc_access ix fl c a st) = node_ids st"
  by (simp add: bc_access_def Let_def bc_emit_def bump_stats_def node_ids_def)

lemma ids_body: "node_ids (bc_body env ix fl m c st) = fold (meet_call env) (m_invocations m) (node_ids st)"
proof -
  have "node_ids (fold (bc_call env ix fl c) vs s) = fold (meet_call env) vs (node_ids s)" for vs s
    by (induction vs arbitrary: s) (simp_all add: ids_call)
  moreover have "node_ids (fold (bc_access ix fl c) xs s) = node_ids s" for xs s
    by (induction xs arbitrary: s) (simp_all add: ids_access)
  ultimately show ?thesis by (simp add: bc_body_def)
qed

lemma synthesized_declare: "node_ids (declare_method own cname m c st) = node_ids st"
  by (simp add: declare_method_def node_ids_def)

interpretation grown: observer env ix node_ids "\<lambda>_ o1. o1"
  "\<lambda>k m c p. fold (meet_call env) (m_invocations m)
     (if caller_needs_synthesis (k_info k) m then (insert c (fst p), snd p) else p)" for env ix
  by unfold_locales (simp_all add: ids_body synthesized_declare,
    simp_all add: node_ids_def bump_stats_def enter_class_def add_synthesized_def Let_def)

lemma meet_fold:
  "E \<subseteq> N \<Longrightarrow> fold (meet_call env) vs (N, E) =
     (N \<union> external_of env ` {v \<in> set vs. is_external_call env v}, E \<union> external_of env ` {v \<in> set vs. is_external_call env v})"
proof (induction vs arbitrary: N E)
  case (Cons v vs)
  let ?e = "external_of env v"
  show ?case
  proof (cases "is_external_call env v")
    case True
    then have "meet_call env v (N, E) = (insert ?e N, insert ?e E)" using Cons.prems by (auto simp: meet_call_def)
    moreover have "{x \<in> set (v # vs). is_external_call env x} = insert v {x \<in> set vs. is_external_call env x}"
      using True by auto
    ultimately show ?thesis using Cons.IH [of "insert ?e E" "insert ?e N"] Cons.prems by auto
  next
    case False
    then have "{x \<in> set (v # vs). is_external_call env x} = {x \<in> set vs. is_external_call env x}" by auto
    with False Cons show ?thesis by (simp add: meet_call_def)
  qed
qed simp

definition synthesized_ids :: "(bc_class \<times> method_info \<times> string) list \<Rightarrow> string set" where
  "synthesized_ids bs = {c. \<exists>k m. (k, m, c) \<in> set bs \<and> caller_needs_synthesis (k_info k) m}"

definition external_ids_of :: "bc_env \<Rightarrow> (bc_class \<times> method_info \<times> string) list \<Rightarrow> string set" where
  "external_ids_of env bs = {external_of env v | k m c v. (k, m, c) \<in> set bs \<and> v \<in> set (m_invocations m) \<and> is_external_call env v}"

lemma grow_fold:
  "E \<subseteq> N \<Longrightarrow> fold (\<lambda>(k, m, c) p. fold (meet_call env) (m_invocations m)
       (if caller_needs_synthesis (k_info k) m then (insert c (fst p), snd p) else p)) bs (N, E)
   = (N \<union> synthesized_ids bs \<union> external_ids_of env bs, E \<union> external_ids_of env bs)"
proof (induction bs arbitrary: N E)
  case (Cons b bs)
  obtain k m c where b: "b = (k, m, c)" by (cases b)
  let ?X = "external_of env ` {v \<in> set (m_invocations m). is_external_call env v}"
  let ?N = "if caller_needs_synthesis (k_info k) m then insert c N else N"
  have "(if caller_needs_synthesis (k_info k) m then (insert c (fst (N, E)), snd (N, E)) else (N, E)) = (?N, E)" by simp
  moreover have "fold (meet_call env) (m_invocations m) (?N, E) = (?N \<union> ?X, E \<union> ?X)"
    using Cons.prems by (intro meet_fold) auto
  moreover have "synthesized_ids (b # bs) = (if caller_needs_synthesis (k_info k) m then {c} else {}) \<union> synthesized_ids bs"
    by (auto simp: synthesized_ids_def b)
  moreover have "external_ids_of env (b # bs) = ?X \<union> external_ids_of env bs"
    by (auto simp: external_ids_of_def b)
  moreover have "E \<union> ?X \<subseteq> ?N \<union> ?X" using Cons.prems by auto
  ultimately show ?case using Cons.IH [of "E \<union> ?X" "?N \<union> ?X"] by (auto simp: b)
qed (simp add: synthesized_ids_def external_ids_of_def)

lemma nodes_scan:
  assumes "scan_classes env ix infos = Inr st"
  shows "n_id ` set (bs_nodes st) = synthesized_ids (bodies env ix infos) \<union> external_ids_of env (bodies env ix infos)"
proof -
  have "node_ids bc_start = ({}, {})" by (simp add: node_ids_def bc_start_def)
  with grown.obs_scan [OF assms [unfolded scan_classes_def]]
  have "node_ids st = ({} \<union> synthesized_ids (bodies env ix infos) \<union> external_ids_of env (bodies env ix infos),
      {} \<union> external_ids_of env (bodies env ix infos))"
    unfolding fold_bodies bodies_def [symmetric] by (simp only: grow_fold [OF order_refl])
  then show ?thesis by (simp add: node_ids_def)
qed


section \<open>The containment of synthesized nodes\<close>

definition contained :: "bc_state \<Rightarrow> (string \<times> string) set" where
  "contained st = pairs_of ''CONTAINS'' (bs_edges st)"

lemma contained_emit: "e_type e \<noteq> ''CONTAINS'' \<Longrightarrow> (\<And>s. bs_edges (bump s) = bs_edges s) \<Longrightarrow>
    contained (bc_emit bump e st) = contained st"
  by (auto simp: bc_emit_def contained_def pairs_of_def edge_key_def)

lemma contained_same: "bs_edges st' = bs_edges st \<Longrightarrow> contained st' = contained st"
  by (simp add: contained_def)

lemma contained_call: "contained (bc_call env ix fl c v st) = contained st"
proof -
  have x: "contained (call_external env fl c kind v s) = contained s" for kind s
    unfolding call_external_def Let_def by (subst contained_emit) (simp_all add: contained_def)
  have t: "contained (taint_mark c v s) = contained s" and i: "contained (inventory v s) = contained s"
    and n: "contained (s\<lparr>bs_external_calls := k\<rparr>) = contained s" for s k
    by (simp_all add: contained_def)
  show ?thesis by (simp add: bc_call_def Let_def contained_emit x t i n)
qed

lemma contained_access: "contained (bc_access ix fl c a st) = contained st"
proof -
  have "contained (bump_stats f s) = contained s" for f s by (simp add: contained_def bump_stats_def)
  then show ?thesis by (simp add: bc_access_def Let_def contained_emit bump_stats_def)
qed

lemma contained_body: "contained (bc_body env ix fl m c st) = contained st"
proof -
  have "contained (fold (bc_call env ix fl c) vs s) = contained s" for vs s
    by (induction vs arbitrary: s) (simp_all add: contained_call)
  moreover have "contained (fold (bc_access ix fl c) xs s) = contained s" for xs s
    by (induction xs arbitrary: s) (simp_all add: contained_access)
  ultimately show ?thesis by (simp add: bc_body_def)
qed

lemma contained_declare: "contained (declare_method own cname m c st) = contained st"
  by (simp add: declare_method_def contained_def)

lemma contained_synthesized: "contained (add_synthesized owner fl m nd st) = insert (owner, n_id nd) (contained st)"
  by (auto simp: contained_def add_synthesized_def pairs_append pairs_single)

interpretation boxed: observer env ix contained "\<lambda>_ o1. o1"
  "\<lambda>k m c S. if caller_needs_synthesis (k_info k) m then insert (k_owner k, c) S else S" for env ix
  by unfold_locales (simp_all add: contained_body contained_declare contained_synthesized,
    simp_all add: contained_def bump_stats_def enter_class_def Let_def)

lemma contained_scan:
  assumes "scan_classes env ix infos = Inr st"
  shows "contained st = {(k_owner k, c) | k m c. (k, m, c) \<in> set (bodies env ix infos) \<and> caller_needs_synthesis (k_info k) m}"
proof -
  have "fold (\<lambda>(k, m, c) S. if caller_needs_synthesis (k_info k) m then insert (k_owner k, c) S else S) bs S
      = S \<union> {(k_owner k, c) | k m c. (k, m, c) \<in> set bs \<and> caller_needs_synthesis (k_info k) m}"
    for bs :: "(bc_class \<times> method_info \<times> string) list" and S
  proof (induction bs arbitrary: S)
    case (Cons b bs)
    obtain k m c where b: "b = (k, m, c)" by (cases b)
    show ?case unfolding fold_simps b prod.case Cons.IH by auto
  qed simp
  moreover have "contained bc_start = {}" by (simp add: contained_def bc_start_def)
  ultimately show ?thesis
    using boxed.obs_scan [OF assms [unfolded scan_classes_def]] unfolding fold_bodies bodies_def [symmetric] by simp
qed

section \<open>Both ends\<close>

definition ends :: "edge list \<Rightarrow> string set" where
  "ends es = e_src ` set es \<union> e_dst ` set es"

lemma bodies_mem: "(k, m, c) \<in> set (bodies env ix infos) \<Longrightarrow>
    method_caller env ix k m = Inr (Some c) \<and> (\<exists>i \<in> set infos. class_of ix i = Some k)"
  by (auto simp: bodies_def class_bodies_def entered_mem split: sum.splits option.splits)

lemma caller_known:
  assumes "(k, m, c) \<in> set (bodies env (build_index nodes) infos)"
  shows "c \<in> n_id ` set nodes \<union> synthesized_ids (bodies env (build_index nodes) infos)"
proof (cases "caller_needs_synthesis (k_info k) m")
  case True
  with assms show ?thesis by (auto simp: synthesized_ids_def)
next
  case False
  with bodies_mem [OF assms] have "c \<noteq> []"
      "c = fst (method_id (build_index nodes) (c_name (k_info k)) (m_name m) (m_descriptor m) no_stats)"
    by (auto simp: method_caller_def Let_def split: if_splits)
  with method_id_node [of nodes "c_name (k_info k)" "m_name m" "m_descriptor m" no_stats] show ?thesis by auto
qed

lemma owner_known:
  assumes "(k, m, c) \<in> set (bodies env (build_index nodes) infos)"
  shows "k_owner k \<in> n_id ` set nodes"
proof -
  from bodies_mem [OF assms] obtain i where "class_of (build_index nodes) i = Some k" by blast
  then obtain x where "k_owner k \<noteq> []" "k_owner k = class_id (build_index nodes) x"
    by (auto simp: class_of_def Let_def split: if_splits)
  with class_id_node [of nodes x] show ?thesis by auto
qed

lemma headers_owned: "n \<in> fst ` set (headers ix infos) \<Longrightarrow> class_id ix n \<noteq> []"
proof -
  have keys: "fst ` set (fold add_head ks h) \<subseteq> fst ` set h \<union> {c_name (k_info k) | k. k \<in> set ks \<and> k_own k \<noteq> []}" for ks h
  proof (induction ks arbitrary: h)
    case (Cons k ks)
    from Cons.IH [of "add_head k h"] show ?case unfolding fold_simps add_head_keys by (auto split: if_splits)
  qed simp
  assume "n \<in> fst ` set (headers ix infos)"
  with keys [of "entered ix infos" "[]"] obtain k where "k \<in> set (entered ix infos)" "k_own k \<noteq> []" "n = c_name (k_info k)"
    by (auto simp: headers_def add_head_def [abs_def])
  then show ?thesis using class_of_own by (auto simp: entered_mem)
qed

lemma declared_mem: "d \<in> set (declared env ix infos) \<Longrightarrow> mm \<in> set (snd d) \<Longrightarrow>
    \<exists>k. (k, fst mm, snd mm) \<in> set (bodies env ix infos)"
proof -
  let ?step = "\<lambda>(k, m, c) g. if k_own k \<noteq> [] \<and> can_override m then group_add (c_name (k_info k)) (m, c) g else g"
  have add: "d \<in> set (group_add x v g) \<Longrightarrow> mm \<in> set (snd d) \<Longrightarrow> mm = v \<or> (\<exists>d \<in> set g. mm \<in> set (snd d))"
    for x :: string and v mm :: "method_info \<times> string" and d g
    by (induction x v g rule: group_add.induct) (auto split: if_splits)
  have "d \<in> set (fold ?step bs g) \<Longrightarrow> mm \<in> set (snd d) \<Longrightarrow> mm \<in> snd ` set bs \<or> (\<exists>d \<in> set g. mm \<in> set (snd d))"
    for bs :: "(bc_class \<times> method_info \<times> string) list" and d g and mm :: "method_info \<times> string"
  proof (induction bs arbitrary: g)
    case (Cons b bs)
    obtain k m c where b: "b = (k, m, c)" by (cases b)
    from Cons.prems have "d \<in> set (fold ?step bs (?step b g))" by simp
    from Cons.IH [OF this Cons.prems(2)] show ?case
    proof
      assume "\<exists>d \<in> set (?step b g). mm \<in> set (snd d)"
      then obtain d' where d': "d' \<in> set (?step b g)" "mm \<in> set (snd d')" ..
      show ?thesis
      proof (cases "k_own k \<noteq> [] \<and> can_override m")
        case True
        with d' have "d' \<in> set (group_add (c_name (k_info k)) (m, c) g)" by (simp add: b)
        from add [OF this d'(2)] show ?thesis by (auto simp: b)
      next
        case False
        with d' show ?thesis by (auto simp: b)
      qed
    qed simp
  qed auto
  from this [of d "bodies env ix infos" "[]" mm]
  show "d \<in> set (declared env ix infos) \<Longrightarrow> mm \<in> set (snd d) \<Longrightarrow> ?thesis"
    unfolding declared_def by force
qed


lemma body_ends:
  assumes "e \<in> set (body_edges env (build_index nodes) (k, m, c))"
  shows "e_src e = c \<and> (e_dst e \<in> n_id ` set nodes \<or> (\<exists>v \<in> set (m_invocations m). is_external_call env v \<and> e_dst e = external_of env v))"
proof -
  from assms consider (call) v where "v \<in> set (m_invocations m)" "e \<in> set (call_edges env (build_index nodes) (k_file k) c v)"
    | (acc) a where "e \<in> set (access_edges (build_index nodes) (k_file k) c a)"
    by (auto simp: body_edges_def)
  then show ?thesis
  proof cases
    case (call v)
    then have "e_src e = c \<and> (e_dst e = callee_of (build_index nodes) v \<and> callee_of (build_index nodes) v \<noteq> []
        \<or> is_external_call env v \<and> e_dst e = external_of env v)"
      by (auto simp: call_edges_def is_external_call_def external_of_def split: if_splits)
    with call callee_node [of nodes v] show ?thesis by auto
  next
    case (acc a)
    then have "e_src e = c \<and> e_dst e = field_id (build_index nodes) (a_owner a) (a_name a)
        \<and> field_id (build_index nodes) (a_owner a) (a_name a) \<noteq> []"
      by (auto simp: access_edges_def Let_def split: if_splits)
    with field_id_node [of nodes "a_owner a" "a_name a"] show ?thesis by auto
  qed
qed

lemma header_ends:
  assumes "e \<in> set (header_edges (build_index nodes) h)" "h \<in> set (headers (build_index nodes) infos)"
  shows "e_src e \<in> n_id ` set nodes \<and> e_dst e \<in> n_id ` set nodes"
proof -
  from assms(1) obtain x where "e_src e = class_id (build_index nodes) (fst h)" "e_dst e = class_id (build_index nodes) x" "e_dst e \<noteq> []"
    by (auto simp: header_edges_def target_edges_def Let_def split: if_splits)
  moreover have "class_id (build_index nodes) (fst h) \<noteq> []" using assms(2) by (intro headers_owned) auto
  ultimately show ?thesis using class_id_node [of nodes "fst h"] class_id_node [of nodes x] by auto
qed

lemma override_ends:
  assumes "e \<in> set (class_overrides (build_index nodes) hs d)"
  shows "(\<exists>mm \<in> set (snd d). e_src e = snd mm) \<and> e_dst e \<in> n_id ` set nodes"
proof -
  from assms obtain mm anc where "mm \<in> set (snd d)" "e_src e = snd mm"
      "e_dst e = override_target (build_index nodes) anc (m_name (fst mm)) (m_descriptor (fst mm))" "e_dst e \<noteq> []"
    by (auto simp: class_overrides_def override_edges_def Let_def split: if_splits)
  with override_target_node [of nodes anc "m_name (fst mm)" "m_descriptor (fst mm)"] show ?thesis by auto
qed

lemma candidate_ends:
  fixes nodes :: "node list"
  defines "ix \<equiv> build_index nodes"
  assumes "e \<in> set (candidate_edges env ix infos)"
  shows "{e_src e, e_dst e} \<subseteq> n_id ` set nodes \<union> synthesized_ids (bodies env ix infos) \<union> external_ids_of env (bodies env ix infos)"
proof -
  from assms(2) consider (body) k m c where "(k, m, c) \<in> set (bodies env ix infos)" "e \<in> set (body_edges env ix (k, m, c))"
    | (header) h where "h \<in> set (headers ix infos)" "e \<in> set (header_edges ix h)"
    | (override) d where "d \<in> set (declared env ix infos)" "e \<in> set (class_overrides ix (headers ix infos) d)"
    by (auto simp: candidate_edges_def)
  then show ?thesis
  proof cases
    case (body k m c)
    have "e_dst e \<in> n_id ` set nodes \<union> external_ids_of env (bodies env ix infos)"
      using body_ends [OF body(2) [unfolded ix_def]] body(1) unfolding external_ids_of_def by blast
    moreover have "e_src e \<in> n_id ` set nodes \<union> synthesized_ids (bodies env ix infos)"
      using body_ends [OF body(2) [unfolded ix_def]] caller_known [OF body(1) [unfolded ix_def]] unfolding ix_def by simp
    ultimately show ?thesis by auto
  next
    case (header h)
    from header_ends [OF header(2,1) [unfolded ix_def]] show ?thesis by simp
  next
    case (override d)
    from override_ends [OF override(2) [unfolded ix_def]] obtain mm where
      "mm \<in> set (snd d)" "e_src e = snd mm" "e_dst e \<in> n_id ` set nodes" by auto
    moreover from declared_mem [OF override(1) this(1)] obtain k where "(k, fst mm, snd mm) \<in> set (bodies env ix infos)" ..
    from caller_known [OF this [unfolded ix_def]] have "snd mm \<in> n_id ` set nodes \<union> synthesized_ids (bodies env ix infos)"
      by (simp add: ix_def)
    ultimately show ?thesis by auto
  qed
qed

lemma compiled_ends:
  "case resolve_java_bytecode env nodes roots r of Inl _ \<Rightarrow> True
   | Inr (es, ns, rep) \<Rightarrow> ends es \<subseteq> n_id ` (set nodes \<union> set ns)"
proof (rule resolve_rule, goal_cases)
  case (1 rep)
  show ?case by (simp add: ends_def)
next
  case (2 st rep)
  let ?ix = "build_index nodes" and ?infos = "iter_class_sources roots"
  let ?es = "bs_edges (rp_counts rep)" and ?bs = "bodies env ?ix ?infos"
  have keep: "bs_nodes (rp_counts rep) = bs_nodes st"
      "filter (\<lambda>e. e_type e = ''CONTAINS'') ?es = filter (\<lambda>e. e_type e = ''CONTAINS'') (bs_edges st)"
    using after_scan(2) [OF 2(1)] by (simp_all add: 2(2) unlinked_def)
  have known: "n_id ` (set nodes \<union> set (bs_nodes (rp_counts rep))) =
      n_id ` set nodes \<union> synthesized_ids ?bs \<union> external_ids_of env ?bs"
    using nodes_scan [OF 2(1)] by (simp add: keep(1) image_Un Un_assoc)
  have "{e_src e, e_dst e} \<subseteq> n_id ` set nodes \<union> synthesized_ids ?bs \<union> external_ids_of env ?bs" if e: "e \<in> set ?es" for e
  proof (cases "e_type e = ''CONTAINS''")
    case True
    with e have "e \<in> set (filter (\<lambda>e. e_type e = ''CONTAINS'') (bs_edges st))" unfolding keep(2) [symmetric] by simp
    then have "(e_src e, e_dst e) \<in> contained st"
      using True by (force simp: contained_def pairs_of_def edge_key_def)
    then obtain k m c where "(k, m, c) \<in> set ?bs" "caller_needs_synthesis (k_info k) m" "e_src e = k_owner k" "e_dst e = c"
      unfolding contained_scan [OF 2(1)] by blast
    with owner_known show ?thesis by (auto simp: synthesized_ids_def)
  next
    case False
    with e have "e \<in> set (filter (\<lambda>e. e_type e \<noteq> ''CONTAINS'') ?es)" by simp
    moreover have "filter (\<lambda>e. e_type e \<noteq> ''CONTAINS'') ?es = kept edge_key {} (candidate_edges env ?ix ?infos)"
      using after_scan(1) [OF 2(1)] by (simp add: 2(2) linked_def)
    ultimately have "e \<in> set (candidate_edges env ?ix ?infos)" by (metis kept_mem)
    then show ?thesis by (rule candidate_ends)
  qed
  then show ?case unfolding known ends_def by blast
qed

text \<open>C24: every edge of the pass joins two nodes that exist: each end is an extracted node or a
  node the pass returns, so nothing it writes dangles.\<close>

theorem compiled_edges_grounded:
  "case resolve_java_bytecode env nodes roots r of Inl _ \<Rightarrow> True
   | Inr (es, ns, rep) \<Rightarrow> ends es \<subseteq> n_id ` (set nodes \<union> set ns)"
  by (rule compiled_ends)

end
