(* ===== verification/BuildLock.thy ===== *)
theory BuildLock
  imports Prelude
begin

text \<open>
  The build lock and the incremental decision (\<open>ensure_graph_indexed\<close> in \<open>ingest/indexing.py\<close>
  with the lock queries of \<open>graph_core/store.py\<close>), for one namespace.  Any number of builders run
  interleaved; each database statement is one step, a builder may fail or be killed between any
  two of them, and the clock moves on its own.  The hash of a manifest is an argument; of the
  graph the model keeps the content hash of each file, which is what the decision reads.  The extraction of a
  file may raise: \<open>_extract_one\<close> (\<open>graph_core/pipeline.py\<close>) then gives nothing for it, and the build goes on; \<open>w_lost\<close>
  records the files of which this happened since the graph was last cleared.
\<close>

section \<open>The metadata node\<close>

type_synonym manifest = "(string \<times> string) list"

datatype status = Indexing_Status | Ready | Error_Status

record 'h meta =
  mt_locked_at :: "nat option"
  mt_token :: "nat option"
  mt_hash :: "'h option"
  mt_status :: "status option"

definition empty_meta :: "'h meta" where
  "empty_meta = \<lparr>mt_locked_at = None, mt_token = None, mt_hash = None, mt_status = None\<rparr>"

definition lock_free :: "nat \<Rightarrow> 'h meta \<Rightarrow> bool" where
  "lock_free stale_before m = (case mt_locked_at m of None \<Rightarrow> True | Some t \<Rightarrow> t < stale_before)"

definition acquire_lock :: "nat \<Rightarrow> nat \<Rightarrow> nat \<Rightarrow> 'h meta \<Rightarrow> bool \<times> 'h meta" where
  "acquire_lock now token stale_before m =
     (if lock_free stale_before m then (True, m\<lparr>mt_locked_at := Some now, mt_token := Some token\<rparr>) else (False, m))"

definition release_lock :: "nat \<Rightarrow> 'h meta \<Rightarrow> 'h meta" where
  "release_lock token m = (if mt_token m = Some token then m\<lparr>mt_locked_at := None, mt_token := None\<rparr> else m)"

definition set_status :: "status \<Rightarrow> 'h meta \<Rightarrow> 'h meta" where
  "set_status s m = m\<lparr>mt_status := Some s\<rparr>"

definition set_ready :: "'h \<Rightarrow> 'h meta \<Rightarrow> 'h meta" where
  "set_ready h m = m\<lparr>mt_hash := Some h, mt_status := Some Ready\<rparr>"

section \<open>The decision\<close>

definition has_baseline :: "'h meta \<Rightarrow> bool" where
  "has_baseline m = (mt_hash m \<noteq> None \<and> mt_status m = Some Ready)"

definition unchanged :: "(manifest \<Rightarrow> 'h) \<Rightarrow> manifest \<Rightarrow> 'h meta \<Rightarrow> bool" where
  "unchanged hash man m = (has_baseline m \<and> mt_hash m = Some (hash man))"

definition changed_files :: "manifest \<Rightarrow> (string \<rightharpoonup> string) \<Rightarrow> string set" where
  "changed_files man prev = {f. \<exists>sha. (f, sha) \<in> set man \<and> prev f \<noteq> Some sha}"

definition deleted_files :: "manifest \<Rightarrow> (string \<rightharpoonup> string) \<Rightarrow> string set" where
  "deleted_files man prev = dom prev - fst ` set man"

text \<open>The change set of an incremental build, or none when there is no baseline and the
  namespace is wiped.\<close>

definition change_set :: "manifest \<Rightarrow> 'h meta \<Rightarrow> (string \<rightharpoonup> string) \<Rightarrow> string set option" where
  "change_set man m files =
     (if has_baseline m then Some (changed_files man files \<union> deleted_files man files) else None)"

definition clear_files :: "string set option \<Rightarrow> (string \<rightharpoonup> string) \<Rightarrow> string \<rightharpoonup> string" where
  "clear_files cs files = (case cs of Some fs \<Rightarrow> files |` (- fs) | None \<Rightarrow> (\<lambda>_. None))"

section \<open>Builders\<close>

text \<open>Where a builder stands, with the token it wrote and the time it took the lock; the metadata
  it read, the manifest it builds and what it has still to write.\<close>

datatype 'h builder =
    Idle
  | Locked nat nat
  | Checking nat nat "'h meta"
  | Starting nat nat manifest "string set option"
  | Clearing nat nat manifest "string set option"
  | Indexing nat nat manifest manifest
  | Releasing nat nat

record 'h world =
  w_now :: nat
  w_meta :: "'h meta"
  w_files :: "string \<rightharpoonup> string"
  w_lost :: "string set"
  w_tokens :: "nat set"
  w_builder :: "nat \<Rightarrow> 'h builder"

definition set_builder :: "nat \<Rightarrow> 'h builder \<Rightarrow> 'h world \<Rightarrow> 'h world" where
  "set_builder p b w = w\<lparr>w_builder := (w_builder w)(p := b)\<rparr>"

definition set_meta :: "'h meta \<Rightarrow> 'h world \<Rightarrow> 'h world" where
  "set_meta m w = w\<lparr>w_meta := m\<rparr>"

definition set_files :: "(string \<rightharpoonup> string) \<Rightarrow> 'h world \<Rightarrow> 'h world" where
  "set_files fs w = w\<lparr>w_files := fs\<rparr>"

definition set_lost :: "string set \<Rightarrow> 'h world \<Rightarrow> 'h world" where
  "set_lost fs w = w\<lparr>w_lost := fs\<rparr>"

definition use_token :: "nat \<Rightarrow> 'h world \<Rightarrow> 'h world" where
  "use_token t w = w\<lparr>w_tokens := insert t (w_tokens w)\<rparr>"

fun held :: "'h builder \<Rightarrow> (nat \<times> nat) option" where
  "held Idle = None"
| "held (Locked t s) = Some (t, s)"
| "held (Checking t s m) = Some (t, s)"
| "held (Starting t s man cs) = Some (t, s)"
| "held (Clearing t s man cs) = Some (t, s)"
| "held (Indexing t s man todo) = Some (t, s)"
| "held (Releasing t s) = Some (t, s)"

definition overdue :: "nat \<Rightarrow> nat \<Rightarrow> 'h builder \<Rightarrow> bool" where
  "overdue stale now b = (case held b of None \<Rightarrow> False | Some (t, s) \<Rightarrow> s + stale < now)"

definition fails :: "'h builder \<Rightarrow> bool" where
  "fails b = (case b of Idle \<Rightarrow> False | Releasing t s \<Rightarrow> False | _ \<Rightarrow> True)"

inductive lock_step :: "(manifest \<Rightarrow> 'h) \<Rightarrow> nat \<Rightarrow> 'h world \<Rightarrow> 'h world \<Rightarrow> bool"
  for hash stale where
  tick: "lock_step hash stale w (w\<lparr>w_now := w_now w + d\<rparr>)"
| acquire: "w_builder w p = Idle \<Longrightarrow> t \<notin> w_tokens w \<Longrightarrow> called \<le> w_now w \<Longrightarrow>
     acquire_lock (w_now w) t (called - stale) (w_meta w) = (True, m) \<Longrightarrow>
     lock_step hash stale w (use_token t (set_meta m (set_builder p (Locked t (w_now w)) w)))"
| read_meta: "w_builder w p = Locked t s \<Longrightarrow> lock_step hash stale w (set_builder p (Checking t s (w_meta w)) w)"
| skip: "w_builder w p = Checking t s m \<Longrightarrow> unchanged hash man m \<Longrightarrow>
     lock_step hash stale w (set_builder p (Releasing t s) w)"
| decide: "w_builder w p = Checking t s m \<Longrightarrow> distinct (map fst man) \<Longrightarrow> \<not> unchanged hash man m \<Longrightarrow>
     lock_step hash stale w (set_builder p (Starting t s man (change_set man m (w_files w))) w)"
| announce: "w_builder w p = Starting t s man cs \<Longrightarrow>
     lock_step hash stale w (set_meta (set_status Indexing_Status (w_meta w)) (set_builder p (Clearing t s man cs) w))"
| wipe_batch: "w_builder w p = Clearing t s man None \<Longrightarrow>
     lock_step hash stale w (set_files (w_files w |` rest) w)"
| clear: "w_builder w p = Clearing t s man cs \<Longrightarrow>
     lock_step hash stale w (set_lost {} (set_files (clear_files cs (w_files w)) (set_builder p (Indexing t s man man) w)))"
| write_file: "w_builder w p = Indexing t s man todo \<Longrightarrow> (f, sha) \<in> set todo \<Longrightarrow>
     lock_step hash stale w (set_files ((w_files w)(f \<mapsto> sha)) (set_builder p (Indexing t s man (remove1 (f, sha) todo)) w))"
| lose_file: "w_builder w p = Indexing t s man todo \<Longrightarrow> (f, sha) \<in> set todo \<Longrightarrow>
     lock_step hash stale w (set_lost (insert f (w_lost w)) (set_builder p (Indexing t s man (remove1 (f, sha) todo)) w))"
| complete: "w_builder w p = Indexing t s man [] \<Longrightarrow>
     lock_step hash stale w (set_meta (set_ready (hash man) (w_meta w)) (set_builder p (Releasing t s) w))"
| fail: "w_builder w p = b \<Longrightarrow> fails b \<Longrightarrow> held b = Some (t, s) \<Longrightarrow>
     lock_step hash stale w (set_meta (set_status Error_Status (w_meta w)) (set_builder p (Releasing t s) w))"
| release: "w_builder w p = Releasing t s \<Longrightarrow>
     lock_step hash stale w (set_meta (release_lock t (w_meta w)) (set_builder p Idle w))"
| kill: "lock_step hash stale w (set_builder p Idle w)"

definition initial :: "'h world" where
  "initial = \<lparr>w_now = 0, w_meta = empty_meta, w_files = (\<lambda>_. None), w_lost = {}, w_tokens = {}, w_builder = (\<lambda>_. Idle)\<rparr>"

definition reachable :: "(manifest \<Rightarrow> 'h) \<Rightarrow> nat \<Rightarrow> 'h world \<Rightarrow> bool" where
  "reachable hash stale w = (lock_step hash stale)\<^sup>*\<^sup>* initial w"


lemmas world_defs = set_builder_def set_meta_def set_files_def set_lost_def use_token_def

section \<open>Exclusion\<close>

definition lock_inv :: "nat \<Rightarrow> 'h world \<Rightarrow> bool" where
  "lock_inv stale w \<longleftrightarrow>
     (\<forall>p t s. held (w_builder w p) = Some (t, s) \<longrightarrow> t \<in> w_tokens w
        \<and> (mt_token (w_meta w) = Some t \<and> mt_locked_at (w_meta w) = Some s \<or> s + stale < w_now w))
     \<and> (\<forall>p q t s s'. held (w_builder w p) = Some (t, s) \<longrightarrow> held (w_builder w q) = Some (t, s') \<longrightarrow> p = q)"

lemma lock_inv_keep:
  assumes "lock_inv stale w" "w_tokens w' = w_tokens w" "w_now w \<le> w_now w'"
    "mt_token (w_meta w') = mt_token (w_meta w)" "mt_locked_at (w_meta w') = mt_locked_at (w_meta w)"
    "\<And>p. held (w_builder w' p) = held (w_builder w p) \<or> held (w_builder w' p) = None"
  shows "lock_inv stale w'"
proof -
  have h: "held (w_builder w' p) = Some x \<Longrightarrow> held (w_builder w p) = Some x" for p x
    using assms(6) [of p] by auto
  have "t \<in> w_tokens w' \<and> (mt_token (w_meta w') = Some t \<and> mt_locked_at (w_meta w') = Some s \<or> s + stale < w_now w')"
    if "held (w_builder w' p) = Some (t, s)" for p t s
    using assms(1-5) h [OF that] unfolding lock_inv_def by fastforce
  moreover have "p = q" if "held (w_builder w' p) = Some (t, s)" "held (w_builder w' q) = Some (t, s')" for p q t s s'
    using assms(1) h [OF that(1)] h [OF that(2)] unfolding lock_inv_def by blast
  ultimately show ?thesis unfolding lock_inv_def by blast
qed

lemma lock_inv_acquire:
  assumes "lock_inv stale w" "t \<notin> w_tokens w" "lock_free (called - stale) (w_meta w)" "called \<le> w_now w"
  shows "lock_inv stale (use_token t (set_meta ((w_meta w)\<lparr>mt_locked_at := Some (w_now w), mt_token := Some t\<rparr>)
    (set_builder p (Locked t (w_now w)) w)))"
proof -
  have old: "u \<in> w_tokens w \<and> u \<noteq> t \<and> s + stale < w_now w" if "held (w_builder w q) = Some (u, s)" for q u s
  proof -
    from assms(1) that have "u \<in> w_tokens w"
        "mt_token (w_meta w) = Some u \<and> mt_locked_at (w_meta w) = Some s \<or> s + stale < w_now w"
      unfolding lock_inv_def by blast+
    with assms(2-4) show ?thesis by (auto simp: lock_free_def)
  qed
  have "q = q'" if "held (w_builder w q) = Some (u, s)" "held (w_builder w q') = Some (u, s')" for q q' u s s'
    using assms(1) that unfolding lock_inv_def by blast
  with old show ?thesis
    unfolding lock_inv_def world_defs by (auto split: if_splits dest: old)
qed

lemma lock_inv_release:
  assumes "lock_inv stale w" "held (w_builder w p) = Some (t, s)"
  shows "lock_inv stale (set_meta (release_lock t (w_meta w)) (set_builder p Idle w))"
proof (cases "mt_token (w_meta w) = Some t")
  case True
  have old: "u \<in> w_tokens w \<and> r + stale < w_now w" if "held (w_builder w q) = Some (u, r)" "q \<noteq> p" for q u r
  proof -
    have "u \<noteq> t" "u \<in> w_tokens w" "mt_token (w_meta w) = Some u \<or> r + stale < w_now w"
      using assms that unfolding lock_inv_def by blast+
    with True show ?thesis by simp
  qed
  have "q = q'" if "held (w_builder w q) = Some (u, r)" "held (w_builder w q') = Some (u, r')" for q q' u r r'
    using assms(1) that unfolding lock_inv_def by blast
  with old True show ?thesis
    unfolding lock_inv_def world_defs release_lock_def by (auto split: if_splits)
next
  case False
  then show ?thesis by (intro lock_inv_keep [OF assms(1)]) (auto simp: world_defs release_lock_def)
qed

lemma lock_inv_step: "lock_step hash stale w w' \<Longrightarrow> lock_inv stale w \<Longrightarrow> lock_inv stale w'"
proof (induction rule: lock_step.induct)
  case (acquire w p t called m)
  then have "lock_free (called - stale) (w_meta w)" "m = (w_meta w)\<lparr>mt_locked_at := Some (w_now w), mt_token := Some t\<rparr>"
    by (auto simp: acquire_lock_def split: if_splits)
  with lock_inv_acquire acquire show ?case by blast
next
  case (release w p t s)
  then show ?case by (intro lock_inv_release) auto
qed (erule lock_inv_keep; auto simp: world_defs set_status_def set_ready_def)+

lemma lock_inv_initial: "lock_inv stale initial"
  by (simp add: lock_inv_def initial_def)

lemma lock_inv_reachable: "reachable hash stale w \<Longrightarrow> lock_inv stale w"
  unfolding reachable_def
  by (induction rule: rtranclp_induct) (blast intro: lock_inv_initial lock_inv_step)+

lemma one_overdue:
  assumes "reachable hash stale w" "p \<noteq> q" "w_builder w p \<noteq> Idle" "w_builder w q \<noteq> Idle"
  shows "overdue stale (w_now w) (w_builder w p) \<or> overdue stale (w_now w) (w_builder w q)"
proof -
  obtain t s where p: "held (w_builder w p) = Some (t, s)" using assms(3) by (cases "w_builder w p") auto
  obtain u r where q: "held (w_builder w q) = Some (u, r)" using assms(4) by (cases "w_builder w q") auto
  have "t \<noteq> u" using lock_inv_reachable [OF assms(1)] p q assms(2) unfolding lock_inv_def by blast
  moreover have "(mt_token (w_meta w) = Some t \<or> s + stale < w_now w) \<and> (mt_token (w_meta w) = Some u \<or> r + stale < w_now w)"
    using lock_inv_reachable [OF assms(1)] p q unfolding lock_inv_def by blast
  ultimately show ?thesis using p q by (auto simp: overdue_def)
qed

text \<open>C25: two builds of one namespace overlap only when one of them holds its lock beyond the
  staleness limit: of two builders past the lock, one has run for longer than the limit.\<close>

theorem builds_exclusive:
  assumes "reachable hash stale w" "p \<noteq> q" "w_builder w p \<noteq> Idle" "w_builder w q \<noteq> Idle"
  shows "overdue stale (w_now w) (w_builder w p) \<or> overdue stale (w_now w) (w_builder w q)"
  using assms by (rule one_overdue)


text \<open>What is known of the lock whoever holds it: it was taken in the past, with one of finitely many
  tokens.\<close>

definition lock_past :: "'h world \<Rightarrow> bool" where
  "lock_past w \<longleftrightarrow> finite (w_tokens w) \<and> (case mt_locked_at (w_meta w) of None \<Rightarrow> True | Some s \<Rightarrow> s \<le> w_now w)"

lemma lock_past_step: "lock_step hash stale w w' \<Longrightarrow> lock_past w \<Longrightarrow> lock_past w'"
proof (induction rule: lock_step.induct)
  case (acquire w p t called m)
  then show ?case by (auto simp: lock_past_def world_defs acquire_lock_def split: if_splits)
next
  case (release w p t s)
  then show ?case by (auto simp: lock_past_def world_defs release_lock_def split: option.splits)
qed (auto simp: lock_past_def world_defs set_status_def set_ready_def split: option.splits)

lemma lock_past_reachable: "reachable hash stale w \<Longrightarrow> lock_past w"
  unfolding reachable_def
proof (induction rule: rtranclp_induct)
  case base
  show ?case by (simp add: lock_past_def initial_def empty_meta_def)
qed (rule lock_past_step)

text \<open>C27: the lock is never stuck: in any state, whoever holds it and even if its holder was killed,
  once the staleness limit has passed an idle builder can take it in one step.\<close>

theorem lock_recovers:
  assumes "reachable hash stale w" "w_builder w p = Idle"
  shows "\<exists>w' t. lock_step hash stale (w\<lparr>w_now := w_now w + Suc stale\<rparr>) w'
    \<and> w_builder w' p = Locked t (w_now w + Suc stale) \<and> mt_token (w_meta w') = Some t"
proof -
  let ?w = "w\<lparr>w_now := w_now w + Suc stale\<rparr>"
  have past: "lock_past w" using lock_past_reachable [OF assms(1)] .
  then obtain t where t: "t \<notin> w_tokens w" using ex_new_if_finite [OF infinite_UNIV_nat] by (auto simp: lock_past_def)
  have "lock_free (w_now ?w - stale) (w_meta ?w)" using past by (auto simp: lock_past_def lock_free_def split: option.splits)
  then have "acquire_lock (w_now ?w) t (w_now ?w - stale) (w_meta ?w)
      = (True, (w_meta ?w)\<lparr>mt_locked_at := Some (w_now ?w), mt_token := Some t\<rparr>)" by (simp add: acquire_lock_def)
  from lock_step.acquire [of ?w p t "w_now ?w", OF _ _ _ this] assms(2) t
  show ?thesis by (intro exI [of _ t] exI conjI) (auto simp: world_defs)
qed

section \<open>A ready namespace is fully indexed\<close>

text \<open>Runs in which no builder outlives the staleness limit.\<close>

definition timely :: "nat \<Rightarrow> 'h world \<Rightarrow> bool" where
  "timely stale w \<longleftrightarrow> (\<forall>p. \<not> overdue stale (w_now w) (w_builder w p))"

definition timely_reachable :: "(manifest \<Rightarrow> 'h) \<Rightarrow> nat \<Rightarrow> 'h world \<Rightarrow> bool" where
  "timely_reachable hash stale w = (\<lambda>w w'. lock_step hash stale w w' \<and> timely stale w')\<^sup>*\<^sup>* initial w"

lemma timely_reaches: "timely_reachable hash stale w \<Longrightarrow> reachable hash stale w \<and> timely stale w"
  unfolding timely_reachable_def
proof (induction rule: rtranclp_induct)
  case base
  then show ?case by (simp add: reachable_def timely_def overdue_def initial_def)
next
  case (step y z)
  then show ?case unfolding reachable_def by (meson rtranclp.rtrancl_into_rtrancl)
qed

lemma timely_alone:
  "timely_reachable hash stale w \<Longrightarrow> w_builder w p \<noteq> Idle \<Longrightarrow> q \<noteq> p \<Longrightarrow> w_builder w q = Idle"
  using one_overdue timely_reaches unfolding timely_def by blast

text \<open>A file of the graph is as the manifest has it, or it is one that was lost.\<close>

definition holds_file :: "manifest \<Rightarrow> 'h world \<Rightarrow> string \<Rightarrow> bool" where
  "holds_file man w f \<longleftrightarrow> w_files w f = map_of man f \<or> w_files w f = None \<and> f \<in> w_lost w"

definition indexed :: "(manifest \<Rightarrow> 'h) \<Rightarrow> 'h world \<Rightarrow> bool" where
  "indexed hash w \<longleftrightarrow> (\<exists>man. distinct (map fst man) \<and> mt_hash (w_meta w) = Some (hash man) \<and> (\<forall>f. holds_file man w f))"

text \<open>What is left after the change set is removed agrees with the manifest.\<close>

definition covers :: "string set option \<Rightarrow> manifest \<Rightarrow> (string \<rightharpoonup> string) \<Rightarrow> bool" where
  "covers cs man files \<longleftrightarrow> (case cs of None \<Rightarrow> True | Some fs \<Rightarrow> \<forall>f. f \<in> fs \<or> files f = None \<or> files f = map_of man f)"

fun stage_ok :: "'h world \<Rightarrow> 'h builder \<Rightarrow> bool" where
  "stage_ok w (Checking t s m) = (mt_hash m = mt_hash (w_meta w) \<and> mt_status m = mt_status (w_meta w))"
| "stage_ok w (Starting t s man cs) = (distinct (map fst man) \<and> covers cs man (w_files w))"
| "stage_ok w (Clearing t s man cs) =
     (distinct (map fst man) \<and> covers cs man (w_files w) \<and> mt_status (w_meta w) \<noteq> Some Ready)"
| "stage_ok w (Indexing t s man todo) =
     (distinct (map fst man) \<and> set todo \<subseteq> set man \<and> mt_status (w_meta w) \<noteq> Some Ready
      \<and> (\<forall>f. holds_file man w f \<or> w_files w f = None \<and> f \<in> fst ` set todo))"
| "stage_ok w b = True"

definition index_inv :: "(manifest \<Rightarrow> 'h) \<Rightarrow> 'h world \<Rightarrow> bool" where
  "index_inv hash w \<longleftrightarrow> (mt_status (w_meta w) = Some Ready \<longrightarrow> indexed hash w) \<and> (\<forall>p. stage_ok w (w_builder w p))"

lemma covers_change_set:
  assumes "distinct (map fst man)"
  shows "covers (change_set man m files) man files"
proof -
  have "f \<in> changed_files man files \<union> deleted_files man files \<or> files f = None \<or> files f = map_of man f" for f
  proof (cases "files f")
    case (Some x)
    show ?thesis
    proof (cases "f \<in> fst ` set man")
      case True
      then obtain sha where m: "(f, sha) \<in> set man" by auto
      then have "map_of man f = Some sha" using assms by simp
      with m show ?thesis by (auto simp: changed_files_def)
    qed (use Some in \<open>auto simp: deleted_files_def\<close>)
  qed simp
  then show ?thesis by (simp add: covers_def change_set_def)
qed

lemma cleared:
  assumes "covers cs man files" "distinct (map fst man)"
  shows "clear_files cs files f = map_of man f \<or> clear_files cs files f = None \<and> f \<in> fst ` set man"
proof (cases "f \<in> fst ` set man")
  case False
  then have "map_of man f = None" by (simp add: map_of_eq_None_iff)
  with assms show ?thesis by (cases cs) (auto simp: covers_def clear_files_def restrict_map_def)
qed (use assms in \<open>auto simp: covers_def clear_files_def restrict_map_def split: option.splits\<close>)

lemma stage_ok_alone:
  assumes "\<And>q. q \<noteq> p \<Longrightarrow> w_builder w q = Idle" "stage_ok w (w_builder w p)"
  shows "\<forall>q. stage_ok w (w_builder w q)"
  using assms by (metis stage_ok.simps(5))



definition alone :: "'h world \<Rightarrow> bool" where
  "alone w \<longleftrightarrow> (\<forall>p q. w_builder w p \<noteq> Idle \<longrightarrow> q \<noteq> p \<longrightarrow> w_builder w q = Idle)"

lemma index_invI:
  assumes "mt_status (w_meta w) = Some Ready \<Longrightarrow> indexed hash w"
    and "\<And>q. q \<noteq> p \<Longrightarrow> w_builder w q = Idle" "stage_ok w (w_builder w p)"
  shows "index_inv hash w"
  using assms(1) stage_ok_alone [OF assms(2,3)] unfolding index_inv_def by blast

lemma left_todo: "g \<in> fst ` set todo \<Longrightarrow> g \<noteq> f \<Longrightarrow> g \<in> fst ` set (remove1 (f, sha) todo)"
  by (auto simp: image_iff in_set_remove1 intro!: bexI)

lemma index_step:
  assumes "lock_step hash stale w w'" "index_inv hash w" "alone w" "alone w'"
  shows "index_inv hash w'"
  using assms(1)
proof (cases rule: lock_step.cases)
  case (tick d)
  have "stage_ok w' b = stage_ok w b" for b by (cases b) (simp_all add: tick holds_file_def)
  with assms(2) show ?thesis by (simp add: index_inv_def indexed_def holds_file_def tick)
next
  case (acquire p t called m)
  have "m = (w_meta w)\<lparr>mt_locked_at := Some (w_now w), mt_token := Some t\<rparr>"
    using acquire(5) by (auto simp: acquire_lock_def split: if_splits)
  moreover have "w_builder w' p \<noteq> Idle" by (simp add: acquire(1) world_defs)
  then have "w_builder w' q = Idle" if "q \<noteq> p" for q
    using assms(4) that unfolding alone_def by blast
  ultimately show ?thesis using assms(2)
    by (intro index_invI [of _ _ p]) (simp_all add: index_inv_def indexed_def holds_file_def acquire(1) world_defs)
next
  case (read_meta p t s)
  have "w_builder w q = Idle" if "q \<noteq> p" for q
    using assms(3) that read_meta(2) unfolding alone_def by force
  with assms(2) show ?thesis
    by (intro index_invI [of _ _ p]) (simp_all add: index_inv_def indexed_def holds_file_def read_meta(1) world_defs)
next
  case (skip p t s m man)
  have "w_builder w q = Idle" if "q \<noteq> p" for q
    using assms(3) that skip(2) unfolding alone_def by force
  with assms(2) show ?thesis
    by (intro index_invI [of _ _ p]) (simp_all add: index_inv_def indexed_def holds_file_def skip(1) world_defs)
next
  case (decide p t s m man)
  have "w_builder w q = Idle" if "q \<noteq> p" for q
    using assms(3) that decide(2) unfolding alone_def by force
  with assms(2) show ?thesis
    by (intro index_invI [of _ _ p])
      (simp_all add: index_inv_def indexed_def holds_file_def decide world_defs covers_change_set [OF decide(3)])
next
  case (announce p t s man cs)
  have "w_builder w q = Idle" if "q \<noteq> p" for q
    using assms(3) that announce(2) unfolding alone_def by force
  moreover have "stage_ok w (Starting t s man cs)" using assms(2) announce(2) unfolding index_inv_def by metis
  ultimately show ?thesis
    by (intro index_invI [of _ _ p]) (simp_all add: announce world_defs set_status_def)
next
  case (wipe_batch p t s man rest)
  have "w_builder w q = Idle" if "q \<noteq> p" for q
    using assms(3) that wipe_batch(2) unfolding alone_def by force
  moreover have "stage_ok w (Clearing t s man None)" using assms(2) wipe_batch(2) unfolding index_inv_def by metis
  ultimately show ?thesis
    by (intro index_invI [of _ _ p]) (simp_all add: wipe_batch world_defs covers_def)
next
  case (clear p t s man cs)
  have "w_builder w q = Idle" if "q \<noteq> p" for q
    using assms(3) that clear(2) unfolding alone_def by force
  moreover have "stage_ok w (Clearing t s man cs)" using assms(2) clear(2) unfolding index_inv_def by metis
  ultimately show ?thesis
    by (intro index_invI [of _ _ p]) (simp_all add: clear world_defs holds_file_def cleared)
next
  case (write_file p t s man todo f sha)
  have idle: "w_builder w q = Idle" if "q \<noteq> p" for q
    using assms(3) that write_file(2) unfolding alone_def by force
  have ok: "stage_ok w (Indexing t s man todo)" using assms(2) write_file(2) unfolding index_inv_def by metis
  then have "map_of man f = Some sha" using write_file(3) by auto
  then have "holds_file man w' g \<or> w_files w' g = None \<and> g \<in> fst ` set (remove1 (f, sha) todo)" for g
    using ok left_todo [of g todo f sha] by (cases "g = f") (auto simp: write_file world_defs holds_file_def)
  with idle show ?thesis using ok set_remove1_subset [of "(f, sha)" todo]
    by (intro index_invI [of _ _ p]) (auto simp: write_file world_defs)
next
  case (lose_file p t s man todo f sha)
  have idle: "w_builder w q = Idle" if "q \<noteq> p" for q
    using assms(3) that lose_file(2) unfolding alone_def by force
  have ok: "stage_ok w (Indexing t s man todo)" using assms(2) lose_file(2) unfolding index_inv_def by metis
  then have "holds_file man w' g \<or> w_files w' g = None \<and> g \<in> fst ` set (remove1 (f, sha) todo)" for g
    using left_todo [of g todo f sha] by (cases "g = f") (auto simp: lose_file world_defs holds_file_def)
  with idle show ?thesis using ok set_remove1_subset [of "(f, sha)" todo]
    by (intro index_invI [of _ _ p]) (auto simp: lose_file world_defs)
next
  case (complete p t s man)
  have "w_builder w q = Idle" if "q \<noteq> p" for q
    using assms(3) that complete(2) unfolding alone_def by force
  moreover have "stage_ok w (Indexing t s man [])" using assms(2) complete(2) unfolding index_inv_def by metis
  then have "distinct (map fst man)" "\<forall>f. holds_file man w f" by auto
  then have "indexed hash w'" unfolding indexed_def complete(1) by (auto simp: world_defs set_ready_def holds_file_def)
  ultimately show ?thesis
    by (intro index_invI [of _ _ p]) (simp_all add: complete(1) world_defs)
next
  case (fail p b t s)
  then have "w_builder w p \<noteq> Idle" by auto
  then have "w_builder w q = Idle" if "q \<noteq> p" for q
    using assms(3) that unfolding alone_def by blast
  then show ?thesis
    by (intro index_invI [of _ _ p]) (simp_all add: fail(1) world_defs set_status_def)
next
  case (release p t s)
  have "w_builder w q = Idle" if "q \<noteq> p" for q
    using assms(3) that release(2) unfolding alone_def by force
  moreover have "mt_status (release_lock t (w_meta w)) = mt_status (w_meta w)"
    "mt_hash (release_lock t (w_meta w)) = mt_hash (w_meta w)" by (simp_all add: release_lock_def)
  ultimately show ?thesis using assms(2)
    by (intro index_invI [of _ _ p]) (simp_all add: index_inv_def indexed_def holds_file_def release(1) world_defs)
next
  case (kill p)
  have "stage_ok w' b = stage_ok w b" for b by (cases b) (simp_all add: kill world_defs holds_file_def)
  with assms(2) show ?thesis by (simp add: index_inv_def indexed_def holds_file_def kill world_defs)
qed

lemma timely_alone_all: "timely_reachable hash stale w \<Longrightarrow> alone w"
  using timely_alone unfolding alone_def by blast

lemma timely_index_inv: "timely_reachable hash stale w \<Longrightarrow> index_inv hash w"
proof -
  have "timely_reachable hash stale w \<and> index_inv hash w"
    if "(\<lambda>w w'. lock_step hash stale w w' \<and> timely stale w')\<^sup>*\<^sup>* initial w"
    using that
  proof (induction rule: rtranclp_induct)
    case base
    show ?case by (simp add: timely_reachable_def index_inv_def initial_def empty_meta_def)
  next
    case (step y z)
    have "timely_reachable hash stale z"
      unfolding timely_reachable_def by (rule rtranclp.rtrancl_into_rtrancl [OF step(1,2)])
    with step index_step [of hash stale y z] timely_alone_all show ?case by blast
  qed
  then show "timely_reachable hash stale w \<Longrightarrow> ?thesis" by (simp add: timely_reachable_def)
qed


section \<open>Runs\<close>

definition demo_hash :: "manifest \<Rightarrow> manifest" where
  "demo_hash man = man"

lemma reach_step: "reachable hash stale w \<Longrightarrow> lock_step hash stale w w' \<Longrightarrow> reachable hash stale w'"
  unfolding reachable_def by (rule rtranclp.rtrancl_into_rtrancl)

lemma reach_same: "reachable hash stale w \<Longrightarrow> lock_step hash stale w w' \<Longrightarrow> w_now w' = w_now w \<Longrightarrow> reachable hash stale w'"
  by (rule reach_step)

text \<open>A build that outlives the limit loses the lock while it still runs, and then marks the
  namespace ready while the build that took over is still writing: the namespace ends up ready
  with files that no build produced.\<close>

lemma start_build:
  assumes step: "\<And>w w'. R w \<Longrightarrow> lock_step demo_hash stale w w' \<Longrightarrow> w_now w' = w_now w \<Longrightarrow> R w'"
    and pre: "R w" "w_builder w p = Idle" "t \<notin> w_tokens w" "lock_free (w_now w - stale) (w_meta w)"
    "mt_status (w_meta w) \<noteq> Some Ready" "distinct (map fst man)"
  shows "R (w\<lparr>w_meta := \<lparr>mt_locked_at = Some (w_now w), mt_token = Some t,
      mt_hash = mt_hash (w_meta w), mt_status = Some Indexing_Status\<rparr>, w_files := (\<lambda>_. None), w_lost := {},
      w_tokens := insert t (w_tokens w), w_builder := (w_builder w)(p := Indexing t (w_now w) man man)\<rparr>)"
proof -
  let ?m = "(w_meta w)\<lparr>mt_locked_at := Some (w_now w), mt_token := Some t\<rparr>"
  let ?w1 = "use_token t (set_meta ?m (set_builder p (Locked t (w_now w)) w))"
  let ?w2 = "set_builder p (Checking t (w_now w) (w_meta ?w1)) ?w1"
  let ?w3 = "set_builder p (Starting t (w_now w) man (change_set man ?m (w_files ?w2))) ?w2"
  let ?w4 = "set_meta (set_status Indexing_Status (w_meta ?w3)) (set_builder p (Clearing t (w_now w) man None) ?w3)"
  let ?w5 = "set_lost {} (set_files (clear_files None (w_files ?w4)) (set_builder p (Indexing t (w_now w) man man) ?w4))"
  have nb: "\<not> has_baseline ?m" using pre(5) by (simp add: has_baseline_def)
  have "R ?w1"
    by (rule step [OF pre(1) lock_step.acquire [where called = "w_now w"]]) (use pre in \<open>simp_all add: acquire_lock_def world_defs\<close>)
  then have "R ?w2"
    by (rule step [OF _ lock_step.read_meta]) (simp_all add: world_defs)
  then have "R ?w3"
    by (rule step [OF _ lock_step.decide [where m = ?m]])
      (use pre(6) nb in \<open>simp_all add: world_defs unchanged_def\<close>)
  then have "R ?w4"
    by (rule step [OF _ lock_step.announce]) (use nb in \<open>simp_all add: world_defs change_set_def\<close>)
  then have "R ?w5"
    by (rule step [OF _ lock_step.clear]) (simp_all add: world_defs)
  moreover have "?w5 = w\<lparr>w_meta := \<lparr>mt_locked_at = Some (w_now w), mt_token = Some t,
      mt_hash = mt_hash (w_meta w), mt_status = Some Indexing_Status\<rparr>, w_files := (\<lambda>_. None), w_lost := {},
      w_tokens := insert t (w_tokens w), w_builder := (w_builder w)(p := Indexing t (w_now w) man man)\<rparr>"
    by (simp add: world_defs set_status_def clear_files_def)
  ultimately show ?thesis by simp
qed

definition run_first :: "manifest world" where
  "run_first = \<lparr>w_now = 0, w_meta = \<lparr>mt_locked_at = Some 0, mt_token = Some 1, mt_hash = None, mt_status = Some Indexing_Status\<rparr>,
     w_files = (\<lambda>_. None), w_lost = {}, w_tokens = {1}, w_builder = (\<lambda>_. Idle)(0 := Indexing 1 0 [(''A'', ''1'')] [(''A'', ''1'')])\<rparr>"

definition run_over :: "manifest world" where
  "run_over = \<lparr>w_now = 9, w_meta = \<lparr>mt_locked_at = Some 9, mt_token = Some 2, mt_hash = None, mt_status = Some Indexing_Status\<rparr>,
     w_files = (\<lambda>_. None), w_lost = {}, w_tokens = {2, 1},
     w_builder = (\<lambda>_. Idle)(0 := Indexing 1 0 [(''A'', ''1'')] [(''A'', ''1'')], 1 := Indexing 2 9 [(''B'', ''1'')] [(''B'', ''1'')])\<rparr>"

lemma run_first: "reachable demo_hash 5 run_first"
proof -
  let ?i = "initial :: manifest world"
  have start: "reachable demo_hash 5 ?i" by (simp add: reachable_def)
  have "reachable demo_hash 5 (?i\<lparr>w_meta := \<lparr>mt_locked_at = Some (w_now ?i), mt_token = Some 1,
      mt_hash = mt_hash (w_meta ?i), mt_status = Some Indexing_Status\<rparr>, w_files := (\<lambda>_. None), w_lost := {},
      w_tokens := insert 1 (w_tokens ?i), w_builder := (w_builder ?i)(0 := Indexing 1 (w_now ?i) [(''A'', ''1'')] [(''A'', ''1'')])\<rparr>)"
    by (rule start_build [where R = "reachable demo_hash 5" and stale = 5, OF reach_same start]) (simp_all add: initial_def empty_meta_def lock_free_def)
  then show ?thesis by (simp add: run_first_def initial_def empty_meta_def)
qed

lemma run_over: "reachable demo_hash 5 run_over"
proof -
  let ?w = "run_first\<lparr>w_now := w_now run_first + 9\<rparr>"
  have start: "reachable demo_hash 5 ?w" by (rule reach_step [OF run_first lock_step.tick])
  have "reachable demo_hash 5 (?w\<lparr>w_meta := \<lparr>mt_locked_at = Some (w_now ?w), mt_token = Some 2,
      mt_hash = mt_hash (w_meta ?w), mt_status = Some Indexing_Status\<rparr>, w_files := (\<lambda>_. None), w_lost := {},
      w_tokens := insert 2 (w_tokens ?w), w_builder := (w_builder ?w)(1 := Indexing 2 (w_now ?w) [(''B'', ''1'')] [(''B'', ''1'')])\<rparr>)"
    by (rule start_build [where R = "reachable demo_hash 5" and stale = 5, OF reach_same start]) (simp_all add: run_first_def lock_free_def)
  then show ?thesis by (simp add: run_over_def run_first_def)
qed

theorem builds_exclusive_witness:
  "overdue 5 (w_now run_over) (w_builder run_over 0) \<or> overdue 5 (w_now run_over) (w_builder run_over 1)"
  by (rule builds_exclusive [OF run_over]) (simp_all add: run_over_def)

theorem lock_recovers_witness:
  "\<exists>w' t. lock_step demo_hash 5 (run_over\<lparr>w_now := w_now run_over + Suc 5\<rparr>) w'
    \<and> w_builder w' 2 = Locked t (w_now run_over + Suc 5) \<and> mt_token (w_meta w') = Some t"
  by (rule lock_recovers [OF run_over]) (simp add: run_over_def)

text \<open>The first build ends after the second has cleared the namespace: the namespace is marked
  ready with the first manifest's hash, and then the second build's file is written over it.\<close>

lemma stale_takeover_corrupts:
  "\<exists>w. reachable demo_hash 5 w \<and> mt_status (w_meta w) = Some Ready \<and> mt_hash (w_meta w) = Some [(''A'', ''1'')]
     \<and> w_files w = [''A'' \<mapsto> ''1'', ''B'' \<mapsto> ''1'']"
proof -
  let ?w1 = "set_files ((w_files run_over)(''A'' \<mapsto> ''1'')) (set_builder 0 (Indexing 1 0 [(''A'', ''1'')] []) run_over)"
  let ?w2 = "set_meta (set_ready (demo_hash [(''A'', ''1'')]) (w_meta ?w1)) (set_builder 0 (Releasing 1 0) ?w1)"
  let ?w3 = "set_files ((w_files ?w2)(''B'' \<mapsto> ''1'')) (set_builder 1 (Indexing 2 9 [(''B'', ''1'')] []) ?w2)"
  have "reachable demo_hash 5 ?w1"
    using lock_step.write_file [of run_over 0 1 0 "[(''A'', ''1'')]" "[(''A'', ''1'')]" "''A''" "''1''"]
    by (intro reach_step [OF run_over]) (simp add: run_over_def)
  then have "reachable demo_hash 5 ?w2"
    by (rule reach_step [OF _ lock_step.complete]) (simp add: world_defs)
  then have "reachable demo_hash 5 ?w3"
    using lock_step.write_file [of ?w2 1 2 9 "[(''B'', ''1'')]" "[(''B'', ''1'')]" "''B''" "''1''"]
    by (elim reach_step) (simp add: world_defs run_over_def)
  then show ?thesis
    by (intro exI [of _ ?w3]) (simp add: world_defs set_ready_def demo_hash_def run_over_def fun_eq_iff)
qed

definition run_ready :: "manifest world" where
  "run_ready = \<lparr>w_now = 0, w_meta = \<lparr>mt_locked_at = Some 0, mt_token = Some 1, mt_hash = Some [(''A'', ''1'')], mt_status = Some Ready\<rparr>,
     w_files = [''A'' \<mapsto> ''1''], w_lost = {}, w_tokens = {1}, w_builder = (\<lambda>_. Idle)(0 := Releasing 1 0)\<rparr>"

definition at_start :: "manifest world \<Rightarrow> bool" where
  "at_start w \<longleftrightarrow> timely_reachable demo_hash 5 w \<and> w_now w = 0"

lemma at_start_step: "at_start w \<Longrightarrow> lock_step demo_hash 5 w w' \<Longrightarrow> w_now w' = w_now w \<Longrightarrow> at_start w'"
  unfolding at_start_def timely_reachable_def
  by (auto simp: timely_def overdue_def split: option.splits intro: rtranclp.rtrancl_into_rtrancl)

lemma run_ready: "timely_reachable demo_hash 5 run_ready"
proof -
  let ?i = "initial :: manifest world"
  have start: "at_start ?i" by (simp add: at_start_def timely_reachable_def initial_def)
  have "at_start (?i\<lparr>w_meta := \<lparr>mt_locked_at = Some (w_now ?i), mt_token = Some 1,
      mt_hash = mt_hash (w_meta ?i), mt_status = Some Indexing_Status\<rparr>, w_files := (\<lambda>_. None), w_lost := {},
      w_tokens := insert 1 (w_tokens ?i), w_builder := (w_builder ?i)(0 := Indexing 1 (w_now ?i) [(''A'', ''1'')] [(''A'', ''1'')])\<rparr>)"
    by (rule start_build [where R = at_start and stale = 5, OF at_start_step start]) (simp_all add: initial_def empty_meta_def lock_free_def)
  then have "at_start run_first" by (simp add: run_first_def initial_def empty_meta_def)
  then have "at_start (set_files ((w_files run_first)(''A'' \<mapsto> ''1'')) (set_builder 0 (Indexing 1 0 [(''A'', ''1'')] []) run_first))"
    using lock_step.write_file [of run_first 0 1 0 "[(''A'', ''1'')]" "[(''A'', ''1'')]" "''A''" "''1''"]
    by (elim at_start_step) (simp_all add: run_first_def world_defs)
  then have "at_start (set_meta (set_ready (demo_hash [(''A'', ''1'')]) (w_meta run_first)) (set_builder 0 (Releasing 1 0)
      (set_files ((w_files run_first)(''A'' \<mapsto> ''1'')) (set_builder 0 (Indexing 1 0 [(''A'', ''1'')] []) run_first))))"
    using lock_step.complete [of "set_files ((w_files run_first)(''A'' \<mapsto> ''1'')) (set_builder 0 (Indexing 1 0 [(''A'', ''1'')] []) run_first)"
        0 1 0 "[(''A'', ''1'')]" demo_hash 5]
    by (elim at_start_step) (simp_all add: world_defs)
  then show ?thesis
    by (simp add: at_start_def world_defs set_ready_def demo_hash_def run_first_def run_ready_def)
qed


text \<open>A file whose extraction raised is missing from a namespace that is ready, and as long as nothing changes every later build is
  skipped: it is not tried again.\<close>

lemma lost_file_not_retried:
  "\<exists>w. reachable demo_hash 5 w \<and> mt_status (w_meta w) = Some Ready \<and> w_files w ''A'' = None
     \<and> mt_hash (w_meta w) = Some (demo_hash [(''A'', ''1'')]) \<and> unchanged demo_hash [(''A'', ''1'')] (w_meta w)"
proof -
  let ?w1 = "set_lost (insert ''A'' (w_lost run_first)) (set_builder 0 (Indexing 1 0 [(''A'', ''1'')] []) run_first)"
  let ?w2 = "set_meta (set_ready (demo_hash [(''A'', ''1'')]) (w_meta ?w1)) (set_builder 0 (Releasing 1 0) ?w1)"
  have "reachable demo_hash 5 ?w1"
    using lock_step.lose_file [of run_first 0 1 0 "[(''A'', ''1'')]" "[(''A'', ''1'')]" "''A''" "''1''"]
    by (intro reach_step [OF run_first]) (simp add: run_first_def)
  then have "reachable demo_hash 5 ?w2"
    by (rule reach_step [OF _ lock_step.complete]) (simp add: world_defs)
  then show ?thesis
    by (intro exI [of _ ?w2]) (simp add: world_defs set_ready_def unchanged_def has_baseline_def run_first_def)
qed

end
