(* ===== verification/Contract.thy ===== *)
theory Contract
  imports Prelude Models "HOL-Library.AList"
begin

text \<open>
  The contract of the summaries a language model returns (\<open>analysis/contract.py\<close>): JSON values, the
  flat wire names and their nesting, and the two validators.  An error is a value: the
  validation errors of the source, and the two places where Python raises another exception.  A
  float is carried as its text, since nothing here reads one.
\<close>

section \<open>JSON values\<close>

datatype json =
    JNull
  | JBool bool
  | JInt int
  | JFloat string
  | JStr string
  | JArr "json list"
  | JObj "(string \<times> json) list"

type_synonym fields = "(string \<times> json) list"

datatype contract_error =
    Not_An_Object
  | No_Array
  | Entry_Not_Object
  | Unhashable
  | Unknown_Id json
  | Duplicate_Id string
  | Missing_Ids "string set"
  | Not_Assignable string
  | Block_Omitted string
  | Index_Out_Of_Range json
  | Duplicate_Index int

definition is_object :: "json \<Rightarrow> bool" where
  "is_object j = (case j of JObj kvs \<Rightarrow> True | _ \<Rightarrow> False)"

section \<open>The wire shape\<close>

definition SUMMARY_REQUIRED :: "string list" where
  "SUMMARY_REQUIRED = [''id'', ''does'', ''contracts'', ''db'', ''touches'', ''source'', ''guards'', ''findings'']"

definition CONTRACTS_REQUIRED :: "string list" where
  "CONTRACTS_REQUIRED = [''may_return_null'', ''null_condition'', ''returns_sentinel'', ''unguarded_calls'',
     ''swallowed_exception_calls'']"

definition DB_REQUIRED :: "string list" where
  "DB_REQUIRED = [''acquires'', ''releases'', ''released_in_finally'', ''executes_sql'', ''sql_is_dynamic'',
     ''resources_leaked'', ''throws_between_acquire_and_release'', ''resource_types'']"

definition SOURCE_REQUIRED :: "string list" where
  "SOURCE_REQUIRED = [''is_entry_point'', ''reads_untrusted'', ''kinds'']"

definition GUARDS_REQUIRED :: "string list" where
  "GUARDS_REQUIRED = [''is_sanitizer'', ''authenticates'', ''authorizes'', ''validates_input'', ''sanitizers_called'']"

definition BLOCK_REQUIRED :: "string \<Rightarrow> string list" where
  "BLOCK_REQUIRED name =
     (if name = ''contracts'' then CONTRACTS_REQUIRED else if name = ''db'' then DB_REQUIRED
      else if name = ''source'' then SOURCE_REQUIRED else if name = ''guards'' then GUARDS_REQUIRED else [])"

lemmas required_defs = BLOCK_REQUIRED_def CONTRACTS_REQUIRED_def DB_REQUIRED_def SOURCE_REQUIRED_def GUARDS_REQUIRED_def
  SUMMARY_REQUIRED_def

definition FLATTEN :: "string \<rightharpoonup> string" where
  "FLATTEN = map_of [(''db'', ''db_''), (''source'', ''src_''), (''guards'', ''guard_''), (''contracts'', ''contract_'')]"

text \<open>The flat names of the schema in order, and where each of them is nested.\<close>

fun flat_names :: "string list \<Rightarrow> (string \<times> (string \<times> string) option) list" where
  "flat_names [] = []"
| "flat_names (name # names) =
     (case FLATTEN name of
        None \<Rightarrow> [(name, None)]
      | Some pre \<Rightarrow> map (\<lambda>sub. (pre @ sub, Some (name, sub))) (BLOCK_REQUIRED name)) @ flat_names names"

definition FLAT_TO_NESTED :: "string \<rightharpoonup> string \<times> string" where
  "FLAT_TO_NESTED k = (case map_of (flat_names SUMMARY_REQUIRED) k of None \<Rightarrow> None | Some target \<Rightarrow> target)"

definition put_nested :: "string \<Rightarrow> string \<Rightarrow> json \<Rightarrow> fields \<Rightarrow> contract_error + fields" where
  "put_nested block sub v out =
     (case map_of out block of
        None \<Rightarrow> Inr (AList.update block (JObj [(sub, v)]) out)
      | Some (JObj inner) \<Rightarrow> Inr (AList.update block (JObj (AList.update sub v inner)) out)
      | Some _ \<Rightarrow> Inl (Not_Assignable block))"

fun nest_items :: "fields \<Rightarrow> fields \<Rightarrow> contract_error + fields" where
  "nest_items [] out = Inr out"
| "nest_items ((k, v) # row) out =
     (case FLAT_TO_NESTED k of
        None \<Rightarrow> nest_items row (AList.update k v out)
      | Some (block, sub) \<Rightarrow>
          (case put_nested block sub v out of Inl e \<Rightarrow> Inl e | Inr out1 \<Rightarrow> nest_items row out1))"

definition nest :: "fields \<Rightarrow> contract_error + fields" where
  "nest row = nest_items row []"

section \<open>Validation of summaries\<close>

text \<open>Membership in a set of strings: a list or an object has no hash, other values are never
  equal to a string.\<close>

definition requested :: "string set \<Rightarrow> json option \<Rightarrow> contract_error + string" where
  "requested expected fid =
     (case fid of
        None \<Rightarrow> Inl (Unknown_Id JNull)
      | Some (JArr xs) \<Rightarrow> Inl Unhashable
      | Some (JObj kvs) \<Rightarrow> Inl Unhashable
      | Some (JStr s) \<Rightarrow> if s \<in> expected then Inr s else Inl (Unknown_Id (JStr s))
      | Some v \<Rightarrow> Inl (Unknown_Id v))"

fun check_rows :: "string set \<Rightarrow> string set \<Rightarrow> json list \<Rightarrow> contract_error + string set" where
  "check_rows expected seen [] = Inr seen"
| "check_rows expected seen (row # rows) =
     (case row of
        JObj kvs \<Rightarrow>
          (case requested expected (map_of kvs ''id'') of
             Inl e \<Rightarrow> Inl e
           | Inr fid \<Rightarrow> if fid \<in> seen then Inl (Duplicate_Id fid) else check_rows expected (insert fid seen) rows)
      | _ \<Rightarrow> Inl Entry_Not_Object)"

fun nest_rows :: "json list \<Rightarrow> contract_error + fields list" where
  "nest_rows [] = Inr []"
| "nest_rows (row # rows) =
     (case row of
        JObj kvs \<Rightarrow>
          (case nest kvs of
             Inl e \<Rightarrow> Inl e
           | Inr r \<Rightarrow> (case nest_rows rows of Inl e \<Rightarrow> Inl e | Inr rs \<Rightarrow> Inr (r # rs)))
      | _ \<Rightarrow> Inl Entry_Not_Object)"

definition SIGNAL_BLOCKS :: "string list" where
  "SIGNAL_BLOCKS = [''source'', ''guards'', ''db'', ''contracts'']"

definition has_block :: "string \<Rightarrow> fields \<Rightarrow> bool" where
  "has_block b r = (case map_of r b of None \<Rightarrow> False | Some v \<Rightarrow> is_object v)"

fun check_blocks :: "string list \<Rightarrow> fields list \<Rightarrow> contract_error option" where
  "check_blocks [] rows = None"
| "check_blocks (b # bs) rows = (if list_all (\<lambda>r. \<not> has_block b r) rows then Some (Block_Omitted b) else check_blocks bs rows)"

definition validate :: "json \<Rightarrow> string list \<Rightarrow> contract_error + fields list" where
  "validate payload expected_ids =
     (case payload of
        JObj kvs \<Rightarrow>
          (case map_of kvs ''summaries'' of
             Some (JArr rows) \<Rightarrow>
               (case check_rows (set expected_ids) {} rows of
                  Inl e \<Rightarrow> Inl e
                | Inr seen \<Rightarrow>
                    if set expected_ids - seen \<noteq> {} then Inl (Missing_Ids (set expected_ids - seen))
                    else (case nest_rows rows of
                            Inl e \<Rightarrow> Inl e
                          | Inr nested \<Rightarrow>
                              (case (if nested = [] then None else check_blocks SIGNAL_BLOCKS nested) of
                                 Some e \<Rightarrow> Inl e | None \<Rightarrow> Inr nested)))
           | _ \<Rightarrow> Inl No_Array)
      | _ \<Rightarrow> Inl Not_An_Object)"

section \<open>Validation of path verdicts\<close>

text \<open>A boolean is an integer in Python.\<close>

definition int_value :: "json option \<Rightarrow> int option" where
  "int_value j = (case j of Some (JInt i) \<Rightarrow> Some i | Some (JBool b) \<Rightarrow> Some (of_bool b) | _ \<Rightarrow> None)"

fun check_verdicts :: "nat \<Rightarrow> int set \<Rightarrow> json list \<Rightarrow> contract_error option" where
  "check_verdicts n seen [] = None"
| "check_verdicts n seen (row # rows) =
     (case row of
        JObj kvs \<Rightarrow>
          (case int_value (map_of kvs ''path_index'') of
             None \<Rightarrow> Some (Index_Out_Of_Range (case map_of kvs ''path_index'' of None \<Rightarrow> JNull | Some v \<Rightarrow> v))
           | Some i \<Rightarrow>
               if \<not> (0 \<le> i \<and> i < int n) then Some (Index_Out_Of_Range (the (map_of kvs ''path_index'')))
               else if i \<in> seen then Some (Duplicate_Index i)
               else check_verdicts n (insert i seen) rows)
      | _ \<Rightarrow> Some Entry_Not_Object)"

definition validate_verdicts :: "json \<Rightarrow> nat \<Rightarrow> contract_error + json list" where
  "validate_verdicts payload path_count =
     (case payload of
        JObj kvs \<Rightarrow>
          (case map_of kvs ''verdicts'' of
             Some (JArr rows) \<Rightarrow> (case check_verdicts path_count {} rows of Some e \<Rightarrow> Inl e | None \<Rightarrow> Inr rows)
           | _ \<Rightarrow> Inl No_Array)
      | _ \<Rightarrow> Inl Not_An_Object)"

section \<open>What an accepted response is\<close>

definition row_ids :: "json list \<Rightarrow> string list \<Rightarrow> bool" where
  "row_ids rows ids = list_all2 (\<lambda>row i. case row of JObj kvs \<Rightarrow> map_of kvs ''id'' = Some (JStr i) | _ \<Rightarrow> False) rows ids"

lemma requested_Inr: "requested expected fid = Inr i \<longleftrightarrow> fid = Some (JStr i) \<and> i \<in> expected"
  by (auto simp: requested_def split: option.splits json.splits)

lemma requested_str: "requested expected (Some (JStr i)) = (if i \<in> expected then Inr i else Inl (Unknown_Id (JStr i)))"
  by (simp add: requested_def)

lemma ex_Cons: "(\<And>xs. P xs \<Longrightarrow> xs \<noteq> []) \<Longrightarrow> (\<exists>x xs. P (x # xs)) \<longleftrightarrow> (\<exists>xs. P xs)"
  by (metis list.exhaust)

lemma check_rows_Inr:
  "check_rows expected seen rows = Inr out \<longleftrightarrow>
     (\<exists>ids. row_ids rows ids \<and> distinct ids \<and> set ids \<subseteq> expected \<and> set ids \<inter> seen = {} \<and> out = seen \<union> set ids)"
proof (induction rows arbitrary: seen)
  case Nil
  show ?case by (auto simp: row_ids_def)
next
  case (Cons row rows)
  have "check_rows expected seen (row # rows) = Inr out \<longleftrightarrow>
      (\<exists>kvs i. row = JObj kvs \<and> map_of kvs ''id'' = Some (JStr i) \<and> i \<in> expected \<and> i \<notin> seen
        \<and> check_rows expected (insert i seen) rows = Inr out)"
    by (cases row) (auto simp: requested_Inr requested_str split: sum.splits)
  also have "\<dots> \<longleftrightarrow> (\<exists>i ids. row_ids (row # rows) (i # ids) \<and> distinct (i # ids) \<and> set (i # ids) \<subseteq> expected
      \<and> set (i # ids) \<inter> seen = {} \<and> out = seen \<union> set (i # ids))"
    unfolding Cons.IH by (cases row) (auto simp: row_ids_def)
  also have "\<dots> \<longleftrightarrow> (\<exists>ids. row_ids (row # rows) ids \<and> distinct ids \<and> set ids \<subseteq> expected
      \<and> set ids \<inter> seen = {} \<and> out = seen \<union> set ids)"
    by (rule ex_Cons) (auto simp: row_ids_def)
  finally show ?case .
qed

definition nested_as :: "json list \<Rightarrow> fields list \<Rightarrow> bool" where
  "nested_as rows out = list_all2 (\<lambda>row r. case row of JObj kvs \<Rightarrow> nest kvs = Inr r | _ \<Rightarrow> False) rows out"

lemma nest_rows_Inr: "nest_rows rows = Inr out \<longleftrightarrow> nested_as rows out"
proof (induction rows arbitrary: out)
  case (Cons row rows)
  have "nest_rows (row # rows) = Inr out \<longleftrightarrow>
      (\<exists>kvs r rs. row = JObj kvs \<and> nest kvs = Inr r \<and> nest_rows rows = Inr rs \<and> out = r # rs)"
    by (cases row) (auto split: sum.splits)
  then show ?case unfolding Cons.IH nested_as_def
    by (cases row) (auto simp: list_all2_Cons1)
qed (auto simp: nested_as_def)

lemma check_blocks_None: "check_blocks bs rows = None \<longleftrightarrow> list_all (\<lambda>b. list_ex (has_block b) rows) bs"
  by (induction bs) (auto simp: list_all_iff list_ex_iff)

text \<open>A response is accepted exactly when it holds one object per requested function and no
  other, and every signal block is present in some summary; what is returned is each row in its
  nested shape, in the order of the response.\<close>

theorem validate_exact:
  "validate payload expected_ids = Inr out \<longleftrightarrow>
     (\<exists>kvs rows. payload = JObj kvs \<and> map_of kvs ''summaries'' = Some (JArr rows)
        \<and> (\<exists>ids. row_ids rows ids \<and> distinct ids \<and> set ids = set expected_ids) \<and> nested_as rows out
        \<and> (out = [] \<or> list_all (\<lambda>b. list_ex (has_block b) out) SIGNAL_BLOCKS))"
proof -
  have ids: "(\<exists>seen. check_rows (set expected_ids) {} rows = Inr seen \<and> set expected_ids - seen = {})
      \<longleftrightarrow> (\<exists>ids. row_ids rows ids \<and> distinct ids \<and> set ids = set expected_ids)" for rows
    unfolding check_rows_Inr by (auto simp: subset_antisym)
  have "validate payload expected_ids = Inr out \<longleftrightarrow>
      (\<exists>kvs rows. payload = JObj kvs \<and> map_of kvs ''summaries'' = Some (JArr rows)
        \<and> (\<exists>seen. check_rows (set expected_ids) {} rows = Inr seen \<and> set expected_ids - seen = {})
        \<and> nest_rows rows = Inr out \<and> (out = [] \<or> check_blocks SIGNAL_BLOCKS out = None))"
    unfolding validate_def by (auto split: json.splits option.splits sum.splits if_splits)
  then show ?thesis unfolding ids nest_rows_Inr check_blocks_None .
qed

section \<open>Nesting\<close>

lemma flat_names_mem:
  "b \<in> set names \<Longrightarrow> FLATTEN b = Some pre \<Longrightarrow> sub \<in> set (BLOCK_REQUIRED b)
     \<Longrightarrow> (pre @ sub, Some (b, sub)) \<in> set (flat_names names)"
  by (induction names) auto

lemma flat_names_distinct: "distinct (map fst (flat_names SUMMARY_REQUIRED))"
  by code_simp

lemma flat_fields:
  assumes "sub \<in> set (BLOCK_REQUIRED b)" "FLATTEN b = Some pre"
  shows "FLAT_TO_NESTED (pre @ sub) = Some (b, sub)"
proof -
  have "b \<in> set SUMMARY_REQUIRED"
    using assms(1) by (simp add: BLOCK_REQUIRED_def SUMMARY_REQUIRED_def split: if_splits)
  from map_of_is_SomeI [OF flat_names_distinct flat_names_mem [OF this assms(2,1)]]
  show ?thesis by (simp add: FLAT_TO_NESTED_def)
qed

text \<open>The flat row of a summary.\<close>

fun flatten_row :: "fields \<Rightarrow> fields" where
  "flatten_row [] = []"
| "flatten_row ((k, v) # s) =
     (case (FLATTEN k, v) of
        (Some pre, JObj inner) \<Rightarrow> map (\<lambda>(sub, x). (pre @ sub, x)) inner
      | _ \<Rightarrow> [(k, v)]) @ flatten_row s"

text \<open>A summary in the nested shape: each block an object with fields of the schema, anything else
  under a name that is not a flat one.\<close>

definition nested_field :: "string \<times> json \<Rightarrow> bool" where
  "nested_field kv = (case FLATTEN (fst kv) of
      None \<Rightarrow> FLAT_TO_NESTED (fst kv) = None
    | Some pre \<Rightarrow> (case snd kv of JObj inner \<Rightarrow> inner \<noteq> [] \<and> distinct (map fst inner)
          \<and> fst ` set inner \<subseteq> set (BLOCK_REQUIRED (fst kv)) | _ \<Rightarrow> False))"

definition nested_summary :: "fields \<Rightarrow> bool" where
  "nested_summary s = (distinct (map fst s) \<and> list_all nested_field s)"

lemma update_fresh: "k \<notin> fst ` set al \<Longrightarrow> AList.update k v al = al @ [(k, v)]"
  by (induction al) auto

lemma update_last: "k \<notin> fst ` set al \<Longrightarrow> AList.update k w (al @ [(k, v)]) = al @ [(k, w)]"
  by (induction al) auto

lemma map_of_snoc: "k \<notin> fst ` set al \<Longrightarrow> map_of (al @ [(k, v)]) k = Some v"
  using map_of_eq_None_iff [of al k] by (simp add: map_add_def)

lemma nest_block:
  assumes "FLATTEN b = Some pre" "fst ` set inner \<subseteq> set (BLOCK_REQUIRED b)" "b \<notin> fst ` set out"
    "distinct (map fst (done @ inner))" "done \<noteq> []"
  shows "nest_items (map (\<lambda>(sub, x). (pre @ sub, x)) inner @ rest) (out @ [(b, JObj done)])
    = nest_items rest (out @ [(b, JObj (done @ inner))])"
  using assms
proof (induction inner arbitrary: "done")
  case (Cons sx inner)
  obtain sub x where sx: "sx = (sub, x)" by (cases sx)
  have "put_nested b sub x (out @ [(b, JObj done)]) = Inr (out @ [(b, JObj (done @ [(sub, x)]))])"
    using Cons.prems sx by (simp add: put_nested_def map_of_snoc update_last update_fresh del: map_of_append)
  moreover have "FLAT_TO_NESTED (pre @ sub) = Some (b, sub)" using Cons.prems(1,2) sx by (intro flat_fields) auto
  ultimately show ?case using Cons.IH [of "done @ [(sub, x)]"] Cons.prems sx by simp
qed simp

lemma nest_items_flatten:
  "nested_summary s \<Longrightarrow> fst ` set s \<inter> fst ` set out = {} \<Longrightarrow> nest_items (flatten_row s) out = Inr (out @ s)"
proof (induction s arbitrary: out)
  case (Cons kv s)
  obtain k v where kv: "kv = (k, v)" by (cases kv)
  have IH: "nest_items (flatten_row s) (out @ [(k, v)]) = Inr (out @ (k, v) # s)"
    using Cons.IH [of "out @ [(k, v)]"] Cons.prems kv by (auto simp: nested_summary_def)
  show ?case
  proof (cases "FLATTEN k")
    case None
    then have "FLAT_TO_NESTED k = None" using Cons.prems(1) kv by (simp add: nested_summary_def nested_field_def)
    with IH None Cons.prems(2) kv show ?thesis by (simp add: update_fresh)
  next
    case (Some pre)
    then obtain inner where v: "v = JObj inner" "inner \<noteq> []" "distinct (map fst inner)"
        "fst ` set inner \<subseteq> set (BLOCK_REQUIRED k)"
      using Cons.prems(1) kv by (auto simp: nested_summary_def nested_field_def split: json.splits)
    obtain sub x more where inner: "inner = (sub, x) # more" using v(2) by (cases inner) auto
    have "put_nested k sub x out = Inr (out @ [(k, JObj [(sub, x)])])"
      using Cons.prems(2) kv update_fresh [of k out] map_of_eq_None_iff [of out k] by (simp add: put_nested_def)
    moreover have "nest_items (map (\<lambda>(sub, x). (pre @ sub, x)) more @ flatten_row s) (out @ [(k, JObj [(sub, x)])])
        = nest_items (flatten_row s) (out @ [(k, JObj ([(sub, x)] @ more))])"
      by (rule nest_block [OF Some]) (use v inner Cons.prems(2) kv in auto)
    moreover have "FLAT_TO_NESTED (pre @ sub) = Some (k, sub)" using Some v(4) inner by (intro flat_fields) auto
    ultimately show ?thesis using IH v inner Some kv by simp
  qed
qed simp

text \<open>Nesting undoes the flat wire names: from the flat row of a summary it rebuilds exactly that
  summary, every field under its block and in its order.\<close>

theorem nest_flatten:
  assumes "nested_summary s"
  shows "nest (flatten_row s) = Inr s"
  using nest_items_flatten [OF assms, of "[]"] by (simp add: nest_def)

theorem nest_flatten_witness:
  "nest [(''id'', JStr ''f''), (''db_acquires'', JBool True), (''db_releases'', JBool False), (''src_kinds'', JArr [])]
     = Inr [(''id'', JStr ''f''), (''db'', JObj [(''acquires'', JBool True), (''releases'', JBool False)]),
            (''source'', JObj [(''kinds'', JArr [])])]"
  using nest_flatten [of "[(''id'', JStr ''f''), (''db'', JObj [(''acquires'', JBool True), (''releases'', JBool False)]),
      (''source'', JObj [(''kinds'', JArr [])])]"]
  by (simp add: nested_summary_def nested_field_def FLATTEN_def FLAT_TO_NESTED_def required_defs)

section \<open>Verdicts\<close>

definition verdict_indices :: "json list \<Rightarrow> int list \<Rightarrow> bool" where
  "verdict_indices rows is = list_all2 (\<lambda>row i. case row of JObj kvs \<Rightarrow> int_value (map_of kvs ''path_index'') = Some i | _ \<Rightarrow> False) rows is"

lemma check_verdicts_None:
  "check_verdicts n seen rows = None \<longleftrightarrow>
     (\<exists>is. verdict_indices rows is \<and> distinct is \<and> set is \<subseteq> {0 ..< int n} \<and> set is \<inter> seen = {})"
proof (induction rows arbitrary: seen)
  case Nil
  show ?case by (auto simp: verdict_indices_def)
next
  case (Cons row rows)
  have "check_verdicts n seen (row # rows) = None \<longleftrightarrow>
      (\<exists>kvs i. row = JObj kvs \<and> int_value (map_of kvs ''path_index'') = Some i \<and> i \<in> {0 ..< int n} \<and> i \<notin> seen
        \<and> check_verdicts n (insert i seen) rows = None)"
    by (cases row) (auto split: option.splits)
  also have "\<dots> \<longleftrightarrow> (\<exists>i is. verdict_indices (row # rows) (i # is) \<and> distinct (i # is) \<and> set (i # is) \<subseteq> {0 ..< int n}
      \<and> set (i # is) \<inter> seen = {})"
    unfolding Cons.IH by (cases row) (auto simp: verdict_indices_def)
  also have "\<dots> \<longleftrightarrow> (\<exists>is. verdict_indices (row # rows) is \<and> distinct is \<and> set is \<subseteq> {0 ..< int n} \<and> set is \<inter> seen = {})"
    by (rule ex_Cons) (auto simp: verdict_indices_def)
  finally show ?case .
qed

text \<open>A response with path verdicts is accepted exactly when every verdict names a path that was
  sent, by its number, and no path twice; it is returned unchanged, with no verdict for a path left
  out allowed.\<close>

theorem validate_verdicts_exact:
  "validate_verdicts payload path_count = Inr out \<longleftrightarrow>
     (\<exists>kvs is. payload = JObj kvs \<and> map_of kvs ''verdicts'' = Some (JArr out)
        \<and> verdict_indices out is \<and> distinct is \<and> set is \<subseteq> {0 ..< int path_count})"
proof -
  have "validate_verdicts payload path_count = Inr out \<longleftrightarrow>
      (\<exists>kvs. payload = JObj kvs \<and> map_of kvs ''verdicts'' = Some (JArr out) \<and> check_verdicts path_count {} out = None)"
    unfolding validate_verdicts_def by (auto split: json.splits option.splits)
  then show ?thesis unfolding check_verdicts_None by simp
qed

lemma validate_raises:
  "validate (JObj [(''summaries'', JArr [JObj [(''id'', JArr [])]])]) [''f''] = Inl Unhashable"
  "validate (JObj [(''summaries'', JArr [JObj [(''id'', JStr ''f''), (''db'', JNull), (''db_acquires'', JBool True)]])]) [''f'']
     = Inl (Not_Assignable ''db'')"
  by (simp_all add: validate_def requested_def nest_def FLAT_TO_NESTED_def FLATTEN_def required_defs put_nested_def)

end
