(* ===== verification/Reach.thy ===== *)
theory Reach
  imports Prelude
begin

text \<open>
  The reachability marks of the analysis (\<open>analysis/reach.py\<close>): which functions can reach a
  dangerous operation, which kinds of it, and which are reachable from an entry point.  Each
  query is a step on the marks of one repository: it reads the marks as they were before it,
  and returns how many functions it set.  Lists of kinds are read as sets, the only thing the
  queries ask of them.
\<close>

section \<open>The graph\<close>

record function_node =
  fn_external_kinds :: "string set"
  fn_summary :: "string option"
  fn_summary_fresh :: bool
  fn_taint_categories :: "string list"
  fn_taint_source :: bool
  fn_annotations :: "string set"
  fn_exposes :: bool
  fn_lang :: string
  fn_name :: string
  fn_sig_entry :: bool

record call_graph =
  cg_ids :: "string set"
  cg_node :: "string \<Rightarrow> function_node"
  cg_calls :: "(string \<times> string \<times> string) set"

definition trusted_strategy :: "string \<Rightarrow> bool" where
  "trusted_strategy s \<longleftrightarrow> s = ''bytecode'' \<or> py_startswith s ''receiver_type'' \<or> py_startswith s ''same_''"

definition trusted :: "call_graph \<Rightarrow> (string \<times> string) set" where
  "trusted g = (\<lambda>(a, s, b). (a, b)) ` Set.filter (\<lambda>(a, s, b). trusted_strategy s \<and> a \<in> cg_ids g \<and> b \<in> cg_ids g) (cg_calls g)"

section \<open>Marks\<close>

record marks =
  mk_sink :: "string set"
  mk_direct :: "string \<Rightarrow> string set"
  mk_kinds :: "string \<Rightarrow> string set"
  mk_entry :: "string set"

definition clear_marks :: marks where
  "clear_marks = \<lparr>mk_sink = {}, mk_direct = (\<lambda>_. {}), mk_kinds = (\<lambda>_. {}), mk_entry = {}\<rparr>"

definition DANGEROUS_KINDS :: "string set" where
  "DANGEROUS_KINDS = {''db_execute'', ''db_other'', ''exec'', ''file_write'', ''deserialize'', ''response'', ''reflection''}"

definition SUMMARY_SINKS :: "string list" where
  "SUMMARY_SINKS = [''sql'', ''exec'', ''file'', ''deserialize'', ''response'', ''reflection'']"

definition ENTRY_ANNOTATIONS :: "string set" where
  "ENTRY_ANNOTATIONS = {''WebService'', ''WebMethod'', ''Path'', ''GET'', ''POST'', ''PUT'', ''DELETE'', ''RequestMapping'',
     ''GetMapping'', ''PostMapping'', ''PutMapping'', ''DeleteMapping'', ''RestController'', ''Controller''}"

definition CATEGORY_TO_KIND :: "string \<Rightarrow> string" where
  "CATEGORY_TO_KIND c =
     (if c = ''CWE-78/command-injection'' then ''exec'' else if c = ''CWE-94/code-injection'' then ''exec''
      else if c = ''CWE-22/path-traversal'' then ''file_write'' else if c = ''CWE-502/unsafe-deserialization'' then ''deserialize''
      else if c = ''CWE-79/xss'' then ''response'' else if c = ''CWE-113/response-splitting'' then ''response''
      else if c = ''CWE-89/sql-injection'' then ''db_execute'' else if c = ''CWE-943/nosql-injection'' then ''db_execute''
      else ''taint_sink'')"

definition text_contains :: "string \<Rightarrow> string \<Rightarrow> bool" where
  "text_contains s part = list_ex (\<lambda>t. take (length part) t = part) (suffixes s)"

definition reports_sink :: "function_node \<Rightarrow> bool" where
  "reports_sink f =
     (case fn_summary f of
        None \<Rightarrow> False
      | Some t \<Rightarrow> fn_summary_fresh f \<and> list_ex (\<lambda>k. text_contains t (CHR 0x22 # k @ [CHR 0x22])) SUMMARY_SINKS)"

section \<open>Iteration to a fixpoint\<close>

text \<open>One hop: the functions not yet marked that have an edge into the marked ones.\<close>

definition hop :: "(string \<times> string) set \<Rightarrow> string set \<Rightarrow> string set" where
  "hop e marked = fst ` Set.filter (\<lambda>(a, b). b \<in> marked) e - marked"

text \<open>The loop with its guard: rounds made, functions marked on the way, whether it stopped by
  itself, and the marks.\<close>

fun spread :: "nat \<Rightarrow> (string \<times> string) set \<Rightarrow> string set \<Rightarrow> nat \<times> nat \<times> bool \<times> string set" where
  "spread 0 e marked = (0, 0, False, marked)"
| "spread (Suc n) e marked =
     (let new = hop e marked in
      if new = {} then (1, 0, True, marked)
      else (case spread n e (marked \<union> new) of (i, t, done, m) \<Rightarrow> (Suc i, card new + t, done, m)))"

definition MAX_ITERATIONS :: nat where
  "MAX_ITERATIONS = 50"

record reach_report =
  rr_graph_seeds :: nat
  rr_summary_seeds :: nat
  rr_catalog_seeds :: nat
  rr_propagated :: nat
  rr_total_marked :: nat
  rr_iterations :: nat
  rr_converged :: bool

definition graph_seeds :: "call_graph \<Rightarrow> string set \<Rightarrow> string set" where
  "graph_seeds g kinds = Set.filter (\<lambda>f. fn_external_kinds (cg_node g f) \<inter> kinds \<noteq> {}) (cg_ids g)"

definition summary_seeds :: "call_graph \<Rightarrow> string set" where
  "summary_seeds g = Set.filter (\<lambda>f. reports_sink (cg_node g f)) (cg_ids g)"

definition catalog_seeds :: "call_graph \<Rightarrow> string set" where
  "catalog_seeds g = Set.filter (\<lambda>f. fn_taint_categories (cg_node g f) \<noteq> []) (cg_ids g)"

definition mark_reaches_sink :: "call_graph \<Rightarrow> string set \<Rightarrow> bool \<Rightarrow> marks \<Rightarrow> marks \<times> reach_report" where
  "mark_reaches_sink g kinds use_summaries m =
     (let s1 = graph_seeds g kinds;
          m1 = m\<lparr>mk_sink := mk_sink m \<union> s1,
                 mk_direct := (\<lambda>f. if f \<in> s1 then fn_external_kinds (cg_node g f) \<inter> kinds else mk_direct m f)\<rparr>;
          s2 = (if use_summaries then summary_seeds g - mk_sink m1 else {});
          m2 = m1\<lparr>mk_sink := mk_sink m1 \<union> s2\<rparr>;
          s3 = catalog_seeds g - mk_sink m2;
          m3 = m2\<lparr>mk_sink := mk_sink m2 \<union> s3,
                  mk_direct := (\<lambda>f. if f \<in> s3 then CATEGORY_TO_KIND ` set (fn_taint_categories (cg_node g f)) else mk_direct m2 f)\<rparr>;
          (i, t, done, marked) = spread MAX_ITERATIONS (trusted g) (mk_sink m3)
      in (m3\<lparr>mk_sink := marked\<rparr>,
          \<lparr>rr_graph_seeds = card s1, rr_summary_seeds = card s2, rr_catalog_seeds = card s3, rr_propagated = t,
           rr_total_marked = card marked, rr_iterations = i, rr_converged = done\<rparr>))"

section \<open>Kinds\<close>

text \<open>One round: every caller takes over the kinds of its callees, as they were before the round.\<close>

definition callee_kinds :: "(string \<times> string) set \<Rightarrow> (string \<Rightarrow> string set) \<Rightarrow> string \<Rightarrow> string set" where
  "callee_kinds e k f = \<Union> ((\<lambda>(a, b). k b) ` Set.filter (\<lambda>(a, b). a = f) e)"

definition grown :: "(string \<times> string) set \<Rightarrow> (string \<Rightarrow> string set) \<Rightarrow> string set" where
  "grown e k = Set.filter (\<lambda>f. \<not> callee_kinds e k f \<subseteq> k f) (fst ` e)"

definition merge_kinds :: "(string \<times> string) set \<Rightarrow> (string \<Rightarrow> string set) \<Rightarrow> string \<Rightarrow> string set" where
  "merge_kinds e k f = (if f \<in> grown e k then k f \<union> callee_kinds e k f else k f)"

fun spread_kinds :: "nat \<Rightarrow> (string \<times> string) set \<Rightarrow> (string \<Rightarrow> string set) \<Rightarrow> nat \<times> nat \<times> bool \<times> (string \<Rightarrow> string set)" where
  "spread_kinds 0 e k = (0, 0, False, k)"
| "spread_kinds (Suc n) e k =
     (if grown e k = {} then (1, 0, True, k)
      else (case spread_kinds n e (merge_kinds e k) of (i, t, done, k') \<Rightarrow> (Suc i, card (grown e k) + t, done, k')))"

definition mark_reaches_sink_kinds :: "call_graph \<Rightarrow> marks \<Rightarrow> marks \<times> nat \<times> bool" where
  "mark_reaches_sink_kinds g m =
     (let seeded = (\<lambda>f. if f \<in> cg_ids g \<and> mk_kinds m f = {} then mk_direct m f else mk_kinds m f);
          (i, t, done, k) = spread_kinds MAX_ITERATIONS (trusted g) seeded
      in (m\<lparr>mk_kinds := k\<rparr>, i, done))"

section \<open>Entry points and the universe\<close>

definition annotated :: "call_graph \<Rightarrow> string set \<Rightarrow> string set" where
  "annotated g annos = Set.filter (\<lambda>f. fn_annotations (cg_node g f) \<inter> annos \<noteq> {}) (cg_ids g)"

definition exposed :: "call_graph \<Rightarrow> string set" where
  "exposed g = Set.filter (\<lambda>f. fn_exposes (cg_node g f)) (cg_ids g)"

definition jsp_services :: "call_graph \<Rightarrow> string set" where
  "jsp_services g = Set.filter (\<lambda>f. fn_lang (cg_node g f) = ''jsp'' \<and> fn_name (cg_node g f) = ''_jspService'') (cg_ids g)"

definition catalog_entries :: "call_graph \<Rightarrow> string set" where
  "catalog_entries g = Set.filter (\<lambda>f. fn_taint_source (cg_node g f)) (cg_ids g)"

definition model_entries :: "call_graph \<Rightarrow> string set" where
  "model_entries g = Set.filter (\<lambda>f. fn_sig_entry (cg_node g f)) (cg_ids g)"

record entry_report =
  er_annotated :: nat
  er_exposed :: nat
  er_jsp :: nat
  er_catalog :: nat
  er_model :: nat
  er_propagated :: nat
  er_total_marked :: nat
  er_iterations :: nat
  er_converged :: bool

definition mark_from_entry :: "call_graph \<Rightarrow> string set \<Rightarrow> marks \<Rightarrow> marks \<times> entry_report" where
  "mark_from_entry g annos m =
     (let s1 = annotated g annos; e1 = mk_entry m \<union> s1;
          s2 = exposed g - e1; e2 = e1 \<union> s2;
          s3 = jsp_services g - e2; e3 = e2 \<union> s3;
          s4 = catalog_entries g - e3; e4 = e3 \<union> s4;
          s5 = model_entries g - e4; e5 = e4 \<union> s5;
          (i, t, done, marked) = spread MAX_ITERATIONS ((trusted g)\<inverse>) e5
      in (m\<lparr>mk_entry := marked\<rparr>,
          \<lparr>er_annotated = card s1, er_exposed = card s2, er_jsp = card s3, er_catalog = card s4, er_model = card s5,
           er_propagated = t, er_total_marked = card marked, er_iterations = i, er_converged = done\<rparr>))"

definition universe :: "call_graph \<Rightarrow> marks \<Rightarrow> string set" where
  "universe g m = Set.filter (\<lambda>f. f \<in> mk_sink m \<and> f \<in> mk_entry m) (cg_ids g)"

definition mark_all :: "call_graph \<Rightarrow> string set \<Rightarrow> marks \<times> reach_report \<times> bool \<times> entry_report" where
  "mark_all g kinds =
     (let (m1, sink) = mark_reaches_sink g kinds True clear_marks;
          (m2, i, done) = mark_reaches_sink_kinds g m1;
          (m3, entry) = mark_from_entry g ENTRY_ANNOTATIONS m2
      in (m3, sink, done, entry))"

section \<open>What the loops compute\<close>

definition within :: "nat \<Rightarrow> (string \<times> string) set \<Rightarrow> string set \<Rightarrow> string set" where
  "within n e x = {a. \<exists>k \<le> n. \<exists>b \<in> x. (a, b) \<in> e ^^ k}"

lemma hop_preimage: "hop e x = e\<inverse> `` x - x"
  by (force simp: hop_def image_iff)

lemma closed_relpow: "e\<inverse> `` x \<subseteq> x \<Longrightarrow> (a, b) \<in> e ^^ k \<Longrightarrow> b \<in> x \<Longrightarrow> a \<in> x"
  by (induction k arbitrary: b) auto

lemma within_start: "x \<subseteq> within n e x"
proof
  fix a assume "a \<in> x"
  moreover have "(a, a) \<in> e ^^ 0" "0 \<le> n" by simp_all
  ultimately show "a \<in> within n e x" unfolding within_def by blast
qed

lemma closed_within:
  assumes "e\<inverse> `` x \<subseteq> x"
  shows "within n e x = x"
proof
  show "within n e x \<subseteq> x"
  proof
    fix a assume "a \<in> within n e x"
    then obtain k b where "b \<in> x" "(a, b) \<in> e ^^ k" by (auto simp: within_def)
    with closed_relpow [OF assms] show "a \<in> x" by simp
  qed
qed (rule within_start)

lemma within_Suc: "within (Suc n) e x = within n e (x \<union> e\<inverse> `` x)"
proof
  show "within (Suc n) e x \<subseteq> within n e (x \<union> e\<inverse> `` x)"
  proof
    fix a assume "a \<in> within (Suc n) e x"
    then obtain k b where k: "k \<le> Suc n" "b \<in> x" "(a, b) \<in> e ^^ k" by (auto simp: within_def)
    show "a \<in> within n e (x \<union> e\<inverse> `` x)"
    proof (cases k)
      case 0
      with k show ?thesis by (auto simp: within_def intro!: exI [of _ 0])
    next
      case (Suc j)
      with k obtain c where "(a, c) \<in> e ^^ j" "(c, b) \<in> e" by auto
      with k Suc show ?thesis by (auto simp: within_def intro!: exI [of _ j])
    qed
  qed
  show "within n e (x \<union> e\<inverse> `` x) \<subseteq> within (Suc n) e x"
  proof
    fix a assume "a \<in> within n e (x \<union> e\<inverse> `` x)"
    then obtain k b where k: "k \<le> n" "b \<in> x \<or> b \<in> e\<inverse> `` x" "(a, b) \<in> e ^^ k" by (auto simp: within_def)
    from k(2) show "a \<in> within (Suc n) e x"
    proof
      assume "b \<in> e\<inverse> `` x"
      then obtain c where "c \<in> x" "(b, c) \<in> e" by auto
      with k have "(a, c) \<in> e ^^ Suc k" "c \<in> x" by auto
      with k show ?thesis unfolding within_def by (metis (mono_tags, lifting) Suc_le_mono mem_Collect_eq)
    next
      assume "b \<in> x"
      with k(1,3) show ?thesis unfolding within_def using le_SucI by blast
    qed
  qed
qed

lemma spread_within: "snd (snd (snd (spread n e x))) = within n e x"
proof (induction n arbitrary: x)
  case 0
  show ?case by (auto simp: within_def)
next
  case (Suc n)
  show ?case
  proof (cases "hop e x = {}")
    case True
    then have "e\<inverse> `` x \<subseteq> x" by (auto simp: hop_preimage)
    with True show ?thesis by (simp add: closed_within)
  next
    case False
    have "x \<union> hop e x = x \<union> e\<inverse> `` x" by (auto simp: hop_preimage)
    with False Suc [of "x \<union> hop e x"] show ?thesis
      by (cases "spread n e (x \<union> hop e x)") (simp add: within_Suc Let_def)
  qed
qed

lemma spread_closed: "spread n e x = (i, t, True, m) \<Longrightarrow> e\<inverse> `` m \<subseteq> m"
proof (induction n arbitrary: x i t)
  case (Suc n)
  show ?case
  proof (cases "hop e x = {}")
    case True
    with Suc.prems show ?thesis by (auto simp: hop_preimage)
  next
    case False
    with Suc show ?thesis by (auto simp: Let_def split: prod.splits)
  qed
qed simp

lemma within_closure:
  assumes "e\<inverse> `` within n e x \<subseteq> within n e x"
  shows "within n e x = {a. \<exists>b \<in> x. (a, b) \<in> e\<^sup>*}"
proof
  show "within n e x \<subseteq> {a. \<exists>b \<in> x. (a, b) \<in> e\<^sup>*}"
    by (auto simp: within_def dest: relpow_imp_rtrancl)
  show "{a. \<exists>b \<in> x. (a, b) \<in> e\<^sup>*} \<subseteq> within n e x"
    using closed_relpow [OF assms] within_start [of x n e] by (blast dest: rtrancl_imp_relpow)
qed

lemma spread_converged:
  assumes "spread n e x = (i, t, True, m)"
  shows "m = {a. \<exists>b \<in> x. (a, b) \<in> e\<^sup>*}"
  using within_closure [of e n x] spread_closed [OF assms] spread_within [of n e x] assms by simp

lemma spread_count:
  assumes "finite e" "finite x"
  shows "case spread n e x of (i, t, done, m) \<Rightarrow> finite m \<and> x \<subseteq> m \<and> card m = card x + t \<and> i \<le> n"
  using assms(2)
proof (induction n arbitrary: x)
  case (Suc n)
  have "finite (hop e x)" using assms(1) by (simp add: hop_def)
  moreover have "x \<inter> hop e x = {}" by (auto simp: hop_preimage)
  ultimately have "card (x \<union> hop e x) = card x + card (hop e x)" "finite (x \<union> hop e x)"
    using Suc.prems by (simp_all add: card_Un_disjoint)
  with Suc.IH [of "x \<union> hop e x"] Suc.prems show ?case by (auto simp: Let_def split: prod.splits)
qed simp

text \<open>The guard is high enough as soon as every function that reaches a marked one does so in fewer
  steps.\<close>

lemma spread_enough:
  assumes "within n e x = within (Suc n) e x"
  shows "\<exists>i t m. spread (Suc n) e x = (i, t, True, m)"
  using assms
proof (induction n arbitrary: x)
  case 0
  then have "hop e x = {}" using within_Suc [of 0 e x] by (auto simp: within_def hop_preimage)
  then show ?case by (simp add: Let_def)
next
  case (Suc n)
  show ?case
  proof (cases "hop e x = {}")
    case False
    have "x \<union> hop e x = x \<union> e\<inverse> `` x" by (auto simp: hop_preimage)
    with Suc.prems have "within n e (x \<union> hop e x) = within (Suc n) e (x \<union> hop e x)" by (simp add: within_Suc)
    from Suc.IH [OF this] False show ?thesis by (auto simp: Let_def simp del: spread.simps(2) simp: spread.simps(2) [of "Suc n" e x])
  qed (simp add: Let_def)
qed

section \<open>Kinds as a union over reachable functions\<close>

definition kinds_within :: "nat \<Rightarrow> (string \<times> string) set \<Rightarrow> (string \<Rightarrow> string set) \<Rightarrow> string \<Rightarrow> string set" where
  "kinds_within n e k f = {x. \<exists>j \<le> n. \<exists>b. (f, b) \<in> e ^^ j \<and> x \<in> k b}"

lemma callee_kinds_mem: "x \<in> callee_kinds e k f \<longleftrightarrow> (\<exists>b. (f, b) \<in> e \<and> x \<in> k b)"
  by (force simp: callee_kinds_def)

lemma merge_kinds_union: "merge_kinds e k f = k f \<union> callee_kinds e k f"
  by (force simp: merge_kinds_def grown_def callee_kinds_mem)

text \<open>A kind spreads like a mark: along the edges into the functions that have it.\<close>

lemma kinds_within_marks: "x \<in> kinds_within n e k f \<longleftrightarrow> f \<in> within n e {b. x \<in> k b}"
  by (auto simp: kinds_within_def within_def)

lemma merge_preimage: "{b. x \<in> merge_kinds e k b} = {b. x \<in> k b} \<union> e\<inverse> `` {b. x \<in> k b}"
  by (auto simp: merge_kinds_union callee_kinds_mem)

lemma grown_empty: "grown e k = {} \<Longrightarrow> e\<inverse> `` {b. x \<in> k b} \<subseteq> {b. x \<in> k b}"
proof
  fix f assume "grown e k = {}" and f: "f \<in> e\<inverse> `` {b. x \<in> k b}"
  then have "f \<in> fst ` e" "x \<in> callee_kinds e k f" by (force simp: callee_kinds_mem)+
  moreover have "f \<in> grown e k" if "f \<in> fst ` e" "\<not> callee_kinds e k f \<subseteq> k f" using that by (simp add: grown_def)
  ultimately show "f \<in> {b. x \<in> k b}" using \<open>grown e k = {}\<close> by blast
qed

lemma spread_kinds_within: "snd (snd (snd (spread_kinds n e k))) = kinds_within n e k"
proof (induction n arbitrary: k)
  case 0
  show ?case by (auto simp: kinds_within_def fun_eq_iff)
next
  case (Suc n)
  show ?case
  proof (cases "grown e k = {}")
    case True
    have "x \<in> kinds_within (Suc n) e k f \<longleftrightarrow> x \<in> k f" for x f
      using closed_within [OF grown_empty [OF True, of x]] by (simp add: kinds_within_marks)
    with True show ?thesis by (auto simp: fun_eq_iff)
  next
    case False
    have "x \<in> kinds_within (Suc n) e k f \<longleftrightarrow> x \<in> kinds_within n e (merge_kinds e k) f" for x f
      by (simp add: kinds_within_marks within_Suc merge_preimage)
    then have "kinds_within (Suc n) e k = kinds_within n e (merge_kinds e k)" by (auto simp: fun_eq_iff)
    with False Suc [of "merge_kinds e k"] show ?thesis
      by (cases "spread_kinds n e (merge_kinds e k)") simp
  qed
qed

lemma spread_kinds_closed: "spread_kinds n e k = (i, t, True, k') \<Longrightarrow> grown e k' = {}"
proof (induction n arbitrary: k i t)
  case (Suc n)
  then show ?case by (cases "grown e k = {}") (auto split: prod.splits)
qed simp

lemma relpow_back: "(a, b) \<in> (e\<inverse>) ^^ k \<longleftrightarrow> (b, a) \<in> e ^^ k" for e :: "(string \<times> string) set"
proof (induction k arbitrary: b)
  case (Suc k)
  have "(a, b) \<in> (e\<inverse>) ^^ Suc k \<longleftrightarrow> (b, a) \<in> e O e ^^ k" using Suc by auto
  then show ?case by (simp add: relpow_commute)
qed auto

section \<open>The marks\<close>

definition sink_seeds :: "call_graph \<Rightarrow> string set \<Rightarrow> string set" where
  "sink_seeds g kinds = graph_seeds g kinds \<union> summary_seeds g \<union> catalog_seeds g"

definition entry_seeds :: "call_graph \<Rightarrow> string set \<Rightarrow> string set" where
  "entry_seeds g annos = annotated g annos \<union> exposed g \<union> jsp_services g \<union> catalog_entries g \<union> model_entries g"

lemma sink_marks:
  "mk_sink (fst (mark_reaches_sink g kinds True clear_marks)) = within MAX_ITERATIONS (trusted g) (sink_seeds g kinds)"
proof -
  let ?s1 = "graph_seeds g kinds" and ?s2 = "summary_seeds g" and ?s3 = "catalog_seeds g"
  have "?s1 \<union> (?s2 - ?s1) \<union> (?s3 - (?s1 \<union> (?s2 - ?s1))) = sink_seeds g kinds" by (auto simp: sink_seeds_def)
  moreover have "mk_sink (fst (mark_reaches_sink g kinds True clear_marks))
      = snd (snd (snd (spread MAX_ITERATIONS (trusted g) (?s1 \<union> (?s2 - ?s1) \<union> (?s3 - (?s1 \<union> (?s2 - ?s1)))))))"
    by (simp add: mark_reaches_sink_def clear_marks_def Let_def split: prod.splits)
  ultimately show ?thesis by (simp add: spread_within)
qed

lemma sink_stopped:
  "rr_converged (snd (mark_reaches_sink g kinds True clear_marks))
     = fst (snd (snd (spread MAX_ITERATIONS (trusted g) (sink_seeds g kinds))))"
proof -
  let ?s1 = "graph_seeds g kinds" and ?s2 = "summary_seeds g" and ?s3 = "catalog_seeds g"
  have "?s1 \<union> (?s2 - ?s1) \<union> (?s3 - (?s1 \<union> (?s2 - ?s1))) = sink_seeds g kinds" by (auto simp: sink_seeds_def)
  then show ?thesis
    by (simp add: mark_reaches_sink_def clear_marks_def Let_def split: prod.splits)
qed

lemma direct_kinds:
  "mk_direct (fst (mark_reaches_sink g kinds True clear_marks)) f =
     (if f \<in> graph_seeds g kinds then fn_external_kinds (cg_node g f) \<inter> kinds
      else if f \<in> catalog_seeds g - summary_seeds g then CATEGORY_TO_KIND ` set (fn_taint_categories (cg_node g f)) else {})"
  by (auto simp: mark_reaches_sink_def clear_marks_def Let_def split: prod.splits)

lemma sink_keeps:
  "mk_kinds (fst (mark_reaches_sink g kinds True clear_marks)) = (\<lambda>_. {})"
  "mk_entry (fst (mark_reaches_sink g kinds True clear_marks)) = {}"
  by (auto simp: mark_reaches_sink_def clear_marks_def Let_def split: prod.splits)

lemma kind_marks:
  assumes "mk_kinds m = (\<lambda>_. {})" "\<And>f. f \<notin> cg_ids g \<Longrightarrow> mk_direct m f = {}"
  shows "mk_kinds (fst (mark_reaches_sink_kinds g m)) = kinds_within MAX_ITERATIONS (trusted g) (mk_direct m)"
proof -
  have "(\<lambda>f. if f \<in> cg_ids g \<and> mk_kinds m f = {} then mk_direct m f else mk_kinds m f) = mk_direct m"
    using assms by (auto simp: fun_eq_iff)
  then show ?thesis using spread_kinds_within [of MAX_ITERATIONS "trusted g" "mk_direct m"]
    by (cases "spread_kinds MAX_ITERATIONS (trusted g) (mk_direct m)") (simp add: mark_reaches_sink_kinds_def)
qed

lemma kinds_keep:
  "mk_sink (fst (mark_reaches_sink_kinds g m)) = mk_sink m" "mk_entry (fst (mark_reaches_sink_kinds g m)) = mk_entry m"
  "mk_direct (fst (mark_reaches_sink_kinds g m)) = mk_direct m"
  by (auto simp: mark_reaches_sink_kinds_def Let_def split: prod.splits)

lemma entry_marks:
  assumes "mk_entry m = {}"
  shows "mk_entry (fst (mark_from_entry g annos m)) = within MAX_ITERATIONS ((trusted g)\<inverse>) (entry_seeds g annos)"
    and "er_converged (snd (mark_from_entry g annos m))
      = fst (snd (snd (spread MAX_ITERATIONS ((trusted g)\<inverse>) (entry_seeds g annos))))"
proof -
  let ?e1 = "annotated g annos"
  let ?e2 = "?e1 \<union> (exposed g - ?e1)"
  let ?e3 = "?e2 \<union> (jsp_services g - ?e2)"
  let ?e4 = "?e3 \<union> (catalog_entries g - ?e3)"
  let ?e5 = "?e4 \<union> (model_entries g - ?e4)"
  have e: "?e5 = entry_seeds g annos" by (auto simp: entry_seeds_def)
  have "mk_entry (fst (mark_from_entry g annos m)) = snd (snd (snd (spread MAX_ITERATIONS ((trusted g)\<inverse>) ?e5)))"
    using assms by (simp only: mark_from_entry_def Let_def Un_empty_left split: prod.splits) simp
  then show "mk_entry (fst (mark_from_entry g annos m)) = within MAX_ITERATIONS ((trusted g)\<inverse>) (entry_seeds g annos)"
    unfolding e by (simp add: spread_within)
  have "er_converged (snd (mark_from_entry g annos m)) = fst (snd (snd (spread MAX_ITERATIONS ((trusted g)\<inverse>) ?e5)))"
    using assms by (simp only: mark_from_entry_def Let_def Un_empty_left split: prod.splits) simp
  then show "er_converged (snd (mark_from_entry g annos m))
      = fst (snd (snd (spread MAX_ITERATIONS ((trusted g)\<inverse>) (entry_seeds g annos))))"
    unfolding e .
qed

lemma entry_keeps:
  "mk_sink (fst (mark_from_entry g annos m)) = mk_sink m" "mk_kinds (fst (mark_from_entry g annos m)) = mk_kinds m"
  "mk_direct (fst (mark_from_entry g annos m)) = mk_direct m"
  by (auto simp: mark_from_entry_def Let_def split: prod.splits)

lemma mark_all_parts:
  fixes g kinds
  defines "m1 \<equiv> fst (mark_reaches_sink g kinds True clear_marks)"
  defines "m2 \<equiv> fst (mark_reaches_sink_kinds g m1)"
  shows "fst (mark_all g kinds) = fst (mark_from_entry g ENTRY_ANNOTATIONS m2)"
    and "rr_converged (fst (snd (mark_all g kinds))) = rr_converged (snd (mark_reaches_sink g kinds True clear_marks))"
    and "er_converged (snd (snd (snd (mark_all g kinds)))) = er_converged (snd (mark_from_entry g ENTRY_ANNOTATIONS m2))"
  by (simp_all add: mark_all_def m1_def m2_def split: prod.splits)

text \<open>C28: a run of the marks leaves reaches_sink exactly on the functions that reach a sink seed over
  at most fifty trusted calls, from_entry exactly on those that an entry point reaches likewise,
  and gives each function exactly the kinds recorded on the functions it so reaches.\<close>

theorem mark_all_exact:
  fixes g kinds
  defines "m \<equiv> fst (mark_all g kinds)"
  shows "mk_sink m = {f. \<exists>k \<le> 50. \<exists>s \<in> sink_seeds g kinds. (f, s) \<in> trusted g ^^ k}
    \<and> mk_entry m = {f. \<exists>k \<le> 50. \<exists>e \<in> entry_seeds g ENTRY_ANNOTATIONS. (e, f) \<in> trusted g ^^ k}
    \<and> mk_kinds m = (\<lambda>f. {x. \<exists>k \<le> 50. \<exists>s. (f, s) \<in> trusted g ^^ k \<and> x \<in> mk_direct m s})"
proof (intro conjI)
  let ?m1 = "fst (mark_reaches_sink g kinds True clear_marks)"
  let ?m2 = "fst (mark_reaches_sink_kinds g ?m1)"
  have m: "m = fst (mark_from_entry g ENTRY_ANNOTATIONS ?m2)" unfolding m_def by (rule mark_all_parts)
  show "mk_sink m = {f. \<exists>k \<le> 50. \<exists>s \<in> sink_seeds g kinds. (f, s) \<in> trusted g ^^ k}"
    unfolding m entry_keeps kinds_keep sink_marks by (simp add: within_def MAX_ITERATIONS_def)
  have "mk_entry ?m2 = {}" by (simp add: kinds_keep sink_keeps)
  from entry_marks(1) [OF this]
  show "mk_entry m = {f. \<exists>k \<le> 50. \<exists>e \<in> entry_seeds g ENTRY_ANNOTATIONS. (e, f) \<in> trusted g ^^ k}"
    unfolding m by (simp add: within_def MAX_ITERATIONS_def relpow_back)
  have "mk_direct ?m1 f = {}" if "f \<notin> cg_ids g" for f
    using that by (simp add: direct_kinds graph_seeds_def catalog_seeds_def)
  from kind_marks [OF sink_keeps(1) this]
  show "mk_kinds m = (\<lambda>f. {x. \<exists>k \<le> 50. \<exists>s. (f, s) \<in> trusted g ^^ k \<and> x \<in> mk_direct m s})"
    unfolding m entry_keeps kinds_keep by (simp add: kinds_within_def MAX_ITERATIONS_def fun_eq_iff)
qed

text \<open>What a kind is lost to: a function found by its summary before the catalog is marked, and no
  kind is recorded on it, so neither it nor its callers show the kinds its catalog categories
  name.\<close>

lemma summary_hides_categories:
  assumes "f \<in> summary_seeds g" "f \<in> catalog_seeds g" "f \<notin> graph_seeds g kinds"
  shows "mk_direct (fst (mark_reaches_sink g kinds True clear_marks)) f = {}"
  using assms by (simp add: direct_kinds)

section \<open>The universe\<close>

lemma trusted_in: "(a, b) \<in> trusted g \<Longrightarrow> a \<in> cg_ids g \<and> b \<in> cg_ids g"
  by (auto simp: trusted_def)

lemma within_mono: "m \<le> n \<Longrightarrow> within m e x \<subseteq> within n e x"
  using le_trans unfolding within_def by blast

lemma near_stops:
  assumes "\<And>f s. (f, s) \<in> e\<^sup>* \<Longrightarrow> s \<in> x \<Longrightarrow> f \<in> within n e x"
  shows "within n e x = within (Suc n) e x"
proof
  show "within (Suc n) e x \<subseteq> within n e x"
  proof
    fix f assume "f \<in> within (Suc n) e x"
    then obtain k s where "s \<in> x" "(f, s) \<in> e ^^ k" by (auto simp: within_def)
    with assms show "f \<in> within n e x" by (blast dest: relpow_imp_rtrancl)
  qed
qed (simp add: within_mono)

lemma near_spread:
  assumes "\<And>f s. (f, s) \<in> e\<^sup>* \<Longrightarrow> s \<in> x \<Longrightarrow> f \<in> within 49 e x"
  shows "fst (snd (snd (spread MAX_ITERATIONS e x)))" "within MAX_ITERATIONS e x = {f. \<exists>s \<in> x. (f, s) \<in> e\<^sup>*}"
proof -
  obtain i t m where s: "spread (Suc 49) e x = (i, t, True, m)"
    using spread_enough [OF near_stops [of e x 49]] assms by blast
  then show "fst (snd (snd (spread MAX_ITERATIONS e x)))" by (simp add: MAX_ITERATIONS_def)
  show "within MAX_ITERATIONS e x = {f. \<exists>s \<in> x. (f, s) \<in> e\<^sup>*}"
    using spread_converged [OF s] spread_within [of "Suc 49" e x] s by (simp add: MAX_ITERATIONS_def)
qed

text \<open>C29: when no function is farther than 49 trusted calls from the seeds it is connected to, both
  loops stop before their guard, and the universe is exactly the functions that lie on a trusted
  call chain from an entry point to a sink.\<close>

theorem universe_exact:
  assumes near: "\<And>f s. (f, s) \<in> (trusted g)\<^sup>* \<Longrightarrow> s \<in> sink_seeds g kinds \<Longrightarrow> f \<in> within 49 (trusted g) (sink_seeds g kinds)"
    and near': "\<And>f e. (e, f) \<in> (trusted g)\<^sup>* \<Longrightarrow> e \<in> entry_seeds g ENTRY_ANNOTATIONS
      \<Longrightarrow> f \<in> within 49 ((trusted g)\<inverse>) (entry_seeds g ENTRY_ANNOTATIONS)"
  shows "universe g (fst (mark_all g kinds)) =
      {f \<in> cg_ids g. (\<exists>e \<in> entry_seeds g ENTRY_ANNOTATIONS. (e, f) \<in> (trusted g)\<^sup>*)
        \<and> (\<exists>s \<in> sink_seeds g kinds. (f, s) \<in> (trusted g)\<^sup>*)}
    \<and> rr_converged (fst (snd (mark_all g kinds))) \<and> er_converged (snd (snd (snd (mark_all g kinds))))"
proof -
  let ?m1 = "fst (mark_reaches_sink g kinds True clear_marks)"
  let ?m2 = "fst (mark_reaches_sink_kinds g ?m1)"
  have e: "mk_entry ?m2 = {}" by (simp add: kinds_keep sink_keeps)
  have near'': "f \<in> within 49 ((trusted g)\<inverse>) (entry_seeds g ENTRY_ANNOTATIONS)"
    if "(f, e) \<in> ((trusted g)\<inverse>)\<^sup>*" "e \<in> entry_seeds g ENTRY_ANNOTATIONS" for f e
    using near' that by (simp add: rtrancl_converse)
  have "mk_sink (fst (mark_all g kinds)) = {f. \<exists>s \<in> sink_seeds g kinds. (f, s) \<in> (trusted g)\<^sup>*}"
    unfolding mark_all_parts entry_keeps kinds_keep sink_marks by (rule near_spread(2) [OF near])
  moreover have "mk_entry (fst (mark_all g kinds)) = {f. \<exists>e \<in> entry_seeds g ENTRY_ANNOTATIONS. (f, e) \<in> ((trusted g)\<inverse>)\<^sup>*}"
    unfolding mark_all_parts entry_marks(1) [OF e] by (rule near_spread(2) [OF near''])
  moreover have "rr_converged (fst (snd (mark_all g kinds)))"
    unfolding mark_all_parts sink_stopped by (rule near_spread(1) [OF near])
  moreover have "er_converged (snd (snd (snd (mark_all g kinds))))"
    unfolding mark_all_parts entry_marks(2) [OF e] by (rule near_spread(1) [OF near''])
  ultimately show ?thesis by (auto simp: universe_def rtrancl_converse)
qed

definition demo_node :: "string set \<Rightarrow> bool \<Rightarrow> function_node" where
  "demo_node ext entry = \<lparr>fn_external_kinds = ext, fn_summary = None, fn_summary_fresh = False, fn_taint_categories = [],
     fn_taint_source = entry, fn_annotations = {}, fn_exposes = False, fn_lang = ''java'', fn_name = ''f'', fn_sig_entry = False\<rparr>"

definition demo_graph :: call_graph where
  "demo_graph = \<lparr>cg_ids = {''a'', ''b''}, cg_node = (\<lambda>f. if f = ''a'' then demo_node {} True else demo_node {''exec''} False),
     cg_calls = {(''a'', ''bytecode'', ''b'')}\<rparr>"

lemma demo_trusted: "trusted demo_graph = {(''a'', ''b'')}"
  by (auto simp: trusted_def demo_graph_def trusted_strategy_def image_iff)

lemma demo_rtrancl: "(x, y) \<in> {(''a'', ''b'')}\<^sup>* \<longleftrightarrow> x = y \<or> (x = ''a'' \<and> y = ''b'')"
proof
  show "(x, y) \<in> {(''a'', ''b'')}\<^sup>* \<Longrightarrow> x = y \<or> (x = ''a'' \<and> y = ''b'')"
    by (induction rule: rtrancl_induct) auto
qed auto

lemma demo_seeds: "sink_seeds demo_graph DANGEROUS_KINDS = {''b''}" "entry_seeds demo_graph ENTRY_ANNOTATIONS = {''a''}"
  by (auto simp: sink_seeds_def entry_seeds_def graph_seeds_def summary_seeds_def catalog_seeds_def annotated_def exposed_def
      jsp_services_def catalog_entries_def model_entries_def reports_sink_def demo_graph_def demo_node_def DANGEROUS_KINDS_def split: if_splits)

lemma one_hop: "(f, s) \<in> e \<Longrightarrow> s \<in> x \<Longrightarrow> f \<in> within 49 e x"
  unfolding within_def by (auto intro!: exI [of _ 1])

theorem universe_exact_witness:
  "universe demo_graph (fst (mark_all demo_graph DANGEROUS_KINDS)) =
      {f \<in> cg_ids demo_graph. (\<exists>e \<in> entry_seeds demo_graph ENTRY_ANNOTATIONS. (e, f) \<in> (trusted demo_graph)\<^sup>*)
        \<and> (\<exists>s \<in> sink_seeds demo_graph DANGEROUS_KINDS. (f, s) \<in> (trusted demo_graph)\<^sup>*)}
    \<and> rr_converged (fst (snd (mark_all demo_graph DANGEROUS_KINDS)))
    \<and> er_converged (snd (snd (snd (mark_all demo_graph DANGEROUS_KINDS))))"
proof (rule universe_exact)
  fix f s assume "(f, s) \<in> (trusted demo_graph)\<^sup>*" "s \<in> sink_seeds demo_graph DANGEROUS_KINDS"
  then show "f \<in> within 49 (trusted demo_graph) (sink_seeds demo_graph DANGEROUS_KINDS)"
    using within_start [of "{''b''}" 49 "{(''a'', ''b'')}"] one_hop [of "''a''" "''b''" "{(''a'', ''b'')}" "{''b''}"]
    by (auto simp: demo_trusted demo_seeds demo_rtrancl)
next
  fix f e assume "(e, f) \<in> (trusted demo_graph)\<^sup>*" "e \<in> entry_seeds demo_graph ENTRY_ANNOTATIONS"
  then show "f \<in> within 49 ((trusted demo_graph)\<inverse>) (entry_seeds demo_graph ENTRY_ANNOTATIONS)"
    using within_start [of "{''a''}" 49 "{(''a'', ''b'')}\<inverse>"] one_hop [of "''b''" "''a''" "{(''a'', ''b'')}\<inverse>" "{''a''}"]
    by (auto simp: demo_trusted demo_seeds demo_rtrancl)
qed

end
