(* ===== verification/Findings.thy ===== *)
theory Findings
  imports Prelude "HOL-Library.List_Lexorder" "HOL-Library.Char_ord" "HOL-Library.Product_Lexorder"
begin

text \<open>
  The final report (\<open>analysis/findings.py\<close>): deduplication by fingerprint, ranking, and the memory
  of dismissals, one map from fingerprints to reasons per repository.  Every operation reads a
  missing key, \<open>None\<close> and an empty value of a finding alike, so a missing key is the empty value
  here.  The hash function, the body hash the database holds for a node and the text of the
  votes are arguments.
\<close>

section \<open>Findings and fingerprints\<close>

record finding =
  fi_kind :: string
  fi_severity :: string
  fi_entry :: string
  fi_sink :: string
  fi_file :: string
  fi_line :: int
  fi_path_ids :: "string list"
  fi_fingerprint :: string
  fi_reach_count :: nat
  fi_also :: "string list"
  fi_duplicates :: nat
  fi_dismissed :: bool
  fi_because :: string
  fi_votes :: string
  fi_prior :: "string option"

type_synonym body_hashes = "string \<Rightarrow> string"

definition fingerprint :: "(string \<Rightarrow> string) \<Rightarrow> body_hashes \<Rightarrow> finding \<Rightarrow> string" where
  "fingerprint digest body f =
     (let sink_hash = (if fi_path_ids f = [] then [] else body (last (fi_path_ids f)));
          where_at = (if fi_sink f \<noteq> [] then fi_sink f else fi_file f)
      in digest (join_with CHR 0x00 [fi_kind f, where_at, sink_hash]))"

definition stamp :: "(string \<Rightarrow> string) \<Rightarrow> body_hashes \<Rightarrow> finding \<Rightarrow> finding" where
  "stamp digest body f = (if fi_fingerprint f \<noteq> [] then f else f\<lparr>fi_fingerprint := fingerprint digest body f\<rparr>)"

section \<open>Deduplication\<close>

definition entries_of :: "finding list \<Rightarrow> string list" where
  "entries_of g = sort (remdups (filter (\<lambda>e. e \<noteq> []) (map fi_entry g)))"

definition shortest :: "finding list \<Rightarrow> finding" where
  "shortest g = hd (sort_key (\<lambda>f. length (fi_path_ids f)) g)"

definition collapse :: "finding list \<Rightarrow> finding" where
  "collapse g =
     (let primary = shortest g; entries = entries_of g
      in primary\<lparr>fi_reach_count := length entries,
                 fi_also := take 20 (filter (\<lambda>e. e \<noteq> fi_entry primary) entries),
                 fi_duplicates := length g - 1\<rparr>)"

definition by_fingerprint :: "finding list \<Rightarrow> (string \<times> finding list) list" where
  "by_fingerprint fs = fold (\<lambda>f g. group_add (fi_fingerprint f) f g) fs []"

definition dedupe :: "(string \<Rightarrow> string) \<Rightarrow> body_hashes \<Rightarrow> finding list \<Rightarrow> finding list" where
  "dedupe digest body fs = map (\<lambda>(fp, g). collapse g) (by_fingerprint (map (stamp digest body) fs))"

section \<open>Ranking\<close>

definition severity_order :: "string \<Rightarrow> nat" where
  "severity_order s =
     (if s = ''critical'' then 0 else if s = ''high'' then 1 else if s = ''medium'' then 2
      else if s = ''low'' then 3 else 4)"

definition rank_key :: "finding \<Rightarrow> nat \<times> int \<times> nat \<times> string \<times> int" where
  "rank_key f =
     (severity_order (py_lower (if fi_severity f = [] then ''none'' else fi_severity f)), - int (fi_reach_count f),
      length (fi_path_ids f), fi_file f, fi_line f)"

definition rank_findings :: "finding list \<Rightarrow> finding list" where
  "rank_findings fs = sort_key rank_key fs"

section \<open>Dismissals\<close>

type_synonym dismissals = "string \<rightharpoonup> string"

definition apply_dismissals :: "finding list \<Rightarrow> dismissals \<Rightarrow> finding list \<times> finding list" where
  "apply_dismissals fs d =
     (filter (\<lambda>f. d (fi_fingerprint f) = None) fs,
      map (\<lambda>f. f\<lparr>fi_prior := d (fi_fingerprint f)\<rparr>) (filter (\<lambda>f. d (fi_fingerprint f) \<noteq> None) fs))"

definition dismissal_reason :: "finding \<Rightarrow> string" where
  "dismissal_reason f =
     (if fi_because f \<noteq> [] then fi_because f else if fi_votes f \<noteq> [] then take 600 (fi_votes f) else ''dismissed'')"

definition dismissal_rows :: "finding list \<Rightarrow> (string \<times> string) list" where
  "dismissal_rows fs =
     map (\<lambda>f. (fi_fingerprint f, dismissal_reason f)) (filter (\<lambda>f. fi_dismissed f \<and> fi_fingerprint f \<noteq> []) fs)"

definition save_dismissals :: "finding list \<Rightarrow> dismissals \<Rightarrow> nat \<times> dismissals" where
  "save_dismissals fs d = (length (dismissal_rows fs), fold (\<lambda>(fp, why) d. d(fp \<mapsto> why)) (dismissal_rows fs) d)"

section \<open>The report\<close>

definition classified :: "finding \<Rightarrow> bool" where
  "classified f = ((if fi_kind f = [] then ''none'' else fi_kind f) \<noteq> ''none''
     \<and> (if fi_severity f = [] then ''none'' else fi_severity f) \<noteq> ''none'')"

fun tally :: "string list \<Rightarrow> (string \<times> nat) list \<Rightarrow> (string \<times> nat) list" where
  "tally [] t = t"
| "tally (k # ks) t = tally ks (AList.update k (case map_of t k of None \<Rightarrow> 1 | Some n \<Rightarrow> n + 1) t)"

record counts =
  ct_reported :: nat
  ct_deduped_away :: nat
  ct_suppressed :: nat
  ct_killed :: nat
  ct_recorded :: nat
  ct_by_severity :: "(string \<times> nat) list"
  ct_by_kind :: "(string \<times> nat) list"

definition report ::
    "(string \<Rightarrow> string) \<Rightarrow> body_hashes \<Rightarrow> finding list \<Rightarrow> finding list \<Rightarrow> bool \<Rightarrow> dismissals
      \<Rightarrow> (finding list \<times> counts) \<times> dismissals" where
  "report digest body confirmed killed persist d =
     (let shown = filter classified confirmed;
          deduped = dedupe digest body shown;
          killed1 = map (stamp digest body) killed;
          (keep, suppressed) = apply_dismissals deduped d;
          ranked = rank_findings keep;
          (saved, d1) = (if persist then save_dismissals killed1 d else (0, d))
      in ((ranked,
           \<lparr>ct_reported = length ranked, ct_deduped_away = length shown - length deduped,
            ct_suppressed = length suppressed, ct_killed = length killed1, ct_recorded = saved,
            ct_by_severity = tally (map (\<lambda>f. if fi_severity f = [] then ''none'' else fi_severity f) ranked) [],
            ct_by_kind = tally (map (\<lambda>f. if fi_kind f = [] then ''other'' else fi_kind f) ranked) []\<rparr>), d1))"

section \<open>Groups\<close>

lemma by_fingerprint_keys:
  "map fst (fold (\<lambda>f g. group_add (key f) f g) fs g) = map fst g @ kept (\<lambda>k. k) (set (map fst g)) (map key fs)"
proof (induction fs arbitrary: g)
  case (Cons f fs)
  have "map fst (group_add k f g) = map fst g @ (if k \<in> set (map fst g) then [] else [k])" for k
    by (induction k f g rule: group_add.induct) auto
  moreover have "fst ` set (group_add k f g) = insert k (fst ` set g)" for k
    using group_add_keys [of k f g] by simp
  ultimately show ?case using Cons by (simp add: kept_def insert_absorb split: prod.splits)
qed (simp add: kept_def)

lemma group_parts:
  "distinct (map fst g) \<Longrightarrow> g = map (\<lambda>k. (k, group_look g k)) (map fst g)"
proof (induction g)
  case (Cons kv g)
  obtain k v where kv: "kv = (k, v)" by (cases kv)
  have "group_look (kv # g) k' = group_look g k'" if "k' \<in> fst ` set g" for k'
    using that Cons.prems kv by (auto simp: group_look_def)
  moreover have "g = map (\<lambda>k. (k, group_look g k)) (map fst g)" using Cons by simp
  ultimately have "map (\<lambda>k. (k, group_look (kv # g) k)) (map fst g) = g"
    by (metis (no_types, lifting) image_set map_eq_conv)
  then show ?case using kv by (simp add: group_look_def)
qed simp

lemma by_fingerprint_exact:
  "by_fingerprint fs = map (\<lambda>fp. (fp, filter (\<lambda>f. fi_fingerprint f = fp) fs)) (kept (\<lambda>k. k) {} (map fi_fingerprint fs))"
proof -
  let ?g = "by_fingerprint fs"
  have keys: "map fst ?g = kept (\<lambda>k. k) {} (map fi_fingerprint fs)"
    using by_fingerprint_keys [of fi_fingerprint fs "[]"] by (simp add: by_fingerprint_def)
  have "distinct (map fst ?g)" unfolding keys using kept_distinct [of "\<lambda>k. k"] by simp
  from group_parts [OF this] have "?g = map (\<lambda>k. (k, group_look ?g k)) (map fst ?g)" .
  moreover have "group_look ?g fp = filter (\<lambda>f. fi_fingerprint f = fp) fs" for fp
    using grp.look_build [of "\<lambda>_. True" fi_fingerprint "\<lambda>f. f" fs fp] by (simp add: by_fingerprint_def)
  ultimately show ?thesis unfolding keys by simp
qed

section \<open>One finding per defect\<close>

lemma shortest_min:
  assumes "g \<noteq> []"
  shows "shortest g \<in> set g" "length (fi_path_ids (shortest g)) = Min ((\<lambda>f. length (fi_path_ids f)) ` set g)"
proof -
  let ?len = "\<lambda>f. length (fi_path_ids f)"
  let ?s = "sort_key ?len g"
  have s: "?s = hd ?s # tl ?s" using assms by (metis list.collapse set_empty set_sort)
  have "hd ?s \<in> set ?s" by (metis s list.set_intros(1))
  then show mem: "shortest g \<in> set g" by (simp add: shortest_def)
  have "sorted (map ?len (hd ?s # tl ?s))" using sorted_sort_key [of ?len g] s by simp
  then have "?len (hd ?s) \<le> ?len f" if "f \<in> set (hd ?s # tl ?s)" for f using that by auto
  with s have "?len (shortest g) \<le> ?len f" if "f \<in> set g" for f
    using that by (metis set_sort shortest_def)
  with mem show "?len (shortest g) = Min (?len ` set g)"
    by (intro Min_eqI [symmetric]) auto
qed

lemma collapse_fingerprint: "g \<noteq> [] \<Longrightarrow> \<forall>f \<in> set g. fi_fingerprint f = fp \<Longrightarrow> fi_fingerprint (collapse g) = fp"
  using shortest_min(1) [of g] by (simp add: collapse_def Let_def)

lemma group_lengths:
  "(\<Sum>k\<leftarrow>kept (\<lambda>k. k) {} (map key fs). length (filter (\<lambda>f. key f = k) fs)) = length fs"
proof -
  let ?ks = "kept (\<lambda>k. k) {} (map key fs)"
  have "distinct ?ks" using kept_distinct [of "\<lambda>k. k"] by simp
  moreover have "set ?ks = key ` set fs" using kept_keys [of "\<lambda>k. k" "{}" "map key fs"] by simp
  ultimately have "(\<Sum>k\<leftarrow>?ks. length (filter (\<lambda>f. key f = k) fs)) = (\<Sum>k\<in>key ` set fs. length (filter (\<lambda>f. key f = k) fs))"
    by (simp add: sum_list_distinct_conv_sum_set)
  also have "\<dots> = length fs"
  proof (induction fs)
    case (Cons f fs)
    have "(\<Sum>k\<in>insert (key f) (key ` set fs). length (filter (\<lambda>f. key f = k) (f # fs)))
        = (\<Sum>k\<in>insert (key f) (key ` set fs). length (filter (\<lambda>f. key f = k) fs) + (if k = key f then 1 else 0))"
      by (rule sum.cong) auto
    also have "\<dots> = (\<Sum>k\<in>insert (key f) (key ` set fs). length (filter (\<lambda>f. key f = k) fs)) + 1"
      by (simp add: sum.distrib)
    also have "(\<Sum>k\<in>insert (key f) (key ` set fs). length (filter (\<lambda>f. key f = k) fs))
        = (\<Sum>k\<in>key ` set fs. length (filter (\<lambda>f. key f = k) fs))"
      by (rule sum.mono_neutral_right) (auto simp: filter_empty_conv)
    finally show ?case using Cons by simp
  qed simp
  finally show ?thesis .
qed

definition same_defect :: "string \<Rightarrow> finding list \<Rightarrow> finding list" where
  "same_defect fp fs = filter (\<lambda>f. fi_fingerprint f = fp) fs"

lemma dedupe_map:
  "dedupe digest body fs = map (\<lambda>fp. collapse (same_defect fp (map (stamp digest body) fs)))
     (kept (\<lambda>k. k) {} (map (\<lambda>f. fi_fingerprint (stamp digest body f)) fs))"
  by (simp add: dedupe_def by_fingerprint_exact same_defect_def comp_def)

lemma same_defect_nonempty: "fp \<in> fi_fingerprint ` set fs \<Longrightarrow> same_defect fp fs \<noteq> []"
  by (auto simp: same_defect_def filter_empty_conv)

lemma dedupe_keys: "map fi_fingerprint (dedupe digest body fs) = kept (\<lambda>k. k) {} (map (\<lambda>f. fi_fingerprint (stamp digest body f)) fs)"
proof -
  have "fi_fingerprint (collapse (same_defect fp (map (stamp digest body) fs))) = fp"
    if "fp \<in> set (kept (\<lambda>k. k) {} (map (\<lambda>f. fi_fingerprint (stamp digest body f)) fs))" for fp
  proof -
    have "fp \<in> fi_fingerprint ` set (map (stamp digest body) fs)"
      using kept_mem [OF that] by (auto simp: image_iff)
    then show ?thesis by (intro collapse_fingerprint same_defect_nonempty) (auto simp: same_defect_def)
  qed
  then show ?thesis unfolding dedupe_map by (simp add: map_idI)
qed

lemma dedupe_collapse:
  assumes "c \<in> set (dedupe digest body fs)"
  shows "c = collapse (same_defect (fi_fingerprint c) (map (stamp digest body) fs))"
proof -
  have "map (\<lambda>c. c) (dedupe digest body fs)
      = map (\<lambda>c. collapse (same_defect (fi_fingerprint c) (map (stamp digest body) fs))) (dedupe digest body fs)"
    using dedupe_map [of digest body fs] unfolding dedupe_keys [symmetric] by (simp add: comp_def)
  with assms show ?thesis by (metis (mono_tags, lifting) map_eq_conv)
qed

lemma dedupe_sum: "sum_list (map (\<lambda>f. Suc (fi_duplicates f)) (dedupe digest body fs)) = length fs"
proof -
  let ?ks = "kept (\<lambda>k. k) {} (map (\<lambda>f. fi_fingerprint (stamp digest body f)) fs)"
  let ?fs = "map (stamp digest body) fs"
  have "Suc (fi_duplicates (collapse (same_defect fp ?fs))) = length (filter (\<lambda>f. fi_fingerprint f = fp) ?fs)"
    if "fp \<in> set ?ks" for fp
  proof -
    have "fp \<in> fi_fingerprint ` set ?fs" using kept_mem [OF that] by (auto simp: image_iff)
    from same_defect_nonempty [OF this] have "length (same_defect fp ?fs) > 0" by simp
    then show ?thesis by (simp add: collapse_def Let_def same_defect_def)
  qed
  then have "(\<Sum>fp\<leftarrow>?ks. Suc (fi_duplicates (collapse (same_defect fp ?fs))))
      = (\<Sum>fp\<leftarrow>?ks. length (filter (\<lambda>f. fi_fingerprint f = fp) ?fs))"
    by (intro arg_cong [where f = sum_list] map_cong) simp_all
  also have "\<dots> = length fs" using group_lengths [of fi_fingerprint ?fs] by (simp add: comp_def)
  finally show ?thesis
    unfolding dedupe_map by (simp add: comp_def)
qed

text \<open>The primary finding of a group stands before every other with a path as short.\<close>

definition first_shortest :: "finding \<Rightarrow> finding list \<Rightarrow> bool" where
  "first_shortest f g \<longleftrightarrow> (\<exists>us vs. g = us @ f # vs \<and> (\<forall>u \<in> set us. length (fi_path_ids f) < length (fi_path_ids u))
     \<and> (\<forall>v \<in> set vs. length (fi_path_ids f) \<le> length (fi_path_ids v)))"

lemma hd_insort: "hd (insort_key k x xs) = (if xs = [] \<or> k x \<le> k (hd xs) then x else hd xs)"
  by (cases xs) auto

lemma shortest_first: "g \<noteq> [] \<Longrightarrow> first_shortest (shortest g) g"
proof (induction g)
  case (Cons f g)
  let ?len = "\<lambda>f. length (fi_path_ids f)"
  have sh: "shortest (f # g) = (if g = [] \<or> ?len f \<le> ?len (shortest g) then f else shortest g)"
    by (simp add: shortest_def hd_insort) (metis set_empty set_sort)
  show ?case
  proof (cases "g = [] \<or> ?len f \<le> ?len (shortest g)")
    case True
    have "?len f \<le> ?len v" if "v \<in> set g" for v
    proof -
      from that have "g \<noteq> []" by auto
      with True have "?len f \<le> Min (?len ` set g)" using shortest_min(2) by simp
      also have "\<dots> \<le> ?len v" using that by simp
      finally show ?thesis .
    qed
    moreover have "shortest (f # g) = f" using sh True by simp
    ultimately show ?thesis unfolding first_shortest_def by (intro exI [of _ "[]"] exI [of _ g]) simp
  next
    case False
    then obtain us vs where g: "g = us @ shortest g # vs" "\<forall>u \<in> set us. ?len (shortest g) < ?len u" "\<forall>v \<in> set vs. ?len (shortest g) \<le> ?len v"
      using Cons.IH unfolding first_shortest_def by blast
    have "shortest (f # g) = shortest g" using sh False by simp
    moreover have "f # g = (f # us) @ shortest g # vs" using g(1) by simp
    ultimately show ?thesis using g(2,3) False unfolding first_shortest_def by (intro exI [of _ "f # us"] exI [of _ vs]) auto
  qed
qed simp

lemma entries_sorted: "entries_of g = sorted_list_of_set (fi_entry ` set g - {[]})"
proof -
  have "set (filter (\<lambda>e. e \<noteq> []) (map fi_entry g)) = fi_entry ` set g - {[]}" by auto
  then show ?thesis unfolding entries_of_def by (metis sorted_list_of_set_sort_remdups)
qed

text \<open>What is reported for a group of findings with one fingerprint.\<close>

definition represents :: "finding \<Rightarrow> finding list \<Rightarrow> bool" where
  "represents c g \<longleftrightarrow> (\<exists>f. first_shortest f g \<and>
     c = f\<lparr>fi_reach_count := card (fi_entry ` set g - {[]}),
           fi_also := take 20 (sorted_list_of_set (fi_entry ` set g - {[], fi_entry f})), fi_duplicates := length g - 1\<rparr>)"

lemma collapse_represents: "g \<noteq> [] \<Longrightarrow> represents (collapse g) g"
proof -
  assume "g \<noteq> []"
  let ?E = "fi_entry ` set g - {[]}" and ?p = "shortest g"
  have "filter (\<lambda>e. e \<noteq> fi_entry ?p) (sorted_list_of_set ?E) = sorted_list_of_set (Set.filter (\<lambda>e. e \<noteq> fi_entry ?p) ?E)"
    by (intro sorted_distinct_set_unique) (auto intro!: sorted_filter [where f = "\<lambda>x. x", simplified])
  moreover have "Set.filter (\<lambda>e. e \<noteq> fi_entry ?p) ?E = fi_entry ` set g - {[], fi_entry ?p}" by auto
  ultimately show ?thesis using shortest_first [OF \<open>g \<noteq> []\<close>] unfolding represents_def collapse_def Let_def entries_sorted
    by (intro exI [of _ ?p]) simp
qed


section \<open>Deduplicating twice\<close>

text \<open>What a second deduplication makes of a finding.\<close>

definition reach_lost :: "finding \<Rightarrow> finding" where
  "reach_lost f = f\<lparr>fi_reach_count := (if fi_entry f = [] then 0 else 1), fi_also := [], fi_duplicates := 0\<rparr>"

lemma collapse_single: "collapse [f] = reach_lost f"
  by (simp add: collapse_def shortest_def entries_of_def reach_lost_def Let_def)

lemma dedupe_distinct:
  assumes "distinct (map fi_fingerprint fs)" "[] \<notin> fi_fingerprint ` set fs"
  shows "dedupe digest body fs = map reach_lost fs"
proof -
  have ne: "fi_fingerprint f \<noteq> []" if "f \<in> set fs" for f using assms(2) that by force
  have stamp: "map (stamp digest body) fs = fs" by (intro map_idI) (simp add: stamp_def ne)
  have "same_defect (fi_fingerprint f) fs = [f]" if "f \<in> set fs" for f
    using assms(1) that
  proof (induction fs)
    case (Cons g fs)
    have "fi_fingerprint x \<noteq> fi_fingerprint g" if "x \<in> set fs" for x
      using Cons.prems(1) imageI [OF that, of fi_fingerprint] by auto
    then have "same_defect (fi_fingerprint g) fs = []" by (simp add: same_defect_def filter_empty_conv)
    with Cons show ?case by (auto simp: same_defect_def)
  qed simp
  then have rows: "map (\<lambda>fp. collapse (same_defect fp fs)) (map fi_fingerprint fs) = map reach_lost fs"
    by (simp add: collapse_single)
  have fps: "map (\<lambda>f. fi_fingerprint (stamp digest body f)) fs = map fi_fingerprint fs"
    by (simp add: stamp_def ne)
  have all: "kept (\<lambda>k. k) {} (map fi_fingerprint fs) = map fi_fingerprint fs"
    by (rule kept_all) (simp_all add: assms(1))
  show ?thesis unfolding dedupe_map stamp fps all by (rule rows)
qed

lemma dedupe_fps: "fi_fingerprint ` set (dedupe digest body fs) = (\<lambda>f. fi_fingerprint (stamp digest body f)) ` set fs"
  using arg_cong [OF dedupe_keys [of digest body fs], of set]
    kept_keys [of "\<lambda>k. k" "{}" "map (\<lambda>f. fi_fingerprint (stamp digest body f)) fs"] by simp

lemma dedupe_stamped:
  assumes "\<And>s. digest s \<noteq> []"
  shows "\<forall>c \<in> set (dedupe digest body fs). fi_fingerprint c \<noteq> []"
proof
  fix c assume "c \<in> set (dedupe digest body fs)"
  then have "fi_fingerprint c \<in> (\<lambda>f. fi_fingerprint (stamp digest body f)) ` set fs"
    unfolding dedupe_fps [of digest body, symmetric] by (rule imageI)
  then obtain f where "fi_fingerprint c = fi_fingerprint (stamp digest body f)" by auto
  with assms show "fi_fingerprint c \<noteq> []" by (simp add: stamp_def fingerprint_def)
qed

text \<open>Deduplicating what is already deduplicated keeps the findings but resets their reach:
  every count of entry points becomes one (or none) and the list of other entry points empty.
  The analysis deduplicates before the adjudication and again in the report, so the report never
  shows or ranks by the real reach.\<close>

theorem dedupe_twice:
  assumes "\<And>s. digest s \<noteq> []"
  shows "dedupe digest body (dedupe digest body fs) = map reach_lost (dedupe digest body fs)"
proof (rule dedupe_distinct)
  show "distinct (map fi_fingerprint (dedupe digest body fs))"
    unfolding dedupe_keys using kept_distinct [of "\<lambda>k. k"] by simp
  show "[] \<notin> fi_fingerprint ` set (dedupe digest body fs)"
    using dedupe_stamped [of digest body fs, OF assms] by force
qed

definition demo_finding :: "string \<Rightarrow> finding" where
  "demo_finding entry = \<lparr>fi_kind = ''sql_injection'', fi_severity = ''high'', fi_entry = entry, fi_sink = ''Dao#q'', fi_file = ''Dao.java'',
     fi_line = 7, fi_path_ids = [''s''], fi_fingerprint = [], fi_reach_count = 0, fi_also = [], fi_duplicates = 0,
     fi_dismissed = False, fi_because = [], fi_votes = [], fi_prior = None\<rparr>"

theorem dedupe_twice_witness:
  "dedupe (\<lambda>s. CHR ''x'' # s) (\<lambda>_. ''h'') (dedupe (\<lambda>s. CHR ''x'' # s) (\<lambda>_. ''h'') [demo_finding ''A'', demo_finding ''B''])
     = map reach_lost (dedupe (\<lambda>s. CHR ''x'' # s) (\<lambda>_. ''h'') [demo_finding ''A'', demo_finding ''B''])"
  by (rule dedupe_twice) simp

section \<open>The report\<close>

lemma set_rank [simp]: "set (rank_findings fs) = set fs"
  by (simp add: rank_findings_def)

lemma save_dom:
  "dom (snd (save_dismissals fs d)) = dom d \<union> fi_fingerprint ` {f \<in> set fs. fi_dismissed f \<and> fi_fingerprint f \<noteq> []}"
proof -
  have "dom (fold (\<lambda>(fp, why) d. d(fp \<mapsto> why)) rows d) = dom d \<union> fst ` set rows" for rows :: "(string \<times> string) list"
    by (induction rows arbitrary: d) auto
  then show ?thesis by (auto simp: save_dismissals_def dismissal_rows_def image_iff)
qed

text \<open>The report lists, ranked, one finding for each fingerprint of a classified confirmed
  finding that no earlier run dismissed; every classified row is listed, suppressed or counted
  as a duplicate; and when dismissals are kept, exactly the dismissed killed findings are added
  to them, so they stay out of every later report.\<close>

theorem report_exact:
  fixes digest body confirmed killed persist d
  defines "shown \<equiv> filter classified confirmed"
    and "fps \<equiv> (\<lambda>fs. (\<lambda>f. fi_fingerprint (stamp digest body f)) ` fs)"
    and "out \<equiv> report digest body confirmed killed persist d"
  shows "fi_fingerprint ` set (fst (fst out)) = fps (set shown) - dom d
    \<and> distinct (map fi_fingerprint (fst (fst out)))
    \<and> sorted (map rank_key (fst (fst out)))
    \<and> ct_reported (snd (fst out)) + ct_suppressed (snd (fst out)) + ct_deduped_away (snd (fst out)) = length shown
    \<and> dom (snd out) = dom d \<union> (if persist then fps {f \<in> set killed. fi_dismissed f} - {[]} else {})"
proof -
  let ?dd = "dedupe digest body shown"
  let ?keep = "filter (\<lambda>f. d (fi_fingerprint f) = None) ?dd"
  have list: "fst (fst out) = rank_findings ?keep"
    by (simp add: out_def report_def Let_def apply_dismissals_def shown_def split: prod.splits)
  have keys: "fi_fingerprint ` set ?dd = fps (set shown)" by (simp add: dedupe_fps fps_def)
  have "fi_fingerprint ` set (fst (fst out)) = fps (set shown) - dom d"
    unfolding list keys [symmetric] by (auto simp: image_iff dom_def)
  moreover have "distinct (map fi_fingerprint (fst (fst out)))"
  proof -
    have "distinct (map fi_fingerprint ?dd)" unfolding dedupe_keys using kept_distinct [of "\<lambda>k. k"] by simp
    then have "distinct (map fi_fingerprint ?keep)" by (rule distinct_map_filter)
    moreover have "mset (map fi_fingerprint (rank_findings ?keep)) = mset (map fi_fingerprint ?keep)"
      by (simp add: rank_findings_def)
    ultimately show ?thesis unfolding list by (metis mset_eq_imp_distinct_iff)
  qed
  moreover have "sorted (map rank_key (fst (fst out)))" unfolding list rank_findings_def by simp
  moreover have "ct_reported (snd (fst out)) + ct_suppressed (snd (fst out)) + ct_deduped_away (snd (fst out)) = length shown"
  proof -
    have "length ?dd \<le> length shown"
    proof -
      have "length gs \<le> sum_list (map (\<lambda>f. Suc (fi_duplicates f)) gs)" for gs by (induction gs) auto
      from this [of ?dd] show ?thesis using dedupe_sum [of digest body shown] by simp
    qed
    moreover have "length (filter (\<lambda>f. d (fi_fingerprint f) = None) ?dd) + length (filter (\<lambda>f. d (fi_fingerprint f) \<noteq> None) ?dd) = length ?dd"
      by (rule sum_length_filter_compl)
    ultimately show ?thesis
      by (simp add: out_def report_def Let_def apply_dismissals_def rank_findings_def shown_def split: prod.splits)
  qed
  moreover have "dom (snd out) = dom d \<union> (if persist then fps {f \<in> set killed. fi_dismissed f} - {[]} else {})"
  proof -
    have st: "fi_dismissed (stamp digest body f) = fi_dismissed f" for f by (simp add: stamp_def)
    have "snd out = (if persist then snd (save_dismissals (map (stamp digest body) killed) d) else d)"
      by (simp add: out_def report_def Let_def split: prod.splits)
    then show ?thesis using st by (auto simp: save_dom fps_def image_iff)
  qed
  ultimately show ?thesis by blast
qed

end
