(* ===== verification/Panel.thy ===== *)
theory Panel
  imports Findings Contract
begin

text \<open>
  The adversarial panel (\<open>analysis/adversarial_pass.py\<close>): several lenses try to refute each finding, and a
  majority or a tie kills it.  What a model answers is an argument; a request that fails
  casts no vote.  The text of the votes that is stored as a reason is an argument too.  The reason of a
  vote is read when a finding is killed, and one that is not a string raises then.
\<close>

section \<open>Votes\<close>

datatype lens_name = Lens string | Extra nat

record vote =
  vt_lens :: lens_name
  vt_refuted :: bool
  vt_reason :: "string option"

definition TAINT_LENSES :: "string list" where
  "TAINT_LENSES = [''attacker_control'', ''sanitization'', ''reachability'']"

definition LEAK_LENSES :: "string list" where
  "LEAK_LENSES = [''leak_control_flow'', ''resource_ownership'', ''reachability'']"

definition lenses_for :: "finding \<Rightarrow> string list" where
  "lenses_for f = (if fi_kind f = ''resource_leak'' then LEAK_LENSES else TAINT_LENSES)"

definition text_field :: "string \<Rightarrow> fields \<Rightarrow> string" where
  "text_field k kvs = (case map_of kvs k of Some (JStr s) \<Rightarrow> s | _ \<Rightarrow> [])"

text \<open>\<open>v.get("reason", "")\<close>; \<open>None\<close> is a value that is not a string.\<close>

definition reason_of :: "fields \<Rightarrow> string option" where
  "reason_of kvs = (case map_of kvs ''reason'' of None \<Rightarrow> Some [] | Some (JStr s) \<Rightarrow> Some s | _ \<Rightarrow> None)"

definition read_vote :: "lens_name \<Rightarrow> fields \<Rightarrow> vote option" where
  "read_vote name kvs =
     (case map_of kvs ''refuted'' of
        Some (JBool b) \<Rightarrow> Some \<lparr>vt_lens = name, vt_refuted = b, vt_reason = reason_of kvs\<rparr>
      | _ \<Rightarrow> None)"

text \<open>One request per lens.\<close>

definition vote_one :: "string \<Rightarrow> json option \<Rightarrow> vote list" where
  "vote_one lens parsed =
     (case parsed of
        Some (JObj kvs) \<Rightarrow> (case read_vote (Lens lens) kvs of None \<Rightarrow> [] | Some v \<Rightarrow> [v])
      | _ \<Rightarrow> [])"

text \<open>One request for all lenses: an entry counts for the lens of its position.\<close>

fun read_entries :: "string list \<Rightarrow> nat \<Rightarrow> json list \<Rightarrow> vote list" where
  "read_entries lenses i [] = []"
| "read_entries lenses i (e # es) =
     (case e of
        JObj kvs \<Rightarrow>
          (case read_vote (if i < length lenses then Lens (lenses ! i)
              else if text_field ''lens'' kvs \<noteq> [] then Lens (text_field ''lens'' kvs) else Extra i) kvs of
             None \<Rightarrow> [] | Some v \<Rightarrow> [v])
      | _ \<Rightarrow> []) @ read_entries lenses (Suc i) es"

definition vote_all :: "string list \<Rightarrow> json option \<Rightarrow> vote list" where
  "vote_all lenses parsed =
     (case parsed of
        Some (JObj kvs) \<Rightarrow> (case map_of kvs ''lenses'' of Some (JArr es) \<Rightarrow> read_entries lenses 0 es | _ \<Rightarrow> [])
      | _ \<Rightarrow> [])"

section \<open>The verdict\<close>

definition refutes :: "vote list \<Rightarrow> nat" where
  "refutes cast = length (filter vt_refuted cast)"

definition killed :: "bool \<Rightarrow> vote list \<Rightarrow> bool" where
  "killed kill_on_tie cast =
     (cast \<noteq> [] \<and> (2 * refutes cast > length cast \<or> (kill_on_tie \<and> refutes cast * 2 = length cast)))"

fun join_texts :: "string \<Rightarrow> string list \<Rightarrow> string" where
  "join_texts sep [] = []"
| "join_texts sep [s] = s"
| "join_texts sep (s # t # ts) = s @ sep @ join_texts sep (t # ts)"

definition with_votes :: "(vote list \<Rightarrow> string) \<Rightarrow> vote list \<Rightarrow> finding \<Rightarrow> finding" where
  "with_votes dumps cast f = f\<lparr>fi_votes := (if cast = [] then [] else dumps cast)\<rparr>"

definition refuting_reasons :: "vote list \<Rightarrow> string option list" where
  "refuting_reasons cast = map vt_reason (filter vt_refuted cast)"

definition dismiss :: "vote list \<Rightarrow> finding \<Rightarrow> finding" where
  "dismiss cast f = f\<lparr>fi_dismissed := True, fi_because := take 600 (join_texts ''; '' (map the (refuting_reasons cast)))\<rparr>"

text \<open>\<open>None\<close> when joining the reasons of a killed finding raises.\<close>

definition run_adversarial_pass ::
    "bool \<Rightarrow> (vote list \<Rightarrow> string) \<Rightarrow> (finding \<Rightarrow> vote list) \<Rightarrow> finding list \<Rightarrow> (finding list \<times> finding list) option" where
  "run_adversarial_pass kill_on_tie dumps votes fs =
     (let live = filter (\<lambda>f. \<not> fi_dismissed f) fs; dead = filter (\<lambda>f. killed kill_on_tie (votes f)) live
      in if list_ex (\<lambda>f. None \<in> set (refuting_reasons (votes f))) dead then None
         else Some (map (\<lambda>f. with_votes dumps (votes f) f) (filter (\<lambda>f. \<not> killed kill_on_tie (votes f)) live),
           filter fi_dismissed fs @ map (\<lambda>f. dismiss (votes f) (with_votes dumps (votes f) f)) dead))"

section \<open>Votes decide by majority\<close>

text \<open>What a response says: of every entry that is an object with a boolean, the boolean and the reason.\<close>

definition ballots :: "json option \<Rightarrow> (bool \<times> json option) list" where
  "ballots parsed =
     (case parsed of Some (JObj kvs) \<Rightarrow> (case map_of kvs ''lenses'' of
          Some (JArr es) \<Rightarrow> List.map_filter (\<lambda>e. case e of
              JObj k \<Rightarrow> (case map_of k ''refuted'' of Some (JBool b) \<Rightarrow> Some (b, map_of k ''reason'') | _ \<Rightarrow> None) | _ \<Rightarrow> None) es
        | _ \<Rightarrow> []) | _ \<Rightarrow> [])"

definition against :: "(bool \<times> json option) list \<Rightarrow> json option list" where
  "against bs = map snd (filter fst bs)"

definition outvoted :: "(bool \<times> json option) list \<Rightarrow> bool" where
  "outvoted bs \<longleftrightarrow> bs \<noteq> [] \<and> length bs \<le> 2 * length (against bs)"

definition is_text :: "json option \<Rightarrow> bool" where
  "is_text j = (case j of None \<Rightarrow> True | Some (JStr s) \<Rightarrow> True | _ \<Rightarrow> False)"

definition spoken :: "json option \<Rightarrow> string" where
  "spoken j = (case j of Some (JStr s) \<Rightarrow> s | _ \<Rightarrow> [])"

lemma entries_ballots:
  "map (\<lambda>v. (vt_refuted v, vt_reason v)) (read_entries lenses i es) =
     map (\<lambda>(b, r). (b, if is_text r then Some (spoken r) else None))
       (List.map_filter (\<lambda>e. case e of
          JObj k \<Rightarrow> (case map_of k ''refuted'' of Some (JBool b) \<Rightarrow> Some (b, map_of k ''reason'') | _ \<Rightarrow> None) | _ \<Rightarrow> None) es)"
  by (induction es arbitrary: i)
    (simp_all add: List.map_filter_simps read_vote_def reason_of_def is_text_def spoken_def split: json.split option.split)

lemma votes_ballots:
  "map (\<lambda>v. (vt_refuted v, vt_reason v)) (vote_all lenses parsed) =
     map (\<lambda>(b, r). (b, if is_text r then Some (spoken r) else None)) (ballots parsed)"
  by (simp add: vote_all_def ballots_def entries_ballots split: option.split json.split)

lemma reasons_ballots: "refuting_reasons (vote_all lenses parsed) = map (\<lambda>r. if is_text r then Some (spoken r) else None) (against (ballots parsed))"
proof -
  have "refuting_reasons cast = map snd (filter fst (map (\<lambda>v. (vt_refuted v, vt_reason v)) cast))" for cast
    by (simp add: refuting_reasons_def filter_map comp_def)
  from this [of "vote_all lenses parsed"] show ?thesis
    unfolding votes_ballots by (simp add: filter_map comp_def against_def case_prod_unfold)
qed

lemma killed_outvoted: "killed True (vote_all lenses parsed) = outvoted (ballots parsed)"
proof -
  have l: "length (vote_all lenses parsed) = length (ballots parsed)"
    using arg_cong [OF votes_ballots, of length lenses parsed] by simp
  have r: "refutes (vote_all lenses parsed) = length (against (ballots parsed))"
    using arg_cong [OF reasons_ballots, of length lenses parsed] by (simp add: refuting_reasons_def refutes_def)
  have "killed True cast \<longleftrightarrow> cast \<noteq> [] \<and> length cast \<le> 2 * refutes cast" for cast by (auto simp: killed_def)
  then show ?thesis unfolding outvoted_def l [symmetric] r [symmetric] using l by (metis length_0_conv)
qed

text \<open>A finding without what the panel writes on it.\<close>

definition plain :: "finding \<Rightarrow> finding" where
  "plain f = f\<lparr>fi_dismissed := False, fi_because := [], fi_votes := []\<rparr>"

lemma panel_dismissed [simp]: "fi_dismissed (with_votes dumps cast f) = fi_dismissed f" "fi_dismissed (dismiss cast f)"
  by (simp_all add: with_votes_def dismiss_def)

lemma plain_panel [simp]: "plain (with_votes dumps cast f) = plain f" "plain (dismiss cast f) = plain f"
  by (simp_all add: plain_def with_votes_def dismiss_def)

lemma joined: "join_texts ''; '' ss = drop 2 (concat (map (\<lambda>s. ''; '' @ s) ss))"
  by (induction "''; ''" ss rule: join_texts.induct) simp_all

text \<open>C31: of the findings that nobody dismissed before, the panel kills exactly those of which at least one and at least half of the
  verdicts in the response say refuted, whatever names the response gives to the lenses; a finding without a readable verdict is
  confirmed.  Both lists are in the order they came, the killed after those dismissed before, each with its first 600
  characters of reasons; and the pass raises only when a killed finding has a refuting verdict whose reason is not a string.\<close>

theorem panel_exact:
  "let lost = (\<lambda>f. outvoted (ballots (answer f))); live = filter (\<lambda>f. \<not> fi_dismissed f) fs; dead = filter lost live
   in case run_adversarial_pass True dumps (\<lambda>f. vote_all (lenses_for f) (answer f)) fs of
     None \<Rightarrow> list_ex (\<lambda>f. \<not> list_all is_text (against (ballots (answer f)))) dead
   | Some (confirmed, gone) \<Rightarrow>
       list_all (\<lambda>f. list_all is_text (against (ballots (answer f)))) dead
       \<and> map plain confirmed = map plain (filter (\<lambda>f. \<not> lost f) live) \<and> list_all (\<lambda>f. \<not> fi_dismissed f) confirmed
       \<and> map plain gone = map plain (filter fi_dismissed fs @ dead) \<and> list_all fi_dismissed gone
       \<and> map fi_because gone = map fi_because (filter fi_dismissed fs)
           @ map (\<lambda>f. take 600 (drop 2 (concat (map (\<lambda>r. ''; '' @ spoken r) (against (ballots (answer f))))))) dead"
proof -
  let ?votes = "\<lambda>f. vote_all (lenses_for f) (answer f)" and ?live = "filter (\<lambda>f. \<not> fi_dismissed f) fs"
  let ?dead = "filter (\<lambda>f. outvoted (ballots (answer f))) ?live"
  have none: "None \<in> set (refuting_reasons (?votes f)) \<longleftrightarrow> \<not> list_all is_text (against (ballots (answer f)))" for f
    by (auto simp: reasons_ballots list_all_iff image_iff)
  have because: "fi_because (dismiss (?votes f) (with_votes dumps (?votes f) f))
      = take 600 (drop 2 (concat (map (\<lambda>r. ''; '' @ spoken r) (against (ballots (answer f))))))"
    if "list_all is_text (against (ballots (answer f)))" for f
  proof -
    have "map the (refuting_reasons (?votes f)) = map spoken (against (ballots (answer f)))"
      using that by (simp add: reasons_ballots list_all_iff)
    then show ?thesis by (simp add: dismiss_def joined comp_def)
  qed
  have run: "run_adversarial_pass True dumps ?votes fs =
     (if list_ex (\<lambda>f. \<not> list_all is_text (against (ballots (answer f)))) ?dead then None
      else Some (map (\<lambda>f. with_votes dumps (?votes f) f) (filter (\<lambda>f. \<not> outvoted (ballots (answer f))) ?live),
        filter fi_dismissed fs @ map (\<lambda>f. dismiss (?votes f) (with_votes dumps (?votes f) f)) ?dead))"
    unfolding run_adversarial_pass_def Let_def killed_outvoted none ..
  show ?thesis
  proof (cases "list_ex (\<lambda>f. \<not> list_all is_text (against (ballots (answer f)))) ?dead")
    case False
    then have ok: "list_all (\<lambda>f. list_all is_text (against (ballots (answer f)))) ?dead" by (auto simp: list_ex_iff list_all_iff)
    have "map fi_because (map (\<lambda>f. dismiss (?votes f) (with_votes dumps (?votes f) f)) ?dead)
        = map (\<lambda>f. take 600 (drop 2 (concat (map (\<lambda>r. ''; '' @ spoken r) (against (ballots (answer f))))))) ?dead"
      unfolding map_map comp_def by (intro map_cong refl because) (use ok in \<open>auto simp: list_all_iff\<close>)
    with ok run False show ?thesis
      by (auto simp: Let_def comp_def list.pred_map list_all_iff)
  qed (simp add: run Let_def)
qed

text \<open>A reason that is null, in a response that is otherwise well formed.\<close>

lemma null_reason_raises:
  "run_adversarial_pass True (\<lambda>_. []) (\<lambda>f. vote_all (lenses_for f)
     (Some (JObj [(''lenses'', JArr [JObj [(''refuted'', JBool True), (''reason'', JNull)]])]))) [demo_finding ''A''] = None"
  by code_simp

end
