(* ===== verification/Priority.thy ===== *)
theory Priority
  imports Complex_Main Prelude "HOL-Library.List_Lexorder" "HOL-Library.Char_ord"
begin

text \<open>
  What the analysis computes from a summary (\<open>analysis/priority.py\<close>): the severity table and the
  signals written next to the summary.  A summary is the record of the fields of the schema, a
  missing one being false or empty, as every access of the source reads it.  The weights are
  halves, so the floating point sums of the source are these rational numbers and rounding them
  to two digits changes nothing.
\<close>

section \<open>Severity\<close>

definition severity :: "string \<Rightarrow> string \<Rightarrow> string" where
  "severity certainty impact =
     (let c = py_lower certainty; i = py_lower impact in
      if c = ''demonstrated'' then
        (if i = ''exposure'' then ''critical'' else if i = ''integrity'' then ''high''
         else if i = ''correctness'' then ''high'' else if i = ''quality'' then ''low'' else ''none'')
      else if c = ''probable'' then
        (if i = ''exposure'' then ''high'' else if i = ''integrity'' then ''medium''
         else if i = ''correctness'' then ''medium'' else if i = ''quality'' then ''low'' else ''none'')
      else if c = ''speculative'' then
        (if i = ''exposure'' then ''medium'' else if i = ''integrity'' then ''low''
         else if i = ''correctness'' then ''low'' else if i = ''quality'' then ''low'' else ''none'')
      else ''none'')"

section \<open>Signals\<close>

record summary =
  sm_acquires :: bool
  sm_released_in_finally :: bool
  sm_resources_leaked :: "string list"
  sm_throws_between :: bool
  sm_sql_is_dynamic :: bool
  sm_touches :: "string list"
  sm_is_entry_point :: bool
  sm_reads_untrusted :: bool
  sm_kinds :: "string list"
  sm_is_sanitizer :: bool
  sm_authenticates :: bool
  sm_authorizes :: bool
  sm_validates_input :: bool
  sm_findings :: "(string \<times> string) list"
  sm_may_return_null :: bool
  sm_null_condition :: string
  sm_returns_sentinel :: string
  sm_unguarded_calls :: "string list"
  sm_swallowed_calls :: "string list"

definition RISK_WEIGHTS :: "(string \<times> rat) list" where
  "RISK_WEIGHTS =
     [(''builds_sql_dynamically'', 3), (''deserialization'', 3), (''spawns_process'', 3), (''parses_untrusted_input'', 2),
      (''manual_resource_handling'', 2), (''reflection'', 2), (''crypto'', 3/2), (''writes_filesystem'', 3/2),
      (''transaction_boundary'', 1), (''auth_check'', 1), (''authz_check'', 1), (''none'', 0)]"

definition weight :: "string \<Rightarrow> rat" where
  "weight r = (case map_of RISK_WEIGHTS r of None \<Rightarrow> 1/2 | Some w \<Rightarrow> w)"

definition touches :: "summary \<Rightarrow> string \<Rightarrow> bool" where
  "touches s t \<longleftrightarrow> t \<in> set (sm_touches s) \<and> t \<noteq> [] \<and> t \<noteq> ''none''"

definition auth :: "summary \<Rightarrow> bool" where
  "auth s \<longleftrightarrow> sm_authenticates s \<or> sm_authorizes s"

definition reasons :: "summary \<Rightarrow> string list" where
  "reasons s =
     (if sm_sql_is_dynamic s then [''builds_sql_dynamically''] else [])
     @ (if sm_acquires s then [''manual_resource_handling''] else [])
     @ (if touches s ''exec'' then [''spawns_process''] else [])
     @ (if touches s ''deserialize'' then [''deserialization''] else [])
     @ (if touches s ''reflection'' then [''reflection''] else [])
     @ (if touches s ''file'' then [''writes_filesystem''] else [])
     @ (if sm_reads_untrusted s then [''parses_untrusted_input''] else [])
     @ (if auth s then [''auth_check''] else [])"

definition unguarded :: "summary \<Rightarrow> bool" where
  "unguarded s \<longleftrightarrow> sm_acquires s \<and> \<not> sm_released_in_finally s"

definition leak :: "summary \<Rightarrow> bool" where
  "leak s \<longleftrightarrow> sm_acquires s \<and> (unguarded s \<or> sm_resources_leaked s \<noteq> [])"

definition confirmed_leak :: "summary \<Rightarrow> bool" where
  "confirmed_leak s \<longleftrightarrow> unguarded s \<and> sm_throws_between s"

definition strong_findings :: "summary \<Rightarrow> nat" where
  "strong_findings s =
     length (filter (\<lambda>(c, i). severity c i \<in> {''critical'', ''high'', ''medium''}) (sm_findings s))"

definition base_score :: "summary \<Rightarrow> rat" where
  "base_score s =
     sum_list (map weight (reasons s))
     + (if sm_sql_is_dynamic s then 2 else 0) + (if leak s then 2 else 0) + (if confirmed_leak s then 1 else 0)
     + (if sm_reads_untrusted s then 3/2 else 0) + (if sm_is_entry_point s then 1 else 0)
     + of_nat (min 0 3) * 1 + of_nat (min (strong_findings s) 3) * 2"

definition risk_score :: "summary \<Rightarrow> rat" where
  "risk_score s = (if sm_is_sanitizer s then base_score s * (1/2) else base_score s)"

definition IMPORTANT_THRESHOLD :: rat where
  "IMPORTANT_THRESHOLD = 3"

definition bare_name :: "string \<Rightarrow> string" where
  "bare_name v = py_strip (after_last CHR ''.'' (before_first CHR ''('' v))"

definition bare_names :: "string list \<Rightarrow> string list" where
  "bare_names vs = sort (remdups (filter (\<lambda>n. n \<noteq> []) (map bare_name vs)))"

record signals =
  sig_risk_score :: rat
  sig_important :: bool
  sig_reasons :: "string list"
  sig_entry :: bool
  sig_untrusted :: bool
  sig_source_kinds :: "string list"
  sig_sanitizer :: bool
  sig_auth :: bool
  sig_validates :: bool
  sig_taint_params :: nat
  sig_sql_dynamic :: bool
  sig_acquires :: bool
  sig_leak :: bool
  sig_confirmed_leak :: bool
  sig_findings :: nat
  sig_may_return_null :: bool
  sig_null_condition :: string
  sig_returns_sentinel :: string
  sig_unguarded_calls :: "string list"
  sig_swallowed_calls :: "string list"
  sig_released_in_finally :: bool
  sig_schema_version :: nat

definition SCHEMA_VERSION :: nat where
  "SCHEMA_VERSION = 5"

definition derive_signals :: "summary \<Rightarrow> signals" where
  "derive_signals s =
     \<lparr>sig_risk_score = risk_score s, sig_important = (IMPORTANT_THRESHOLD \<le> risk_score s), sig_reasons = sort (reasons s),
      sig_entry = sm_is_entry_point s, sig_untrusted = sm_reads_untrusted s,
      sig_source_kinds = sort (remdups (filter (\<lambda>k. k \<noteq> [] \<and> k \<noteq> ''none'') (sm_kinds s))),
      sig_sanitizer = sm_is_sanitizer s, sig_auth = auth s, sig_validates = sm_validates_input s, sig_taint_params = 0,
      sig_sql_dynamic = sm_sql_is_dynamic s, sig_acquires = sm_acquires s, sig_leak = leak s,
      sig_confirmed_leak = confirmed_leak s, sig_findings = strong_findings s,
      sig_may_return_null = sm_may_return_null s, sig_null_condition = sm_null_condition s,
      sig_returns_sentinel = sm_returns_sentinel s, sig_unguarded_calls = bare_names (sm_unguarded_calls s),
      sig_swallowed_calls = bare_names (sm_swallowed_calls s), sig_released_in_finally = sm_released_in_finally s,
      sig_schema_version = SCHEMA_VERSION\<rparr>"

section \<open>Severity is monotone\<close>

definition CERTAINTY :: "string list" where
  "CERTAINTY = [''speculative'', ''probable'', ''demonstrated'']"

definition IMPACT :: "string list" where
  "IMPACT = [''quality'', ''correctness'', ''integrity'', ''exposure'']"

definition level :: "string \<Rightarrow> nat" where
  "level s = (if s = ''critical'' then 4 else if s = ''high'' then 3 else if s = ''medium'' then 2 else if s = ''low'' then 1 else 0)"

lemma lowered:
  "py_lower ''speculative'' = ''speculative''" "py_lower ''probable'' = ''probable''" "py_lower ''demonstrated'' = ''demonstrated''"
  "py_lower ''quality'' = ''quality''" "py_lower ''correctness'' = ''correctness''" "py_lower ''integrity'' = ''integrity''"
  "py_lower ''exposure'' = ''exposure''"
  by (simp_all add: py_lower_def lower_char_def)

lemma severity_level:
  "c < 3 \<Longrightarrow> i < 4 \<Longrightarrow>
     level (severity (CERTAINTY ! c) (IMPACT ! i)) = (if i = 0 then 1 else if i = 3 then c + 2 else c + 1)"
proof -
  have "\<forall>c \<in> {0, 1, 2}. \<forall>i \<in> {0, 1, 2, 3}.
      level (severity (CERTAINTY ! c) (IMPACT ! i)) = (if i = 0 then 1 else if i = 3 then c + 2 else c + 1)"
    by (simp add: severity_def CERTAINTY_def IMPACT_def level_def lowered)
  moreover assume "c < 3" "i < 4"
  then have "c \<in> {0, 1, 2}" "i \<in> {0, 1, 2, 3}" by auto
  ultimately show ?thesis by blast
qed

text \<open>Severity is total on the two scales of the schema and grows with each of them: more
  certainty or a higher stake never lowers it, and a matter of quality is always low.\<close>

theorem severity_monotone:
  assumes "c \<le> c'" "c' < 3" "i \<le> i'" "i' < 4"
  shows "1 \<le> level (severity (CERTAINTY ! c) (IMPACT ! i))
    \<and> level (severity (CERTAINTY ! c) (IMPACT ! i)) \<le> level (severity (CERTAINTY ! c') (IMPACT ! i'))
    \<and> level (severity (CERTAINTY ! c) (IMPACT ! 0)) = level ''low''"
proof -
  have "level ''low'' = 1" by (simp add: level_def)
  with assms show ?thesis by (simp add: severity_level)
qed

theorem severity_monotone_witness:
  "1 \<le> level (severity (CERTAINTY ! 0) (IMPACT ! 1))
    \<and> level (severity (CERTAINTY ! 0) (IMPACT ! 1)) \<le> level (severity (CERTAINTY ! 2) (IMPACT ! 3))
    \<and> level (severity (CERTAINTY ! 0) (IMPACT ! 0)) = level ''low''"
  by (rule severity_monotone) simp_all

section \<open>The score\<close>

lemma reason_weight: "sum_list (map weight (if b then [x] else [])) = weight x * of_bool b"
  by simp

lemma bonus_weight: "(if b then x else 0 :: rat) = x * of_bool b"
  by simp

lemma base_score_sum:
  "base_score s = 5 * of_bool (sm_sql_is_dynamic s) + 2 * of_bool (sm_acquires s) + 3 * of_bool (touches s ''exec'')
     + 3 * of_bool (touches s ''deserialize'') + 2 * of_bool (touches s ''reflection'') + 3/2 * of_bool (touches s ''file'')
     + 7/2 * of_bool (sm_reads_untrusted s) + of_bool (auth s) + 2 * of_bool (leak s) + of_bool (confirmed_leak s)
     + of_bool (sm_is_entry_point s) + 2 * of_nat (min (strong_findings s) 3)"
proof -
  have "weight ''builds_sql_dynamically'' = 3" "weight ''manual_resource_handling'' = 2" "weight ''spawns_process'' = 3"
      "weight ''deserialization'' = 3" "weight ''reflection'' = 2" "weight ''writes_filesystem'' = 3/2"
      "weight ''parses_untrusted_input'' = 2" "weight ''auth_check'' = 1"
    by (simp_all add: weight_def RISK_WEIGHTS_def)
  then show ?thesis
    unfolding base_score_def reasons_def map_append sum_list_append reason_weight bonus_weight by simp
qed

text \<open>One summary reports at least the risks of another.\<close>

definition riskier :: "summary \<Rightarrow> summary \<Rightarrow> bool" where
  "riskier s' s \<longleftrightarrow>
     sm_sql_is_dynamic s \<le> sm_sql_is_dynamic s' \<and> sm_acquires s \<le> sm_acquires s'
     \<and> sm_released_in_finally s' \<le> sm_released_in_finally s \<and> set (sm_resources_leaked s) \<subseteq> set (sm_resources_leaked s')
     \<and> sm_throws_between s \<le> sm_throws_between s' \<and> set (sm_touches s) \<subseteq> set (sm_touches s')
     \<and> sm_reads_untrusted s \<le> sm_reads_untrusted s' \<and> sm_is_entry_point s \<le> sm_is_entry_point s'
     \<and> sm_authenticates s \<le> sm_authenticates s' \<and> sm_authorizes s \<le> sm_authorizes s'
     \<and> strong_findings s \<le> strong_findings s' \<and> sm_is_sanitizer s' \<le> sm_is_sanitizer s"

lemma of_bool_mono: "(P \<longrightarrow> Q) \<Longrightarrow> (of_bool P :: rat) \<le> of_bool Q"
  by simp

lemma base_score_mono:
  assumes "riskier s' s"
  shows "base_score s \<le> base_score s'"
proof -
  have r: "sm_acquires s \<longrightarrow> sm_acquires s'" "sm_released_in_finally s' \<longrightarrow> sm_released_in_finally s"
      "sm_throws_between s \<longrightarrow> sm_throws_between s'" "sm_authenticates s \<longrightarrow> sm_authenticates s'"
      "sm_authorizes s \<longrightarrow> sm_authorizes s'" "sm_resources_leaked s \<noteq> [] \<longrightarrow> sm_resources_leaked s' \<noteq> []"
      "set (sm_touches s) \<subseteq> set (sm_touches s')"
    using assms unfolding riskier_def by (simp_all, metis set_empty subset_empty)
  have u: "unguarded s \<longrightarrow> unguarded s'" using r(1,2) unfolding unguarded_def by blast
  have b: "touches s t \<longrightarrow> touches s' t" "auth s \<longrightarrow> auth s'" "leak s \<longrightarrow> leak s'"
      "confirmed_leak s \<longrightarrow> confirmed_leak s'" for t
    using r(7) r(4,5) r(1,6) r(3) u unfolding touches_def auth_def leak_def confirmed_leak_def by blast+
  have "strong_findings s \<le> strong_findings s'" using assms by (simp add: riskier_def)
  then have n: "(of_nat (min (strong_findings s) 3) :: rat) \<le> of_nat (min (strong_findings s') 3)"
    by (intro of_nat_mono min.mono order_refl)
  have m: "(of_bool (sm_sql_is_dynamic s) :: rat) \<le> of_bool (sm_sql_is_dynamic s')"
      "(of_bool (sm_acquires s) :: rat) \<le> of_bool (sm_acquires s')"
      "(of_bool (sm_reads_untrusted s) :: rat) \<le> of_bool (sm_reads_untrusted s')"
      "(of_bool (sm_is_entry_point s) :: rat) \<le> of_bool (sm_is_entry_point s')"
    using assms by (auto simp: riskier_def)
  show ?thesis
    unfolding base_score_sum by (intro add_mono mult_left_mono m n b [THEN of_bool_mono]) simp_all
qed

lemma base_score_bounds: "0 \<le> base_score s \<and> base_score s \<le> 31"
proof -
  have u: "(of_bool P :: rat) \<le> 1" for P by simp
  have n: "(of_nat (min (strong_findings s) 3) :: rat) \<le> 3"
    using of_nat_mono [of "min (strong_findings s) 3" 3, where 'a = rat] by simp
  have "0 \<le> base_score s" unfolding base_score_sum by (intro add_nonneg_nonneg mult_nonneg_nonneg) simp_all
  moreover have "base_score s \<le> 5 * 1 + 2 * 1 + 3 * 1 + 3 * 1 + 2 * 1 + 3/2 * 1 + 7/2 * 1 + 1 + 2 * 1 + 1 + 1 + 2 * 3"
    unfolding base_score_sum by (intro add_mono mult_left_mono u n) simp_all
  ultimately show ?thesis by simp
qed

text \<open>Signals only add: a summary that reports more risk, fewer guarantees or stronger findings
  never scores lower nor loses its important mark, and every score lies between 0 and 31, half of
  that for a sanitizer.\<close>

theorem signals_add_recall:
  assumes "riskier s' s"
  shows "sig_risk_score (derive_signals s) \<le> sig_risk_score (derive_signals s')
    \<and> sig_important (derive_signals s) \<le> sig_important (derive_signals s')
    \<and> 0 \<le> sig_risk_score (derive_signals s) \<and> sig_risk_score (derive_signals s') \<le> (if sm_is_sanitizer s' then 31/2 else 31)"
proof -
  have "risk_score s \<le> risk_score s'"
    using base_score_mono [OF assms] base_score_bounds [of s] base_score_bounds [of s'] assms
    by (auto simp: risk_score_def riskier_def)
  moreover have "0 \<le> risk_score s" "risk_score s' \<le> (if sm_is_sanitizer s' then 31/2 else 31)"
    using base_score_bounds [of s] base_score_bounds [of s'] by (simp_all add: risk_score_def)
  ultimately show ?thesis by (auto simp: derive_signals_def)
qed

definition quiet :: summary where
  "quiet = \<lparr>sm_acquires = True, sm_released_in_finally = True, sm_resources_leaked = [], sm_throws_between = True,
     sm_sql_is_dynamic = False, sm_touches = [], sm_is_entry_point = False, sm_reads_untrusted = False, sm_kinds = [],
     sm_is_sanitizer = False, sm_authenticates = False, sm_authorizes = False, sm_validates_input = False, sm_findings = [],
     sm_may_return_null = False, sm_null_condition = [], sm_returns_sentinel = [], sm_unguarded_calls = [], sm_swallowed_calls = []\<rparr>"

theorem signals_add_recall_witness:
  "sig_risk_score (derive_signals quiet) \<le> sig_risk_score (derive_signals (quiet\<lparr>sm_released_in_finally := False\<rparr>))
    \<and> sig_important (derive_signals quiet) \<le> sig_important (derive_signals (quiet\<lparr>sm_released_in_finally := False\<rparr>))
    \<and> 0 \<le> sig_risk_score (derive_signals quiet)
    \<and> sig_risk_score (derive_signals (quiet\<lparr>sm_released_in_finally := False\<rparr>)) \<le> 31"
  using signals_add_recall [of "quiet\<lparr>sm_released_in_finally := False\<rparr>" quiet]
  by (simp add: riskier_def quiet_def strong_findings_def)

text \<open>A connection closed in a finally block scores below the threshold, and the same function
  without it is a confirmed leak above it.\<close>

lemma leak_scores:
  "risk_score quiet = 2" "\<not> sig_important (derive_signals quiet)"
  "risk_score (quiet\<lparr>sm_released_in_finally := False\<rparr>) = 5" "sig_confirmed_leak (derive_signals (quiet\<lparr>sm_released_in_finally := False\<rparr>))"
  by (simp_all add: quiet_def risk_score_def base_score_sum derive_signals_def leak_def confirmed_leak_def unguarded_def
      strong_findings_def touches_def auth_def IMPORTANT_THRESHOLD_def)

text \<open>Of a chained call the name of the receiver is kept, not the name of the method.\<close>

lemma bare_name_examples:
  "bare_name ''DriverManager.getConnection'' = ''getConnection''"
  "bare_name ''get()'' = ''get''"
  "bare_name ''conn.createStatement().executeQuery'' = ''createStatement''"
  by (simp_all add: bare_name_def after_last_def before_first_def strip_where_def is_space_def)

end
