(* ===== verification/Paths.thy ===== *)
theory Paths
  imports Reach Panel Priority
begin

text \<open>
  Paths and what is made of their verdicts: which call chains a query for sink paths returns,
  their deduplication and batches (\<open>analysis/paths.py\<close>), and the findings the passes build
  (\<open>analysis/path_pass.py\<close>, \<open>analysis/neighborhood.py\<close>, \<open>analysis/single_file.py\<close>).  A missing key of a
  row or a verdict is the empty value, as it is read.
\<close>

section \<open>Sink paths\<close>

text \<open>The database holds one edge per type and pair of nodes, and a pattern takes no edge twice.  The
  limit on the number of rows is not part of the predicate.\<close>

definition steps_of :: "string list \<Rightarrow> (string \<times> string) list" where
  "steps_of ids = zip ids (tl ids)"

definition sink_path :: "call_graph \<Rightarrow> marks \<Rightarrow> string set \<Rightarrow> string set \<Rightarrow> nat \<Rightarrow> nat \<Rightarrow> bool \<Rightarrow> string list \<Rightarrow> bool" where
  "sink_path g m kinds hubs min_depth max_depth from_taint ids \<longleftrightarrow>
     ids \<noteq> [] \<and> set ids \<subseteq> cg_ids g \<and> hd ids \<in> mk_entry m \<and> (from_taint \<longrightarrow> fn_taint_source (cg_node g (hd ids)))
     \<and> set (steps_of ids) \<subseteq> trusted g \<and> distinct (steps_of ids) \<and> min_depth \<le> length (steps_of ids) \<and> length (steps_of ids) \<le> max_depth
     \<and> set ids \<inter> hubs = {} \<and> set ids \<subseteq> mk_sink m \<and> fn_external_kinds (cg_node g (last ids)) \<inter> kinds \<noteq> {}"

section \<open>Rows\<close>

record path_row =
  pr_ids :: "string list"
  pr_hops :: nat
  pr_entry :: string
  pr_sink :: string
  pr_acquire :: string
  pr_sink_file :: string
  pr_acquire_file :: string
  pr_sink_line :: int
  pr_acquire_line :: int

fun best_rows :: "path_row list \<Rightarrow> ((string \<times> string) \<times> path_row) list \<Rightarrow> ((string \<times> string) \<times> path_row) list" where
  "best_rows [] best = best"
| "best_rows (row # rows) best =
     best_rows rows
       (if pr_ids row = [] then best
        else let key = (hd (pr_ids row), last (pr_ids row)) in
          (case map_of best key of
             None \<Rightarrow> AList.update key row best
           | Some prev \<Rightarrow> if length (pr_ids prev) < length (pr_ids row) then AList.update key row best else best))"

definition dedupe_paths :: "path_row list \<Rightarrow> path_row list" where
  "dedupe_paths rows = sort_key (\<lambda>r. (pr_hops r, pr_entry r)) (map snd (best_rows rows []))"

fun chunks :: "nat \<Rightarrow> 'a list \<Rightarrow> 'a list list" where
  "chunks n xs = (if xs = [] \<or> n = 0 then [] else take n xs # chunks n (drop n xs))"

declare chunks.simps [simp del]

definition batch_key :: "path_row \<Rightarrow> string" where
  "batch_key r = (if pr_sink r \<noteq> [] then pr_sink r else pr_acquire r)"

text \<open>A batch size of zero makes the range of the source raise as soon as there is a row.\<close>

definition batch_paths :: "path_row list \<Rightarrow> nat \<Rightarrow> path_row list list option" where
  "batch_paths rows per_batch =
     (if per_batch = 0 \<and> rows \<noteq> [] then None
      else Some (concat (map (\<lambda>(k, g). chunks per_batch g) (fold (\<lambda>r g. group_add (batch_key r) r g) rows []))))"

section \<open>Findings of the passes\<close>

record verdict =
  vd_kind :: string
  vd_severity :: string
  vd_certainty :: string
  vd_impact :: string
  vd_exploitable :: bool
  vd_is_defect :: bool
  vd_need_source :: "string list"

definition carried :: "verdict \<Rightarrow> bool" where
  "carried v \<longleftrightarrow> vd_exploitable v \<or> vd_is_defect v \<or> vd_need_source v \<noteq> []"

definition new_finding :: "string \<Rightarrow> string \<Rightarrow> string \<Rightarrow> string \<Rightarrow> string \<Rightarrow> int \<Rightarrow> string list \<Rightarrow> finding" where
  "new_finding kind sev entry sink path line ids =
     \<lparr>fi_kind = kind, fi_severity = sev, fi_entry = entry, fi_sink = sink, fi_file = path, fi_line = line, fi_path_ids = ids,
      fi_fingerprint = [], fi_reach_count = 0, fi_also = [], fi_duplicates = 0, fi_dismissed = False, fi_because = [],
      fi_votes = [], fi_prior = None\<rparr>"

definition path_finding :: "verdict \<Rightarrow> path_row \<Rightarrow> finding" where
  "path_finding v p =
     new_finding (vd_kind v) (severity (vd_certainty v) (vd_impact v))
       (if pr_entry p \<noteq> [] then pr_entry p else pr_acquire p) (if pr_sink p \<noteq> [] then pr_sink p else pr_acquire p)
       (if pr_sink_file p \<noteq> [] then pr_sink_file p else pr_acquire_file p)
       (if pr_sink_line p \<noteq> 0 then pr_sink_line p else pr_acquire_line p) (pr_ids p)"

record target =
  tg_id :: string
  tg_fqn :: string
  tg_file :: string
  tg_line :: int

definition neighborhood_finding :: "verdict \<Rightarrow> target \<Rightarrow> finding" where
  "neighborhood_finding v t =
     new_finding (vd_kind v) (vd_severity v) (tg_fqn t) (tg_fqn t) (tg_file t) (tg_line t) (if tg_id t = [] then [] else [tg_id t])"

record body_finding =
  bf_kind :: string
  bf_line :: int
  bf_confidence :: string

definition SINGLE_FILE_KINDS :: "string set" where
  "SINGLE_FILE_KINDS = {''resource_leak'', ''error_handling'', ''concurrency'', ''correctness''}"

definition MIN_CONFIDENCE :: "string set" where
  "MIN_CONFIDENCE = {''high'', ''medium'', ''low''}"

definition kind_ceiling :: "string \<Rightarrow> string" where
  "kind_ceiling k =
     (if k = ''resource_leak'' \<or> k = ''concurrency'' \<or> k = ''correctness'' then ''high'' else ''medium'')"

definition body_severity :: "string \<Rightarrow> string \<Rightarrow> string" where
  "body_severity kind confidence =
     (let by_conf = (let c = py_lower confidence in if c = ''high'' \<or> c = ''medium'' then c else ''low'')
      in if severity_order (kind_ceiling kind) < severity_order by_conf then by_conf else kind_ceiling kind)"

definition harvest :: "string set \<Rightarrow> (target \<times> body_finding list) list \<Rightarrow> finding list" where
  "harvest kinds rows =
     concat (map (\<lambda>(t, fs). map (\<lambda>f. new_finding (bf_kind f) (body_severity (bf_kind f) (bf_confidence f)) (tg_fqn t) (tg_fqn t)
         (tg_file t) (if bf_line f \<noteq> 0 then bf_line f else tg_line t) [tg_id t])
       (filter (\<lambda>f. bf_kind f \<in> kinds \<and> py_lower (bf_confidence f) \<in> MIN_CONFIDENCE) fs)) rows)"

section \<open>Deduplication keeps the longest\<close>

definition ends :: "path_row \<Rightarrow> string \<times> string" where
  "ends r = (hd (pr_ids r), last (pr_ids r))"

definition nonempty_rows :: "path_row list \<Rightarrow> path_row set" where
  "nonempty_rows rows = {r \<in> set rows. pr_ids r \<noteq> []}"

definition best_ok :: "path_row set \<Rightarrow> ((string \<times> string) \<times> path_row) list \<Rightarrow> bool" where
  "best_ok rs best \<longleftrightarrow> distinct (map fst best) \<and> fst ` set best = ends ` rs
     \<and> (\<forall>(k, r) \<in> set best. r \<in> rs \<and> k = ends r \<and> (\<forall>q \<in> rs. ends q = k \<longrightarrow> length (pr_ids q) \<le> length (pr_ids r)))"

lemma update_entries: "distinct (map fst al) \<Longrightarrow> set (AList.update k v al) = insert (k, v) {e \<in> set al. fst e \<noteq> k}"
  by (induction al) force+

lemma best_ok_update:
  assumes ok: "best_ok rs best" and longest: "\<forall>q \<in> rs. ends q = ends row \<longrightarrow> length (pr_ids q) \<le> length (pr_ids row)"
  shows "best_ok (insert row rs) (AList.update (ends row) row best)"
proof -
  let ?u = "AList.update (ends row) row best"
  have d: "distinct (map fst best)" using ok by (simp add: best_ok_def)
  have "r \<in> insert row rs \<and> k = ends r \<and> (\<forall>q \<in> insert row rs. ends q = k \<longrightarrow> length (pr_ids q) \<le> length (pr_ids r))"
    if "(k, r) \<in> set ?u" for k r
  proof (cases "(k, r) = (ends row, row)")
    case True
    with longest show ?thesis by auto
  next
    case False
    with that have "(k, r) \<in> set best" "k \<noteq> ends row" by (auto simp: update_entries [OF d])
    with ok show ?thesis by (auto simp: best_ok_def)
  qed
  moreover have "distinct (map fst ?u)" using d by (rule AList.distinct_update)
  moreover have "fst ` set ?u = ends ` insert row rs"
    using AList.dom_update [of "ends row" row best] ok by (simp add: best_ok_def)
  ultimately show ?thesis unfolding best_ok_def by blast
qed

lemma best_ok_step:
  assumes ok: "best_ok rs best"
  shows "best_ok (insert row rs)
    (case map_of best (ends row) of
       None \<Rightarrow> AList.update (ends row) row best
     | Some prev \<Rightarrow> if length (pr_ids prev) < length (pr_ids row) then AList.update (ends row) row best else best)"
proof (cases "map_of best (ends row)")
  case None
  then have "ends row \<notin> ends ` rs" using ok by (simp add: best_ok_def map_of_eq_None_iff)
  then have "\<forall>q \<in> rs. ends q = ends row \<longrightarrow> length (pr_ids q) \<le> length (pr_ids row)" by (metis imageI)
  from best_ok_update [OF ok this] None show ?thesis by simp
next
  case (Some prev)
  then have prev: "(ends row, prev) \<in> set best" by (rule map_of_SomeD)
  then have p: "prev \<in> rs" "ends prev = ends row" "\<forall>q \<in> rs. ends q = ends row \<longrightarrow> length (pr_ids q) \<le> length (pr_ids prev)"
    using ok by (auto simp: best_ok_def)
  show ?thesis
  proof (cases "length (pr_ids prev) < length (pr_ids row)")
    case True
    then have "\<forall>q \<in> rs. ends q = ends row \<longrightarrow> length (pr_ids q) \<le> length (pr_ids row)" using p(3) by force
    from best_ok_update [OF ok this] Some True show ?thesis by simp
  next
    case False
    have "distinct (map fst best)" using ok by (simp add: best_ok_def)
    with prev have "r = prev" if "(ends row, r) \<in> set best" for r using that by (metis map_of_is_SomeI option.inject)
    then have "r \<in> insert row rs \<and> k = ends r \<and> (\<forall>q \<in> insert row rs. ends q = k \<longrightarrow> length (pr_ids q) \<le> length (pr_ids r))"
      if "(k, r) \<in> set best" for k r
      using ok that False by (auto simp: best_ok_def)
    then have "\<forall>(k, r) \<in> set best. r \<in> insert row rs \<and> k = ends r
        \<and> (\<forall>q \<in> insert row rs. ends q = k \<longrightarrow> length (pr_ids q) \<le> length (pr_ids r))" by blast
    moreover have "ends ` insert row rs = ends ` rs" using p(1,2) by (metis image_insert insert_absorb imageI)
    ultimately have "best_ok (insert row rs) best" using ok by (simp add: best_ok_def)
    with Some False show ?thesis by simp
  qed
qed

lemma best_rows_ok: "best_ok rs best \<Longrightarrow> best_ok (rs \<union> nonempty_rows rows) (best_rows rows best)"
proof (induction rows arbitrary: rs best)
  case (Cons row rows)
  show ?case
  proof (cases "pr_ids row = []")
    case True
    then have "nonempty_rows (row # rows) = nonempty_rows rows" by (auto simp: nonempty_rows_def)
    with Cons True show ?thesis by simp
  next
    case False
    have "nonempty_rows (row # rows) = insert row (nonempty_rows rows)" using False by (auto simp: nonempty_rows_def)
    with Cons.IH [OF best_ok_step [OF Cons.prems, of row], unfolded ends_def [of row]] False show ?thesis
      by (simp add: Let_def)
  qed
qed (simp add: nonempty_rows_def)

text \<open>Of the paths with the same two ends exactly one is kept, one of the longest, and the rows
  are ordered by length and entry point; so a direct path is dropped in favour of a longer one
  that need not contain it.\<close>

theorem dedupe_paths_longest:
  "distinct (map ends (dedupe_paths rows)) \<and> ends ` set (dedupe_paths rows) = ends ` nonempty_rows rows
   \<and> set (dedupe_paths rows) \<subseteq>
       {r \<in> nonempty_rows rows. length (pr_ids r) = Max ((\<lambda>q. length (pr_ids q)) ` {q \<in> nonempty_rows rows. ends q = ends r})}
   \<and> sorted (map (\<lambda>r. (pr_hops r, pr_entry r)) (dedupe_paths rows))"
proof -
  let ?b = "best_rows rows []"
  have ok: "best_ok (nonempty_rows rows) ?b"
    using best_rows_ok [of "{}" "[]" rows] by (simp add: best_ok_def)
  have keys: "map ends (map snd ?b) = map fst ?b" using ok by (auto simp: best_ok_def)
  have "mset (map ends (dedupe_paths rows)) = mset (map ends (map snd ?b))" by (simp add: dedupe_paths_def multiset.map_comp)
  then have "distinct (map ends (dedupe_paths rows))"
    using ok unfolding keys best_ok_def by (metis mset_eq_imp_distinct_iff)
  moreover have "ends ` set (dedupe_paths rows) = ends ` nonempty_rows rows"
  proof -
    have "ends ` set (dedupe_paths rows) = set (map ends (map snd ?b))" by (simp add: dedupe_paths_def image_image)
    then show ?thesis using ok unfolding keys best_ok_def by simp
  qed
  moreover have "r \<in> nonempty_rows rows \<and> length (pr_ids r) = Max ((\<lambda>q. length (pr_ids q)) ` {q \<in> nonempty_rows rows. ends q = ends r})"
    if "r \<in> set (dedupe_paths rows)" for r
  proof -
    from that obtain k where "(k, r) \<in> set ?b" by (auto simp: dedupe_paths_def)
    with ok have r: "r \<in> nonempty_rows rows" "\<forall>q \<in> nonempty_rows rows. ends q = ends r \<longrightarrow> length (pr_ids q) \<le> length (pr_ids r)"
      by (auto simp: best_ok_def)
    moreover have "finite (nonempty_rows rows)" by (simp add: nonempty_rows_def)
    ultimately have "Max ((\<lambda>q. length (pr_ids q)) ` {q \<in> nonempty_rows rows. ends q = ends r}) = length (pr_ids r)"
      by (intro Max_eqI) auto
    with r(1) show ?thesis by simp
  qed
  moreover have "sorted (map (\<lambda>r. (pr_hops r, pr_entry r)) (dedupe_paths rows))" by (simp add: dedupe_paths_def)
  ultimately show ?thesis by blast
qed

definition demo_row :: "string list \<Rightarrow> path_row" where
  "demo_row ids = \<lparr>pr_ids = ids, pr_hops = length ids - 1, pr_entry = ''Page'', pr_sink = ''Dao#q'', pr_acquire = [],
     pr_sink_file = ''Dao.java'', pr_acquire_file = [], pr_sink_line = 7, pr_acquire_line = 0\<rparr>"

text \<open>A direct call is dropped for a detour, here over a function that may clean the value.\<close>

lemma direct_path_dropped:
  "dedupe_paths [demo_row [''e'', ''s''], demo_row [''e'', ''clean'', ''s'']] = [demo_row [''e'', ''clean'', ''s'']]"
  by (simp add: dedupe_paths_def demo_row_def)

section \<open>Batches\<close>

lemma chunks_concat: "0 < n \<Longrightarrow> concat (chunks n xs) = xs"
  by (induction n xs rule: chunks.induct) (simp add: chunks.simps [of _ "_ :: 'a list"])

lemma chunks_sizes: "b \<in> set (chunks n xs) \<Longrightarrow> b \<noteq> [] \<and> length b \<le> n \<and> set b \<subseteq> set xs"
proof (induction n xs rule: chunks.induct)
  case (1 n xs)
  have c: "chunks n xs = (if xs = [] \<or> n = 0 then [] else take n xs # chunks n (drop n xs))" by (rule chunks.simps)
  have n: "\<not> (xs = [] \<or> n = 0)"
  proof
    assume "xs = [] \<or> n = 0"
    then have "chunks n xs = []" using c by presburger
    with "1.prems" show False by simp
  qed
  then have "chunks n xs = take n xs # chunks n (drop n xs)" using c by presburger
  with "1.prems" have b: "b = take n xs \<or> b \<in> set (chunks n (drop n xs))" by simp
  from b show ?case
  proof
    assume "b \<in> set (chunks n (drop n xs))"
    from "1.IH" [OF n this] set_drop_subset [of n xs] show ?thesis by blast
  qed (use n set_take_subset [of n xs] in auto)
qed

lemma group_add_entry:
  "(k', g') \<in> set (group_add k v gs) \<Longrightarrow> (k', g') \<in> set gs \<or> k' = k \<and> (\<exists>g. g' = g @ [v] \<and> (g = [] \<or> (k, g) \<in> set gs))"
  by (induction k v gs rule: group_add.induct) (auto split: if_splits)

lemma group_key:
  "(k, g) \<in> set (fold (\<lambda>r g. group_add (key r) r g) rows gs) \<Longrightarrow> (\<And>k g. (k, g) \<in> set gs \<Longrightarrow> \<forall>r \<in> set g. key r = k)
     \<Longrightarrow> \<forall>r \<in> set g. key r = k"
proof (induction rows arbitrary: gs)
  case (Cons row rows)
  have "\<forall>r \<in> set g'. key r = k'" if "(k', g') \<in> set (group_add (key row) row gs)" for k' g'
    using group_add_entry [OF that]
  proof
    assume "k' = key row \<and> (\<exists>g. g' = g @ [row] \<and> (g = [] \<or> (key row, g) \<in> set gs))"
    then obtain g0 where "k' = key row" "g' = g0 @ [row]" "g0 = [] \<or> (key row, g0) \<in> set gs" by blast
    with Cons.prems(2) [of "key row" g0] show ?thesis by auto
  qed (rule Cons.prems(2))
  note entries = this
  have "(k, g) \<in> set (fold (\<lambda>r g. group_add (key r) r g) rows (group_add (key row) row gs))" using Cons.prems(1) by simp
  from Cons.IH [OF this entries] show ?case .
qed simp

lemma group_rows: "mset (concat (map snd (fold (\<lambda>r g. group_add (key r) r g) rows gs))) = mset (concat (map snd gs)) + mset rows"
  by (induction rows arbitrary: gs) (simp_all add: group_add_concat)

text \<open>Batching sends every path exactly once, in batches of at most the given size, each of paths
  to one sink.\<close>

theorem batch_paths_partition:
  assumes "0 < n"
  shows "\<exists>bs. batch_paths rows n = Some bs \<and> mset (concat bs) = mset rows
    \<and> list_all (\<lambda>b. b \<noteq> [] \<and> length b \<le> n \<and> (\<exists>k. batch_key ` set b = {k})) bs"
proof -
  let ?g = "fold (\<lambda>r g. group_add (batch_key r) r g) rows []"
  let ?bs = "concat (map (\<lambda>(k, g). chunks n g) ?g)"
  have flat: "concat (map (\<lambda>(k, g). chunks n g) gs) = concat (map (chunks n) (map snd gs))" for gs :: "(string \<times> path_row list) list"
    by (induction gs) auto
  have whole: "concat (concat (map (chunks n) xss)) = concat xss" for xss :: "path_row list list"
    using assms by (induction xss) (simp_all add: chunks_concat)
  have "mset (concat ?bs) = mset rows"
    unfolding flat whole using group_rows [of batch_key rows "[]"] by simp
  moreover have "b \<noteq> [] \<and> length b \<le> n \<and> (\<exists>k. batch_key ` set b = {k})" if b: "b \<in> set ?bs" for b
  proof -
    from b obtain k g where g: "(k, g) \<in> set ?g" "b \<in> set (chunks n g)" by auto
    from chunks_sizes [OF g(2)] have "b \<noteq> []" "length b \<le> n" "set b \<subseteq> set g" by simp_all
    moreover have "\<forall>r \<in> set g. batch_key r = k" by (rule group_key [OF g(1)]) simp
    ultimately have "batch_key ` set b = {k}" by (auto simp: image_iff neq_Nil_conv)
    with \<open>b \<noteq> []\<close> \<open>length b \<le> n\<close> show ?thesis by blast
  qed
  ultimately show ?thesis using assms by (auto simp: batch_paths_def list_all_iff)
qed

theorem batch_paths_partition_witness:
  "\<exists>bs. batch_paths [demo_row [''e'', ''s''], demo_row [''f'', ''s'']] 3 = Some bs
    \<and> mset (concat bs) = mset [demo_row [''e'', ''s''], demo_row [''f'', ''s'']]
    \<and> list_all (\<lambda>b. b \<noteq> [] \<and> length b \<le> 3 \<and> (\<exists>k. batch_key ` set b = {k})) bs"
  by (rule batch_paths_partition) simp

section \<open>Paths stay in the universe\<close>

lemma zip_steps_rtrancl: "set (zip xs (tl xs)) \<subseteq> e \<Longrightarrow> y \<in> set xs \<Longrightarrow> (hd xs, y) \<in> e\<^sup>*"
proof (induction xs)
  case (Cons x xs)
  show ?case
  proof (cases "y = x")
    case False
    then have y: "y \<in> set xs" using Cons.prems by simp
    then obtain z zs where xs: "xs = z # zs" by (cases xs) auto
    with Cons.prems have "(x, z) \<in> e" "set (zip xs (tl xs)) \<subseteq> e" by auto
    with Cons.IH [OF this(2) y] xs show ?thesis by (auto intro: converse_rtrancl_into_rtrancl)
  qed simp
qed simp

lemma sink_path_connected: "sink_path g m kinds hubs lo hi taint ids \<Longrightarrow> f \<in> set ids \<Longrightarrow> (hd ids, f) \<in> (trusted g)\<^sup>*"
proof (rule zip_steps_rtrancl)
  assume "sink_path g m kinds hubs lo hi taint ids"
  then show "set (zip ids (tl ids)) \<subseteq> trusted g" by (simp add: sink_path_def steps_of_def)
qed

section \<open>Findings that are lost\<close>

text \<open>The schema of a verdict has no severity, which the neighbourhood pass reads.\<close>

lemma neighborhood_unclassified: "vd_severity v = [] \<Longrightarrow> \<not> classified (neighborhood_finding v t)"
  by (simp add: classified_def neighborhood_finding_def new_finding_def)

text \<open>The schema of a finding in a summary has no confidence, which the harvest asks for.\<close>

lemma harvest_empty:
  "list_all (\<lambda>(t, fs). list_all (\<lambda>f. bf_confidence f = []) fs) rows \<Longrightarrow> harvest kinds rows = []"
  by (induction rows) (auto simp: harvest_def list_all_iff py_lower_def MIN_CONFIDENCE_def filter_empty_conv)

lemma shadowed_unclassified:
  assumes g: "g \<noteq> []" and short: "s \<in> set g" "length (fi_path_ids s) \<le> n"
    and others: "\<And>f. f \<in> set g \<Longrightarrow> length (fi_path_ids f) \<le> n \<Longrightarrow> \<not> classified f"
  shows "\<not> classified (collapse g)"
proof -
  have "length (fi_path_ids (shortest g)) \<le> length (fi_path_ids s)"
    using shortest_min(2) [OF g] short(1) by (simp add: Min_le)
  with short(2) have "\<not> classified (shortest g)" by (intro others shortest_min(1) [OF g]) simp
  then show ?thesis by (simp add: collapse_def classified_def Let_def split: if_splits)
qed

text \<open>A defect is lost from what a report can show as soon as the neighbourhood pass names it too: its row
  has one function, so it is the shortest of its group and stands for it, and it has no severity,
  although every other row of the group is classified.\<close>

theorem neighborhood_shadows:
  assumes n: "neighborhood_finding v t \<in> set raw" "vd_severity v = []"
    and fp: "fp = fi_fingerprint (stamp digest body (neighborhood_finding v t))"
    and longer: "\<And>f. f \<in> set raw \<Longrightarrow> fi_fingerprint (stamp digest body f) = fp \<Longrightarrow> classified f \<Longrightarrow> 1 < length (fi_path_ids f)"
  shows "fp \<notin> fi_fingerprint ` {c \<in> set (dedupe digest body raw). classified c}"
proof -
  let ?g = "same_defect fp (map (stamp digest body) raw)"
  let ?nb = "stamp digest body (neighborhood_finding v t)"
  have st: "fi_path_ids (stamp digest body f) = fi_path_ids f" "classified (stamp digest body f) = classified f" for f
    by (simp_all add: stamp_def classified_def)
  have nb: "?nb \<in> set ?g" using n(1) fp by (simp add: same_defect_def)
  have "\<not> classified (collapse ?g)"
  proof (rule shadowed_unclassified [where n = 1])
    show "?nb \<in> set ?g" by (rule nb)
    then show "?g \<noteq> []" by auto
    show "length (fi_path_ids ?nb) \<le> 1" by (simp add: st neighborhood_finding_def new_finding_def)
    show "\<not> classified f" if "f \<in> set ?g" "length (fi_path_ids f) \<le> 1" for f
      using that longer st by (force simp: same_defect_def)
  qed
  moreover have "c = collapse ?g" if "c \<in> set (dedupe digest body raw)" "fi_fingerprint c = fp" for c
    using dedupe_collapse [OF that(1)] that(2) by simp
  ultimately show ?thesis by auto
qed

definition demo_verdict :: verdict where
  "demo_verdict = \<lparr>vd_kind = ''resource_leak'', vd_severity = [], vd_certainty = ''demonstrated'', vd_impact = ''integrity'',
     vd_exploitable = False, vd_is_defect = True, vd_need_source = []\<rparr>"

definition demo_target :: target where
  "demo_target = \<lparr>tg_id = ''s'', tg_fqn = ''Dao#q'', tg_file = ''Dao.java'', tg_line = 7\<rparr>"

definition leak_found :: finding where
  "leak_found = new_finding ''resource_leak'' ''high'' ''Page'' ''Dao#q'' ''Dao.java'' 7 [''e'', ''s'']"

definition leak_raw :: "finding list" where
  "leak_raw = [leak_found, neighborhood_finding demo_verdict demo_target]"

theorem neighborhood_shadows_witness:
  "fi_fingerprint (stamp (\<lambda>s. CHR ''x'' # s) (\<lambda>_. ''h'') (neighborhood_finding demo_verdict demo_target))
     \<notin> fi_fingerprint ` {c \<in> set (dedupe (\<lambda>s. CHR ''x'' # s) (\<lambda>_. ''h'') leak_raw). classified c}"
  by (rule neighborhood_shadows [where v = demo_verdict and t = demo_target])
    (auto simp: leak_raw_def leak_found_def demo_verdict_def demo_target_def neighborhood_finding_def new_finding_def classified_def)

lemma leak_alone_reported: "classified leak_found"
  by (simp add: classified_def leak_found_def new_finding_def)

end
