(* ===== verification/Slug.thy ===== *)
theory Slug
  imports Prelude
begin

text \<open>
  The namespace of a project (\<open>slugify_project\<close> in \<open>ingest/indexing.py\<close>).  A character here has
  eight bits; no character from 128 to 255 is kept by the pattern, before or after lowering.
\<close>

definition slug_char :: "char \<Rightarrow> bool" where
  "slug_char c = (let n = (of_char c :: nat) in (97 \<le> n \<and> n \<le> 122) \<or> (48 \<le> n \<and> n \<le> 57) \<or> c = CHR ''_'' \<or> c = CHR ''-'')"

text \<open>Every run of other characters becomes one dash.\<close>

function sub_runs :: "string \<Rightarrow> string" where
  "sub_runs [] = []"
| "sub_runs (c # s) =
     (if slug_char c then c # sub_runs s else CHR ''-'' # sub_runs (dropWhile (\<lambda>c. \<not> slug_char c) s))"
  by pat_completeness auto
termination
  by (relation "measure length") (auto simp: le_imp_less_Suc length_dropWhile_le)

definition slugify_project :: "string \<Rightarrow> string" where
  "slugify_project name =
     (let slug = strip_where (\<lambda>c. c = CHR ''-'') (sub_runs (py_lower (py_strip name)))
      in if slug = [] then ''project'' else slug)"

lemma sub_runs_chars: "list_all slug_char (sub_runs s)"
  by (induction s rule: sub_runs.induct) (auto simp: slug_char_def)

lemma sub_runs_id: "list_all slug_char s \<Longrightarrow> sub_runs s = s"
  by (induction s) auto

lemma strip_where_set: "set (strip_where p s) \<subseteq> set s"
  by (auto simp: strip_where_def dest!: set_dropWhileD)

lemma strip_where_ends:
  assumes "strip_where p s \<noteq> []"
  shows "\<not> p (hd (strip_where p s))" and "\<not> p (last (strip_where p s))"
proof -
  let ?t = "dropWhile p s"
  let ?r = "rev (dropWhile p (rev ?t))"
  have r: "strip_where p s = ?r" by (simp add: strip_where_def)
  have ne: "dropWhile p (rev ?t) \<noteq> []" using assms unfolding r by (metis rev_is_Nil_conv)
  have "last ?r = hd (dropWhile p (rev ?t))" by (simp add: last_rev ne)
  then show "\<not> p (last (strip_where p s))" using ne by (metis hd_dropWhile r)
  have "?t = ?r @ rev (takeWhile p (rev ?t))"
    by (metis rev_append rev_rev_ident takeWhile_dropWhile_id)
  then have "hd ?t = hd ?r" using ne by (metis hd_append2 rev_is_Nil_conv)
  moreover have "?t \<noteq> []" using ne by (metis dropWhile.simps(1) rev.simps(1))
  ultimately show "\<not> p (hd (strip_where p s))" by (metis hd_dropWhile r)
qed

lemma lower_slug: "slug_char c \<Longrightarrow> lower_char c = c"
  by (auto simp: slug_char_def lower_char_def Let_def)

lemma space_slug: "slug_char c \<Longrightarrow> \<not> is_space c"
  by (auto simp: slug_char_def is_space_def Let_def)

text \<open>A string of slug characters that starts and ends without a dash is its own slug.\<close>

lemma slugify_fixed:
  assumes c: "list_all slug_char s" and ne: "s \<noteq> []" and h: "hd s \<noteq> CHR ''-''" and l: "last s \<noteq> CHR ''-''"
  shows "slugify_project s = s"
proof -
  have "\<not> is_space (hd s)" "\<not> is_space (last s)" using c ne
    by (auto simp: list_all_iff intro!: space_slug)
  then have "py_strip s = s" using ne by (simp add: strip_where_id)
  moreover have "py_lower s = s" using c by (induction s) (auto simp: py_lower_def lower_slug)
  moreover have "strip_where (\<lambda>c. c = CHR ''-'') s = s" using ne h l by (simp add: strip_where_id)
  ultimately show ?thesis using ne by (simp add: slugify_project_def sub_runs_id [OF c])
qed

lemma slugify_shape:
  "list_all slug_char (slugify_project s) \<and> slugify_project s \<noteq> [] \<and> hd (slugify_project s) \<noteq> CHR ''-''
   \<and> last (slugify_project s) \<noteq> CHR ''-''"
proof -
  let ?r = "sub_runs (py_lower (py_strip s))"
  let ?d = "\<lambda>c. c = CHR ''-''"
  have "list_all slug_char (strip_where ?d ?r)"
    using sub_runs_chars [of "py_lower (py_strip s)"] strip_where_set [of ?d ?r] by (auto simp: list_all_iff)
  then show ?thesis
    using strip_where_ends [of ?d ?r] by (simp add: slugify_project_def Let_def slug_char_def)
qed

text \<open>C32: The namespace computed from any project name, the empty one included, is never empty,
consists of lower-case letters, digits, underscores and dashes, neither starts nor ends with a
dash, and is its own slug: a name that went through the function once, as a namespace read back
from the database, goes through it unchanged.\<close>
theorem slugify_normal:
  "list_all slug_char (slugify_project s) \<and> slugify_project s \<noteq> [] \<and> hd (slugify_project s) \<noteq> CHR ''-''
   \<and> last (slugify_project s) \<noteq> CHR ''-'' \<and> slugify_project (slugify_project s) = slugify_project s"
  using slugify_shape [of s] slugify_fixed [of "slugify_project s"] by simp

text \<open>The slug is not injective: every name without a letter or digit of ASCII falls into the
namespace \<open>project\<close>, and separators are collapsed only between kept characters that are not dashes.\<close>

lemma slugify_collides:
  "slugify_project ''???'' = ''project'' \<and> slugify_project [char_of (233::nat)] = ''project''
   \<and> slugify_project ''a b'' = slugify_project ''A-b'' \<and> slugify_project ''a - b'' = ''a---b''"
  by code_simp

end
