(* ===== verification/Regex.thy ===== *)
theory Regex
  imports Prelude
begin

text \<open>
  The part of Python's \<open>re\<close> that the extractors use: backtracking matchers, and the loop of
  \<open>finditer\<close>.  A matcher gets the character before the position and the rest of the text, and
  returns its ways to match in the order in which they are tried: the captured groups, the
  character before the new position, and the new rest.  Every loop of the patterns runs over one
  class of characters.  Letters, digits and case are the ASCII ones.
\<close>

section \<open>Matchers\<close>

type_synonym groups = "(nat \<times> string) list"

type_synonym way = "groups \<times> char option \<times> string"

type_synonym matcher = "char option \<Rightarrow> string \<Rightarrow> way list"

definition is_word :: "char \<Rightarrow> bool" where
  "is_word c = (let n = (of_char c :: nat) in (48 \<le> n \<and> n \<le> 57) \<or> (65 \<le> n \<and> n \<le> 90) \<or> (97 \<le> n \<and> n \<le> 122) \<or> n = 95)"

definition one :: "(char \<Rightarrow> bool) \<Rightarrow> matcher" where
  "one p prev s = (case s of [] \<Rightarrow> [] | c # t \<Rightarrow> if p c then [([], Some c, t)] else [])"

definition followed :: "matcher \<Rightarrow> matcher \<Rightarrow> matcher" where
  "followed a b prev s = concat (map (\<lambda>(g, p, t). map (\<lambda>(g', w). (g @ g', w)) (b p t)) (a prev s))"

definition nothing :: matcher where
  "nothing prev s = [([], prev, s)]"

definition either :: "matcher \<Rightarrow> matcher \<Rightarrow> matcher" where
  "either a b prev s = a prev s @ b prev s"

definition optional :: "matcher \<Rightarrow> matcher" where
  "optional a = either a nothing"

text \<open>A run of characters of one class, the longest first, and the same shortest first.\<close>

fun runs :: "(char \<Rightarrow> bool) \<Rightarrow> matcher" where
  "runs p prev [] = [([], prev, [])]"
| "runs p prev (c # s) = (if p c then runs p (Some c) s @ [([], prev, c # s)] else [([], prev, c # s)])"

definition some_of :: "(char \<Rightarrow> bool) \<Rightarrow> matcher" where
  "some_of p = followed (one p) (runs p)"

definition lazily :: "(char \<Rightarrow> bool) \<Rightarrow> matcher" where
  "lazily p prev s = rev (runs p prev s)"

definition captured :: "nat \<Rightarrow> matcher \<Rightarrow> matcher" where
  "captured n a prev s = map (\<lambda>(g, p, t). ((n, take (length s - length t) s) # g, p, t)) (a prev s)"

definition at_word_boundary :: matcher where
  "at_word_boundary prev s =
     (let before = (case prev of None \<Rightarrow> False | Some c \<Rightarrow> is_word c); after = (s \<noteq> [] \<and> is_word (hd s))
      in if before \<noteq> after then [([], prev, s)] else [])"

definition at_end :: matcher where
  "at_end prev s = (if s = [] \<or> s = [CHR 0x0A] then [([], prev, s)] else [])"

text \<open>Literal text without regard to case, several matchers in a row, and alternatives.\<close>

fun keyword :: "string \<Rightarrow> matcher" where
  "keyword [] = nothing"
| "keyword (c # w) = followed (one (\<lambda>x. lower_char x = lower_char c)) (keyword w)"

fun in_row :: "matcher list \<Rightarrow> matcher" where
  "in_row [] = nothing"
| "in_row (m # ms) = followed m (in_row ms)"

fun first_of :: "matcher list \<Rightarrow> matcher" where
  "first_of [] prev s = []"
| "first_of (m # ms) prev s = either m (first_of ms) prev s"

abbreviation gap :: matcher where
  "gap \<equiv> some_of is_space"

abbreviation opt_gap :: matcher where
  "opt_gap \<equiv> runs is_space"

abbreviation char_is :: "char \<Rightarrow> matcher" where
  "char_is c \<equiv> one (\<lambda>x. x = c)"

text \<open>A value between two quotes of one kind.\<close>

definition between :: "char \<Rightarrow> matcher" where
  "between q = in_row [char_is q, runs (\<lambda>x. x \<noteq> q), char_is q]"

section \<open>Searching\<close>

record found =
  fd_start :: nat
  fd_end :: nat
  fd_groups :: groups

definition group_of :: "found \<Rightarrow> nat \<Rightarrow> string option" where
  "group_of m n = map_of (fd_groups m) n"

text \<open>Every match of the text from a position on, leftmost first, none overlapping another.\<close>

function find_from :: "matcher \<Rightarrow> nat \<Rightarrow> char option \<Rightarrow> string \<Rightarrow> found list" where
  "find_from m pos prev s =
     (case m prev s of
        (g, p, t) # _ \<Rightarrow>
          if length t < length s
          then \<lparr>fd_start = pos, fd_end = pos + (length s - length t), fd_groups = g\<rparr>
                 # find_from m (pos + (length s - length t)) p t
          else \<lparr>fd_start = pos, fd_end = pos, fd_groups = g\<rparr>
                 # (case s of [] \<Rightarrow> [] | c # s' \<Rightarrow> find_from m (Suc pos) (Some c) s')
      | [] \<Rightarrow> (case s of [] \<Rightarrow> [] | c # s' \<Rightarrow> find_from m (Suc pos) (Some c) s'))"
  by pat_completeness auto
termination by (relation "measure (\<lambda>(m, pos, prev, s). length s)") auto

declare find_from.simps [simp del]

definition finditer :: "matcher \<Rightarrow> string \<Rightarrow> found list" where
  "finditer m s = find_from m 0 None s"

definition match_start :: "matcher \<Rightarrow> string \<Rightarrow> found option" where
  "match_start m s = (case m None s of [] \<Rightarrow> None
     | (g, p, t) # _ \<Rightarrow> Some \<lparr>fd_start = 0, fd_end = length s - length t, fd_groups = g\<rparr>)"

section \<open>Matches are parts of the text\<close>

text \<open>A matcher consumes from the front and captures what it consumed.\<close>

definition sane :: "matcher \<Rightarrow> bool" where
  "sane m \<longleftrightarrow> (\<forall>prev s. \<forall>(g, p, t) \<in> set (m prev s). suffix t s \<and> (\<forall>(n, v) \<in> set g. sublist v s))"

named_theorems sane_laws \<open>the combinators build sane matchers\<close>

lemma saneI: "(\<And>prev s g p t. (g, p, t) \<in> set (m prev s) \<Longrightarrow> suffix t s \<and> (\<forall>(n, v) \<in> set g. sublist v s)) \<Longrightarrow> sane m"
  unfolding sane_def by blast

lemma saneD: "sane m \<Longrightarrow> (g, p, t) \<in> set (m prev s) \<Longrightarrow> suffix t s \<and> (\<forall>(n, v) \<in> set g. sublist v s)"
  unfolding sane_def by blast

lemma sane_one [sane_laws]: "sane (one p)"
  by (rule saneI) (auto simp: one_def suffix_def split: list.splits if_splits)

lemma sane_nothing [sane_laws]: "sane nothing"
  by (rule saneI) (auto simp: nothing_def)

lemma sane_followed [sane_laws]:
  assumes "sane a" "sane b"
  shows "sane (followed a b)"
proof (rule saneI)
  fix prev s g p t
  assume "(g, p, t) \<in> set (followed a b prev s)"
  then obtain g1 p1 t1 g2 where w: "(g1, p1, t1) \<in> set (a prev s)" "(g2, p, t) \<in> set (b p1 t1)" "g = g1 @ g2"
    by (auto simp: followed_def)
  from saneD [OF assms(1) w(1)] saneD [OF assms(2) w(2)]
  have "suffix t1 s" "suffix t t1" and g: "\<forall>(n, v) \<in> set g1. sublist v s" "\<forall>(n, v) \<in> set g2. sublist v t1" by auto
  then have "suffix t s" by (meson suffix_order.trans)
  moreover have "sublist v s" if "sublist v t1" for v
    using that \<open>suffix t1 s\<close> by (metis sublist_order.order_trans suffix_imp_sublist)
  ultimately show "suffix t s \<and> (\<forall>(n, v) \<in> set g. sublist v s)"
    using g w(3) by fastforce
qed

lemma sane_either [sane_laws]: "sane a \<Longrightarrow> sane b \<Longrightarrow> sane (either a b)"
  by (rule saneI) (auto simp: either_def simp del: split_paired_All dest: saneD)

lemma sane_optional [sane_laws]: "sane a \<Longrightarrow> sane (optional a)"
  unfolding optional_def by (intro sane_laws)

lemma runs_way: "(g, p, t) \<in> set (runs c prev s) \<Longrightarrow> g = [] \<and> suffix t s"
  by (induction c prev s rule: runs.induct) (auto simp: suffix_Cons split: if_splits)

lemma sane_runs [sane_laws]: "sane (runs c)"
  by (rule saneI) (auto dest: runs_way)

lemma sane_some_of [sane_laws]: "sane (some_of c)"
  unfolding some_of_def by (intro sane_laws)

lemma sane_lazily [sane_laws]: "sane (lazily c)"
  by (rule saneI) (auto simp: lazily_def dest: runs_way)

lemma sane_captured [sane_laws]: "sane a \<Longrightarrow> sane (captured n a)"
proof (rule saneI)
  fix prev s g p t
  assume a: "sane a" and "(g, p, t) \<in> set (captured n a prev s)"
  then obtain g1 where w: "(g1, p, t) \<in> set (a prev s)" "g = (n, take (length s - length t) s) # g1"
    by (auto simp: captured_def)
  moreover have "sublist (take (length s - length t) s) s" by (simp add: prefix_imp_sublist take_is_prefix)
  ultimately show "suffix t s \<and> (\<forall>(n, v) \<in> set g. sublist v s)" using saneD [OF a w(1)] by auto
qed

lemma sane_places [sane_laws]: "sane at_word_boundary" "sane at_end"
  by (rule saneI, auto simp: at_word_boundary_def at_end_def Let_def split: if_splits)+

lemma sane_keyword [sane_laws]: "sane (keyword w)"
  by (induction w rule: keyword.induct) (simp_all add: sane_laws)

lemma sane_in_row [sane_laws]: "list_all sane ms \<Longrightarrow> sane (in_row ms)"
  by (induction ms rule: in_row.induct) (simp_all add: sane_laws)

lemma sane_first_of [sane_laws]: "list_all sane ms \<Longrightarrow> sane (first_of ms)"
proof (induction ms)
  case (Cons m ms)
  have "first_of (m # ms) = either m (first_of ms)" by (simp add: fun_eq_iff)
  with Cons show ?case by (simp add: sane_laws)
qed (simp add: sane_def)

text \<open>The matches of a text lie in it, in order and apart, and their groups are parts of it.\<close>

lemma find_from_in:
  "sane m \<Longrightarrow> f \<in> set (find_from m pos prev s) \<Longrightarrow>
     pos \<le> fd_start f \<and> fd_start f \<le> fd_end f \<and> fd_end f \<le> pos + length s \<and> (\<forall>(n, v) \<in> set (fd_groups f). sublist v s)"
proof (induction m pos prev s rule: find_from.induct)
  case (1 m pos prev s)
  have later: "pos \<le> fd_start f \<and> fd_start f \<le> fd_end f \<and> fd_end f \<le> pos + length s \<and> (\<forall>(n, v) \<in> set (fd_groups f). sublist v s)"
    if "pos + k \<le> fd_start f \<and> fd_start f \<le> fd_end f \<and> fd_end f \<le> pos + k + length t \<and> (\<forall>(n, v) \<in> set (fd_groups f). sublist v t)"
      and "k + length t \<le> length s" "suffix t s" for k t
    using that by (fastforce dest: suffix_imp_sublist intro: sublist_order.order_trans)
  show ?case
  proof (cases "m prev s")
    case Nil
    show ?thesis
    proof (cases s)
      case (Cons c s')
      with Nil "1.prems" have "f \<in> set (find_from m (Suc pos) (Some c) s')" by (simp add: find_from.simps [of m pos])
      from 1(1) [OF Nil Cons "1.prems"(1) this] show ?thesis
        by (intro later [of 1 s']) (simp_all add: Cons suffix_Cons)
    qed (use Nil "1.prems" in \<open>simp add: find_from.simps [of m pos]\<close>)
  next
    case (Cons w ws)
    obtain g p t where w: "w = (g, p, t)" by (cases w)
    have way: "suffix t s" "\<forall>(n, v) \<in> set g. sublist v s"
      using saneD [OF "1.prems"(1), of g p t prev s] by (auto simp: Cons w)
    then have len: "length t \<le> length s" by (simp add: suffix_length_le)
    show ?thesis
    proof (cases "length t < length s")
      case True
      have m: "m prev s = (g, p, t) # ws" by (simp add: Cons w)
      from True "1.prems"(2) consider "f = \<lparr>fd_start = pos, fd_end = pos + (length s - length t), fd_groups = g\<rparr>"
        | "f \<in> set (find_from m (pos + (length s - length t)) p t)"
        by (auto simp: find_from.simps [of m pos] m)
      then show ?thesis
      proof cases
        case 1
        with way len show ?thesis by auto
      next
        case 2
        from 1(2) [OF m refl refl True "1.prems"(1) 2] show ?thesis
          by (intro later [of "length s - length t" t]) (use way len in auto)
      qed
    next
      case False
      have m: "m prev s = (g, p, t) # ws" by (simp add: Cons w)
      from False "1.prems"(2) consider "f = \<lparr>fd_start = pos, fd_end = pos, fd_groups = g\<rparr>"
        | c s' where "s = c # s'" "f \<in> set (find_from m (Suc pos) (Some c) s')"
        by (auto simp: find_from.simps [of m pos] m split: list.splits)
      then show ?thesis
      proof cases
        case 1
        with way show ?thesis by auto
      next
        case (2 c s')
        from 1(3) [OF m refl refl False 2(1) "1.prems"(1) 2(2)] show ?thesis
          by (intro later [of 1 s']) (simp_all add: 2(1) suffix_Cons)
      qed
    qed
  qed
qed

lemma finditer_group:
  "sane m \<Longrightarrow> f \<in> set (finditer m s) \<Longrightarrow> group_of f n = Some v \<Longrightarrow> sublist v s"
  using find_from_in [of m f 0 None s] by (auto simp: finditer_def group_of_def dest: map_of_SomeD)

lemma finditer_bounds: "sane m \<Longrightarrow> f \<in> set (finditer m s) \<Longrightarrow> fd_start f \<le> fd_end f \<and> fd_end f \<le> length s"
  using find_from_in [of m f 0 None s] by (simp add: finditer_def)

section \<open>Lines\<close>

text \<open>\<open>splitlines\<close>, and the number of the line a position is in.\<close>

definition is_line_break :: "char \<Rightarrow> bool" where
  "is_line_break c = (let n = (of_char c :: nat) in (10 \<le> n \<and> n \<le> 13) \<or> (28 \<le> n \<and> n \<le> 30))"

fun split_lines :: "string \<Rightarrow> string \<Rightarrow> string list" where
  "split_lines acc [] = (if acc = [] then [] else [rev acc])"
| "split_lines acc [c] = (if is_line_break c then [rev acc] else [rev (c # acc)])"
| "split_lines acc (c # d # s) =
     (if c = CHR 0x0D \<and> d = CHR 0x0A then rev acc # split_lines [] s
      else if is_line_break c then rev acc # split_lines [] (d # s)
      else split_lines (c # acc) (d # s))"

definition py_splitlines :: "string \<Rightarrow> string list" where
  "py_splitlines s = split_lines [] s"

definition line_at :: "string \<Rightarrow> nat \<Rightarrow> nat" where
  "line_at s pos = length (filter (\<lambda>c. c = CHR 0x0A) (take pos s)) + 1"

definition matches :: "matcher \<Rightarrow> string \<Rightarrow> bool" where
  "matches m s \<longleftrightarrow> match_start m s \<noteq> None"

definition group_or_empty :: "found \<Rightarrow> nat \<Rightarrow> string" where
  "group_or_empty f n = (case group_of f n of None \<Rightarrow> [] | Some v \<Rightarrow> v)"

section \<open>Finding a text\<close>

text \<open>\<open>s.find(p)\<close>: the place of the first occurrence.\<close>

fun find_str :: "string \<Rightarrow> string \<Rightarrow> nat option" where
  "find_str p [] = (if p = [] then Some 0 else None)"
| "find_str p (c # s) = (if py_startswith (c # s) p then Some 0 else map_option Suc (find_str p s))"

lemma find_str_at: "find_str p s = Some k \<Longrightarrow> take (length p) (drop k s) = p"
  by (induction p s arbitrary: k rule: find_str.induct) (auto simp: py_startswith_def split: if_splits)

end
