(* ===== verification/SqlText.thy ===== *)
theory SqlText
  imports Regex "HOL-Library.Monad_Syntax"
begin

text \<open>
  Statements of SQL read off a text by hand, and the laws that compare a backtracking matcher with
  such a reader: what a keyword, a run of one class or an optional quote leaves for the rest of a
  pattern.  The patterns of \<open>_SQL_WRITE_RES\<close> and \<open>_SQL_READ_RES\<close> are in \<open>SqlLinks\<close>.
\<close>

definition quote_mark :: "char \<Rightarrow> bool" where
  "quote_mark c \<longleftrightarrow> c = CHR 0x60 \<or> c = CHR 0x22 \<or> c = CHR 0x27"

section \<open>Statements\<close>

text \<open>What is left of a text after a given text in any case, after white space, after a word, and
  after a quote when there is one.\<close>

definition starts_with_one :: "(char \<Rightarrow> bool) \<Rightarrow> string \<Rightarrow> bool" where
  "starts_with_one p s \<longleftrightarrow> s \<noteq> [] \<and> p (hd s)"

definition after_text :: "string \<Rightarrow> string \<Rightarrow> string option" where
  "after_text w s = (if py_lower (take (length w) s) = py_lower w then Some (drop (length w) s) else None)"

definition after_some :: "(char \<Rightarrow> bool) \<Rightarrow> string \<Rightarrow> string option" where
  "after_some p s = (if starts_with_one p s then Some (dropWhile p s) else None)"

definition after_quote :: "string \<Rightarrow> string" where
  "after_quote s = (if starts_with_one quote_mark s then tl s else s)"

text \<open>A name, with or without quotes, and what is left after it.\<close>

definition a_name :: "string \<Rightarrow> (string \<times> string) option" where
  "a_name s = do { t \<leftarrow> after_some is_word (after_quote s); Some (takeWhile is_word (after_quote s), after_quote t) }"

text \<open>What may stand after the table that is read: the end of the text, a comma or white space, and
  before it an alias; the longer reading is preferred.\<close>

definition or_else :: "'a option \<Rightarrow> 'a option \<Rightarrow> 'a option" where
  "or_else x y = (case x of None \<Rightarrow> y | Some _ \<Rightarrow> x)"

definition after_clause :: "string \<Rightarrow> string \<Rightarrow> string option" where
  "after_clause w s = do { t \<leftarrow> after_some is_space s; after_text w t }"

definition after_table :: "string \<Rightarrow> string option" where
  "after_table s =
     foldr (\<lambda>w r. or_else (after_clause w s) r) [''WHERE'', ''JOIN'', ''GROUP'', ''ORDER'', ''LIMIT'']
       (if starts_with_one (\<lambda>c. c = CHR '','' \<or> is_space c) s then Some (tl s)
        else if s = [] then Some [] else None)"

definition after_alias :: "string \<Rightarrow> string option" where
  "after_alias s = do {
     t \<leftarrow> after_some is_space s;
     or_else (do { u \<leftarrow> after_text ''AS'' t; u \<leftarrow> after_some is_space u; u \<leftarrow> after_some is_word u; after_table u })
             (do { u \<leftarrow> after_some is_word t; after_table u }) }"

datatype form = Inserts | Updates | Deletes | Merges | Froms | Joins

text \<open>The table that a statement of a form at the front of a text names, and what is left after
  it.\<close>

fun statement :: "form \<Rightarrow> string \<Rightarrow> (string \<times> string) option" where
  "statement Inserts s = do {
     t \<leftarrow> after_text ''INSERT'' s; t \<leftarrow> after_some is_space t;
     t \<leftarrow> or_else (do { u \<leftarrow> after_text ''OR'' t; u \<leftarrow> after_some is_space u; u \<leftarrow> after_some is_word u; after_some is_space u }) (Some t);
     t \<leftarrow> after_text ''INTO'' t; t \<leftarrow> after_some is_space t; a_name t }"
| "statement Updates s = do {
     t \<leftarrow> after_text ''UPDATE'' s; t \<leftarrow> after_some is_space t; (v, t) \<leftarrow> a_name t;
     t \<leftarrow> after_some is_space t; t \<leftarrow> after_text ''SET'' t; if starts_with_one is_word t then None else Some (v, t) }"
| "statement Deletes s = do {
     t \<leftarrow> after_text ''DELETE'' s; t \<leftarrow> after_some is_space t; t \<leftarrow> after_text ''FROM'' t; t \<leftarrow> after_some is_space t; a_name t }"
| "statement Merges s = do {
     t \<leftarrow> after_text ''MERGE'' s; t \<leftarrow> after_some is_space t; t \<leftarrow> after_text ''INTO'' t; t \<leftarrow> after_some is_space t; a_name t }"
| "statement Froms s = do {
     t \<leftarrow> after_text ''FROM'' s; t \<leftarrow> after_some is_space t; (v, t) \<leftarrow> a_name t;
     t \<leftarrow> or_else (after_alias t) (after_table t); Some (v, t) }"
| "statement Joins s = do { t \<leftarrow> after_text ''JOIN'' s; t \<leftarrow> after_some is_space t; a_name t }"

text \<open>The tables the statements of one form name in a text, from the left, none overlapping
  another; a statement begins where no word goes on.\<close>

definition char_before :: "char option \<Rightarrow> string \<Rightarrow> char option" where
  "char_before prev u = (if u = [] then prev else Some (last u))"

definition in_word :: "char option \<Rightarrow> bool" where
  "in_word prev \<longleftrightarrow> (case prev of None \<Rightarrow> False | Some c \<Rightarrow> is_word c)"

section \<open>Readers and matchers\<close>

text \<open>A matcher that has no way where a character of a class comes first.\<close>

definition refuses :: "(char \<Rightarrow> bool) \<Rightarrow> matcher \<Rightarrow> bool" where
  "refuses p m \<longleftrightarrow> (\<forall>prev s. starts_with_one p s \<longrightarrow> m prev s = [])"

named_theorems refusals \<open>what a pattern cannot begin with\<close>

lemma refusesI: "(\<And>prev c s. p c \<Longrightarrow> m prev (c # s) = []) \<Longrightarrow> refuses p m"
  unfolding refuses_def starts_with_one_def by (metis list.exhaust_sel)

lemma refusesD: "refuses p m \<Longrightarrow> p c \<Longrightarrow> m prev (c # s) = []"
  by (simp add: refuses_def starts_with_one_def)

lemma refuses_one [refusals]: "(\<And>c. p c \<Longrightarrow> \<not> q c) \<Longrightarrow> refuses p (one q)"
  by (rule refusesI) (auto simp: one_def)

lemma refuses_followed [refusals]: "refuses p a \<Longrightarrow> refuses p (followed a b)"
  by (rule refusesI) (simp add: followed_def refusesD)

lemma refuses_some_of [refusals]: "(\<And>c. p c \<Longrightarrow> \<not> q c) \<Longrightarrow> refuses p (some_of q)"
  unfolding some_of_def by (intro refusals)

lemma refuses_optional: "refuses p a \<Longrightarrow> refuses p b \<Longrightarrow> refuses p (followed (optional a) b)"
  by (rule refusesI) (simp add: followed_def optional_def either_def nothing_def refusesD)

lemma refuses_captured [refusals]: "refuses p a \<Longrightarrow> refuses p (captured n a)"
  by (rule refusesI) (simp add: captured_def refusesD)

lemma refuses_keyword [refusals]: "(\<And>x. p x \<Longrightarrow> lower_char x \<noteq> lower_char c) \<Longrightarrow> refuses p (keyword (c # w))"
  by (simp, intro refusals, blast)

text \<open>Rows of matchers, flattened.\<close>

definition after_way :: "matcher \<Rightarrow> way \<Rightarrow> way list" where
  "after_way b w = map (\<lambda>(g', w'). (fst w @ g', w')) (b (fst (snd w)) (snd (snd w)))"

lemma followed_ways: "followed a b prev s = concat (map (after_way b) (a prev s))"
  unfolding followed_def by (intro arg_cong [where f = concat] map_cong refl) (auto simp: after_way_def)

lemma after_two: "concat (map (after_way c) (after_way b w)) = after_way (followed b c) w"
proof -
  have "concat (map (after_way c) (map (\<lambda>(g', w'). (g @ g', w')) ws)) = map (\<lambda>(g', w'). (g @ g', w')) (concat (map (after_way c) ws))"
    for g and ws :: "way list"
    by (induction ws) (simp_all add: after_way_def split_beta)
  then show ?thesis by (simp add: after_way_def [of b] after_way_def [of "followed b c"] followed_ways)
qed

lemma followed_assoc: "followed (followed a b) c = followed a (followed b c)"
proof (intro ext)
  fix prev s
  have "concat (map (after_way c) (concat (map (after_way b) ws))) = concat (map (after_way (followed b c)) ws)" for ws
    by (induction ws) (simp_all add: after_two)
  then show "followed (followed a b) c prev s = followed a (followed b c) prev s" by (simp add: followed_ways)
qed

lemma followed_nothing [simp]: "followed a nothing = a"
proof (intro ext)
  fix prev s
  have "concat (map (after_way nothing) ws) = ws" for ws
    by (induction ws) (simp_all add: after_way_def nothing_def)
  then show "followed a nothing prev s = a prev s" by (simp add: followed_ways)
qed

lemma nothing_followed [simp]: "followed nothing a = a"
  by (intro ext) (simp add: followed_def nothing_def)

lemma optional_followed: "followed (optional a) b prev s = followed a b prev s @ b prev s"
  by (simp add: followed_def optional_def either_def nothing_def)

text \<open>What a matcher leaves to the rest of a row, where the first choice is the only one that the
  rest can take.\<close>

lemma one_then: "followed (one p) b prev s = (case s of [] \<Rightarrow> [] | c # t \<Rightarrow> if p c then b (Some c) t else [])"
  by (simp add: followed_def one_def split: list.splits)

lemma keyword_then:
  "followed (keyword w) b prev s = (case after_text w s of None \<Rightarrow> [] | Some t \<Rightarrow> b (char_before prev (take (length w) s)) t)"
proof (induction w arbitrary: prev s)
  case Nil
  then show ?case by (simp add: after_text_def char_before_def)
next
  case (Cons c w)
  have first: "followed (keyword (c # w)) b prev s = followed (one (\<lambda>x. lower_char x = lower_char c)) (followed (keyword w) b) prev s"
    by (simp only: keyword.simps followed_assoc)
  show ?case
  proof (cases s)
    case Nil
    then show ?thesis unfolding first one_then by (simp add: after_text_def py_lower_def)
  next
    case s: (Cons d t)
    have "after_text (c # w) s = (if lower_char d = lower_char c then after_text w t else None)"
      by (simp add: s after_text_def py_lower_def)
    moreover have "char_before (Some d) (take (length w) t) = char_before prev (take (length (c # w)) s)"
      by (simp add: s char_before_def)
    ultimately show ?thesis
      unfolding first one_then by (simp add: s Cons.IH split: option.splits)
  qed
qed

lemma runs_then: "refuses p b \<Longrightarrow> followed (runs p) b prev s = b (char_before prev (takeWhile p s)) (dropWhile p s)"
proof (induction p prev s rule: runs.induct)
  case (2 p prev c s)
  then show ?case
    by (auto simp: followed_def char_before_def refusesD)
qed (simp add: followed_def char_before_def)

lemma some_of_then:
  "refuses p b \<Longrightarrow> followed (some_of p) b prev s = (case after_some p s of None \<Rightarrow> [] | Some t \<Rightarrow> b (char_before prev (takeWhile p s)) t)"
  using runs_then [of p b "Some (hd s)" "tl s"]
  by (cases s) (auto simp: some_of_def followed_assoc after_some_def starts_with_one_def one_then char_before_def)

lemma quote_then:
  "refuses quote_mark b \<Longrightarrow> followed (optional (one quote_mark)) b prev s
     = b (if starts_with_one quote_mark s then Some (hd s) else prev) (after_quote s)"
  by (cases s) (simp_all add: optional_followed one_then after_quote_def starts_with_one_def refusesD)

section \<open>What a pattern finds\<close>

text \<open>The first group of the first way, and what it leaves of the text.\<close>

definition left :: "way list \<Rightarrow> string option" where
  "left ws = (case ws of [] \<Rightarrow> None | w # _ \<Rightarrow> Some (snd (snd w)))"

definition got :: "way list \<Rightarrow> (string \<times> string) option" where
  "got ws = (case ws of [] \<Rightarrow> None | w # _ \<Rightarrow> (case map_of (fst w) 1 of None \<Rightarrow> None | Some v \<Rightarrow> Some (v, snd (snd w))))"

lemma left_simps [simp]: "left [] = None" "left (xs @ ys) = or_else (left xs) (left ys)"
  by (simp_all add: left_def or_else_def split: list.splits option.splits)

lemma got_simps [simp]: "got [] = None"
  by (simp add: got_def)

lemma runs_ways:
  "\<exists>ws. runs p prev s = ([], char_before prev (takeWhile p s), dropWhile p s) # ws
     \<and> (\<forall>w \<in> set ws. fst w = [] \<and> starts_with_one p (snd (snd w)))"
proof (induction p prev s rule: runs.induct)
  case (2 p prev c s)
  then show ?case by (auto simp: char_before_def starts_with_one_def)
qed (simp add: char_before_def)

lemma some_of_ways:
  assumes "starts_with_one p s"
  shows "\<exists>ws. some_of p prev s = ([], char_before prev (takeWhile p s), dropWhile p s) # ws
     \<and> (\<forall>w \<in> set ws. fst w = [] \<and> starts_with_one p (snd (snd w)))"
proof -
  from assms obtain c t where s: "s = c # t" "p c" by (cases s) (auto simp: starts_with_one_def)
  then have "char_before prev (takeWhile p s) = char_before (Some c) (takeWhile p t)" "dropWhile p s = dropWhile p t"
    by (simp_all add: char_before_def)
  moreover from s have "some_of p prev s = runs p (Some c) t"
    by (simp add: some_of_def followed_def one_def split_beta)
  ultimately show ?thesis using runs_ways [of p "Some c" t] by (simp only:)
qed

lemma some_of_none: "\<not> starts_with_one p s \<Longrightarrow> some_of p prev s = []"
  by (cases s) (simp_all add: some_of_def one_then starts_with_one_def)

lemma run_taken: "take (length s - length (dropWhile p s)) s = takeWhile p s"
proof -
  have "length s = length (takeWhile p s) + length (dropWhile p s)"
    by (metis length_append takeWhile_dropWhile_id)
  then show ?thesis by (simp add: takeWhile_eq_take [symmetric])
qed

lemma name_then:
  assumes "refuses is_word b \<or> (\<forall>prev s. b prev s \<noteq> [])"
  shows "got (followed (captured 1 (some_of is_word)) b prev s) =
     (case after_some is_word s of None \<Rightarrow> None
      | Some t \<Rightarrow> map_option (Pair (takeWhile is_word s)) (left (b (char_before prev (takeWhile is_word s)) t)))"
proof (cases "starts_with_one is_word s")
  case False
  then show ?thesis by (simp add: followed_def captured_def some_of_none after_some_def)
next
  case True
  let ?v = "takeWhile is_word s" let ?t = "dropWhile is_word s"
  let ?p = "char_before prev ?v"
  from some_of_ways [OF True] obtain ws where ws: "some_of is_word prev s = ([], ?p, ?t) # ws"
      "\<forall>w \<in> set ws. fst w = [] \<and> starts_with_one is_word (snd (snd w))" by metis
  let ?m = "\<lambda>(g, p, t). ((1, take (length s - length t) s) # g, p, t)"
  have all: "followed (captured 1 (some_of is_word)) b prev s = after_way b ([(1, ?v)], ?p, ?t) @ concat (map (after_way b) (map ?m ws))"
    by (simp add: followed_ways captured_def ws(1) run_taken)
  have first: "got (after_way b ([(1, ?v)], ?p, ?t) @ more_ways) = map_option (Pair ?v) (left (b ?p ?t))"
    if "more_ways = [] \<or> b ?p ?t \<noteq> []" for more_ways
    using that by (cases "b ?p ?t") (auto simp: after_way_def got_def left_def split_beta)
  have "concat (map (after_way b) (map ?m ws)) = [] \<or> b ?p ?t \<noteq> []"
    using assms
  proof
    assume "refuses is_word b"
    with ws(2) have "\<forall>w \<in> set ws. after_way b (?m w) = []" by (auto simp: after_way_def refuses_def split_beta)
    then show ?thesis by simp
  qed blast
  then have "got (after_way b ([(1, ?v)], ?p, ?t) @ concat (map (after_way b) (map ?m ws))) = map_option (Pair ?v) (left (b ?p ?t))"
    by (rule first)
  then show ?thesis by (simp only: all after_some_def True if_True option.case)
qed

lemma left_keyword: "left (keyword w prev s) = after_text w s"
  using keyword_then [of w nothing prev s] by (simp add: nothing_def left_def split: option.splits)

lemma left_some_of: "left (some_of p prev s) = after_some p s"
  using some_of_ways [of p s prev] by (cases "starts_with_one p s") (auto simp: some_of_none after_some_def left_def)

lemma left_quote: "left (optional (one quote_mark) prev s) = Some (after_quote s)" "optional (one quote_mark) prev s \<noteq> []"
  by (cases s; simp add: optional_def either_def one_def nothing_def left_def after_quote_def starts_with_one_def)+

lemma boundary_then:
  "followed at_word_boundary b prev s = (if in_word prev \<noteq> starts_with_one is_word s then b prev s else [])"
  by (cases "in_word prev"; cases "starts_with_one is_word s")
    (auto simp: followed_def at_word_boundary_def in_word_def starts_with_one_def Let_def split: option.splits)

lemma left_followed: "left (followed (some_of p) b prev s) = (case after_some p s of None \<Rightarrow> None | Some t \<Rightarrow> left (b (char_before prev (takeWhile p s)) t))"
  if "refuses p b" for prev s
  by (simp add: some_of_then [OF that] split: option.splits)

text \<open>Two classes of characters that no character is in.\<close>

lemma apart [refusals]:
  "is_space c \<Longrightarrow> \<not> is_word c" "is_word c \<Longrightarrow> \<not> is_space c" "quote_mark c \<Longrightarrow> \<not> is_word c" "is_word c \<Longrightarrow> \<not> quote_mark c"
  "is_space c \<Longrightarrow> \<not> quote_mark c" "quote_mark c \<Longrightarrow> \<not> is_space c"
  by (auto simp: is_space_def is_word_def quote_mark_def Let_def)

lemma space_case: "is_space c \<Longrightarrow> lower_char c = c"
  by (auto simp: is_space_def lower_char_def Let_def)

lemma letter_no_space: "is_word (lower_char d) \<Longrightarrow> is_space c \<Longrightarrow> lower_char c \<noteq> lower_char d"
  using apart(1) space_case by metis

lemma word_case: "is_word (lower_char c) = is_word c"
  by (auto simp: is_word_def lower_char_def Let_def)

lemma in_word_after:
  assumes "after_text w s = Some t" "w \<noteq> []" "list_all is_word w"
  shows "in_word (char_before prev (take (length w) s))"
proof -
  from assms(1) have eq: "map lower_char (take (length w) s) = map lower_char w" by (auto simp: after_text_def py_lower_def split: if_splits)
  with assms(2) have ne: "take (length w) s \<noteq> []" by (metis list.map_disc_iff)
  have "lower_char (last (take (length w) s)) = lower_char (last w)"
    using eq last_map [OF ne, of lower_char] last_map [OF assms(2), of lower_char] by metis
  moreover from assms(2,3) have "is_word (last w)" by (simp add: list_all_iff)
  ultimately have "is_word (last (take (length w) s))" by (metis word_case)
  with ne show ?thesis by (simp add: in_word_def char_before_def)
qed

lemma word_begins: "after_text (c # w) s = Some t \<Longrightarrow> is_word c \<Longrightarrow> starts_with_one is_word s"
  by (cases s) (auto simp: after_text_def py_lower_def starts_with_one_def split: if_splits, metis word_case)

lemma boundary_keyword:
  "is_word c \<Longrightarrow> followed at_word_boundary (followed (keyword (c # w)) b) prev s =
     (if in_word prev then [] else followed (keyword (c # w)) b prev s)"
  using word_begins [of c w s] unfolding boundary_then keyword_then by (auto split: option.splits)

lemma left_keyword_boundary:
  "w \<noteq> [] \<Longrightarrow> list_all is_word w \<Longrightarrow>
     left (followed (keyword w) at_word_boundary prev s) = do { t \<leftarrow> after_text w s; if starts_with_one is_word t then None else Some t }"
  using in_word_after [of w s] unfolding keyword_then
  by (auto simp: at_word_boundary_def left_def in_word_def starts_with_one_def Let_def split: option.splits bind_splits)

text \<open>A matcher moves to the end of what it takes.\<close>

definition tracks :: "matcher \<Rightarrow> bool" where
  "tracks m \<longleftrightarrow> (\<forall>prev s. \<forall>w \<in> set (m prev s). \<exists>u. s = u @ snd (snd w) \<and> fst (snd w) = char_before prev u)"

named_theorems tracks_laws \<open>the combinators build matchers that track the text\<close>

lemma tracksI: "(\<And>prev s w. w \<in> set (m prev s) \<Longrightarrow> \<exists>u. s = u @ snd (snd w) \<and> fst (snd w) = char_before prev u) \<Longrightarrow> tracks m"
  unfolding tracks_def by blast

lemma tracksD: "tracks m \<Longrightarrow> w \<in> set (m prev s) \<Longrightarrow> \<exists>u. s = u @ snd (snd w) \<and> fst (snd w) = char_before prev u"
  unfolding tracks_def by blast

lemma before_append [simp]: "char_before (char_before prev u) v = char_before prev (u @ v)"
  by (simp add: char_before_def)

lemma tracks_here [tracks_laws]: "tracks nothing" "tracks at_word_boundary" "tracks at_end"
  by (rule tracksI, auto simp: nothing_def at_word_boundary_def at_end_def char_before_def Let_def split: if_splits)+

lemma tracks_one [tracks_laws]: "tracks (one p)"
proof (rule tracksI)
  fix prev s w
  assume "w \<in> set (one p prev s)"
  then obtain c t where "s = [c] @ t" "w = ([], Some c, t)" by (auto simp: one_def split: list.splits if_splits)
  then show "\<exists>u. s = u @ snd (snd w) \<and> fst (snd w) = char_before prev u"
    by (intro exI [of _ "[c]"]) (simp add: char_before_def)
qed

lemma tracks_followed [tracks_laws]:
  assumes "tracks a" "tracks b"
  shows "tracks (followed a b)"
proof (rule tracksI)
  fix prev s w
  assume "w \<in> set (followed a b prev s)"
  then obtain x where x: "x \<in> set (a prev s)" "w \<in> set (after_way b x)" by (auto simp: followed_ways)
  then obtain y where y: "y \<in> set (b (fst (snd x)) (snd (snd x)))" "snd w = snd y" by (auto simp: after_way_def)
  from tracksD [OF assms(1) x(1)] obtain u where u: "s = u @ snd (snd x)" "fst (snd x) = char_before prev u" by blast
  from tracksD [OF assms(2) y(1)] obtain v where v: "snd (snd x) = v @ snd (snd y)" "fst (snd y) = char_before (fst (snd x)) v" by blast
  have "s = (u @ v) @ snd (snd w)" unfolding y(2) append_assoc v(1) [symmetric] by (rule u(1))
  moreover have "fst (snd w) = char_before prev (u @ v)" unfolding y(2) v(2) u(2) by (rule before_append)
  ultimately show "\<exists>u. s = u @ snd (snd w) \<and> fst (snd w) = char_before prev u" by blast
qed

lemma tracks_either [tracks_laws]: "tracks a \<Longrightarrow> tracks b \<Longrightarrow> tracks (either a b)"
  by (rule tracksI) (auto simp: either_def dest: tracksD)

lemma tracks_optional [tracks_laws]: "tracks a \<Longrightarrow> tracks (optional a)"
  unfolding optional_def by (intro tracks_laws)

lemma tracks_runs [tracks_laws]: "tracks (runs p)"
proof (rule tracksI)
  fix prev s w
  show "w \<in> set (runs p prev s) \<Longrightarrow> \<exists>u. s = u @ snd (snd w) \<and> fst (snd w) = char_before prev u"
  proof (induction p prev s rule: runs.induct)
    case (2 p prev c s)
    then consider "snd w = (prev, c # s)" | "p c" "w \<in> set (runs p (Some c) s)" by (auto split: if_splits)
    then show ?case
    proof cases
      case 1
      then show ?thesis by (intro exI [of _ "[]"]) (simp add: char_before_def)
    next
      case 2
      with "2.IH" obtain u where "s = u @ snd (snd w)" "fst (snd w) = char_before (Some c) u" by blast
      then show ?thesis by (intro exI [of _ "c # u"]) (simp add: char_before_def)
    qed
  qed (simp add: char_before_def)
qed

lemma tracks_some_of [tracks_laws]: "tracks (some_of p)"
  unfolding some_of_def by (intro tracks_laws)

lemma tracks_captured [tracks_laws]: "tracks a \<Longrightarrow> tracks (captured n a)"
  by (rule tracksI) (auto simp: captured_def dest: tracksD)

lemma tracks_keyword [tracks_laws]: "tracks (keyword w)"
  by (induction w rule: keyword.induct) (simp_all add: tracks_laws)

lemma tracks_in_row [tracks_laws]: "list_all tracks ms \<Longrightarrow> tracks (in_row ms)"
  by (induction ms rule: in_row.induct) (simp_all add: tracks_laws)

lemma tracks_first_of [tracks_laws]: "list_all tracks ms \<Longrightarrow> tracks (first_of ms)"
proof (induction ms)
  case (Cons m ms)
  have "first_of (m # ms) = either m (first_of ms)" by (simp add: fun_eq_iff)
  with Cons show ?case by (simp add: tracks_laws)
qed (simp add: tracks_def)

section \<open>The tables named in a text\<close>

lemma text_shorter [dest]: "after_text w s = Some t \<Longrightarrow> length t \<le> length s"
  by (auto simp: after_text_def split: if_splits)

lemma word_shorter: "after_text (c # w) s = Some t \<Longrightarrow> length t < length s"
  by (cases s) (auto simp: after_text_def py_lower_def split: if_splits)

lemma some_shorter [dest]: "after_some p s = Some t \<Longrightarrow> length t < length s"
  by (cases s) (auto simp: after_some_def starts_with_one_def length_dropWhile_le le_imp_less_Suc split: if_splits)

lemma quote_shorter: "length (after_quote s) \<le> length s"
  by (simp add: after_quote_def)

lemma name_shorter [dest]: "a_name s = Some (v, t) \<Longrightarrow> length t < length s"
proof -
  assume "a_name s = Some (v, t)"
  then obtain u where "after_some is_word (after_quote s) = Some u" "t = after_quote u"
    by (auto simp: a_name_def bind_eq_Some_conv)
  with quote_shorter [of s] quote_shorter [of u] some_shorter [of is_word "after_quote s" u] show ?thesis by simp
qed

lemma or_else_Some: "or_else x y = Some z \<Longrightarrow> x = Some z \<or> y = Some z"
  by (simp add: or_else_def split: option.splits)

lemma table_shorter [dest]: "after_table s = Some t \<Longrightarrow> length t \<le> length s"
  by (fastforce simp: after_table_def after_clause_def bind_eq_Some_conv dest!: or_else_Some split: if_splits)

lemma alias_shorter [dest]: "after_alias s = Some t \<Longrightarrow> length t \<le> length s"
  by (fastforce simp: after_alias_def bind_eq_Some_conv dest!: or_else_Some)

lemma statement_shorter: "statement k s = Some (v, t) \<Longrightarrow> length t < length s"
  by (cases k)
    (auto simp: bind_eq_Some_conv dest!: or_else_Some word_shorter some_shorter name_shorter table_shorter alias_shorter split: if_splits)

text \<open>The tables that the statements of one form name, from the left, none overlapping another; a
  statement begins where no word goes on.\<close>

function names_in :: "form \<Rightarrow> char option \<Rightarrow> string \<Rightarrow> string list" where
  "names_in k prev s =
     (case if in_word prev then None else statement k s of
        Some (v, t) \<Rightarrow> v # names_in k (char_before prev (take (length s - length t) s)) t
      | None \<Rightarrow> (case s of [] \<Rightarrow> [] | c # s' \<Rightarrow> names_in k (Some c) s'))"
  by pat_completeness auto
termination
  by (relation "measure (\<lambda>(k, prev, s). length s)") (auto dest: statement_shorter split: if_splits)

declare names_in.simps [simp del]

text \<open>A matcher that always has its first group.\<close>

definition captures :: "matcher \<Rightarrow> bool" where
  "captures m \<longleftrightarrow> (\<forall>prev s. \<forall>w \<in> set (m prev s). 1 \<in> fst ` set (fst w))"

lemma captures_captured: "captures (captured 1 a)"
  by (auto simp: captures_def captured_def)

lemma captures_followed: "captures a \<or> captures b \<Longrightarrow> captures (followed a b)"
  unfolding captures_def by (fastforce simp: followed_ways after_way_def)

lemma captures_in_row: "list_ex captures ms \<Longrightarrow> captures (in_row ms)"
  by (induction ms rule: in_row.induct) (auto intro: captures_followed)

lemma captures_got: "captures m \<Longrightarrow> got (m prev s) = None \<Longrightarrow> m prev s = []"
proof (cases "m prev s")
  case (Cons w ws)
  assume "captures m" "got (m prev s) = None"
  then have "1 \<in> fst ` set (fst w)" unfolding captures_def Cons [symmetric] by (metis Cons list.set_intros(1))
  moreover from \<open>got (m prev s) = None\<close> have "map_of (fst w) 1 = None" by (simp add: got_def Cons split: option.splits)
  ultimately show ?thesis by (simp add: map_of_eq_None_iff)
qed simp

text \<open>A matcher that reads what the statements of a form say finds exactly their tables.\<close>

definition reads_form :: "form \<Rightarrow> matcher \<Rightarrow> bool" where
  "reads_form k m \<longleftrightarrow> tracks m \<and> (\<forall>prev s. got (m prev s) = (if in_word prev then None else statement k s)
     \<and> (got (m prev s) = None \<longrightarrow> m prev s = []))"

lemma reads_formD:
  assumes "reads_form k m"
  shows "tracks m" "got (m prev s) = (if in_word prev then None else statement k s)" "got (m prev s) = None \<Longrightarrow> m prev s = []"
  using assms unfolding reads_form_def by blast+

lemma finds_names:
  "reads_form k m \<Longrightarrow> map (\<lambda>f. group_of f 1) (find_from m pos prev s) = map Some (names_in k prev s)"
proof (induction m pos prev s rule: find_from.induct)
  case (1 m pos prev s)
  note reads = reads_formD [OF "1.prems"]
  show ?case
  proof (cases "m prev s")
    case Nil
    then have none: "(if in_word prev then None else statement k s) = None" using reads(2) [of prev s] by simp
    show ?thesis
    proof (cases s)
      case Nil
      then show ?thesis
        using none \<open>m prev s = []\<close> by (simp add: find_from.simps [of m pos] names_in.simps [of k prev] split: if_splits)
    next
      case (Cons c t)
      from 1(1) [OF \<open>m prev s = []\<close> Cons "1.prems"] show ?thesis
        using none \<open>m prev s = []\<close> unfolding find_from.simps [of m pos] names_in.simps [of k prev] Cons by (simp only: list.case option.case)
    qed
  next
    case (Cons w ws)
    obtain g p t where w: "w = (g, p, t)" by (cases w)
    have m: "m prev s = (g, p, t) # ws" by (simp add: Cons w)
    from reads(3) [of prev s] m obtain v where v: "map_of g 1 = Some v"
      by (cases "map_of g 1") (auto simp: got_def)
    with reads(2) [of prev s] m have named: "(if in_word prev then None else statement k s) = Some (v, t)"
      by (simp add: got_def)
    then have shorter: "length t < length s" by (auto dest: statement_shorter split: if_splits)
    from tracksD [OF reads(1), of w prev s] obtain u where u: "s = u @ t" "p = char_before prev u"
      by (auto simp: Cons w)
    then have p: "p = char_before prev (take (length s - length t) s)" by simp
    from 1(2) [OF m refl refl shorter "1.prems"] show ?thesis
      using shorter v named unfolding find_from.simps [of m pos] names_in.simps [of k prev] m p
      by (simp add: group_of_def)
  qed
qed

lemma finditer_names: "reads_form k m \<Longrightarrow> map (\<lambda>f. group_of f 1) (finditer m s) = map Some (names_in k None s)"
  unfolding finditer_def by (rule finds_names)

end
