(* ===== verification/SqlLinks.thy ===== *)
theory SqlLinks
  imports Models SqlText
begin

text \<open>
  The links from functions to tables (\<open>_derive_sql_links\<close> in \<open>graph_core/pipeline.py\<close>): the text
  of every function is searched for statements that name a table of the repository.  The text of
  a file, as decoded, is an argument, and none for a file that cannot be read.
\<close>

section \<open>Patterns\<close>

definition is_quote :: "char \<Rightarrow> bool" where
  "is_quote c \<longleftrightarrow> c = CHR 0x60 \<or> c = CHR 0x22 \<or> c = CHR 0x27"

abbreviation spaces :: matcher where
  "spaces \<equiv> some_of is_space"

abbreviation a_word :: matcher where
  "a_word \<equiv> some_of is_word"

definition table_name :: matcher where
  "table_name = in_row [optional (one is_quote), captured 1 a_word, optional (one is_quote)]"

definition SQL_WRITE_RES :: "matcher list" where
  "SQL_WRITE_RES =
     [in_row [at_word_boundary, keyword ''INSERT'', spaces, optional (in_row [keyword ''OR'', spaces, a_word, spaces]),
        keyword ''INTO'', spaces, table_name],
      in_row [at_word_boundary, keyword ''UPDATE'', spaces, table_name, spaces, keyword ''SET'', at_word_boundary],
      in_row [at_word_boundary, keyword ''DELETE'', spaces, keyword ''FROM'', spaces, table_name],
      in_row [at_word_boundary, keyword ''MERGE'', spaces, keyword ''INTO'', spaces, table_name]]"

definition SQL_READ_RES :: "matcher list" where
  "SQL_READ_RES =
     [in_row [at_word_boundary, keyword ''FROM'', spaces, table_name,
        optional (in_row [spaces, optional (in_row [keyword ''AS'', spaces]), a_word]),
        first_of [in_row [spaces, keyword ''WHERE''], in_row [spaces, keyword ''JOIN''], in_row [spaces, keyword ''GROUP''],
          in_row [spaces, keyword ''ORDER''], in_row [spaces, keyword ''LIMIT''],
          one (\<lambda>c. c = CHR '','' \<or> is_space c), at_end]],
      in_row [at_word_boundary, keyword ''JOIN'', spaces, table_name]]"

text \<open>A table name takes what \<open>a_name\<close> takes, also before a rest that cannot begin with a word or a
  quote.\<close>

lemma quote_marks: "is_quote = quote_mark"
  by (simp add: fun_eq_iff is_quote_def quote_mark_def)

lemma table_name_row: "table_name = followed (optional (one quote_mark)) (followed (captured 1 a_word) (optional (one quote_mark)))"
  by (simp add: table_name_def quote_marks)

lemma table_row_then: "followed table_name b =
    followed (optional (one quote_mark)) (followed (captured 1 a_word) (followed (optional (one quote_mark)) b))"
  by (simp add: table_name_row followed_assoc)

lemma some_word [refusals]: "refuses quote_mark a_word" "refuses is_space a_word"
  by (intro refusals; blast intro: apart)+

lemma refuses_name [refusals]: "refuses quote_mark (followed (captured 1 a_word) b)"
  by (intro refusals)

lemma got_name: "got (table_name prev s) = a_name s"
proof -
  have "got (table_name prev s) = got (followed (captured 1 a_word) (optional (one quote_mark))
      (if starts_with_one quote_mark s then Some (hd s) else prev) (after_quote s))"
    by (simp only: table_name_row quote_then [OF refuses_name])
  also have "\<dots> = a_name s"
    unfolding a_name_def by (subst name_then) (simp_all add: left_quote split: option.splits)
  finally show ?thesis .
qed

lemma got_table_then:
  assumes "refuses is_word b" "refuses quote_mark b" "\<And>q t. left (b q t) = r t"
  shows "got (followed table_name b prev s) = do { (v, t) \<leftarrow> a_name s; t \<leftarrow> r t; Some (v, t) }"
proof -
  let ?b = "followed (optional (one quote_mark)) b"
  have left: "left (?b q t) = r (after_quote t)" for q t
    by (simp only: quote_then [OF assms(2)] assms(3))
  have "refuses is_word ?b"
    by (rule refuses_optional [OF refuses_one assms(1)]) (rule apart)
  then have "got (followed table_name b prev s) = (case after_some is_word (after_quote s) of None \<Rightarrow> None
      | Some t \<Rightarrow> map_option (Pair (takeWhile is_word (after_quote s))) (r (after_quote t)))"
    by (simp only: table_row_then quote_then [OF refuses_name] name_then [OF disjI1] left)
  then show ?thesis by (simp add: a_name_def split: option.splits bind_splits)
qed

lemma table_name_laws: "tracks table_name" "captures table_name" "refuses is_space table_name"
proof -
  show "tracks table_name" by (simp add: table_name_def tracks_laws)
  show "captures table_name" unfolding table_name_row
    by (rule captures_followed, rule disjI2, rule captures_followed, rule disjI1, rule captures_captured)
  show "refuses is_space table_name"
    unfolding table_name_row by (intro refuses_optional refusals; blast intro: apart)
qed

lemma not_into: "after_text ''OR'' s = Some t \<Longrightarrow> after_text ''INTO'' s = None"
  by (cases s) (auto simp: after_text_def py_lower_def lower_char_def split: if_splits)

text \<open>Each pattern reads the statements of its form.\<close>

abbreviation word_pattern :: "string \<Rightarrow> matcher list \<Rightarrow> matcher" where
  "word_pattern w ms \<equiv> in_row (at_word_boundary # keyword w # spaces # ms)"

lemma reads_formI:
  assumes "list_all tracks ms" "list_ex captures ms" "refuses is_space (in_row ms)" "is_word c"
    "\<And>s. statement k s = do { t \<leftarrow> after_text (c # w) s; t \<leftarrow> after_some is_space t; r t }"
    "\<And>prev s. got (in_row ms prev s) = r s"
  shows "reads_form k (word_pattern (c # w) ms)"
  unfolding reads_form_def
proof (intro conjI allI impI)
  show "tracks (word_pattern (c # w) ms)"
    by (rule tracks_in_row) (simp add: assms(1) tracks_laws del: keyword.simps)
next
  fix prev s
  show "got (word_pattern (c # w) ms prev s) = (if in_word prev then None else statement k s)"
    by (simp add: boundary_keyword assms keyword_then some_of_then del: keyword.simps split: option.splits bind_splits)
next
  fix prev s
  assume "got (word_pattern (c # w) ms prev s) = None"
  moreover have "captures (word_pattern (c # w) ms)" by (rule captures_in_row) (simp add: assms(2))
  ultimately show "word_pattern (c # w) ms prev s = []" by (rule captures_got [rotated])
qed

lemma joins_read: "reads_form Joins (word_pattern ''JOIN'' [table_name])"
  by (rule reads_formI [where r = a_name]) (simp_all add: table_name_laws got_name is_word_def)

lemma keyword_no_space: "is_word c \<Longrightarrow> refuses is_space (in_row (keyword (c # w) # ms))"
  by (simp del: keyword.simps, intro refusals letter_no_space) (simp_all add: word_case)

lemma keyword_table:
  "got (in_row [keyword w, spaces, table_name] prev s) = do { t \<leftarrow> after_text w s; t \<leftarrow> after_some is_space t; a_name t }"
  by (simp add: keyword_then some_of_then table_name_laws got_name del: keyword.simps split: option.splits bind_splits)

lemma deletes_read: "reads_form Deletes (word_pattern ''DELETE'' [keyword ''FROM'', spaces, table_name])"
  by (rule reads_formI [OF _ _ keyword_no_space _ _ keyword_table])
    (simp_all add: table_name_laws tracks_laws is_word_def del: keyword.simps in_row.simps)

lemma merges_read: "reads_form Merges (word_pattern ''MERGE'' [keyword ''INTO'', spaces, table_name])"
  by (rule reads_formI [OF _ _ keyword_no_space _ _ keyword_table])
    (simp_all add: table_name_laws tracks_laws is_word_def del: keyword.simps in_row.simps)

lemma updates_read: "reads_form Updates (word_pattern ''UPDATE'' [table_name, spaces, keyword ''SET'', at_word_boundary])"
proof (rule reads_formI)
  let ?r = "\<lambda>t. do { t \<leftarrow> after_some is_space t; t \<leftarrow> after_text ''SET'' t; if starts_with_one is_word t then None else Some t }"
  let ?b = "in_row [spaces, keyword ''SET'', at_word_boundary]"
  have "refuses is_space (followed (keyword ''SET'') at_word_boundary)"
    using keyword_no_space [of "CHR ''S''" "''ET''" "[at_word_boundary]"] by (simp add: is_word_def del: keyword.simps)
  then have "left (?b q t) = ?r t" for q t
    using left_keyword_boundary [of "''SET''"] by (simp add: left_followed is_word_def del: keyword.simps split: option.splits bind_splits)
  moreover have "refuses is_word ?b" "refuses quote_mark ?b" by (simp, intro refusals, blast intro: apart)+
  ultimately show "got (in_row [table_name, spaces, keyword ''SET'', at_word_boundary] prev s) = do { (v, t) \<leftarrow> a_name s; t \<leftarrow> ?r t; Some (v, t) }" for prev s
    using got_table_then [of ?b ?r prev s] by (simp del: keyword.simps)
  show "refuses is_space (in_row [table_name, spaces, keyword ''SET'', at_word_boundary])"
    by (simp add: refuses_followed table_name_laws)
  show "statement Updates s = do { t \<leftarrow> after_text ''UPDATE'' s; t \<leftarrow> after_some is_space t; (v, t) \<leftarrow> a_name t; t \<leftarrow> ?r t; Some (v, t) }" for s
    by (simp split: bind_splits)
qed (simp_all add: table_name_laws tracks_laws is_word_def del: keyword.simps)

lemma inserts_read: "reads_form Inserts (word_pattern ''INSERT'' [optional (in_row [keyword ''OR'', spaces, a_word, spaces]), keyword ''INTO'', spaces, table_name])"
proof (rule reads_formI)
  let ?into = "in_row [keyword ''INTO'', spaces, table_name]"
  let ?r = "\<lambda>t. do { t \<leftarrow> after_text ''INTO'' t; t \<leftarrow> after_some is_space t; a_name t }"
  let ?or = "\<lambda>t. do { u \<leftarrow> after_text ''OR'' t; u \<leftarrow> after_some is_space u; u \<leftarrow> after_some is_word u; after_some is_space u }"
  have word: "refuses is_word (followed spaces b)" for b by (intro refusals apart(2))
  have into: "refuses is_space ?into" by (rule keyword_no_space) (simp add: is_word_def)
  have "refuses is_space (followed a_word b)" for b by (intro refusals apart(1))
  then have "got (followed (in_row [keyword ''OR'', spaces, a_word, spaces]) ?into prev s) = do { t \<leftarrow> ?or s; ?r t }" for prev s
    using into word keyword_table [of "''INTO''"]
    by (simp add: followed_assoc keyword_then some_of_then del: keyword.simps split: option.splits bind_splits)
  moreover have "got (?into prev s) = ?r s" for prev s by (rule keyword_table)
  moreover have "?into prev s = []" if "after_text ''OR'' s \<noteq> None" for prev s
    using that by (auto simp: keyword_then not_into simp del: keyword.simps)
  moreover have "followed (in_row [keyword ''OR'', spaces, a_word, spaces]) ?into prev s = []" if "after_text ''OR'' s = None" for prev s
    using that by (simp add: followed_assoc keyword_then del: keyword.simps)
  ultimately show "got (in_row [optional (in_row [keyword ''OR'', spaces, a_word, spaces]), keyword ''INTO'', spaces, table_name] prev s)
      = do { t \<leftarrow> or_else (?or s) (Some s); ?r t }" for prev s
    by (cases "after_text ''OR'' s") (simp_all add: in_row.simps(2) [of "optional _"] optional_followed or_else_def not_into
        del: keyword.simps in_row.simps split: option.splits bind_splits)
  show "refuses is_space (in_row [optional (in_row [keyword ''OR'', spaces, a_word, spaces]), keyword ''INTO'', spaces, table_name])"
    unfolding in_row.simps(2) [of "optional _"]
    by (rule refuses_optional [OF keyword_no_space into]) (simp add: is_word_def)
qed (simp_all add: table_name_laws tracks_laws is_word_def del: keyword.simps)

lemma clause_left: "left (in_row [spaces, keyword (c # w)] q t) = after_clause (c # w) t" if "is_word c"
  using keyword_no_space [OF that, of w "[]"]
  by (simp add: left_followed left_keyword after_clause_def del: keyword.simps split: option.splits bind_splits)

abbreviation table_end :: matcher where
  "table_end \<equiv> first_of [in_row [spaces, keyword ''WHERE''], in_row [spaces, keyword ''JOIN''], in_row [spaces, keyword ''GROUP''],
          in_row [spaces, keyword ''ORDER''], in_row [spaces, keyword ''LIMIT''],
          one (\<lambda>c. c = CHR '','' \<or> is_space c), at_end]"

lemma left_table_end: "left (table_end q t) = after_table t"
proof -
  have "or_else (left (one (\<lambda>c. c = CHR '','' \<or> is_space c) q t)) (left (at_end q t))
      = (if starts_with_one (\<lambda>c. c = CHR '','' \<or> is_space c) t then Some (tl t) else if t = [] then Some [] else None)"
    by (cases t) (auto simp: one_def at_end_def left_def or_else_def starts_with_one_def is_space_def Let_def)
  then show ?thesis
    by (simp add: either_def clause_left is_word_def after_table_def del: in_row.simps keyword.simps)
qed

lemma refuses_first_of: "list_all (refuses p) ms \<Longrightarrow> refuses p (first_of ms)"
  by (induction ms) (auto intro!: refusesI simp: either_def refusesD)

lemma spaced_refuses: "refuses is_word (followed spaces b)" "refuses quote_mark (followed spaces b)"
  by (intro refusals apart; assumption)+

lemma table_end_refuses: "refuses is_word table_end" "refuses quote_mark table_end"
proof -
  have "refuses is_word at_end" "refuses quote_mark at_end"
    by (auto intro!: refusesI simp: at_end_def is_word_def quote_mark_def)
  moreover have "refuses is_word (one (\<lambda>c. c = CHR '','' \<or> is_space c))" "refuses quote_mark (one (\<lambda>c. c = CHR '','' \<or> is_space c))"
    by (rule refuses_one, auto simp: is_word_def quote_mark_def is_space_def Let_def)+
  ultimately show "refuses is_word table_end" "refuses quote_mark table_end"
    by (intro refuses_first_of; simp add: spaced_refuses del: keyword.simps)+
qed

abbreviation table_alias :: matcher where
  "table_alias \<equiv> in_row [spaces, optional (in_row [keyword ''AS'', spaces]), a_word]"

lemma left_table_alias:
  assumes "refuses is_word e" "\<And>q t. left (e q t) = after_table t"
  shows "left (followed table_alias e q t) = after_alias t"
proof -
  let ?word = "followed a_word e"
  have word: "left (?word q t) = do { u \<leftarrow> after_some is_word t; after_table u }" for q t
    by (simp add: left_followed [OF assms(1)] assms(2) split: option.splits bind_splits)
  have space: "refuses is_space ?word" by (intro refusals apart(1))
  have as: "left (followed (in_row [keyword ''AS'', spaces]) ?word q t)
      = do { u \<leftarrow> after_text ''AS'' t; u \<leftarrow> after_some is_space u; u \<leftarrow> after_some is_word u; after_table u }" for q t
    by (simp add: followed_assoc keyword_then left_followed [OF space] word del: keyword.simps split: option.splits bind_splits)
  have "refuses is_space (followed (optional (in_row [keyword ''AS'', spaces])) ?word)"
    by (rule refuses_optional [OF keyword_no_space space]) (simp add: is_word_def)
  then have "left (followed table_alias e q t) = (case after_some is_space t of None \<Rightarrow> None
      | Some u \<Rightarrow> or_else (left (followed (in_row [keyword ''AS'', spaces]) ?word (char_before q (takeWhile is_space t)) u))
          (left (?word (char_before q (takeWhile is_space t)) u)))"
    by (simp add: followed_assoc left_followed optional_followed del: keyword.simps split: option.splits)
  then show ?thesis unfolding as word after_alias_def by (simp split: option.splits bind_splits)
qed

lemma froms_read: "reads_form Froms (word_pattern ''FROM'' [table_name, optional table_alias, table_end])"
proof (rule reads_formI)
  let ?b = "in_row [optional table_alias, table_end]"
  let ?r = "\<lambda>t. or_else (after_alias t) (after_table t)"
  have b: "?b = followed (optional table_alias) table_end" by (simp del: first_of.simps)
  have "left (?b q t) = ?r t" for q t
    unfolding b optional_followed left_simps left_table_alias [OF table_end_refuses(1) left_table_end] left_table_end ..
  moreover have "refuses is_word ?b" "refuses quote_mark ?b"
    unfolding b by (intro refuses_optional table_end_refuses; simp add: spaced_refuses)+
  ultimately show "got (in_row [table_name, optional table_alias, table_end] prev s) = do { (v, t) \<leftarrow> a_name s; t \<leftarrow> ?r t; Some (v, t) }" for prev s
    using got_table_then [of ?b ?r prev s] by (simp only: in_row.simps(2) [of table_name])
  show "refuses is_space (in_row [table_name, optional table_alias, table_end])"
    by (simp add: refuses_followed table_name_laws del: first_of.simps)
  show "list_all tracks [table_name, optional table_alias, table_end]"
    by (simp add: table_name_laws tracks_laws del: keyword.simps)
qed (simp_all add: table_name_laws is_word_def del: keyword.simps first_of.simps)

section \<open>The text of a function\<close>

text \<open>A bound of a slice: negative counts from the end, and beyond an end is that end.\<close>

definition slice_bound :: "int \<Rightarrow> nat \<Rightarrow> nat" where
  "slice_bound i n = min n (nat (if i < 0 then i + int n else i))"

definition py_slice :: "int \<Rightarrow> int \<Rightarrow> 'a list \<Rightarrow> 'a list" where
  "py_slice i j xs = drop (slice_bound i (length xs)) (take (slice_bound j (length xs)) xs)"

definition function_text :: "(string \<rightharpoonup> string) \<Rightarrow> slim_node \<Rightarrow> string option" where
  "function_text sources fn =
     map_option (\<lambda>source.
       let src_lines = py_splitlines source;
           start = max 0 (s_start_line fn - 1);
           stop = (if s_end_line fn \<noteq> 0 then s_end_line fn else int (length src_lines))
       in join_with CHR 0x0A (py_slice start stop src_lines)) (sources (s_file fn))"

section \<open>Links\<close>

definition tables_by_repo :: "slim_node list \<Rightarrow> string \<Rightarrow> string \<rightharpoonup> string" where
  "tables_by_repo nodes = fold (\<lambda>n m. if s_label n = ''Table''
     then m(s_repo n := (m (s_repo n))(py_lower (s_name n) \<mapsto> s_id n)) else m) nodes (\<lambda>_. Map.empty)"

definition sql_edge :: "string \<Rightarrow> slim_node \<Rightarrow> string \<Rightarrow> edge" where
  "sql_edge t fn tid = (mk_edge t (s_id fn) tid)\<lparr>e_confidence := INFERRED, e_origin := O_DERIVED,
     e_extractor := ''sql_linker'', e_evidence_file := s_file fn, e_evidence_line := s_start_line fn\<rparr>"

definition link_key :: "edge \<Rightarrow> string \<times> string \<times> string" where
  "link_key e = (e_src e, e_type e, e_dst e)"

type_synonym links = "edge list \<times> (string \<times> string \<times> string) set"

definition matched_table :: "(string \<rightharpoonup> string) \<Rightarrow> found \<Rightarrow> string option" where
  "matched_table tables m =
     (case group_of m 1 of None \<Rightarrow> None
      | Some v \<Rightarrow> (case tables (py_lower v) of Some tid \<Rightarrow> if tid = [] then None else Some tid | None \<Rightarrow> None))"

definition link_match :: "string \<Rightarrow> slim_node \<Rightarrow> (string \<rightharpoonup> string) \<Rightarrow> found \<Rightarrow> links \<Rightarrow> links" where
  "link_match t fn tables m acc =
     (case matched_table tables m of None \<Rightarrow> acc
      | Some tid \<Rightarrow> let e = sql_edge t fn tid in
          if link_key e \<in> snd acc then acc else (fst acc @ [e], insert (link_key e) (snd acc)))"

definition link_patterns :: "string \<Rightarrow> matcher list \<Rightarrow> slim_node \<Rightarrow> (string \<rightharpoonup> string) \<Rightarrow> string \<Rightarrow> links \<Rightarrow> links" where
  "link_patterns t pats fn tables text acc = fold (\<lambda>pat. fold (link_match t fn tables) (finditer pat text)) pats acc"

text \<open>A repository without tables is skipped by the source; here none of its matches names a table.\<close>

definition link_function :: "(string \<Rightarrow> string \<rightharpoonup> string) \<Rightarrow> (string \<rightharpoonup> string) \<Rightarrow> slim_node \<Rightarrow> links \<Rightarrow> links" where
  "link_function by_repo sources fn acc =
     (if s_label fn \<noteq> ''Function'' \<or> s_file fn = [] \<or> s_start_line fn = 0 then acc
      else case function_text sources fn of None \<Rightarrow> acc
        | Some text \<Rightarrow> link_patterns ''READS'' SQL_READ_RES fn (by_repo (s_repo fn)) text
            (link_patterns ''WRITES'' SQL_WRITE_RES fn (by_repo (s_repo fn)) text acc))"

definition derive_sql_links :: "slim_node list \<Rightarrow> (string \<rightharpoonup> string) \<Rightarrow> edge list" where
  "derive_sql_links nodes sources = fst (fold (link_function (tables_by_repo nodes) sources) nodes ([], {}))"

section \<open>What is linked\<close>

definition keep_link :: "edge \<Rightarrow> links \<Rightarrow> links" where
  "keep_link e acc = (if link_key e \<in> snd acc then acc else (fst acc @ [e], insert (link_key e) (snd acc)))"

lemma keep_links: "fold keep_link es acc = (fst acc @ kept link_key (snd acc) es, snd acc \<union> link_key ` set es)"
  by (induction es arbitrary: acc) (auto simp: keep_link_def kept_def split: prod.splits)

definition named_tables :: "matcher list \<Rightarrow> (string \<rightharpoonup> string) \<Rightarrow> string \<Rightarrow> string list" where
  "named_tables pats tables text = concat (map (\<lambda>pat. List.map_filter (matched_table tables) (finditer pat text)) pats)"

definition function_links :: "(string \<Rightarrow> string \<rightharpoonup> string) \<Rightarrow> (string \<rightharpoonup> string) \<Rightarrow> slim_node \<Rightarrow> edge list" where
  "function_links by_repo sources fn =
     (if s_label fn \<noteq> ''Function'' \<or> s_file fn = [] \<or> s_start_line fn = 0 then []
      else case function_text sources fn of None \<Rightarrow> []
        | Some text \<Rightarrow> map (sql_edge ''WRITES'' fn) (named_tables SQL_WRITE_RES (by_repo (s_repo fn)) text)
            @ map (sql_edge ''READS'' fn) (named_tables SQL_READ_RES (by_repo (s_repo fn)) text))"

lemma link_matches:
  "fold (link_match t fn tables) ms acc = fold keep_link (map (sql_edge t fn) (List.map_filter (matched_table tables) ms)) acc"
  by (induction ms arbitrary: acc)
    (simp_all add: link_match_def keep_link_def Let_def List.map_filter_simps split: option.splits)

lemma link_patterns_fold:
  "link_patterns t pats fn tables text acc = fold keep_link (map (sql_edge t fn) (named_tables pats tables text)) acc"
  unfolding link_patterns_def named_tables_def
  by (induction pats arbitrary: acc) (simp_all add: link_matches)

lemma link_function_fold: "link_function by_repo sources fn acc = fold keep_link (function_links by_repo sources fn) acc"
  by (simp add: link_function_def function_links_def link_patterns_fold split: option.splits)

lemma derive_sql_kept:
  "derive_sql_links nodes sources = kept link_key {} (concat (map (function_links (tables_by_repo nodes) sources) nodes))"
proof -
  have "fold (link_function by_repo sources) fns acc = fold keep_link (concat (map (function_links by_repo sources) fns)) acc"
    for by_repo fns acc
    by (induction fns arbitrary: acc) (simp_all add: link_function_fold)
  then show ?thesis by (simp add: derive_sql_links_def keep_links)
qed

lemma tables_held: "tables_by_repo nodes r nm = map_option s_id (find (\<lambda>n. s_label n = ''Table'' \<and> s_repo n = r \<and> py_lower (s_name n) = nm) (rev nodes))"
proof -
  have "fold (\<lambda>n m. if s_label n = ''Table'' then m(s_repo n := (m (s_repo n))(py_lower (s_name n) \<mapsto> s_id n)) else m) ns m r nm
      = (case find (\<lambda>n. s_label n = ''Table'' \<and> s_repo n = r \<and> py_lower (s_name n) = nm) (rev ns) of
           Some n \<Rightarrow> Some (s_id n) | None \<Rightarrow> m r nm)" for ns and m :: "string \<Rightarrow> string \<rightharpoonup> string"
    by (induction ns arbitrary: m) (auto simp: find_snoc split: option.splits)
  from this [of nodes "\<lambda>_. Map.empty"] show ?thesis
    unfolding tables_by_repo_def by (simp add: map_option_case)
qed

text \<open>The tables of a repository that have a name, whatever its case; the last of them is the one
  that is linked.\<close>

definition namesakes :: "slim_node list \<Rightarrow> string \<Rightarrow> string \<Rightarrow> slim_node list" where
  "namesakes nodes r v = filter (\<lambda>n. s_label n = ''Table'' \<and> s_repo n = r \<and> py_lower (s_name n) = py_lower v) nodes"

definition linked_table :: "slim_node list \<Rightarrow> string \<Rightarrow> string \<Rightarrow> string \<Rightarrow> bool" where
  "linked_table nodes r v tid \<longleftrightarrow> namesakes nodes r v \<noteq> [] \<and> tid = s_id (last (namesakes nodes r v)) \<and> tid \<noteq> []"

lemma find_rev: "find P (rev xs) = (if filter P xs = [] then None else Some (last (filter P xs)))"
  by (induction xs rule: rev_induct) auto

lemma looked_up: "(case tables_by_repo nodes r (py_lower v) of Some tid \<Rightarrow> if tid = [] then None else Some tid | None \<Rightarrow> None) = Some tid
    \<longleftrightarrow> linked_table nodes r v tid"
  by (auto simp: tables_held find_rev linked_table_def namesakes_def)

text \<open>The forms of statement that write and that read.\<close>

definition forms_of :: "string \<Rightarrow> form list" where
  "forms_of kind = (if kind = ''WRITES'' then [Inserts, Updates, Deletes, Merges] else if kind = ''READS'' then [Froms, Joins] else [])"

lemma patterns_read: "list_all2 reads_form (forms_of ''WRITES'') SQL_WRITE_RES" "list_all2 reads_form (forms_of ''READS'') SQL_READ_RES"
  using inserts_read updates_read deletes_read merges_read froms_read joins_read
  by (simp_all add: forms_of_def SQL_WRITE_RES_def SQL_READ_RES_def del: in_row.simps keyword.simps first_of.simps)

lemma matched_linked:
  "matched_table (tables_by_repo nodes r) f = Some tid \<longleftrightarrow> (\<exists>v. group_of f 1 = Some v \<and> linked_table nodes r v tid)"
proof (cases "group_of f 1")
  case (Some v)
  then show ?thesis unfolding matched_table_def Some option.case looked_up by simp
qed (simp add: matched_table_def)

lemma named_tables_spoken:
  assumes "list_all2 reads_form ks pats"
  shows "tid \<in> set (named_tables pats (tables_by_repo nodes r) body) \<longleftrightarrow> (\<exists>k \<in> set ks. \<exists>v \<in> set (names_in k None body). linked_table nodes r v tid)"
  using assms
proof (induction rule: list_all2_induct)
  case (Cons k ks m pats)
  have "tid \<in> set (List.map_filter (matched_table (tables_by_repo nodes r)) (finditer m body))
      \<longleftrightarrow> (\<exists>x \<in> set (map (\<lambda>f. group_of f 1) (finditer m body)). \<exists>v. x = Some v \<and> linked_table nodes r v tid)"
    unfolding map_filter_mem matched_linked by simp
  also have "\<dots> \<longleftrightarrow> (\<exists>v \<in> set (names_in k None body). linked_table nodes r v tid)"
    unfolding finditer_names [OF Cons.hyps(1)] by auto
  finally show ?case using Cons.IH by (simp add: named_tables_def)
qed (simp add: named_tables_def)

text \<open>The lines of a function, which are numbered from one: an end of zero is the last line, and a
  negative one counts from the end.\<close>

definition final_line :: "int \<Rightarrow> string list \<Rightarrow> int" where
  "final_line i ls = (if i = 0 then int (length ls) else if i < 0 then i + int (length ls) else i)"

definition own_text :: "(string \<rightharpoonup> string) \<Rightarrow> slim_node \<Rightarrow> string option" where
  "own_text sources fn = map_option (\<lambda>source. let ls = py_splitlines source in
     join_with CHR 0x0A (nths ls {i. s_start_line fn \<le> int i + 1 \<and> int i + 1 \<le> final_line (s_end_line fn) ls})) (sources (s_file fn))"

lemma nths_between: "nths xs {i. m \<le> i \<and> i < k} = drop m (take k xs)"
proof (induction xs arbitrary: m k)
  case (Cons x xs)
  have "{j. m \<le> Suc j \<and> Suc j < k} = {i. m - 1 \<le> i \<and> i < k - 1}" by auto
  with Cons.IH [of "m - 1" "k - 1"] show ?case
    by (cases m; cases k) (simp_all add: nths_Cons)
qed simp

lemma drop_min: "drop (min (length xs) m) (take k xs) = drop m (take k xs)"
  by (cases "m \<le> length xs") simp_all

lemma own_text_lines: "function_text sources fn = own_text sources fn"
proof -
  have "py_slice (max 0 (s_start_line fn - 1)) (if s_end_line fn \<noteq> 0 then s_end_line fn else int (length ls)) ls
      = nths ls {i. s_start_line fn \<le> int i + 1 \<and> int i + 1 \<le> final_line (s_end_line fn) ls}" for ls :: "string list"
  proof -
    let ?m = "nat (s_start_line fn - 1)" let ?k = "nat (final_line (s_end_line fn) ls)"
    have lines: "{i. s_start_line fn \<le> int i + 1 \<and> int i + 1 \<le> final_line (s_end_line fn) ls} = {i. ?m \<le> i \<and> i < ?k}" by auto
    have first: "slice_bound (max 0 (s_start_line fn - 1)) (length ls) = min (length ls) ?m"
      by (simp add: slice_bound_def max_def)
    have final: "slice_bound (if s_end_line fn \<noteq> 0 then s_end_line fn else int (length ls)) (length ls) = min (length ls) ?k"
      by (simp add: slice_bound_def final_line_def)
    have "take (min (length ls) ?k) ls = take ?k ls" by (cases "?k \<le> length ls") simp_all
    then show ?thesis unfolding lines nths_between py_slice_def first final by (simp only: drop_min)
  qed
  then show ?thesis by (simp add: function_text_def own_text_def Let_def)
qed

lemma link_key_edge [simp]: "link_key (sql_edge t fn tid) = (s_id fn, t, tid)"
  by (simp add: link_key_def sql_edge_def mk_edge_def)

lemma link_keys_of: "link_key ` set (map (sql_edge t fn) ts) = (\<lambda>tid. (s_id fn, t, tid)) ` set ts"
  by force

lemma link_evidence:
  "e \<in> set (function_links by_repo sources fn) \<Longrightarrow> e_src e = s_id fn \<and> e_evidence_file e = s_file fn
     \<and> e_evidence_line e = s_start_line fn \<and> e_confidence e = INFERRED \<and> e_origin e = O_DERIVED"
  by (auto simp: function_links_def sql_edge_def mk_edge_def split: if_splits option.splits)

text \<open>A function accesses a table when a statement in its lines names it.\<close>

definition accesses :: "slim_node list \<Rightarrow> (string \<rightharpoonup> string) \<Rightarrow> slim_node \<Rightarrow> string \<Rightarrow> string \<Rightarrow> bool" where
  "accesses nodes sources fn kind tid \<longleftrightarrow> s_label fn = ''Function'' \<and> s_file fn \<noteq> [] \<and> s_start_line fn \<noteq> 0
     \<and> (\<exists>body k v. own_text sources fn = Some body \<and> k \<in> set (forms_of kind) \<and> v \<in> set (names_in k None body)
          \<and> linked_table nodes (s_repo fn) v tid)"

lemma link_keys_accessed:
  "x \<in> link_key ` set (function_links (tables_by_repo nodes) sources fn) \<longleftrightarrow>
     (\<exists>kind tid. x = (s_id fn, kind, tid) \<and> accesses nodes sources fn kind tid)"
proof (cases "s_label fn \<noteq> ''Function'' \<or> s_file fn = [] \<or> s_start_line fn = 0 \<or> own_text sources fn = None")
  case True
  then show ?thesis by (auto simp: function_links_def accesses_def own_text_lines)
next
  case False
  then obtain body where body: "own_text sources fn = Some body" by auto
  let ?named = "\<lambda>pats. set (named_tables pats (tables_by_repo nodes (s_repo fn)) body)"
  from False have links: "function_links (tables_by_repo nodes) sources fn =
      map (sql_edge ''WRITES'' fn) (named_tables SQL_WRITE_RES (tables_by_repo nodes (s_repo fn)) body)
      @ map (sql_edge ''READS'' fn) (named_tables SQL_READ_RES (tables_by_repo nodes (s_repo fn)) body)"
    by (simp add: function_links_def own_text_lines body)
  let ?spoken = "\<lambda>kind tid. \<exists>k \<in> set (forms_of kind). \<exists>v \<in> set (names_in k None body). linked_table nodes (s_repo fn) v tid"
  have asked: "accesses nodes sources fn kind tid \<longleftrightarrow> ?spoken kind tid" for kind tid
    using False unfolding accesses_def body by simp blast
  have "?spoken kind tid \<longleftrightarrow> kind = ''WRITES'' \<and> ?spoken ''WRITES'' tid \<or> kind = ''READS'' \<and> ?spoken ''READS'' tid" for kind tid
    by (cases "kind = ''WRITES''"; cases "kind = ''READS''") (simp_all add: forms_of_def)
  then have kinds: "accesses nodes sources fn kind tid \<longleftrightarrow>
      kind = ''WRITES'' \<and> tid \<in> ?named SQL_WRITE_RES \<or> kind = ''READS'' \<and> tid \<in> ?named SQL_READ_RES" for kind tid
    unfolding asked named_tables_spoken [OF patterns_read(1)] named_tables_spoken [OF patterns_read(2)] .
  have "x \<in> link_key ` set (function_links (tables_by_repo nodes) sources fn) \<longleftrightarrow>
      (\<exists>tid \<in> ?named SQL_WRITE_RES. x = (s_id fn, ''WRITES'', tid)) \<or> (\<exists>tid \<in> ?named SQL_READ_RES. x = (s_id fn, ''READS'', tid))"
    unfolding links set_append image_Un link_keys_of by blast
  also have "\<dots> \<longleftrightarrow> (\<exists>kind tid. x = (s_id fn, kind, tid) \<and> accesses nodes sources fn kind tid)"
    unfolding kinds by blast
  finally show ?thesis .
qed

lemma linked_table_in: "linked_table nodes r v tid \<Longrightarrow> tid \<in> s_id ` set nodes"
proof -
  assume "linked_table nodes r v tid"
  then have "namesakes nodes r v \<noteq> []" "tid = s_id (last (namesakes nodes r v))" by (auto simp: linked_table_def)
  with last_in_set [of "namesakes nodes r v"] show ?thesis by (simp add: namesakes_def)
qed

lemma link_ends:
  assumes "e \<in> set (derive_sql_links nodes sources)"
  shows "e_type e \<in> {''READS'', ''WRITES''} \<and> e_src e \<in> s_id ` set nodes \<and> e_dst e \<in> s_id ` set nodes"
proof -
  from kept_mem [OF assms [unfolded derive_sql_kept]] obtain fn where
    "fn \<in> set nodes" "link_key e \<in> link_key ` set (function_links (tables_by_repo nodes) sources fn)" by auto
  then obtain kind tid where "fn \<in> set nodes" "link_key e = (s_id fn, kind, tid)" "accesses nodes sources fn kind tid"
    unfolding link_keys_accessed by blast
  then show ?thesis by (auto simp: link_key_def accesses_def forms_of_def dest: linked_table_in split: if_splits)
qed

text \<open>C36: the links are exactly these: one for every function with text, every kind of access and every
  table such that a statement of that kind in the lines of the function names the table.  The
  statements of one form are read from the left, none overlapping another, by \<open>statement\<close>; and
  a name stands, whatever its case, for one table: the last of that name in the repository of
  the function.  Every link keeps the file and the first line of its function as evidence, and
  none is made twice.\<close>

theorem sql_links_exact:
  "link_key ` set (derive_sql_links nodes sources) =
     {(s_id fn, kind, tid) | fn kind tid. fn \<in> set nodes \<and> accesses nodes sources fn kind tid}
   \<and> distinct (map link_key (derive_sql_links nodes sources))
   \<and> list_all (\<lambda>e. list_ex (\<lambda>fn. s_id fn = e_src e \<and> e_evidence_file e = s_file fn \<and> e_evidence_line e = s_start_line fn) nodes
       \<and> e_confidence e = INFERRED \<and> e_origin e = O_DERIVED) (derive_sql_links nodes sources)"
proof -
  let ?all = "concat (map (function_links (tables_by_repo nodes) sources) nodes)"
  have "x \<in> link_key ` set ?all \<longleftrightarrow> (\<exists>fn \<in> set nodes. x \<in> link_key ` set (function_links (tables_by_repo nodes) sources fn))" for x
    by auto
  then have "link_key ` set ?all = {(s_id fn, kind, tid) | fn kind tid. fn \<in> set nodes \<and> accesses nodes sources fn kind tid}"
    unfolding link_keys_accessed by blast
  moreover have "list_all (\<lambda>e. list_ex (\<lambda>fn. s_id fn = e_src e \<and> e_evidence_file e = s_file fn \<and> e_evidence_line e = s_start_line fn) nodes
       \<and> e_confidence e = INFERRED \<and> e_origin e = O_DERIVED) ?all"
    using link_evidence by (fastforce simp: list_all_iff list_ex_iff)
  ultimately show ?thesis
    unfolding derive_sql_kept kept_keys
    using kept_distinct [of link_key "{}" ?all] by (auto simp: list_all_iff dest!: kept_mem)
qed

text \<open>Every name a statement gives stands in the text.\<close>

lemma patterns_sane: "list_all sane SQL_WRITE_RES" "list_all sane SQL_READ_RES"
  by (auto simp: SQL_WRITE_RES_def SQL_READ_RES_def table_name_def intro!: sane_laws)

lemma names_in_text: "v \<in> set (names_in k None s) \<Longrightarrow> sublist v s"
proof -
  assume v: "v \<in> set (names_in k None s)"
  have "\<exists>m. reads_form k m \<and> sane m" if "list_all2 reads_form ks pats" "list_all sane pats" "k \<in> set ks" for ks pats
    using that by (induction rule: list_all2_induct) auto
  moreover have "k \<in> set (forms_of ''WRITES'') \<or> k \<in> set (forms_of ''READS'')" by (cases k) (simp_all add: forms_of_def)
  ultimately obtain m where m: "reads_form k m" "sane m" using patterns_read patterns_sane by blast
  have "Some v \<in> set (map (\<lambda>f. group_of f 1) (finditer m s))" unfolding finditer_names [OF m(1)] using v by simp
  with finditer_group [OF m(2)] show ?thesis by fastforce
qed

text \<open>A deletion also reads, and a table read right after another table is taken for its alias.\<close>

lemma deletion_reads:
  "names_in Deletes None ''delete from t where a'' = [''t'']" "names_in Froms None ''delete from t where a'' = [''t'']"
  "names_in Froms None ''from t from u'' = [''t'']"
  by code_simp+

text \<open>What the patterns miss and what they take: the first read pattern asks for white space, a comma or
  the end after the name, so a query that ends its string literal before a parenthesis is not a
  read; and the lines of a function are cut at form feeds, which its line numbers do not
  count.\<close>

lemma read_missed: "match_start (hd SQL_READ_RES) ''from t`)'' = None"
  by code_simp

lemma form_feed_shifts_lines:
  "py_splitlines [CHR ''a'', CHR 0x0C, CHR 0x0A, CHR ''b''] = [''a'', [], ''b'']"
  by code_simp

end
