(* ===== verification/GraphStore.thy ===== *)
theory GraphStore
  imports Canonical ResolveProps
begin

text \<open>
  The database as \<open>graph_core/store.py\<close> uses it: nodes with labels and properties, found by the id
  that the constraint of \<open>bootstrap\<close> makes unique, and one relationship per type and pair of
  nodes, as every relationship is merged.  A statement is a function on the database; a batch
  size only cuts one statement into several.  The rows of one query are written in their order,
  which is what the default of one writer does.  Only the code graph is here: the node of the
  build lock is in the theory on builds.
\<close>

section \<open>State\<close>

record db_node =
  dn_labels :: "string set"
  dn_props :: "string \<rightharpoonup> prop_val"

type_synonym rel_key = "string \<times> string \<times> string"

record graph_db =
  db_nodes :: "string \<rightharpoonup> db_node"
  db_rels :: "rel_key \<rightharpoonup> (string \<rightharpoonup> prop_val)"

datatype store_error = Unknown_Label | Unknown_Edge_Type

definition SHARED_LABEL :: string where
  "SHARED_LABEL = ''CodeNode''"

definition NODE_LABELS :: "string set" where
  "NODE_LABELS = {''Repository'', ''Package'', ''File'', ''Module'', ''Class'', ''Function'', ''Field'', ''Annotation'',
     ''Endpoint'', ''Event'', ''Policy'', ''Table'', ''External''}"

definition EDGE_TYPES :: "string set" where
  "EDGE_TYPES = {''CONTAINS'', ''BELONGS_TO'', ''IMPORTS'', ''CALLS'', ''INSTANTIATES'', ''EXTENDS'', ''IMPLEMENTS'',
     ''ANNOTATED_WITH'', ''RETURNS'', ''OF_TYPE'', ''HAS_TYPE'', ''HAS_GENERIC'', ''OVERRIDES'', ''READS'', ''WRITES'',
     ''THROWS'', ''CATCHES'', ''EXPOSES'', ''CALLS_API'', ''RENDERS'', ''INCLUDES_SCRIPT'', ''INCLUDES_PAGE'',
     ''HANDLED_BY'', ''REFERENCES'', ''CALLS_EXTERNAL'', ''AUTOWIRED'', ''RE_EXPORTS'', ''EMITS_EVENT'',
     ''CONSUMES_EVENT'', ''REQUIRES_AUTH'', ''ENFORCES_POLICY''}"

section \<open>Writing\<close>

definition rel_key :: "edge \<Rightarrow> rel_key" where
  "rel_key e = (e_type e, e_src e, e_dst e)"

definition node_row :: "int \<Rightarrow> node \<Rightarrow> db_node option \<Rightarrow> db_node" where
  "node_row ts n old =
     (case old of
        None \<Rightarrow> \<lparr>dn_labels = {SHARED_LABEL, n_label n},
                 dn_props = [''id'' \<mapsto> PStr (n_id n)] ++ map_of (node_props n) ++ [''last_indexed'' \<mapsto> PInt ts]\<rparr>
      | Some d \<Rightarrow> \<lparr>dn_labels = insert (n_label n) (dn_labels d),
                   dn_props = dn_props d ++ map_of (node_props n) ++ [''last_indexed'' \<mapsto> PInt ts]\<rparr>)"

definition merge_node :: "int \<Rightarrow> node \<Rightarrow> graph_db \<Rightarrow> graph_db" where
  "merge_node ts n db = db\<lparr>db_nodes := (db_nodes db)(n_id n \<mapsto> node_row ts n (db_nodes db (n_id n)))\<rparr>"

definition edge_row :: "edge \<Rightarrow> (string \<rightharpoonup> prop_val) option \<Rightarrow> string \<rightharpoonup> prop_val" where
  "edge_row e old = (case old of None \<Rightarrow> map_of (edge_props e) | Some p \<Rightarrow> p ++ map_of (edge_props e))"

definition joins_nodes :: "graph_db \<Rightarrow> edge \<Rightarrow> bool" where
  "joins_nodes db e \<longleftrightarrow> db_nodes db (e_src e) \<noteq> None \<and> db_nodes db (e_dst e) \<noteq> None"

text \<open>An edge without one of its ends matches no row and is left out.\<close>

definition merge_edge :: "edge \<Rightarrow> graph_db \<Rightarrow> graph_db" where
  "merge_edge e db = (if joins_nodes db e
     then db\<lparr>db_rels := (db_rels db)(rel_key e \<mapsto> edge_row e (db_rels db (rel_key e)))\<rparr> else db)"

definition by_label :: "node list \<Rightarrow> node list" where
  "by_label ns = concat (map snd (fold (\<lambda>n g. group_add (n_label n) n g) ns []))"

definition by_type :: "edge list \<Rightarrow> edge list" where
  "by_type es = concat (map snd (fold (\<lambda>e g. group_add (e_type e) e g) es []))"

definition written :: "edge list \<Rightarrow> edge list" where
  "written es = filter (\<lambda>e. e_type e \<notin> dropped_edge_types) es"

text \<open>All labels and types are checked before the first statement is sent.\<close>

definition write_nodes :: "int \<Rightarrow> node list \<Rightarrow> graph_db \<Rightarrow> store_error + graph_db" where
  "write_nodes ts ns db =
     (if list_all (\<lambda>n. n_label n \<in> NODE_LABELS) ns then Inr (fold (merge_node ts) (by_label ns) db) else Inl Unknown_Label)"

definition write_edges :: "edge list \<Rightarrow> graph_db \<Rightarrow> store_error + graph_db" where
  "write_edges es db =
     (if list_all (\<lambda>e. e_type e \<in> EDGE_TYPES) (written es) then Inr (fold merge_edge (by_type (written es)) db)
      else Inl Unknown_Edge_Type)"

section \<open>Deleting\<close>

text \<open>Deleting nodes detaches them: a relationship goes with either of its ends.\<close>

definition delete_where :: "(db_node \<Rightarrow> bool) \<Rightarrow> graph_db \<Rightarrow> graph_db" where
  "delete_where p db =
     (let keep = (\<lambda>i. case db_nodes db i of None \<Rightarrow> False | Some d \<Rightarrow> \<not> p d)
      in \<lparr>db_nodes = (\<lambda>i. if keep i then db_nodes db i else None),
          db_rels = (\<lambda>(t, a, b). if keep a \<and> keep b then db_rels db (t, a, b) else None)\<rparr>)"

definition in_repo :: "string \<Rightarrow> db_node \<Rightarrow> bool" where
  "in_repo repo d \<longleftrightarrow> dn_props d ''repo'' = Some (PStr repo)"

definition wipe :: "string \<Rightarrow> graph_db \<Rightarrow> graph_db" where
  "wipe repo db = delete_where (in_repo repo) db"

definition of_files :: "string \<Rightarrow> string list \<Rightarrow> db_node \<Rightarrow> bool" where
  "of_files repo files d \<longleftrightarrow> in_repo repo d \<and> (\<exists>f \<in> set files. dn_props d ''file'' = Some (PStr f))"

definition delete_files :: "string \<Rightarrow> string list \<Rightarrow> graph_db \<Rightarrow> graph_db" where
  "delete_files repo files db = (if files = [] then db else delete_where (of_files repo files) db)"

section \<open>Properties of existing nodes\<close>

text \<open>The rows have distinct ids, so their order does not matter.\<close>

definition set_taint_marks :: "string \<Rightarrow> (string \<rightharpoonup> string list \<times> bool \<times> string) \<Rightarrow> graph_db \<Rightarrow> graph_db" where
  "set_taint_marks repo rows db = db\<lparr>db_nodes := (\<lambda>i.
     case (db_nodes db i, rows i) of
       (Some d, Some (cats, src, sites)) \<Rightarrow>
         if ''Function'' \<in> dn_labels d \<and> in_repo repo d
         then Some (d\<lparr>dn_props := (dn_props d)(''taint_categories'' \<mapsto> PList cats, ''taint_source'' \<mapsto> PBool src,
                ''taint_sites'' \<mapsto> PStr sites)\<rparr>)
         else Some d
     | (d, _) \<Rightarrow> d)\<rparr>"

section \<open>Reading\<close>

definition file_shas :: "string \<Rightarrow> graph_db \<Rightarrow> (string \<times> string) set" where
  "file_shas repo db =
     {(f, h) | i d f h. db_nodes db i = Some d \<and> ''File'' \<in> dn_labels d \<and> in_repo repo d
        \<and> dn_props d ''file'' = Some (PStr f) \<and> dn_props d ''body_hash'' = Some (PStr h) \<and> f \<noteq> [] \<and> h \<noteq> []}"

definition node_in :: "string \<Rightarrow> graph_db \<Rightarrow> string \<Rightarrow> bool" where
  "node_in repo db i \<longleftrightarrow> (case db_nodes db i of None \<Rightarrow> False | Some d \<Rightarrow> in_repo repo d)"

definition db_counts :: "string \<Rightarrow> graph_db \<Rightarrow> nat \<times> nat" where
  "db_counts repo db =
     (card {i. node_in repo db i},
      card {(t, a, b). db_rels db (t, a, b) \<noteq> None \<and> node_in repo db a \<and> node_in repo db b})"

section \<open>A store of keyed rows\<close>

text \<open>Both kinds of write are upserts of rows under a key, some of which are left out.\<close>

locale upsert =
  fixes put :: "'x \<Rightarrow> 's \<Rightarrow> 's"
    and look :: "'s \<Rightarrow> 'k \<Rightarrow> 'v option"
    and key :: "'x \<Rightarrow> 'k"
    and row :: "'x \<Rightarrow> 'v option \<Rightarrow> 'v"
    and may :: "'s \<Rightarrow> 'x \<Rightarrow> bool"
  assumes look_put: "look (put x s) k = (if may s x \<and> key x = k then Some (row x (look s k)) else look s k)"
    and may_put: "may (put x s) y \<longleftrightarrow> may s y"
begin

lemma look_fold:
  "look (fold put xs s) k = fold (\<lambda>x v. Some (row x v)) (filter (\<lambda>x. may s x \<and> key x = k) xs) (look s k)"
proof (induction xs arbitrary: s)
  case (Cons x xs)
  have "filter (\<lambda>y. may (put x s) y \<and> key y = k) xs = filter (\<lambda>y. may s y \<and> key y = k) xs"
    by (rule filter_cong) (simp_all add: may_put)
  with Cons.IH [of "put x s"] show ?case by (simp add: look_put)
qed simp

lemma rows_None: "fold (\<lambda>x v. Some (row x v)) xs v = None \<longleftrightarrow> xs = [] \<and> v = None"
  by (induction xs arbitrary: v) auto

lemma held: "look (fold put xs s) k \<noteq> None \<longleftrightarrow> look s k \<noteq> None \<or> (\<exists>x \<in> set xs. may s x \<and> key x = k)"
  unfolding look_fold rows_None by (auto simp: filter_empty_conv)

lemma may_fold: "may (fold put xs s) y \<longleftrightarrow> may s y"
  by (induction xs arbitrary: s) (simp_all add: may_put)

end

lemma merge_edge_nodes [simp]: "db_nodes (merge_edge e db) = db_nodes db"
  by (simp add: merge_edge_def)

lemma merge_edges_nodes [simp]: "db_nodes (fold merge_edge es db) = db_nodes db"
  by (induction es arbitrary: db) simp_all

lemma merge_node_rels [simp]: "db_rels (merge_node ts n db) = db_rels db"
  by (simp add: merge_node_def)

lemma merge_nodes_rels [simp]: "db_rels (fold (merge_node ts) ns db) = db_rels db"
  by (induction ns arbitrary: db) simp_all

interpretation node_rows: upsert "merge_node ts" db_nodes n_id "node_row ts" "\<lambda>_ _. True" for ts
  by unfold_locales (simp_all add: merge_node_def)

interpretation edge_rows: upsert merge_edge db_rels rel_key edge_row joins_nodes
  by unfold_locales (simp_all add: merge_edge_def joins_nodes_def)

lemma regrouped: "mset (concat (map snd (fold (\<lambda>x g. group_add (key x) x g) xs g))) = mset (concat (map snd g)) + mset xs"
  by (induction xs arbitrary: g) (simp_all add: group_add_concat)

lemma by_label_set [simp]: "set (by_label ns) = set ns"
  using regrouped [of n_label ns "[]"] by (simp add: by_label_def flip: set_mset_mset)

lemma by_type_set [simp]: "set (by_type es) = set es"
  using regrouped [of e_type es "[]"] by (simp add: by_type_def flip: set_mset_mset)

section \<open>What may be written\<close>

text \<open>A bundle is consistent when its labels and types are known, its edges and references start, and
  its edges end, at its own nodes.\<close>

definition fits :: "string set \<Rightarrow> edge list \<Rightarrow> bool" where
  "fits ids es \<longleftrightarrow> list_all (\<lambda>e. e_type e \<in> EDGE_TYPES \<and> e_src e \<in> ids \<and> e_dst e \<in> ids) es"

definition bundle_ok :: "canonical_bundle \<Rightarrow> bool" where
  "bundle_ok b \<longleftrightarrow> list_all (\<lambda>n. n_label n \<in> NODE_LABELS) (b_nodes b) \<and> fits (n_id ` set (b_nodes b)) (b_edges b)
     \<and> list_all (\<lambda>r. r_type r \<in> EDGE_TYPES \<and> r_src r \<in> n_id ` set (b_nodes b)) (b_refs b)"

lemma fits_append [simp]: "fits ids (es @ fs) \<longleftrightarrow> fits ids es \<and> fits ids fs"
  by (simp add: fits_def)

lemma fits_nil [simp]: "fits ids []"
  by (simp add: fits_def)

lemma fits_mono: "fits ids es \<Longrightarrow> ids \<subseteq> ids' \<Longrightarrow> fits ids' es"
  by (auto simp: fits_def list_all_iff)

lemma fits_filter: "fits ids es \<Longrightarrow> fits ids (filter p es)"
  by (auto simp: fits_def list_all_iff)

section \<open>What a statement changes\<close>

lemma write_nodes_dom:
  assumes "write_nodes ts ns db = Inr db'"
  shows "dom (db_nodes db') = dom (db_nodes db) \<union> n_id ` set ns" "db_rels db' = db_rels db"
proof -
  from assms have db': "db' = fold (merge_node ts) (by_label ns) db" by (simp add: write_nodes_def split: if_splits)
  show "dom (db_nodes db') = dom (db_nodes db) \<union> n_id ` set ns"
    unfolding db' dom_def node_rows.held by (auto simp: image_iff)
  show "db_rels db' = db_rels db" by (simp add: db')
qed

lemma write_edges_dom:
  assumes "write_edges es db = Inr db'"
  shows "dom (db_rels db') = dom (db_rels db) \<union> rel_key ` {e \<in> set (written es). joins_nodes db e}"
    "db_nodes db' = db_nodes db"
proof -
  from assms have db': "db' = fold merge_edge (by_type (written es)) db" by (simp add: write_edges_def split: if_splits)
  show "dom (db_rels db') = dom (db_rels db) \<union> rel_key ` {e \<in> set (written es). joins_nodes db e}"
    unfolding db' dom_def edge_rows.held by (auto simp: image_iff) metis
  show "db_nodes db' = db_nodes db" by (simp add: db')
qed

lemma delete_where_dom:
  "dom (db_nodes (delete_where p db)) = {i. \<exists>d. db_nodes db i = Some d \<and> \<not> p d}"
  "dom (db_rels (delete_where p db)) =
     {(t, a, b) \<in> dom (db_rels db). a \<in> dom (db_nodes (delete_where p db)) \<and> b \<in> dom (db_nodes (delete_where p db))}"
  by (auto simp: delete_where_def Let_def dom_def split: option.splits if_splits)

lemma delete_where_row: "db_nodes (delete_where p db) i = Some d \<Longrightarrow> db_nodes db i = Some d"
  by (auto simp: delete_where_def Let_def split: if_splits)

lemma set_taint_dom: "dom (db_nodes (set_taint_marks repo rows db)) = dom (db_nodes db)"
    "db_rels (set_taint_marks repo rows db) = db_rels db"
  by (auto simp: set_taint_marks_def dom_def split: option.splits prod.splits)

section \<open>Every reachable database is well formed\<close>

datatype store_op =
    Write_Nodes int "node list"
  | Write_Edges "edge list"
  | Delete_Files string "string list"
  | Wipe string
  | Set_Taint_Marks string "string \<rightharpoonup> string list \<times> bool \<times> string"

text \<open>A statement that raises leaves the database as it was.\<close>

fun run_op :: "store_op \<Rightarrow> graph_db \<Rightarrow> graph_db" where
  "run_op (Write_Nodes ts ns) db = (case write_nodes ts ns db of Inl _ \<Rightarrow> db | Inr db' \<Rightarrow> db')"
| "run_op (Write_Edges es) db = (case write_edges es db of Inl _ \<Rightarrow> db | Inr db' \<Rightarrow> db')"
| "run_op (Delete_Files repo fs) db = delete_files repo fs db"
| "run_op (Wipe repo) db = wipe repo db"
| "run_op (Set_Taint_Marks repo rows) db = set_taint_marks repo rows db"

definition empty_db :: graph_db where
  "empty_db = \<lparr>db_nodes = (\<lambda>_. None), db_rels = (\<lambda>_. None)\<rparr>"

definition grounded_db :: "graph_db \<Rightarrow> bool" where
  "grounded_db db \<longleftrightarrow> dom (db_rels db) \<subseteq> {(t, a, b). a \<in> dom (db_nodes db) \<and> b \<in> dom (db_nodes db)}"

definition row_ok :: "string \<Rightarrow> db_node \<Rightarrow> bool" where
  "row_ok i d \<longleftrightarrow> dn_props d ''id'' = Some (PStr i) \<and> SHARED_LABEL \<in> dn_labels d \<and> dn_labels d \<subseteq> insert SHARED_LABEL NODE_LABELS"

definition db_ok :: "graph_db \<Rightarrow> bool" where
  "db_ok db \<longleftrightarrow> finite (dom (db_nodes db)) \<and> finite (dom (db_rels db)) \<and> grounded_db db
     \<and> (\<forall>i d. db_nodes db i = Some d \<longrightarrow> row_ok i d)
     \<and> dom (db_rels db) \<subseteq> (EDGE_TYPES - dropped_edge_types) \<times> UNIV"

lemma props_keys: "map_of (clean kvs) k = None" if "k \<notin> fst ` set kvs"
  using that by (auto simp: clean_filter map_of_eq_None_iff)

lemma node_row_ok:
  assumes "n_label n \<in> NODE_LABELS" "case old of None \<Rightarrow> True | Some d \<Rightarrow> row_ok (n_id n) d"
  shows "row_ok (n_id n) (node_row ts n old)"
proof -
  have "map_of (node_props n) ''id'' = None" unfolding node_props_def by (rule props_keys) simp
  with assms show ?thesis
    by (cases old) (auto simp: row_ok_def node_row_def map_add_def)
qed

lemma merge_nodes_ok:
  "list_all (\<lambda>n. n_label n \<in> NODE_LABELS) ns \<Longrightarrow> (\<forall>i d. db_nodes db i = Some d \<longrightarrow> row_ok i d) \<Longrightarrow>
     (\<forall>i d. db_nodes (fold (merge_node ts) ns db) i = Some d \<longrightarrow> row_ok i d)"
proof (induction ns arbitrary: db)
  case (Cons n ns)
  have "\<forall>i d. db_nodes (merge_node ts n db) i = Some d \<longrightarrow> row_ok i d"
    using Cons.prems node_row_ok [of n "db_nodes db (n_id n)" ts] by (auto simp: merge_node_def split: option.splits)
  with Cons show ?case by simp
qed simp

lemma write_nodes_ok: "write_nodes ts ns db = Inr db' \<Longrightarrow> db_ok db \<Longrightarrow> db_ok db'"
  using write_nodes_dom [of ts ns db db'] merge_nodes_ok [of "by_label ns" db ts]
  by (auto simp: db_ok_def grounded_db_def write_nodes_def list_all_iff split: if_splits)

lemma write_edges_ok: "write_edges es db = Inr db' \<Longrightarrow> db_ok db \<Longrightarrow> db_ok db'"
  using write_edges_dom [of es db db']
  by (auto simp: db_ok_def grounded_db_def write_edges_def list_all_iff joins_nodes_def rel_key_def written_def split: if_splits)

lemma delete_where_ok: "db_ok db \<Longrightarrow> db_ok (delete_where p db)"
proof -
  assume ok: "db_ok db"
  have "dom (db_nodes (delete_where p db)) \<subseteq> dom (db_nodes db)" "dom (db_rels (delete_where p db)) \<subseteq> dom (db_rels db)"
    unfolding delete_where_dom by auto
  then show "db_ok (delete_where p db)"
    using ok unfolding db_ok_def grounded_db_def
    by (auto intro: finite_subset dest: delete_where_row simp: delete_where_dom)
qed

lemma set_taint_ok: "db_ok db \<Longrightarrow> db_ok (set_taint_marks repo rows db)"
proof -
  assume ok: "db_ok db"
  have marked: "row_ok i (d\<lparr>dn_props := (dn_props d)(''taint_categories'' \<mapsto> c, ''taint_source'' \<mapsto> b, ''taint_sites'' \<mapsto> t)\<rparr>)"
    if "row_ok i d" for i d c b t
    using that by (simp add: row_ok_def)
  have rows: "\<forall>i d. db_nodes db i = Some d \<longrightarrow> row_ok i d" using ok by (simp add: db_ok_def)
  have "row_ok i d" if "db_nodes (set_taint_marks repo rows db) i = Some d" for i d
    using that rows by (auto simp: set_taint_marks_def marked split: option.splits if_splits)
  then show ?thesis using ok set_taint_dom [of repo rows db] by (simp add: db_ok_def grounded_db_def)
qed

lemma run_op_ok: "db_ok db \<Longrightarrow> db_ok (run_op op db)"
  by (cases op) (auto simp: wipe_def delete_files_def delete_where_ok set_taint_ok
      split: sum.splits intro: write_nodes_ok write_edges_ok)

text \<open>C35: whatever sequence of writes, deletions and updates is sent to an empty database, no
  relationship is left without a node at either end, every node carries its id and the shared
  label with allowed labels only, and every relationship has an allowed type that is not one of
  the dropped ones.\<close>

theorem store_well_formed: "db_ok (fold run_op ops empty_db)"
proof -
  have "db_ok (fold run_op ops db)" if "db_ok db" for db
    using that by (induction ops arbitrary: db) (simp_all add: run_op_ok)
  moreover have "db_ok empty_db" by (simp add: db_ok_def grounded_db_def empty_db_def)
  ultimately show ?thesis by blast
qed

section \<open>Writing again\<close>

lemma map_add_again: "p ++ q ++ q = p ++ (q :: 'a \<rightharpoonup> 'b)"
  by (auto simp: map_add_def fun_eq_iff split: option.splits)

definition all_edge_props :: "edge list \<Rightarrow> string \<rightharpoonup> prop_val" where
  "all_edge_props es = fold (\<lambda>e m. m ++ map_of (edge_props e)) es Map.empty"

lemma fold_props: "fold (\<lambda>x m. m ++ g x) xs (p ++ q) = p ++ fold (\<lambda>x m. m ++ g x) xs (q :: 'a \<rightharpoonup> 'b)"
  by (induction xs arbitrary: q) (simp_all flip: map_add_assoc)

lemma edge_rows_props: "fold (\<lambda>e v. Some (edge_row e v)) es (Some p) = Some (p ++ all_edge_props es)"
proof -
  have "fold (\<lambda>e v. Some (edge_row e v)) es (Some p) = Some (fold (\<lambda>e m. m ++ map_of (edge_props e)) es p)"
    by (induction es arbitrary: p) (simp_all add: edge_row_def)
  with fold_props [of "\<lambda>e. map_of (edge_props e)" es p Map.empty] show ?thesis by (simp add: all_edge_props_def)
qed

lemma edge_rows_first: "es \<noteq> [] \<Longrightarrow> fold (\<lambda>e v. Some (edge_row e v)) es None = Some (all_edge_props es)"
proof (cases es)
  case (Cons e es')
  with edge_rows_props [of es' "map_of (edge_props e)"] fold_props [of "\<lambda>e. map_of (edge_props e)" es' "map_of (edge_props e)" Map.empty]
  show ?thesis by (simp add: edge_row_def all_edge_props_def)
qed simp

lemma edge_rows_again:
  "fold (\<lambda>e v. Some (edge_row e v)) es (fold (\<lambda>e v. Some (edge_row e v)) es v) = fold (\<lambda>e v. Some (edge_row e v)) es v"
  using map_add_again [of Map.empty "all_edge_props es"]
  by (cases v; cases "es = []") (simp_all add: edge_rows_props edge_rows_first map_add_again)

definition all_node_props :: "int \<Rightarrow> node list \<Rightarrow> string \<rightharpoonup> prop_val" where
  "all_node_props ts ns = fold (\<lambda>n m. m ++ (map_of (node_props n) ++ [''last_indexed'' \<mapsto> PInt ts])) ns Map.empty"

lemma node_rows_props:
  "fold (\<lambda>n v. Some (node_row ts n v)) ns (Some d) =
     Some \<lparr>dn_labels = dn_labels d \<union> n_label ` set ns, dn_props = dn_props d ++ all_node_props ts ns\<rparr>"
proof -
  let ?g = "\<lambda>n. map_of (node_props n) ++ [''last_indexed'' \<mapsto> PInt ts]"
  have "fold (\<lambda>n v. Some (node_row ts n v)) ns (Some d) =
      Some \<lparr>dn_labels = dn_labels d \<union> n_label ` set ns, dn_props = fold (\<lambda>n m. m ++ ?g n) ns (dn_props d)\<rparr>"
    by (induction ns arbitrary: d) (simp_all add: node_row_def insert_commute)
  with fold_props [of ?g ns "dn_props d" Map.empty] show ?thesis by (simp add: all_node_props_def)
qed

lemma node_rows_again:
  "fold (\<lambda>n v. Some (node_row ts n v)) ns (fold (\<lambda>n v. Some (node_row ts n v)) ns v) = fold (\<lambda>n v. Some (node_row ts n v)) ns v"
proof -
  let ?f = "\<lambda>n v. Some (node_row ts n v)"
  have again: "fold ?f ns (Some d) = Some d" if "n_label ` set ns \<subseteq> dn_labels d" "dn_props d = p ++ all_node_props ts ns" for d p
    using that by (cases d) (simp add: node_rows_props map_add_again Un_absorb2)
  show ?thesis
  proof (cases v)
    case (Some d)
    show ?thesis unfolding Some node_rows_props [of ts ns d]
      by (rule again [of _ "dn_props d"]) simp_all
  next
    case None
    show ?thesis
    proof (cases ns)
      case (Cons n ns')
      let ?d = "node_row ts n None"
      have first: "fold ?f ns None = Some \<lparr>dn_labels = dn_labels ?d \<union> n_label ` set ns', dn_props = dn_props ?d ++ all_node_props ts ns'\<rparr>"
        by (simp add: Cons node_rows_props)
      have "dn_props ?d ++ all_node_props ts ns' = [''id'' \<mapsto> PStr (n_id n)] ++ all_node_props ts ns"
        using fold_props [of "\<lambda>n. map_of (node_props n) ++ [''last_indexed'' \<mapsto> PInt ts]" ns'
            "[''id'' \<mapsto> PStr (n_id n)] ++ map_of (node_props n) ++ [''last_indexed'' \<mapsto> PInt ts]" Map.empty]
          fold_props [of "\<lambda>n. map_of (node_props n) ++ [''last_indexed'' \<mapsto> PInt ts]" ns'
            "[''id'' \<mapsto> PStr (n_id n)]" "map_of (node_props n) ++ [''last_indexed'' \<mapsto> PInt ts]"]
        by (simp add: all_node_props_def Cons node_row_def map_add_assoc)
      with first show ?thesis unfolding None
        by (simp only: first) (rule again [of _ "[''id'' \<mapsto> PStr (n_id n)]"], auto simp: Cons node_row_def)
    qed (simp add: None)
  qed
qed

text \<open>Writing the same nodes and edges a second time, at the same second, changes nothing: an
  interrupted write can be repeated from the start.\<close>

theorem rewrite_same:
  assumes "write_nodes ts ns db = Inr db1" "write_edges es db1 = Inr db2"
  shows "write_nodes ts ns db2 = Inr db2 \<and> write_edges es db2 = Inr db2"
proof -
  from assms have ok: "list_all (\<lambda>n. n_label n \<in> NODE_LABELS) ns" "list_all (\<lambda>e. e_type e \<in> EDGE_TYPES) (written es)"
    and db1: "db1 = fold (merge_node ts) (by_label ns) db" and db2: "db2 = fold merge_edge (by_type (written es)) db1"
    by (simp_all add: write_nodes_def write_edges_def split: if_splits)
  have same: "db_nodes db2 = db_nodes db1" by (simp add: db2)
  have "db_nodes (fold (merge_node ts) (by_label ns) db2) i = db_nodes db2 i" for i
    unfolding node_rows.look_fold same db1 by (rule node_rows_again)
  then have "fold (merge_node ts) (by_label ns) db2 = db2" by (intro graph_db.equality) (auto simp: fun_eq_iff)
  moreover have "db_rels (fold merge_edge (by_type (written es)) db2) k = db_rels db2 k" for k
  proof -
    have "joins_nodes db2 = joins_nodes db1" by (simp add: joins_nodes_def [abs_def] same)
    then show ?thesis unfolding edge_rows.look_fold [of "by_type (written es)" db2]
      by (simp only:) (simp only: db2 edge_rows.look_fold [of "by_type (written es)" db1] edge_rows_again)
  qed
  then have "fold merge_edge (by_type (written es)) db2 = db2" by (intro graph_db.equality) (auto simp: fun_eq_iff)
  ultimately show ?thesis using ok by (simp add: write_nodes_def write_edges_def)
qed

theorem rewrite_same_witness:
  "let ns = [mk_node ''a'' ''Class'' ''A'' ''A'' ''r'', mk_node ''b'' ''Class'' ''B'' ''B'' ''r'']; es = [mk_edge ''EXTENDS'' ''a'' ''b''];
       db1 = fold (merge_node 7) (by_label ns) empty_db; db2 = fold merge_edge (by_type es) db1
   in write_nodes 7 ns db2 = Inr db2 \<and> write_edges es db2 = Inr db2"
proof -
  let ?ns = "[mk_node ''a'' ''Class'' ''A'' ''A'' ''r'', mk_node ''b'' ''Class'' ''B'' ''B'' ''r'']"
  let ?es = "[mk_edge ''EXTENDS'' ''a'' ''b'']"
  let ?db1 = "fold (merge_node 7) (by_label ?ns) empty_db"
  have "write_nodes 7 ?ns empty_db = Inr ?db1"
    by (simp add: write_nodes_def NODE_LABELS_def mk_node_def)
  moreover have "written ?es = ?es" by (simp add: written_def dropped_edge_types_def mk_edge_def)
  then have "write_edges ?es ?db1 = Inr (fold merge_edge (by_type ?es) ?db1)"
    by (simp add: write_edges_def EDGE_TYPES_def mk_edge_def)
  ultimately show ?thesis unfolding Let_def by (rule rewrite_same)
qed

section \<open>Properties are never removed\<close>

text \<open>A property without a value is left out of the row, and the row is added to what is stored: a
  value that has become empty keeps its old content until the node is deleted.\<close>

lemma emptied_property_stays:
  assumes "db_nodes db (n_id n) = Some d" "map_of (node_props n) k = None" "k \<noteq> ''last_indexed''"
  shows "\<exists>d'. db_nodes (merge_node ts n db) (n_id n) = Some d' \<and> dn_props d' k = dn_props d k"
  using assms by (simp add: merge_node_def node_row_def map_add_def)

end
