(* ===== verification/TaintMarks.thy ===== *)
theory TaintMarks
  imports BytecodeState ResolveState GraphStore "HOL-Library.List_Lexorder" "HOL-Library.Char_ord" "HOL-Library.Product_Lexorder"
begin

text \<open>
  The catalog facts on the nodes (\<open>graph_core/pipeline.py\<close>): the marks of the bytecode pass are
  stamped on the nodes before they are written (\<open>_apply_taint_marks\<close>), those of the heuristic
  resolver are sent as updates of written nodes (\<open>_persist_resolver_taint_marks\<close>).
\<close>

section \<open>The text of the sites\<close>

fun digits :: "nat \<Rightarrow> string" where
  "digits n = (if n < 10 then [char_of (48 + n)] else digits (n div 10) @ [char_of (48 + n mod 10)])"

declare digits.simps [simp del]

definition int_text :: "int \<Rightarrow> string" where
  "int_text i = (if i < 0 then CHR ''-'' # digits (nat (- i)) else digits (nat i))"

primrec role_value :: "role \<Rightarrow> string" where
  "role_value SOURCE = ''source''"
| "role_value SINK = ''sink''"
| "role_value SANITIZER = ''sanitizer''"

type_synonym site_tuple = "int \<times> string \<times> string \<times> int list"

definition site_tuple :: "site \<Rightarrow> site_tuple" where
  "site_tuple s = (case s of (line, cat, role, args) \<Rightarrow> (line, cat, role_value role, args))"

definition quoted :: "string \<Rightarrow> string" where
  "quoted s = CHR 0x22 # s @ [CHR 0x22]"

text \<open>\<open>json.dumps\<close> with the compact separators.  Categories and roles are constants of the catalog,
  which need no escapes.\<close>

definition site_json :: "site_tuple \<Rightarrow> string" where
  "site_json s = (case s of (line, cat, role, args) \<Rightarrow>
     CHR ''{'' # quoted ''line'' @ '':'' @ int_text line @ '','' @ quoted ''cat'' @ '':'' @ quoted cat
       @ '','' @ quoted ''role'' @ '':'' @ quoted role
       @ '','' @ quoted ''args'' @ '':['' @ join_with CHR '','' (map int_text args) @ '']}'')"

definition sites_json :: "site list \<Rightarrow> string" where
  "sites_json ss = CHR ''['' # join_with CHR '','' (map site_json (sort (map site_tuple ss))) @ '']''"

section \<open>Marks of the bytecode pass\<close>

record taint_facts =
  tf_kinds :: "(string \<times> string list) list"
  tf_sources :: "string set"
  tf_sanitizers :: "string set"
  tf_sites :: "(string \<times> site list) list"

definition no_facts :: "taint_facts \<Rightarrow> bool" where
  "no_facts r \<longleftrightarrow> tf_kinds r = [] \<and> tf_sources r = {} \<and> tf_sanitizers r = {} \<and> tf_sites r = []"

text \<open>A node that carries a fact; the source also skips objects from an old cache that lack the fields.\<close>

definition stamp_node :: "taint_facts \<Rightarrow> node \<Rightarrow> node" where
  "stamp_node r n =
     (let k = group_look (tf_kinds r) (n_id n);
          is_src = (n_id n \<in> tf_sources r);
          is_san = (n_id n \<in> tf_sanitizers r);
          s = group_look (tf_sites r) (n_id n)
      in if \<not> (k \<noteq> [] \<or> is_src \<or> is_san \<or> s \<noteq> []) then n
         else let n1 = (if k \<noteq> [] then n\<lparr>n_taint_categories := sort k\<rparr> else n);
                  n2 = (if is_src then n1\<lparr>n_taint_source := True\<rparr> else n1);
                  n3 = (if is_san then n2\<lparr>n_taint_sanitizer := True\<rparr> else n2)
              in if s \<noteq> [] then n3\<lparr>n_taint_sites := sites_json s\<rparr> else n3)"

definition apply_taint_marks :: "node list \<Rightarrow> taint_facts \<Rightarrow> node list" where
  "apply_taint_marks nodes r = (if no_facts r then nodes else map (stamp_node r) nodes)"

definition facts_of :: "bc_state \<Rightarrow> taint_facts" where
  "facts_of st = \<lparr>tf_kinds = bs_sink_kinds st, tf_sources = bs_sources st, tf_sanitizers = bs_sanitizers st,
     tf_sites = bs_sites st\<rparr>"

section \<open>Marks of the resolver\<close>

text \<open>The categories are a set; sorting it gives the list.\<close>

definition mark_row :: "mark \<Rightarrow> string list \<times> bool \<times> string" where
  "mark_row m = (sorted_list_of_set (mk_cats m), mk_src m, if mk_sites m = [] then [] else sites_json (mk_sites m))"

definition persist_taint_marks :: "string \<Rightarrow> (string \<rightharpoonup> mark) \<Rightarrow> graph_db \<Rightarrow> graph_db" where
  "persist_taint_marks repo marks db = set_taint_marks repo (map_option mark_row \<circ> marks) db"

section \<open>Stamping\<close>

lemma stamp_fields [simp]:
  "n_id (stamp_node r n) = n_id n" "n_label (stamp_node r n) = n_label n" "node_to_slim (stamp_node r n) = node_to_slim n"
  by (simp_all add: stamp_node_def Let_def node_to_slim_def)

lemma apply_marks_map: "apply_taint_marks nodes r = map (stamp_node r) nodes"
proof -
  have "stamp_node r = (\<lambda>n. n)" if "no_facts r"
    using that by (simp add: fun_eq_iff stamp_node_def no_facts_def group_look_def Let_def)
  then show ?thesis by (simp add: apply_taint_marks_def)
qed

lemma apply_marks_ids [simp]:
  "map n_id (apply_taint_marks nodes r) = map n_id nodes" "map node_to_slim (apply_taint_marks nodes r) = map node_to_slim nodes"
  "map n_label (apply_taint_marks nodes r) = map n_label nodes"
  by (simp_all add: apply_marks_map)

lemma sites_json_mset: "mset ss = mset ts \<Longrightarrow> sites_json ss = sites_json ts"
proof -
  assume "mset ss = mset ts"
  then have "mset (map site_tuple ss) = mset (map site_tuple ts)" by simp
  then have "sort (map site_tuple ss) = sort (map site_tuple ts)" by (metis properties_for_sort mset_sort sorted_sort)
  then show ?thesis by (simp add: sites_json_def)
qed

text \<open>Two passes that saw the same facts in another order.\<close>

definition same_facts :: "taint_facts \<Rightarrow> taint_facts \<Rightarrow> bool" where
  "same_facts r q \<longleftrightarrow> tf_sources r = tf_sources q \<and> tf_sanitizers r = tf_sanitizers q
     \<and> (\<forall>i. mset (group_look (tf_kinds r) i) = mset (group_look (tf_kinds q) i)
          \<and> mset (group_look (tf_sites r) i) = mset (group_look (tf_sites q) i))"

text \<open>What is stamped on the nodes depends on the facts alone and not on the order in which the
  classes were read, so unchanged sources give unchanged properties; nothing but the four marks
  of a node changes, and a node without facts stays as it was.\<close>

theorem marks_stable:
  assumes "same_facts r q"
  shows "apply_taint_marks nodes r = apply_taint_marks nodes q
    \<and> map node_to_slim (apply_taint_marks nodes r) = map node_to_slim nodes
    \<and> filter (\<lambda>n. group_look (tf_kinds r) (n_id n) = [] \<and> n_id n \<notin> tf_sources r \<and> n_id n \<notin> tf_sanitizers r
          \<and> group_look (tf_sites r) (n_id n) = []) (apply_taint_marks nodes r)
      = filter (\<lambda>n. group_look (tf_kinds r) (n_id n) = [] \<and> n_id n \<notin> tf_sources r \<and> n_id n \<notin> tf_sanitizers r
          \<and> group_look (tf_sites r) (n_id n) = []) nodes"
proof -
  have "stamp_node r n = stamp_node q n" for n
  proof -
    from assms have k: "mset (group_look (tf_kinds r) (n_id n)) = mset (group_look (tf_kinds q) (n_id n))"
      and s: "mset (group_look (tf_sites r) (n_id n)) = mset (group_look (tf_sites q) (n_id n))"
      and rest: "tf_sources r = tf_sources q" "tf_sanitizers r = tf_sanitizers q" by (simp_all add: same_facts_def)
    from k have "sort (group_look (tf_kinds r) (n_id n)) = sort (group_look (tf_kinds q) (n_id n))"
      by (metis properties_for_sort mset_sort sorted_sort)
    moreover from k s have "group_look (tf_kinds r) (n_id n) = [] \<longleftrightarrow> group_look (tf_kinds q) (n_id n) = []"
      "group_look (tf_sites r) (n_id n) = [] \<longleftrightarrow> group_look (tf_sites q) (n_id n) = []" by (metis mset_zero_iff)+
    ultimately show ?thesis using sites_json_mset [OF s] rest by (simp add: stamp_node_def Let_def)
  qed
  moreover have "filter p (map (stamp_node r) nodes) = filter p nodes"
    if "p = (\<lambda>n. group_look (tf_kinds r) (n_id n) = [] \<and> n_id n \<notin> tf_sources r \<and> n_id n \<notin> tf_sanitizers r
          \<and> group_look (tf_sites r) (n_id n) = [])" for p
    by (induction nodes) (simp_all add: that, simp add: stamp_node_def Let_def)
  ultimately show ?thesis by (simp add: apply_marks_map)
qed

definition demo_facts :: "site list \<Rightarrow> taint_facts" where
  "demo_facts ss = \<lparr>tf_kinds = [], tf_sources = {''f''}, tf_sanitizers = {}, tf_sites = [(''f'', ss)]\<rparr>"

theorem marks_stable_witness:
  "let a = (7, ''CWE-89'', SINK, [0]); b = (3, ''CWE-20'', SOURCE, [-1]); n = mk_node ''f'' ''Function'' ''f'' ''A#f'' ''r''
   in apply_taint_marks [n] (demo_facts [a, b]) = apply_taint_marks [n] (demo_facts [b, a])"
proof -
  let ?a = "(7, ''CWE-89'', SINK, [0]) :: site" and ?b = "(3, ''CWE-20'', SOURCE, [-1]) :: site"
  have "same_facts (demo_facts [?a, ?b]) (demo_facts [?b, ?a])"
    by (simp add: same_facts_def demo_facts_def group_look_def)
  from marks_stable [OF this] show ?thesis by (simp add: Let_def)
qed

text \<open>The resolver marks sources and categories but never a sanitizer: a row has no place for one.\<close>

lemma resolver_marks_no_sanitizer:
  "db_nodes db i = Some d \<Longrightarrow> db_nodes (persist_taint_marks repo marks db) i = Some d' \<Longrightarrow>
     dn_props d' ''taint_sanitizer'' = dn_props d ''taint_sanitizer''"
  by (auto simp: persist_taint_marks_def set_taint_marks_def split: option.splits if_splits prod.splits)

end
