(* ===== verification/Index.thy ===== *)
theory Index
  imports Validator ResolveStream Derive BytecodeGround SqlLinks TaintMarks
begin

text \<open>
  \<open>index_repo\<close> (\<open>graph_core/pipeline.py\<close>) from the extracted bundles on: merging, the precise Java
  tiers, the first write, resolution through the streaming sink, the derived edges, the last
  write, the marks computed in the database, and validation.  One definition per stage, on one
  record of the local variables.  Extraction itself, what javac answers, the class files found,
  the texts of the files and the clock are arguments.  The polymorphic calls, off by default, are
  left out, and so is whatever only reports progress.
\<close>

section \<open>Arguments and local variables\<close>

record index_env =
  ie_repo :: string
  ie_make_id :: "string \<Rightarrow> string \<Rightarrow> string \<Rightarrow> string"
  ie_relpaths :: "string list"
  ie_bytecode :: bool
  ie_bc :: bc_env
  ie_roots :: "class_source list"
  ie_min_rate :: rat
  ie_javac :: bool
  ie_javac_skip_at :: rat
  ie_run_javac :: "node list \<Rightarrow> (edge list \<times> string set) option"
  ie_changed :: "string list option"
  ie_deleted :: "string list option"
  ie_wipe :: bool
  ie_resolve :: renv
  ie_sink_batch :: nat
  ie_sources :: "string \<rightharpoonup> string"
  ie_clock :: "nat \<Rightarrow> int"

datatype index_error = Class_Error class_error | Store_Error store_error

record index_state =
  is_nodes :: "node list"
  is_known :: "string set"
  is_edges :: "slim_edge list"
  is_stats :: edge_stats
  is_late :: "node list"
  is_new :: "edge list"
  is_db :: graph_db

definition RETAINED_EDGE_TYPES :: "string set" where
  "RETAINED_EDGE_TYPES = {''CONTAINS'', ''EXTENDS'', ''IMPLEMENTS'', ''ANNOTATED_WITH'', ''EXPOSES''}"

definition andThen :: "'e + 'a \<Rightarrow> ('a \<Rightarrow> 'e + 'b) \<Rightarrow> 'e + 'b" where
  "andThen m f = (case m of Inl e \<Rightarrow> Inl e | Inr a \<Rightarrow> f a)"

definition from_store :: "store_error + 'a \<Rightarrow> index_error + 'a" where
  "from_store m = (case m of Inl e \<Rightarrow> Inl (Store_Error e) | Inr a \<Rightarrow> Inr a)"

section \<open>Merging and the known ids\<close>

definition merge_all :: "canonical_bundle list list \<Rightarrow> canonical_bundle" where
  "merge_all batches =
     (let merged = map merge_bundles batches
      in merge_bundles [from_extractor (concat (map b_nodes merged)) (concat (map b_edges merged)) (concat (map b_refs merged))])"

text \<open>\<open>RefStream\<close>: with the checkpoint on disk the references are read again, batch by batch, instead.\<close>

definition batch_refs :: "canonical_bundle list list \<Rightarrow> raw_ref list" where
  "batch_refs batches = concat (map (\<lambda>bs. b_refs (merge_bundles bs)) batches)"

definition start_index :: "canonical_bundle \<Rightarrow> graph_db \<Rightarrow> index_state" where
  "start_index b db =
     \<lparr>is_nodes = b_nodes b, is_known = n_id ` set (b_nodes b), is_edges = map edge_to_slim (b_edges b),
      is_stats = stats_add (map edge_to_slim (b_edges b)) (n_id ` set (b_nodes b)) edge_stats_init,
      is_late = [], is_new = [], is_db = db\<rparr>"

text \<open>\<open>_extend_unique\<close> on the full records; the accepted nodes are returned.\<close>

definition extend_nodes :: "node list \<Rightarrow> index_state \<Rightarrow> node list \<times> index_state" where
  "extend_nodes new s =
     (case keep_first n_id (is_known s) new of (accepted, known) \<Rightarrow>
        (accepted, s\<lparr>is_nodes := is_nodes s @ accepted, is_known := known\<rparr>))"

definition count_edges :: "edge list \<Rightarrow> index_state \<Rightarrow> index_state" where
  "count_edges es s = s\<lparr>is_stats := stats_add (map edge_to_slim es) (is_known s) (is_stats s)\<rparr>"

section \<open>The precise tiers\<close>

definition java_file :: "string \<Rightarrow> bool" where
  "java_file p \<longleftrightarrow> py_endswith (py_lower p) ''.java''"

definition has_java :: "index_env \<Rightarrow> bool" where
  "has_java env = list_ex java_file (ie_relpaths env)"

definition java_files :: "index_env \<Rightarrow> nat" where
  "java_files env = length (filter java_file (ie_relpaths env))"

record tiers =
  ti_bytecode :: "edge list"
  ti_report :: "bc_state option"
  ti_javac :: "edge list"
  ti_javac_files :: "string set"

definition bytecode_stage :: "index_env \<Rightarrow> index_state \<Rightarrow> index_error + edge list \<times> bc_state option \<times> index_state" where
  "bytecode_stage env s =
     (if ie_bytecode env \<and> has_java env then
        (case resolve_java_bytecode (ie_bc env) (is_nodes s) (ie_roots env) (ie_min_rate env) of
           Inl e \<Rightarrow> Inl (Class_Error e)
         | Inr (es, ns, rep) \<Rightarrow>
             if rp_available rep
             then let s1 = snd (extend_nodes ns s)
                  in Inr (es, Some (rp_counts rep), s1\<lparr>is_nodes := apply_taint_marks (is_nodes s1) (facts_of (rp_counts rep))\<rparr>)
             else Inr ([], None, s))
      else Inr ([], None, s))"

definition owned_files :: "bc_state option \<Rightarrow> string set" where
  "owned_files rep = (case rep of None \<Rightarrow> {} | Some r \<Rightarrow> bs_attributed r)"

definition coverage_of :: "index_env \<Rightarrow> bc_state option \<Rightarrow> rat" where
  "coverage_of env rep = (case rep of None \<Rightarrow> 0
     | Some r \<Rightarrow> file_coverage (attributed_count (be_sep (ie_bc env)) (bs_attributed r)) (java_files env))"

definition javac_stage :: "index_env \<Rightarrow> bc_state option \<Rightarrow> node list \<Rightarrow> edge list \<times> string set" where
  "javac_stage env rep nodes =
     (let skip = (ie_javac_skip_at env \<noteq> 0 \<and> ie_javac_skip_at env \<le> coverage_of env rep)
      in if ie_javac env \<and> has_java env \<and> \<not> skip
         then (case ie_run_javac env nodes of None \<Rightarrow> ([], {})
               | Some (es, files) \<Rightarrow> (filter (\<lambda>e. e_evidence_file e \<notin> owned_files rep) es, files))
         else ([], {}))"

section \<open>The first write\<close>

definition or_none :: "'a list option \<Rightarrow> 'a list" where
  "or_none x = (case x of None \<Rightarrow> [] | Some xs \<Rightarrow> xs)"

definition make_room :: "index_env \<Rightarrow> graph_db \<Rightarrow> graph_db" where
  "make_room env db =
     (if ie_changed env \<noteq> None \<or> ie_deleted env \<noteq> None
      then delete_files (ie_repo env) (sort (remdups (or_none (ie_changed env) @ or_none (ie_deleted env)))) db
      else if ie_wipe env then wipe (ie_repo env) db else db)"

definition first_write :: "index_env \<Rightarrow> edge list \<Rightarrow> index_state \<Rightarrow> index_error + index_state" where
  "first_write env structural s =
     andThen (from_store (write_nodes (ie_clock env 0) (is_nodes s) (make_room env (is_db s)))) (\<lambda>db1.
     andThen (from_store (write_edges structural db1)) (\<lambda>db2.
     Inr (s\<lparr>is_db := db2\<rparr>)))"

section \<open>Resolution\<close>

definition retain :: "node list \<Rightarrow> edge list \<Rightarrow> slim_edge list" where
  "retain ns es = map edge_to_slim (filter (\<lambda>e. e_type e \<in> RETAINED_EDGE_TYPES) es)"

text \<open>The sink: count the batch, and write its nodes and then its edges.  The writer thread takes the
  batches in their order, and its failure is raised when resolution has ended.\<close>

definition sink_batch :: "index_env \<Rightarrow> nat \<times> node list \<times> edge list \<Rightarrow> index_state \<Rightarrow> index_error + index_state" where
  "sink_batch env call s =
     (case call of (i, ns, es) \<Rightarrow>
        let s1 = count_edges es (s\<lparr>is_known := is_known s \<union> n_id ` set ns\<rparr>) in
        andThen (from_store (write_nodes (ie_clock env (Suc i)) ns (is_db s1))) (\<lambda>db1.
        andThen (from_store (write_edges es db1)) (\<lambda>db2.
        Inr (s1\<lparr>is_db := db2\<rparr>))))"

fun sink_batches :: "index_env \<Rightarrow> (nat \<times> node list \<times> edge list) list \<Rightarrow> index_state \<Rightarrow> index_error + index_state" where
  "sink_batches env [] s = Inr s"
| "sink_batches env (c # cs) s = andThen (sink_batch env c s) (sink_batches env cs)"

definition resolver_run :: "index_env \<Rightarrow> tiers \<Rightarrow> raw_ref list \<Rightarrow> index_state \<Rightarrow> slim_edge sink_state" where
  "resolver_run env t refs s =
     (let nodes = map node_to_slim (is_nodes s);
          renv = (ie_resolve env)\<lparr>en_skip_files := owned_files (ti_report t) \<union> ti_javac_files t\<rparr>;
          ix = build_rindex nodes (is_edges s) refs
      in sink_run (ie_sink_batch env) retain renv ix (direct_supers ix (is_edges s)) refs)"

definition resolve_stage :: "index_env \<Rightarrow> tiers \<Rightarrow> raw_ref list \<Rightarrow> index_state \<Rightarrow> index_error + index_state" where
  "resolve_stage env t refs s =
     (let run = resolver_run env t refs s in
      andThen (sink_batches env (enumerate 0 (sk_calls run)) s) (\<lambda>s1.
      let s2 = s1\<lparr>is_db := persist_taint_marks (ie_repo env) (rs_marks (sk_state run)) (is_db s1)\<rparr>;
          (accepted, s3) = extend_nodes (rstate.rs_nodes (sk_state run)) s2
      in Inr (s3\<lparr>is_late := is_late s3 @ accepted, is_edges := is_edges s3 @ sk_kept run\<rparr>)))"

text \<open>The precise edges join the others and are written; none of them has been yet.\<close>

definition merge_tiers :: "tiers \<Rightarrow> index_state \<Rightarrow> index_error + index_state" where
  "merge_tiers t s =
     (let s1 = (if ti_bytecode t \<noteq> [] \<or> ti_javac t \<noteq> [] then s\<lparr>is_known := is_known s \<union> n_id ` set (is_nodes s)\<rparr> else s);
          s2 = count_edges (ti_javac t) (count_edges (ti_bytecode t) s1);
          pending = ti_bytecode t @ ti_javac t
      in andThen (from_store (write_edges pending (is_db s2))) (\<lambda>db1.
         Inr (s2\<lparr>is_edges := is_edges s2 @ map edge_to_slim pending, is_db := db1\<rparr>)))"

section \<open>Derived edges and the last write\<close>

definition add_edges :: "edge list \<Rightarrow> index_state \<Rightarrow> index_state" where
  "add_edges es s =
     (let s1 = count_edges es s in s1\<lparr>is_edges := is_edges s1 @ map edge_to_slim es, is_new := is_new s1 @ es\<rparr>)"

definition derive_stage :: "index_env \<Rightarrow> tiers \<Rightarrow> index_state \<Rightarrow> index_state" where
  "derive_stage env t s =
     (let nodes = map node_to_slim (is_nodes s);
          (skip_methods, skip_pairs) = (case ti_report t of None \<Rightarrow> ({}, {})
             | Some r \<Rightarrow> (bs_authoritative r, bs_override_pairs r));
          s1 = add_edges (derive_overrides skip_methods skip_pairs nodes (is_edges s)) s;
          (pkg_nodes, pkg_edges) = build_package_tree (ie_make_id env) (ie_repo env) (map node_to_slim (is_nodes s1));
          (accepted, s2) = extend_nodes pkg_nodes s1;
          s3 = add_edges pkg_edges (s2\<lparr>is_late := is_late s2 @ accepted\<rparr>)
      in add_edges (derive_sql_links (map node_to_slim (is_nodes s3)) (ie_sources env)) s3)"

definition last_write :: "index_env \<Rightarrow> nat \<Rightarrow> index_state \<Rightarrow> index_error + index_state" where
  "last_write env i s =
     andThen (from_store (write_nodes (ie_clock env i) (is_late s) (is_db s))) (\<lambda>db1.
     andThen (from_store (write_edges (is_new s) db1)) (\<lambda>db2.
     Inr (s\<lparr>is_db := db2\<rparr>)))"

section \<open>Acquires inside the repository\<close>

text \<open>\<open>mark_inrepo_acquires_cypher\<close>: a function that returns a connection gets an external node of its
  own.  Every function has a name that identifies it; one without matches nothing here.\<close>

definition returns_connection :: "string \<Rightarrow> db_node \<Rightarrow> string option" where
  "returns_connection repo d =
     (case (dn_props d ''return_type'', dn_props d ''fqn'') of
        (Some (PStr t), Some (PStr q)) \<Rightarrow>
          if ''Function'' \<in> dn_labels d \<and> in_repo repo d \<and> t \<in> set connection_simple_names then Some (''acq:'' @ q) else None
      | _ \<Rightarrow> None)"

definition acquire_id :: "string \<Rightarrow> graph_db \<Rightarrow> string \<Rightarrow> string option" where
  "acquire_id repo db i = (case db_nodes db i of None \<Rightarrow> None | Some d \<Rightarrow> returns_connection repo d)"

definition some_property :: "string \<Rightarrow> db_node \<Rightarrow> string \<rightharpoonup> prop_val" where
  "some_property k d = (case dn_props d k of None \<Rightarrow> Map.empty | Some v \<Rightarrow> [k \<mapsto> v])"

definition acquire_node :: "string \<Rightarrow> db_node \<Rightarrow> db_node" where
  "acquire_node x d = \<lparr>dn_labels = {SHARED_LABEL, ''External''},
     dn_props = [''id'' \<mapsto> PStr x, ''repo'' \<mapsto> PStr ''external'', ''kind'' \<mapsto> PStr ''db_acquire'']
       ++ some_property ''name'' d ++ some_property ''fqn'' d ++ some_property ''lang'' d\<rparr>"

definition acquire_props :: "string \<rightharpoonup> prop_val" where
  "acquire_props = [''confidence'' \<mapsto> PStr ''EXTRACTED'', ''origin'' \<mapsto> PStr ''DERIVED'', ''extractor'' \<mapsto> PStr ''cypher'',
     ''strategy'' \<mapsto> PStr ''inrepo_return_type'']"

definition mark_acquire :: "string \<Rightarrow> string \<Rightarrow> graph_db \<Rightarrow> graph_db" where
  "mark_acquire repo i db =
     (case (db_nodes db i, acquire_id repo db i) of
        (Some d, Some x) \<Rightarrow>
          let db1 = (if db_nodes db x = None then db\<lparr>db_nodes := (db_nodes db)(x \<mapsto> acquire_node x d)\<rparr> else db);
              k = (''CALLS_EXTERNAL'', i, x)
          in if db_rels db1 k = None then db1\<lparr>db_rels := (db_rels db1)(k \<mapsto> acquire_props)\<rparr> else db1
      | _ \<Rightarrow> db)"

text \<open>The functions are visited in the order the database yields them, which is an argument.\<close>

definition mark_inrepo_acquires :: "string \<Rightarrow> string list \<Rightarrow> graph_db \<Rightarrow> graph_db" where
  "mark_inrepo_acquires repo order db = fold (mark_acquire repo) order db"

definition acquire_edge :: "string \<Rightarrow> graph_db \<Rightarrow> string \<times> string \<Rightarrow> bool" where
  "acquire_edge repo db p =
     (case (db_rels db (''CALLS_EXTERNAL'', fst p, snd p), db_nodes db (snd p)) of
        (Some r, Some x) \<Rightarrow> node_in repo db (fst p) \<and> ''External'' \<in> dn_labels x
          \<and> dn_props x ''kind'' = Some (PStr ''db_acquire'') \<and> r ''strategy'' = Some (PStr ''inrepo_return_type'')
      | _ \<Rightarrow> False)"

definition acquire_count :: "string \<Rightarrow> graph_db \<Rightarrow> nat" where
  "acquire_count repo db = card {p. acquire_edge repo db p}"

text \<open>The edges made there are counted by difference.\<close>

definition acquire_stage :: "index_env \<Rightarrow> string list \<Rightarrow> index_state \<Rightarrow> index_state" where
  "acquire_stage env order s =
     (let db1 = mark_inrepo_acquires (ie_repo env) order (is_db s);
          n = acquire_count (ie_repo env) db1 - acquire_count (ie_repo env) (is_db s)
      in s\<lparr>is_db := db1, is_stats := stats_add_count ''CALLS_EXTERNAL'' n (is_stats s)\<rparr>)"

section \<open>The whole run\<close>

record index_run =
  ir_bundle :: canonical_bundle
  ir_tiers :: tiers
  ir_resolved :: "slim_edge sink_state"
  ir_written :: index_state
  ir_final :: index_state

text \<open>What the passes before resolution do: the precise tiers, then the write of all the nodes.\<close>

definition prepare :: "index_env \<Rightarrow> canonical_bundle \<Rightarrow> graph_db \<Rightarrow> index_error + tiers \<times> index_state" where
  "prepare env b db =
     andThen (bytecode_stage env (start_index b db)) (\<lambda>(bes, rep, s1).
       let (jes, jfiles) = javac_stage env rep (is_nodes s1);
           t = \<lparr>ti_bytecode = bes, ti_report = rep, ti_javac = jes, ti_javac_files = jfiles\<rparr>
       in andThen (first_write env (b_edges b) s1) (\<lambda>s2. Inr (t, s2)))"

definition index_repo ::
  "index_env \<Rightarrow> canonical_bundle list list \<Rightarrow> string list \<Rightarrow> graph_db \<Rightarrow> index_error + index_run" where
  "index_repo env batches order db =
     (let b = merge_all batches in
      andThen (prepare env b db) (\<lambda>(t, s2).
      let run = resolver_run env t (b_refs b) s2 in
      andThen (resolve_stage env t (b_refs b) s2) (\<lambda>s3.
      andThen (merge_tiers t s3) (\<lambda>s4.
      andThen (last_write env (Suc (length (sk_calls run))) (derive_stage env t s4)) (\<lambda>s6.
      Inr \<lparr>ir_bundle = b, ir_tiers = t, ir_resolved = run, ir_written = s6, ir_final = acquire_stage env order s6\<rparr>)))))"

record index_result =
  ix_files :: nat
  ix_nodes :: nat
  ix_edges :: nat
  ix_validation :: graph_report
  ix_db_counts :: "nat \<times> nat"

definition index_result_of :: "index_env \<Rightarrow> index_run \<Rightarrow> index_result" where
  "index_result_of env r =
     (let s = ir_final r in
      \<lparr>ix_files = length (ie_relpaths env), ix_nodes = length (is_nodes s), ix_edges = edge_stats.total (is_stats s),
       ix_validation = validate_graph (map node_to_slim (is_nodes s)) (is_stats s),
       ix_db_counts = db_counts (ie_repo env) (is_db s)\<rparr>)"

end
