(* ===== verification/IndexKinds.thy ===== *)
theory IndexKinds
  imports Index
begin

text \<open>
  What each producer of a run may create: the labels of the nodes and the types of the edges of
  the bytecode pass, the resolver, the package tree and the derivations.  The store refuses every
  other label and type.
\<close>

section \<open>The resolver\<close>

definition synthetic :: "node \<Rightarrow> bool" where
  "synthetic n \<longleftrightarrow> n_label n \<in> {''Annotation'', ''Event'', ''Policy'', ''Endpoint'', ''External''}"

definition all_synthetic :: "rstate \<Rightarrow> bool" where
  "all_synthetic st \<longleftrightarrow> list_all synthetic (rs_nodes st)"

lemma synthetic_same [simp]:
  "all_synthetic (ResolveState.tally t f st) = all_synthetic st"
  "all_synthetic (push_edge r et d conf s st) = all_synthetic st"
  "all_synthetic (push_edges r et ns conf s st) = all_synthetic st"
  "all_synthetic (mark_taint env r st) = all_synthetic st"
  "all_synthetic (add_node n st) \<longleftrightarrow> all_synthetic st \<and> synthetic n"
  "all_synthetic (rs_annotations_update a st) = all_synthetic st" "all_synthetic (rs_events_update a st) = all_synthetic st"
  "all_synthetic (rs_policies_update a st) = all_synthetic st" "all_synthetic (rs_endpoints_update g st) = all_synthetic st"
  "all_synthetic (rs_external_update g st) = all_synthetic st"
  by (simp_all add: all_synthetic_def)

lemma synthetic_lookup [simp]:
  "all_synthetic (resolve_file env ix r st) = all_synthetic st" "all_synthetic (resolve_handler env ix r st) = all_synthetic st"
  "all_synthetic (resolve_access env ix r st) = all_synthetic st" "all_synthetic (resolve_type env ix r st) = all_synthetic st"
  "all_synthetic (resolve_other env ix r st) = all_synthetic st" "all_synthetic (demote env r wanted strat st) = all_synthetic st"
  "all_synthetic (tail_fallback ix r strat st) = all_synthetic st"
  "all_synthetic (emit env r wanted conf known strat st) = all_synthetic st"
  by (simp_all add: all_synthetic_def)

lemma synthetic_synth [simp]:
  "all_synthetic (resolve_annotation env r st) = all_synthetic st"
  "all_synthetic (resolve_event env r st) = all_synthetic st"
  "all_synthetic (resolve_policy env r st) = all_synthetic st"
  "all_synthetic (resolve_api env ix r st) = all_synthetic st"
  "all_synthetic (external_call env r st) = all_synthetic st"
  by (simp_all add: resolve_annotation_def resolve_event_def resolve_policy_def resolve_api_def external_call_def
      synthetic_def mk_node_def Let_def split: prod.splits option.splits)

lemma synthetic_call [simp]: "all_synthetic (resolve_call env ix h r st) = all_synthetic st"
  by (simp add: resolve_call_def Let_def split: prod.splits)

lemma synthetic_step: "all_synthetic (loop_step env ix h r st) = all_synthetic st"
  by (simp add: loop_step_def resolve_one_ref_def Let_def)

lemma resolved_labels: "list_all synthetic (rs_nodes (resolve env nodes edges refs))"
proof -
  have "all_synthetic (resolve_loop env ix h rs st) = all_synthetic st" for ix h rs st
    unfolding resolve_loop_def by (induction rs arbitrary: st) (simp_all add: synthetic_step)
  then have "all_synthetic (resolve env nodes edges refs) = all_synthetic empty_state" by (simp add: resolve_def Let_def)
  then show ?thesis by (simp add: all_synthetic_def empty_state_def)
qed

lemma resolved_edge:
  assumes "e \<in> set (rs_edges (resolve env nodes edges refs))"
  shows "\<exists>r \<in> set refs. e_src e = r_src r \<and> e_type e \<in> {r_type r, ''REFERENCES'', ''CALLS_EXTERNAL''}"
  using subsetD [OF resolved_from assms] by (auto simp: make_edge_def)

section \<open>The bytecode pass\<close>

definition compiled_node :: "node \<Rightarrow> bool" where
  "compiled_node n \<longleftrightarrow> n_label n \<in> {''Function'', ''External''}"

definition all_compiled :: "bc_state \<Rightarrow> bool" where
  "all_compiled st \<longleftrightarrow> list_all compiled_node (bs_nodes st)"

lemma compiled_call: "all_compiled (bc_call env ix fl c v st) = all_compiled st"
  by (simp add: bc_call_def call_external_def external_node_def mk_node_def compiled_node_def all_compiled_def bc_emit_def Let_def)

lemma compiled_access: "all_compiled (bc_access ix fl c a st) = all_compiled st"
  by (simp add: bc_access_def all_compiled_def bc_emit_def bump_stats_def Let_def)

lemma compiled_body: "all_compiled (bc_body env ix fl m c st) = all_compiled st"
proof -
  have "all_compiled (fold (bc_call env ix fl c) vs s) = all_compiled s" for vs s
    by (induction vs arbitrary: s) (simp_all add: compiled_call)
  moreover have "all_compiled (fold (bc_access ix fl c) xs s) = all_compiled s" for xs s
    by (induction xs arbitrary: s) (simp_all add: compiled_access)
  ultimately show ?thesis by (simp add: bc_body_def)
qed

lemma synthesized_label: "synthesize_node env info m fl q = Inr (Some nd) \<Longrightarrow> n_label nd = ''Function''"
  by (auto simp: synthesize_node_def mk_node_def split: if_splits option.splits prod.splits sum.splits)

lemma compiled_updates:
  "all_compiled (declare_method own cname m c st) = all_compiled st"
  "all_compiled (add_synthesized owner fl m nd st) \<longleftrightarrow> all_compiled st \<and> compiled_node nd"
  "all_compiled (st\<lparr>bs_classes_seen := n\<rparr>) = all_compiled st" "all_compiled (bump_stats f st) = all_compiled st"
  "all_compiled (st\<lparr>bs_skipped_no_lines := n\<rparr>) = all_compiled st" "all_compiled (enter_class env k st) = all_compiled st"
  by (simp_all add: all_compiled_def declare_method_def add_synthesized_def bump_stats_def enter_class_def Let_def)

interpretation labels: observer env ix all_compiled "\<lambda>_ o1. o1" "\<lambda>_ _ _ o1. o1" for env ix
  by unfold_locales (simp_all add: compiled_body compiled_updates, simp add: compiled_node_def synthesized_label)

definition COMPILED_TYPES :: "string set" where
  "COMPILED_TYPES = {''CONTAINS'', ''CALLS'', ''CALLS_EXTERNAL'', ''READS'', ''WRITES'', ''EXTENDS'', ''IMPLEMENTS'', ''OVERRIDES''}"

lemma candidate_types: "e \<in> set (candidate_edges env ix infos) \<Longrightarrow> e_type e \<in> COMPILED_TYPES"
  by (auto simp: candidate_edges_def body_edges_def call_edges_def access_edges_def header_edges_def target_edges_def
      class_overrides_def override_edges_def header_targets_def bc_edge_def mk_edge_def COMPILED_TYPES_def Let_def split: if_splits)

lemma compiled_kinds:
  "case resolve_java_bytecode env nodes roots r of Inl _ \<Rightarrow> True
   | Inr (es, ns, rep) \<Rightarrow> list_all compiled_node ns \<and> e_type ` set es \<subseteq> COMPILED_TYPES"
proof (rule resolve_rule, goal_cases)
  case (2 st rep)
  let ?es = "bs_edges (rp_counts rep)"
  have "fold (\<lambda>k o1. o1) ks o1 = o1" for ks :: "bc_class list" and o1 :: bool
    by (induction ks) auto
  then have "all_compiled st = all_compiled bc_start"
    using labels.obs_scan [OF 2(1) [unfolded scan_classes_def]] by (simp add: id_def fold_bodies)
  then have "list_all compiled_node (bs_nodes (rp_counts rep))"
    using after_scan(2) [OF 2(1)] by (simp add: 2(2) unlinked_def all_compiled_def bc_start_def)
  moreover have "e_type e \<in> COMPILED_TYPES" if "e \<in> set ?es" for e
  proof (cases "e_type e = ''CONTAINS''")
    case False
    with that have "e \<in> set (filter (\<lambda>e. e_type e \<noteq> ''CONTAINS'') ?es)" by simp
    moreover have "filter (\<lambda>e. e_type e \<noteq> ''CONTAINS'') ?es = kept edge_key {} (candidate_edges env (build_index nodes) (iter_class_sources roots))"
      using after_scan(1) [OF 2(1)] by (simp add: 2(2) linked_def)
    ultimately have "e \<in> set (candidate_edges env (build_index nodes) (iter_class_sources roots))" by (metis kept_mem)
    then show ?thesis by (rule candidate_types)
  qed (simp add: COMPILED_TYPES_def)
  ultimately show ?case by auto
qed simp

section \<open>Derivations\<close>

lemma override_derived:
  assumes "e \<in> set (derive_overrides skipm skipp nodes edges)"
  shows "e_type e = ''OVERRIDES'' \<and> e_src e \<in> s_id ` set nodes \<and> e_dst e \<in> s_id ` set nodes"
proof -
  from derive_pairs [of skipm skipp nodes edges] obtain ps where ps:
    "derive_overrides skipm skipp nodes edges = map (\<lambda>(n, m). override_edge n m) (kept pair_key {} (filter (pair_ok skipp) ps))"
    "set (filter (pair_ok skipp) ps) = {(n, m). is_override nodes edges n m \<and> s_id n \<notin> skipm \<and> (s_id n, s_id m) \<notin> skipp}"
    by blast
  from assms obtain n m where nm: "(n, m) \<in> set (kept pair_key {} (filter (pair_ok skipp) ps))" "e = override_edge n m"
    unfolding ps(1) by auto
  from kept_mem [OF nm(1)] have "is_override nodes edges n m" using ps(2) by auto
  then show ?thesis by (auto simp: is_override_def nm(2) override_edge_def mk_edge_def)
qed

lemma links_within: "p \<in> set (links xs) \<Longrightarrow> fst p \<in> set xs \<and> snd p \<in> set xs"
  by (induction xs rule: links.induct) auto

lemma tree_ends:
  fixes make_id repo nodes
  defines "r \<equiv> build_package_tree make_id repo nodes"
  assumes "e \<in> set (snd r)"
  shows "{e_src e, e_dst e} \<subseteq> n_id ` set (fst r) \<union> s_id ` set nodes"
proof -
  let ?pid = "\<lambda>fqn. make_id repo fqn ''package''" and ?root = "make_id repo repo ''repository''"
  note exact = tree_exact [of make_id repo nodes, folded r_def, unfolded Let_def]
  from exact assms(2) have "(e_src e, e_dst e) \<in> (\<Union>n \<in> set (filter (\<lambda>n. s_label n = ''File'') nodes). set (links (?root # package_chain ?pid n @ [s_id n])))"
    by blast
  then obtain n where n: "n \<in> set (filter (\<lambda>n. s_label n = ''File'') nodes)"
      "(e_src e, e_dst e) \<in> set (links (?root # package_chain ?pid n @ [s_id n]))" ..
  from links_within [OF n(2)] have "{e_src e, e_dst e} \<subseteq> insert ?root (set (package_chain ?pid n)) \<union> {s_id n}" by auto
  moreover have "insert ?root (set (package_chain ?pid n)) \<subseteq> n_id ` set (fst r)"
    using exact n(1) by blast
  ultimately show ?thesis using n(1) by auto
qed

definition tree_kinds :: "tree \<Rightarrow> bool" where
  "tree_kinds t \<longleftrightarrow> list_all (\<lambda>n. n_label n \<in> {''Repository'', ''Package''}) (tr_nodes t) \<and> list_all (\<lambda>e. e_type e = ''CONTAINS'') (tr_edges t)"

lemma tree_kinds_steps:
  "n_label n \<in> {''Repository'', ''Package''} \<Longrightarrow> tree_kinds t \<Longrightarrow> tree_kinds (tree_node n t)"
  "tree_kinds t \<Longrightarrow> tree_kinds (tree_contains a b t)"
  by (auto simp: tree_kinds_def tree_node_def tree_contains_def contains_edge_def mk_edge_def)

lemma tree_kinds_file: "tree_kinds t \<Longrightarrow> tree_kinds (tree_file pid repo rid n t)"
proof -
  have "n_label (package_node pid repo n parts i) = ''Package''" for parts i
    by (simp add: package_node_def mk_node_def Let_def)
  then have loop: "tree_kinds t \<Longrightarrow> tree_kinds (snd (package_loop pid repo n parts is parent t))" for parts "is" parent t
    by (induction "is" arbitrary: parent t) (simp_all add: tree_kinds_steps Let_def)
  assume t: "tree_kinds t"
  let ?parts = "split_on (CHR ''.'') (s_package n)"
  let ?r = "if s_package n \<noteq> [] then package_loop pid repo n ?parts [0..<length ?parts] rid t else (rid, t)"
  have "tree_kinds (snd ?r)" using t loop by simp
  moreover have "tree_file pid repo rid n t = (if s_label n \<noteq> ''File'' then t else tree_contains (fst ?r) (s_id n) (snd ?r))"
    unfolding tree_file_def Let_def prod.case_eq_if by (rule refl)
  ultimately show ?thesis using t by (simp only: tree_kinds_steps simp_thms split: if_split)
qed

lemma package_kinds:
  "list_all (\<lambda>n. n_label n \<in> {''Repository'', ''Package''}) (fst (build_package_tree make_id repo nodes))"
  "list_all (\<lambda>e. e_type e = ''CONTAINS'') (snd (build_package_tree make_id repo nodes))"
proof -
  let ?t = "fold (tree_file (\<lambda>fqn. make_id repo fqn ''package'') repo (make_id repo repo ''repository'')) nodes"
  have "tree_kinds t \<Longrightarrow> tree_kinds (?t t)" for t
    by (induction nodes arbitrary: t) (simp_all add: tree_kinds_file)
  moreover have "tree_kinds (tree_node ((mk_node (make_id repo repo ''repository'') ''Repository'' repo repo repo)\<lparr>n_kind := ''repository''\<rparr>)
      \<lparr>tr_nodes = [], tr_edges = [], tr_seen = {}, tr_pairs = {}\<rparr>)"
    by (rule tree_kinds_steps) (simp_all add: mk_node_def tree_kinds_def)
  ultimately have "tree_kinds (?t (tree_node ((mk_node (make_id repo repo ''repository'') ''Repository'' repo repo repo)\<lparr>n_kind := ''repository''\<rparr>)
      \<lparr>tr_nodes = [], tr_edges = [], tr_seen = {}, tr_pairs = {}\<rparr>))" by blast
  then show "list_all (\<lambda>n. n_label n \<in> {''Repository'', ''Package''}) (fst (build_package_tree make_id repo nodes))"
    "list_all (\<lambda>e. e_type e = ''CONTAINS'') (snd (build_package_tree make_id repo nodes))"
    by (simp_all add: build_package_tree_def tree_kinds_def Let_def)
qed

lemma sql_derived:
  assumes "e \<in> set (derive_sql_links nodes sources)"
  shows "e_type e \<in> {''READS'', ''WRITES''} \<and> e_src e \<in> s_id ` set nodes \<and> e_dst e \<in> s_id ` set nodes"
  by (rule link_ends [OF assms])

section \<open>Together\<close>

lemma created_labels:
  "synthetic n \<Longrightarrow> n_label n \<in> NODE_LABELS" "compiled_node n \<Longrightarrow> n_label n \<in> NODE_LABELS"
  "n_label n \<in> {''Repository'', ''Package''} \<Longrightarrow> n_label n \<in> NODE_LABELS"
  by (auto simp: synthetic_def compiled_node_def NODE_LABELS_def)

lemma created_types: "COMPILED_TYPES \<subseteq> EDGE_TYPES" "{''REFERENCES'', ''CALLS_EXTERNAL'', ''OVERRIDES'', ''CONTAINS'', ''READS'', ''WRITES''} \<subseteq> EDGE_TYPES"
  by (auto simp: COMPILED_TYPES_def EDGE_TYPES_def)

end
