(* ===== verification/IndexProps.thy ===== *)
theory IndexProps
  imports IndexKinds
begin

text \<open>
  What a run of \<open>index_repo\<close> leaves in the database.  The extracted bundle has to be consistent:
  its edges and references start, and its edges end, at its own nodes.  Then every statement
  matches its nodes, and nothing that a stage produced is lost on the way.
\<close>

section \<open>Consistent input\<close>

text \<open>Javac's edges join nodes it was given.\<close>

definition javac_ok :: "index_env \<Rightarrow> bool" where
  "javac_ok env \<longleftrightarrow> (\<forall>ns. case ie_run_javac env ns of None \<Rightarrow> True | Some (es, fs) \<Rightarrow> fits (n_id ` set ns) es)"

lemma fits_ends: "fits ids es \<longleftrightarrow> e_type ` set es \<subseteq> EDGE_TYPES \<and> ends es \<subseteq> ids"
  by (auto simp: fits_def list_all_iff ends_def)

section \<open>Single statements\<close>

definition keys :: "edge list \<Rightarrow> rel_key set" where
  "keys es = rel_key ` set (written es)"

lemma keys_append [simp]: "keys (es @ fs) = keys es \<union> keys fs"
  by (auto simp: keys_def written_def)

lemma keys_nil [simp]: "keys [] = {}"
  by (simp add: keys_def written_def)

lemma write_fits:
  assumes "fits ids es" "ids \<subseteq> dom (db_nodes db)"
  obtains db' where "write_edges es db = Inr db'" "dom (db_nodes db') = dom (db_nodes db)"
    "dom (db_rels db') = dom (db_rels db) \<union> keys es"
proof -
  have "list_all (\<lambda>e. e_type e \<in> EDGE_TYPES) (written es)"
    using assms(1) by (auto simp: fits_def written_def list_all_iff)
  then obtain db' where w: "write_edges es db = Inr db'" by (auto simp: write_edges_def)
  have "{e \<in> set (written es). joins_nodes db e} = set (written es)"
    using assms by (auto simp: fits_def written_def list_all_iff joins_nodes_def)
  with write_edges_dom [OF w] have "dom (db_rels db') = dom (db_rels db) \<union> keys es" "db_nodes db' = db_nodes db"
    by (simp_all add: keys_def)
  with w that show ?thesis by simp
qed

lemma write_labelled:
  assumes "list_all (\<lambda>n. n_label n \<in> NODE_LABELS) ns"
  obtains db' where "write_nodes ts ns db = Inr db'" "dom (db_nodes db') = dom (db_nodes db) \<union> n_id ` set ns"
    "dom (db_rels db') = dom (db_rels db)"
proof -
  from assms obtain db' where w: "write_nodes ts ns db = Inr db'" by (auto simp: write_nodes_def)
  with write_nodes_dom [OF w] that show ?thesis by simp
qed

lemma count_fits:
  "fits (is_known s) es \<Longrightarrow> dangling (is_stats (count_edges es s)) = dangling (is_stats s)"
  by (auto simp: count_edges_def stats_add_counts fits_def list_all_iff is_dangling_def edge_to_slim_def filter_empty_conv)

lemma count_edges_same [simp]:
  "is_nodes (count_edges es s) = is_nodes s" "is_known (count_edges es s) = is_known s" "is_edges (count_edges es s) = is_edges s"
  "is_late (count_edges es s) = is_late s" "is_new (count_edges es s) = is_new s" "is_db (count_edges es s) = is_db s"
  by (simp_all add: count_edges_def)

lemma extend_fields:
  assumes "extend_nodes ns s = (accepted, s')"
  shows "accepted = kept n_id (is_known s) ns" "is_nodes s' = is_nodes s @ accepted" "is_known s' = is_known s \<union> n_id ` set ns"
    "is_edges s' = is_edges s" "is_stats s' = is_stats s" "is_late s' = is_late s" "is_new s' = is_new s" "is_db s' = is_db s"
  using assms by (auto simp: extend_nodes_def keep_first_kept)

section \<open>Before resolution\<close>

text \<open>What holds between two stages: every node in memory has an id of its own and is known, every
  known id is in the database, and nothing counted dangles.\<close>

definition settled :: "index_state \<Rightarrow> bool" where
  "settled s \<longleftrightarrow> distinct (map n_id (is_nodes s)) \<and> n_id ` set (is_nodes s) \<subseteq> is_known s \<and> is_known s \<subseteq> dom (db_nodes (is_db s))
     \<and> dangling (is_stats s) = 0"

lemma bytecode_stage_ok:
  assumes labels: "list_all (\<lambda>n. n_label n \<in> NODE_LABELS) (is_nodes s)" and known: "is_known s = n_id ` set (is_nodes s)"
    and dist: "distinct (map n_id (is_nodes s))"
  shows "case bytecode_stage env s of Inl e \<Rightarrow> ie_bytecode env \<and> (\<exists>c. e = Class_Error c)
    | Inr (es, rep, s') \<Rightarrow> list_all (\<lambda>n. n_label n \<in> NODE_LABELS) (is_nodes s') \<and> is_known s' = n_id ` set (is_nodes s')
        \<and> distinct (map n_id (is_nodes s')) \<and> is_known s \<subseteq> is_known s' \<and> fits (is_known s') es
        \<and> is_late s' = is_late s \<and> is_new s' = is_new s \<and> is_db s' = is_db s \<and> is_stats s' = is_stats s"
proof (cases "ie_bytecode env \<and> has_java env")
  case False
  then show ?thesis using assms by (auto simp: bytecode_stage_def)
next
  case on: True
  show ?thesis
  proof (cases "resolve_java_bytecode (ie_bc env) (is_nodes s) (ie_roots env) (ie_min_rate env)")
    case (Inl e)
    then show ?thesis using on by (simp add: bytecode_stage_def)
  next
    case (Inr res)
    obtain es ns rep where res: "res = (es, ns, rep)" by (cases res)
    have "list_all compiled_node ns" "e_type ` set es \<subseteq> COMPILED_TYPES" "ends es \<subseteq> n_id ` (set (is_nodes s) \<union> set ns)"
      using compiled_kinds [where env = "ie_bc env" and nodes = "is_nodes s" and roots = "ie_roots env" and r = "ie_min_rate env"]
        compiled_ends [where env = "ie_bc env" and nodes = "is_nodes s" and roots = "ie_roots env" and r = "ie_min_rate env"] by (simp_all add: Inr res)
    then have ns: "list_all (\<lambda>n. n_label n \<in> NODE_LABELS) ns" and es: "fits (is_known s \<union> n_id ` set ns) es"
      using created_types(1) by (auto simp: list_all_iff created_labels fits_ends known image_Un)
    obtain accepted s1 where ext: "extend_nodes ns s = (accepted, s1)" by (cases "extend_nodes ns s")
    note f = extend_fields [OF ext]
    have "list_all (\<lambda>n. n_label n \<in> NODE_LABELS) (is_nodes s1)"
      using labels ns by (auto simp: f(1,2) list_all_iff dest: kept_mem)
    moreover have ids: "n_id ` set (is_nodes s1) = is_known s \<union> n_id ` set ns"
      by (auto simp: f(1,2) image_Un kept_keys known)
    moreover have "distinct (map n_id (is_nodes s1))"
      using dist kept_keys [of n_id "is_known s" ns] by (auto simp: f(1,2) kept_distinct known)
    moreover have "list_all P (apply_taint_marks nodes r) = list_all P nodes" if "\<And>n. P (stamp_node r n) = P n" for P nodes r
      using that by (simp add: apply_marks_map list.pred_map comp_def)
    then have "list_all (\<lambda>n. n_label n \<in> NODE_LABELS) (apply_taint_marks nodes r) = list_all (\<lambda>n. n_label n \<in> NODE_LABELS) nodes" for nodes r
      by simp
    moreover have "n_id ` set (apply_taint_marks nodes r) = n_id ` set nodes" for nodes r
      by (simp add: apply_marks_map image_image)
    ultimately show ?thesis using on assms es f by (simp add: bytecode_stage_def Inr res ext)
  qed
qed

lemma javac_stage_ok: "javac_ok env \<Longrightarrow> fits (n_id ` set ns) (fst (javac_stage env rep ns))"
  by (auto simp: javac_stage_def javac_ok_def Let_def split: option.splits prod.splits dest!: spec [where x = ns] intro!: fits_filter)

lemma first_write_ok:
  assumes "list_all (\<lambda>n. n_label n \<in> NODE_LABELS) (is_nodes s)" "fits (n_id ` set (is_nodes s)) es"
  obtains db' where "first_write env es s = Inr (s\<lparr>is_db := db'\<rparr>)"
    "dom (db_nodes db') = dom (db_nodes (make_room env (is_db s))) \<union> n_id ` set (is_nodes s)"
    "dom (db_rels db') = dom (db_rels (make_room env (is_db s))) \<union> keys es"
proof -
  obtain db1 where w1: "write_nodes (ie_clock env 0) (is_nodes s) (make_room env (is_db s)) = Inr db1"
    and n1: "dom (db_nodes db1) = dom (db_nodes (make_room env (is_db s))) \<union> n_id ` set (is_nodes s)"
    and r1: "dom (db_rels db1) = dom (db_rels (make_room env (is_db s)))" by (rule write_labelled [OF assms(1)])
  from assms(2) obtain db2 where w2: "write_edges es db1 = Inr db2" and n2: "dom (db_nodes db2) = dom (db_nodes db1)"
    and r2: "dom (db_rels db2) = dom (db_rels db1) \<union> keys es" by (rule write_fits [of _ es db1]) (simp add: n1)
  have "first_write env es s = Inr (s\<lparr>is_db := db2\<rparr>)" by (simp add: first_write_def andThen_def from_store_def w1 w2)
  with that n1 r1 n2 r2 show ?thesis by simp
qed

lemma prepare_ok:
  assumes b: "bundle_ok b" and dist: "distinct (map n_id (b_nodes b))" and javac: "javac_ok env"
  shows "case prepare env b db of Inl e \<Rightarrow> ie_bytecode env \<and> (\<exists>c. e = Class_Error c)
    | Inr (t, s) \<Rightarrow> settled s \<and> is_known s = n_id ` set (is_nodes s) \<and> n_id ` set (b_nodes b) \<subseteq> is_known s
        \<and> fits (is_known s) (ti_bytecode t) \<and> fits (is_known s) (ti_javac t)
        \<and> dom (db_nodes (is_db s)) = dom (db_nodes (make_room env db)) \<union> is_known s
        \<and> dom (db_rels (is_db s)) = dom (db_rels (make_room env db)) \<union> keys (b_edges b) \<and> is_late s = [] \<and> is_new s = []"
proof -
  let ?s0 = "start_index b db"
  have fit: "fits (n_id ` set (b_nodes b)) (b_edges b)" using b by (simp add: bundle_ok_def)
  have s0: "is_nodes ?s0 = b_nodes b" "is_known ?s0 = n_id ` set (b_nodes b)" "is_db ?s0 = db" "is_late ?s0 = []" "is_new ?s0 = []"
    by (simp_all add: start_index_def)
  have "?s0 = count_edges (b_edges b) (?s0\<lparr>is_stats := edge_stats_init\<rparr>)" by (simp add: start_index_def count_edges_def)
  then have dang: "dangling (is_stats ?s0) = 0"
    using count_fits [of "?s0\<lparr>is_stats := edge_stats_init\<rparr>" "b_edges b"] fit by (simp add: s0 edge_stats_init_def)
  have labels: "list_all (\<lambda>n. n_label n \<in> NODE_LABELS) (is_nodes ?s0)" using b by (simp add: bundle_ok_def s0)
  show ?thesis
  proof (cases "bytecode_stage env ?s0")
    case (Inl e)
    with bytecode_stage_ok [OF labels, of env] show ?thesis using dist by (simp add: s0 prepare_def andThen_def)
  next
    case (Inr res)
    obtain bes rep s1 where res: "res = (bes, rep, s1)" by (cases res)
    with bytecode_stage_ok [OF labels, of env] dist have s1: "list_all (\<lambda>n. n_label n \<in> NODE_LABELS) (is_nodes s1)"
        "is_known s1 = n_id ` set (is_nodes s1)" "distinct (map n_id (is_nodes s1))" "n_id ` set (b_nodes b) \<subseteq> is_known s1"
        "fits (is_known s1) bes" "is_late s1 = []" "is_new s1 = []" "is_db s1 = db" "is_stats s1 = is_stats ?s0"
      by (auto simp: s0 Inr)
    obtain jes jf where j: "javac_stage env rep (is_nodes s1) = (jes, jf)" by (cases "javac_stage env rep (is_nodes s1)")
    have jes: "fits (is_known s1) jes" using javac_stage_ok [OF javac, of "is_nodes s1" rep] by (simp add: j s1(2))
    obtain db' where w: "first_write env (b_edges b) s1 = Inr (s1\<lparr>is_db := db'\<rparr>)"
        "dom (db_nodes db') = dom (db_nodes (make_room env db)) \<union> n_id ` set (is_nodes s1)"
        "dom (db_rels db') = dom (db_rels (make_room env db)) \<union> keys (b_edges b)"
      using first_write_ok [OF s1(1) fits_mono [OF fit s1(4) [unfolded s1(2)]]] unfolding s1(8) by blast
    show ?thesis
      using s1 jes w dang by (auto simp: prepare_def andThen_def Inr res j settled_def Let_def)
  qed
qed

section \<open>Resolution\<close>

definition batch_ok :: "string set \<Rightarrow> node list \<times> edge list \<Rightarrow> bool" where
  "batch_ok ids call \<longleftrightarrow> list_all synthetic (fst call) \<and> list_all (\<lambda>e. e_type e \<in> EDGE_TYPES \<and> e_src e \<in> ids) (snd call)"

definition same_lists :: "index_state \<Rightarrow> index_state \<Rightarrow> bool" where
  "same_lists s s' \<longleftrightarrow> is_nodes s' = is_nodes s \<and> is_late s' = is_late s \<and> is_new s' = is_new s"

lemma sink_batch_ok:
  assumes "batch_ok (is_known s) (ns, es)" "e_dst ` set es \<subseteq> is_known s \<union> n_id ` set ns"
    "is_known s \<subseteq> dom (db_nodes (is_db s))"
  obtains s' where "sink_batch env (i, ns, es) s = Inr s'" "same_lists s s'" "is_known s' = is_known s \<union> n_id ` set ns"
    "dangling (is_stats s') = dangling (is_stats s)" "dom (db_nodes (is_db s')) = dom (db_nodes (is_db s)) \<union> n_id ` set ns"
    "dom (db_rels (is_db s')) = dom (db_rels (is_db s)) \<union> keys es"
proof -
  let ?s0 = "s\<lparr>is_known := is_known s \<union> n_id ` set ns\<rparr>"
  let ?s1 = "count_edges es ?s0"
  have labels: "list_all (\<lambda>n. n_label n \<in> NODE_LABELS) ns"
    using assms(1) by (auto simp: batch_ok_def list_all_iff created_labels)
  have fit: "fits (is_known ?s0) es"
    using assms(1,2) by (auto simp: batch_ok_def fits_def list_all_iff)
  obtain db1 where w1: "write_nodes (ie_clock env (Suc i)) ns (is_db s) = Inr db1"
      "dom (db_nodes db1) = dom (db_nodes (is_db s)) \<union> n_id ` set ns" "dom (db_rels db1) = dom (db_rels (is_db s))"
    by (rule write_labelled [OF labels])
  have "is_known ?s0 \<subseteq> dom (db_nodes db1)" using assms(3) by (auto simp: w1(2))
  then obtain db2 where w2: "write_edges es db1 = Inr db2" "dom (db_nodes db2) = dom (db_nodes db1)"
      "dom (db_rels db2) = dom (db_rels db1) \<union> keys es"
    by (rule write_fits [OF fit])
  have "sink_batch env (i, ns, es) s = Inr (?s1\<lparr>is_db := db2\<rparr>)"
    by (simp add: sink_batch_def andThen_def from_store_def Let_def w1 w2)
  then show ?thesis by (rule that) (use count_fits [OF fit] w1 w2 in \<open>simp_all add: same_lists_def\<close>)
qed

lemma sink_batches_ok:
  assumes "safe_writes ids calls" "ids \<subseteq> is_known s" "list_all (batch_ok src) calls" "src \<subseteq> is_known s"
    "is_known s \<subseteq> dom (db_nodes (is_db s))"
  shows "\<exists>s'. sink_batches env (enumerate i calls) s = Inr s' \<and> same_lists s s'
    \<and> is_known s' = is_known s \<union> n_id ` set (concat (map fst calls)) \<and> dangling (is_stats s') = dangling (is_stats s)
    \<and> dom (db_nodes (is_db s')) = dom (db_nodes (is_db s)) \<union> n_id ` set (concat (map fst calls))
    \<and> dom (db_rels (is_db s')) = dom (db_rels (is_db s)) \<union> keys (concat (map snd calls))"
  using assms
proof (induction calls arbitrary: ids i s)
  case Nil
  show ?case by (simp add: same_lists_def)
next
  case (Cons call calls)
  obtain ns es where call: "call = (ns, es)" by (cases call)
  have dst: "e_dst ` set es \<subseteq> ids \<union> n_id ` set ns" and safe: "safe_writes (ids \<union> n_id ` set ns) calls"
    using Cons.prems(1) by (simp_all add: call)
  have ok: "batch_ok (is_known s) (ns, es)"
    using Cons.prems(3,4) by (auto simp: call batch_ok_def list_all_iff)
  have dst': "e_dst ` set es \<subseteq> is_known s \<union> n_id ` set ns" using dst Cons.prems(2) by blast
  obtain s1 where s1: "sink_batch env (i, ns, es) s = Inr s1" "same_lists s s1" "is_known s1 = is_known s \<union> n_id ` set ns"
      "dangling (is_stats s1) = dangling (is_stats s)" "dom (db_nodes (is_db s1)) = dom (db_nodes (is_db s)) \<union> n_id ` set ns"
      "dom (db_rels (is_db s1)) = dom (db_rels (is_db s)) \<union> keys es"
    by (rule sink_batch_ok [OF ok dst' Cons.prems(5)])
  have "\<exists>s'. sink_batches env (enumerate (Suc i) calls) s1 = Inr s' \<and> same_lists s1 s'
    \<and> is_known s' = is_known s1 \<union> n_id ` set (concat (map fst calls)) \<and> dangling (is_stats s') = dangling (is_stats s1)
    \<and> dom (db_nodes (is_db s')) = dom (db_nodes (is_db s1)) \<union> n_id ` set (concat (map fst calls))
    \<and> dom (db_rels (is_db s')) = dom (db_rels (is_db s1)) \<union> keys (concat (map snd calls))"
    by (rule Cons.IH [OF safe]) (use Cons.prems s1 in auto)
  then show ?case using s1(2) by (auto simp: call andThen_def s1(1,3-6) same_lists_def image_Un)
qed

definition resolver_calls :: "index_env \<Rightarrow> tiers \<Rightarrow> raw_ref list \<Rightarrow> index_state \<Rightarrow> (node list \<times> edge list) list" where
  "resolver_calls env t refs s = sk_calls (resolver_run env t refs s)"

lemma resolver_calls_ok:
  assumes refs: "list_all (\<lambda>r. r_type r \<in> EDGE_TYPES \<and> r_src r \<in> src) refs"
  shows "safe_writes (n_id ` set (is_nodes s)) (resolver_calls env t refs s)" "list_all (batch_ok src) (resolver_calls env t refs s)"
    "rstate.rs_nodes (sk_state (resolver_run env t refs s)) = concat (map fst (resolver_calls env t refs s))"
proof -
  let ?nodes = "map node_to_slim (is_nodes s)"
  let ?renv = "(ie_resolve env)\<lparr>en_skip_files := owned_files (ti_report t) \<union> ti_javac_files t\<rparr>"
  let ?ix = "build_rindex ?nodes (is_edges s) refs"
  let ?whole = "resolve ?renv ?nodes (is_edges s) refs"
  have run: "resolver_run env t refs s = sink_run (ie_sink_batch env) retain ?renv ?ix (direct_supers ?ix (is_edges s)) refs"
    by (simp add: resolver_run_def Let_def)
  note st = streamed [where nodes = ?nodes and edges = "is_edges s" and refs = refs and env = ?renv
      and batch = "ie_sink_batch env" and sink = retain, folded run, folded resolver_calls_def]
  have "s_id ` set ?nodes = n_id ` set (is_nodes s)" by (simp add: image_image node_to_slim_def)
  with st(5) show "safe_writes (n_id ` set (is_nodes s)) (resolver_calls env t refs s)" by simp
  from st(2,6) show "rstate.rs_nodes (sk_state (resolver_run env t refs s)) = concat (map fst (resolver_calls env t refs s))" by simp
  have edge: "e_type e \<in> EDGE_TYPES \<and> e_src e \<in> src" if "e \<in> set (rs_edges ?whole)" for e
    using resolved_edge [OF that] refs created_types(2) by (auto simp: list_all_iff)
  have "batch_ok src call" if c: "call \<in> set (resolver_calls env t refs s)" for call
  proof -
    from c have "set (fst call) \<subseteq> set (rstate.rs_nodes ?whole)" "set (snd call) \<subseteq> set (rs_edges ?whole)"
      unfolding st(1) [symmetric] st(2) [symmetric] by auto
    with resolved_labels [of ?renv ?nodes "is_edges s" refs] edge show ?thesis by (auto simp: batch_ok_def list_all_iff)
  qed
  then show "list_all (batch_ok src) (resolver_calls env t refs s)" by (simp add: list_all_iff)
qed

lemma persist_dom: "dom (db_nodes (persist_taint_marks repo ms db)) = dom (db_nodes db)" "db_rels (persist_taint_marks repo ms db) = db_rels db"
  by (simp_all add: persist_taint_marks_def set_taint_dom)

text \<open>The ids of the resolver's nodes are known already when the nodes are to be appended, as the sink
  has added them: none is.\<close>

lemma resolve_stage_ok:
  assumes s: "settled s" and refs: "list_all (\<lambda>r. r_type r \<in> EDGE_TYPES \<and> r_src r \<in> is_known s) refs"
    and known: "is_known s = n_id ` set (is_nodes s)"
  obtains s' where "resolve_stage env t refs s = Inr s'" "same_lists s s'"
    "is_known s' = is_known s \<union> n_id ` set (concat (map fst (resolver_calls env t refs s)))"
    "dom (db_nodes (is_db s')) = dom (db_nodes (is_db s)) \<union> n_id ` set (concat (map fst (resolver_calls env t refs s)))"
    "dom (db_rels (is_db s')) = dom (db_rels (is_db s)) \<union> keys (concat (map snd (resolver_calls env t refs s)))" "settled s'"
proof -
  let ?run = "resolver_run env t refs s"
  let ?calls = "resolver_calls env t refs s"
  note rc = resolver_calls_ok [OF refs, where s = s and env = env and t = t]
  have dom: "is_known s \<subseteq> dom (db_nodes (is_db s))" using s by (simp add: settled_def)
  obtain s1 where s1: "sink_batches env (enumerate 0 ?calls) s = Inr s1" "same_lists s s1"
      "is_known s1 = is_known s \<union> n_id ` set (concat (map fst ?calls))" "dangling (is_stats s1) = dangling (is_stats s)"
      "dom (db_nodes (is_db s1)) = dom (db_nodes (is_db s)) \<union> n_id ` set (concat (map fst ?calls))"
      "dom (db_rels (is_db s1)) = dom (db_rels (is_db s)) \<union> keys (concat (map snd ?calls))"
    using sink_batches_ok [OF rc(1) eq_refl [OF known [symmetric]] rc(2) order_refl dom, of env 0]
    by (elim exE conjE) (rule that)
  let ?s2 = "s1\<lparr>is_db := persist_taint_marks (ie_repo env) (rs_marks (sk_state ?run)) (is_db s1)\<rparr>"
  obtain accepted s3 where ext: "extend_nodes (rstate.rs_nodes (sk_state ?run)) ?s2 = (accepted, s3)"
    by (cases "extend_nodes (rstate.rs_nodes (sk_state ?run)) ?s2")
  note f = extend_fields [OF ext]
  have "n_id ` set accepted = {}" by (simp add: f(1) kept_keys rc(3) s1(3))
  then have none: "accepted = []" by simp
  let ?s' = "s3\<lparr>is_late := is_late s3 @ accepted, is_edges := is_edges s3 @ sk_kept ?run\<rparr>"
  have "resolve_stage env t refs s = Inr ?s'"
    using s1(1) by (simp add: resolve_stage_def andThen_def resolver_calls_def Let_def ext)
  moreover have "same_lists s ?s'" using s1(2) f none by (simp add: same_lists_def)
  moreover have k: "is_known ?s' = is_known s \<union> n_id ` set (concat (map fst ?calls))"
    using f(3) by (simp add: s1(3) rc(3))
  moreover have d: "dom (db_nodes (is_db ?s')) = dom (db_nodes (is_db s)) \<union> n_id ` set (concat (map fst ?calls))"
      "dom (db_rels (is_db ?s')) = dom (db_rels (is_db s)) \<union> keys (concat (map snd ?calls))"
    by (simp_all add: f(8) persist_dom s1)
  moreover have "settled ?s'"
  proof -
    have "is_nodes ?s' = is_nodes s" "dangling (is_stats ?s') = dangling (is_stats s)"
      using s1(2,4) f none by (simp_all add: same_lists_def)
    with s show ?thesis unfolding settled_def k d by (simp only: Un_mono le_supI1 order_refl simp_thms)
  qed
  ultimately show ?thesis by (rule that)
qed

section \<open>After resolution\<close>

lemma merge_tiers_ok:
  assumes s: "settled s" and t: "fits (is_known s) (ti_bytecode t)" "fits (is_known s) (ti_javac t)"
  obtains s' where "merge_tiers t s = Inr s'" "same_lists s s'" "settled s'" "is_known s' = is_known s"
    "dom (db_nodes (is_db s')) = dom (db_nodes (is_db s))"
    "dom (db_rels (is_db s')) = dom (db_rels (is_db s)) \<union> keys (ti_bytecode t @ ti_javac t)"
proof -
  let ?s1 = "if ti_bytecode t \<noteq> [] \<or> ti_javac t \<noteq> [] then s\<lparr>is_known := is_known s \<union> n_id ` set (is_nodes s)\<rparr> else s"
  have same: "?s1 = s" using s by (auto simp: settled_def Un_absorb2)
  let ?s2 = "count_edges (ti_javac t) (count_edges (ti_bytecode t) s)"
  have "fits (is_known s) (ti_bytecode t @ ti_javac t)" using t by simp
  moreover have "is_known s \<subseteq> dom (db_nodes (is_db s))" using s by (simp add: settled_def)
  ultimately obtain db1 where w: "write_edges (ti_bytecode t @ ti_javac t) (is_db s) = Inr db1"
      "dom (db_nodes db1) = dom (db_nodes (is_db s))" "dom (db_rels db1) = dom (db_rels (is_db s)) \<union> keys (ti_bytecode t @ ti_javac t)"
    by (rule write_fits)
  let ?s' = "?s2\<lparr>is_edges := is_edges ?s2 @ map edge_to_slim (ti_bytecode t @ ti_javac t), is_db := db1\<rparr>"
  have "merge_tiers t s = Inr ?s'"
    unfolding merge_tiers_def same Let_def by (simp add: andThen_def from_store_def w(1))
  moreover have "dangling (is_stats ?s') = dangling (is_stats s)"
    using count_fits [OF t(1)] count_fits [of "count_edges (ti_bytecode t) s" "ti_javac t"] t(2) by simp
  ultimately show ?thesis using s w by (intro that [of ?s']) (simp_all add: settled_def same_lists_def)
qed

lemma add_edges_fields [simp]:
  "is_nodes (add_edges es s) = is_nodes s" "is_known (add_edges es s) = is_known s" "is_late (add_edges es s) = is_late s"
  "is_new (add_edges es s) = is_new s @ es" "is_db (add_edges es s) = is_db s"
  by (simp_all add: add_edges_def Let_def)

lemma add_edges_fit: "fits (is_known s) es \<Longrightarrow> dangling (is_stats (add_edges es s)) = dangling (is_stats s)"
  using count_fits [of s es] by (simp add: add_edges_def Let_def)

lemma derive_stage_ok:
  fixes env :: index_env and t :: tiers
  assumes s: "settled s" "is_late s = []" "is_new s = []"
  defines "s' \<equiv> derive_stage env t s"
  shows "is_nodes s' = is_nodes s @ is_late s'" "list_all (\<lambda>n. n_label n \<in> {''Repository'', ''Package''}) (is_late s')"
    "is_known s' = is_known s \<union> n_id ` set (is_late s')" "fits (is_known s') (is_new s')" "is_db s' = is_db s"
    "dangling (is_stats s') = 0" "distinct (map n_id (is_nodes s'))"
proof -
  obtain skip_methods skip_pairs where skip: "(case ti_report t of None \<Rightarrow> ({}, {})
      | Some r \<Rightarrow> (bs_authoritative r, bs_override_pairs r)) = (skip_methods, skip_pairs)" by force
  let ?ov = "derive_overrides skip_methods skip_pairs (map node_to_slim (is_nodes s)) (is_edges s)"
  let ?s1 = "add_edges ?ov s"
  let ?tree = "build_package_tree (ie_make_id env) (ie_repo env) (map node_to_slim (is_nodes s))"
  obtain accepted s2 where ext: "extend_nodes (fst ?tree) ?s1 = (accepted, s2)" by (cases "extend_nodes (fst ?tree) ?s1")
  note f = extend_fields [OF ext]
  let ?s2 = "s2\<lparr>is_late := is_late s2 @ accepted\<rparr>"
  let ?s3 = "add_edges (snd ?tree) ?s2"
  let ?sql = "derive_sql_links (map node_to_slim (is_nodes ?s3)) (ie_sources env)"
  have s': "s' = add_edges ?sql ?s3"
    by (simp add: s'_def derive_stage_def skip Let_def ext case_prod_beta)
  have ids: "s_id ` set (map node_to_slim ns) = n_id ` set ns" for ns by (simp add: image_image node_to_slim_def)
  have nodes: "n_id ` set (is_nodes s) \<subseteq> is_known s" using s by (simp add: settled_def)
  have ov: "fits (is_known s) ?ov"
    using override_derived [of _ skip_methods skip_pairs "map node_to_slim (is_nodes s)" "is_edges s"] nodes created_types(2)
    unfolding ids by (auto simp: fits_def list_all_iff)
  have tree: "fits (is_known s \<union> n_id ` set (fst ?tree)) (snd ?tree)"
    using tree_ends [of _ "ie_make_id env" "ie_repo env" "map node_to_slim (is_nodes s)"] nodes created_types(2)
      package_kinds(2) [of "ie_make_id env" "ie_repo env" "map node_to_slim (is_nodes s)"]
    unfolding ids by (auto simp: fits_def list_all_iff)
  have known: "is_known ?s3 = is_known s \<union> n_id ` set (fst ?tree)" by (simp add: f)
  have nodes3: "n_id ` set (is_nodes ?s3) \<subseteq> is_known ?s3" using nodes by (auto simp: f dest: kept_mem)
  have sql: "fits (is_known ?s3) ?sql"
    using sql_derived [of _ "map node_to_slim (is_nodes ?s3)" "ie_sources env"] nodes3 created_types(2)
    unfolding ids fits_def list_all_iff by blast
  show "is_nodes s' = is_nodes s @ is_late s'" by (simp add: s' f s)
  show "list_all (\<lambda>n. n_label n \<in> {''Repository'', ''Package''}) (is_late s')"
    using package_kinds(1) [of "ie_make_id env" "ie_repo env" "map node_to_slim (is_nodes s)"]
    by (auto simp: s' f s list_all_iff dest: kept_mem)
  have "is_known s \<union> n_id ` set (fst ?tree) = is_known s \<union> n_id ` set accepted" by (auto simp: f(1) kept_keys)
  then show "is_known s' = is_known s \<union> n_id ` set (is_late s')" by (simp add: s' f s)
  show "fits (is_known s') (is_new s')"
    using sql tree fits_mono [OF ov, of "is_known ?s3"] by (simp add: s' known f s Un_upper1)
  show "is_db s' = is_db s" by (simp add: s' f)
  show "dangling (is_stats s') = 0"
    using add_edges_fit [OF sql] add_edges_fit [of ?s2 "snd ?tree"] add_edges_fit [OF ov] tree s(1)
    by (simp add: s' f settled_def)
  show "distinct (map n_id (is_nodes s'))"
    using s(1) kept_keys [of n_id "is_known s" "fst ?tree"] nodes by (auto simp: s' f settled_def kept_distinct)
qed

lemma last_write_ok:
  assumes "list_all (\<lambda>n. n_label n \<in> NODE_LABELS) (is_late s)" "fits (is_known s) (is_new s)"
    "is_known s \<subseteq> dom (db_nodes (is_db s)) \<union> n_id ` set (is_late s)"
  obtains db' where "last_write env i s = Inr (s\<lparr>is_db := db'\<rparr>)" "dom (db_nodes db') = dom (db_nodes (is_db s)) \<union> n_id ` set (is_late s)"
    "dom (db_rels db') = dom (db_rels (is_db s)) \<union> keys (is_new s)"
proof -
  obtain db1 where w1: "write_nodes (ie_clock env i) (is_late s) (is_db s) = Inr db1"
      "dom (db_nodes db1) = dom (db_nodes (is_db s)) \<union> n_id ` set (is_late s)" "dom (db_rels db1) = dom (db_rels (is_db s))"
    by (rule write_labelled [OF assms(1)])
  have "is_known s \<subseteq> dom (db_nodes db1)" using assms(3) by (simp add: w1(2))
  then obtain db2 where w2: "write_edges (is_new s) db1 = Inr db2" "dom (db_nodes db2) = dom (db_nodes db1)"
      "dom (db_rels db2) = dom (db_rels db1) \<union> keys (is_new s)"
    by (rule write_fits [OF assms(2)])
  have "last_write env i s = Inr (s\<lparr>is_db := db2\<rparr>)" by (simp add: last_write_def andThen_def from_store_def w1 w2)
  with that w1 w2 show ?thesis by simp
qed

lemma acquire_keeps:
  "is_nodes (acquire_stage env order s) = is_nodes s" "dangling (is_stats (acquire_stage env order s)) = dangling (is_stats s)"
  "dom (db_nodes (is_db s)) \<subseteq> dom (db_nodes (is_db (acquire_stage env order s)))"
  "dom (db_rels (is_db s)) \<subseteq> dom (db_rels (is_db (acquire_stage env order s)))"
proof -
  have one: "dom (db_nodes db) \<subseteq> dom (db_nodes (mark_acquire repo i db)) \<and> dom (db_rels db) \<subseteq> dom (db_rels (mark_acquire repo i db))"
    for repo i db by (auto simp: mark_acquire_def Let_def split: option.splits)
  have "dom (db_nodes db) \<subseteq> dom (db_nodes (fold (mark_acquire repo) is db)) \<and> dom (db_rels db) \<subseteq> dom (db_rels (fold (mark_acquire repo) is db))"
    for repo "is" db
  proof (induction "is" arbitrary: db)
    case (Cons i "is")
    from Cons [of "mark_acquire repo i db"] one [of db repo i] show ?case by (simp only: fold_simps) blast
  qed simp
  then show "dom (db_nodes (is_db s)) \<subseteq> dom (db_nodes (is_db (acquire_stage env order s)))"
    "dom (db_rels (is_db s)) \<subseteq> dom (db_rels (is_db (acquire_stage env order s)))"
    by (simp_all add: acquire_stage_def mark_inrepo_acquires_def Let_def)
qed (simp_all add: acquire_stage_def stats_add_count_def Let_def)

section \<open>The whole run\<close>

definition resolver_nodes :: "index_run \<Rightarrow> node list" where
  "resolver_nodes r = concat (map fst (sk_calls (ir_resolved r)))"

definition produced :: "index_run \<Rightarrow> edge list" where
  "produced r = b_edges (ir_bundle r) @ concat (map snd (sk_calls (ir_resolved r))) @ ti_bytecode (ir_tiers r) @ ti_javac (ir_tiers r)
     @ is_new (ir_written r)"

definition package_level :: "node \<Rightarrow> bool" where
  "package_level n \<longleftrightarrow> n_label n \<in> {''Repository'', ''Package''}"

definition run_ok :: "index_env \<Rightarrow> canonical_bundle \<Rightarrow> graph_db \<Rightarrow> index_run \<Rightarrow> bool" where
  "run_ok env b db r \<longleftrightarrow>
     (\<exists>t s. prepare env b db = Inr (t, s) \<and> is_nodes (ir_written r) = is_nodes s @ is_late (ir_written r))
     \<and> list_all package_level (is_late (ir_written r))
     \<and> dom (db_nodes (is_db (ir_written r))) = dom (db_nodes (make_room env db)) \<union> n_id ` set (is_nodes (ir_written r) @ resolver_nodes r)
     \<and> dom (db_rels (is_db (ir_written r))) = dom (db_rels (make_room env db)) \<union> keys (produced r)
     \<and> dangling (is_stats (ir_written r)) = 0 \<and> distinct (map n_id (is_nodes (ir_written r)))"

lemma merge_all_distinct: "distinct (map n_id (b_nodes (merge_all batches)))"
  by (simp add: merge_all_def Let_def merge_nodes kept_distinct)

lemma index_run_ok:
  assumes b: "bundle_ok (merge_all batches)" and javac: "javac_ok env"
  shows "case index_repo env batches order db of Inl e \<Rightarrow> ie_bytecode env \<and> (\<exists>c. e = Class_Error c)
    | Inr r \<Rightarrow> run_ok env (merge_all batches) db r \<and> ir_final r = acquire_stage env order (ir_written r)"
proof (cases "prepare env (merge_all batches) db")
  case (Inl e)
  with prepare_ok [OF b merge_all_distinct javac, of db] show ?thesis by (simp add: index_repo_def andThen_def Let_def)
next
  case (Inr ts)
  let ?b = "merge_all batches"
  obtain t s2 where ts: "ts = (t, s2)" by (cases ts)
  note prep = Inr [unfolded ts]
  from prepare_ok [OF b merge_all_distinct javac, of db] have s2: "settled s2" "is_known s2 = n_id ` set (is_nodes s2)"
      "n_id ` set (b_nodes ?b) \<subseteq> is_known s2" "fits (is_known s2) (ti_bytecode t)" "fits (is_known s2) (ti_javac t)"
      "dom (db_nodes (is_db s2)) = dom (db_nodes (make_room env db)) \<union> is_known s2"
      "dom (db_rels (is_db s2)) = dom (db_rels (make_room env db)) \<union> keys (b_edges ?b)" "is_late s2 = []" "is_new s2 = []"
    by (auto simp: prep)
  have refs: "list_all (\<lambda>r. r_type r \<in> EDGE_TYPES \<and> r_src r \<in> is_known s2) (b_refs ?b)"
    using b s2(3) by (auto simp: bundle_ok_def list_all_iff)
  let ?run = "resolver_run env t (b_refs ?b) s2"
  let ?ns = "concat (map fst (resolver_calls env t (b_refs ?b) s2))" and ?es = "concat (map snd (resolver_calls env t (b_refs ?b) s2))"
  obtain s3 where s3: "resolve_stage env t (b_refs ?b) s2 = Inr s3" "same_lists s2 s3" "is_known s3 = is_known s2 \<union> n_id ` set ?ns"
      "dom (db_nodes (is_db s3)) = dom (db_nodes (is_db s2)) \<union> n_id ` set ?ns"
      "dom (db_rels (is_db s3)) = dom (db_rels (is_db s2)) \<union> keys ?es" "settled s3"
    by (rule resolve_stage_ok [OF s2(1) refs s2(2)])
  have tiers3: "fits (is_known s3) (ti_bytecode t)" "fits (is_known s3) (ti_javac t)"
    using s2(4,5) by (auto simp: s3(3) intro: fits_mono)
  obtain s4 where s4: "merge_tiers t s3 = Inr s4" "same_lists s3 s4" "settled s4" "is_known s4 = is_known s3"
      "dom (db_nodes (is_db s4)) = dom (db_nodes (is_db s3))"
      "dom (db_rels (is_db s4)) = dom (db_rels (is_db s3)) \<union> keys (ti_bytecode t @ ti_javac t)"
    by (rule merge_tiers_ok [OF s3(6) tiers3])
  have empty: "is_late s4 = []" "is_new s4 = []" using s3(2) s4(2) s2(8,9) by (simp_all add: same_lists_def)
  let ?s5 = "derive_stage env t s4"
  note s5 = derive_stage_ok [OF s4(3) empty, of env t]
  have late: "list_all (\<lambda>n. n_label n \<in> NODE_LABELS) (is_late ?s5)"
    using s5(2) by (auto simp: list_all_iff intro: created_labels(3))
  have known5: "is_known ?s5 \<subseteq> dom (db_nodes (is_db ?s5)) \<union> n_id ` set (is_late ?s5)"
    using s4(3) by (auto simp: s5(3,5) settled_def)
  obtain db' where w: "last_write env (Suc (length (sk_calls ?run))) ?s5 = Inr (?s5\<lparr>is_db := db'\<rparr>)"
      "dom (db_nodes db') = dom (db_nodes (is_db ?s5)) \<union> n_id ` set (is_late ?s5)"
      "dom (db_rels db') = dom (db_rels (is_db ?s5)) \<union> keys (is_new ?s5)"
    by (rule last_write_ok [OF late s5(4) known5])
  let ?s6 = "?s5\<lparr>is_db := db'\<rparr>"
  let ?r = "\<lparr>ir_bundle = ?b, ir_tiers = t, ir_resolved = ?run, ir_written = ?s6, ir_final = acquire_stage env order ?s6\<rparr>"
  have run: "index_repo env batches order db = Inr ?r"
    by (simp add: index_repo_def andThen_def Let_def prep s3(1) s4(1) w(1))
  have nodes: "is_nodes ?s6 = is_nodes s2 @ is_late ?s6" using s5(1) s3(2) s4(2) by (simp add: same_lists_def)
  have ns: "dom (db_nodes db') = dom (db_nodes (make_room env db)) \<union> n_id ` set (is_nodes ?s6 @ ?ns)"
    unfolding nodes by (simp add: w s5(5) s4 s3 s2 image_Un) blast
  have es: "dom (db_rels db') = dom (db_rels (make_room env db)) \<union> keys (b_edges ?b @ ?es @ ti_bytecode t @ ti_javac t @ is_new ?s6)"
    by (simp add: w s5(5) s4 s3 s2 Un_assoc)
  have "run_ok env ?b db ?r"
    unfolding run_ok_def resolver_nodes_def produced_def package_level_def index_run.simps
    using prep nodes ns es s5(2,6,7) by (auto simp: resolver_calls_def)
  then show ?thesis by (simp add: run)
qed

lemma index_cases:
  assumes "bundle_ok (merge_all batches)" "javac_ok env"
  obtains (raised) c where "index_repo env batches order db = Inl (Class_Error c)" "ie_bytecode env"
  | (finished) r where "index_repo env batches order db = Inr r" "run_ok env (merge_all batches) db r"
      "ir_final r = acquire_stage env order (ir_written r)"
  using index_run_ok [OF assms, where order = order and db = db] by (cases "index_repo env batches order db") auto

text \<open>C9: when the extracted bundle is consistent, a run is never stopped by the store, and the database then
  holds exactly the nodes and the relationships that the deletion before it left and those that the
  stages produced, each edge of a kind that is kept: no batch is written before the nodes
  it refers to, and no edge is lost because an end is missing.\<close>

theorem index_database_exact:
  assumes "bundle_ok (merge_all batches)" "javac_ok env"
  shows "case index_repo env batches order db of Inl e \<Rightarrow> ie_bytecode env \<and> (\<exists>c. e = Class_Error c)
    | Inr r \<Rightarrow> dom (db_nodes (is_db (ir_written r))) = dom (db_nodes (make_room env db)) \<union> n_id ` set (is_nodes (ir_written r) @ resolver_nodes r)
        \<and> dom (db_rels (is_db (ir_written r))) = dom (db_rels (make_room env db))
            \<union> rel_key ` set (filter (\<lambda>e. e_type e \<notin> dropped_edge_types) (produced r))
        \<and> dom (db_rels (is_db (ir_written r))) \<subseteq> dom (db_rels (is_db (ir_final r)))"
proof (cases rule: index_cases [OF assms, where order = order and db = db, case_names raised finished])
  case (finished r)
  then show ?thesis
    using acquire_keeps(4) [of "ir_written r" env order] unfolding run_ok_def keys_def written_def by (simp only: sum.case simp_thms)
qed simp

text \<open>C10: such a run passes its own validation, up to inverted ranges in the extracted nodes: no id
  occurs twice and no edge dangles, whichever of the five producers made them and in
  whichever order they were added.\<close>

theorem index_validates:
  assumes "bundle_ok (merge_all batches)" "javac_ok env"
  shows "case index_repo env batches order db of Inl e \<Rightarrow> ie_bytecode env
    | Inr r \<Rightarrow> set (gr_errors (ix_validation (index_result_of env r))) \<subseteq> range Bad_Ranges
        \<and> distinct (map n_id (is_nodes (ir_final r))) \<and> dangling (is_stats (ir_final r)) = 0"
proof (cases rule: index_cases [OF assms, where order = order and db = db, case_names raised finished])
  case (finished r)
  have ids: "s_id \<circ> node_to_slim = n_id" by (simp add: fun_eq_iff node_to_slim_def)
  from finished have "distinct (map n_id (is_nodes (ir_final r)))" "dangling (is_stats (ir_final r)) = 0"
    by (simp_all add: run_ok_def acquire_keeps)
  then show ?thesis by (simp add: finished(1) index_result_of_def Let_def validate_errors ids)
qed simp

text \<open>C11: the nodes that the resolver makes are in the database but never among the nodes in memory: after the
  passes before resolution only packages and the repository are appended, so the count of the
  result, its validation and every later stage leave the resolver's nodes out.\<close>

theorem resolver_nodes_uncounted:
  assumes "bundle_ok (merge_all batches)" "javac_ok env"
  shows "case index_repo env batches order db of Inl e \<Rightarrow> ie_bytecode env
    | Inr r \<Rightarrow> n_id ` set (resolver_nodes r) \<subseteq> dom (db_nodes (is_db (ir_final r)))
        \<and> (\<exists>t s late. prepare env (merge_all batches) db = Inr (t, s) \<and> is_nodes (ir_final r) = is_nodes s @ late
            \<and> list_all (\<lambda>n. n_label n = ''Repository'' \<or> n_label n = ''Package'') late
            \<and> ix_nodes (index_result_of env r) = length (is_nodes s) + length late)"
proof (cases rule: index_cases [OF assms, where order = order and db = db, case_names raised finished])
  case (finished r)
  from finished(2) obtain t s where p: "prepare env (merge_all batches) db = Inr (t, s)"
      "is_nodes (ir_written r) = is_nodes s @ is_late (ir_written r)" "list_all package_level (is_late (ir_written r))"
      "n_id ` set (resolver_nodes r) \<subseteq> dom (db_nodes (is_db (ir_written r)))"
    by (auto simp: run_ok_def)
  have "n_id ` set (resolver_nodes r) \<subseteq> dom (db_nodes (is_db (ir_final r)))"
    using p(4) acquire_keeps(3) [of "ir_written r" env order] finished(3) by auto
  moreover have "is_nodes (ir_final r) = is_nodes s @ is_late (ir_written r)" using finished(3) p(2) by (simp add: acquire_keeps)
  moreover have "list_all (\<lambda>n. n_label n = ''Repository'' \<or> n_label n = ''Package'') (is_late (ir_written r))"
    using p(3) by (simp add: package_level_def [abs_def])
  ultimately show ?thesis using p(1) by (auto simp: finished(1) index_result_of_def Let_def)
qed simp

definition untouched :: "index_env \<Rightarrow> db_node \<Rightarrow> bool" where
  "untouched env d \<longleftrightarrow> \<not> of_files (ie_repo env) (or_none (ie_changed env) @ or_none (ie_deleted env)) d"

text \<open>C12: an incremental run deletes by file and nothing else: a relationship that was there before and
  whose ends are in files that did not change is still there afterwards, whether the new run
  has produced it or not.\<close>

theorem incremental_keeps_old_edges:
  assumes "bundle_ok (merge_all batches)" "javac_ok env" "ie_changed env \<noteq> None"
    and "db_rels db (ty, a, b) \<noteq> None" "db_nodes db a = Some x" "untouched env x" "db_nodes db b = Some y" "untouched env y"
  shows "case index_repo env batches order db of Inl e \<Rightarrow> ie_bytecode env
    | Inr r \<Rightarrow> db_rels (is_db (ir_final r)) (ty, a, b) \<noteq> None"
proof (cases rule: index_cases [OF assms(1,2), where order = order and db = db, case_names raised finished])
  case (finished r)
  have same: "set (sort (remdups fs)) = set fs" for fs :: "string list" by simp
  have keep: "\<not> of_files (ie_repo env) (sort (remdups (or_none (ie_changed env) @ or_none (ie_deleted env)))) d" if "untouched env d" for d
    using that unfolding untouched_def of_files_def same by blast
  have "db_rels (make_room env db) (ty, a, b) \<noteq> None"
    using assms(3-) keep by (auto simp: make_room_def delete_files_def delete_where_def Let_def)
  then have "(ty, a, b) \<in> dom (db_rels (is_db (ir_written r)))" using finished(2) by (simp add: run_ok_def domIff)
  with acquire_keeps(4) [of "ir_written r" env order] have "(ty, a, b) \<in> dom (db_rels (is_db (ir_final r)))"
    unfolding finished(3) by blast
  then show ?thesis by (simp add: finished(1) domIff)
qed simp

text \<open>Reading the references from disk gives the same list as merging them in memory, as a file is never
  in two batches.\<close>

definition ref_files :: "canonical_bundle list \<Rightarrow> string set" where
  "ref_files bs = r_ref_file ` set (b_refs (merge_bundles bs))"

lemma batch_refs_merged:
  "sorted_wrt (\<lambda>a b. ref_files a \<inter> ref_files b = {}) batches \<Longrightarrow> batch_refs batches = b_refs (merge_all batches)"
proof -
  assume sep: "sorted_wrt (\<lambda>a b. ref_files a \<inter> ref_files b = {}) batches"
  have "distinct (map ref_key (batch_refs bs))" if "sorted_wrt (\<lambda>a b. ref_files a \<inter> ref_files b = {}) bs" for bs
    using that
  proof (induction bs)
    case (Cons b bs)
    have "distinct (map ref_key (b_refs (merge_bundles b)))" by (simp add: merge_refs kept_distinct)
    moreover have "ref_key ` set (b_refs (merge_bundles b)) \<inter> ref_key ` set (batch_refs bs) = {}"
      using Cons.prems by (force simp: batch_refs_def ref_files_def ref_key_def)
    ultimately show ?case using Cons by (simp add: batch_refs_def)
  qed (simp add: batch_refs_def)
  with sep have "kept ref_key {} (batch_refs batches) = batch_refs batches" by (intro kept_all) auto
  moreover have "b_refs (merge_all batches) = kept ref_key {} (batch_refs batches)"
    by (simp add: merge_all_def merge_refs batch_refs_def from_extractor_def Let_def comp_def)
  ultimately show ?thesis by simp
qed

section \<open>A run\<close>

definition demo_index :: "string list option \<Rightarrow> index_env" where
  "demo_index changed = \<lparr>ie_repo = ''r'', ie_make_id = (\<lambda>a b c. c @ b), ie_relpaths = [''a.py''], ie_bytecode = False,
     ie_bc = \<lparr>be_make_id = (\<lambda>a b c. c @ b), be_repo = ''r'', be_sep = CHR ''/'', be_enabled = {}, be_include_other = False\<rparr>,
     ie_roots = [], ie_min_rate = 0, ie_javac = False, ie_javac_skip_at = 0, ie_run_javac = (\<lambda>_. None),
     ie_changed = changed, ie_deleted = None, ie_wipe = True, ie_resolve = demo_env, ie_sink_batch = 1000,
     ie_sources = (\<lambda>_. None), ie_clock = int\<rparr>"

definition demo_bundle :: canonical_bundle where
  "demo_bundle = from_extractor [(mk_node ''a'' ''Class'' ''A'' ''A'' ''r'')\<lparr>n_file := ''a.py''\<rparr>] []
     [mk_ref ''ANNOTATED_WITH'' ''a'' ''Entity'']"

definition demo_db :: graph_db where
  "demo_db = \<lparr>db_nodes = [''x'' \<mapsto> acquire_node ''x'' \<lparr>dn_labels = {}, dn_props = Map.empty\<rparr>,
                 ''y'' \<mapsto> acquire_node ''y'' \<lparr>dn_labels = {}, dn_props = Map.empty\<rparr>],
     db_rels = [(''CALLS'', ''x'', ''y'') \<mapsto> Map.empty]\<rparr>"

lemma demo_ok: "bundle_ok (merge_all [[demo_bundle]])" "javac_ok (demo_index c)"
  by (simp_all add: bundle_ok_def merge_all_def merge_lists kept_def demo_bundle_def from_extractor_def mk_node_def mk_ref_def
      fits_def NODE_LABELS_def EDGE_TYPES_def javac_ok_def demo_index_def Let_def)

theorem index_database_exact_witness:
  "case index_repo (demo_index None) [[demo_bundle]] [] demo_db of Inl e \<Rightarrow> False
   | Inr r \<Rightarrow> dom (db_rels (is_db (ir_written r))) = dom (db_rels (make_room (demo_index None) demo_db))
       \<union> rel_key ` set (filter (\<lambda>e. e_type e \<notin> dropped_edge_types) (produced r))"
  using index_database_exact [OF demo_ok, where order = "[]" and db = demo_db and ?c1 = None]
  by (simp add: demo_index_def split: sum.splits)

theorem index_validates_witness:
  "case index_repo (demo_index None) [[demo_bundle]] [] demo_db of Inl e \<Rightarrow> False
   | Inr r \<Rightarrow> distinct (map n_id (is_nodes (ir_final r))) \<and> dangling (is_stats (ir_final r)) = 0"
  using index_validates [OF demo_ok, where order = "[]" and db = demo_db and ?c1 = None]
  by (simp add: demo_index_def split: sum.splits)

lemma demo_prepare:
  "\<exists>t s. prepare (demo_index None) (merge_all [[demo_bundle]]) db = Inr (t, s) \<and> is_nodes s = b_nodes demo_bundle \<and> is_edges s = []
     \<and> ti_report t = None \<and> ti_javac_files t = {}"
  by (simp add: prepare_def bytecode_stage_def javac_stage_def first_write_def andThen_def from_store_def start_index_def
      demo_index_def merge_all_def merge_lists kept_def demo_bundle_def from_extractor_def mk_node_def write_nodes_def write_edges_def
      written_def NODE_LABELS_def Let_def)

lemma demo_resolver:
  "map (map n_id \<circ> fst) (sk_calls (sink_run 1000 retain (demo_env\<lparr>en_skip_files := {}\<rparr>)
     (build_rindex (map node_to_slim (b_nodes demo_bundle)) [] (b_refs demo_bundle))
     (direct_supers (build_rindex (map node_to_slim (b_nodes demo_bundle)) [] (b_refs demo_bundle)) []) (b_refs demo_bundle)))
   = [[''annotation@Entity'']]"
  by code_simp

lemma index_resolved:
  "index_repo env batches order db = Inr r \<Longrightarrow> prepare env (merge_all batches) db = Inr (t, s) \<Longrightarrow>
     ir_resolved r = resolver_run env t (b_refs (merge_all batches)) s"
  by (auto simp: index_repo_def andThen_def Let_def split: sum.splits)

theorem resolver_nodes_uncounted_witness:
  "case index_repo (demo_index None) [[demo_bundle]] [] demo_db of Inl e \<Rightarrow> False
   | Inr r \<Rightarrow> map n_id (resolver_nodes r) = [''annotation@Entity''] \<and> ''annotation@Entity'' \<in> dom (db_nodes (is_db (ir_final r)))
       \<and> list_all (\<lambda>n. n_label n \<noteq> ''Annotation'') (is_nodes (ir_final r))"
proof -
  let ?refs = "b_refs (merge_all [[demo_bundle]])"
  obtain t s where p: "prepare (demo_index None) (merge_all [[demo_bundle]]) demo_db = Inr (t, s)"
      "is_nodes s = b_nodes demo_bundle" "is_edges s = []" "ti_report t = None" "ti_javac_files t = {}"
    using demo_prepare [of demo_db] by blast
  have refs: "?refs = b_refs demo_bundle"
    by (simp add: merge_all_def merge_lists kept_def demo_bundle_def from_extractor_def Let_def)
  have "map (map n_id \<circ> fst) (sk_calls (resolver_run (demo_index None) t ?refs s)) = [[''annotation@Entity'']]"
    unfolding resolver_run_def Let_def p refs using demo_resolver by (simp add: demo_index_def owned_files_def)
  then have calls: "map n_id (concat (map fst (sk_calls (resolver_run (demo_index None) t ?refs s)))) = [''annotation@Entity'']"
    by (auto simp: map_concat comp_def)
  note counted = resolver_nodes_uncounted [OF demo_ok, where order = "[]" and db = demo_db and ?c1 = None]
  show ?thesis
  proof (cases "index_repo (demo_index None) [[demo_bundle]] [] demo_db")
    case (Inl e)
    with counted show ?thesis by (simp add: demo_index_def)
  next
    case (Inr r)
    have ids: "map n_id (resolver_nodes r) = [''annotation@Entity'']"
      using calls by (simp add: resolver_nodes_def index_resolved [OF Inr p(1)])
    then have "''annotation@Entity'' \<in> n_id ` set (resolver_nodes r)" by (metis list.set_intros(1) list.set_map)
    moreover from counted obtain late where "is_nodes (ir_final r) = b_nodes demo_bundle @ late"
        "list_all (\<lambda>n. n_label n = ''Repository'' \<or> n_label n = ''Package'') late"
        "n_id ` set (resolver_nodes r) \<subseteq> dom (db_nodes (is_db (ir_final r)))"
      by (auto simp: Inr p)
    moreover have "list_all (\<lambda>n. n_label n \<noteq> ''Annotation'') (b_nodes demo_bundle)"
      by (simp add: demo_bundle_def from_extractor_def mk_node_def)
    ultimately show ?thesis using ids unfolding Inr sum.case by (auto simp: list_all_iff)
  qed
qed

theorem incremental_keeps_old_edges_witness:
  "case index_repo (demo_index (Some [''a.py''])) [[demo_bundle]] [] demo_db of Inl e \<Rightarrow> False
   | Inr r \<Rightarrow> db_rels (is_db (ir_final r)) (''CALLS'', ''x'', ''y'') \<noteq> None"
proof -
  let ?env = "demo_index (Some [''a.py''])" and ?x = "acquire_node ''x'' \<lparr>dn_labels = {}, dn_props = Map.empty\<rparr>"
    and ?y = "acquire_node ''y'' \<lparr>dn_labels = {}, dn_props = Map.empty\<rparr>"
  have "ie_changed ?env \<noteq> None" "db_rels demo_db (''CALLS'', ''x'', ''y'') \<noteq> None" "db_nodes demo_db ''x'' = Some ?x"
      "untouched ?env ?x" "db_nodes demo_db ''y'' = Some ?y" "untouched ?env ?y"
    by (simp_all add: demo_index_def demo_db_def untouched_def of_files_def in_repo_def acquire_node_def or_none_def some_property_def)
  from incremental_keeps_old_edges [OF demo_ok this, of "[]"] show ?thesis
    by (simp add: demo_index_def split: sum.splits)
qed

end
