(* ===== verification/SqlDdl.thy ===== *)
theory SqlDdl
  imports GraphStore Regex
begin

text \<open>
  The extractor of SQL definitions (\<open>graph_core/extractors/sql.py\<close>): the tables a file creates,
  their columns, and the foreign keys between them.  The text of the file, as decoded, and the hash
  of an identity are arguments.
\<close>

section \<open>Patterns\<close>

definition name_quotes :: matcher where
  "name_quotes = in_row [optional (one (\<lambda>c. c = CHR 0x60)), optional (one (\<lambda>c. c = CHR 0x22))]"

definition quoted_name :: "nat \<Rightarrow> matcher" where
  "quoted_name n = in_row [name_quotes, captured n (some_of is_word), name_quotes]"

definition schema_prefix :: matcher where
  "schema_prefix = optional (in_row [quoted_name 1, one (\<lambda>c. c = CHR ''.'')])"

definition CREATE_TABLE_RE :: matcher where
  "CREATE_TABLE_RE = in_row [keyword ''CREATE'', gap, optional (in_row [keyword ''OR'', gap, keyword ''REPLACE'', gap]),
     optional (in_row [keyword ''TEMP'', optional (keyword ''ORARY''), gap]), keyword ''TABLE'', gap,
     optional (in_row [keyword ''IF'', gap, keyword ''NOT'', gap, keyword ''EXISTS'', gap]),
     schema_prefix, quoted_name 2, opt_gap, one (\<lambda>c. c = CHR ''('')]"

definition FK_RE :: matcher where
  "FK_RE = in_row [keyword ''REFERENCES'', gap, schema_prefix, quoted_name 2]"

definition type_words :: "matcher list" where
  "type_words =
     [keyword ''BIGINT'', keyword ''BINARY'', keyword ''BIT'', keyword ''BLOB'', in_row [keyword ''BOOL'', optional (keyword ''EAN'')],
      keyword ''CHAR'', keyword ''CLOB'',
      in_row [keyword ''DATE'', optional (in_row [keyword ''TIME'', optional (keyword ''OFFSET'')])],
      keyword ''DECIMAL'', keyword ''DOUBLE'', keyword ''ENUM'', keyword ''FLOAT'', in_row [keyword ''INT'', optional (keyword ''EGER'')],
      keyword ''JSON'', keyword ''LONGTEXT'', keyword ''MEDIUMTEXT'', keyword ''MONEY'', keyword ''NCHAR'', keyword ''NTEXT'',
      keyword ''NUMBER'', keyword ''NUMERIC'', keyword ''NVARCHAR'', keyword ''REAL'', keyword ''SET'', keyword ''SMALLINT'',
      keyword ''TEXT'', in_row [keyword ''TIME'', optional (keyword ''STAMP'')], keyword ''TINYINT'', keyword ''UNIQUEIDENTIFIER'',
      keyword ''UUID'', keyword ''VARBINARY'', keyword ''VARCHAR'', keyword ''XMLTYPE'']"

definition COL_RE :: matcher where
  "COL_RE = in_row [opt_gap, quoted_name 1, gap, captured 2 (first_of type_words), at_word_boundary]"

definition CONSTRAINT_RE :: matcher where
  "CONSTRAINT_RE = in_row [opt_gap, first_of [keyword ''CONSTRAINT'', in_row [keyword ''PRIMARY'', gap, keyword ''KEY''],
     keyword ''UNIQUE'', keyword ''CHECK'', in_row [keyword ''FOREIGN'', gap, keyword ''KEY''],
     in_row [keyword ''KEY'', at_word_boundary], in_row [keyword ''INDEX'', at_word_boundary]]]"

section \<open>Tables\<close>

type_synonym column = "string \<times> string"

definition column_of :: "string \<Rightarrow> column option" where
  "column_of line =
     (if matches CONSTRAINT_RE line then None
      else map_option (\<lambda>m. (py_lower (group_or_empty m 1), py_upper (group_or_empty m 2))) (match_start COL_RE line))"

definition parse_columns :: "string \<Rightarrow> column list" where
  "parse_columns body = fst (keep_first fst {} (List.map_filter column_of (py_splitlines body)))"

text \<open>The body of a table: up to the parenthesis that closes it, or to the end, less the last character.\<close>

fun paren_span :: "nat \<Rightarrow> string \<Rightarrow> string" where
  "paren_span 0 s = []"
| "paren_span d [] = []"
| "paren_span (Suc d) (c # s) =
     c # paren_span (if c = CHR ''('' then Suc (Suc d) else if c = CHR '')'' then d else Suc d) s"

record table_def =
  td_name :: string
  td_line :: nat
  td_schema :: string
  td_body :: string

definition table_of :: "string \<Rightarrow> found \<Rightarrow> table_def" where
  "table_of src m = \<lparr>td_name = py_lower (group_or_empty m 2), td_line = line_at src (fd_start m),
     td_schema = py_lower (group_or_empty m 1), td_body = butlast (paren_span 1 (drop (fd_end m) src))\<rparr>"

definition find_tables :: "string \<Rightarrow> table_def list" where
  "find_tables src = map (table_of src) (finditer CREATE_TABLE_RE src)"

section \<open>The file\<close>

definition SQL_EXTRACTOR :: string where
  "SQL_EXTRACTOR = ''sql-ddl''"

definition in_quotes :: "string \<Rightarrow> string" where
  "in_quotes s = CHR 0x22 # s @ [CHR 0x22]"

text \<open>\<open>json.dumps\<close> with its usual separators; the characters of names and types need no escapes.\<close>

fun join_text :: "string \<Rightarrow> string list \<Rightarrow> string" where
  "join_text sep [] = []"
| "join_text sep [x] = x"
| "join_text sep (x # y # r) = x @ sep @ join_text sep (y # r)"

definition column_json :: "column \<Rightarrow> string" where
  "column_json c = CHR ''{'' # in_quotes ''name'' @ '': '' @ in_quotes (fst c) @ '', '' @ in_quotes ''type'' @ '': '' @ in_quotes (snd c) @ ''}''"

definition columns_json :: "column list \<Rightarrow> string" where
  "columns_json cs = (if cs = [] then [] else CHR ''['' # join_text '', '' (map column_json cs) @ '']'')"

record sql_env =
  sq_make_id :: "string \<Rightarrow> string \<Rightarrow> string \<Rightarrow> string"
  sq_repo :: string
  sq_file :: string

definition table_fqn :: "sql_env \<Rightarrow> table_def \<Rightarrow> string" where
  "table_fqn env t = join_with CHR ''.'' ([sq_repo env] @ (if td_schema t = [] then [] else [td_schema t]) @ [td_name t])"

definition table_id :: "sql_env \<Rightarrow> table_def \<Rightarrow> string" where
  "table_id env t = sq_make_id env (sq_repo env) (table_fqn env t) ''Table''"

definition table_node :: "sql_env \<Rightarrow> table_def \<Rightarrow> node" where
  "table_node env t = (mk_node (table_id env t) ''Table'' (td_name t) (table_fqn env t) (sq_repo env))
     \<lparr>n_kind := ''table'', n_file := sq_file env, n_package := td_schema t, n_start_line := int (td_line t),
      n_body_hash := sq_make_id env (sq_repo env) (td_body t) ''body'', n_extractor := SQL_EXTRACTOR,
      n_confidence := EXTRACTED, n_docstring := columns_json (parse_columns (td_body t))\<rparr>"

text \<open>The last table of a name is the one the name stands for.\<close>

definition table_ids :: "sql_env \<Rightarrow> table_def list \<Rightarrow> string \<rightharpoonup> string" where
  "table_ids env ts = fold (\<lambda>t m. m(td_name t \<mapsto> table_id env t)) ts Map.empty"

text \<open>\<open>re.sub(r"--[^\n]*", "", src)\<close>.\<close>

function strip_comments :: "string \<Rightarrow> string" where
  "strip_comments s = (case s of [] \<Rightarrow> []
     | c # r \<Rightarrow> if take 2 s = ''--'' then strip_comments (dropWhile (\<lambda>x. x \<noteq> CHR 0x0A) s) else c # strip_comments r)"
  by pat_completeness auto
termination
proof (relation "measure length", goal_cases)
  case (2 s c r)
  then have "dropWhile (\<lambda>x. x \<noteq> CHR 0x0A) s = dropWhile (\<lambda>x. x \<noteq> CHR 0x0A) r" by auto
  with 2 show ?case by (simp add: le_imp_less_Suc length_dropWhile_le)
qed auto

declare strip_comments.simps [simp del]

text \<open>A reference belongs to the last table created before it, in the text without comments.\<close>

definition fk_edge :: "sql_env \<Rightarrow> string \<Rightarrow> string \<Rightarrow> (string \<rightharpoonup> string) \<Rightarrow> found \<Rightarrow> edge option" where
  "fk_edge env src stripped ids m =
     (case ids (py_lower (group_or_empty m 2)) of None \<Rightarrow> None
      | Some dst \<Rightarrow>
          let cts = finditer CREATE_TABLE_RE (take (fd_start m) stripped) in
          if cts = [] then None
          else case ids (py_lower (group_or_empty (last cts) 2)) of None \<Rightarrow> None
            | Some s \<Rightarrow> Some ((mk_edge ''REFERENCES'' s dst)\<lparr>e_confidence := EXTRACTED, e_origin := O_EXTRACTED,
                e_extractor := SQL_EXTRACTOR, e_evidence_file := sq_file env,
                e_evidence_line := int (line_at src (fd_start m))\<rparr>))"

definition extract_sql :: "sql_env \<Rightarrow> string \<Rightarrow> node list \<times> edge list \<times> raw_ref list" where
  "extract_sql env src =
     (let tables = find_tables src; stripped = strip_comments src; ids = table_ids env tables
      in (map (table_node env) tables, List.map_filter (fk_edge env src stripped ids) (finditer FK_RE stripped), []))"

section \<open>What is extracted\<close>

lemma table_ids_in: "table_ids env ts nm = Some i \<Longrightarrow> \<exists>t \<in> set ts. td_name t = nm \<and> i = table_id env t"
proof -
  have "fold (\<lambda>t m. m(td_name t \<mapsto> table_id env t)) ts m nm = Some i \<Longrightarrow>
      (\<exists>t \<in> set ts. td_name t = nm \<and> i = table_id env t) \<or> m nm = Some i" for m
    by (induction ts arbitrary: m) (fastforce split: if_splits)+
  from this [of Map.empty] show "table_ids env ts nm = Some i \<Longrightarrow> ?thesis" by (simp add: table_ids_def)
qed

lemma table_node_fields [simp]:
  "n_id (table_node env t) = table_id env t" "n_label (table_node env t) = ''Table''"
  by (simp_all add: table_node_def mk_node_def)

lemma fk_edge_ends:
  assumes "fk_edge env src stripped (table_ids env ts) m = Some e"
  shows "e_type e = ''REFERENCES'' \<and> e_src e \<in> table_id env ` set ts \<and> e_dst e \<in> table_id env ` set ts"
  using assms by (auto simp: fk_edge_def mk_edge_def Let_def dest!: table_ids_in split: option.splits if_splits)

lemma parse_columns_distinct: "distinct (map fst (parse_columns body))"
  by (simp add: parse_columns_def keep_first_distinct)

lemma span_prefix: "prefix (paren_span d s) s"
  by (induction d s rule: paren_span.induct) auto

lemma table_body_in: "t \<in> set (find_tables src) \<Longrightarrow> sublist (td_body t) src"
proof -
  have "sublist (butlast (paren_span 1 (drop k src))) src" for k
  proof -
    have "prefix (butlast (paren_span 1 (drop k src))) (drop k src)"
      using span_prefix [of 1 "drop k src"] prefixeq_butlast prefix_order.trans by blast
    then show ?thesis by (meson prefix_imp_sublist sublist_drop sublist_order.order_trans)
  qed
  then show "t \<in> set (find_tables src) \<Longrightarrow> ?thesis" by (auto simp: find_tables_def table_of_def)
qed

text \<open>A file of definitions gives one node for every statement that creates a table, in order; its edges are
  references between tables of the file, its columns have distinct names; and the bundle is
  consistent.\<close>

theorem extract_sql_consistent:
  "case extract_sql env src of (nodes, edges, refs) \<Rightarrow>
     map n_id nodes = map (\<lambda>m. table_id env (table_of src m)) (finditer CREATE_TABLE_RE src)
     \<and> list_all (\<lambda>t. distinct (map fst (parse_columns (td_body t))) \<and> sublist (td_body t) src) (find_tables src)
     \<and> list_all (\<lambda>e. e_type e = ''REFERENCES'' \<and> e_src e \<in> n_id ` set nodes \<and> e_dst e \<in> n_id ` set nodes) edges
     \<and> bundle_ok (from_extractor nodes edges refs)"
proof -
  let ?ts = "find_tables src" and ?st = "strip_comments src"
  let ?es = "List.map_filter (fk_edge env src ?st (table_ids env ?ts)) (finditer FK_RE ?st)"
  have ids: "n_id ` set (map (table_node env) ?ts) = table_id env ` set ?ts" by (simp add: image_image)
  have es: "e_type e = ''REFERENCES'' \<and> e_src e \<in> table_id env ` set ?ts \<and> e_dst e \<in> table_id env ` set ?ts" if "e \<in> set ?es" for e
    proof -
    from that obtain m where "fk_edge env src ?st (table_ids env ?ts) m = Some e" by (auto simp: List.map_filter_def)
    then show ?thesis by (rule fk_edge_ends)
  qed
  have "bundle_ok (from_extractor (map (table_node env) ?ts) ?es [])"
    using es by (simp add: bundle_ok_def from_extractor_def fits_def list_all_iff image_image NODE_LABELS_def EDGE_TYPES_def)
  moreover have "list_all (\<lambda>t. distinct (map fst (parse_columns (td_body t))) \<and> sublist (td_body t) src) ?ts"
    by (auto simp: list_all_iff parse_columns_distinct table_body_in)
  moreover have "map n_id (map (table_node env) ?ts) = map (\<lambda>m. table_id env (table_of src m)) (finditer CREATE_TABLE_RE src)"
    by (simp add: find_tables_def)
  moreover have "list_all (\<lambda>e. e_type e = ''REFERENCES'' \<and> e_src e \<in> n_id ` set (map (table_node env) ?ts)
      \<and> e_dst e \<in> n_id ` set (map (table_node env) ?ts)) ?es"
    unfolding ids using es by (simp add: list_all_iff)
  ultimately show ?thesis by (simp add: extract_sql_def Let_def)
qed

section \<open>Where the patterns fall short\<close>

text \<open>A name that begins like a constraint is taken for one.\<close>

lemma unique_column_missed: "column_of ''unique_code INT,'' = None"
  by code_simp

end
