(* ===== verification/SyntaxTree.thy ===== *)
theory SyntaxTree
  imports Prelude
begin

text \<open>
  Syntax trees as the extractors use them (\<open>graph_core/extractors/common.py\<close>).  The parser is a library outside the repository: the tree of a
  file is an argument everywhere, and any tree is allowed.  Of a node the sources read its type, its
  children, whether it is named, the field of the parent it fills, its place in the file, its identity, and the bytes it
  spans.
\<close>

section \<open>Nodes of a tree\<close>

datatype tree = Tree
  (t_type: string) (t_field: string) (t_named: bool) (t_id: nat)
  (t_from: nat) (t_to: nat) (t_start: "nat \<times> nat") (t_end: "nat \<times> nat")
  (t_children: "tree list")

lemma child_smaller [termination_simp]: "c \<in> set (t_children t) \<Longrightarrow> size c < size t"
  by (cases t) (auto dest: size_list_estimation' [where f = size, OF _ order_refl] simp: less_Suc_eq_le)

text \<open>\<open>child_by_field_name\<close>: the first child that fills the field.\<close>

definition child_by_field :: "tree \<Rightarrow> string \<Rightarrow> tree option" where
  "child_by_field t f = find (\<lambda>c. t_field c = f) (t_children t)"

lemma child_by_field_in: "child_by_field t f = Some c \<Longrightarrow> c \<in> set (t_children t)"
  by (auto simp: child_by_field_def find_Some_iff)

lemma field_smaller [termination_simp]: "child_by_field t f = Some c \<Longrightarrow> size c < size t"
  by (rule child_smaller) (rule child_by_field_in)

definition named_children :: "tree \<Rightarrow> tree list" where
  "named_children t = filter t_named (t_children t)"

lemma named_smaller [termination_simp]: "c \<in> set (named_children t) \<Longrightarrow> size c < size t"
  by (rule child_smaller) (simp add: named_children_def)

definition node_text :: "string \<Rightarrow> tree \<Rightarrow> string" where
  "node_text src t = take (t_to t - t_from t) (drop (t_from t) src)"

definition line_of :: "tree \<Rightarrow> int" where
  "line_of t = int (fst (t_start t)) + 1"

definition col_of :: "tree \<Rightarrow> int" where
  "col_of t = int (snd (t_start t))"

definition end_line_of :: "tree \<Rightarrow> int" where
  "end_line_of t = int (fst (t_end t)) + 1"

definition end_col_of :: "tree \<Rightarrow> int" where
  "end_col_of t = int (snd (t_end t))"

section \<open>The walk over all descendants\<close>

lemma size_rev_list [simp]: "size_list f (rev xs) = size_list f xs"
  by (induction xs) simp_all

text \<open>\<open>iter_descendants\<close>, with the list as the stack, its top first.\<close>

function walk_stack :: "tree list \<Rightarrow> tree list" where
  "walk_stack [] = []"
| "walk_stack (cur # stack) = cur # walk_stack (t_children cur @ stack)"
  by pat_completeness auto
termination
proof (relation "measure (size_list size)", goal_cases)
  case (2 cur stack)
  show ?case by (cases cur) simp
qed simp

definition iter_descendants :: "tree \<Rightarrow> tree list" where
  "iter_descendants t = walk_stack (t_children t)"

text \<open>A node and everything below it, in the order of the file.\<close>

fun subtree :: "tree \<Rightarrow> tree list" where
  "subtree t = t # concat (map subtree (t_children t))"

declare subtree.simps [simp del]

lemma walk_stack_preorder: "walk_stack ts = concat (map subtree ts)"
proof (induction ts rule: walk_stack.induct)
  case (2 cur stack)
  then show ?case by (simp add: subtree.simps [of cur])
qed simp

lemma iter_descendants_preorder: "iter_descendants t = concat (map subtree (t_children t))"
  by (simp add: iter_descendants_def walk_stack_preorder)

lemma subtree_walk: "subtree t = t # iter_descendants t"
  by (simp add: iter_descendants_preorder subtree.simps [of t])

definition field_text :: "string \<Rightarrow> tree \<Rightarrow> string \<Rightarrow> string option" where
  "field_text src t f = map_option (node_text src) (child_by_field t f)"

definition or_none :: "string option \<Rightarrow> string" where
  "or_none x = (case x of None \<Rightarrow> [] | Some v \<Rightarrow> v)"

definition has_type :: "string list \<Rightarrow> tree \<Rightarrow> bool" where
  "has_type ts t = (t_type t \<in> set ts)"

definition last_or :: "'a \<Rightarrow> 'a list \<Rightarrow> 'a" where
  "last_or d xs = (if xs = [] then d else last xs)"

text \<open>\<open>simple_type_name\<close>.\<close>

definition simple_type_name :: "string \<Rightarrow> string" where
  "simple_type_name raw =
     (let r = py_strip (py_replace ''[]'' [] (before_first CHR ''<'' raw))
      in if CHR ''.'' \<in> set r then after_last CHR ''.'' r else r)"

lemma simple_type_name_plain: "CHR ''.'' \<notin> set (simple_type_name raw)"
  by (auto simp: simple_type_name_def Let_def)

end
