(* ===== verification/JavaSyntax.thy ===== *)
theory JavaSyntax
  imports SyntaxTree RouteSpec
begin

text \<open>
  What the Java extractor reads off a syntax tree (\<open>graph_core/extractors/java.py\<close>): modifiers and
  annotations, parameters and types, imports, routes, outbound calls, events and policies.  Each
  definition is the function of that name; \<open>src\<close> is the text of the file.
\<close>

section \<open>Names of the frameworks\<close>

definition SPRING_MAPPING :: "(string \<times> string) list" where
  "SPRING_MAPPING = [(''GetMapping'', ''GET''), (''PostMapping'', ''POST''), (''PutMapping'', ''PUT''),
     (''DeleteMapping'', ''DELETE''), (''PatchMapping'', ''PATCH'')]"

definition SERVLET_ANNOTATION :: string where
  "SERVLET_ANNOTATION = ''WebServlet''"

definition SERVLET_ENTRY_METHODS :: "string list" where
  "SERVLET_ENTRY_METHODS = [''service'', ''doGet'', ''doPost'', ''doPut'', ''doDelete'', ''doHead'', ''doOptions'']"

definition REST_TEMPLATE_CALLS :: "(string \<times> string) list" where
  "REST_TEMPLATE_CALLS = [(''getForObject'', ''GET''), (''getForEntity'', ''GET''), (''postForObject'', ''POST''),
     (''postForEntity'', ''POST''), (''postForLocation'', ''POST''), (''put'', ''PUT''), (''delete'', ''DELETE'')]"

definition AMBIGUOUS_REST_CALLS :: "string list" where
  "AMBIGUOUS_REST_CALLS = [''put'', ''delete'']"

definition JAVA_HTTP_RECEIVER_HINTS :: "string list" where
  "JAVA_HTTP_RECEIVER_HINTS = [''resttemplate'', ''webclient'', ''httpclient'', ''feign'']"

definition AUTH_REQUIRE_ANNOTATIONS :: "string list" where
  "AUTH_REQUIRE_ANNOTATIONS = [''Authenticated'', ''AuthenticationPrincipal'', ''LoginRequired'', ''RequiresAuthentication'']"

definition JAVA_AUTOWIRE_ANNOTATIONS :: "string list" where
  "JAVA_AUTOWIRE_ANNOTATIONS = [''Autowired'', ''Inject'', ''Resource'']"

definition POLICY_ANNOTATIONS :: "string list" where
  "POLICY_ANNOTATIONS = [''PreAuthorize'', ''Secured'', ''RolesAllowed'', ''PermissionsAllowed'', ''RequiresRoles'', ''RequiresPermissions'']"

definition EVENT_CONSUMER_ANNOTATIONS :: "string list" where
  "EVENT_CONSUMER_ANNOTATIONS = [''KafkaListener'', ''RabbitListener'', ''JmsListener'', ''SqsListener'']"

definition EVENT_EMIT_METHODS_STRONG :: "string list" where
  "EVENT_EMIT_METHODS_STRONG = [''publish'', ''emit'', ''produce'', ''publishEvent'', ''dispatch'']"

definition EVENT_EMIT_METHODS_GENERIC :: "string list" where
  "EVENT_EMIT_METHODS_GENERIC = [''send'']"

definition EVENT_CONSUME_METHODS_STRONG :: "string list" where
  "EVENT_CONSUME_METHODS_STRONG = [''subscribe'', ''consume'', ''registerListener'']"

definition EVENT_CONSUME_METHODS_GENERIC :: "string list" where
  "EVENT_CONSUME_METHODS_GENERIC = [''listen'', ''on'']"

definition JAVA_EVENT_RECEIVER_HINTS :: "string list" where
  "JAVA_EVENT_RECEIVER_HINTS = [''bus'', ''broker'', ''producer'', ''consumer'', ''emitter'', ''events'', ''eventBus'', ''kafka'',
     ''queue'', ''topic'', ''pubsub'', ''publisher'', ''channel'']"

definition TYPE_DECLS :: "(string \<times> string) list" where
  "TYPE_DECLS = [(''class_declaration'', ''class''), (''interface_declaration'', ''interface''),
     (''enum_declaration'', ''enum''), (''record_declaration'', ''record'')]"

definition VISIBILITY :: "string list" where
  "VISIBILITY = [''public'', ''private'', ''protected'']"

definition MODIFIER_KEYWORDS :: "string list" where
  "MODIFIER_KEYWORDS = [''static'', ''final'', ''abstract'', ''synchronized'', ''native'', ''transient'', ''volatile'',
     ''default'', ''sealed'', ''strictfp'']"

definition PRIMITIVES :: "string list" where
  "PRIMITIVES = [''void'', ''int'', ''long'', ''double'', ''float'', ''boolean'', ''char'', ''byte'', ''short'']"

section \<open>Modifiers and annotations\<close>

definition modifier_nodes :: "tree \<Rightarrow> tree list" where
  "modifier_nodes t = concat (map t_children (filter (\<lambda>c. t_type c = ''modifiers'') (t_children t)))"

definition annotation_nodes :: "tree \<Rightarrow> tree list" where
  "annotation_nodes t = filter (\<lambda>m. t_type m \<in> set [''annotation'', ''marker_annotation'']) (modifier_nodes t)"

text \<open>The simple name of a child that may be missing: empty without it.\<close>

definition type_name :: "string \<Rightarrow> tree \<Rightarrow> string \<Rightarrow> string" where
  "type_name src t f = (case child_by_field t f of None \<Rightarrow> [] | Some c \<Rightarrow> simple_type_name (node_text src c))"

text \<open>The annotations of a declaration that have a name, each with its simple name.\<close>

definition named_annotations :: "string \<Rightarrow> tree \<Rightarrow> (string \<times> tree) list" where
  "named_annotations src t =
     List.map_filter (\<lambda>a. map_option (\<lambda>nm. (simple_type_name (node_text src nm), a)) (child_by_field a ''name'')) (annotation_nodes t)"

definition visibility_of :: "tree \<Rightarrow> string" where
  "visibility_of t = last_or ''package'' (filter (\<lambda>k. k \<in> set VISIBILITY) (map t_type (modifier_nodes t)))"

definition keywords_of :: "tree \<Rightarrow> string list" where
  "keywords_of t = filter (\<lambda>k. k \<in> set MODIFIER_KEYWORDS) (map t_type (modifier_nodes t))"

definition annotations_of :: "string \<Rightarrow> tree \<Rightarrow> string list" where
  "annotations_of src t = map fst (named_annotations src t)"

section \<open>Parameters, types and imports\<close>

definition is_parameter :: "tree \<Rightarrow> bool" where
  "is_parameter c = (t_type c \<in> set [''formal_parameter'', ''spread_parameter''])"

definition parameters_in :: "tree option \<Rightarrow> tree list" where
  "parameters_in ps = (case ps of None \<Rightarrow> [] | Some p \<Rightarrow> filter is_parameter (t_children p))"

definition param_count :: "tree option \<Rightarrow> int" where
  "param_count ps = int (length (parameters_in ps))"

text \<open>A spread parameter holds its name in a declarator.\<close>

definition param_name :: "string \<Rightarrow> tree \<Rightarrow> string" where
  "param_name src c =
     (case child_by_field c ''name'' of Some n \<Rightarrow> node_text src n
      | None \<Rightarrow> (case find (\<lambda>d. t_type d = ''variable_declarator'') (t_children c) of None \<Rightarrow> []
          | Some d \<Rightarrow> (case child_by_field d ''name'' of None \<Rightarrow> [] | Some n \<Rightarrow> node_text src n)))"

definition param_type :: "string \<Rightarrow> tree \<Rightarrow> string" where
  "param_type src c =
     (let tp = type_name src c ''type'' in if t_type c = ''spread_parameter'' \<and> tp \<noteq> [] then tp @ ''...'' else tp)"

text \<open>\<open>_import_name\<close>: the name references use, the whole path, and whether it ends in a star.\<close>

definition is_name_node :: "tree \<Rightarrow> bool" where
  "is_name_node c = (t_type c \<in> set [''scoped_identifier'', ''identifier''])"

definition import_name :: "string \<Rightarrow> tree \<Rightarrow> string \<times> string \<times> bool" where
  "import_name src t =
     (let wild = list_ex (\<lambda>c. t_type c = ''asterisk'') (t_children t); names = filter is_name_node (t_children t)
      in if names = [] then ([], [], False)
         else let full = node_text src (last names) in
           if wild then (full, full, True) else (after_last CHR ''.'' full, full, False))"

text \<open>Names found in a list of nodes, each once, in order.\<close>

definition unique_names :: "string list \<Rightarrow> string list" where
  "unique_names xs = kept (\<lambda>x. x) {} (filter (\<lambda>x. x \<noteq> []) xs)"

definition is_type_node :: "tree \<Rightarrow> bool" where
  "is_type_node c = (t_type c \<in> set [''type_identifier'', ''scoped_type_identifier'', ''generic_type''])"

definition types_in :: "string \<Rightarrow> tree \<Rightarrow> string list" where
  "types_in src t = unique_names (map (\<lambda>d. simple_type_name (node_text src d)) (filter is_type_node (t # iter_descendants t)))"

definition java_type_parts :: "string \<Rightarrow> tree \<Rightarrow> string \<times> string list" where
  "java_type_parts src t =
     (simple_type_name (node_text src t),
      unique_names (map (\<lambda>a. simple_type_name (node_text src a))
        (concat (map (\<lambda>d. filter is_type_node (t_children d)) (filter (\<lambda>d. t_type d = ''type_arguments'') (iter_descendants t))))))"

text \<open>\<open>this.x\<close> gives \<open>x\<close>, anything else nothing.\<close>

definition this_field :: "string \<Rightarrow> tree \<Rightarrow> string" where
  "this_field src fa =
     (if t_type fa \<noteq> ''field_access'' then []
      else case child_by_field fa ''object'' of None \<Rightarrow> []
        | Some obj \<Rightarrow> if t_type obj \<noteq> ''this'' then []
            else (case child_by_field fa ''field'' of None \<Rightarrow> [] | Some f \<Rightarrow> node_text src f))"

definition thrown_types :: "string \<Rightarrow> tree \<Rightarrow> string list" where
  "thrown_types src t =
     filter (\<lambda>nm. nm \<noteq> []) (map (\<lambda>d. type_name src d ''type'')
       (filter (\<lambda>d. t_type d = ''object_creation_expression'') (t # iter_descendants t)))"

definition BRANCH_NODES :: "string list" where
  "BRANCH_NODES = [''if_statement'', ''switch_expression'', ''switch_block_statement_group'', ''conditional_expression'', ''catch_clause'']"

definition LOOP_NODES :: "string list" where
  "LOOP_NODES = [''for_statement'', ''enhanced_for_statement'', ''while_statement'', ''do_statement'']"

definition complexity_counts :: "tree option \<Rightarrow> nat \<times> nat" where
  "complexity_counts body =
     (case body of None \<Rightarrow> (0, 0)
      | Some b \<Rightarrow> (length (filter (\<lambda>n. t_type n \<in> set BRANCH_NODES) (iter_descendants b)),
                   length (filter (\<lambda>n. t_type n \<in> set LOOP_NODES) (iter_descendants b))))"

section \<open>Arguments and literals\<close>

definition punctuation :: "string list" where
  "punctuation = [''('', '')'', '','']"

definition arguments_of :: "tree \<Rightarrow> tree list option" where
  "arguments_of call = map_option (\<lambda>a. filter (\<lambda>c. t_type c \<notin> set punctuation) (t_children a)) (child_by_field call ''arguments'')"

definition call_arity :: "tree \<Rightarrow> int" where
  "call_arity call = (case arguments_of call of None \<Rightarrow> -1 | Some cs \<Rightarrow> int (length cs))"

definition is_string :: "tree \<Rightarrow> bool" where
  "is_string t = (t_type t = ''string_literal'')"

definition str_lit :: "string \<Rightarrow> tree \<Rightarrow> string" where
  "str_lit src t =
     (if \<not> is_string t then []
      else let raw = node_text src t in if length raw \<ge> 2 \<and> hd raw = CHR 0x22 then butlast (tl raw) else raw)"

definition first_string_arg :: "string \<Rightarrow> tree \<Rightarrow> nat \<Rightarrow> string" where
  "first_string_arg src call i =
     (case arguments_of call of None \<Rightarrow> []
      | Some cs \<Rightarrow> if i \<ge> length cs \<or> \<not> is_string (cs ! i) then [] else py_strip (str_lit src (cs ! i)))"

text \<open>The first value that a chooser takes from the children of an argument list.\<close>

fun first_value :: "(tree \<Rightarrow> string option) \<Rightarrow> tree list \<Rightarrow> string" where
  "first_value f [] = []"
| "first_value f (c # cs) = (case f c of Some v \<Rightarrow> v | None \<Rightarrow> first_value f cs)"

definition in_arguments :: "(tree \<Rightarrow> string option) \<Rightarrow> tree \<Rightarrow> string" where
  "in_arguments f ann = (case child_by_field ann ''arguments'' of None \<Rightarrow> [] | Some a \<Rightarrow> first_value f (t_children a))"

text \<open>The string value of a pair whose key is accepted.\<close>

definition pair_value :: "string \<Rightarrow> (string \<Rightarrow> bool) \<Rightarrow> tree \<Rightarrow> string option" where
  "pair_value src accept c =
     (if t_type c \<noteq> ''element_value_pair'' then None
      else case (child_by_field c ''key'', child_by_field c ''value'') of
        (Some k, Some v) \<Rightarrow> if accept (node_text src k) \<and> is_string v then Some (str_lit src v) else None
      | _ \<Rightarrow> None)"

definition annotation_value :: "string \<Rightarrow> tree \<Rightarrow> string" where
  "annotation_value src = in_arguments (\<lambda>c. if is_string c then Some (str_lit src c)
     else pair_value src (\<lambda>k. k \<in> set [''value'', ''path'']) c)"

definition request_mapping_method :: "string \<Rightarrow> tree \<Rightarrow> string" where
  "request_mapping_method src = in_arguments (\<lambda>c.
     if t_type c \<noteq> ''element_value_pair'' then None
     else case (child_by_field c ''key'', child_by_field c ''value'') of
       (Some k, Some v) \<Rightarrow> if node_text src k = ''method'' then Some (py_upper (after_last CHR ''.'' (node_text src v))) else None
     | _ \<Rightarrow> None)"

definition annotation_policy_value :: "string \<Rightarrow> tree \<Rightarrow> string" where
  "annotation_policy_value src = in_arguments (\<lambda>c. if is_string c then Some (str_lit src c)
     else if t_type c \<noteq> ''element_value_pair'' then None
     else case child_by_field c ''value'' of Some v \<Rightarrow> if is_string v then Some (str_lit src v) else None | None \<Rightarrow> None)"

section \<open>Routes and pages\<close>

definition annotation_route :: "string \<Rightarrow> string \<Rightarrow> tree \<Rightarrow> string" where
  "annotation_route src nm t =
     (case find (\<lambda>a. fst a = nm) (named_annotations src t) of None \<Rightarrow> [] | Some (_, a) \<Rightarrow> annotation_value src a)"

definition servlet_route :: "string \<Rightarrow> tree \<Rightarrow> string" where
  "servlet_route src t = annotation_route src SERVLET_ANNOTATION t"

definition request_mapping_prefix :: "string \<Rightarrow> tree \<Rightarrow> string" where
  "request_mapping_prefix src t = annotation_route src ''RequestMapping'' t"

definition spring_endpoints :: "string \<Rightarrow> tree \<Rightarrow> string \<Rightarrow> (string \<times> string) list" where
  "spring_endpoints src t pre = List.map_filter (\<lambda>(nm, a).
     case map_of SPRING_MAPPING nm of Some verb \<Rightarrow> Some (verb, pre @ annotation_value src a)
     | None \<Rightarrow> if nm = ''RequestMapping'' then Some (or_get (request_mapping_method src a), pre @ annotation_value src a) else None)
     (named_annotations src t)"

definition page_noise :: string where
  "page_noise = [CHR '' '', CHR 0x09, CHR 0x22, CHR 0x27] @ ''<>%$*(){}[]+,;:=&''"

definition jsp_page_literal :: "string \<Rightarrow> tree \<Rightarrow> string" where
  "jsp_page_literal src t =
     (let raw = py_strip (str_lit src t) in
      if raw = [] \<or> \<not> sublist ''.jsp'' (py_lower raw) then []
      else
        let name = py_strip (after_last CHR ''/'' (replace_char CHR 0x5C CHR ''/'' (before_first CHR ''#'' (before_first CHR ''?'' raw))))
        in if \<not> (py_endswith (py_lower name) ''.jsp'' \<or> py_endswith (py_lower name) ''.jspf'') then []
           else if rsplit_head CHR ''.'' name = [] \<or> list_ex (\<lambda>c. c \<in> set page_noise) name then [] else name)"

section \<open>Outbound calls, events and policies\<close>

definition recv_tail :: "string \<Rightarrow> tree \<Rightarrow> string" where
  "recv_tail src call = (case child_by_field call ''object'' of None \<Rightarrow> [] | Some obj \<Rightarrow> after_last CHR ''.'' (node_text src obj))"

definition looks_like_url :: "string \<Rightarrow> bool" where
  "looks_like_url url = (url \<noteq> [] \<and> (py_startswith url ''/'' \<or> sublist ''://'' url))"

definition outbound_java :: "string \<Rightarrow> tree \<Rightarrow> string \<Rightarrow> (string \<times> string) option" where
  "outbound_java src call name =
     (case arguments_of call of None \<Rightarrow> None | Some [] \<Rightarrow> None
      | Some (first # others) \<Rightarrow>
          let url = str_lit src first in
          if \<not> is_string first \<or> \<not> looks_like_url url then None
          else case map_of REST_TEMPLATE_CALLS name of
            Some verb \<Rightarrow>
              if name \<in> set AMBIGUOUS_REST_CALLS
                 \<and> \<not> list_ex (\<lambda>h. sublist h (py_lower (recv_tail src call))) JAVA_HTTP_RECEIVER_HINTS then None
              else Some (verb, url)
          | None \<Rightarrow>
              if name = ''exchange''
              then Some (case others of [] \<Rightarrow> ''GET'' | second # _ \<Rightarrow> py_upper (after_last CHR ''.'' (node_text src second)), url)
              else None)"

text \<open>The topic of an event call and whether the match is fuzzy; no topic is the empty one.\<close>

definition event_java :: "string list \<Rightarrow> string list \<Rightarrow> string \<Rightarrow> tree \<Rightarrow> string \<Rightarrow> string \<times> bool" where
  "event_java strong generic src call name =
     (if name \<in> set strong then (first_string_arg src call 0, False)
      else if name \<in> set generic
      then (let topic = first_string_arg src call 0
            in if topic = [] then ([], False) else (topic, recv_tail src call \<notin> set JAVA_EVENT_RECEIVER_HINTS))
      else ([], False))"

definition outbound_event_java :: "string \<Rightarrow> tree \<Rightarrow> string \<Rightarrow> string \<times> bool" where
  "outbound_event_java = event_java EVENT_EMIT_METHODS_STRONG EVENT_EMIT_METHODS_GENERIC"

definition inbound_event_java :: "string \<Rightarrow> tree \<Rightarrow> string \<Rightarrow> string \<times> bool" where
  "inbound_event_java = event_java EVENT_CONSUME_METHODS_STRONG EVENT_CONSUME_METHODS_GENERIC"

definition policy_words :: "string list" where
  "policy_words = [''role'', ''permission'', ''policy'', ''scope'', ''authorize'', ''secured'']"

definition policy_target :: "string \<Rightarrow> string \<Rightarrow> tree \<Rightarrow> string" where
  "policy_target src nm a =
     (let v = annotation_policy_value src a in if v \<noteq> [] then v else if nm \<noteq> [] then nm else ''POLICY'')"

definition auth_policy_specs :: "string \<Rightarrow> tree \<Rightarrow> (string \<times> string \<times> bool) list" where
  "auth_policy_specs src t = concat (map (\<lambda>(nm, a).
     (if nm \<in> set AUTH_REQUIRE_ANNOTATIONS then [(''REQUIRES_AUTH'', ''AUTH_REQUIRED'', False)]
      else if sublist ''auth'' (py_lower nm) then [(''REQUIRES_AUTH'', ''AUTH_REQUIRED'', True)] else [])
     @ (if nm \<in> set POLICY_ANNOTATIONS then [(''ENFORCES_POLICY'', policy_target src nm a, False)]
        else if list_ex (\<lambda>w. sublist w (py_lower nm)) policy_words then [(''ENFORCES_POLICY'', policy_target src nm a, True)] else []))
     (named_annotations src t))"

definition topic_keys :: "string list" where
  "topic_keys = [''topic'', ''topics'', ''queue'', ''queues'', ''destination'', ''value'']"

definition topic_of_argument :: "string \<Rightarrow> tree \<Rightarrow> string" where
  "topic_of_argument src c =
     py_strip (if is_string c then str_lit src c
       else case pair_value src (\<lambda>k. k \<in> set topic_keys) c of None \<Rightarrow> [] | Some v \<Rightarrow> v)"

definition event_consumer_topics :: "string \<Rightarrow> tree \<Rightarrow> string list" where
  "event_consumer_topics src t = unique_names (concat (map (\<lambda>(nm, a).
     if nm \<notin> set EVENT_CONSUMER_ANNOTATIONS then []
     else case child_by_field a ''arguments'' of None \<Rightarrow> []
       | Some args \<Rightarrow> map (topic_of_argument src) (t_children args)) (named_annotations src t)))"

end
