(* ===== verification/FileNames.thy ===== *)
theory FileNames
  imports Prelude
begin

text \<open>
  Names of files, as \<open>os.path\<close> takes them apart, and what counts as an artifact
  (\<open>graph_core/artifacts.py\<close>), which the upload and the discovery of files share.
\<close>

section \<open>Parts of a path\<close>

text \<open>\<open>os.path.splitext(p)[0]\<close>, \<open>os.path.dirname\<close>.\<close>

definition path_root :: "string \<Rightarrow> string" where
  "path_root p =
     (let base = after_last CHR ''/'' p
      in if CHR ''.'' \<in> set base \<and> list_ex (\<lambda>c. c \<noteq> CHR ''.'') (before_last CHR ''.'' base) then before_last CHR ''.'' p else p)"

definition dirname :: "string \<Rightarrow> string" where
  "dirname p =
     (if CHR ''/'' \<notin> set p then []
      else let h = before_last CHR ''/'' p @ ''/''
        in if list_ex (\<lambda>c. c \<noteq> CHR ''/'') h then rev (dropWhile (\<lambda>c. c = CHR ''/'') (rev h)) else h)"

definition path_ext :: "string \<Rightarrow> string" where
  "path_ext p = drop (length (path_root p)) p"

definition basename :: "string \<Rightarrow> string" where
  "basename p = after_last CHR ''/'' p"

lemma before_last_split: "c \<in> set s \<Longrightarrow> s = before_last c s @ c # after_last c s"
proof -
  assume c: "c \<in> set s"
  have "rev s = takeWhile (\<lambda>x. x \<noteq> c) (rev s) @ dropWhile (\<lambda>x. x \<noteq> c) (rev s)" by simp
  moreover obtain ys where "dropWhile (\<lambda>x. x \<noteq> c) (rev s) = c # ys"
    using c by (cases "dropWhile (\<lambda>x. x \<noteq> c) (rev s)") (auto simp: dropWhile_eq_Nil_conv dest: hd_dropWhile [of "\<lambda>x. x \<noteq> c" "rev s", simplified])
  ultimately have "rev s = takeWhile (\<lambda>x. x \<noteq> c) (rev s) @ c # ys" by simp
  then have "s = rev ys @ c # rev (takeWhile (\<lambda>x. x \<noteq> c) (rev s))"
    by (metis append.assoc append_Cons append_Nil rev.simps(2) rev_append rev_rev_ident)
  then show ?thesis by (simp add: before_last_def after_last_def \<open>dropWhile _ _ = _\<close>)
qed

lemma path_ext_base: "path_ext p =
  (let base = basename p in
   if CHR ''.'' \<in> set base \<and> list_ex (\<lambda>c. c \<noteq> CHR ''.'') (before_last CHR ''.'' base) then CHR ''.'' # after_last CHR ''.'' p else [])"
proof (cases "CHR ''.'' \<in> set (basename p)")
  case True
  then have "CHR ''.'' \<in> set p" by (auto simp: basename_def after_last_def dest!: set_takeWhileD)
  from before_last_split [OF this] have "drop (length (before_last CHR ''.'' p)) p = CHR ''.'' # after_last CHR ''.'' p"
    by (metis append_eq_conv_conj)
  with True show ?thesis by (simp add: path_ext_def path_root_def basename_def [symmetric] Let_def)
qed (simp add: path_ext_def path_root_def basename_def [symmetric] Let_def)

lemma basename_of: "CHR ''/'' \<notin> set fn \<Longrightarrow> basename (pre @ CHR ''/'' # fn) = fn" "CHR ''/'' \<notin> set fn \<Longrightarrow> basename fn = fn"
  by (simp_all add: basename_def after_last_cut after_last_none)

lemma after_last_suffix: "c \<in> set t \<Longrightarrow> after_last c (s @ t) = after_last c t"
  by (simp add: after_last_def takeWhile_append1)

lemma path_ext_of: "CHR ''/'' \<notin> set fn \<Longrightarrow> path_ext (pre @ CHR ''/'' # fn) = path_ext fn"
  using after_last_suffix [of "CHR ''.''" fn "pre @ [CHR ''/'']"]
  by (auto simp: path_ext_base basename_of Let_def)

section \<open>Artifacts\<close>

definition EXT_ARTIFACT :: "(string \<times> string) list" where
  "EXT_ARTIFACT = [(''.class'', ''bytecode''), (''.jar'', ''archive''), (''.war'', ''archive''), (''.ear'', ''archive''),
     (''.tld'', ''taglib''), (''.pyi'', ''stub'')]"

definition ARTIFACT_FILENAMES :: "(string \<times> string) list" where
  "ARTIFACT_FILENAMES = [(''pom.xml'', ''buildconfig''), (''build.gradle'', ''buildconfig''), (''build.gradle.kts'', ''buildconfig''),
     (''settings.gradle'', ''buildconfig''), (''settings.gradle.kts'', ''buildconfig''), (''ivy.xml'', ''buildconfig''),
     (''.classpath'', ''buildconfig''), (''manifest.mf'', ''buildconfig''), (''web.xml'', ''webdeploy''), (''tsconfig.json'', ''jsconfig''),
     (''jsconfig.json'', ''jsconfig''), (''package.json'', ''jsconfig''), (''pyproject.toml'', ''pyconfig''),
     (''pyrightconfig.json'', ''pyconfig''), (''setup.cfg'', ''pyconfig'')]"

definition ARTIFACT_DIR_OVERRIDES :: "string list" where
  "ARTIFACT_DIR_OVERRIDES = [''target'', ''build'', ''out'', ''bin'', ''dist'', ''.mvn'']"

definition forward_slashes :: "string \<Rightarrow> string" where
  "forward_slashes = replace_char CHR 0x5C CHR ''/''"

definition artifact_kind :: "string \<Rightarrow> string option" where
  "artifact_kind relpath =
     (let nm = py_lower (basename (forward_slashes relpath))
      in case map_of ARTIFACT_FILENAMES nm of Some k \<Rightarrow> Some k
         | None \<Rightarrow> if py_endswith nm ''.d.ts'' then Some ''stub'' else map_of EXT_ARTIFACT (path_ext nm))"

definition is_artifact :: "string \<Rightarrow> bool" where
  "is_artifact relpath = (artifact_kind relpath \<noteq> None)"

lemma forward_slashes_append: "forward_slashes (s @ t) = forward_slashes s @ forward_slashes t"
  by (simp add: forward_slashes_def replace_char_def)

lemma forward_slashes_none: "CHR 0x5C \<notin> set s \<Longrightarrow> forward_slashes s = s"
  by (induction s) (auto simp: forward_slashes_def replace_char_def)

lemma artifact_kind_of:
  assumes "CHR ''/'' \<notin> set fn" "CHR 0x5C \<notin> set fn"
  shows "artifact_kind (pre @ CHR ''/'' # fn) = artifact_kind fn"
proof -
  have "forward_slashes (pre @ CHR ''/'' # fn) = forward_slashes pre @ CHR ''/'' # fn"
    using assms(2) forward_slashes_append [of pre "CHR ''/'' # fn"] forward_slashes_none [of "CHR ''/'' # fn"] by simp
  then show ?thesis using assms by (simp add: artifact_kind_def basename_of forward_slashes_none)
qed

end
