(* ===== verification/Extracted.thy ===== *)
theory Extracted
  imports SyntaxTree RouteSpec GraphStore FileNames
begin

text \<open>
  What an extractor appends while it walks a tree: the helpers that the extractors of Java, Python and
  JavaScript share (\<open>graph_core/extractors\<close>), and what is needed to show their bundles consistent.
  Hashes and \<open>split_url\<close>, which rests on \<open>urllib\<close>, are arguments.
\<close>

section \<open>Bundles and their parts\<close>

text \<open>An extractor appends to three lists; what a part of it appends is a bundle, and the whole is their
  concatenation.\<close>

definition all_of :: "canonical_bundle list \<Rightarrow> canonical_bundle" where
  "all_of bs = from_extractor (concat (map b_nodes bs)) (concat (map b_edges bs)) (concat (map b_refs bs))"

definition a_node :: "node \<Rightarrow> canonical_bundle" where
  "a_node n = from_extractor [n] [] []"

definition an_edge :: "edge \<Rightarrow> canonical_bundle" where
  "an_edge e = from_extractor [] [e] []"

definition some_refs :: "raw_ref list \<Rightarrow> canonical_bundle" where
  "some_refs rs = from_extractor [] [] rs"

lemma piece_fields [simp]:
  "b_nodes (a_node n) = [n]" "b_edges (a_node n) = []" "b_refs (a_node n) = []"
  "b_nodes (an_edge e) = []" "b_edges (an_edge e) = [e]" "b_refs (an_edge e) = []"
  "b_nodes (some_refs rs) = []" "b_edges (some_refs rs) = []" "b_refs (some_refs rs) = rs"
  by (simp_all add: a_node_def an_edge_def some_refs_def from_extractor_def)

lemma all_of_fields [simp]:
  "b_nodes (all_of bs) = concat (map b_nodes bs)" "b_edges (all_of bs) = concat (map b_edges bs)"
  "b_refs (all_of bs) = concat (map b_refs bs)"
  by (simp_all add: all_of_def from_extractor_def)

section \<open>Nodes, edges and references of a file\<close>

record file_env =
  fe_make_id :: "string \<Rightarrow> string \<Rightarrow> string \<Rightarrow> string"
  fe_body_hash :: "string \<Rightarrow> string"
  fe_split_url :: "string \<Rightarrow> string \<times> string"
  fe_repo :: string
  fe_file :: string
  fe_sha :: string
  fe_src :: string

definition TREE_SITTER :: string where
  "TREE_SITTER = ''tree-sitter''"

abbreviation text_of :: "file_env \<Rightarrow> tree \<Rightarrow> string" where
  "text_of env \<equiv> node_text (fe_src env)"

definition code_id :: "file_env \<Rightarrow> string \<Rightarrow> string \<Rightarrow> string" where
  "code_id env fqn kind = fe_make_id env (fe_repo env) fqn kind"

definition extracted_edge :: "file_env \<Rightarrow> string \<Rightarrow> string \<Rightarrow> string \<Rightarrow> tree \<Rightarrow> edge" where
  "extracted_edge env t s d n = (mk_edge t s d)\<lparr>e_origin := O_EXTRACTED, e_extractor := TREE_SITTER,
     e_evidence_file := fe_file env, e_evidence_line := line_of n, e_evidence_col := col_of n\<rparr>"

definition contains :: "file_env \<Rightarrow> string \<Rightarrow> tree \<Rightarrow> string \<Rightarrow> canonical_bundle" where
  "contains env container n child = an_edge (extracted_edge env ''CONTAINS'' container child n)"

definition code_ref :: "file_env \<Rightarrow> string \<Rightarrow> string \<Rightarrow> string \<Rightarrow> string \<Rightarrow> tree \<Rightarrow> raw_ref" where
  "code_ref env t s target hint n = (mk_ref t s target)\<lparr>r_kind_hint := hint, r_ref_file := fe_file env,
     r_ref_line := line_of n, r_ref_col := col_of n\<rparr>"

definition fuzzy :: "bool \<Rightarrow> string" where
  "fuzzy b = (if b then ''fuzzy_name'' else [])"

text \<open>The fields that every node of the file has.\<close>

definition code_node :: "file_env \<Rightarrow> string \<Rightarrow> string \<Rightarrow> string \<Rightarrow> string \<Rightarrow> string \<Rightarrow> string \<Rightarrow> tree \<Rightarrow> node" where
  "code_node env lang i label nm fqn kind n = (mk_node i label nm fqn (fe_repo env))
     \<lparr>n_kind := kind, n_lang := lang, n_file := fe_file env, n_start_line := line_of n, n_start_col := col_of n,
      n_end_line := end_line_of n, n_end_col := end_col_of n, n_extractor := TREE_SITTER\<rparr>"

definition route_id :: "file_env \<Rightarrow> string \<Rightarrow> string \<Rightarrow> string" where
  "route_id env m r = endpoint_id (fe_make_id env) (fe_repo env) m r []"

definition emit_endpoint :: "file_env \<Rightarrow> string \<Rightarrow> string \<Rightarrow> tree \<Rightarrow> string \<times> string \<Rightarrow> canonical_bundle" where
  "emit_endpoint env lang handler n mr =
     (let m = fst mr; r = snd mr; eid = route_id env m r
      in all_of [a_node ((code_node env lang eid ''Endpoint'' (endpoint_display m r []) (endpoint_fqn m r []) ''endpoint'' n)
                           \<lparr>n_method := py_upper m, n_route := normalize_route r\<rparr>),
                 an_edge (extracted_edge env ''EXPOSES'' handler eid n)])"

definition api_call_ref :: "file_env \<Rightarrow> string \<Rightarrow> string \<Rightarrow> string \<Rightarrow> tree \<Rightarrow> raw_ref" where
  "api_call_ref env handler m url n = (case fe_split_url env url of (host, path) \<Rightarrow>
     (code_ref env ''CALLS_API'' handler path ''api'' n)\<lparr>r_recv := host, r_http_method := m\<rparr>)"

definition event_refs :: "file_env \<Rightarrow> string \<Rightarrow> string \<Rightarrow> tree \<Rightarrow> string \<times> bool \<Rightarrow> raw_ref list" where
  "event_refs env t mid d ev =
     (if fst ev = [] then [] else [(code_ref env t mid (fst ev) ''event'' d)\<lparr>r_strategy_hint := fuzzy (snd ev)\<rparr>])"

section \<open>Names, files and fields\<close>

definition SERVLET_ANY_METHOD :: string where
  "SERVLET_ANY_METHOD = ''ANY''"

definition child_fqn :: "string \<Rightarrow> string \<Rightarrow> string" where
  "child_fqn parent nm = (if parent = [] then nm else parent @ ''.'' @ nm)"

definition source_node :: "file_env \<Rightarrow> string \<Rightarrow> tree \<Rightarrow> node" where
  "source_node env lang root =
     (mk_node (code_id env (fe_file env) ''file'') ''File'' (after_last CHR ''/'' (fe_file env)) (fe_file env) (fe_repo env))
     \<lparr>n_kind := ''file'', n_lang := lang, n_file := fe_file env,
      n_package := replace_char CHR ''/'' CHR ''.'' (dirname (fe_file env)), n_start_line := 1, n_start_col := 0,
      n_end_line := end_line_of root, n_end_col := end_col_of root, n_body_hash := fe_sha env, n_extractor := TREE_SITTER\<rparr>"

text \<open>A field with its containment.\<close>

definition new_field :: "file_env \<Rightarrow> string \<Rightarrow> tree \<Rightarrow> node \<Rightarrow> raw_ref list \<Rightarrow> canonical_bundle" where
  "new_field env container n f rs = all_of [a_node f, contains env container n (n_id f), some_refs rs]"

section \<open>Passing the created fields along\<close>

text \<open>Where a field is created at its first mention, the ids already created are passed along the walk.\<close>

type_synonym emitter = "string set \<Rightarrow> canonical_bundle \<times> string set"

definition just :: "canonical_bundle \<Rightarrow> emitter" where
  "just b created = (b, created)"

fun in_order :: "emitter list \<Rightarrow> emitter" where
  "in_order [] created = (all_of [], created)"
| "in_order (m # ms) created =
     (case m created of (b, created1) \<Rightarrow> case in_order ms created1 of (bs, created2) \<Rightarrow> (all_of [b, bs], created2))"

text \<open>\<open>if fid not in created_fields: created_fields.add(fid); ...\<close>\<close>

definition once :: "string \<Rightarrow> canonical_bundle \<Rightarrow> emitter" where
  "once fid b created = (if fid \<in> created then (all_of [], created) else (b, insert fid created))"

section \<open>Parts are rooted\<close>

text \<open>A part is rooted in a set of ids when its edges run between them and its own nodes, and its references
  start there.\<close>

definition rooted :: "string set \<Rightarrow> canonical_bundle \<Rightarrow> bool" where
  "rooted ids b \<longleftrightarrow> list_all (\<lambda>n. n_label n \<in> NODE_LABELS) (b_nodes b) \<and> fits (ids \<union> n_id ` set (b_nodes b)) (b_edges b)
     \<and> list_all (\<lambda>r. r_type r \<in> EDGE_TYPES \<and> r_src r \<in> ids \<union> n_id ` set (b_nodes b)) (b_refs b)"

named_theorems rooting \<open>the parts of an extraction are rooted\<close>

lemma rooted_none: "rooted {} b = bundle_ok b"
  by (simp add: rooted_def bundle_ok_def)

lemma rooted_all_of [rooting]: "\<forall>b \<in> set bs. rooted ids b \<Longrightarrow> rooted ids (all_of bs)"
  by (fastforce simp: rooted_def fits_def list_all_iff)

lemma rooted_then:
  "rooted ids b \<Longrightarrow> rooted (ids \<union> n_id ` set (b_nodes b)) c \<Longrightarrow> rooted ids (all_of [b, c])"
  by (fastforce simp: rooted_def fits_def list_all_iff)

lemma rooted_mono: "rooted ids b \<Longrightarrow> ids \<subseteq> ids' \<Longrightarrow> rooted ids' b"
  by (fastforce simp: rooted_def fits_def list_all_iff)

lemma rooted_under [rooting]:
  "n_label n \<in> NODE_LABELS \<Longrightarrow> rooted (insert (n_id n) ids) (all_of bs) \<Longrightarrow> rooted ids (all_of (a_node n # bs))"
  by (fastforce simp: rooted_def fits_def list_all_iff)

lemma rooted_edge [rooting]: "e_type e \<in> EDGE_TYPES \<Longrightarrow> e_src e \<in> ids \<Longrightarrow> e_dst e \<in> ids \<Longrightarrow> rooted ids (an_edge e)"
  by (simp add: rooted_def fits_def)

lemma rooted_refs [rooting]: "list_all (\<lambda>r. r_type r \<in> EDGE_TYPES \<and> r_src r \<in> ids) rs \<Longrightarrow> rooted ids (some_refs rs)"
  by (simp add: rooted_def)

lemma code_node_ids [simp]: "n_id (code_node env lang i l nm fqn k t) = i" "n_label (code_node env lang i l nm fqn k t) = l"
  by (simp_all add: code_node_def mk_node_def)

lemma edge_ends [simp]:
  "e_type (extracted_edge env t s d n) = t" "e_src (extracted_edge env t s d n) = s" "e_dst (extracted_edge env t s d n) = d"
  by (simp_all add: extracted_edge_def mk_edge_def)

lemma ref_ends [simp]:
  "r_type (code_ref env t s g h n) = t" "r_src (code_ref env t s g h n) = s"
  by (simp_all add: code_ref_def mk_ref_def)

lemma labels [simp]: "''Function'' \<in> NODE_LABELS" "''Field'' \<in> NODE_LABELS" "''Class'' \<in> NODE_LABELS"
  "''File'' \<in> NODE_LABELS" "''Endpoint'' \<in> NODE_LABELS"
  by (simp_all add: NODE_LABELS_def)

text \<open>The types of references, and that a list of them starts at one node.\<close>

definition CODE_REF_TYPES :: "string set" where
  "CODE_REF_TYPES = {''IMPORTS'', ''EXTENDS'', ''IMPLEMENTS'', ''CALLS'', ''INSTANTIATES'', ''ANNOTATED_WITH'', ''REQUIRES_AUTH'',
     ''ENFORCES_POLICY'', ''AUTOWIRED'', ''RETURNS'', ''HAS_TYPE'', ''OF_TYPE'', ''HAS_GENERIC'', ''THROWS'', ''CATCHES'',
     ''READS'', ''WRITES'', ''RENDERS'', ''CALLS_API'', ''EMITS_EVENT'', ''CONSUMES_EVENT'', ''HANDLED_BY''}"

lemma code_ref_types: "t \<in> CODE_REF_TYPES \<Longrightarrow> t \<in> EDGE_TYPES"
  by (auto simp: CODE_REF_TYPES_def EDGE_TYPES_def)

definition refs_from :: "string \<Rightarrow> raw_ref list \<Rightarrow> bool" where
  "refs_from s rs \<longleftrightarrow> list_all (\<lambda>r. r_type r \<in> CODE_REF_TYPES \<and> r_src r = s) rs"

lemma refs_from_append [simp]: "refs_from s (as @ bs) \<longleftrightarrow> refs_from s as \<and> refs_from s bs"
  by (simp add: refs_from_def)

lemma refs_from_nil [simp]: "refs_from s []"
  by (simp add: refs_from_def)

lemma refs_from_map [simp]: "refs_from s (map f xs) \<longleftrightarrow> list_all (\<lambda>x. r_type (f x) \<in> CODE_REF_TYPES \<and> r_src (f x) = s) xs"
  by (simp add: refs_from_def list_all_iff)

lemma refs_from_concat [simp]: "refs_from s (concat rss) \<longleftrightarrow> list_all (refs_from s) rss"
  by (auto simp: refs_from_def list_all_iff)

lemma refs_from_one [simp]: "refs_from s [r] \<longleftrightarrow> r_type r \<in> CODE_REF_TYPES \<and> r_src r = s"
  by (simp add: refs_from_def)

lemma refs_from_rooted [rooting]: "refs_from s rs \<Longrightarrow> s \<in> ids \<Longrightarrow> rooted ids (some_refs rs)"
  by (rule rooted_refs) (auto simp: refs_from_def list_all_iff code_ref_types)

named_theorems from_node \<open>references start at the node they are given\<close>

lemma event_refs_from [from_node]: "t \<in> CODE_REF_TYPES \<Longrightarrow> refs_from s (event_refs env t s d ev)"
  by (simp add: event_refs_def)

lemma api_call_ends [simp]: "r_type (api_call_ref env s m u n) = ''CALLS_API''" "r_src (api_call_ref env s m u n) = s"
  by (simp_all add: api_call_ref_def split: prod.splits)

lemma map_filter_refs: "(\<And>x r. f x = Some r \<Longrightarrow> r_type r \<in> CODE_REF_TYPES \<and> r_src r = s) \<Longrightarrow> refs_from s (List.map_filter f xs)"
  by (auto simp: refs_from_def List.map_filter_def list_all_iff)

lemma code_types [simp]: "''RETURNS'' \<in> CODE_REF_TYPES" "''HAS_TYPE'' \<in> CODE_REF_TYPES" "''OF_TYPE'' \<in> CODE_REF_TYPES"
  "''CONSUMES_EVENT'' \<in> CODE_REF_TYPES" "''EMITS_EVENT'' \<in> CODE_REF_TYPES" "''HAS_GENERIC'' \<in> CODE_REF_TYPES"
  "''ANNOTATED_WITH'' \<in> CODE_REF_TYPES" "''CALLS'' \<in> CODE_REF_TYPES" "''CALLS_API'' \<in> CODE_REF_TYPES" "''THROWS'' \<in> CODE_REF_TYPES"
  "''CATCHES'' \<in> CODE_REF_TYPES" "''READS'' \<in> CODE_REF_TYPES" "''WRITES'' \<in> CODE_REF_TYPES" "''EXTENDS'' \<in> CODE_REF_TYPES"
  "''IMPORTS'' \<in> CODE_REF_TYPES" "''REQUIRES_AUTH'' \<in> CODE_REF_TYPES" "''ENFORCES_POLICY'' \<in> CODE_REF_TYPES"
  by (simp_all add: CODE_REF_TYPES_def)

lemma source_node_ids [simp]: "n_id (source_node env lang t) = code_id env (fe_file env) ''file''" "n_label (source_node env lang t) = ''File''"
  by (simp_all add: source_node_def mk_node_def)

lemma contains_rooted [rooting]: "s \<in> ids \<Longrightarrow> d \<in> ids \<Longrightarrow> rooted ids (contains env s n d)"
  unfolding contains_def by (rule rooted_edge) (simp_all add: EDGE_TYPES_def)

lemma emit_endpoint_rooted [rooting]: "h \<in> ids \<Longrightarrow> rooted ids (emit_endpoint env lang h n mr)"
  unfolding emit_endpoint_def Let_def
  by (rule rooted_under) (simp_all add: rooted_def fits_def EDGE_TYPES_def)

lemma new_field_rooted: "n_label f = ''Field'' \<Longrightarrow> c \<in> ids \<Longrightarrow> refs_from (n_id f) rs \<Longrightarrow> rooted ids (new_field env c n f rs)"
  unfolding new_field_def
  by (intro rooted_under rooted_all_of) (auto intro!: contains_rooted refs_from_rooted [where s = "n_id f"])

section \<open>Containment\<close>

definition edges_of :: "string \<Rightarrow> canonical_bundle \<Rightarrow> edge list" where
  "edges_of t b = filter (\<lambda>e. e_type e = t) (b_edges b)"

definition ids_of :: "string list \<Rightarrow> canonical_bundle \<Rightarrow> string list" where
  "ids_of ls b = map n_id (filter (\<lambda>n. n_label n \<in> set ls) (b_nodes b))"

abbreviation "declared_labels \<equiv> [''Class'', ''Function'', ''Field'']"

lemma edges_of_all_of [simp]: "edges_of t (all_of bs) = concat (map (edges_of t) bs)"
  by (simp add: edges_of_def [abs_def] filter_concat comp_def)

lemma ids_of_all_of [simp]: "ids_of ls (all_of bs) = concat (map (ids_of ls) bs)"
  by (simp add: ids_of_def [abs_def] filter_concat map_concat comp_def)

lemma view_pieces [simp]:
  "edges_of t (a_node n) = []" "edges_of t (some_refs rs) = []" "ids_of ls (some_refs rs) = []" "ids_of ls (an_edge e) = []"
  "ids_of ls (a_node n) = (if n_label n \<in> set ls then [n_id n] else [])"
  "edges_of t (an_edge e) = (if e_type e = t then [e] else [])"
  by (simp_all add: edges_of_def ids_of_def)

text \<open>The containment edges of a part end at its declarations, in order, and start at the given containers or
  its classes; the other edges end at its endpoints and start at the given handlers or its functions.\<close>

definition nested :: "string list \<Rightarrow> string set \<Rightarrow> string set \<Rightarrow> canonical_bundle \<Rightarrow> bool" where
  "nested ls cs fs b \<longleftrightarrow>
     map e_dst (edges_of ''CONTAINS'' b) = ids_of declared_labels b
     \<and> map e_dst (edges_of ''EXPOSES'' b) = ids_of [''Endpoint''] b
     \<and> e_src ` set (edges_of ''CONTAINS'' b) \<subseteq> cs \<union> set (ids_of ls b)
     \<and> e_src ` set (edges_of ''EXPOSES'' b) \<subseteq> fs \<union> set (ids_of [''Function''] b)"

lemma nested_ends:
  "nested ls cs fs b \<Longrightarrow> e_src ` set (edges_of ''CONTAINS'' b) \<subseteq> cs \<union> set (ids_of ls b)"
  "nested ls cs fs b \<Longrightarrow> e_src ` set (edges_of ''EXPOSES'' b) \<subseteq> fs \<union> set (ids_of [''Function''] b)"
  by (simp_all add: nested_def)

lemma nested_all_of: "\<forall>b \<in> set bs. nested ls cs fs b \<Longrightarrow> nested ls cs fs (all_of bs)"
proof -
  assume ok: "\<forall>b \<in> set bs. nested ls cs fs b"
  then have "map (\<lambda>b. map e_dst (edges_of ''CONTAINS'' b)) bs = map (ids_of declared_labels) bs"
    "map (\<lambda>b. map e_dst (edges_of ''EXPOSES'' b)) bs = map (ids_of [''Endpoint'']) bs"
    by (simp_all add: nested_def)
  then have "map e_dst (edges_of ''CONTAINS'' (all_of bs)) = ids_of declared_labels (all_of bs)"
    "map e_dst (edges_of ''EXPOSES'' (all_of bs)) = ids_of [''Endpoint''] (all_of bs)"
    by (simp_all add: map_concat comp_def cong: map_cong)
  moreover have "e_src ` set (edges_of ''CONTAINS'' (all_of bs)) \<subseteq> cs \<union> set (ids_of ls (all_of bs))"
  proof
    fix x
    assume "x \<in> e_src ` set (edges_of ''CONTAINS'' (all_of bs))"
    then obtain b where b: "b \<in> set bs" "x \<in> e_src ` set (edges_of ''CONTAINS'' b)" by auto
    with ok nested_ends(1) [of ls cs fs b] have "x \<in> cs \<union> set (ids_of ls b)" by blast
    with b show "x \<in> cs \<union> set (ids_of ls (all_of bs))" by auto
  qed
  moreover have "e_src ` set (edges_of ''EXPOSES'' (all_of bs)) \<subseteq> fs \<union> set (ids_of [''Function''] (all_of bs))"
  proof
    fix x
    assume "x \<in> e_src ` set (edges_of ''EXPOSES'' (all_of bs))"
    then obtain b where b: "b \<in> set bs" "x \<in> e_src ` set (edges_of ''EXPOSES'' b)" by auto
    with ok nested_ends(2) [of ls cs fs b] have "x \<in> fs \<union> set (ids_of [''Function''] b)" by blast
    with b show "x \<in> fs \<union> set (ids_of [''Function''] (all_of bs))" by auto
  qed
  ultimately show ?thesis by (simp only: nested_def simp_thms)
qed

lemma nested_mono: "nested ls cs fs b \<Longrightarrow> cs \<subseteq> cs' \<Longrightarrow> fs \<subseteq> fs' \<Longrightarrow> nested ls cs' fs' b"
  by (auto simp: nested_def)

lemma nested_refs [simp]: "nested ls cs fs (some_refs rs)"
  by (simp add: nested_def)

lemma contains_views [simp]:
  "edges_of t (contains env s n d) = (if t = ''CONTAINS'' then [extracted_edge env ''CONTAINS'' s d n] else [])"
  "ids_of ls (contains env s n d) = []"
  by (simp_all add: contains_def)

lemma nested_declared:
  assumes "n_label n \<in> set declared_labels" "s \<in> cs" "nested ls cs' fs' (all_of bs)"
    "cs' \<subseteq> cs \<union> set (ids_of ls (a_node n))" "fs' \<subseteq> fs \<union> set (ids_of [''Function''] (a_node n))"
  shows "nested ls cs fs (all_of (a_node n # contains env s t (n_id n) # bs))"
proof -
  let ?b = "all_of (a_node n # contains env s t (n_id n) # bs)" and ?r = "all_of bs"
  have e: "edges_of ty ?b = (if ty = ''CONTAINS'' then [extracted_edge env ''CONTAINS'' s (n_id n) t] else []) @ edges_of ty ?r" for ty
    by simp
  have i: "ids_of l ?b = ids_of l (a_node n) @ ids_of l ?r" for l by simp
  have d: "map e_dst (edges_of ''CONTAINS'' ?r) = ids_of declared_labels ?r" "map e_dst (edges_of ''EXPOSES'' ?r) = ids_of [''Endpoint''] ?r"
    using assms(3) by (simp_all only: nested_def)
  have l: "ids_of declared_labels (a_node n) = [n_id n]" "ids_of [''Endpoint''] (a_node n) = []" using assms(1) by auto
  have "e_src ` set (edges_of ''CONTAINS'' ?r) \<subseteq> cs \<union> set (ids_of ls ?b)" "e_src ` set (edges_of ''EXPOSES'' ?r) \<subseteq> fs \<union> set (ids_of [''Function''] ?b)"
    using nested_ends [OF assms(3)] assms(4,5) unfolding i set_append by blast+
  with assms(2) d l show ?thesis
    unfolding nested_def e i [of declared_labels] i [of "[''Endpoint'']"] by simp
qed

lemma nested_class:
  "n_label n = ''Class'' \<Longrightarrow> ''Class'' \<in> set ls \<Longrightarrow> s \<in> cs \<Longrightarrow> nested ls (insert (n_id n) cs) fs (all_of bs) \<Longrightarrow>
     nested ls cs fs (all_of (a_node n # contains env s t (n_id n) # bs))"
  by (erule nested_declared [rotated 2]) auto

lemma nested_function:
  "n_label n = ''Function'' \<Longrightarrow> s \<in> cs \<Longrightarrow> nested ls cs (insert (n_id n) fs) (all_of bs) \<Longrightarrow>
     nested ls cs fs (all_of (a_node n # contains env s t (n_id n) # bs))"
  by (erule nested_declared [rotated 2]) auto

lemma nested_field:
  "n_label n = ''Field'' \<Longrightarrow> s \<in> cs \<Longrightarrow> nested ls cs fs (all_of bs) \<Longrightarrow>
     nested ls cs fs (all_of (a_node n # contains env s t (n_id n) # bs))"
  by (erule nested_declared [rotated 2]) auto

lemma nested_endpoint: "h \<in> fs \<Longrightarrow> nested ls cs fs (emit_endpoint env lang h n mr)"
  by (simp add: emit_endpoint_def nested_def Let_def)

lemma nested_then:
  assumes "nested ls cs fs b" "nested ls (cs \<union> set (ids_of ls b)) (fs \<union> set (ids_of [''Function''] b)) c"
  shows "nested ls cs fs (all_of [b, c])"
  using assms nested_ends [OF assms(1)] nested_ends [OF assms(2)] by (auto simp: nested_def)

lemma nested_file:
  assumes "nested ls {f} {} w" "\<And>t. edges_of t b = edges_of t w"
    "\<And>ls. ids_of ls b = (if ''File'' \<in> set ls then [f] else []) @ ids_of ls w"
  shows "map e_dst (edges_of ''CONTAINS'' b) = ids_of declared_labels b
    \<and> map e_dst (edges_of ''EXPOSES'' b) = ids_of [''Endpoint''] b
    \<and> e_src ` set (edges_of ''CONTAINS'' b) \<subseteq> set (ids_of (''File'' # ls) b)
    \<and> e_src ` set (edges_of ''EXPOSES'' b) \<subseteq> set (ids_of [''Function''] b)"
proof -
  have "set (ids_of ls w) \<subseteq> set (ids_of (''File'' # ls) w)" by (auto simp: ids_of_def)
  with assms show ?thesis by (auto simp: nested_def)
qed

abbreviation "scopes \<equiv> [''Class'', ''Function'']"

lemma nested_none [simp]: "nested ls cs fs (all_of [])"
  by (simp add: nested_all_of)

lemma new_field_nested: "n_label f = ''Field'' \<Longrightarrow> c \<in> cs \<Longrightarrow> nested ls cs fs (new_field env c n f rs)"
  unfolding new_field_def by (intro nested_field nested_all_of) auto

section \<open>Walks that pass the created fields along\<close>

definition emits :: "(canonical_bundle \<Rightarrow> bool) \<Rightarrow> emitter \<Rightarrow> bool" where
  "emits P m \<longleftrightarrow> (\<forall>created. P (fst (m created)))"

lemma emits_just [simp]: "emits P (just b) \<longleftrightarrow> P b"
  by (simp add: emits_def just_def)

lemma emits_once: "P b \<Longrightarrow> P (all_of []) \<Longrightarrow> emits P (once fid b)"
  by (simp add: emits_def once_def)

lemma emits_in_order:
  assumes "\<And>bs. \<forall>b \<in> set bs. P b \<Longrightarrow> P (all_of bs)" "\<forall>m \<in> set ms. emits P m"
  shows "emits P (in_order ms)"
proof -
  have "P (fst (in_order ms created))" for created
    using assms(2)
  proof (induction ms arbitrary: created)
    case (Cons m ms)
    obtain b c where m: "m created = (b, c)" by fastforce
    obtain bs d where ms: "in_order ms c = (bs, d)" by fastforce
    have "P b" using Cons.prems m by (simp add: emits_def) (metis fst_conv)
    moreover have "P bs" using Cons.IH [of c] Cons.prems ms by simp
    ultimately show ?case using assms(1) [of "[b, bs]"] by (simp add: m ms)
  qed (simp add: assms(1) [of "[]"])
  then show ?thesis by (simp add: emits_def)
qed

lemma emits_after:
  assumes "\<And>c. Q c \<Longrightarrow> P (all_of [b, c])" "emits Q (in_order ms)"
  shows "emits P (in_order (just b # ms))"
  using assms by (auto simp: emits_def just_def split: prod.splits) (metis fst_conv)

lemma emits_rooted: "\<forall>m \<in> set ms. emits (rooted ids) m \<Longrightarrow> emits (rooted ids) (in_order ms)"
  by (rule emits_in_order) (rule rooted_all_of)

lemma emits_nested: "\<forall>m \<in> set ms. emits (nested ls cs fs) m \<Longrightarrow> emits (nested ls cs fs) (in_order ms)"
  by (rule emits_in_order) (rule nested_all_of)

lemma rooted_after:
  "rooted ids b \<Longrightarrow> \<forall>m \<in> set ms. emits (rooted (ids \<union> n_id ` set (b_nodes b))) m \<Longrightarrow> emits (rooted ids) (in_order (just b # ms))"
  by (rule emits_after [where Q = "rooted (ids \<union> n_id ` set (b_nodes b))"]) (auto intro: rooted_then emits_rooted)

lemma nested_after:
  "nested ls cs fs b \<Longrightarrow> \<forall>m \<in> set ms. emits (nested ls (cs \<union> set (ids_of ls b)) (fs \<union> set (ids_of [''Function''] b))) m
     \<Longrightarrow> emits (nested ls cs fs) (in_order (just b # ms))"
  by (rule emits_after [where Q = "nested ls (cs \<union> set (ids_of ls b)) (fs \<union> set (ids_of [''Function''] b))"])
    (auto intro: nested_then emits_nested)

text \<open>A walk creates fields that are not yet created, each once, and records them.\<close>

definition field_ids :: "canonical_bundle \<Rightarrow> string list" where
  "field_ids b = ids_of [''Field''] b"

definition fresh :: "emitter \<Rightarrow> bool" where
  "fresh m \<longleftrightarrow> (\<forall>created. distinct (field_ids (fst (m created))) \<and> set (field_ids (fst (m created))) \<inter> created = {}
     \<and> snd (m created) = created \<union> set (field_ids (fst (m created))))"

lemma field_ids_all_of [simp]: "field_ids (all_of bs) = concat (map field_ids bs)"
  by (simp add: field_ids_def [abs_def])

lemma field_ids_pieces [simp]: "field_ids (a_node n) = (if n_label n = ''Field'' then [n_id n] else [])"
  "field_ids (some_refs rs) = []" "field_ids (an_edge e) = []" "field_ids (contains env s t d) = []"
  "field_ids (emit_endpoint env lang h t mr) = []"
  by (simp_all add: field_ids_def emit_endpoint_def Let_def)

lemma fresh_just: "field_ids b = [] \<Longrightarrow> fresh (just b)"
  by (simp add: fresh_def just_def)

lemma fresh_once: "field_ids b = [fid] \<Longrightarrow> fresh (once fid b)"
  by (simp add: fresh_def once_def)

lemma fresh_in_order: "\<forall>m \<in> set ms. fresh m \<Longrightarrow> fresh (in_order ms)"
proof (induction ms)
  case (Cons m ms)
  show ?case
  proof (unfold fresh_def, intro allI)
    fix created
    obtain b c where m: "m created = (b, c)" by fastforce
    obtain bs d where ms: "in_order ms c = (bs, d)" by fastforce
    have "distinct (field_ids b) \<and> set (field_ids b) \<inter> created = {} \<and> c = created \<union> set (field_ids b)"
      using Cons.prems m by (simp add: fresh_def) (metis fst_conv snd_conv)
    moreover have "distinct (field_ids bs) \<and> set (field_ids bs) \<inter> c = {} \<and> d = c \<union> set (field_ids bs)"
      using Cons ms by (simp add: fresh_def) (metis fst_conv snd_conv)
    moreover have "in_order (m # ms) created = (all_of [b, bs], d)" by (simp add: m ms)
    ultimately show "distinct (field_ids (fst (in_order (m # ms) created)))
        \<and> set (field_ids (fst (in_order (m # ms) created))) \<inter> created = {}
        \<and> snd (in_order (m # ms) created) = created \<union> set (field_ids (fst (in_order (m # ms) created)))"
      by (simp only: fst_conv snd_conv) auto
  qed
qed (simp add: fresh_def)

lemma new_field_ids [simp]: "n_label f = ''Field'' \<Longrightarrow> field_ids (new_field env c n f rs) = [n_id f]"
  by (simp add: new_field_def)

lemma fresh_none [simp]: "fresh (just (all_of []))" "fresh (just (some_refs rs))"
  by (simp_all add: fresh_just)

end
