(* ===== verification/JavaExtract.thy ===== *)
theory JavaExtract
  imports JavaSyntax Extracted
begin

text \<open>
  The Java extractor (\<open>graph_core/extractors/java.py\<close>, \<open>extract\<close>): one definition for each of its nested
  functions, in the order of the source.  Each appends to the lists of nodes, edges and references,
  and its value is what it appends.  Hashes and \<open>split_url\<close>, which rests on \<open>urllib\<close>, are arguments.
\<close>

section \<open>Types and annotations\<close>

definition type_refs :: "file_env \<Rightarrow> string \<Rightarrow> string \<Rightarrow> tree \<Rightarrow> raw_ref list" where
  "type_refs env primary s n =
     (case java_type_parts (fe_src env) n of (base, args) \<Rightarrow>
        (if base \<noteq> [] \<and> base \<notin> set PRIMITIVES then [code_ref env primary s base ''type'' n] else [])
        @ map (\<lambda>g. code_ref env ''HAS_GENERIC'' s g ''type'' n) (filter (\<lambda>g. g \<notin> set PRIMITIVES) args))"

definition policy_refs :: "file_env \<Rightarrow> string \<Rightarrow> tree \<Rightarrow> raw_ref list" where
  "policy_refs env s n = map (\<lambda>(t, target, fz). (code_ref env t s target ''policy'' n)\<lparr>r_strategy_hint := fuzzy fz\<rparr>)
     (auth_policy_specs (fe_src env) n)"

definition annotation_refs :: "file_env \<Rightarrow> string \<Rightarrow> tree \<Rightarrow> raw_ref list" where
  "annotation_refs env s n = map (\<lambda>a. code_ref env ''ANNOTATED_WITH'' s a ''annotation'' n) (annotations_of (fe_src env) n)"

section \<open>Types of receivers\<close>

type_synonym var_types = "string \<rightharpoonup> string"

text \<open>What a declaration says of its variables: each declarator with the type of its variable, where a
  \<open>var\<close> takes the type of the object it creates.\<close>

definition declarators :: "tree \<Rightarrow> tree list" where
  "declarators d = filter (\<lambda>v. t_type v = ''variable_declarator'') (t_children d)"

definition field_vars :: "string \<Rightarrow> tree \<Rightarrow> (string \<times> string) list" where
  "field_vars src d =
     (let ft = type_name src d ''type'' in
      if t_type d \<noteq> ''field_declaration'' \<or> ft = [] then []
      else List.map_filter (\<lambda>v. map_option (\<lambda>nm. (nm, ft)) (field_text src v ''name'')) (declarators d))"

definition local_type :: "string \<Rightarrow> string \<Rightarrow> tree \<Rightarrow> string" where
  "local_type src tp v =
     (if tp \<noteq> ''var'' then tp
      else case child_by_field v ''value'' of None \<Rightarrow> []
        | Some x \<Rightarrow> if t_type x = ''object_creation_expression'' then type_name src x ''type'' else [])"

definition local_vars :: "string \<Rightarrow> tree \<Rightarrow> (string \<times> string) list" where
  "local_vars src d =
     (let tp = type_name src d ''type'' in
      if t_type d \<noteq> ''local_variable_declaration'' \<or> tp = [] then []
      else List.map_filter (\<lambda>v. case field_text src v ''name'' of None \<Rightarrow> None
             | Some nm \<Rightarrow> if local_type src tp v = [] then None else Some (nm, local_type src tp v)) (declarators d))"

definition param_vars :: "string \<Rightarrow> tree option \<Rightarrow> (string \<times> string) list" where
  "param_vars src ps = List.map_filter (\<lambda>p.
     let nm = param_name src p; tp = param_type src p in
     if nm = [] \<or> tp = [] then None
     else Some (nm, if py_endswith tp ''...'' then take (length tp - 3) tp else tp)) (parameters_in ps)"

definition set_vars :: "(string \<times> string) list \<Rightarrow> var_types \<Rightarrow> var_types" where
  "set_vars ds m = fold (\<lambda>(nm, tp) m. m(nm \<mapsto> tp)) ds m"

definition field_types :: "string \<Rightarrow> tree list \<Rightarrow> var_types" where
  "field_types src mems = set_vars (concat (map (field_vars src) mems)) Map.empty"

definition body_nodes :: "tree option \<Rightarrow> tree list" where
  "body_nodes body = (case body of None \<Rightarrow> [] | Some b \<Rightarrow> iter_descendants b)"

definition var_types_of :: "string \<Rightarrow> var_types \<Rightarrow> tree option \<Rightarrow> tree option \<Rightarrow> var_types" where
  "var_types_of src ftypes ps body = set_vars (concat (map (local_vars src) (body_nodes body))) (set_vars (param_vars src ps) ftypes)"

text \<open>\<open>_receiver\<close>: the receiver of a call and its type.\<close>

definition receiver :: "string \<Rightarrow> string \<Rightarrow> var_types \<Rightarrow> tree \<Rightarrow> string \<times> string" where
  "receiver src class_fqn vars call =
     (let this = (''this'', after_last CHR ''.'' class_fqn) in
      case child_by_field call ''object'' of None \<Rightarrow> this
      | Some obj \<Rightarrow>
          if t_type obj = ''this'' then this
          else if t_type obj = ''identifier'' then (node_text src obj, or_none (vars (node_text src obj)))
          else if this_field src obj \<noteq> [] then (this_field src obj, or_none (vars (this_field src obj)))
          else ([], []))"

section \<open>The body of a method\<close>

definition field_writes :: "string \<Rightarrow> tree list \<Rightarrow> nat list" where
  "field_writes src ds = List.map_filter (\<lambda>d.
     if t_type d \<noteq> ''assignment_expression'' then None
     else case child_by_field d ''left'' of None \<Rightarrow> None
       | Some l \<Rightarrow> if this_field src l = [] then None else Some (t_id l)) ds"

definition call_refs :: "file_env \<Rightarrow> string \<Rightarrow> string \<Rightarrow> var_types \<Rightarrow> tree \<Rightarrow> raw_ref list" where
  "call_refs env mid class_fqn vars d =
     (case field_text (fe_src env) d ''name'' of None \<Rightarrow> []
      | Some nm \<Rightarrow>
          (case receiver (fe_src env) class_fqn vars d of (rv, rt) \<Rightarrow>
             [(code_ref env ''CALLS'' mid nm ''call'' d)\<lparr>r_recv := rv, r_recv_type := rt, r_call_arity := call_arity d\<rparr>])
          @ (case outbound_java (fe_src env) d nm of None \<Rightarrow> [] | Some (verb, url) \<Rightarrow> [api_call_ref env mid verb url d])
          @ event_refs env ''EMITS_EVENT'' mid d (outbound_event_java (fe_src env) d nm)
          @ event_refs env ''CONSUMES_EVENT'' mid d (inbound_event_java (fe_src env) d nm))"

definition body_refs :: "file_env \<Rightarrow> string \<Rightarrow> string \<Rightarrow> var_types \<Rightarrow> nat list \<Rightarrow> tree \<Rightarrow> raw_ref list" where
  "body_refs env mid class_fqn vars assigned d =
     (if t_type d = ''method_invocation'' then call_refs env mid class_fqn vars d
      else if t_type d = ''object_creation_expression''
      then (case child_by_field d ''type'' of None \<Rightarrow> []
            | Some tp \<Rightarrow> [code_ref env ''INSTANTIATES'' mid (simple_type_name (text_of env tp)) ''type'' d])
      else if t_type d = ''throw_statement''
      then map (\<lambda>t. code_ref env ''THROWS'' mid t ''type'' d) (thrown_types (fe_src env) d)
      else if t_type d = ''catch_formal_parameter''
      then map (\<lambda>t. code_ref env ''CATCHES'' mid t ''type'' d) (types_in (fe_src env) d)
      else if t_type d = ''field_access''
      then (let fname = this_field (fe_src env) d in
            if fname = [] then []
            else [(code_ref env (if t_id d \<in> set assigned then ''WRITES'' else ''READS'') mid fname ''field'' d)\<lparr>r_recv := ''this''\<rparr>])
      else if is_string d
      then (let page = jsp_page_literal (fe_src env) d in if page = [] then [] else [code_ref env ''RENDERS'' mid page ''file'' d])
      else [])"

section \<open>Methods, fields and types\<close>

definition is_ctor :: "tree \<Rightarrow> bool" where
  "is_ctor n = (t_type n = ''constructor_declaration'')"

definition method_name :: "file_env \<Rightarrow> string \<Rightarrow> tree \<Rightarrow> string" where
  "method_name env class_fqn n =
     (case field_text (fe_src env) n ''name'' of Some nm \<Rightarrow> nm
      | None \<Rightarrow> if is_ctor n then after_last CHR ''.'' class_fqn else ''<anon>'')"

definition method_params :: "file_env \<Rightarrow> tree \<Rightarrow> string" where
  "method_params env n = (case field_text (fe_src env) n ''parameters'' of Some p \<Rightarrow> p | None \<Rightarrow> ''()'')"

definition method_fqn :: "file_env \<Rightarrow> string \<Rightarrow> tree \<Rightarrow> string" where
  "method_fqn env class_fqn n = class_fqn @ ''#'' @ method_name env class_fqn n"

definition java_method_id :: "file_env \<Rightarrow> string \<Rightarrow> tree \<Rightarrow> string" where
  "java_method_id env class_fqn n = code_id env (method_fqn env class_fqn n @ method_params env n) ''method''"

definition method_node :: "file_env \<Rightarrow> string \<Rightarrow> tree \<Rightarrow> node" where
  "method_node env class_fqn n =
     (let ps = child_by_field n ''parameters''; mods = keywords_of n; counts = complexity_counts (child_by_field n ''body'')
      in (code_node env ''java'' (java_method_id env class_fqn n) ''Function'' (method_name env class_fqn n) (method_fqn env class_fqn n)
            (if is_ctor n then ''constructor'' else ''method'') n)
         \<lparr>n_visibility := visibility_of n, n_modifiers := mods, n_is_static := ''static'' \<in> set mods,
          n_is_abstract := ''abstract'' \<in> set mods, n_return_type := type_name (fe_src env) n ''type'',
          n_param_count := param_count ps, n_param_names := map (param_name (fe_src env)) (parameters_in ps),
          n_param_types := map (param_type (fe_src env)) (parameters_in ps),
          n_signature := method_name env class_fqn n @ method_params env n,
          n_loc := int (fst (t_end n)) - int (fst (t_start n)) + 1,
          n_cyclomatic := 1 + int (fst counts) + int (snd counts), n_branch_count := int (fst counts), n_loop_count := int (snd counts),
          n_body_hash := fe_body_hash env (text_of env n)\<rparr>)"

definition method_routes :: "file_env \<Rightarrow> string \<Rightarrow> string \<Rightarrow> string \<Rightarrow> tree \<Rightarrow> (string \<times> string) list" where
  "method_routes env class_fqn pre servlet n =
     spring_endpoints (fe_src env) n pre
     @ (if servlet \<noteq> [] \<and> method_name env class_fqn n \<in> set SERVLET_ENTRY_METHODS \<and> \<not> is_ctor n
        then [(SERVLET_ANY_METHOD, servlet)] else [])"

text \<open>The references of the head: the types of the result and the parameters, and the declared exceptions.\<close>

definition head_refs :: "file_env \<Rightarrow> string \<Rightarrow> tree \<Rightarrow> raw_ref list" where
  "head_refs env mid n =
     (case child_by_field n ''type'' of None \<Rightarrow> [] | Some rt \<Rightarrow> if is_ctor n then [] else type_refs env ''RETURNS'' mid rt)
     @ concat (map (\<lambda>p. case child_by_field p ''type'' of None \<Rightarrow> [] | Some t \<Rightarrow> type_refs env ''HAS_TYPE'' mid t)
         (parameters_in (child_by_field n ''parameters'')))
     @ concat (map (\<lambda>c. map (\<lambda>t. code_ref env ''THROWS'' mid t ''type'' c) (types_in (fe_src env) c))
         (filter (\<lambda>c. t_type c = ''throws'') (t_children n)))"

definition walk_method :: "file_env \<Rightarrow> string \<Rightarrow> string \<Rightarrow> string \<Rightarrow> var_types \<Rightarrow> string \<Rightarrow> tree \<Rightarrow> canonical_bundle" where
  "walk_method env class_fqn class_id pre ftypes servlet n =
     (let mid = java_method_id env class_fqn n; body = child_by_field n ''body'';
          vars = var_types_of (fe_src env) ftypes (child_by_field n ''parameters'') body;
          assigned = field_writes (fe_src env) (body_nodes body)
      in all_of
        [a_node (method_node env class_fqn n),
         contains env class_id n mid,
         some_refs (annotation_refs env mid n @ policy_refs env mid n
           @ map (\<lambda>t. code_ref env ''CONSUMES_EVENT'' mid t ''event'' n) (event_consumer_topics (fe_src env) n)),
         all_of (map (emit_endpoint env ''java'' mid n) (method_routes env class_fqn pre servlet n)),
         some_refs (head_refs env mid n @ concat (map (body_refs env mid class_fqn vars assigned) (body_nodes body)))])"

definition autowired :: "string list \<Rightarrow> bool" where
  "autowired anns = list_ex (\<lambda>a. a \<in> set JAVA_AUTOWIRE_ANNOTATIONS) anns"

definition ctor_di :: "file_env \<Rightarrow> string \<Rightarrow> bool \<Rightarrow> tree \<Rightarrow> raw_ref list" where
  "ctor_di env class_id single n =
     (if \<not> single \<and> \<not> autowired (annotations_of (fe_src env) n) then []
      else List.map_filter (\<lambda>p. map_option (\<lambda>t. code_ref env ''AUTOWIRED'' class_id (simple_type_name (text_of env t)) ''type'' p)
             (child_by_field p ''type'')) (parameters_in (child_by_field n ''parameters'')))"

definition field_node :: "file_env \<Rightarrow> string \<Rightarrow> tree \<Rightarrow> string \<Rightarrow> node" where
  "field_node env class_fqn n fname =
     (code_node env ''java'' (code_id env (class_fqn @ ''.'' @ fname) ''field'') ''Field'' fname (class_fqn @ ''.'' @ fname) ''field'' n)
     \<lparr>n_visibility := visibility_of n, n_modifiers := keywords_of n, n_is_static := ''static'' \<in> set (keywords_of n),
      n_return_type := type_name (fe_src env) n ''type''\<rparr>"

definition one_field :: "file_env \<Rightarrow> string \<Rightarrow> string \<Rightarrow> tree \<Rightarrow> string \<Rightarrow> canonical_bundle" where
  "one_field env class_fqn class_id n fname =
     (let fid = n_id (field_node env class_fqn n fname)
      in all_of [a_node (field_node env class_fqn n fname), contains env class_id n fid,
           some_refs (case child_by_field n ''type'' of None \<Rightarrow> [] | Some t \<Rightarrow> type_refs env ''OF_TYPE'' fid t)])"

definition walk_field :: "file_env \<Rightarrow> string \<Rightarrow> string \<Rightarrow> tree \<Rightarrow> canonical_bundle" where
  "walk_field env class_fqn class_id n =
     (let ftype = type_name (fe_src env) n ''type''
      in all_of
        [some_refs (if ftype \<noteq> [] \<and> autowired (annotations_of (fe_src env) n)
           then [code_ref env ''AUTOWIRED'' class_id ftype ''type'' n] else []),
         all_of (map (one_field env class_fqn class_id n)
           (List.map_filter (\<lambda>d. field_text (fe_src env) d ''name'') (declarators n)))])"

definition type_fqn :: "string \<Rightarrow> string \<Rightarrow> string" where
  "type_fqn parent nm = (if parent = [] then nm else parent @ ''.'' @ nm)"

definition type_kind :: "tree \<Rightarrow> string" where
  "type_kind n = or_none (map_of TYPE_DECLS (t_type n))"

definition type_node :: "file_env \<Rightarrow> string \<Rightarrow> string \<Rightarrow> tree \<Rightarrow> node" where
  "type_node env fqn nm n =
     (let mods = keywords_of n
      in (code_node env ''java'' (code_id env fqn (type_kind n)) ''Class'' nm fqn (type_kind n) n)
         \<lparr>n_visibility := visibility_of n, n_modifiers := mods, n_is_abstract := ''abstract'' \<in> set mods,
          n_is_static := ''static'' \<in> set mods, n_body_hash := fe_body_hash env (text_of env n)\<rparr>)"

definition super_refs :: "file_env \<Rightarrow> string \<Rightarrow> string \<Rightarrow> string \<Rightarrow> tree \<Rightarrow> raw_ref list" where
  "super_refs env f t cid n =
     (case child_by_field n f of None \<Rightarrow> []
      | Some s \<Rightarrow> map (\<lambda>nm. code_ref env t cid nm ''type'' s) (types_in (fe_src env) s))"

definition walk_leaf :: "file_env \<Rightarrow> string \<Rightarrow> string \<Rightarrow> tree list \<Rightarrow> string \<Rightarrow> string \<Rightarrow> tree \<Rightarrow> canonical_bundle" where
  "walk_leaf env fqn cid mems pre servlet c =
     (if t_type c \<in> set [''method_declaration'', ''constructor_declaration'']
      then all_of [walk_method env fqn cid pre (field_types (fe_src env) mems) servlet c,
             some_refs (if is_ctor c then ctor_di env cid (length (filter is_ctor mems) = 1) c else [])]
      else if t_type c = ''field_declaration'' then walk_field env fqn cid c
      else all_of [])"

definition is_type_decl :: "tree \<Rightarrow> bool" where
  "is_type_decl c = (t_type c \<in> fst ` set TYPE_DECLS)"

lemma member_smaller [termination_simp]:
  "child_by_field n f = Some b \<Longrightarrow> c \<in> set (t_children b) \<Longrightarrow> size c < size n"
  using field_smaller child_smaller by (blast intro: less_trans)

fun walk_type :: "file_env \<Rightarrow> string \<Rightarrow> string \<Rightarrow> tree \<Rightarrow> canonical_bundle" where
  "walk_type env parent container n =
     (case field_text (fe_src env) n ''name'' of None \<Rightarrow> all_of []
      | Some nm \<Rightarrow>
          let fqn = type_fqn parent nm; cid = n_id (type_node env fqn nm n);
              pre = request_mapping_prefix (fe_src env) n; servlet = servlet_route (fe_src env) n
          in all_of
            [a_node (type_node env fqn nm n),
             contains env container n cid,
             some_refs (annotation_refs env cid n @ policy_refs env cid n
               @ super_refs env ''superclass'' ''EXTENDS'' cid n @ super_refs env ''interfaces'' ''IMPLEMENTS'' cid n),
             all_of (case child_by_field n ''body'' of None \<Rightarrow> []
               | Some b \<Rightarrow> map (\<lambda>c. if is_type_decl c then walk_type env fqn cid c
                                   else walk_leaf env fqn cid (t_children b) pre servlet c) (t_children b))])"

declare walk_type.simps [simp del]

section \<open>The file\<close>

definition java_package :: "file_env \<Rightarrow> tree \<Rightarrow> string" where
  "java_package env root = last_or [] (map (text_of env) (concat (map (\<lambda>c. filter is_name_node (t_children c))
     (filter (\<lambda>c. t_type c = ''package_declaration'') (t_children root)))))"

definition import_refs :: "file_env \<Rightarrow> string \<Rightarrow> tree \<Rightarrow> raw_ref list" where
  "import_refs env file_id c =
     (if t_type c \<noteq> ''import_declaration'' then []
      else case import_name (fe_src env) c of (nm, fqn, wild) \<Rightarrow>
        if nm = [] then []
        else if wild then [(code_ref env ''IMPORTS'' file_id (nm @ ''.*'') ''import_wildcard'' c)\<lparr>r_import_fqn := nm\<rparr>]
        else [(code_ref env ''IMPORTS'' file_id nm ''import'' c)\<lparr>r_import_fqn := fqn\<rparr>])"

definition file_node :: "file_env \<Rightarrow> tree \<Rightarrow> node" where
  "file_node env root = (mk_node (code_id env (fe_file env) ''file'') ''File'' (after_last CHR ''/'' (fe_file env)) (fe_file env) (fe_repo env))
     \<lparr>n_kind := ''file'', n_lang := ''java'', n_file := fe_file env, n_package := java_package env root,
      n_start_line := 1, n_start_col := 0, n_end_line := end_line_of root, n_end_col := end_col_of root,
      n_body_hash := fe_sha env, n_extractor := TREE_SITTER\<rparr>"

definition extract_java :: "file_env \<Rightarrow> tree \<Rightarrow> canonical_bundle" where
  "extract_java env root =
     (let file_id = n_id (file_node env root)
      in all_of
        [some_refs (concat (map (import_refs env file_id) (t_children root))),
         a_node (file_node env root),
         all_of (map (walk_type env (java_package env root) file_id) (filter is_type_decl (t_children root)))])"

end
