(* ===== verification/JavaProps.thy ===== *)
theory JavaProps
  imports JavaExtract
begin

text \<open>
  What the Java extractor returns, for every tree the parser may give: a consistent bundle, in which the
  containment edges are a tree over the declarations, and one reference for every call, with the type of
  its receiver by the scopes of Java.
\<close>

section \<open>Every part is rooted\<close>

lemma node_ids [simp]:
  "n_id (method_node env c t) = java_method_id env c t" "n_label (method_node env c t) = ''Function''"
  "n_id (field_node env c t f) = code_id env (c @ ''.'' @ f) ''field''" "n_label (field_node env c t f) = ''Field''"
  "n_id (type_node env fqn nm t) = code_id env fqn (type_kind t)" "n_label (type_node env fqn nm t) = ''Class''"
  "n_id (file_node env t) = code_id env (fe_file env) ''file''" "n_label (file_node env t) = ''File''"
  by (simp_all add: method_node_def field_node_def type_node_def file_node_def mk_node_def Let_def)

lemma type_refs_from [from_node]: "t \<in> CODE_REF_TYPES \<Longrightarrow> refs_from s (type_refs env t s n)"
  by (auto simp: type_refs_def list_all_iff CODE_REF_TYPES_def split: prod.splits)

lemma policy_specs_types: "(t, g, f) \<in> set (auth_policy_specs src n) \<Longrightarrow> t = ''REQUIRES_AUTH'' \<or> t = ''ENFORCES_POLICY''"
  by (auto simp: auth_policy_specs_def split: if_splits)

lemma policy_refs_from [from_node]: "refs_from s (policy_refs env s n)"
  by (auto simp: policy_refs_def list_all_iff CODE_REF_TYPES_def dest!: policy_specs_types)

lemma annotation_refs_from [from_node]: "refs_from s (annotation_refs env s n)"
  by (simp add: annotation_refs_def list_all_iff CODE_REF_TYPES_def)

lemma call_refs_from [from_node]: "refs_from s (call_refs env s c v d)"
proof -
  have "refs_from s (event_refs env ''EMITS_EVENT'' s d x)" "refs_from s (event_refs env ''CONSUMES_EVENT'' s d x)" for x
    by (rule event_refs_from, simp add: CODE_REF_TYPES_def)+
  then show ?thesis by (auto simp: call_refs_def CODE_REF_TYPES_def split: option.splits prod.splits)
qed

lemma body_refs_from [from_node]: "refs_from s (body_refs env s c v w d)"
  using call_refs_from [of s env c v d]
  by (auto simp: body_refs_def Let_def list_all_iff CODE_REF_TYPES_def split: option.splits)

lemma head_refs_from [from_node]: "refs_from s (head_refs env s n)"
proof -
  have t: "refs_from s (type_refs env ''RETURNS'' s x)" "refs_from s (type_refs env ''HAS_TYPE'' s x)" for x
    by (rule type_refs_from, simp add: CODE_REF_TYPES_def)+
  then show ?thesis by (auto simp: head_refs_def list_all_iff CODE_REF_TYPES_def split: option.splits)
qed

lemma ctor_di_from [from_node]: "refs_from s (ctor_di env s b n)"
  unfolding ctor_di_def by (auto intro!: map_filter_refs simp: CODE_REF_TYPES_def)

lemma super_refs_from [from_node]: "t \<in> CODE_REF_TYPES \<Longrightarrow> refs_from s (super_refs env f t s n)"
  by (simp add: super_refs_def list_all_iff split: option.split)

lemma import_refs_from [from_node]: "refs_from s (import_refs env s c)"
  by (auto simp: import_refs_def CODE_REF_TYPES_def split: prod.splits)

text \<open>A method, a field and a type are rooted in the node that contains them.\<close>

lemma walk_method_rooted [rooting]: "cid \<in> ids \<Longrightarrow> rooted ids (walk_method env c cid pre ft sv n)"
  unfolding walk_method_def Let_def
proof (intro rooted_under rooted_all_of ballI, simp)
  fix b
  let ?m = "java_method_id env c n"
  assume c: "cid \<in> ids" and b: "b \<in> set [contains env cid n ?m,
    some_refs (annotation_refs env ?m n @ policy_refs env ?m n
      @ map (\<lambda>t. code_ref env ''CONSUMES_EVENT'' ?m t ''event'' n) (event_consumer_topics (fe_src env) n)),
    all_of (map (emit_endpoint env ''java'' ?m n) (method_routes env c pre sv n)),
    some_refs (head_refs env ?m n @ concat (map (body_refs env ?m c
      (var_types_of (fe_src env) ft (child_by_field n ''parameters'') (child_by_field n ''body''))
      (field_writes (fe_src env) (body_nodes (child_by_field n ''body'')))) (body_nodes (child_by_field n ''body''))))]"
  have "''CONSUMES_EVENT'' \<in> CODE_REF_TYPES" by (simp add: CODE_REF_TYPES_def)
  with b c show "rooted (insert (n_id (method_node env c n)) ids) b"
    by (auto simp: list_all_iff from_node intro!: rooted_all_of contains_rooted emit_endpoint_rooted
        refs_from_rooted [where s = ?m])
qed

lemma one_field_rooted: "cid \<in> ids \<Longrightarrow> rooted ids (one_field env c cid n f)"
proof -
  have "''OF_TYPE'' \<in> CODE_REF_TYPES" by (simp add: CODE_REF_TYPES_def)
  then show "cid \<in> ids \<Longrightarrow> ?thesis"
    unfolding one_field_def Let_def
    by (intro rooted_under rooted_all_of)
      (auto simp: from_node split: option.split intro!: contains_rooted refs_from_rooted [where s = "code_id env (c @ ''.'' @ f) ''field''"])
qed

lemma walk_field_rooted [rooting]: "cid \<in> ids \<Longrightarrow> rooted ids (walk_field env c cid n)"
  unfolding walk_field_def Let_def
  by (intro rooted_all_of) (auto intro!: rooted_all_of one_field_rooted refs_from_rooted [where s = cid] simp: CODE_REF_TYPES_def)

lemma walk_leaf_rooted [rooting]: "cid \<in> ids \<Longrightarrow> rooted ids (walk_leaf env c cid ms pre sv n)"
  unfolding walk_leaf_def
  by (auto intro!: rooted_all_of walk_method_rooted walk_field_rooted refs_from_rooted [where s = cid] simp: from_node)

lemma walk_type_rooted: "cid \<in> ids \<Longrightarrow> rooted ids (walk_type env p cid n)"
proof (induction env p cid n arbitrary: ids rule: walk_type.induct)
  case (1 env parent container n)
  show ?case
  proof (cases "field_text (fe_src env) n ''name''")
    case None
    then show ?thesis by (simp add: walk_type.simps [of env parent container n] rooting)
  next
    case (Some nm)
    let ?f = "type_fqn parent nm" and ?c = "code_id env (type_fqn parent nm) (type_kind n)"
    have t: "''EXTENDS'' \<in> CODE_REF_TYPES" "''IMPLEMENTS'' \<in> CODE_REF_TYPES" by (simp_all add: CODE_REF_TYPES_def)
    have kids: "is_type_decl k \<Longrightarrow> rooted (insert ?c ids) (walk_type env ?f ?c k)"
      if "child_by_field n ''body'' = Some b" "k \<in> set (t_children b)" for b k
      using "1.IH" [OF Some refl refl refl refl that, of "insert ?c ids"] by simp
    show ?thesis
      unfolding walk_type.simps [of env parent container n] Some option.case Let_def node_ids
      by (intro rooted_under rooted_all_of)
        (use "1.prems" kids in \<open>auto simp: from_node t split: option.splits
          intro!: contains_rooted rooted_all_of walk_leaf_rooted refs_from_rooted [where s = ?c]\<close>)
  qed
qed

lemma rooted_swap: "rooted ids (all_of (b # a_node n # bs)) \<longleftrightarrow> rooted ids (all_of (a_node n # b # bs))"
  by (simp add: rooted_def Un_left_commute insert_commute conj_commute conj_left_commute)

lemma java_bundle_ok: "bundle_ok (extract_java env root)"
proof -
  let ?f = "code_id env (fe_file env) ''file''"
  have "refs_from ?f (concat (map (import_refs env ?f) (t_children root)))"
    by (simp add: list_all_iff from_node)
  then have "rooted {} (extract_java env root)"
    unfolding extract_java_def Let_def node_ids rooted_swap
    by (intro rooted_under rooted_all_of)
      (auto intro!: rooted_all_of walk_type_rooted refs_from_rooted [where s = ?f])
  then show ?thesis by (simp add: rooted_none)
qed

lemma java_file_in: "code_id env (fe_file env) ''file'' \<in> n_id ` set (b_nodes (extract_java env root))"
  by (simp add: extract_java_def Let_def)

lemma java_has_file: "list_ex (\<lambda>n. n_label n = ''File'') (b_nodes (extract_java env root))"
  by (simp add: extract_java_def Let_def)

text \<open>C1: whatever tree the parser returns, the bundle of a Java file is consistent: its labels and types are those
  of the schema, and its edges and references start, and its edges end, at nodes of the file.\<close>

theorem extract_java_consistent: "bundle_ok (extract_java env root)"
  by (rule java_bundle_ok)

section \<open>Containment\<close>

lemma nested_method: "cid \<in> cs \<Longrightarrow> nested [''Class''] cs fs (walk_method env c cid pre ft sv n)"
  unfolding walk_method_def Let_def node_ids(1) [symmetric]
  by (intro nested_function nested_all_of) (auto intro!: nested_all_of nested_endpoint)

lemma nested_walk_field: "cid \<in> cs \<Longrightarrow> nested [''Class''] cs fs (walk_field env c cid n)"
proof -
  have "nested [''Class''] cs fs (one_field env c cid n f)" if "cid \<in> cs" for f
    unfolding one_field_def Let_def using that by (intro nested_field nested_all_of) auto
  then show "cid \<in> cs \<Longrightarrow> ?thesis"
    unfolding walk_field_def Let_def by (intro nested_all_of) (auto intro!: nested_all_of)
qed

lemma nested_leaf: "cid \<in> cs \<Longrightarrow> nested [''Class''] cs fs (walk_leaf env c cid ms pre sv n)"
  unfolding walk_leaf_def by (auto intro!: nested_all_of nested_method nested_walk_field)

lemma nested_type: "cid \<in> cs \<Longrightarrow> nested [''Class''] cs fs (walk_type env p cid n)"
proof (induction env p cid n arbitrary: cs rule: walk_type.induct)
  case (1 env parent container n)
  show ?case
  proof (cases "field_text (fe_src env) n ''name''")
    case None
    then show ?thesis by (simp add: walk_type.simps [of env parent container n] nested_all_of)
  next
    case (Some nm)
    let ?f = "type_fqn parent nm"
    let ?c = "n_id (type_node env ?f nm n)"
    have kids: "is_type_decl k \<Longrightarrow> nested [''Class''] (insert ?c cs) fs (walk_type env ?f ?c k)"
      if "child_by_field n ''body'' = Some b" "k \<in> set (t_children b)" for b k
      using "1.IH" [OF Some refl refl refl refl that, of "insert ?c cs"] by simp
    show ?thesis
      unfolding walk_type.simps [of env parent container n] Some option.case Let_def
      by (intro nested_class nested_all_of)
        (use "1.prems" kids in \<open>auto simp del: node_ids(5) split: option.splits intro!: nested_all_of nested_leaf\<close>)
  qed
qed

text \<open>C2: containment in a Java file is a tree over its declarations: there is exactly one containment edge to each
  class, method and field, in the order of the declarations, and it starts at the file or at a class of
  the file; every endpoint is exposed by exactly one edge, which starts at a method of the file.\<close>

theorem java_containment_exact:
  "map e_dst (edges_of ''CONTAINS'' (extract_java env root)) = ids_of [''Class'', ''Function'', ''Field''] (extract_java env root)
   \<and> map e_dst (edges_of ''EXPOSES'' (extract_java env root)) = ids_of [''Endpoint''] (extract_java env root)
   \<and> e_src ` set (edges_of ''CONTAINS'' (extract_java env root)) \<subseteq> set (ids_of [''File'', ''Class''] (extract_java env root))
   \<and> e_src ` set (edges_of ''EXPOSES'' (extract_java env root)) \<subseteq> set (ids_of [''Function''] (extract_java env root))"
proof -
  let ?f = "code_id env (fe_file env) ''file''"
  let ?w = "all_of (map (walk_type env (java_package env root) ?f) (filter is_type_decl (t_children root)))"
  have "nested [''Class''] {?f} {} ?w" by (intro nested_all_of) (auto intro: nested_type)
  then show ?thesis
    by (rule nested_file) (simp_all add: extract_java_def Let_def)
qed

section \<open>Calls\<close>

text \<open>The type of a name in a method, by the scopes of Java: the last local variable of that name, else the
  parameter, else the field.\<close>

definition last_named :: "string \<Rightarrow> (string \<times> string) list \<Rightarrow> string option" where
  "last_named nm ds = map_option snd (find (\<lambda>d. fst d = nm) (rev ds))"

definition scoped_type :: "string \<Rightarrow> var_types \<Rightarrow> tree \<Rightarrow> var_types" where
  "scoped_type src ft n nm =
     (case last_named nm (concat (map (local_vars src) (body_nodes (child_by_field n ''body'')))) of Some t \<Rightarrow> Some t
      | None \<Rightarrow> (case last_named nm (param_vars src (child_by_field n ''parameters'')) of Some t \<Rightarrow> Some t
          | None \<Rightarrow> ft nm))"

lemma set_vars_lookup: "set_vars ds m nm = (case last_named nm ds of Some t \<Rightarrow> Some t | None \<Rightarrow> m nm)"
proof (induction ds arbitrary: m)
  case (Cons d ds)
  then show ?case
    by (cases d) (auto simp: set_vars_def last_named_def find_snoc split: option.splits)
qed (simp add: set_vars_def last_named_def)

lemma var_types_scoped: "var_types_of src ft (child_by_field n ''parameters'') (child_by_field n ''body'') = scoped_type src ft n"
  by (rule ext) (simp add: var_types_of_def scoped_type_def set_vars_lookup split: option.split)

definition calls_of :: "raw_ref list \<Rightarrow> raw_ref list" where
  "calls_of rs = filter (\<lambda>r. r_type r = ''CALLS'') rs"

lemma calls_of_append [simp]: "calls_of (as @ bs) = calls_of as @ calls_of bs"
  by (simp add: calls_of_def)

lemma calls_of_concat [simp]: "calls_of (concat rss) = concat (map calls_of rss)"
  by (simp add: calls_of_def [abs_def] filter_concat)

lemma calls_of_other: "list_all (\<lambda>r. r_type r \<noteq> ''CALLS'') rs \<Longrightarrow> calls_of rs = []"
  by (simp add: calls_of_def filter_empty_conv list_all_iff)

lemma calls_of_map: "(\<And>x. r_type (f x) \<noteq> ''CALLS'') \<Longrightarrow> calls_of (map f xs) = []"
  by (rule calls_of_other) (simp add: list_all_iff)

lemma calls_of_single [simp]: "calls_of [r] = (if r_type r = ''CALLS'' then [r] else [])" "calls_of [] = []"
  by (simp_all add: calls_of_def)

lemma no_calls [simp]:
  "t \<noteq> ''CALLS'' \<Longrightarrow> calls_of (type_refs env t s n) = []"
  "calls_of (annotation_refs env s n) = []"
  "t \<noteq> ''CALLS'' \<Longrightarrow> calls_of (event_refs env t s n ev) = []"
  by (auto simp: type_refs_def annotation_refs_def event_refs_def calls_of_map split: prod.splits)

lemma no_policy_calls [simp]: "calls_of (policy_refs env s n) = []"
  by (rule calls_of_other) (auto simp: policy_refs_def list_all_iff dest!: policy_specs_types)

lemma no_head_calls [simp]: "calls_of (head_refs env s n) = []"
  by (auto simp: head_refs_def calls_of_map split: option.splits)

definition call_ref :: "file_env \<Rightarrow> string \<Rightarrow> string \<Rightarrow> var_types \<Rightarrow> tree \<Rightarrow> raw_ref option" where
  "call_ref env mid c vars d = map_option (\<lambda>nm. (code_ref env ''CALLS'' mid nm ''call'' d)
     \<lparr>r_recv := fst (receiver (fe_src env) c vars d), r_recv_type := snd (receiver (fe_src env) c vars d),
      r_call_arity := call_arity d\<rparr>) (field_text (fe_src env) d ''name'')"

lemma calls_of_node:
  "calls_of (body_refs env mid c vars w d) =
     (if t_type d = ''method_invocation'' then (case call_ref env mid c vars d of None \<Rightarrow> [] | Some r \<Rightarrow> [r]) else [])"
  by (auto simp: body_refs_def call_refs_def call_ref_def calls_of_map Let_def split: option.splits prod.splits)

lemma no_endpoint_refs [simp]: "b_refs (emit_endpoint env ''java'' h n mr) = []"
  by (simp add: emit_endpoint_def Let_def contains_def)

lemma map_filter_filter: "concat (map (\<lambda>d. if p d then (case f d of None \<Rightarrow> [] | Some r \<Rightarrow> [r]) else []) ds) = List.map_filter f (filter p ds)"
  by (induction ds) (auto simp: List.map_filter_simps split: option.splits)

text \<open>What a call is called on, stated on the tree: the last part of the name of the enclosing class is the type of \<open>this\<close>; a
  field is named through \<open>this\<close>.\<close>

definition last_part :: "string \<Rightarrow> string \<Rightarrow> bool" where
  "last_part c s \<longleftrightarrow> CHR ''.'' \<notin> set s \<and> (c = s \<or> (\<exists>pre. c = pre @ CHR ''.'' # s))"

definition own_field :: "string \<Rightarrow> tree \<Rightarrow> string \<Rightarrow> bool" where
  "own_field src obj nm \<longleftrightarrow> t_type obj = ''field_access'' \<and> nm \<noteq> []
     \<and> (\<exists>this f. child_by_field obj ''object'' = Some this \<and> t_type this = ''this'' \<and> child_by_field obj ''field'' = Some f \<and> nm = node_text src f)"

inductive called_on :: "string \<Rightarrow> string \<Rightarrow> var_types \<Rightarrow> tree \<Rightarrow> string \<Rightarrow> string \<Rightarrow> bool"
  for src c ty where
  unqualified: "child_by_field d ''object'' = None \<Longrightarrow> last_part c s \<Longrightarrow> called_on src c ty d ''this'' s"
| on_this: "child_by_field d ''object'' = Some obj \<Longrightarrow> t_type obj = ''this'' \<Longrightarrow> last_part c s \<Longrightarrow> called_on src c ty d ''this'' s"
| on_name: "child_by_field d ''object'' = Some obj \<Longrightarrow> t_type obj = ''identifier'' \<Longrightarrow> nm = node_text src obj \<Longrightarrow>
     (case ty nm of Some t \<Rightarrow> rt = t | None \<Rightarrow> rt = []) \<Longrightarrow> called_on src c ty d nm rt"
| on_field: "child_by_field d ''object'' = Some obj \<Longrightarrow> own_field src obj nm \<Longrightarrow>
     (case ty nm of Some t \<Rightarrow> rt = t | None \<Rightarrow> rt = []) \<Longrightarrow> called_on src c ty d nm rt"
| on_other: "child_by_field d ''object'' = Some obj \<Longrightarrow> t_type obj \<noteq> ''this'' \<Longrightarrow> t_type obj \<noteq> ''identifier'' \<Longrightarrow> \<nexists>nm. own_field src obj nm \<Longrightarrow>
     called_on src c ty d [] []"

lemma last_part_after: "last_part c (after_last CHR ''.'' c)"
proof (cases "CHR ''.'' \<in> set c")
  case True
  from split_last_char [OF this] show ?thesis by (auto simp: last_part_def)
qed (simp add: last_part_def after_last_none)

lemma this_field_own: "this_field src obj = nm \<and> nm \<noteq> [] \<longleftrightarrow> own_field src obj nm"
  by (auto simp: this_field_def own_field_def split: option.splits)

lemma receiver_called_on: "called_on src c ty d (fst (receiver src c ty d)) (snd (receiver src c ty d))"
proof (cases "child_by_field d ''object''")
  case None
  then show ?thesis using last_part_after by (auto simp: receiver_def intro: called_on.unqualified)
next
  case obj: (Some obj)
  consider "t_type obj = ''this''" | "t_type obj = ''identifier''"
    | "t_type obj \<noteq> ''this''" "t_type obj \<noteq> ''identifier''" "this_field src obj \<noteq> []"
    | "t_type obj \<noteq> ''this''" "t_type obj \<noteq> ''identifier''" "this_field src obj = []" by blast
  then show ?thesis
  proof cases
    case 1
    with obj show ?thesis using last_part_after by (auto simp: receiver_def intro: called_on.on_this)
  next
    case 2
    with obj show ?thesis by (auto simp: receiver_def or_none_def split: option.split intro!: called_on.on_name)
  next
    case 3
    have "own_field src obj (this_field src obj)" using this_field_own [of src obj "this_field src obj"] 3(3) by simp
    with obj 3 show ?thesis by (auto simp: receiver_def or_none_def split: option.split intro!: called_on.on_field)
  next
    case 4
    have "\<not> own_field src obj nm" for nm using this_field_own [of src obj nm] 4(3) by auto
    then have "\<nexists>nm. own_field src obj nm" by simp
    with obj 4 show ?thesis by (auto simp: receiver_def intro: called_on.on_other)
  qed
qed

definition argument_count :: "tree \<Rightarrow> int \<Rightarrow> bool" where
  "argument_count d k \<longleftrightarrow> (case child_by_field d ''arguments'' of None \<Rightarrow> k = -1
     | Some a \<Rightarrow> k = int (length (filter (\<lambda>x. t_type x \<noteq> ''('' \<and> t_type x \<noteq> '')'' \<and> t_type x \<noteq> '','') (t_children a))))"

lemma arity_counted: "argument_count d (call_arity d)"
  by (auto simp: argument_count_def call_arity_def arguments_of_def punctuation_def split: option.split intro!: arg_cong [where f = length] filter_cong)

definition java_call :: "file_env \<Rightarrow> string \<Rightarrow> string \<Rightarrow> var_types \<Rightarrow> tree \<Rightarrow> raw_ref \<Rightarrow> bool" where
  "java_call env mid c ty d r \<longleftrightarrow> r_type r = ''CALLS'' \<and> r_src r = mid
     \<and> (\<exists>n. child_by_field d ''name'' = Some n \<and> r_target_name r = node_text (fe_src env) n)
     \<and> called_on (fe_src env) c ty d (r_recv r) (r_recv_type r) \<and> argument_count d (r_call_arity r)
     \<and> r_ref_file r = fe_file env \<and> r_ref_line r = line_of d"

lemma call_ref_java: "call_ref env mid c ty d = Some r \<Longrightarrow> java_call env mid c ty d r"
  using receiver_called_on arity_counted by (auto simp: call_ref_def java_call_def field_text_def code_ref_def mk_ref_def)

lemma call_refs_java:
  "list_all2 (java_call env mid c ty) (filter (\<lambda>d. child_by_field d ''name'' \<noteq> None) ds) (List.map_filter (call_ref env mid c ty) ds)"
proof (induction ds)
  case (Cons d ds)
  show ?case
  proof (cases "call_ref env mid c ty d")
    case None
    then have "child_by_field d ''name'' = None" by (simp add: call_ref_def field_text_def)
    with Cons None show ?thesis by (simp add: List.map_filter_simps)
  next
    case (Some r)
    then have "child_by_field d ''name'' \<noteq> None" by (auto simp: call_ref_def field_text_def)
    with Cons Some call_ref_java [OF Some] show ?thesis by (simp add: List.map_filter_simps)
  qed
qed (simp add: List.map_filter_simps)

text \<open>C3: the call references of a method are, one for one and in the order of the source, the invocations in its body that have a
  name, however deep they stand: each with that name, its line and the number of its arguments (or -1 without a list of
  arguments); an unqualified call and one on \<open>this\<close> has the enclosing class as the type of its receiver, a call on a name
  or on a field named through \<open>this\<close> has the type of the last local variable of that name, else of the parameter, else of the
  field, and a call on anything else has no receiver.\<close>

theorem java_calls_exact:
  "list_all2 (java_call env (java_method_id env c n) c (scoped_type (fe_src env) ft n))
     (filter (\<lambda>d. t_type d = ''method_invocation'' \<and> child_by_field d ''name'' \<noteq> None) (body_nodes (child_by_field n ''body'')))
     (filter (\<lambda>r. r_type r = ''CALLS'') (b_refs (walk_method env c cid pre ft sv n)))"
proof -
  let ?ds = "filter (\<lambda>d. t_type d = ''method_invocation'') (body_nodes (child_by_field n ''body''))"
  have "concat (map (\<lambda>x. b_refs (emit_endpoint env ''java'' (java_method_id env c n) n x)) rs) = []" for rs
    by simp
  moreover have "calls_of (map (\<lambda>t. code_ref env ''CONSUMES_EVENT'' m t ''event'' n) ts) = []" for m ts
    by (simp add: calls_of_map)
  ultimately have "calls_of (b_refs (walk_method env c cid pre ft sv n)) =
      List.map_filter (call_ref env (java_method_id env c n) c (scoped_type (fe_src env) ft n)) ?ds"
    by (simp add: walk_method_def Let_def contains_def calls_of_node var_types_scoped map_filter_filter comp_def)
  with call_refs_java [of env "java_method_id env c n" c "scoped_type (fe_src env) ft n" ?ds] show ?thesis
    by (simp add: calls_of_def conj_commute)
qed

section \<open>Where the reading differs from its documentation\<close>

text \<open>A token, and an annotation on one line with one pair of arguments: its name, a key and a value given by their
  places in the text.\<close>

definition token :: "string \<Rightarrow> string \<Rightarrow> nat \<Rightarrow> nat \<Rightarrow> tree" where
  "token ty f a b = Tree ty f True a a b (0, a) (0, b) []"

definition demo_annotation :: "nat \<times> nat \<Rightarrow> nat \<times> nat \<Rightarrow> string \<Rightarrow> nat \<times> nat \<Rightarrow> tree" where
  "demo_annotation nm key ty val = Tree ''annotation'' [] True 0 0 (snd val) (0, 0) (0, snd val)
     [token ''identifier'' ''name'' (fst nm) (snd nm),
      Tree ''annotation_argument_list'' ''arguments'' True 1 (snd nm) (snd val) (0, snd nm) (0, snd val)
        [Tree ''element_value_pair'' [] True 2 (fst key) (snd val) (0, fst key) (0, snd val)
           [token ''identifier'' ''key'' (fst key) (snd key), token ty ''value'' (fst val) (snd val)]]]"

text \<open>A servlet declared with the name of its patterns has no route.\<close>

definition servlet_text :: string where
  "servlet_text = ''WebServlet(urlPatterns='' @ [CHR 0x22] @ ''/a'' @ [CHR 0x22] @ '')''"

lemma url_patterns_ignored:
  "servlet_route servlet_text (Tree ''class_declaration'' [] True 9 0 28 (0, 0) (0, 28)
     [Tree ''modifiers'' [] True 8 0 28 (0, 0) (0, 28) [demo_annotation (0, 10) (11, 22) ''string_literal'' (23, 27)]]) = []"
  by code_simp

text \<open>The verb of a mapping with a list of methods keeps the closing brace.\<close>

lemma method_list_verb:
  "request_mapping_method ''RM(method={M.POST})'' (demo_annotation (0, 2) (3, 9) ''element_value_array_initializer'' (10, 18)) = ''POST}''"
  by code_simp

text \<open>A static import is taken for the import of a class with the name of the member.\<close>

lemma static_import_member:
  "import_name ''import static a.B.x'' (Tree ''import_declaration'' [] True 0 0 19 (0, 0) (0, 19)
     [token ''import'' [] 0 6, token ''static'' [] 7 13, token ''scoped_identifier'' [] 14 19]) = (''x'', ''a.B.x'', False)"
  by code_simp

text \<open>Members one level below the body of a type are not walked: nothing of a body that holds them in a node of
  another type is extracted.\<close>

lemma wrapped_members_lost:
  "t_type w \<notin> set [''method_declaration'', ''constructor_declaration'', ''field_declaration''] \<Longrightarrow> \<not> is_type_decl w
     \<Longrightarrow> walk_leaf env fqn cid ms pre sv w = from_extractor [] [] []"
  by (simp add: walk_leaf_def all_of_def)

text \<open>The type arguments of a superclass are taken for superclasses too.\<close>

lemma superclass_arguments:
  "types_in ''extends B<C>'' (Tree ''superclass'' ''superclass'' True 0 0 12 (0, 0) (0, 12)
     [token ''extends'' [] 0 7,
      Tree ''generic_type'' [] True 1 8 12 (0, 8) (0, 12)
        [token ''type_identifier'' [] 8 9,
         Tree ''type_arguments'' [] True 2 9 12 (0, 9) (0, 12) [token ''type_identifier'' [] 10 11]]]) = [''B'', ''C'']"
  by code_simp

text \<open>A class with one method that calls another: its nodes and its call.\<close>

definition demo_java :: file_env where
  "demo_java = \<lparr>fe_make_id = (\<lambda>r f k. f), fe_body_hash = (\<lambda>s. []), fe_split_url = (\<lambda>u. ([], u)), fe_repo = ''r'',
     fe_file = ''f'', fe_sha = [], fe_src = ''class A{m(){n();}}''\<rparr>"

definition demo_tree :: tree where
  "demo_tree = Tree ''program'' [] True 0 0 18 (0, 0) (0, 18)
     [Tree ''class_declaration'' [] True 1 0 18 (0, 0) (0, 18)
        [token ''identifier'' ''name'' 6 7,
         Tree ''class_body'' ''body'' True 2 7 18 (0, 7) (0, 18)
           [Tree ''method_declaration'' [] True 3 8 17 (0, 8) (0, 17)
              [token ''identifier'' ''name'' 8 9, token ''formal_parameters'' ''parameters'' 9 11,
               Tree ''block'' ''body'' True 4 11 17 (0, 11) (0, 17)
                 [Tree ''method_invocation'' [] True 5 12 15 (0, 12) (0, 15)
                    [token ''identifier'' ''name'' 12 13, token ''argument_list'' ''arguments'' 13 15]]]]]]"

lemma demo_extracted:
  "map n_id (b_nodes (extract_java demo_java demo_tree)) = [''f'', ''A'', ''A#m()'']
   \<and> map (\<lambda>r. (r_target_name r, r_recv_type r)) (b_refs (extract_java demo_java demo_tree)) = [(''n'', ''A'')]"
  by code_simp

end
