(* ===== verification/Jsp.thy ===== *)
theory Jsp
  imports Regex JavaProps
begin

text \<open>
  The extractor of JSP pages (\<open>graph_core/extractors/jsp.py\<close>): a page is cut into its segments, translated to a
  Java unit with a map from its lines to those of the page, and what the Java extractor makes of the unit
  is moved back to the page.  The parser is an argument; it may raise.  Letters and digits are the
  ASCII ones.
\<close>

section \<open>Segments\<close>

datatype seg_kind = Comment | Directive | Declaration | Expression | Scriptlet

definition SEGMENTS :: "(seg_kind \<times> string \<times> string) list" where
  "SEGMENTS = [(Comment, ''<%--'', ''--%>''), (Directive, ''<%@'', ''%>''), (Declaration, ''<%!'', ''%>''),
     (Expression, ''<%='', ''%>''), (Scriptlet, ''<%'', ''%>'')]"

definition OUT_SENTINEL :: string where
  "OUT_SENTINEL = ''_jspx_out''"

definition newlines :: "string \<Rightarrow> nat" where
  "newlines s = length (filter (\<lambda>c. c = CHR 0x0A) s)"

text \<open>The segment that opens first, and of those that open at one place the first of the table.\<close>

definition nearer :: "string \<Rightarrow> seg_kind \<times> string \<times> string \<Rightarrow> ((seg_kind \<times> string \<times> string) \<times> nat) option \<Rightarrow>
    ((seg_kind \<times> string \<times> string) \<times> nat) option" where
  "nearer s seg best = (case find_str (fst (snd seg)) s of None \<Rightarrow> best
     | Some k \<Rightarrow> (case best of None \<Rightarrow> Some (seg, k) | Some (_, k') \<Rightarrow> if k < k' then Some (seg, k) else best))"

definition best_segment :: "string \<Rightarrow> ((seg_kind \<times> string \<times> string) \<times> nat) option" where
  "best_segment s = fold (nearer s) SEGMENTS None"

type_synonym segment = "seg_kind \<times> string \<times> nat"

definition body_length :: "string \<Rightarrow> string \<Rightarrow> nat" where
  "body_length closer s = (case find_str closer s of Some m \<Rightarrow> m | None \<Rightarrow> length s)"

lemma nearer_in: "nearer s seg best = Some (x, k) \<Longrightarrow> x = seg \<or> best = Some (x, k)"
  by (auto simp: nearer_def split: option.splits if_splits)

lemma best_segment_in: "best_segment s = Some (x, k) \<Longrightarrow> x \<in> set SEGMENTS"
proof -
  have "fold (nearer s) segs best = Some (x, k) \<Longrightarrow> x \<in> set segs \<or> best = Some (x, k)" for segs best
    by (induction segs arbitrary: best) (auto dest!: nearer_in)
  then show "best_segment s = Some (x, k) \<Longrightarrow> ?thesis" unfolding best_segment_def by fastforce
qed

function scan_from :: "nat \<Rightarrow> string \<Rightarrow> segment list" where
  "scan_from line s =
     (if s = [] then []
      else case best_segment s of None \<Rightarrow> []
      | Some ((kind, opener, closer), start) \<Rightarrow>
          let after = drop (start + length opener) s; n = body_length closer after;
              line1 = line + newlines (take start s); span = length opener + n + length closer
          in (if kind \<noteq> Comment then [(kind, take n after, line1 + newlines opener)] else [])
             @ scan_from (line1 + newlines (take span (drop start s))) (drop (start + span) s))"
  by pat_completeness auto
termination
proof (relation "measure (\<lambda>(l, s). length s)", goal_cases)
  case (2 line s seg x start k y opener closer after n line1 span)
  then have "opener \<noteq> []" using best_segment_in by (fastforce simp: SEGMENTS_def)
  with 2 show ?case by auto
qed simp

declare scan_from.simps [simp del]

definition scan_page :: "string \<Rightarrow> segment list" where
  "scan_page source = scan_from 1 source"

section \<open>Names\<close>

definition ident_safe :: "string \<Rightarrow> string" where
  "ident_safe s = map (\<lambda>c. if is_word c then c else CHR ''_'') s"

definition no_digit_first :: "string \<Rightarrow> string" where
  "no_digit_first s = (if s \<noteq> [] \<and> is_digit (hd s) then CHR ''_'' # s else s)"

text \<open>\<open>os.path.splitext(f)[0]\<close>.\<close>

definition splitext_root :: "string \<Rightarrow> string" where
  "splitext_root f = (if CHR ''.'' \<in> set f \<and> list_ex (\<lambda>c. c \<noteq> CHR ''.'') (before_last CHR ''.'' f) then before_last CHR ''.'' f else f)"

definition posix :: "string \<Rightarrow> string" where
  "posix p = replace_char CHR 0x5C CHR ''/'' p"

definition class_identity :: "string \<Rightarrow> string \<times> string" where
  "class_identity relpath =
     (let p = posix relpath
      in (join_with CHR ''.'' (map (\<lambda>seg. no_digit_first (ident_safe seg))
            (filter (\<lambda>seg. seg \<notin> set [[], ''.'', ''..'']) (split_on CHR ''/'' (before_last CHR ''/'' p)))),
          no_digit_first (ident_safe (splitext_root (after_last CHR ''/'' p)) @ ''_jsp'')))"

section \<open>Patterns\<close>

definition ATTR_RE :: matcher where
  "ATTR_RE = in_row [captured 1 (in_row [one is_word, runs (\<lambda>c. is_word c \<or> c = CHR '':'' \<or> c = CHR ''-'')]), opt_gap,
     char_is CHR ''='', opt_gap, captured 2 (either (between CHR 0x22) (between CHR 0x27))]"

definition JSP_ACTION_RE :: matcher where
  "JSP_ACTION_RE = in_row [keyword ''<jsp:'',
     captured 1 (first_of [keyword ''include'', keyword ''forward'', keyword ''useBean'', keyword ''directive.include'']),
     at_word_boundary, captured 2 (runs (\<lambda>c. c \<noteq> CHR ''>'')), optional (char_is CHR ''/''), char_is CHR ''>'']"

definition EL_RE :: matcher where
  "EL_RE = in_row [one (\<lambda>c. c = CHR ''$'' \<or> c = CHR ''#''), char_is CHR ''{'', captured 1 (runs (\<lambda>c. c \<noteq> CHR ''}'')), char_is CHR ''}'']"

definition EL_PROPERTY_RE :: matcher where
  "EL_PROPERTY_RE = in_row [at_word_boundary, captured 1 (some_of is_word), char_is CHR ''.'', captured 2 (some_of is_word)]"

definition SCRIPT_SRC_RE :: matcher where
  "SCRIPT_SRC_RE = in_row [char_is CHR ''<'', opt_gap, keyword ''script'', at_word_boundary, lazily (\<lambda>c. c \<noteq> CHR ''>''),
     at_word_boundary, keyword ''src'', opt_gap, char_is CHR ''='', opt_gap,
     captured 1 (first_of [between CHR 0x22, between CHR 0x27, some_of (\<lambda>c. \<not> is_space c \<and> c \<noteq> CHR ''>'')])]"

definition JS_FILE_RE :: matcher where
  "JS_FILE_RE = in_row [captured 1 (in_row [one is_word, runs (\<lambda>c. is_word c \<or> c = CHR ''.'' \<or> c = CHR ''-''),
     char_is CHR ''.'', char_is CHR ''j'', char_is CHR ''s'']), at_word_boundary]"

type_synonym attributes = "(string \<times> string) list"

definition attrs :: "string \<Rightarrow> attributes" where
  "attrs raw = map (\<lambda>m. (py_lower (group_or_empty m 1), butlast (tl (group_or_empty m 2)))) (finditer ATTR_RE raw)"

text \<open>\<open>attrs.get(k, "")\<close>: of several attributes of one name the last counts.\<close>

definition attr_of :: "attributes \<Rightarrow> string \<Rightarrow> string" where
  "attr_of ats k = or_none (last_named k ats)"

section \<open>Translation\<close>

type_synonym located = "string \<times> nat"

record translation =
  tr_lines :: "located list"
  tr_imports :: "located list"
  tr_includes :: "(string \<times> nat \<times> string) list"
  tr_beans :: "(string \<times> string \<times> nat) list"
  tr_taglibs :: "(string \<times> string \<times> nat) list"
  tr_scripts :: "located list"
  tr_el_calls :: "(string \<times> string \<times> string \<times> nat) list"
  tr_el_expressions :: nat
  tr_scriptlet_lines :: nat

text \<open>\<open>emit\<close>: each line of a text with the line of the page it comes from.  The lines of the unit are kept with
  their places, so the map has an entry for each.\<close>

fun place_lines :: "nat \<Rightarrow> string list \<Rightarrow> located list" where
  "place_lines l [] = []"
| "place_lines l (c # cs) = (c, max 1 l) # place_lines (Suc l) cs"

definition emit_text :: "located \<Rightarrow> located list" where
  "emit_text t = place_lines (snd t) (split_on CHR 0x0A (fst t))"

definition java_source :: "translation \<Rightarrow> string" where
  "java_source tr = join_with CHR 0x0A (map fst (tr_lines tr))"

definition line_map :: "located list \<Rightarrow> nat \<Rightarrow> nat option" where
  "line_map ls i = (if 1 \<le> i \<and> i \<le> length ls then Some (snd (ls ! (i - 1))) else None)"

definition page_imports :: "segment \<Rightarrow> located list" where
  "page_imports seg = (case seg of (kind, raw, l) \<Rightarrow>
     if kind = Directive \<and> py_startswith (py_lower (py_strip raw)) ''page''
     then map (\<lambda>s. (s, l)) (filter (\<lambda>s. s \<noteq> []) (map py_strip (split_on CHR '','' (attr_of (attrs (py_strip raw)) ''import''))))
     else [])"

definition static_includes :: "segment \<Rightarrow> (string \<times> nat \<times> string) list" where
  "static_includes seg = (case seg of (kind, raw, l) \<Rightarrow>
     let target = attr_of (attrs (py_strip raw)) ''file'' in
     if kind = Directive \<and> py_startswith (py_lower (py_strip raw)) ''include'' \<and> target \<noteq> [] then [(target, l, ''static'')] else [])"

definition page_taglibs :: "segment \<Rightarrow> (string \<times> string \<times> nat) list" where
  "page_taglibs seg = (case seg of (kind, raw, l) \<Rightarrow>
     let ats = attrs (py_strip raw) in
     if kind = Directive \<and> py_startswith (py_lower (py_strip raw)) ''taglib'' then [(attr_of ats ''prefix'', attr_of ats ''uri'', l)] else [])"

definition declared_code :: "segment \<Rightarrow> located list" where
  "declared_code seg = (case seg of (kind, raw, l) \<Rightarrow> if kind = Declaration then [(raw, l)] else [])"

definition body_code :: "segment \<Rightarrow> located list" where
  "body_code seg = (case seg of (kind, raw, l) \<Rightarrow>
     if kind = Scriptlet then [(raw, l)]
     else if kind = Expression \<and> py_strip raw \<noteq> [] \<and> CHR '';'' \<notin> set (py_strip raw)
     then [(OUT_SENTINEL @ ''.print('' @ py_strip raw @ '');'', l)] else [])"

definition code_lines :: "segment \<Rightarrow> nat" where
  "code_lines seg = (case seg of (kind, raw, l) \<Rightarrow> if kind \<in> set [Declaration, Scriptlet] then newlines raw + 1 else 0)"

definition or_else :: "string \<Rightarrow> string \<Rightarrow> string" where
  "or_else a b = (if a \<noteq> [] then a else b)"

text \<open>An action of the page: what it includes and the bean it declares.\<close>

definition action_includes :: "string \<Rightarrow> found \<Rightarrow> (string \<times> nat \<times> string) list" where
  "action_includes source m =
     (let action = py_lower (group_or_empty m 1); ats = attrs (group_or_empty m 2); l = line_at source (fd_start m);
          target = or_else (attr_of ats ''page'') (attr_of ats ''file'')
      in if action \<in> set [''include'', ''directive.include''] then (if target \<noteq> [] then [(target, l, ''dynamic'')] else [])
         else if action = ''forward'' then (if attr_of ats ''page'' \<noteq> [] then [(attr_of ats ''page'', l, ''forward'')] else [])
         else [])"

definition action_beans :: "string \<Rightarrow> found \<Rightarrow> (string \<times> string \<times> nat) list" where
  "action_beans source m =
     (let ats = attrs (group_or_empty m 2); cls = or_else (attr_of ats ''class'') (attr_of ats ''type'')
      in if py_lower (group_or_empty m 1) = ''usebean'' \<and> cls \<noteq> [] then [(attr_of ats ''id'', cls, line_at source (fd_start m))] else [])"

definition page_scripts :: "string \<Rightarrow> located list" where
  "page_scripts source = kept fst {} (concat (map (\<lambda>m.
     map (\<lambda>f. (group_or_empty f 1, line_at source (fd_start m))) (finditer JS_FILE_RE (strip_where quote_char (group_or_empty m 1))))
     (finditer SCRIPT_SRC_RE source)))"

definition bean_types :: "(string \<times> string \<times> nat) list \<Rightarrow> string \<rightharpoonup> string" where
  "bean_types beans = set_vars (map (\<lambda>(i, c, l). (i, c)) (filter (\<lambda>b. fst b \<noteq> []) beans)) Map.empty"

fun getter :: "string \<Rightarrow> string" where
  "getter [] = ''get''"
| "getter (c # p) = ''get'' @ upper_char c # p"

definition el_calls_at :: "(string \<rightharpoonup> string) \<Rightarrow> string \<Rightarrow> found \<Rightarrow> (string \<times> string \<times> string \<times> nat) list" where
  "el_calls_at types source m = List.map_filter (\<lambda>p.
     case types (group_or_empty p 1) of None \<Rightarrow> None
     | Some cls \<Rightarrow>
         if cls = [] \<or> group_or_empty p 2 = [] then None
         else Some (group_or_empty p 1, after_last CHR ''.'' (before_first CHR ''<'' cls), getter (group_or_empty p 2), line_at source (fd_start m)))
     (finditer EL_PROPERTY_RE (group_or_empty m 1))"

definition bean_code :: "string \<times> string \<times> nat \<Rightarrow> located list" where
  "bean_code b = (case b of (i, cls, l) \<Rightarrow>
     if i \<noteq> [] \<and> cls \<noteq> [] then [(''    '' @ cls @ '' '' @ i @ '' = new '' @ cls @ ''();'', l)] else [])"

text \<open>The unit in the order it is emitted.\<close>

definition unit_texts :: "string \<times> string \<Rightarrow> segment list \<Rightarrow> (string \<times> string \<times> nat) list \<Rightarrow> located list" where
  "unit_texts ident segs beans =
     (if fst ident \<noteq> [] then [(''package '' @ fst ident @ '';'', 1)] else [])
     @ map (\<lambda>(s, l). (''import '' @ s @ '';'', l)) (concat (map page_imports segs))
     @ [(''public class '' @ snd ident @ '' {'', 1)]
     @ concat (map declared_code segs)
     @ [(''  public void _jspService() {'', 1)]
     @ concat (map bean_code beans)
     @ concat (map body_code segs)
     @ [(''  }'', 1), (''}'', 1)]"

definition translate :: "string \<Rightarrow> string \<Rightarrow> translation" where
  "translate source relpath =
     (let segs = scan_page source; actions = finditer JSP_ACTION_RE source; els = finditer EL_RE source;
          beans = concat (map (action_beans source) actions)
      in \<lparr>tr_lines = concat (map emit_text (unit_texts (class_identity relpath) segs beans)),
          tr_imports = concat (map page_imports segs),
          tr_includes = concat (map static_includes segs) @ concat (map (action_includes source) actions),
          tr_beans = beans,
          tr_taglibs = concat (map page_taglibs segs),
          tr_scripts = page_scripts source,
          tr_el_calls = concat (map (el_calls_at (bean_types beans) source) els),
          tr_el_expressions = length els,
          tr_scriptlet_lines = sum_list (map code_lines segs)\<rparr>)"

section \<open>Back to the page\<close>

text \<open>The closest entry at or before a line.\<close>

fun probe_down :: "(nat \<Rightarrow> nat option) \<Rightarrow> nat \<Rightarrow> nat option" where
  "probe_down m 0 = None"
| "probe_down m (Suc k) = (case m (Suc k) of Some v \<Rightarrow> Some v | None \<Rightarrow> probe_down m k)"

definition remap_line :: "located list \<Rightarrow> int \<Rightarrow> int \<Rightarrow> int" where
  "remap_line ls line fallback =
     (case line_map ls (nat line) of Some v \<Rightarrow> int v
      | None \<Rightarrow> (case probe_down (line_map ls) (nat (line - 1)) of Some v \<Rightarrow> int v | None \<Rightarrow> fallback))"

definition JSP_EXTRACTOR :: string where
  "JSP_EXTRACTOR = ''tree-sitter-jsp''"

definition page_node :: "located list \<Rightarrow> int \<Rightarrow> string \<Rightarrow> string \<Rightarrow> node \<Rightarrow> node" where
  "page_node ls pages class_name sha n =
     (let start = remap_line ls (n_start_line n) 1; stop = max start (remap_line ls (n_end_line n) pages);
          whole = (n_label n = ''File'' \<or> n_name n \<in> set [class_name, ''_jspService''])
      in n\<lparr>n_lang := ''jsp'', n_extractor := JSP_EXTRACTOR,
           n_start_line := if whole then 1 else start, n_end_line := if whole then pages else stop,
           n_body_hash := if n_label n = ''File'' then sha else n_body_hash n\<rparr>)"

definition page_edge :: "located list \<Rightarrow> edge \<Rightarrow> edge" where
  "page_edge ls e = (if e_evidence_line e = 0 then e else e\<lparr>e_evidence_line := remap_line ls (e_evidence_line e) 1\<rparr>)"

definition page_ref :: "located list \<Rightarrow> raw_ref \<Rightarrow> raw_ref" where
  "page_ref ls r = (if r_ref_line r = 0 then r else r\<lparr>r_ref_line := remap_line ls (r_ref_line r) 1\<rparr>)"

definition page_file_node :: "file_env \<Rightarrow> int \<Rightarrow> node" where
  "page_file_node env pages =
     (mk_node (code_id env (fe_file env) ''file'') ''File'' (after_last CHR ''/'' (fe_file env)) (fe_file env) (fe_repo env))
     \<lparr>n_kind := ''file'', n_lang := ''jsp'', n_file := fe_file env, n_start_line := 1, n_end_line := pages,
      n_body_hash := fe_sha env, n_extractor := JSP_EXTRACTOR\<rparr>"

definition page_to :: "file_env \<Rightarrow> string \<Rightarrow> string \<Rightarrow> string \<Rightarrow> string \<Rightarrow> nat \<Rightarrow> raw_ref" where
  "page_to env t s target hint l = (mk_ref t s target)\<lparr>r_kind_hint := hint, r_ref_file := fe_file env, r_ref_line := int l, r_ref_col := 0\<rparr>"

definition el_refs :: "file_env \<Rightarrow> translation \<Rightarrow> node list \<Rightarrow> raw_ref list" where
  "el_refs env tr ns =
     (case find (\<lambda>n. n_label n = ''Function'' \<and> n_name n = ''_jspService'') ns of None \<Rightarrow> []
      | Some f \<Rightarrow> if n_id f = [] then [] else map (\<lambda>(rv, cls, g, l). (page_to env ''CALLS'' (n_id f) g ''call'' l)
          \<lparr>r_recv := rv, r_recv_type := cls, r_call_arity := 0\<rparr>) (tr_el_calls tr))"

definition include_refs :: "file_env \<Rightarrow> translation \<Rightarrow> string \<Rightarrow> raw_ref list" where
  "include_refs env tr file_id = List.map_filter (\<lambda>(target, l, kind).
     let nm = after_last CHR ''/'' (posix (before_first CHR ''?'' target))
     in if nm = [] then None else Some (page_to env ''INCLUDES_PAGE'' file_id nm ''file'' l)) (tr_includes tr)"

definition script_refs :: "file_env \<Rightarrow> translation \<Rightarrow> string \<Rightarrow> raw_ref list" where
  "script_refs env tr file_id = map (\<lambda>(js, l). page_to env ''INCLUDES_SCRIPT'' file_id js ''file'' l) (tr_scripts tr)"

text \<open>\<open>extract\<close>: the text of the page is \<open>fe_src env\<close>.  A parse that raises leaves a page without content.\<close>

definition extract_jsp :: "(string \<Rightarrow> tree option) \<Rightarrow> file_env \<Rightarrow> canonical_bundle" where
  "extract_jsp parse env =
     (let source = fe_src env; tr = translate source (fe_file env); pages = int (newlines source) + 1; ls = tr_lines tr;
          java = (case parse (java_source tr) of None \<Rightarrow> from_extractor [] [] []
                  | Some root \<Rightarrow> extract_java (env\<lparr>fe_src := java_source tr\<rparr>) root);
          ns = map (page_node ls pages (snd (class_identity (fe_file env))) (fe_sha env)) (b_nodes java);
          ns' = (if list_ex (\<lambda>n. n_label n = ''File'') ns then ns else ns @ [page_file_node env pages]);
          file_id = code_id env (fe_file env) ''file''
      in from_extractor ns' (map (page_edge ls) (b_edges java))
           (map (page_ref ls) (filter (\<lambda>r. r_recv r \<noteq> OUT_SENTINEL) (b_refs java))
            @ el_refs env tr ns' @ include_refs env tr file_id @ script_refs env tr file_id))"

end
