(* ===== verification/JspProps.thy ===== *)
theory JspProps
  imports Jsp
begin

text \<open>
  What the extraction of a page returns: a consistent bundle that always has the page, whatever the
  parser does; the map from the lines of the unit to those of the page, complete and exact on the
  code of the page; and where the translation loses something.
\<close>

section \<open>Lines of a text\<close>

lemma length_split_lines: "length (split_on CHR 0x0A s) = Suc (newlines s)"
  by (induction s) (auto simp: newlines_def split: list.splits)

lemma newlines_append [simp]: "newlines (a @ b) = newlines a + newlines b"
  by (simp add: newlines_def)

lemma split_prefix: "j < length (split_on c a) \<Longrightarrow> prefix (split_on c a ! j) (split_on c (a @ b) ! j)"
proof (induction a arbitrary: j)
  case (Cons x a)
  obtain y ys where y: "split_on c a = y # ys" using split_on_nonempty [of c a] by (cases "split_on c a") auto
  obtain z zs where z: "split_on c (a @ b) = z # zs" using split_on_nonempty [of c "a @ b"] by (cases "split_on c (a @ b)") auto
  show ?case
    using Cons.prems Cons.IH [of j] Cons.IH [of "j - 1"] by (cases j) (auto simp: y z split: if_splits)
qed (cases "split_on c b", auto)

lemma split_suffix: "j < length (split_on CHR 0x0A b) \<Longrightarrow>
  suffix (split_on CHR 0x0A b ! j) (split_on CHR 0x0A (a @ b) ! (newlines a + j))"
proof (induction a)
  case (Cons x a)
  obtain z zs where z: "split_on CHR 0x0A (a @ b) = z # zs" using split_on_nonempty [of "CHR 0x0A" "a @ b"]
    by (cases "split_on CHR 0x0A (a @ b)") auto
  show ?case
    using Cons by (cases "newlines a + j") (auto simp: z newlines_def suffix_Cons)
qed (simp add: newlines_def)

lemma line_inside:
  assumes "j < length (split_on CHR 0x0A body)"
  shows "sublist (split_on CHR 0x0A body ! j) (split_on CHR 0x0A (pre @ body @ post) ! (newlines pre + j))"
proof -
  have "j < length (split_on CHR 0x0A (body @ post))" using assms by (simp add: length_split_lines)
  then have "suffix (split_on CHR 0x0A (body @ post) ! j) (split_on CHR 0x0A (pre @ body @ post) ! (newlines pre + j))"
    by (rule split_suffix)
  then show ?thesis
    using split_prefix [OF assms, of post]
    by (meson prefix_imp_sublist sublist_order.order_trans suffix_imp_sublist)
qed

section \<open>Segments are parts of the page\<close>

lemma best_segment_at: "best_segment s = Some ((kd, opener, closer), start) \<Longrightarrow> take (length opener) (drop start s) = opener"
proof -
  have "fold (nearer s) segs best = Some (x, k) \<Longrightarrow> (\<forall>y j. best = Some (y, j) \<longrightarrow> find_str (fst (snd y)) s = Some j)
      \<Longrightarrow> find_str (fst (snd x)) s = Some k" for segs best x k
  proof (induction segs arbitrary: best)
    case (Cons seg segs)
    have "\<forall>y j. nearer s seg best = Some (y, j) \<longrightarrow> find_str (fst (snd y)) s = Some j"
      using Cons.prems(2) by (auto simp: nearer_def split: option.splits if_splits)
    with Cons show ?case by simp
  qed simp
  then show "best_segment s = Some ((kd, opener, closer), start) \<Longrightarrow> ?thesis"
    unfolding best_segment_def by (fastforce dest: find_str_at)
qed

lemma scan_from_none: "s = [] \<or> best_segment s = None \<Longrightarrow> scan_from line s = []"
  by (auto simp: scan_from.simps [of line s])

lemma scan_from_some:
  assumes "s \<noteq> []" "best_segment s = Some ((kd, opener, closer), start)"
    "n = body_length closer (drop (start + length opener) s)" "span = length opener + n + length closer"
  shows "scan_from line s =
    (if kd \<noteq> Comment then [(kd, take n (drop (start + length opener) s), line + newlines (take start s) + newlines opener)] else [])
    @ scan_from (line + newlines (take start s) + newlines (take span (drop start s))) (drop (start + span) s)"
  using assms by (simp add: scan_from.simps [of line s] Let_def)

lemma scan_from_place:
  "(kind, body, l) \<in> set (scan_from line s) \<Longrightarrow> \<exists>pre post. s = pre @ body @ post \<and> l = line + newlines pre"
proof (induction line s rule: scan_from.induct)
  case (1 line s)
  show ?case
  proof (cases "s = [] \<or> best_segment s = None")
    case True
    with "1.prems" show ?thesis by (simp add: scan_from_none)
  next
    case False
    then obtain kd opener closer start where best: "s \<noteq> []" "best_segment s = Some ((kd, opener, closer), start)" by fastforce
    define n where "n = body_length closer (drop (start + length opener) s)"
    define span where "span = length opener + n + length closer"
    have opens: "take (start + length opener) s = take start s @ opener"
      by (simp add: take_add best_segment_at [OF best(2)])
    have page: "s = (take start s @ opener) @ drop (start + length opener) s"
      unfolding opens [symmetric] by simp
    have jump: "s = take (start + span) s @ drop (start + span) s" by simp
    have lines: "newlines (take start s) + newlines (take span (drop start s)) = newlines (take (start + span) s)"
      by (simp add: take_add)
    consider "body = take n (drop (start + length opener) s)" "l = line + newlines (take start s) + newlines opener"
      | "(kind, body, l) \<in> set (scan_from (line + newlines (take start s) + newlines (take span (drop start s))) (drop (start + span) s))"
      using "1.prems" unfolding scan_from_some [OF best n_def span_def] by (auto split: if_splits)
    then show ?thesis
    proof cases
      case here: 1
      then have "s = (take start s @ opener) @ body @ drop n (drop (start + length opener) s)"
        using page by (metis append_take_drop_id)
      moreover have "l = line + newlines (take start s @ opener)" using here(2) by simp
      ultimately show ?thesis by blast
    next
      case later: 2
      obtain pre post where "drop (start + span) s = pre @ body @ post"
        "l = line + newlines (take start s) + newlines (take span (drop start s)) + newlines pre"
        using "1.IH" [OF best refl refl refl refl refl refl refl, folded n_def span_def, OF later] by blast
      then have "s = (take (start + span) s @ pre) @ body @ post" "l = line + newlines (take (start + span) s @ pre)"
        using jump lines by simp_all
      then show ?thesis by blast
    qed
  qed
qed

section \<open>The map of lines\<close>

lemma place_lines_nth: "(c, l) \<in> set (place_lines l0 cs) \<Longrightarrow> \<exists>j < length cs. c = cs ! j \<and> l = max 1 (l0 + j)"
proof (induction l0 cs rule: place_lines.induct)
  case (2 l0 c' cs)
  then consider "c = c'" "l = max 1 l0" | j where "j < length cs" "c = cs ! j" "l = max 1 (Suc l0 + j)" by auto
  then show ?case
  proof cases
    case 1
    then show ?thesis by (intro exI [of _ 0]) simp
  next
    case (2 j)
    then show ?thesis by (intro exI [of _ "Suc j"]) simp
  qed
qed simp

definition page_line :: "string \<Rightarrow> nat \<Rightarrow> string" where
  "page_line source l = split_on CHR 0x0A source ! (l - 1)"

text \<open>A line of code of the unit: within the page, and text of the line it is mapped to.\<close>

definition on_page :: "string \<Rightarrow> located \<Rightarrow> bool" where
  "on_page source t \<longleftrightarrow> 1 \<le> snd t \<and> snd t \<le> newlines source + 1 \<and> sublist (fst t) (page_line source (snd t))"

lemma emit_on_page:
  assumes "(kind, raw, l) \<in> set (scan_page source)" "t \<in> set (emit_text (raw, l))"
  shows "on_page source t"
proof -
  from scan_from_place [OF assms(1) [unfolded scan_page_def]] obtain pre post
    where s: "source = pre @ raw @ post" "l = 1 + newlines pre" by blast
  obtain c m where t: "t = (c, m)" by (cases t)
  with assms(2) have "(c, m) \<in> set (place_lines l (split_on CHR 0x0A raw))" by (simp add: emit_text_def)
  then obtain j where j: "j < length (split_on CHR 0x0A raw)" "c = split_on CHR 0x0A raw ! j" "m = max 1 (l + j)"
    using place_lines_nth by blast
  then have "m - 1 = newlines pre + j" "m \<le> newlines source + 1" "1 \<le> m" using s by (simp_all add: length_split_lines)
  with j(1,2) show ?thesis
    unfolding on_page_def page_line_def t using line_inside [OF j(1), of pre post] s(1) by simp
qed

lemma emit_positive: "list_all (\<lambda>t. 1 \<le> snd t) (concat (map emit_text ts))"
proof -
  have "1 \<le> l" if "(c, l) \<in> set (place_lines l0 cs)" for c l l0 cs
    using place_lines_nth [OF that] by auto
  then show ?thesis by (fastforce simp: list_all_iff emit_text_def)
qed

lemma probe_line_map: "ls \<noteq> [] \<Longrightarrow> length ls \<le> k \<Longrightarrow> probe_down (line_map ls) k = Some (snd (last ls))"
proof (induction k)
  case (Suc k)
  show ?case
  proof (cases "length ls \<le> k")
    case True
    with Suc show ?thesis by (simp add: line_map_def)
  next
    case False
    with Suc.prems have "length ls = Suc k" by simp
    with Suc.prems(1) show ?thesis by (simp add: line_map_def last_conv_nth)
  qed
qed simp

lemma remap_exact:
  assumes "ls \<noteq> []"
  shows "remap_line ls (int (Suc k)) fb = int (snd (ls ! min k (length ls - 1)))"
proof (cases "k < length ls")
  case True
  then show ?thesis by (auto simp: remap_line_def line_map_def min_def nat_add_distrib)
next
  case False
  have "line_map ls (nat (int (Suc k))) = None" using False by (simp add: line_map_def del: of_nat_Suc)
  moreover have "probe_down (line_map ls) (nat (int (Suc k) - 1)) = Some (snd (last ls))"
    using False by (simp add: probe_line_map [OF assms])
  moreover have "min k (length ls - 1) = length ls - 1" using False by simp
  ultimately show ?thesis
    using assms by (simp add: remap_line_def last_conv_nth del: of_nat_Suc)
qed

lemma unit_lines_nonempty: "tr_lines (translate source relpath) \<noteq> []"
proof -
  have "emit_text t \<noteq> []" for t
    using split_on_nonempty [of "CHR 0x0A" "fst t"] by (cases "split_on CHR 0x0A (fst t)") (auto simp: emit_text_def)
  then show ?thesis by (auto simp: translate_def unit_texts_def Let_def)
qed

text \<open>C8: the map from the lines of the generated unit to those of the page is complete and exact on the code of
  the page: every line of a declaration or scriptlet is text of the page line it is mapped to, the code
  stands in the unit in the order of the page, every line of the unit has an entry, and a position
  past the end gets that of the last line.\<close>

theorem jsp_lines_exact:
  "list_all (\<lambda>(kind, raw, l). list_all (on_page source) (emit_text (raw, l))) (scan_page source)
   \<and> sublist (concat (map emit_text (concat (map declared_code (scan_page source))))) (tr_lines (translate source relpath))
   \<and> sublist (concat (map emit_text (concat (map body_code (scan_page source))))) (tr_lines (translate source relpath))
   \<and> list_all (\<lambda>t. 1 \<le> snd t) (tr_lines (translate source relpath))
   \<and> remap_line (tr_lines (translate source relpath)) (int (Suc k)) fb =
       int (snd (tr_lines (translate source relpath) ! min k (length (tr_lines (translate source relpath)) - 1)))"
proof (intro conjI)
  show "list_all (\<lambda>(kind, raw, l). list_all (on_page source) (emit_text (raw, l))) (scan_page source)"
    by (auto simp: list_all_iff intro: emit_on_page)
  have parts: "sublist b (a @ b @ c)" for a b c :: "located list" by (simp add: sublist_def) blast
  have unit: "tr_lines (translate source relpath) = concat (map emit_text (unit_texts (class_identity relpath) (scan_page source)
      (concat (map (action_beans source) (finditer JSP_ACTION_RE source)))))"
    by (simp add: translate_def Let_def)
  show "sublist (concat (map emit_text (concat (map declared_code (scan_page source))))) (tr_lines (translate source relpath))"
    unfolding unit unit_texts_def map_append concat_append by (metis parts append_assoc)
  show "sublist (concat (map emit_text (concat (map body_code (scan_page source))))) (tr_lines (translate source relpath))"
    unfolding unit unit_texts_def map_append concat_append by (metis parts append_assoc)
  show "list_all (\<lambda>t. 1 \<le> snd t) (tr_lines (translate source relpath))"
    unfolding unit by (rule emit_positive)
qed (rule remap_exact [OF unit_lines_nonempty])

section \<open>The bundle of a page\<close>

lemma page_node_same [simp]: "n_id (page_node ls p c sha n) = n_id n" "n_label (page_node ls p c sha n) = n_label n"
  by (simp_all add: page_node_def Let_def)

lemma page_edge_same [simp]: "e_type (page_edge ls e) = e_type e" "e_src (page_edge ls e) = e_src e" "e_dst (page_edge ls e) = e_dst e"
  by (simp_all add: page_edge_def)

lemma page_ref_same [simp]: "r_type (page_ref ls r) = r_type r" "r_src (page_ref ls r) = r_src r"
  by (simp_all add: page_ref_def)

lemma page_to_same [simp]: "r_type (page_to env t s g h l) = t" "r_src (page_to env t s g h l) = s"
  by (simp_all add: page_to_def mk_ref_def)

lemma found_in: "Some x = find p xs \<Longrightarrow> x \<in> set xs"
  by (induction xs) (auto split: if_splits)

lemma el_refs_from: "r \<in> set (el_refs env tr ns) \<Longrightarrow> r_type r = ''CALLS'' \<and> r_src r \<in> n_id ` set ns"
  by (auto simp: el_refs_def split: option.splits if_splits dest!: found_in)

lemma include_refs_from: "r \<in> set (include_refs env tr f) \<Longrightarrow> r_type r = ''INCLUDES_PAGE'' \<and> r_src r = f"
  by (auto simp: include_refs_def List.map_filter_def Let_def split: if_splits)

lemma script_refs_from: "r \<in> set (script_refs env tr f) \<Longrightarrow> r_type r = ''INCLUDES_SCRIPT'' \<and> r_src r = f"
  by (auto simp: script_refs_def)

text \<open>Nodes added and references kept, moved or added leave a bundle consistent.\<close>

lemma page_bundle_ok:
  assumes ok: "bundle_ok b" and ns: "list_all (\<lambda>n. n_label n \<in> NODE_LABELS) ns" "n_id ` set (b_nodes b) \<subseteq> n_id ` set ns"
    and rs: "\<And>r. r \<in> set rs \<Longrightarrow> r_type r \<in> EDGE_TYPES \<and> r_src r \<in> n_id ` set ns"
  shows "bundle_ok (from_extractor ns (map (page_edge ls) (b_edges b)) (map (page_ref ls) (filter p (b_refs b)) @ rs))"
  using assms by (fastforce simp: bundle_ok_def from_extractor_def fits_def list_all_iff)

text \<open>Whatever the parser returns, and also when it raises, the bundle of a page is consistent and has the
  node of the page, from which its links to pages and scripts start.\<close>

theorem extract_jsp_consistent:
  "bundle_ok (extract_jsp parse env)
   \<and> code_id env (fe_file env) ''file'' \<in> n_id ` set (b_nodes (extract_jsp parse env))"
proof -
  let ?tr = "translate (fe_src env) (fe_file env)" and ?f = "code_id env (fe_file env) ''file''"
  define java where "java = (case parse (java_source ?tr) of None \<Rightarrow> from_extractor [] [] []
    | Some root \<Rightarrow> extract_java (env\<lparr>fe_src := java_source ?tr\<rparr>) root)"
  define ns where "ns = map (page_node (tr_lines ?tr) (int (newlines (fe_src env)) + 1) (snd (class_identity (fe_file env))) (fe_sha env)) (b_nodes java)"
  define ns' where "ns' = (if list_ex (\<lambda>n. n_label n = ''File'') ns then ns else ns @ [page_file_node env (int (newlines (fe_src env)) + 1)])"
  have ex: "extract_jsp parse env = from_extractor ns' (map (page_edge (tr_lines ?tr)) (b_edges java))
      (map (page_ref (tr_lines ?tr)) (filter (\<lambda>r. r_recv r \<noteq> OUT_SENTINEL) (b_refs java))
       @ el_refs env ?tr ns' @ include_refs env ?tr ?f @ script_refs env ?tr ?f)"
    by (simp add: extract_jsp_def Let_def java_def ns_def ns'_def)
  have ok: "bundle_ok java"
  proof (cases "parse (java_source ?tr)")
    case None
    then show ?thesis by (simp add: java_def bundle_ok_def from_extractor_def)
  next
    case (Some root)
    then show ?thesis using java_bundle_ok by (simp add: java_def)
  qed
  have at: "n_id (page_file_node env p) = ?f" "n_label (page_file_node env p) = ''File''" for p
    by (simp_all add: page_file_node_def mk_node_def)
  have ids: "n_id ` set ns = n_id ` set (b_nodes java)" by (simp add: ns_def image_image)
  have "?f \<in> n_id ` set ns" if "list_ex (\<lambda>n. n_label n = ''File'') ns"
  proof (cases "parse (java_source ?tr)")
    case None
    with that show ?thesis by (simp add: ns_def java_def from_extractor_def)
  next
    case (Some root)
    then show ?thesis
      using java_file_in [of "env\<lparr>fe_src := java_source ?tr\<rparr>" root] unfolding ids by (simp add: java_def code_id_def)
  qed
  then have f: "?f \<in> n_id ` set ns'" using at by (auto simp: ns'_def)
  have labels: "list_all (\<lambda>n. n_label n \<in> NODE_LABELS) ns'"
    using ok by (auto simp: ns'_def ns_def bundle_ok_def list_all_iff at)
  have sub: "n_id ` set (b_nodes java) \<subseteq> n_id ` set ns'" unfolding ids [symmetric] by (auto simp: ns'_def)
  have "bundle_ok (extract_jsp parse env)"
    unfolding ex by (rule page_bundle_ok [OF ok labels sub])
      (auto simp: EDGE_TYPES_def f dest!: el_refs_from include_refs_from script_refs_from)
  with f show ?thesis by (simp add: ex from_extractor_def)
qed

section \<open>Where the translation falls short\<close>

text \<open>An expression that holds a semicolon, as in a string literal, is left out; one whose text begins on a later
  line than its opening is moved to the line of the opening.\<close>

lemma expression_with_semicolon: "body_code (Expression, ''f('' @ [CHR 0x22] @ '';'' @ [CHR 0x22] @ '')'', l) = []"
proof -
  have "py_strip (''f('' @ [CHR 0x22] @ '';'' @ [CHR 0x22] @ '')'') = ''f('' @ [CHR 0x22] @ '';'' @ [CHR 0x22] @ '')''" by code_simp
  then show ?thesis by (simp add: body_code_def del: append.simps)
qed

lemma expression_moved_up: "body_code (Expression, CHR 0x0A # ''f()'', l) = [(''_jspx_out.print(f());'', l)]"
proof -
  have "py_strip (CHR 0x0A # ''f()'') = ''f()''" by code_simp
  then show ?thesis by (simp add: body_code_def OUT_SENTINEL_def)
qed

end
