(* ===== verification/PySyntax.thy ===== *)
theory PySyntax
  imports SyntaxTree Regex
begin

text \<open>
  What the Python extractor reads off a syntax tree (\<open>graph_core/extractors/python.py\<close>): names, parameters,
  annotations, strings, routes, outbound calls, events and policies.  Each definition is the function of
  that name; \<open>src\<close> is the text of the file.  Letters and digits are the ASCII ones.
\<close>

section \<open>Names of the frameworks\<close>

definition LOCK_CALL_NAMES :: "string list" where
  "LOCK_CALL_NAMES = [''Lock'', ''RLock'', ''Semaphore'', ''BoundedSemaphore'', ''Condition'']"

definition HTTP_METHODS :: "string list" where
  "HTTP_METHODS = [''get'', ''post'', ''put'', ''delete'', ''patch'', ''head'', ''options'']"

definition HTTP_CLIENT_RECEIVERS :: "string list" where
  "HTTP_CLIENT_RECEIVERS = [''requests'', ''httpx'', ''session'', ''client'', ''http'', ''aiohttp'', ''urllib3'', ''session_'']"

definition AUTH_REQUIRE_DECORATORS :: "string list" where
  "AUTH_REQUIRE_DECORATORS = [''login_required'', ''requires_auth'', ''auth_required'', ''authenticated'', ''jwt_required'', ''token_required'']"

definition POLICY_DECORATOR_TOKENS :: "string list" where
  "POLICY_DECORATOR_TOKENS = [''preauthorize'', ''roles_allowed'', ''permissions_required'', ''require_permission'', ''require_role'',
     ''policy'', ''permission_required'', ''roles_required'', ''roles_accepted'']"

definition EVENT_CONSUMER_DECORATORS :: "string list" where
  "EVENT_CONSUMER_DECORATORS = [''kafka_listener'', ''rabbit_listener'', ''subscriber'', ''subscribe'', ''consumer'', ''event_handler'',
     ''sqs_listener'', ''jms_listener'']"

definition EVENT_EMIT_CALLS_STRONG :: "string list" where
  "EVENT_EMIT_CALLS_STRONG = [''emit'', ''publish'', ''produce'', ''send_event'', ''publish_event'', ''dispatch_event'']"

definition EVENT_EMIT_CALLS_GENERIC :: "string list" where
  "EVENT_EMIT_CALLS_GENERIC = [''send'', ''dispatch'']"

definition EVENT_CONSUME_CALLS_STRONG :: "string list" where
  "EVENT_CONSUME_CALLS_STRONG = [''subscribe'', ''consume'', ''add_listener'']"

definition EVENT_CONSUME_CALLS_GENERIC :: "string list" where
  "EVENT_CONSUME_CALLS_GENERIC = [''listen'', ''on'']"

definition EVENT_RECEIVER_HINTS :: "string list" where
  "EVENT_RECEIVER_HINTS = [''bus'', ''broker'', ''producer'', ''consumer'', ''emitter'', ''events'', ''event_bus'', ''kafka'', ''queue'',
     ''topic'', ''pubsub'', ''publisher'', ''channel'']"

section \<open>The scope of a definition\<close>

text \<open>\<open>_scope_walk\<close>, the nodes of a block outside nested definitions, each with its parent.  The list is the
  stack, its top first.\<close>

definition is_definition :: "tree \<Rightarrow> bool" where
  "is_definition t = (t_type t \<in> set [''function_definition'', ''class_definition'', ''decorated_definition''])"

function scope_stack :: "(tree \<times> tree) list \<Rightarrow> (tree \<times> tree) list" where
  "scope_stack [] = []"
| "scope_stack ((p, cur) # stack) =
     (if is_definition cur then scope_stack stack
      else (p, cur) # scope_stack (map (\<lambda>c. (cur, c)) (t_children cur) @ stack))"
  by pat_completeness auto

termination
proof (relation "measure (size_list (\<lambda>x. size (snd x)))", goal_cases)
  case (3 p cur stack)
  then show ?case by (cases cur) (simp add: comp_def)
qed simp_all

definition scope_pairs :: "tree \<Rightarrow> (tree \<times> tree) list" where
  "scope_pairs block = scope_stack (map (\<lambda>c. (block, c)) (t_children block))"

definition scope_walk :: "tree \<Rightarrow> tree list" where
  "scope_walk block = map snd (scope_pairs block)"

section \<open>Names\<close>

fun dotted_tail :: "string \<Rightarrow> tree \<Rightarrow> string" where
  "dotted_tail src t =
     (if t_type t = ''identifier'' then node_text src t
      else if t_type t = ''attribute'' then or_none (field_text src t ''attribute'')
      else if has_type [''dotted_name'', ''aliased_import'', ''scoped_identifier''] t
      then (let ids = filter (has_type [''identifier'', ''dotted_name'']) (t_children t)
            in if ids \<noteq> [] then node_text src (last ids) else node_text src t)
      else if t_type t = ''call'' then (case child_by_field t ''function'' of None \<Rightarrow> [] | Some fn \<Rightarrow> dotted_tail src fn)
      else py_strip (node_text src t))"

declare dotted_tail.simps [simp del]

definition py_visibility :: "string \<Rightarrow> string" where
  "py_visibility nm =
     (if py_startswith nm ''__'' \<and> \<not> py_endswith nm ''__'' then ''private''
      else if py_startswith nm ''_'' \<and> \<not> py_endswith nm ''__'' then ''protected'' else ''public'')"

definition is_lock_call :: "string \<Rightarrow> tree option \<Rightarrow> bool" where
  "is_lock_call src rhs = (case rhs of None \<Rightarrow> False
     | Some r \<Rightarrow> t_type r = ''call'' \<and>
         (case child_by_field r ''function'' of None \<Rightarrow> False | Some fn \<Rightarrow> dotted_tail src fn \<in> set LOCK_CALL_NAMES))"

text \<open>The leftmost identifier of a chain of subscripts and attributes.\<close>

fun base_ident_node :: "tree \<Rightarrow> tree option" where
  "base_ident_node n =
     (if has_type [''subscript'', ''attribute''] n
      then (case child_by_field n (if t_type n = ''subscript'' then ''value'' else ''object'') of None \<Rightarrow> None
            | Some m \<Rightarrow> base_ident_node m)
      else if t_type n = ''identifier'' then Some n else None)"

declare base_ident_node.simps [simp del]

definition fills :: "tree \<Rightarrow> string \<Rightarrow> tree \<Rightarrow> bool" where
  "fills p f n = (case child_by_field p f of None \<Rightarrow> False | Some c \<Rightarrow> t_id c = t_id n)"

definition is_attr_or_kwarg_name :: "tree \<Rightarrow> tree \<Rightarrow> bool" where
  "is_attr_or_kwarg_name p n =
     (t_type p = ''attribute'' \<and> fills p ''attribute'' n
      \<or> t_type p = ''keyword_argument'' \<and> fills p ''name'' n
      \<or> has_type [''global_statement'', ''nonlocal_statement''] p)"

definition is_identifier_text :: "string \<Rightarrow> bool" where
  "is_identifier_text s = (s \<noteq> [] \<and> \<not> is_digit (hd s) \<and> list_all is_word s)"

definition triple :: "char \<Rightarrow> string" where
  "triple c = [c, c, c]"

fun strip_quotes_with :: "string list \<Rightarrow> string \<Rightarrow> string" where
  "strip_quotes_with [] s = py_strip s"
| "strip_quotes_with (q # qs) s =
     (if py_startswith s q \<and> py_endswith s q \<and> length s \<ge> 2 * length q
      then py_strip (take (length s - 2 * length q) (drop (length q) s)) else strip_quotes_with qs s)"

definition strip_quotes :: "string \<Rightarrow> string" where
  "strip_quotes s = strip_quotes_with [triple CHR 0x22, triple CHR 0x27, [CHR 0x22], [CHR 0x27]] s"

text \<open>\<open>_collect_type_names\<close>.\<close>

fun collect_type_names :: "string \<Rightarrow> tree \<Rightarrow> string list" where
  "collect_type_names src n =
     (if t_type n = ''identifier'' then [node_text src n]
      else if t_type n = ''attribute'' then (let tail = dotted_tail src n in if tail \<noteq> [] then [tail] else [])
      else if t_type n = ''string'' then (let s = strip_quotes (node_text src n) in if s \<noteq> [] \<and> is_identifier_text s then [s] else [])
      else concat (map (collect_type_names src) (t_children n)))"

declare collect_type_names.simps [simp del]

definition is_async :: "tree \<Rightarrow> bool" where
  "is_async n = list_ex (\<lambda>c. t_type c = ''async'') (t_children n)"

section \<open>Parameters and documentation\<close>

definition first_is_selfish :: "string \<Rightarrow> tree \<Rightarrow> bool" where
  "first_is_selfish src n = (py_strip (before_first CHR ''='' (before_first CHR '':'' (node_text src n))) \<in> set [''self'', ''cls''])"

definition parameter_kinds :: "string list" where
  "parameter_kinds = [''identifier'', ''typed_parameter'', ''default_parameter'', ''typed_default_parameter'', ''list_splat_pattern'',
     ''dictionary_splat_pattern'']"

definition formal_params :: "string \<Rightarrow> tree option \<Rightarrow> bool \<Rightarrow> tree list" where
  "formal_params src ps in_class = (case ps of None \<Rightarrow> []
     | Some p \<Rightarrow> let cs = filter (has_type parameter_kinds) (t_children p)
         in if in_class \<and> cs \<noteq> [] \<and> first_is_selfish src (hd cs) then tl cs else cs)"

definition py_param_count :: "string \<Rightarrow> tree option \<Rightarrow> bool \<Rightarrow> int" where
  "py_param_count src ps in_class = int (length (formal_params src ps in_class))"

definition splat_inner :: "string \<Rightarrow> tree \<Rightarrow> string" where
  "splat_inner src n = (case find (\<lambda>c. t_type c = ''identifier'') (t_children n) of None \<Rightarrow> [] | Some c \<Rightarrow> node_text src c)"

definition plain_param :: "string \<Rightarrow> tree \<Rightarrow> string option" where
  "plain_param src p =
     (if t_type p = ''identifier'' then Some (node_text src p)
      else if t_type p = ''list_splat_pattern'' then Some (''*'' @ splat_inner src p)
      else if t_type p = ''dictionary_splat_pattern'' then Some (''**'' @ splat_inner src p) else None)"

definition py_param_name :: "string \<Rightarrow> tree \<Rightarrow> string" where
  "py_param_name src p =
     (case plain_param src p of Some nm \<Rightarrow> nm
      | None \<Rightarrow> if t_type p = ''typed_parameter'' then last_or [] (List.map_filter (plain_param src) (t_children p))
          else or_none (field_text src p ''name''))"

definition py_param_type :: "string \<Rightarrow> tree \<Rightarrow> string" where
  "py_param_type src p =
     (if has_type [''typed_parameter'', ''default_parameter'', ''typed_default_parameter''] p
      then py_strip (or_none (field_text src p ''type'')) else [])"

definition py_params :: "string \<Rightarrow> tree option \<Rightarrow> bool \<Rightarrow> (string \<times> string) list" where
  "py_params src ps in_class =
     filter (\<lambda>x. fst x \<noteq> []) (map (\<lambda>p. (py_param_name src p, py_param_type src p)) (formal_params src ps in_class))"

fun docstring_in :: "string \<Rightarrow> tree list \<Rightarrow> string" where
  "docstring_in src [] = []"
| "docstring_in src (c # cs) =
     (if t_type c = ''expression_statement'' \<and> t_children c \<noteq> [] \<and> t_type (hd (t_children c)) = ''string''
      then take 500 (strip_quotes (node_text src (hd (t_children c))))
      else if t_type c \<noteq> ''comment'' then [] else docstring_in src cs)"

definition py_docstring :: "string \<Rightarrow> tree \<Rightarrow> string" where
  "py_docstring src n = (case child_by_field n ''body'' of None \<Rightarrow> [] | Some b \<Rightarrow> docstring_in src (t_children b))"

definition has_abc_base :: "string \<Rightarrow> tree \<Rightarrow> bool" where
  "has_abc_base src n = (case field_text src n ''superclasses'' of None \<Rightarrow> False | Some s \<Rightarrow> sublist ''ABC'' s \<or> sublist ''ABCMeta'' s)"

section \<open>Attributes of the receiver\<close>

definition self_attr_name :: "string \<Rightarrow> tree \<Rightarrow> string" where
  "self_attr_name src n =
     (if t_type n \<noteq> ''attribute'' then []
      else case child_by_field n ''object'' of None \<Rightarrow> []
        | Some obj \<Rightarrow> if t_type obj \<noteq> ''identifier'' \<or> node_text src obj \<notin> set [''self'', ''cls''] then []
            else or_none (field_text src n ''attribute''))"

definition tuple_types :: "string list" where
  "tuple_types = [''pattern_list'', ''tuple'', ''tuple_pattern'', ''list_pattern'']"

definition assign_targets :: "string \<Rightarrow> tree \<Rightarrow> tree list" where
  "assign_targets src left =
     (if t_type left = ''attribute'' \<and> self_attr_name src left \<noteq> [] then [left]
      else if has_type tuple_types left
      then filter (\<lambda>c. t_type c = ''attribute'' \<and> self_attr_name src c \<noteq> []) (t_children left) else [])"

definition py_receiver :: "string \<Rightarrow> tree \<Rightarrow> string" where
  "py_receiver src fn = (if t_type fn \<noteq> ''attribute'' then []
     else case child_by_field fn ''object'' of None \<Rightarrow> [] | Some obj \<Rightarrow> dotted_tail src obj)"

section \<open>Arguments\<close>

definition py_call_arity :: "tree \<Rightarrow> int" where
  "py_call_arity call = (case child_by_field call ''arguments'' of None \<Rightarrow> -1
     | Some a \<Rightarrow> int (length (filter (\<lambda>c. \<not> has_type [''('', '')'', '',''] c) (t_children a))))"

definition py_quote :: "char \<Rightarrow> bool" where
  "py_quote c = (c = CHR 0x27 \<or> c = CHR 0x22)"

definition string_text :: "string \<Rightarrow> tree \<Rightarrow> string" where
  "string_text src n =
     (if t_type n \<noteq> ''string'' then []
      else case find (\<lambda>c. t_type c = ''string_content'') (t_children n) of Some c \<Rightarrow> node_text src c
        | None \<Rightarrow> strip_where py_quote (node_text src n))"

definition positional_args :: "tree \<Rightarrow> tree list" where
  "positional_args call = (case child_by_field call ''arguments'' of None \<Rightarrow> []
     | Some a \<Rightarrow> filter (\<lambda>c. \<not> has_type [''('', '')'', '','', ''keyword_argument'', ''comment''] c) (t_children a))"

definition string_arg :: "string \<Rightarrow> tree \<Rightarrow> nat \<Rightarrow> string" where
  "string_arg src call i =
     (let ps = positional_args call in if i < length ps \<and> t_type (ps ! i) = ''string'' then string_text src (ps ! i) else [])"

definition methods_kwarg :: "string \<Rightarrow> tree \<Rightarrow> string list" where
  "methods_kwarg src call = (case child_by_field call ''arguments'' of None \<Rightarrow> []
     | Some a \<Rightarrow> concat (map (\<lambda>c.
         if t_type c \<noteq> ''keyword_argument'' then []
         else case (child_by_field c ''name'', child_by_field c ''value'') of
           (Some nm, Some v) \<Rightarrow>
             if node_text src nm \<noteq> ''methods'' then []
             else filter (\<lambda>m. m \<in> set HTTP_METHODS) (map (\<lambda>el. py_lower (string_text src el)) (filter (\<lambda>el. t_type el = ''string'') (t_children v)))
         | _ \<Rightarrow> []) (t_children a)))"

section \<open>Decorators\<close>

text \<open>The expression of a decorator is its second child.\<close>

definition decorator_expr :: "tree \<Rightarrow> tree option" where
  "decorator_expr d = (if length (t_children d) > 1 then Some (t_children d ! 1) else None)"

definition decorator_call :: "tree \<Rightarrow> tree option" where
  "decorator_call d = (case decorator_expr d of None \<Rightarrow> None | Some e \<Rightarrow> if t_type e = ''call'' then Some e else None)"

definition decorators_of :: "string \<Rightarrow> tree \<Rightarrow> (string \<times> tree) list" where
  "decorators_of src stmt = List.map_filter (\<lambda>c. case decorator_expr c of None \<Rightarrow> None
     | Some e \<Rightarrow> if dotted_tail src e = [] then None else Some (dotted_tail src e, c))
     (filter (\<lambda>c. t_type c = ''decorator'') (t_children stmt))"

definition endpoint_specs :: "string \<Rightarrow> tree \<Rightarrow> (string \<times> string) list" where
  "endpoint_specs src d = (case decorator_call d of None \<Rightarrow> []
     | Some e \<Rightarrow> (case child_by_field e ''function'' of None \<Rightarrow> []
        | Some fn \<Rightarrow>
            let tail = dotted_tail src fn; route = string_arg src e 0 in
            if t_type fn \<noteq> ''attribute'' \<or> route = [] then []
            else if tail \<in> set HTTP_METHODS then [(py_upper tail, route)]
            else if tail \<in> set [''route'', ''api_route'']
            then map (\<lambda>m. (py_upper m, route)) (let ms = methods_kwarg src e in if ms = [] then [''get''] else ms) else []))"

definition decorator_policy_target :: "string \<Rightarrow> tree \<Rightarrow> string" where
  "decorator_policy_target src d = (case decorator_call d of None \<Rightarrow> [] | Some e \<Rightarrow> py_strip (string_arg src e 0))"

definition decorator_target :: "string \<Rightarrow> string \<Rightarrow> tree \<Rightarrow> string" where
  "decorator_target dname src d =
     (let t = decorator_policy_target src d in if t \<noteq> [] then t else if dname \<noteq> [] then dname else ''POLICY'')"

definition py_policy_words :: "string list" where
  "py_policy_words = [''role'', ''permission'', ''policy'', ''scope'']"

definition auth_specs :: "string \<Rightarrow> string \<Rightarrow> tree \<Rightarrow> (string \<times> string \<times> bool) list" where
  "auth_specs dname src d =
     (let low = py_lower dname in
      (if low \<in> set AUTH_REQUIRE_DECORATORS then [(''REQUIRES_AUTH'', ''AUTH_REQUIRED'', False)]
       else if sublist ''auth'' low then [(''REQUIRES_AUTH'', ''AUTH_REQUIRED'', True)] else [])
      @ (if low \<in> set POLICY_DECORATOR_TOKENS then [(''ENFORCES_POLICY'', decorator_target dname src d, False)]
         else if list_ex (\<lambda>w. sublist w low) py_policy_words then [(''ENFORCES_POLICY'', decorator_target dname src d, True)] else []))"

definition event_consumer_topic :: "string \<Rightarrow> string \<Rightarrow> tree \<Rightarrow> string \<times> bool" where
  "event_consumer_topic dname src d =
     (let low = py_lower dname; known = low \<in> set EVENT_CONSUMER_DECORATORS in
      if \<not> known \<and> \<not> sublist ''listener'' low \<and> \<not> sublist ''consumer'' low then ([], False)
      else case decorator_call d of None \<Rightarrow> ([], False) | Some e \<Rightarrow> (py_strip (string_arg src e 0), \<not> known))"

section \<open>Calls\<close>

definition looks_like_http :: "string \<Rightarrow> bool" where
  "looks_like_http s = (py_startswith s ''/'' \<or> py_startswith s ''http://'' \<or> py_startswith s ''https://'')"

definition http_call :: "string \<Rightarrow> string \<Rightarrow> (string \<times> string) option" where
  "http_call verb url = (if url \<noteq> [] \<and> looks_like_http url then Some (verb, url) else None)"

definition outbound_call :: "string \<Rightarrow> tree \<Rightarrow> (string \<times> string) option" where
  "outbound_call src call = (case child_by_field call ''function'' of None \<Rightarrow> None
     | Some fn \<Rightarrow>
         if t_type fn = ''identifier'' \<and> node_text src fn = ''urlopen'' then http_call ''GET'' (string_arg src call 0)
         else if t_type fn \<noteq> ''attribute'' \<or> py_receiver src fn \<notin> set HTTP_CLIENT_RECEIVERS then None
         else if dotted_tail src fn \<in> set HTTP_METHODS then http_call (py_upper (dotted_tail src fn)) (string_arg src call 0)
         else if dotted_tail src fn = ''request''
         then (if string_arg src call 0 = [] then None else http_call (py_upper (string_arg src call 0)) (string_arg src call 1))
         else None)"

definition py_event :: "string list \<Rightarrow> string list \<Rightarrow> string \<Rightarrow> tree \<Rightarrow> string \<times> bool" where
  "py_event strong generic src call = (case child_by_field call ''function'' of None \<Rightarrow> ([], False)
     | Some fn \<Rightarrow>
         let tail = py_lower (dotted_tail src fn); topic = py_strip (string_arg src call 0) in
         if tail \<in> set strong then (topic, False)
         else if tail \<in> set generic
         then (if topic = [] then ([], False) else (topic, py_lower (py_receiver src fn) \<notin> set EVENT_RECEIVER_HINTS))
         else ([], False))"

definition outbound_event :: "string \<Rightarrow> tree \<Rightarrow> string \<times> bool" where
  "outbound_event = py_event EVENT_EMIT_CALLS_STRONG EVENT_EMIT_CALLS_GENERIC"

definition inbound_event :: "string \<Rightarrow> tree \<Rightarrow> string \<times> bool" where
  "inbound_event = py_event EVENT_CONSUME_CALLS_STRONG EVENT_CONSUME_CALLS_GENERIC"

text \<open>\<open>raw.split(" as ", 1)[0]\<close>: the text before the first occurrence.\<close>

fun before_str :: "string \<Rightarrow> string \<Rightarrow> string" where
  "before_str p [] = []"
| "before_str p (c # s) = (if py_startswith (c # s) p then [] else c # before_str p s)"

definition import_full_name :: "string \<Rightarrow> tree \<Rightarrow> string" where
  "import_full_name src n = (let raw = py_strip (node_text src n) in if sublist '' as '' raw then py_strip (before_str '' as '' raw) else raw)"

section \<open>Types of local names\<close>

definition inferred_type_name :: "string \<Rightarrow> tree \<Rightarrow> string" where
  "inferred_type_name src n =
     (if t_type n = ''call'' then (case child_by_field n ''function'' of None \<Rightarrow> [] | Some fn \<Rightarrow> dotted_tail src fn)
      else if has_type [''identifier'', ''attribute''] n then dotted_tail src n else [])"

definition local_binding :: "string \<Rightarrow> tree \<Rightarrow> (string \<times> string) option" where
  "local_binding src n =
     (let bound = (\<lambda>f g. case (child_by_field n ''left'', child_by_field n f) of
        (Some l, Some r) \<Rightarrow> if t_type l \<noteq> ''identifier'' \<or> node_text src l = [] \<or> g r = [] then None else Some (node_text src l, g r)
      | _ \<Rightarrow> None)
      in if t_type n = ''assignment'' then bound ''right'' (inferred_type_name src)
         else if t_type n = ''annotated_assignment'' then bound ''type'' (dotted_tail src) else None)"

definition local_receiver_types :: "string \<Rightarrow> tree \<Rightarrow> string \<rightharpoonup> string" where
  "local_receiver_types src body = map_of (rev (List.map_filter (local_binding src) (scope_walk body)))"

definition infer_receiver_type :: "string \<Rightarrow> tree \<Rightarrow> (string \<rightharpoonup> string) \<Rightarrow> string" where
  "infer_receiver_type src fn types =
     (if t_type fn \<noteq> ''attribute'' then []
      else case child_by_field fn ''object'' of None \<Rightarrow> []
        | Some obj \<Rightarrow> if t_type obj = ''identifier'' then or_none (types (node_text src obj)) else [])"

definition py_complexity :: "tree option \<Rightarrow> nat \<times> nat" where
  "py_complexity body = (case body of None \<Rightarrow> (0, 0)
     | Some b \<Rightarrow> (length (filter (has_type [''if_statement'', ''conditional_expression'', ''match_statement'', ''except_clause'']) (scope_walk b)),
                  length (filter (has_type [''for_statement'', ''while_statement'']) (scope_walk b))))"

end
