(* ===== verification/PyExtract.thy ===== *)
theory PyExtract
  imports PySyntax Extracted
begin

text \<open>
  The Python extractor (\<open>graph_core/extractors/python.py\<close>, \<open>extract\<close>): one definition for each of its nested
  functions.  Fields are created at their first mention, so the ids already created are passed along
  the walk.
\<close>

section \<open>Types, decorators and calls\<close>

definition py_type_refs :: "file_env \<Rightarrow> string \<Rightarrow> string \<Rightarrow> tree \<Rightarrow> raw_ref list" where
  "py_type_refs env primary s n = (case collect_type_names (fe_src env) n of [] \<Rightarrow> []
     | nm # args \<Rightarrow> code_ref env primary s nm ''type'' n # map (\<lambda>g. code_ref env ''HAS_GENERIC'' s g ''type'' n) args)"

definition py_policy_refs :: "file_env \<Rightarrow> string \<Rightarrow> string \<times> tree \<Rightarrow> raw_ref list" where
  "py_policy_refs env s d = map (\<lambda>(t, target, fz). (code_ref env t s target ''policy'' (snd d))\<lparr>r_strategy_hint := fuzzy fz\<rparr>)
     (auth_specs (fst d) (fe_src env) (snd d))"

definition decorator_refs :: "file_env \<Rightarrow> string \<Rightarrow> string \<times> tree \<Rightarrow> raw_ref list" where
  "decorator_refs env s d = code_ref env ''ANNOTATED_WITH'' s (fst d) ''annotation'' (snd d) # py_policy_refs env s d"

definition function_decorator :: "file_env \<Rightarrow> string \<Rightarrow> string \<times> tree \<Rightarrow> canonical_bundle" where
  "function_decorator env mid d = all_of
     [some_refs (decorator_refs env mid d @ event_refs env ''CONSUMES_EVENT'' mid (snd d) (event_consumer_topic (fst d) (fe_src env) (snd d))),
      all_of (map (emit_endpoint env ''python'' mid (snd d)) (endpoint_specs (fe_src env) (snd d)))]"

definition py_call_refs :: "file_env \<Rightarrow> string \<Rightarrow> (string \<rightharpoonup> string) \<Rightarrow> tree \<Rightarrow> raw_ref list" where
  "py_call_refs env mid types d = (case child_by_field d ''function'' of None \<Rightarrow> []
     | Some fn \<Rightarrow>
         (let callee = dotted_tail (fe_src env) fn in
          if callee = [] then []
          else [(code_ref env ''CALLS'' mid callee ''call'' fn)\<lparr>r_recv := py_receiver (fe_src env) fn, r_call_arity := py_call_arity d,
                  r_recv_type := infer_receiver_type (fe_src env) fn types\<rparr>])
         @ (case outbound_call (fe_src env) d of None \<Rightarrow> [] | Some (verb, url) \<Rightarrow> [api_call_ref env mid verb url fn])
         @ event_refs env ''EMITS_EVENT'' mid fn (outbound_event (fe_src env) d)
         @ event_refs env ''CONSUMES_EVENT'' mid fn (inbound_event (fe_src env) d))"

definition exception_refs :: "file_env \<Rightarrow> string \<Rightarrow> tree \<Rightarrow> raw_ref list" where
  "exception_refs env mid n =
     (if t_type n = ''raise_statement''
      then (case filter (\<lambda>c. \<not> has_type [''raise'', ''from''] c) (t_children n) of [] \<Rightarrow> []
            | c # cs \<Rightarrow> let nm = dotted_tail (fe_src env) c in if nm = [] then [] else [code_ref env ''THROWS'' mid nm ''type'' c])
      else if t_type n = ''except_clause''
      then (case filter (\<lambda>c. \<not> has_type [''except'', '':'', ''as'', ''block'', ''comment''] c) (t_children n) of [] \<Rightarrow> []
            | c # cs \<Rightarrow> map (\<lambda>nm. code_ref env ''CATCHES'' mid nm ''type'' c) (collect_type_names (fe_src env) c))
      else [])"

section \<open>Fields and state\<close>

definition py_field_node :: "file_env \<Rightarrow> string \<Rightarrow> string \<Rightarrow> string \<Rightarrow> string \<Rightarrow> tree \<Rightarrow> node" where
  "py_field_node env fqn nm kind scope n = (code_node env ''python'' (code_id env fqn ''field'') ''Field'' nm fqn kind n)
     \<lparr>n_visibility := py_visibility nm, n_scope := scope\<rparr>"

text \<open>The field an assignment declares: its node, with its annotation and whether it holds a lock.\<close>

definition assigned_field :: "file_env \<Rightarrow> string \<Rightarrow> string \<Rightarrow> string \<Rightarrow> string \<Rightarrow> string \<Rightarrow> tree \<Rightarrow> tree \<Rightarrow> string \<times> canonical_bundle" where
  "assigned_field env fqn nm kind scope container stmt c =
     (let f = (py_field_node env fqn nm kind scope stmt)
            \<lparr>n_is_lock := is_lock_call (fe_src env) (child_by_field c ''right''), n_return_type := or_none (field_text (fe_src env) c ''type'')\<rparr>
      in (n_id f, new_field env container stmt f (case child_by_field c ''type'' of None \<Rightarrow> [] | Some t \<Rightarrow> py_type_refs env ''OF_TYPE'' (n_id f) t)))"

text \<open>The name an assignment gives a value to, if it is one.\<close>

definition assigned_name :: "string \<Rightarrow> tree \<Rightarrow> string option" where
  "assigned_name src c =
     (if t_type c \<noteq> ''assignment'' then None
      else case child_by_field c ''left'' of None \<Rightarrow> None | Some l \<Rightarrow> if t_type l = ''identifier'' then Some (node_text src l) else None)"

definition maybe_field :: "file_env \<Rightarrow> string \<Rightarrow> string \<Rightarrow> tree \<Rightarrow> emitter" where
  "maybe_field env class_fqn class_id stmt = in_order (map (\<lambda>c. case assigned_name (fe_src env) c of None \<Rightarrow> just (all_of [])
     | Some nm \<Rightarrow> case_prod once (assigned_field env (class_fqn @ ''.'' @ nm) nm ''field'' ''class'' class_id stmt c)) (t_children stmt))"

definition ensure_field :: "file_env \<Rightarrow> string \<Rightarrow> string \<Rightarrow> string \<Rightarrow> tree \<Rightarrow> emitter" where
  "ensure_field env class_fqn class_id nm n =
     (let f = py_field_node env (class_fqn @ ''.'' @ nm) nm ''field'' ''class'' n in once (n_id f) (new_field env class_id n f []))"

definition is_assignment :: "tree \<Rightarrow> bool" where
  "is_assignment n = has_type [''assignment'', ''augmented_assignment''] n"

definition state_ref :: "file_env \<Rightarrow> string \<Rightarrow> string \<Rightarrow> string \<Rightarrow> tree \<Rightarrow> raw_ref" where
  "state_ref env t mid nm n = (code_ref env t mid nm ''field'' n)\<lparr>r_recv := ''self''\<rparr>"

definition written_targets :: "string \<Rightarrow> tree \<Rightarrow> tree list" where
  "written_targets src n =
     (if is_assignment n then (case child_by_field n ''left'' of None \<Rightarrow> [] | Some l \<Rightarrow> assign_targets src l) else [])"

text \<open>\<open>_emit_state\<close>: writes and reads of the fields of \<open>self\<close>.\<close>

definition emit_state :: "file_env \<Rightarrow> string \<Rightarrow> string \<Rightarrow> string \<Rightarrow> tree \<Rightarrow> emitter" where
  "emit_state env mid class_fqn class_id body =
     (let src = fe_src env; ns = scope_walk body; ids = map t_id (concat (map (written_targets src) ns))
      in in_order
        [in_order (concat (map (\<lambda>n. concat (map (\<lambda>a. let nm = self_attr_name src a in
             [ensure_field env class_fqn class_id nm a,
              just (some_refs (state_ref env ''WRITES'' mid nm a
                # (if t_type n = ''augmented_assignment'' then [state_ref env ''READS'' mid nm a] else [])))])
             (written_targets src n))) ns)),
         in_order (concat (map (\<lambda>n. let nm = self_attr_name src n in
             if nm = [] \<or> t_id n \<in> set ids then []
             else [ensure_field env class_fqn class_id nm n, just (some_refs [state_ref env ''READS'' mid nm n])]) ns))])"

section \<open>Globals of the module\<close>

definition declared_globals :: "string \<Rightarrow> string list \<Rightarrow> tree list \<Rightarrow> string list" where
  "declared_globals src gs ns = filter (\<lambda>nm. nm \<in> set gs) (map (node_text src) (filter (\<lambda>c. t_type c = ''identifier'')
     (concat (map t_children (filter (\<lambda>n. t_type n = ''global_statement'') ns)))))"

definition shadowed_globals :: "string \<Rightarrow> string list \<Rightarrow> string list \<Rightarrow> tree list \<Rightarrow> string list" where
  "shadowed_globals src gs decl ns = filter (\<lambda>nm. nm \<in> set gs \<and> nm \<notin> set decl) (List.map_filter (assigned_name src) ns)"

definition global_targets :: "tree \<Rightarrow> tree list" where
  "global_targets n =
     (if \<not> is_assignment n then []
      else case child_by_field n ''left'' of None \<Rightarrow> [] | Some l \<Rightarrow> if has_type tuple_types l then t_children l else [l])"

text \<open>What one target of an assignment writes: the references, and the nodes that are no reads.\<close>

definition global_write :: "file_env \<Rightarrow> string \<Rightarrow> string list \<Rightarrow> string list \<Rightarrow> string list \<Rightarrow> tree \<Rightarrow> tree \<Rightarrow> raw_ref list \<times> nat list" where
  "global_write env mid gs decl shadowed n t =
     (if t_type t = ''identifier''
      then (let nm = node_text (fe_src env) t in
            if nm \<notin> set gs \<or> nm \<notin> set decl then ([], [])
            else (code_ref env ''WRITES'' mid nm ''field'' t
                    # (if t_type n = ''augmented_assignment'' then [code_ref env ''READS'' mid nm ''field'' t] else []), [t_id t]))
      else if has_type [''subscript'', ''attribute''] t
      then (case base_ident_node t of None \<Rightarrow> ([], [])
            | Some base \<Rightarrow> let nm = node_text (fe_src env) base in
                if nm \<in> set gs \<and> nm \<notin> set shadowed
                then ([code_ref env ''WRITES'' mid nm ''field'' t, code_ref env ''READS'' mid nm ''field'' t], [t_id t, t_id base])
                else ([], []))
      else ([], []))"

definition global_state :: "file_env \<Rightarrow> string \<Rightarrow> string list \<Rightarrow> tree \<Rightarrow> raw_ref list" where
  "global_state env mid gs body =
     (if gs = [] then []
      else
        let src = fe_src env; ns = scope_walk body; decl = declared_globals src gs ns; shadowed = shadowed_globals src gs decl ns;
            writes = concat (map (\<lambda>n. map (global_write env mid gs decl shadowed n) (global_targets n)) ns);
            ids = concat (map snd writes)
        in concat (map fst writes)
           @ List.map_filter (\<lambda>(p, n).
               if t_type n = ''identifier'' \<and> t_id n \<notin> set ids \<and> \<not> is_attr_or_kwarg_name p n
                  \<and> node_text src n \<in> set gs \<and> node_text src n \<notin> set shadowed
               then Some (code_ref env ''READS'' mid (node_text src n) ''field'' n) else None) (scope_pairs body))"

section \<open>Classes and functions\<close>

definition py_class_node :: "file_env \<Rightarrow> string \<Rightarrow> string \<Rightarrow> (string \<times> tree) list \<Rightarrow> tree \<Rightarrow> node" where
  "py_class_node env fqn nm decos n = (code_node env ''python'' (code_id env fqn ''class'') ''Class'' nm fqn ''class'' n)
     \<lparr>n_visibility := py_visibility nm, n_modifiers := map fst decos,
      n_is_abstract := ''abstractmethod'' \<in> set (map fst decos) \<or> has_abc_base (fe_src env) n,
      n_docstring := py_docstring (fe_src env) n, n_body_hash := fe_body_hash env (text_of env n)\<rparr>"

definition class_refs :: "file_env \<Rightarrow> string \<Rightarrow> (string \<times> tree) list \<Rightarrow> tree \<Rightarrow> raw_ref list" where
  "class_refs env cid decos n = concat (map (decorator_refs env cid) decos)
     @ (case child_by_field n ''superclasses'' of None \<Rightarrow> []
        | Some s \<Rightarrow> map (\<lambda>c. code_ref env ''EXTENDS'' cid (dotted_tail (fe_src env) c) ''type'' c)
            (filter (has_type [''identifier'', ''attribute'']) (t_children s)))"

definition function_kind :: "bool \<Rightarrow> string" where
  "function_kind in_class = (if in_class then ''method'' else ''function'')"

definition py_function_node :: "file_env \<Rightarrow> string \<Rightarrow> string \<Rightarrow> bool \<Rightarrow> (string \<times> tree) list \<Rightarrow> tree \<Rightarrow> node" where
  "py_function_node env fqn nm in_class decos n =
     (let src = fe_src env; ps = child_by_field n ''parameters''; names = map fst decos; counts = py_complexity (child_by_field n ''body'')
      in (code_node env ''python'' (code_id env fqn (function_kind in_class)) ''Function'' nm fqn (function_kind in_class) n)
         \<lparr>n_visibility := py_visibility nm, n_modifiers := names,
          n_is_static := ''staticmethod'' \<in> set names \<or> ''classmethod'' \<in> set names,
          n_is_abstract := ''abstractmethod'' \<in> set names, n_is_async := is_async n,
          n_return_type := or_none (field_text src n ''return_type''), n_param_count := py_param_count src ps in_class,
          n_param_names := map fst (py_params src ps in_class), n_param_types := map snd (py_params src ps in_class),
          n_signature := nm @ (case ps of None \<Rightarrow> ''()'' | Some p \<Rightarrow> node_text src p),
          n_docstring := py_docstring src n, n_loc := int (fst (t_end n)) - int (fst (t_start n)) + 1,
          n_cyclomatic := 1 + int (fst counts) + int (snd counts), n_branch_count := int (fst counts), n_loop_count := int (snd counts),
          n_body_hash := fe_body_hash env (text_of env n)\<rparr>)"

definition py_head_refs :: "file_env \<Rightarrow> string \<Rightarrow> tree \<Rightarrow> raw_ref list" where
  "py_head_refs env mid n =
     (case child_by_field n ''return_type'' of None \<Rightarrow> [] | Some rt \<Rightarrow> py_type_refs env ''RETURNS'' mid rt)
     @ (case child_by_field n ''parameters'' of None \<Rightarrow> []
        | Some ps \<Rightarrow> concat (map (\<lambda>p. case child_by_field p ''type'' of None \<Rightarrow> [] | Some t \<Rightarrow> py_type_refs env ''HAS_TYPE'' mid t)
            (filter (has_type [''typed_parameter'', ''typed_default_parameter'']) (t_children ps))))"

definition py_body_refs :: "file_env \<Rightarrow> string \<Rightarrow> tree \<Rightarrow> raw_ref list" where
  "py_body_refs env mid body =
     concat (map (py_call_refs env mid (local_receiver_types (fe_src env) body)) (filter (\<lambda>d. t_type d = ''call'') (scope_walk body)))
     @ concat (map (exception_refs env mid) (scope_walk body))"

text \<open>What a class and a function emit before their blocks are walked.\<close>

definition class_head :: "file_env \<Rightarrow> string \<Rightarrow> string \<Rightarrow> string \<Rightarrow> (string \<times> tree) list \<Rightarrow> tree \<Rightarrow> canonical_bundle" where
  "class_head env fqn nm container decos n =
     (let f = py_class_node env fqn nm decos n
      in all_of [a_node f, contains env container n (n_id f), some_refs (class_refs env (n_id f) decos n)])"

definition function_head :: "file_env \<Rightarrow> string \<Rightarrow> string \<Rightarrow> string \<Rightarrow> bool \<Rightarrow> (string \<times> tree) list \<Rightarrow> tree \<Rightarrow> canonical_bundle" where
  "function_head env fqn nm container in_class decos n =
     (let f = py_function_node env fqn nm in_class decos n
      in all_of [a_node f, contains env container n (n_id f), all_of (map (function_decorator env (n_id f)) decos),
           some_refs (py_head_refs env (n_id f) n)])"

text \<open>The definition in a statement, below its decorators.\<close>

definition definition_of :: "tree \<Rightarrow> tree option" where
  "definition_of stmt = (if t_type stmt = ''decorated_definition'' then child_by_field stmt ''definition'' else Some stmt)"

definition decorators_on :: "string \<Rightarrow> tree \<Rightarrow> (string \<times> tree) list" where
  "decorators_on src stmt = (if t_type stmt = ''decorated_definition'' then decorators_of src stmt else [])"

lemma definition_smaller [termination_simp]:
  "stmt \<in> set (t_children block) \<Longrightarrow> definition_of stmt = Some n \<Longrightarrow> child_by_field n f = Some b \<Longrightarrow> size b < size block"
  by (auto simp: definition_of_def split: if_splits dest!: child_smaller field_smaller)

fun walk_block :: "file_env \<Rightarrow> string list \<Rightarrow> string \<Rightarrow> string \<Rightarrow> bool \<Rightarrow> tree \<Rightarrow> emitter" where
  "walk_block env gs parent container in_class block = in_order (map (\<lambda>stmt.
     case definition_of stmt of None \<Rightarrow> just (all_of [])
     | Some n \<Rightarrow>
         let decos = decorators_on (fe_src env) stmt in
         if t_type n = ''class_definition''
         then (case field_text (fe_src env) n ''name'' of None \<Rightarrow> just (all_of [])
               | Some nm \<Rightarrow>
                   let fqn = child_fqn parent nm; cid = n_id (py_class_node env fqn nm decos n)
                   in in_order
                     [just (class_head env fqn nm container decos n),
                      case child_by_field n ''body'' of None \<Rightarrow> just (all_of [])
                      | Some b \<Rightarrow> walk_block env gs fqn cid True b])
         else if t_type n = ''function_definition''
         then (case field_text (fe_src env) n ''name'' of None \<Rightarrow> just (all_of [])
               | Some nm \<Rightarrow>
                   let fqn = child_fqn parent nm; mid = n_id (py_function_node env fqn nm in_class decos n)
                   in in_order
                     [just (function_head env fqn nm container in_class decos n),
                      case child_by_field n ''body'' of None \<Rightarrow> just (all_of [])
                      | Some b \<Rightarrow> in_order
                          [just (some_refs (py_body_refs env mid b)),
                           if in_class then emit_state env mid parent container b else just (all_of []),
                           just (some_refs (global_state env mid gs b)),
                           walk_block env gs fqn mid False b]])
         else if t_type n = ''expression_statement'' \<and> in_class then maybe_field env parent container n
         else just (all_of [])) (t_children block))"

declare walk_block.simps [simp del]

section \<open>The file\<close>

definition module_fqn :: "string \<Rightarrow> string" where
  "module_fqn relpath = join_with CHR ''.'' (filter (\<lambda>p. p \<noteq> [] \<and> p \<noteq> ''__init__'') (split_on CHR ''/'' (path_root relpath)))"

definition import_ref :: "file_env \<Rightarrow> string \<Rightarrow> tree \<Rightarrow> string \<Rightarrow> raw_ref" where
  "import_ref env file_id n full = (code_ref env ''IMPORTS'' file_id (dotted_tail (fe_src env) n) ''import'' n)\<lparr>r_import_fqn := full\<rparr>"

definition py_import_refs :: "file_env \<Rightarrow> string \<Rightarrow> tree \<Rightarrow> raw_ref list" where
  "py_import_refs env file_id child =
     (if t_type child = ''import_statement''
      then map (\<lambda>c. import_ref env file_id c (import_full_name (fe_src env) c))
             (filter (has_type [''dotted_name'', ''aliased_import'']) (t_children child))
      else if t_type child = ''import_from_statement''
      then (case child_by_field child ''module_name'' of None \<Rightarrow> []
            | Some m \<Rightarrow> [import_ref env file_id m (py_strip (text_of env m))])
      else [])"

text \<open>The globals: fields of the module for its assignments, and their names.\<close>

fun make_globals :: "file_env \<Rightarrow> (tree \<times> tree) list \<Rightarrow> string set \<Rightarrow> canonical_bundle list \<times> string list \<times> string set" where
  "make_globals env [] created = ([], [], created)"
| "make_globals env ((stmt, c) # rest) created =
     (case assigned_name (fe_src env) c of None \<Rightarrow> make_globals env rest created
      | Some nm \<Rightarrow>
          (case assigned_field env (child_fqn (module_fqn (fe_file env)) nm) nm ''global_variable'' ''module''
                  (code_id env (fe_file env) ''file'') stmt c of (gid, b) \<Rightarrow>
             if gid \<in> created then make_globals env rest created
             else (case make_globals env rest (insert gid created) of (bs, names, created') \<Rightarrow> (b # bs, nm # names, created'))))"

definition global_statements :: "tree \<Rightarrow> (tree \<times> tree) list" where
  "global_statements root = concat (map (\<lambda>stmt. map (\<lambda>c. (stmt, c)) (t_children stmt))
     (filter (\<lambda>s. t_type s = ''expression_statement'') (t_children root)))"

definition extract_python :: "file_env \<Rightarrow> tree \<Rightarrow> canonical_bundle" where
  "extract_python env root =
     (let file_id = n_id (source_node env ''python'' root)
      in case make_globals env (global_statements root) {} of (bs, gs, created) \<Rightarrow>
         all_of [a_node (source_node env ''python'' root), some_refs (concat (map (py_import_refs env file_id) (t_children root))), all_of bs,
           fst (walk_block env gs (module_fqn (fe_file env)) file_id False root created)])"

end
