(* ===== verification/PyProps.thy ===== *)
theory PyProps
  imports PyExtract
begin

text \<open>
  What the Python extractor returns, for every tree the parser may give: a consistent bundle, whose
  containment edges are a tree over the declarations and in which every field is created once; and
  which calls and definitions it sees.
\<close>

section \<open>Nodes and references\<close>

lemma py_node_ids [simp]:
  "n_id (py_field_node env fqn nm k sc n) = code_id env fqn ''field''" "n_label (py_field_node env fqn nm k sc n) = ''Field''"
  "n_id (py_class_node env fqn nm ds n) = code_id env fqn ''class''" "n_label (py_class_node env fqn nm ds n) = ''Class''"
  "n_id (py_function_node env fqn nm c ds n) = code_id env fqn (function_kind c)" "n_label (py_function_node env fqn nm c ds n) = ''Function''"
  by (simp_all add: py_field_node_def py_class_node_def py_function_node_def Let_def)

lemma py_type_refs_from [from_node]: "t \<in> CODE_REF_TYPES \<Longrightarrow> refs_from s (py_type_refs env t s n)"
  by (auto simp: py_type_refs_def refs_from_def list_all_iff split: list.splits)

lemma auth_specs_types: "(t, g, f) \<in> set (auth_specs d src n) \<Longrightarrow> t = ''REQUIRES_AUTH'' \<or> t = ''ENFORCES_POLICY''"
  by (auto simp: auth_specs_def Let_def split: if_splits)

lemma decorator_refs_from [from_node]: "refs_from s (decorator_refs env s d)"
  by (auto simp: decorator_refs_def py_policy_refs_def refs_from_def list_all_iff dest!: auth_specs_types)

lemma py_call_refs_from [from_node]: "refs_from s (py_call_refs env s types d)"
  by (auto simp: py_call_refs_def Let_def event_refs_from split: option.splits)

lemma exception_refs_from [from_node]: "refs_from s (exception_refs env s n)"
  by (auto simp: exception_refs_def Let_def list_all_iff split: list.splits)

lemma py_body_refs_from [from_node]: "refs_from s (py_body_refs env s b)"
  by (simp add: py_body_refs_def list_all_iff from_node)

lemma py_head_refs_from [from_node]: "refs_from s (py_head_refs env s n)"
  by (auto simp: py_head_refs_def list_all_iff from_node split: option.splits)

lemma class_refs_from [from_node]: "refs_from s (class_refs env s ds n)"
  by (auto simp: class_refs_def list_all_iff from_node split: option.splits)

lemma global_write_from: "refs_from s (fst (global_write env s gs decl sh n t))"
  by (auto simp: global_write_def Let_def refs_from_def split: option.splits)

lemma global_state_from [from_node]: "refs_from s (global_state env s gs b)"
proof -
  have "refs_from s (concat (map fst ws))" if "set ws \<subseteq> range (\<lambda>(n, t). global_write env s gs decl sh n t)" for ws decl sh
    using that global_write_from by (fastforce simp: list_all_iff)
  then have "refs_from s (concat (map fst (concat (map (\<lambda>n. map (global_write env s gs decl sh n) (global_targets n)) ns))))" for decl sh ns
    by (auto simp: list_all_iff global_write_from)
  then show ?thesis
    by (auto simp: global_state_def Let_def intro!: map_filter_refs split: if_splits)
qed

lemma py_import_refs_from [from_node]: "refs_from s (py_import_refs env s c)"
  by (auto simp: py_import_refs_def import_ref_def list_all_iff split: option.splits)

lemma state_ref_ends [simp]: "r_type (state_ref env t s nm n) = t" "r_src (state_ref env t s nm n) = s"
  by (simp_all add: state_ref_def)

section \<open>Every part is rooted\<close>

lemma assigned_field_parts: "assigned_field env fqn nm k sc c stmt a = (fid, b) \<Longrightarrow>
  \<exists>f rs. n_label f = ''Field'' \<and> n_id f = fid \<and> b = new_field env c stmt f rs \<and> refs_from fid rs"
proof -
  assume a: "assigned_field env fqn nm k sc c stmt a = (fid, b)"
  define f where "f = (py_field_node env fqn nm k sc stmt)
     \<lparr>n_is_lock := is_lock_call (fe_src env) (child_by_field a ''right''), n_return_type := or_none (field_text (fe_src env) a ''type'')\<rparr>"
  define rs where "rs = (case child_by_field a ''type'' of None \<Rightarrow> [] | Some t \<Rightarrow> py_type_refs env ''OF_TYPE'' (n_id f) t)"
  have "fid = n_id f" "b = new_field env c stmt f rs"
    using a unfolding assigned_field_def Let_def f_def [symmetric] rs_def [symmetric] by simp_all
  moreover have "n_label f = ''Field''" by (simp add: f_def)
  moreover have "refs_from (n_id f) rs" by (auto simp: rs_def from_node split: option.split)
  ultimately show ?thesis by blast
qed

lemma ensure_field_rooted: "cid \<in> ids \<Longrightarrow> emits (rooted ids) (ensure_field env c cid nm n)"
  unfolding ensure_field_def Let_def
  by (rule emits_once) (auto intro!: new_field_rooted rooted_all_of)

lemma assigned_once_rooted: "c \<in> ids \<Longrightarrow> emits (rooted ids) (case_prod once (assigned_field env fqn nm k sc c stmt a))"
  using assigned_field_parts [of env fqn nm k sc c stmt a]
  by (auto split: prod.split intro!: emits_once new_field_rooted rooted_all_of)

lemma maybe_field_rooted: "cid \<in> ids \<Longrightarrow> emits (rooted ids) (maybe_field env c cid stmt)"
  unfolding maybe_field_def
  by (rule emits_rooted) (auto split: option.split intro!: rooted_all_of assigned_once_rooted)

lemma emit_state_rooted: "mid \<in> ids \<Longrightarrow> cid \<in> ids \<Longrightarrow> emits (rooted ids) (emit_state env mid c cid b)"
  unfolding emit_state_def Let_def
  by (rule emits_rooted)
    (auto intro!: emits_rooted ensure_field_rooted refs_from_rooted [where s = mid] simp: refs_from_def)

lemma class_head_rooted: "c \<in> ids \<Longrightarrow> rooted ids (class_head env fqn nm c ds n)"
  unfolding class_head_def Let_def
  by (intro rooted_under rooted_all_of)
    (auto simp: from_node intro!: contains_rooted refs_from_rooted [where s = "code_id env fqn ''class''"])

lemma function_decorator_rooted: "mid \<in> ids \<Longrightarrow> rooted ids (function_decorator env mid d)"
  unfolding function_decorator_def
  by (rule rooted_all_of)
    (auto simp: from_node intro!: rooted_all_of emit_endpoint_rooted refs_from_rooted [where s = mid])

lemma function_head_rooted: "c \<in> ids \<Longrightarrow> rooted ids (function_head env fqn nm c k ds n)"
  unfolding function_head_def Let_def
  by (intro rooted_under rooted_all_of)
    (auto simp: from_node intro!: contains_rooted rooted_all_of function_decorator_rooted
      refs_from_rooted [where s = "code_id env fqn (function_kind k)"])

lemma head_ids [simp]: "code_id env fqn ''class'' \<in> n_id ` set (b_nodes (class_head env fqn nm c ds n))"
  "code_id env fqn (function_kind k) \<in> n_id ` set (b_nodes (function_head env fqn nm c k ds n))"
  by (simp_all add: class_head_def function_head_def Let_def)

lemma walk_block_rooted: "container \<in> ids \<Longrightarrow> emits (rooted ids) (walk_block env gs parent container k block)"
proof (induction env gs parent container k block arbitrary: ids rule: walk_block.induct)
  case (1 env gs parent container k block)
  note classes = "1.IH"(1) and defs = "1.IH"(2)
  have cls: "emits (rooted ids) (in_order [just (class_head env (child_fqn parent nm) nm container ds n),
      case child_by_field n ''body'' of None \<Rightarrow> just (all_of [])
      | Some b \<Rightarrow> walk_block env gs (child_fqn parent nm) (code_id env (child_fqn parent nm) ''class'') True b])"
    if "stmt \<in> set (t_children block)" "definition_of stmt = Some n" "ds = decorators_on (fe_src env) stmt"
      "t_type n = ''class_definition''" "field_text (fe_src env) n ''name'' = Some nm" for stmt n ds nm
    using classes [OF that(1,2,3,4,5) refl refl] "1.prems"
    by (intro rooted_after class_head_rooted) (auto split: option.split intro!: rooted_all_of)
  have fns: "emits (rooted ids) (in_order [just (function_head env (child_fqn parent nm) nm container k ds n),
      case child_by_field n ''body'' of None \<Rightarrow> just (all_of [])
      | Some b \<Rightarrow> in_order [just (some_refs (py_body_refs env (code_id env (child_fqn parent nm) (function_kind k)) b)),
          if k then emit_state env (code_id env (child_fqn parent nm) (function_kind k)) parent container b else just (all_of []),
          just (some_refs (global_state env (code_id env (child_fqn parent nm) (function_kind k)) gs b)),
          walk_block env gs (child_fqn parent nm) (code_id env (child_fqn parent nm) (function_kind k)) False b]])"
    if "stmt \<in> set (t_children block)" "definition_of stmt = Some n" "ds = decorators_on (fe_src env) stmt"
      "t_type n \<noteq> ''class_definition''" "t_type n = ''function_definition''" "field_text (fe_src env) n ''name'' = Some nm" for stmt n ds nm
    using defs [OF that(1,2,3,4,5,6) refl refl] "1.prems"
    by (intro rooted_after function_head_rooted)
      (auto split: option.split intro!: rooted_all_of emits_rooted emit_state_rooted
        refs_from_rooted [where s = "code_id env (child_fqn parent nm) (function_kind k)"] simp: from_node)
  show ?case
    unfolding walk_block.simps [of env gs parent container k block] Let_def py_node_ids
    by (rule emits_rooted) (use cls fns "1.prems" in \<open>auto split: option.split intro!: rooted_all_of maybe_field_rooted\<close>)
qed

section \<open>Containment\<close>

lemma assigned_once_nested: "c \<in> cs \<Longrightarrow> emits (nested ls cs fs) (case_prod once (assigned_field env fqn nm k sc c stmt a))"
  using assigned_field_parts [of env fqn nm k sc c stmt a]
  by (auto split: prod.split intro!: emits_once new_field_nested)

lemma ensure_field_nested: "cid \<in> cs \<Longrightarrow> emits (nested ls cs fs) (ensure_field env c cid nm n)"
  unfolding ensure_field_def Let_def by (rule emits_once) (auto intro!: new_field_nested)

lemma maybe_field_nested: "cid \<in> cs \<Longrightarrow> emits (nested ls cs fs) (maybe_field env c cid stmt)"
  unfolding maybe_field_def
  by (rule emits_nested) (auto split: option.split intro!: assigned_once_nested)

lemma emit_state_nested: "cid \<in> cs \<Longrightarrow> emits (nested ls cs fs) (emit_state env mid c cid b)"
  unfolding emit_state_def Let_def
  by (rule emits_nested) (auto intro!: emits_nested ensure_field_nested)

lemma class_head_nested: "c \<in> cs \<Longrightarrow> nested scopes cs fs (class_head env fqn nm c ds n)"
  unfolding class_head_def Let_def by (intro nested_class nested_all_of) auto

lemma function_head_nested: "c \<in> cs \<Longrightarrow> nested ls cs fs (function_head env fqn nm c k ds n)"
  unfolding function_head_def Let_def function_decorator_def
  by (intro nested_function nested_all_of) (auto intro!: nested_all_of nested_endpoint)

lemma head_scopes [simp]: "code_id env fqn ''class'' \<in> set (ids_of scopes (class_head env fqn nm c ds n))"
  "code_id env fqn (function_kind k) \<in> set (ids_of scopes (function_head env fqn nm c k ds n))"
  by (simp_all add: class_head_def function_head_def Let_def)

lemma walk_block_nested: "container \<in> cs \<Longrightarrow> emits (nested scopes cs fs) (walk_block env gs parent container k block)"
proof (induction env gs parent container k block arbitrary: cs fs rule: walk_block.induct)
  case (1 env gs parent container k block)
  note classes = "1.IH"(1) and defs = "1.IH"(2)
  have cls: "emits (nested scopes cs fs) (in_order [just (class_head env (child_fqn parent nm) nm container ds n),
      case child_by_field n ''body'' of None \<Rightarrow> just (all_of [])
      | Some b \<Rightarrow> walk_block env gs (child_fqn parent nm) (code_id env (child_fqn parent nm) ''class'') True b])"
    if "stmt \<in> set (t_children block)" "definition_of stmt = Some n" "ds = decorators_on (fe_src env) stmt"
      "t_type n = ''class_definition''" "field_text (fe_src env) n ''name'' = Some nm" for stmt n ds nm
    using classes [OF that(1,2,3,4,5) refl refl] "1.prems"
    by (intro nested_after class_head_nested) (auto split: option.split)
  have fns: "emits (nested scopes cs fs) (in_order [just (function_head env (child_fqn parent nm) nm container k ds n),
      case child_by_field n ''body'' of None \<Rightarrow> just (all_of [])
      | Some b \<Rightarrow> in_order [just (some_refs (py_body_refs env (code_id env (child_fqn parent nm) (function_kind k)) b)),
          if k then emit_state env (code_id env (child_fqn parent nm) (function_kind k)) parent container b else just (all_of []),
          just (some_refs (global_state env (code_id env (child_fqn parent nm) (function_kind k)) gs b)),
          walk_block env gs (child_fqn parent nm) (code_id env (child_fqn parent nm) (function_kind k)) False b]])"
    if "stmt \<in> set (t_children block)" "definition_of stmt = Some n" "ds = decorators_on (fe_src env) stmt"
      "t_type n \<noteq> ''class_definition''" "t_type n = ''function_definition''" "field_text (fe_src env) n ''name'' = Some nm" for stmt n ds nm
    using defs [OF that(1,2,3,4,5,6) refl refl] "1.prems"
    by (intro nested_after function_head_nested)
      (auto split: option.split intro!: emits_nested emit_state_nested)
  show ?case
    unfolding walk_block.simps [of env gs parent container k block] Let_def py_node_ids
    by (rule emits_nested) (use cls fns "1.prems" in \<open>auto split: option.split intro!: maybe_field_nested\<close>)
qed

section \<open>Fields are created once\<close>

lemma assigned_once_fresh: "fresh (case_prod once (assigned_field env fqn nm k sc c stmt a))"
  using assigned_field_parts [of env fqn nm k sc c stmt a] by (auto split: prod.split intro!: fresh_once)

lemma ensure_field_fresh: "fresh (ensure_field env c cid nm n)"
  unfolding ensure_field_def Let_def by (rule fresh_once) simp

lemma maybe_field_fresh: "fresh (maybe_field env c cid stmt)"
  unfolding maybe_field_def by (rule fresh_in_order) (auto split: option.split intro!: assigned_once_fresh)

lemma emit_state_fresh: "fresh (emit_state env mid c cid b)"
  unfolding emit_state_def Let_def
  by (rule fresh_in_order) (auto intro!: fresh_in_order ensure_field_fresh)

lemma head_fresh: "fresh (just (class_head env fqn nm c ds n))" "fresh (just (function_head env fqn nm c k ds n))"
  by (auto intro!: fresh_just simp: class_head_def function_head_def function_decorator_def Let_def)

lemma walk_block_fresh: "fresh (walk_block env gs parent container k block)"
proof (induction env gs parent container k block rule: walk_block.induct)
  case (1 env gs parent container k block)
  show ?case
    unfolding walk_block.simps [of env gs parent container k block] Let_def
    by (rule fresh_in_order)
      (use "1.IH" in \<open>auto split: option.split intro!: fresh_in_order head_fresh maybe_field_fresh emit_state_fresh\<close>)
qed

section \<open>The file\<close>

lemma make_globals_ok:
  assumes "make_globals env sts created = (bs, gs, created')" "code_id env (fe_file env) ''file'' \<in> ids"
  shows "list_all (rooted ids) bs \<and> list_all (nested ls ids fs) bs \<and> distinct (concat (map field_ids bs))
    \<and> set (concat (map field_ids bs)) \<inter> created = {} \<and> created' = created \<union> set (concat (map field_ids bs))"
  using assms
proof (induction env sts created arbitrary: bs gs created' rule: make_globals.induct)
  case (2 env stmt c rest created)
  show ?case
  proof (cases "assigned_name (fe_src env) c")
    case None
    with 2 show ?thesis by simp
  next
    case (Some nm)
    obtain gid b where a: "assigned_field env (child_fqn (module_fqn (fe_file env)) nm) nm ''global_variable'' ''module''
      (code_id env (fe_file env) ''file'') stmt c = (gid, b)" by fastforce
    show ?thesis
    proof (cases "gid \<in> created")
      case True
      with 2 Some a show ?thesis by simp
    next
      case False
      obtain bs' gs' where r: "make_globals env rest (insert gid created) = (bs', gs', created')" "bs = b # bs'"
        using "2.prems"(1) Some a False by (auto split: prod.splits)
      obtain f rs where f: "n_label f = ''Field''" "n_id f = gid" "b = new_field env (code_id env (fe_file env) ''file'') stmt f rs" "refs_from gid rs"
        using assigned_field_parts [OF a] by blast
      have "field_ids b = [gid]" using f by simp
      moreover have "rooted ids b" "nested ls ids fs b" using f "2.prems"(2) by (auto intro!: new_field_rooted new_field_nested)
      ultimately show ?thesis using "2.IH"(3) [OF Some a [symmetric] False r(1) "2.prems"(2)] r(2) False by auto
    qed
  qed
qed simp

text \<open>C4: whatever tree the parser returns, the bundle of a Python file is consistent; containment is a tree over its
  declarations, with one edge to each class, function and field, in their order, from the file, a
  class or a function of the file; every endpoint is exposed by one edge from a function; and no
  field is created twice.\<close>

theorem extract_python_sound:
  "bundle_ok (extract_python env root)
   \<and> map e_dst (edges_of ''CONTAINS'' (extract_python env root)) = ids_of [''Class'', ''Function'', ''Field''] (extract_python env root)
   \<and> map e_dst (edges_of ''EXPOSES'' (extract_python env root)) = ids_of [''Endpoint''] (extract_python env root)
   \<and> e_src ` set (edges_of ''CONTAINS'' (extract_python env root)) \<subseteq> set (ids_of [''File'', ''Class'', ''Function''] (extract_python env root))
   \<and> e_src ` set (edges_of ''EXPOSES'' (extract_python env root)) \<subseteq> set (ids_of [''Function''] (extract_python env root))
   \<and> distinct (ids_of [''Field''] (extract_python env root))"
proof -
  let ?f = "code_id env (fe_file env) ''file''"
  obtain bs gs created where g: "make_globals env (global_statements root) {} = (bs, gs, created)" by (metis prod_cases3)
  define w where "w = walk_block env gs (module_fqn (fe_file env)) ?f False root created"
  define rs where "rs = concat (map (py_import_refs env ?f) (t_children root))"
  have ex: "extract_python env root = all_of [a_node (source_node env ''python'' root), some_refs rs, all_of bs, fst w]"
    by (simp add: extract_python_def Let_def g w_def rs_def)
  have rs: "refs_from ?f rs" by (simp add: rs_def list_all_iff from_node)
  have w: "rooted {?f} (fst w)" "nested scopes {?f} {} (fst w)"
    using walk_block_rooted [of ?f "{?f}" env gs "module_fqn (fe_file env)" False root]
      walk_block_nested [of ?f "{?f}" "{}" env gs "module_fqn (fe_file env)" False root]
    by (simp_all add: emits_def w_def)
  have gl: "list_all (rooted {?f}) bs" "list_all (nested scopes {?f} {}) bs" "distinct (concat (map field_ids bs))"
    "created = set (concat (map field_ids bs))"
    using make_globals_ok [OF g, of "{?f}" scopes "{}"] by simp_all
  have "rooted {} (extract_python env root)"
    unfolding ex by (intro rooted_under rooted_all_of)
      (use gl w rs in \<open>auto simp: list_all_iff intro!: rooted_all_of refs_from_rooted [where s = ?f]\<close>)
  moreover have n: "nested scopes {?f} {} (all_of [some_refs rs, all_of bs, fst w])"
    by (rule nested_all_of) (use gl w in \<open>auto simp: list_all_iff intro!: nested_all_of\<close>)
  moreover have "distinct (field_ids (extract_python env root))"
    using gl(3,4) walk_block_fresh [of env gs "module_fqn (fe_file env)" ?f False root]
    by (auto simp: ex fresh_def w_def)
  moreover have "map e_dst (edges_of ''CONTAINS'' (extract_python env root)) = ids_of declared_labels (extract_python env root)
    \<and> map e_dst (edges_of ''EXPOSES'' (extract_python env root)) = ids_of [''Endpoint''] (extract_python env root)
    \<and> e_src ` set (edges_of ''CONTAINS'' (extract_python env root)) \<subseteq> set (ids_of (''File'' # scopes) (extract_python env root))
    \<and> e_src ` set (edges_of ''EXPOSES'' (extract_python env root)) \<subseteq> set (ids_of [''Function''] (extract_python env root))"
    using n by (rule nested_file) (simp_all add: ex)
  ultimately show ?thesis unfolding rooted_none field_ids_def by blast
qed

section \<open>Calls\<close>

text \<open>The nodes of a scope in the order of the file: a node and what is below it, without nested definitions.\<close>

fun scope_nodes :: "tree \<Rightarrow> tree list" where
  "scope_nodes t = (if is_definition t then [] else t # concat (map scope_nodes (t_children t)))"

declare scope_nodes.simps [simp del]

lemma scope_stack_nodes: "map snd (scope_stack ps) = concat (map (\<lambda>x. scope_nodes (snd x)) ps)"
proof (induction ps rule: scope_stack.induct)
  case (2 p cur stack)
  then show ?case by (simp add: scope_nodes.simps [of cur] comp_def)
qed simp

lemma scope_walk_nodes: "scope_walk block = concat (map scope_nodes (t_children block))"
  by (simp add: scope_walk_def scope_pairs_def scope_stack_nodes comp_def)

definition py_call_ref :: "file_env \<Rightarrow> string \<Rightarrow> (string \<rightharpoonup> string) \<Rightarrow> tree \<Rightarrow> raw_ref option" where
  "py_call_ref env mid types d = (case child_by_field d ''function'' of None \<Rightarrow> None
     | Some fn \<Rightarrow> if dotted_tail (fe_src env) fn = [] then None
         else Some ((code_ref env ''CALLS'' mid (dotted_tail (fe_src env) fn) ''call'' fn)
           \<lparr>r_recv := py_receiver (fe_src env) fn, r_call_arity := py_call_arity d,
            r_recv_type := infer_receiver_type (fe_src env) fn types\<rparr>))"

definition call_kind :: "raw_ref \<Rightarrow> bool" where
  "call_kind r \<longleftrightarrow> r_type r = ''CALLS''"

lemma call_of_node: "filter call_kind (py_call_refs env mid types d) = (case py_call_ref env mid types d of None \<Rightarrow> [] | Some r \<Rightarrow> [r])"
  by (auto simp: py_call_refs_def py_call_ref_def event_refs_def call_kind_def Let_def split: option.splits)

lemma no_exception_calls: "filter call_kind (exception_refs env mid n) = []"
proof -
  have "list_all (\<lambda>r. \<not> call_kind r) (exception_refs env mid n)"
    by (auto simp: exception_refs_def call_kind_def Let_def list.pred_map comp_def list.pred_True split: list.split)
  then show ?thesis by (simp add: filter_empty_conv list_all_iff)
qed

lemma filter_each: "filter p (concat (map f xs)) = concat (map (\<lambda>x. filter p (f x)) xs)"
  by (induction xs) simp_all

lemma map_filter_options: "concat (map (\<lambda>x. case f x of None \<Rightarrow> [] | Some r \<Rightarrow> [r]) xs) = List.map_filter f xs"
  by (induction xs) (auto simp: List.map_filter_simps split: option.splits)

text \<open>C5: a function is given one call reference for every call expression of its own scope that has a name, in the
  order of the source, and none for the calls of the definitions nested in it; the receiver of a call is typed by
  the assignments of the same scope.\<close>

theorem python_calls_exact:
  "filter call_kind (py_body_refs env mid body) =
     List.map_filter (py_call_ref env mid
         (map_of (rev (List.map_filter (local_binding (fe_src env)) (concat (map scope_nodes (t_children body)))))))
       (filter (\<lambda>d. t_type d = ''call'') (concat (map scope_nodes (t_children body))))"
  by (simp add: py_body_refs_def filter_each call_of_node no_exception_calls map_filter_options
      local_receiver_types_def scope_walk_nodes)

section \<open>What the walk does not see\<close>

text \<open>A definition within a conditional, a loop or a handler: the walk over statements passes by the statement, and the
  walk over the scope passes by the definition.\<close>

lemma conditional_definition_lost:
  assumes "t_children block = [s]" "\<not> has_type [''decorated_definition'', ''class_definition'', ''function_definition'', ''expression_statement''] s"
  shows "b_nodes (fst (walk_block env gs parent c k block created)) = []" "b_refs (fst (walk_block env gs parent c k block created)) = []"
  using assms by (simp_all add: walk_block.simps [of env gs parent c k block] definition_of_def has_type_def Let_def just_def)

lemma nested_definition_unseen: "is_definition d \<Longrightarrow> scope_nodes d = []"
  by (simp add: scope_nodes.simps [of d])

text \<open>Two methods of one name in a class, as the getter and the setter of a property, have one identity.\<close>

lemma accessors_share_identity:
  "n_id (py_function_node env fqn nm True ds n) = n_id (py_function_node env fqn nm' True ds' n')"
  by simp

text \<open>The name an exception is bound to is taken for a caught type; the alias of an import is its target.\<close>

lemma alias_is_caught:
  assumes "t_type n = ''except_clause''" "t_children n = [kw, p, colon, b]" "t_type kw = ''except''"
    "t_type p = ''as_pattern''" "t_children p = [e, as1, target]" "t_type e = ''identifier''" "t_type as1 = ''as''" "t_children as1 = []"
    "t_type target = ''as_pattern_target''" "t_children target = [v]" "t_type v = ''identifier''"
  shows "map r_target_name (exception_refs env mid n) = [node_text (fe_src env) e, node_text (fe_src env) v]"
proof -
  have "collect_type_names (fe_src env) p = [node_text (fe_src env) e, node_text (fe_src env) v]"
    using assms by (simp add: collect_type_names.simps [of _ p] collect_type_names.simps [of _ e] collect_type_names.simps [of _ as1]
        collect_type_names.simps [of _ target] collect_type_names.simps [of _ v])
  with assms show ?thesis by (simp add: exception_refs_def has_type_def code_ref_def mk_ref_def)
qed

lemma import_alias_is_target:
  assumes "t_type n = ''aliased_import''" "t_children n = [m, as1, v]" "t_type v = ''identifier''"
  shows "r_target_name (import_ref env file_id n full) = node_text (fe_src env) v"
  using assms by (simp add: import_ref_def code_ref_def mk_ref_def dotted_tail.simps [of _ n] has_type_def Let_def)

end
