(* ===== verification/JsSyntax.thy ===== *)
theory JsSyntax
  imports SyntaxTree Regex RouteSpec
begin

text \<open>
  What the extractor of JavaScript and TypeScript reads off a syntax tree
  (\<open>graph_core/extractors/javascript.py\<close>): names, types, parameters, the nodes of a scope, and the Java targets
  that a string names.  Each definition is the function of that name; \<open>src\<close> is the text of the file.  Letters
  and digits are the ASCII ones.
\<close>

section \<open>Types of nodes\<close>

definition CLASS_TYPES :: "string list" where
  "CLASS_TYPES = [''class_declaration'', ''abstract_class_declaration'']"

definition FUNC_DECL_TYPES :: "string list" where
  "FUNC_DECL_TYPES = [''function_declaration'', ''generator_function_declaration'']"

definition FUNC_EXPR_TYPES :: "string list" where
  "FUNC_EXPR_TYPES = [''arrow_function'', ''function_expression'', ''generator_function'']"

definition METHOD_TYPES :: "string list" where
  "METHOD_TYPES = [''method_definition'']"

definition FIELD_TYPES :: "string list" where
  "FIELD_TYPES = [''public_field_definition'', ''field_definition'']"

definition SCOPE_BOUNDARY :: "string list" where
  "SCOPE_BOUNDARY = FUNC_DECL_TYPES @ FUNC_EXPR_TYPES @ METHOD_TYPES @ CLASS_TYPES @ [''interface_declaration'', ''method_signature'']"

definition BRANCH_TYPES :: "string list" where
  "BRANCH_TYPES = [''if_statement'', ''switch_case'', ''catch_clause'', ''ternary_expression'', ''conditional_expression'']"

definition LOOP_TYPES :: "string list" where
  "LOOP_TYPES = [''for_statement'', ''for_in_statement'', ''while_statement'', ''do_statement'']"

section \<open>The nodes of a scope\<close>

text \<open>The loops over a scope pop the last element of a list and append the children: the list is kept with its last
  element first.  Below a leaf they do not go.\<close>

function js_stack :: "(tree \<Rightarrow> bool) \<Rightarrow> tree list \<Rightarrow> tree list" where
  "js_stack leaf [] = []"
| "js_stack leaf (n # stack) =
     (if has_type SCOPE_BOUNDARY n then js_stack leaf stack
      else if leaf n then n # js_stack leaf stack
      else n # js_stack leaf (rev (t_children n) @ stack))"
  by pat_completeness auto
termination
proof (relation "measure (\<lambda>(leaf, ts). size_list size ts)", goal_cases)
  case (4 leaf n stack)
  then show ?case by (cases n) simp
qed simp_all

definition js_scope :: "(tree \<Rightarrow> bool) \<Rightarrow> tree option \<Rightarrow> tree list" where
  "js_scope leaf body = (case body of None \<Rightarrow> [] | Some b \<Rightarrow> js_stack leaf (rev (t_children b)))"

definition scope_calls :: "tree option \<Rightarrow> tree list" where
  "scope_calls body = filter (has_type [''call_expression'']) (js_scope (\<lambda>n. False) body)"

definition scope_declarators :: "tree option \<Rightarrow> tree list" where
  "scope_declarators body = filter (has_type [''variable_declarator'']) (js_scope (\<lambda>n. False) body)"

definition is_js_string :: "tree \<Rightarrow> bool" where
  "is_js_string n = has_type [''string'', ''template_string''] n"

definition js_quotes :: string where
  "js_quotes = [CHR 0x22, CHR 0x27, CHR 0x60]"

definition literal_text :: "string \<Rightarrow> tree \<Rightarrow> string" where
  "literal_text src n =
     (let raw = py_strip (node_text src n)
      in if length raw \<ge> 2 \<and> hd raw \<in> set js_quotes \<and> last raw = hd raw then butlast (tl raw) else raw)"

definition scope_strings :: "string \<Rightarrow> tree option \<Rightarrow> (string \<times> tree) list" where
  "scope_strings src body =
     filter (\<lambda>x. fst x \<noteq> []) (map (\<lambda>n. (literal_text src n, n)) (filter is_js_string (js_scope is_js_string body)))"

definition logical :: "tree \<Rightarrow> bool" where
  "logical n = (t_type n = ''binary_expression'' \<and>
     (case child_by_field n ''operator'' of None \<Rightarrow> False | Some op1 \<Rightarrow> has_type [''&&'', ''||''] op1))"

definition js_complexity :: "tree option \<Rightarrow> nat \<times> nat" where
  "js_complexity body =
     (let ns = js_scope (\<lambda>n. False) body
      in (length (filter (\<lambda>n. has_type BRANCH_TYPES n \<or> logical n) ns), length (filter (has_type LOOP_TYPES) ns)))"

section \<open>Names and types\<close>

definition js_visibility :: "string \<Rightarrow> tree \<Rightarrow> string" where
  "js_visibility nm n =
     (case filter (\<lambda>k. k \<in> set [''private'', ''protected'', ''public''])
         (map t_type (concat (map t_children (filter (has_type [''accessibility_modifier'']) (t_children n))))) of
        k # ks \<Rightarrow> k
      | [] \<Rightarrow> if py_startswith nm ''#'' then ''private'' else if py_startswith nm ''_'' then ''protected'' else ''public'')"

definition has_child_type :: "tree \<Rightarrow> string \<Rightarrow> bool" where
  "has_child_type n ty = list_ex (\<lambda>c. t_type c = ty) (t_children n)"

definition name_text :: "string \<Rightarrow> tree \<Rightarrow> string" where
  "name_text src n = or_none (field_text src n ''name'')"

fun member_tail :: "string \<Rightarrow> tree \<Rightarrow> string" where
  "member_tail src fn =
     (if t_type fn = ''identifier'' then node_text src fn
      else if t_type fn = ''member_expression'' then or_none (field_text src fn ''property'')
      else if t_type fn = ''parenthesized_expression''
      then (case named_children fn of [] \<Rightarrow> [] | c # cs \<Rightarrow> if c \<in> set (named_children fn) then member_tail src c else [])
      else [])"

declare member_tail.simps [simp del]

fun leftmost_object :: "tree \<Rightarrow> tree option" where
  "leftmost_object n =
     (if t_type n = ''member_expression'' then (case child_by_field n ''object'' of None \<Rightarrow> None | Some obj \<Rightarrow> leftmost_object obj)
      else Some n)"

declare leftmost_object.simps [simp del]

definition js_receiver :: "string \<Rightarrow> tree \<Rightarrow> string" where
  "js_receiver src fn =
     (if t_type fn \<noteq> ''member_expression'' then []
      else case leftmost_object fn of None \<Rightarrow> []
        | Some obj \<Rightarrow> if has_type [''identifier'', ''this'', ''super''] obj then node_text src obj else [])"

fun named_nodes :: "tree \<Rightarrow> tree list" where
  "named_nodes n = n # concat (map named_nodes (named_children n))"

declare named_nodes.simps [simp del]

definition type_annotation_names :: "string \<Rightarrow> tree option \<Rightarrow> string list" where
  "type_annotation_names src ann = (case ann of None \<Rightarrow> []
     | Some a \<Rightarrow> kept (\<lambda>x. x) {} (filter (\<lambda>x. x \<noteq> []) (map (\<lambda>n. simple_type_name (node_text src n))
         (filter (has_type [''type_identifier'', ''predefined_type'']) (concat (map named_nodes (named_children a)))))))"

definition first_name :: "string list \<Rightarrow> string" where
  "first_name names = (case names of [] \<Rightarrow> [] | n # ns \<Rightarrow> n)"

definition is_typed_parameter :: "tree \<Rightarrow> bool" where
  "is_typed_parameter p = has_type [''required_parameter'', ''optional_parameter''] p"

text \<open>The name and the type of a parameter; what is no identifier keeps its text and has no type.\<close>

definition js_param :: "string \<Rightarrow> tree \<Rightarrow> string \<times> string" where
  "js_param src p =
     (let pat = (if is_typed_parameter p then child_by_field p ''pattern''
                 else if t_type p = ''assignment_pattern'' then child_by_field p ''left'' else Some p);
          ann = (if is_typed_parameter p then child_by_field p ''type'' else None)
      in case pat of None \<Rightarrow> ([], [])
         | Some q \<Rightarrow> if t_type q \<noteq> ''identifier'' then (node_text src q, []) else (node_text src q, first_name (type_annotation_names src ann)))"

definition js_params :: "string \<Rightarrow> tree option \<Rightarrow> (string \<times> string) list" where
  "js_params src ps = (case ps of None \<Rightarrow> [] | Some p \<Rightarrow> map (js_param src) (named_children p))"

definition new_expression_type :: "string \<Rightarrow> tree option \<Rightarrow> string" where
  "new_expression_type src v = (case v of None \<Rightarrow> []
     | Some x \<Rightarrow> if t_type x \<noteq> ''new_expression'' then []
         else case child_by_field x ''constructor'' of None \<Rightarrow> []
           | Some c \<Rightarrow> if has_type [''identifier'', ''type_identifier''] c then node_text src c
               else if t_type c = ''member_expression'' then member_tail src c else [])"

definition declared_type :: "string \<Rightarrow> tree \<Rightarrow> string" where
  "declared_type src n =
     (let names = type_annotation_names src (child_by_field n ''type'')
      in if names \<noteq> [] then first_name names else new_expression_type src (child_by_field n ''value''))"

definition field_or :: "tree \<Rightarrow> string \<Rightarrow> string \<Rightarrow> tree option" where
  "field_or n f g = (case child_by_field n f of Some c \<Rightarrow> Some c | None \<Rightarrow> child_by_field n g)"

definition member_name_node :: "tree \<Rightarrow> tree option" where
  "member_name_node n = field_or n ''name'' ''property''"

type_synonym js_types = "string \<rightharpoonup> string"

definition bind_all :: "(string \<times> string) list \<Rightarrow> js_types \<Rightarrow> js_types" where
  "bind_all ds m = fold (\<lambda>(nm, tp) m. m(nm \<mapsto> tp)) ds m"

definition bound_type :: "string \<Rightarrow> tree \<Rightarrow> tree option \<Rightarrow> (string \<times> string) option" where
  "bound_type src n nm = (case nm of None \<Rightarrow> None
     | Some x \<Rightarrow> if declared_type src n = [] then None else Some (node_text src x, declared_type src n))"

definition identifier_or_none :: "tree option \<Rightarrow> tree option" where
  "identifier_or_none x = (case x of None \<Rightarrow> None | Some n \<Rightarrow> if t_type n = ''identifier'' then Some n else None)"

definition collect_field_types :: "string \<Rightarrow> tree \<Rightarrow> js_types" where
  "collect_field_types src body = bind_all (List.map_filter (\<lambda>m. bound_type src m (member_name_node m))
     (filter (has_type FIELD_TYPES) (named_children body))) Map.empty"

definition callee_receiver_type :: "string \<Rightarrow> tree \<Rightarrow> js_types \<Rightarrow> js_types \<Rightarrow> string \<Rightarrow> string" where
  "callee_receiver_type src fn vars fields1 class_name =
     (if t_type fn \<noteq> ''member_expression'' then []
      else case child_by_field fn ''object'' of None \<Rightarrow> []
        | Some obj \<Rightarrow>
            if t_type obj = ''this'' then class_name
            else if t_type obj = ''identifier'' then or_none (vars (node_text src obj))
            else if t_type obj = ''member_expression''
            then (case (child_by_field obj ''object'', child_by_field obj ''property'') of
                (Some base, Some prop1) \<Rightarrow> if t_type base = ''this'' then or_none (fields1 (node_text src prop1)) else []
              | _ \<Rightarrow> [])
            else [])"

definition scope_var_types :: "string \<Rightarrow> tree option \<Rightarrow> tree option \<Rightarrow> js_types \<Rightarrow> string \<Rightarrow> js_types" where
  "scope_var_types src ps body fields1 class_name =
     (let base = (if class_name \<noteq> [] then fields1(''this'' \<mapsto> class_name) else fields1);
          params = (case ps of None \<Rightarrow> [] | Some p \<Rightarrow> named_children p)
      in bind_all (List.map_filter (\<lambda>d. bound_type src d (identifier_or_none (child_by_field d ''name''))) (scope_declarators body))
           (bind_all (List.map_filter (\<lambda>p. bound_type src p (identifier_or_none (field_or p ''pattern'' ''name''))) params) base))"

section \<open>Java targets in strings\<close>

definition servlet_tail :: string where
  "servlet_tail = [CHR 0x22, CHR 0x27, CHR ''+'', CHR '' '', CHR 0x09]"

definition servlet_url :: "string \<Rightarrow> string" where
  "servlet_url literal = (case find_str ''/servlets/'' literal of None \<Rightarrow> []
     | Some k \<Rightarrow>
         let path = rev (dropWhile (\<lambda>c. c \<in> set servlet_tail)
           (rev (py_strip (before_first CHR ''#'' (before_first CHR ''?'' (drop k literal))))))
         in if length path \<le> length ''/servlets/'' \<or> list_ex (\<lambda>c. c \<in> set [CHR '' '', CHR 0x09, CHR ''<'', CHR ''>'']) path then [] else path)"

definition js_isidentifier :: "string \<Rightarrow> bool" where
  "js_isidentifier s = (s \<noteq> [] \<and> \<not> is_digit (hd s) \<and> list_all is_word s)"

definition upper_first :: "string \<Rightarrow> bool" where
  "upper_first s = (s \<noteq> [] \<and> (let n = (of_char (hd s) :: nat) in 65 \<le> n \<and> n \<le> 90))"

definition class_noise :: string where
  "class_noise = [CHR '' '', CHR 0x09, CHR ''/'', CHR 0x5C] @ ''<>?&=%(){}[]''"

definition java_class_target :: "string \<Rightarrow> string" where
  "java_class_target literal =
     (let s = py_strip literal in
      if s = [] \<or> list_ex (\<lambda>c. c \<in> set class_noise) s then []
      else if CHR ''.'' \<in> set s
      then (let segs = split_on CHR ''.'' s
            in if length segs \<ge> 3 \<and> upper_first (last segs) \<and> list_all js_isidentifier segs then s else [])
      else if js_isidentifier s \<and> upper_first s \<and> py_endswith s ''Servlet'' then s else [])"

end
