(* ===== verification/JsExtract.thy ===== *)
theory JsExtract
  imports JsSyntax Extracted
begin

text \<open>
  The extractor of JavaScript and TypeScript (\<open>graph_core/extractors/javascript.py\<close>, \<open>extract\<close>): one definition for
  each of its nested functions; \<open>lang\<close> is the language of the file.  Functions, classes and blocks contain each other, so their definitions are
  mutually recursive, as the code's are.
\<close>

section \<open>References\<close>

text \<open>\<open>ref\<close>: a reference without a target is not made.\<close>

definition js_ref :: "file_env \<Rightarrow> string \<Rightarrow> string \<Rightarrow> string \<Rightarrow> string \<Rightarrow> tree \<Rightarrow> raw_ref list" where
  "js_ref env t s target hint n = (if target = [] then [] else [code_ref env t s target hint n])"

definition js_type_refs :: "file_env \<Rightarrow> string \<Rightarrow> string \<Rightarrow> tree \<Rightarrow> raw_ref list" where
  "js_type_refs env t s ann = (case type_annotation_names (fe_src env) (Some ann) of [] \<Rightarrow> []
     | nm # gs \<Rightarrow> js_ref env t s nm ''type'' ann @ concat (map (\<lambda>g. js_ref env ''HAS_GENERIC'' s g ''type'' ann) gs))"

definition js_strip_quotes :: "string \<Rightarrow> string" where
  "js_strip_quotes = strip_where (\<lambda>c. c \<in> set js_quotes)"

text \<open>The nodes that name what an import clause binds.\<close>

definition imported_names :: "tree \<Rightarrow> tree list" where
  "imported_names spec =
     (if t_type spec = ''identifier'' then [spec]
      else if t_type spec = ''namespace_import'' then (case rev (named_children spec) of [] \<Rightarrow> [] | nm # rest \<Rightarrow> [nm])
      else if t_type spec = ''named_imports''
      then List.map_filter (\<lambda>imp. child_by_field imp ''name'') (filter (has_type [''import_specifier'']) (named_children spec))
      else [])"

definition js_import_refs :: "file_env \<Rightarrow> string \<Rightarrow> tree \<Rightarrow> raw_ref list" where
  "js_import_refs env file_id n =
     (let module1 = (case child_by_field n ''source'' of None \<Rightarrow> [] | Some s \<Rightarrow> js_strip_quotes (text_of env s));
          from1 = map (\<lambda>r. r\<lparr>r_import_fqn := module1\<rparr>)
      in from1 (concat (map (\<lambda>nm. js_ref env ''IMPORTS'' file_id (text_of env nm) ''import'' nm)
           (concat (map imported_names (concat (map named_children (filter (has_type [''import_clause'']) (named_children n))))))))
         @ (if module1 \<noteq> [] \<and> named_children n = [] then from1 (js_ref env ''IMPORTS'' file_id module1 ''import'' n) else []))"

text \<open>What a class or an interface is declared to extend and to implement.\<close>

definition heritage_refs :: "file_env \<Rightarrow> string \<Rightarrow> bool \<Rightarrow> tree \<Rightarrow> raw_ref list" where
  "heritage_refs env cid is_interface n =
     (let src = fe_src env; names = [''type_identifier'', ''identifier''];
          to1 = (\<lambda>t x. js_ref env t cid (node_text src x) ''type'' x)
      in case filter (has_type [''class_heritage'']) (t_children n) of
           heritage # rest \<Rightarrow> concat (map (\<lambda>h.
             if t_type h = ''extends_clause''
             then concat (map (\<lambda>x. js_ref env ''EXTENDS'' cid (if member_tail src x = [] then node_text src x else member_tail src x) ''type'' x)
                    (filter (has_type (''member_expression'' # names)) (named_children h)))
             else if t_type h = ''implements_clause'' then concat (map (to1 ''IMPLEMENTS'') (filter (has_type names) (named_children h)))
             else []) (t_children heritage))
         | [] \<Rightarrow>
             if is_interface
             then concat (map (\<lambda>c. concat (map (to1 ''EXTENDS'') (filter (has_type names) (named_children c))))
                    (filter (has_type [''extends_type_clause'']) (t_children n)))
             else [])"

definition js_call_refs :: "file_env \<Rightarrow> string \<Rightarrow> js_types \<Rightarrow> js_types \<Rightarrow> string \<Rightarrow> tree \<Rightarrow> raw_ref list" where
  "js_call_refs env mid vars fields1 class_name call =
     (let src = fe_src env in
      case child_by_field call ''function'' of None \<Rightarrow> []
      | Some fn \<Rightarrow> map (\<lambda>r. r\<lparr>r_recv := js_receiver src fn,
          r_call_arity := (case child_by_field call ''arguments'' of None \<Rightarrow> -1 | Some args \<Rightarrow> int (length (named_children args))),
          r_recv_type := callee_receiver_type src fn vars fields1 class_name\<rparr>) (js_ref env ''CALLS'' mid (member_tail src fn) ''call'' fn))"

text \<open>The Java target that a string names: a servlet or a class.\<close>

definition java_target :: "string \<times> tree \<Rightarrow> ((bool \<times> string) \<times> tree) option" where
  "java_target ln =
     (let url = servlet_url (fst ln); cls = java_class_target (fst ln)
      in if url \<noteq> [] then Some ((True, url), snd ln) else if cls \<noteq> [] then Some ((False, cls), snd ln) else None)"

definition target_ref :: "file_env \<Rightarrow> string \<Rightarrow> (bool \<times> string) \<times> tree \<Rightarrow> raw_ref" where
  "target_ref env mid tn =
     (if fst (fst tn) then api_call_ref env mid SERVLET_ANY_METHOD (snd (fst tn)) (snd tn)
      else code_ref env ''HANDLED_BY'' mid (snd (fst tn)) ''type'' (snd tn))"

definition java_target_refs :: "file_env \<Rightarrow> string \<Rightarrow> tree \<Rightarrow> raw_ref list" where
  "java_target_refs env mid body =
     map (target_ref env mid) (kept fst {} (List.map_filter java_target (scope_strings (fe_src env) (Some body))))"

section \<open>Nodes\<close>

definition js_module_fqn :: "string \<Rightarrow> string" where
  "js_module_fqn relpath =
     (let m = join_with CHR ''.'' (filter (\<lambda>p. p \<noteq> [] \<and> p \<noteq> ''index'') (split_on CHR ''/'' (path_root relpath)))
      in if m = [] then path_root (after_last CHR ''/'' relpath) else m)"

definition js_class_node :: "file_env \<Rightarrow> string \<Rightarrow> string \<Rightarrow> string \<Rightarrow> bool \<Rightarrow> tree \<Rightarrow> node" where
  "js_class_node env lang fqn nm is_interface n =
     (code_node env lang (code_id env fqn ''class'') ''Class'' nm fqn (if is_interface then ''interface'' else ''class'') n)
     \<lparr>n_visibility := ''public'', n_is_abstract := (t_type n = ''abstract_class_declaration''), n_body_hash := fe_body_hash env (text_of env n)\<rparr>"

text \<open>The part of a field's node that members of a class and variables of the module have in common.\<close>

definition js_field_node :: "file_env \<Rightarrow> string \<Rightarrow> string \<Rightarrow> string \<Rightarrow> string \<Rightarrow> string \<Rightarrow> tree \<Rightarrow> node" where
  "js_field_node env lang fqn nm kind scope n =
     (code_node env lang (code_id env fqn ''field'') ''Field'' nm fqn kind n)
     \<lparr>n_visibility := js_visibility nm n, n_scope := scope,
      n_return_type := first_name (type_annotation_names (fe_src env) (child_by_field n ''type''))\<rparr>"

definition js_function_kind :: "bool \<Rightarrow> string" where
  "js_function_kind is_method = (if is_method then ''method'' else ''function'')"

definition js_function_node :: "file_env \<Rightarrow> string \<Rightarrow> string \<Rightarrow> string \<Rightarrow> bool \<Rightarrow> bool \<Rightarrow> tree \<Rightarrow> node" where
  "js_function_node env lang fqn nm is_method signature_only n =
     (let src = fe_src env; ps = child_by_field n ''parameters''; k = js_function_kind is_method;
          params = js_params src ps; counts = js_complexity (child_by_field n ''body'')
      in (code_node env lang (code_id env fqn k) ''Function'' nm fqn k n)
         \<lparr>n_visibility := js_visibility nm n, n_is_static := has_child_type n ''static'', n_is_async := has_child_type n ''async'',
          n_is_abstract := has_child_type n ''abstract'' \<or> signature_only,
          n_return_type := first_name (type_annotation_names src (child_by_field n ''return_type'')),
          n_param_count := int (length params), n_param_names := map fst params, n_param_types := map snd params,
          n_signature := nm @ (case ps of None \<Rightarrow> ''()'' | Some p \<Rightarrow> node_text src p),
          n_loc := int (fst (t_end n)) - int (fst (t_start n)) + 1,
          n_cyclomatic := 1 + int (fst counts) + int (snd counts), n_branch_count := int (fst counts), n_loop_count := int (snd counts),
          n_body_hash := fe_body_hash env (text_of env n)\<rparr>)"

section \<open>Fields\<close>

definition handle_field :: "file_env \<Rightarrow> string \<Rightarrow> string \<Rightarrow> string \<Rightarrow> tree \<Rightarrow> emitter" where
  "handle_field env lang class_fqn class_id n = (case member_name_node n of None \<Rightarrow> just (all_of [])
     | Some x \<Rightarrow>
         let f = (js_field_node env lang (class_fqn @ ''.'' @ text_of env x) (text_of env x) ''field'' ''class'' n)
               \<lparr>n_is_static := has_child_type n ''static''\<rparr>
         in once (n_id f) (new_field env class_id n f
              (case child_by_field n ''type'' of None \<Rightarrow> [] | Some ann \<Rightarrow> js_type_refs env ''OF_TYPE'' (n_id f) ann)))"

definition is_function_value :: "tree option \<Rightarrow> bool" where
  "is_function_value v = (case v of None \<Rightarrow> False | Some x \<Rightarrow> has_type FUNC_EXPR_TYPES x)"

definition handle_module_global :: "file_env \<Rightarrow> string \<Rightarrow> string \<Rightarrow> string \<Rightarrow> tree \<Rightarrow> emitter" where
  "handle_module_global env lang parent container d = (case identifier_or_none (child_by_field d ''name'') of None \<Rightarrow> just (all_of [])
     | Some x \<Rightarrow>
         if is_function_value (child_by_field d ''value'') then just (all_of [])
         else let f = js_field_node env lang (child_fqn parent (text_of env x)) (text_of env x) ''global_variable'' ''module'' d
           in once (n_id f) (new_field env container d f []))"

section \<open>Classes and functions\<close>

text \<open>What a class and a function emit before what they contain.\<close>

definition js_class_head :: "file_env \<Rightarrow> string \<Rightarrow> string \<Rightarrow> string \<Rightarrow> string \<Rightarrow> bool \<Rightarrow> tree \<Rightarrow> canonical_bundle" where
  "js_class_head env lang fqn nm container is_interface n =
     (let f = js_class_node env lang fqn nm is_interface n
      in all_of [a_node f, contains env container n (n_id f), some_refs (heritage_refs env (n_id f) is_interface n)])"

definition js_function_head :: "file_env \<Rightarrow> string \<Rightarrow> string \<Rightarrow> string \<Rightarrow> string \<Rightarrow> bool \<Rightarrow> bool \<Rightarrow> tree \<Rightarrow> canonical_bundle" where
  "js_function_head env lang fqn nm container is_method signature_only n =
     (let f = js_function_node env lang fqn nm is_method signature_only n
      in all_of [a_node f, contains env container n (n_id f), some_refs
           ((case child_by_field n ''return_type'' of None \<Rightarrow> [] | Some rt \<Rightarrow> js_type_refs env ''RETURNS'' (n_id f) rt)
            @ (case child_by_field n ''parameters'' of None \<Rightarrow> []
               | Some ps \<Rightarrow> concat (map (\<lambda>p. case child_by_field p ''type'' of None \<Rightarrow> [] | Some t \<Rightarrow> js_type_refs env ''HAS_TYPE'' (n_id f) t)
                   (filter is_typed_parameter (named_children ps)))))])"

definition js_body_refs :: "file_env \<Rightarrow> string \<Rightarrow> js_types \<Rightarrow> string \<Rightarrow> tree option \<Rightarrow> tree \<Rightarrow> raw_ref list" where
  "js_body_refs env mid fields1 class_name ps body =
     concat (map (js_call_refs env mid (scope_var_types (fe_src env) ps (Some body) fields1 class_name) fields1 class_name) (scope_calls (Some body)))
     @ java_target_refs env mid body"

text \<open>The declaration in a statement, below its export.\<close>

definition declaration_of :: "tree \<Rightarrow> tree option" where
  "declaration_of stmt = (if t_type stmt = ''export_statement'' then child_by_field stmt ''declaration'' else Some stmt)"

lemma declaration_smaller [termination_simp]: "stmt \<in> set (named_children c) \<Longrightarrow> declaration_of stmt = Some n \<Longrightarrow> size n < size c"
  by (auto simp: declaration_of_def split: if_splits dest!: named_smaller field_smaller)

lemma declared_value_smaller [termination_simp]:
  "stmt \<in> set (named_children c) \<Longrightarrow> declaration_of stmt = Some n \<Longrightarrow> d \<in> set (named_children n) \<Longrightarrow> child_by_field d f = Some v \<Longrightarrow> size v < size c"
  using declaration_smaller [of stmt c n] named_smaller [of d n] field_smaller [of d f v] by simp

lemma class_member_smaller [termination_simp]: "child_by_field n f = Some b \<Longrightarrow> m \<in> set (named_children b) \<Longrightarrow> size m < size n"
  using field_smaller [of n f b] named_smaller [of m b] by simp

text \<open>\<open>_emit_function\<close>, \<open>handle_class\<close> and \<open>_walk_container\<close>.\<close>

fun js_function :: "file_env \<Rightarrow> string \<Rightarrow> string \<Rightarrow> string \<Rightarrow> string \<Rightarrow> bool \<Rightarrow> bool \<Rightarrow> js_types \<Rightarrow> string \<Rightarrow> tree \<Rightarrow> emitter"
  and js_class :: "file_env \<Rightarrow> string \<Rightarrow> string \<Rightarrow> string \<Rightarrow> bool \<Rightarrow> tree \<Rightarrow> emitter"
  and walk_container :: "file_env \<Rightarrow> string \<Rightarrow> string \<Rightarrow> string \<Rightarrow> tree \<Rightarrow> emitter" where
  "js_function env lang parent container nm is_method signature_only fields1 class_name n =
     (let fqn = child_fqn parent nm; mid = n_id (js_function_node env lang fqn nm is_method signature_only n)
      in in_order
        [just (js_function_head env lang fqn nm container is_method signature_only n),
         case child_by_field n ''body'' of None \<Rightarrow> just (all_of [])
         | Some b \<Rightarrow> if signature_only then just (all_of [])
             else in_order [just (some_refs (js_body_refs env mid fields1 class_name (child_by_field n ''parameters'') b)),
                    walk_container env lang fqn mid b]])"
| "js_class env lang parent container is_interface n =
     (let nm = name_text (fe_src env) n; fqn = child_fqn parent nm; cid = n_id (js_class_node env lang fqn nm is_interface n) in
      if nm = [] then just (all_of [])
      else in_order
        [just (js_class_head env lang fqn nm container is_interface n),
         case child_by_field n ''body'' of None \<Rightarrow> just (all_of [])
         | Some b \<Rightarrow> in_order (map (\<lambda>m.
             if has_type (''method_signature'' # METHOD_TYPES) m
             then (if name_text (fe_src env) m = [] then just (all_of [])
                   else js_function env lang fqn cid (name_text (fe_src env) m) True (t_type m = ''method_signature'')
                          (collect_field_types (fe_src env) b) nm m)
             else if has_type FIELD_TYPES m then handle_field env lang fqn cid m
             else just (all_of [])) (named_children b))])"
| "walk_container env lang parent container c = in_order (map (\<lambda>stmt.
     case declaration_of stmt of None \<Rightarrow> just (all_of [])
     | Some n \<Rightarrow>
         if has_type CLASS_TYPES n then js_class env lang parent container False n
         else if t_type n = ''interface_declaration'' then js_class env lang parent container True n
         else if has_type FUNC_DECL_TYPES n
         then (if name_text (fe_src env) n = [] then just (all_of [])
               else js_function env lang parent container (name_text (fe_src env) n) False False Map.empty [] n)
         else if has_type [''lexical_declaration'', ''variable_declaration''] n
         then in_order (map (\<lambda>d. if t_type d \<noteq> ''variable_declarator'' then just (all_of [])
                else in_order
                  [case child_by_field d ''value'' of None \<Rightarrow> just (all_of [])
                   | Some v \<Rightarrow> (case identifier_or_none (child_by_field d ''name'') of None \<Rightarrow> just (all_of [])
                       | Some x \<Rightarrow> if has_type FUNC_EXPR_TYPES v
                           then js_function env lang parent container (text_of env x) False False Map.empty [] v else just (all_of [])),
                   if container = code_id env (fe_file env) ''file'' then handle_module_global env lang parent container d
                   else just (all_of [])]) (named_children n))
         else just (all_of [])) (named_children c))"

declare js_function.simps [simp del] js_class.simps [simp del] walk_container.simps [simp del]

section \<open>The file\<close>

definition extract_javascript :: "file_env \<Rightarrow> string \<Rightarrow> tree \<Rightarrow> canonical_bundle" where
  "extract_javascript env lang root =
     (let file_id = n_id (source_node env lang root)
      in all_of [a_node (source_node env lang root),
           some_refs (concat (map (js_import_refs env file_id) (filter (has_type [''import_statement'']) (named_children root)))),
           fst (walk_container env lang (js_module_fqn (fe_file env)) file_id root {})])"

end
