(* ===== verification/JsProps.thy ===== *)
theory JsProps
  imports JsExtract "HOL-Library.Multiset"
begin

text \<open>
  What the extractor of JavaScript and TypeScript returns, for every tree the parser may give: a consistent
  bundle, whose containment edges are a tree over the declarations and in which every field is created once;
  and which calls and Java targets a function is given.
\<close>

section \<open>Nodes and references\<close>

lemma js_node_ids [simp]:
  "n_id (js_class_node env lang fqn nm i n) = code_id env fqn ''class''" "n_label (js_class_node env lang fqn nm i n) = ''Class''"
  "n_id (js_field_node env lang fqn nm k sc n) = code_id env fqn ''field''" "n_label (js_field_node env lang fqn nm k sc n) = ''Field''"
  "n_id (js_function_node env lang fqn nm m s n) = code_id env fqn (js_function_kind m)"
  "n_label (js_function_node env lang fqn nm m s n) = ''Function''"
  by (simp_all add: js_class_node_def js_field_node_def js_function_node_def Let_def)

lemma js_code_types [simp]: "''IMPLEMENTS'' \<in> CODE_REF_TYPES" "''HANDLED_BY'' \<in> CODE_REF_TYPES"
  by (simp_all add: CODE_REF_TYPES_def)

lemma js_ref_from [from_node]: "t \<in> CODE_REF_TYPES \<Longrightarrow> refs_from s (js_ref env t s g h n)"
  by (simp add: js_ref_def)

lemma js_type_refs_from [from_node]: "t \<in> CODE_REF_TYPES \<Longrightarrow> refs_from s (js_type_refs env t s n)"
  by (auto simp: js_type_refs_def list_all_iff from_node split: list.splits)

lemma js_import_refs_from [from_node]: "refs_from s (js_import_refs env s n)"
  by (auto simp: js_import_refs_def js_ref_def Let_def list_all_iff split: if_splits)

lemma heritage_refs_from [from_node]: "refs_from s (heritage_refs env s i n)"
  by (auto simp: heritage_refs_def Let_def list_all_iff from_node split: list.split)

lemma js_call_refs_from [from_node]: "refs_from s (js_call_refs env s vars fs c call)"
  by (auto simp: js_call_refs_def js_ref_def Let_def split: option.split)

lemma target_ref_ends [simp]: "r_src (target_ref env s tn) = s" "r_type (target_ref env s tn) \<in> CODE_REF_TYPES"
  by (simp_all add: target_ref_def)

lemma js_body_refs_from [from_node]: "refs_from s (js_body_refs env s fs c ps b)"
  by (simp add: js_body_refs_def java_target_refs_def list_all_iff from_node)

section \<open>Parts\<close>

lemma handle_field_emits:
  assumes "\<And>f rs. n_label f = ''Field'' \<Longrightarrow> refs_from (n_id f) rs \<Longrightarrow> P (new_field env c n f rs)" "P (all_of [])"
  shows "emits P (handle_field env lang cfqn c n)"
  unfolding handle_field_def Let_def
  by (auto split: option.split intro!: emits_once assms simp: from_node)

lemma handle_module_global_emits:
  assumes "\<And>f rs. n_label f = ''Field'' \<Longrightarrow> refs_from (n_id f) rs \<Longrightarrow> P (new_field env c d f rs)" "P (all_of [])"
  shows "emits P (handle_module_global env lang parent c d)"
  unfolding handle_module_global_def Let_def
  by (auto split: option.split intro!: emits_once assms)

lemma handle_field_fresh: "fresh (handle_field env lang cfqn c n)"
  unfolding handle_field_def Let_def by (auto split: option.split intro!: fresh_once)

lemma handle_module_global_fresh: "fresh (handle_module_global env lang parent c d)"
  unfolding handle_module_global_def Let_def by (auto split: option.split intro!: fresh_once)

lemma js_class_head_rooted: "c \<in> ids \<Longrightarrow> rooted ids (js_class_head env lang fqn nm c i n)"
  unfolding js_class_head_def Let_def
  by (intro rooted_under rooted_all_of)
    (auto simp: from_node intro!: contains_rooted refs_from_rooted [where s = "code_id env fqn ''class''"])

lemma js_function_head_rooted: "c \<in> ids \<Longrightarrow> rooted ids (js_function_head env lang fqn nm c m s n)"
  unfolding js_function_head_def Let_def
  by (intro rooted_under rooted_all_of)
    (auto simp: from_node list_all_iff split: option.split
      intro!: contains_rooted refs_from_rooted [where s = "code_id env fqn (js_function_kind m)"])

lemma js_class_head_nested: "c \<in> cs \<Longrightarrow> nested scopes cs fs (js_class_head env lang fqn nm c i n)"
  unfolding js_class_head_def Let_def by (intro nested_class nested_all_of) auto

lemma js_function_head_nested: "c \<in> cs \<Longrightarrow> nested ls cs fs (js_function_head env lang fqn nm c m s n)"
  unfolding js_function_head_def Let_def by (intro nested_function nested_all_of) auto

lemma js_head_ids [simp]: "code_id env fqn ''class'' \<in> n_id ` set (b_nodes (js_class_head env lang fqn nm c i n))"
  "code_id env fqn (js_function_kind m) \<in> n_id ` set (b_nodes (js_function_head env lang fqn nm c m s n))"
  "code_id env fqn ''class'' \<in> set (ids_of scopes (js_class_head env lang fqn nm c i n))"
  "code_id env fqn (js_function_kind m) \<in> set (ids_of scopes (js_function_head env lang fqn nm c m s n))"
  by (simp_all add: js_class_head_def js_function_head_def Let_def)

lemma js_head_fresh: "fresh (just (js_class_head env lang fqn nm c i n))" "fresh (just (js_function_head env lang fqn nm c m s n))"
  by (auto intro!: fresh_just simp: js_class_head_def js_function_head_def Let_def)

section \<open>The walk\<close>

lemma js_walk_fresh:
  "fresh (js_function env lang parent c nm m s fs cn n)"
  "fresh (js_class env lang parent c i n)"
  "fresh (walk_container env lang parent c b)"
proof (induction env lang parent c nm m s fs cn n and env lang parent c i n and env lang parent c b
    rule: js_function_js_class_walk_container.induct)
  case (1 env lang parent container nm is_method signature_only fields1 class_name n)
  show ?case
    unfolding js_function.simps [of env lang parent container nm is_method signature_only fields1 class_name n] Let_def
    by (rule fresh_in_order) (use "1.IH" in \<open>auto split: option.split intro!: fresh_in_order js_head_fresh\<close>)
next
  case (2 env lang parent container is_interface n)
  show ?case
    unfolding js_class.simps [of env lang parent container is_interface n] Let_def
    using "2.IH" by (auto split: option.split intro!: fresh_in_order js_head_fresh handle_field_fresh)
next
  case (3 env lang parent container c)
  show ?case
    unfolding walk_container.simps [of env lang parent container c] Let_def
    by (rule fresh_in_order) (use "3.IH" in \<open>auto split: option.split intro!: fresh_in_order handle_module_global_fresh\<close>)
qed

lemma js_walk_rooted:
  "c \<in> ids \<Longrightarrow> emits (rooted ids) (js_function env lang parent c nm m s fs cn n)"
  "c \<in> ids \<Longrightarrow> emits (rooted ids) (js_class env lang parent c i n)"
  "c \<in> ids \<Longrightarrow> emits (rooted ids) (walk_container env lang parent c b)"
proof (induction env lang parent c nm m s fs cn n and env lang parent c i n and env lang parent c b
    arbitrary: ids and ids and ids rule: js_function_js_class_walk_container.induct)
  case (1 env lang parent container nm is_method signature_only fields1 class_name n)
  show ?case
    unfolding js_function.simps [of env lang parent container nm is_method signature_only fields1 class_name n] Let_def
    by (rule rooted_after [OF js_function_head_rooted])
      (use 1 in \<open>auto split: option.split simp: from_node intro!: rooted_all_of emits_rooted
        refs_from_rooted [where s = "code_id env (child_fqn parent nm) (js_function_kind is_method)"]\<close>)
next
  case (2 env lang parent container is_interface n)
  let ?nm = "name_text (fe_src env) n"
  show ?case
  proof (cases "?nm = []")
    case False
    show ?thesis
      unfolding js_class.simps [of env lang parent container is_interface n] Let_def js_node_ids if_not_P [OF False]
      by (rule rooted_after [OF js_class_head_rooted])
        (use 2 False in \<open>auto split: option.split intro!: rooted_all_of emits_rooted handle_field_emits new_field_rooted\<close>)
  qed (simp add: js_class.simps [of env lang parent container is_interface n] rooted_all_of)
next
  case (3 env lang parent container c)
  show ?case
    unfolding walk_container.simps [of env lang parent container c] Let_def
    by (rule emits_rooted) (use 3 in \<open>auto split: option.split
      intro!: rooted_all_of emits_rooted handle_module_global_emits new_field_rooted\<close>)
qed

lemma js_walk_nested:
  "c \<in> cs \<Longrightarrow> emits (nested scopes cs hs) (js_function env lang parent c nm m s fs cn n)"
  "c \<in> cs \<Longrightarrow> emits (nested scopes cs hs) (js_class env lang parent c i n)"
  "c \<in> cs \<Longrightarrow> emits (nested scopes cs hs) (walk_container env lang parent c b)"
proof (induction env lang parent c nm m s fs cn n and env lang parent c i n and env lang parent c b
    arbitrary: cs hs and cs hs and cs hs rule: js_function_js_class_walk_container.induct)
  case (1 env lang parent container nm is_method signature_only fields1 class_name n)
  show ?case
    unfolding js_function.simps [of env lang parent container nm is_method signature_only fields1 class_name n] Let_def
    by (rule nested_after [OF js_function_head_nested])
      (use 1 in \<open>auto split: option.split intro!: emits_nested\<close>)
next
  case (2 env lang parent container is_interface n)
  let ?nm = "name_text (fe_src env) n"
  show ?case
  proof (cases "?nm = []")
    case False
    show ?thesis
      unfolding js_class.simps [of env lang parent container is_interface n] Let_def js_node_ids if_not_P [OF False]
      by (rule nested_after [OF js_class_head_nested])
        (use 2 False in \<open>auto split: option.split intro!: emits_nested handle_field_emits new_field_nested\<close>)
  qed (simp add: js_class.simps [of env lang parent container is_interface n])
next
  case (3 env lang parent container c)
  show ?case
    unfolding walk_container.simps [of env lang parent container c] Let_def
    by (rule emits_nested) (use 3 in \<open>auto split: option.split
      intro!: emits_nested handle_module_global_emits new_field_nested\<close>)
qed

section \<open>The file\<close>

text \<open>C6: whatever tree the parser returns, the bundle of a JavaScript or TypeScript file is consistent; containment is a
  tree over its declarations, with one edge to each class, function and field, in their order, from the file,
  a class or a function of the file; and no field is created twice.\<close>

theorem extract_js_sound:
  "bundle_ok (extract_javascript env lang root)
   \<and> map e_dst (edges_of ''CONTAINS'' (extract_javascript env lang root))
       = ids_of [''Class'', ''Function'', ''Field''] (extract_javascript env lang root)
   \<and> e_src ` set (edges_of ''CONTAINS'' (extract_javascript env lang root))
       \<subseteq> set (ids_of [''File'', ''Class'', ''Function''] (extract_javascript env lang root))
   \<and> distinct (ids_of [''Field''] (extract_javascript env lang root))"
proof -
  let ?f = "code_id env (fe_file env) ''file''" and ?b = "extract_javascript env lang root"
  define w where "w = walk_container env lang (js_module_fqn (fe_file env)) ?f root {}"
  define rs where "rs = concat (map (js_import_refs env ?f) (filter (has_type [''import_statement'']) (named_children root)))"
  have ex: "?b = all_of [a_node (source_node env lang root), some_refs rs, fst w]"
    by (simp add: extract_javascript_def Let_def w_def rs_def)
  have rs: "refs_from ?f rs" by (simp add: rs_def list_all_iff from_node)
  have w: "rooted {?f} (fst w)" "nested scopes {?f} {} (fst w)"
    using js_walk_rooted(3) [of ?f "{?f}" env lang "js_module_fqn (fe_file env)" root]
      js_walk_nested(3) [of ?f "{?f}" "{}" env lang "js_module_fqn (fe_file env)" root]
    by (simp_all add: emits_def w_def)
  have "rooted {} ?b"
    unfolding ex by (intro rooted_under rooted_all_of) (use w rs in \<open>auto intro!: refs_from_rooted [where s = ?f]\<close>)
  moreover have n: "nested scopes {?f} {} (all_of [some_refs rs, fst w])"
    by (rule nested_all_of) (use w in auto)
  moreover have "distinct (field_ids ?b)"
    using js_walk_fresh(3) [of env lang "js_module_fqn (fe_file env)" ?f root] by (auto simp: ex fresh_def w_def)
  moreover have "map e_dst (edges_of ''CONTAINS'' ?b) = ids_of declared_labels ?b
    \<and> map e_dst (edges_of ''EXPOSES'' ?b) = ids_of [''Endpoint''] ?b
    \<and> e_src ` set (edges_of ''CONTAINS'' ?b) \<subseteq> set (ids_of (''File'' # scopes) ?b)
    \<and> e_src ` set (edges_of ''EXPOSES'' ?b) \<subseteq> set (ids_of [''Function''] ?b)"
    using n by (rule nested_file) (simp_all add: ex)
  ultimately show ?thesis unfolding rooted_none field_ids_def by blast
qed

section \<open>Calls and Java targets\<close>

text \<open>The nodes of a scope in the order of the file; the walk visits them with the children reversed.\<close>

fun own_nodes :: "(tree \<Rightarrow> bool) \<Rightarrow> tree \<Rightarrow> tree list" where
  "own_nodes leaf t =
     (if has_type SCOPE_BOUNDARY t then [] else if leaf t then [t] else t # concat (map (own_nodes leaf) (t_children t)))"

declare own_nodes.simps [simp del]

abbreviation own_scope :: "(tree \<Rightarrow> bool) \<Rightarrow> tree \<Rightarrow> tree list" where
  "own_scope leaf body \<equiv> concat (map (own_nodes leaf) (t_children body))"

lemma js_stack_own: "mset (js_stack leaf ts) = mset (concat (map (own_nodes leaf) ts))"
proof (induction leaf ts rule: js_stack.induct)
  case (2 leaf n stack)
  then show ?case by (simp add: own_nodes.simps [of leaf n] mset_concat rev_map [symmetric] ac_simps)
qed simp

lemma js_scope_own: "mset (js_scope leaf (Some b)) = mset (own_scope leaf b)"
  by (simp add: js_scope_def js_stack_own mset_concat rev_map [symmetric])

lemma mset_map_filter: "mset xs = mset ys \<Longrightarrow> mset (List.map_filter f xs) = mset (List.map_filter f ys)"
  by (simp add: List.map_filter_def)

definition js_call_ref :: "file_env \<Rightarrow> string \<Rightarrow> js_types \<Rightarrow> js_types \<Rightarrow> string \<Rightarrow> tree \<Rightarrow> raw_ref option" where
  "js_call_ref env mid vars fs cn call = (case child_by_field call ''function'' of None \<Rightarrow> None
     | Some fn \<Rightarrow> if member_tail (fe_src env) fn = [] then None
         else Some ((code_ref env ''CALLS'' mid (member_tail (fe_src env) fn) ''call'' fn)
           \<lparr>r_recv := js_receiver (fe_src env) fn,
            r_call_arity := (case child_by_field call ''arguments'' of None \<Rightarrow> -1 | Some args \<Rightarrow> int (length (named_children args))),
            r_recv_type := callee_receiver_type (fe_src env) fn vars fs cn\<rparr>))"

definition ref_is :: "string \<Rightarrow> raw_ref \<Rightarrow> bool" where
  "ref_is t r \<longleftrightarrow> r_type r = t"

lemma js_call_refs_of: "concat (map (js_call_refs env mid vars fs cn) xs) = List.map_filter (js_call_ref env mid vars fs cn) xs"
  by (induction xs) (auto simp: List.map_filter_simps js_call_refs_def js_call_ref_def js_ref_def Let_def split: option.splits)

lemma js_call_kinds: "filter (ref_is t) (List.map_filter (js_call_ref env mid vars fs cn) cs) =
    (if t = ''CALLS'' then List.map_filter (js_call_ref env mid vars fs cn) cs else [])"
proof -
  have "ref_is t r = (t = ''CALLS'')" if "js_call_ref env mid vars fs cn c = Some r" for c r
    using that by (auto simp: js_call_ref_def ref_is_def split: option.splits if_splits)
  then show ?thesis by (induction cs) (auto simp: List.map_filter_simps split: option.splits)
qed

lemma target_ref_is [simp]:
  "ref_is ''CALLS'' (target_ref env mid tn) = False" "ref_is ''HANDLED_BY'' (target_ref env mid tn) = (\<not> fst (fst tn))"
  by (simp_all add: ref_is_def target_ref_def)

lemma calls_of_body: "filter (ref_is ''CALLS'') (js_body_refs env mid fs cn ps b) =
  List.map_filter (js_call_ref env mid (scope_var_types (fe_src env) ps (Some b) fs cn) fs cn) (scope_calls (Some b))"
  by (simp add: js_body_refs_def js_call_refs_of js_call_kinds java_target_refs_def filter_map comp_def)

lemma handlers_of_body: "filter (ref_is ''HANDLED_BY'') (js_body_refs env mid fs cn ps b) =
  map (target_ref env mid) (filter (\<lambda>tn. \<not> fst (fst tn)) (kept fst {} (List.map_filter java_target (scope_strings (fe_src env) (Some b)))))"
  by (simp add: js_body_refs_def js_call_refs_of js_call_kinds java_target_refs_def filter_map comp_def)

lemma class_target_name: "\<not> fst (fst tn) \<Longrightarrow> r_target_name (target_ref env mid tn) = snd (fst tn)"
  by (simp add: target_ref_def code_ref_def mk_ref_def)

lemma class_targets_distinct:
  "distinct (map fst ts) \<Longrightarrow> distinct (map (\<lambda>tn. r_target_name (target_ref env mid tn)) (filter (\<lambda>tn. \<not> fst (fst tn)) ts))"
  by (induction ts) (auto simp: class_target_name image_iff prod_eq_iff)

lemma class_targets_set:
  "(\<lambda>tn. r_target_name (target_ref env mid tn)) ` {tn \<in> set (kept fst {} ts). \<not> fst (fst tn)} = {c. (False, c) \<in> fst ` set ts}"
proof -
  have "(\<lambda>tn. r_target_name (target_ref env mid tn)) ` {tn \<in> T. \<not> fst (fst tn)} = {c. (False, c) \<in> fst ` T}" for T
    by (force simp: class_target_name)
  then show ?thesis by (simp add: kept_keys)
qed

lemma java_target_is_class: "java_target x = Some ((False, c), n) \<longleftrightarrow>
  n = snd x \<and> c \<noteq> [] \<and> servlet_url (fst x) = [] \<and> c = java_class_target (fst x)"
  by (auto simp: java_target_def Let_def)

lemma java_target_class: "(False, c) \<in> fst ` set (List.map_filter java_target xs) \<longleftrightarrow>
  c \<noteq> [] \<and> (\<exists>x \<in> set xs. servlet_url (fst x) = [] \<and> c = java_class_target (fst x))"
proof -
  have "(False, c) \<in> fst ` set (List.map_filter java_target xs) \<longleftrightarrow> (\<exists>n. ((False, c), n) \<in> set (List.map_filter java_target xs))"
    by (force simp: image_iff)
  then show ?thesis unfolding map_filter_mem java_target_is_class by auto
qed

lemma strings_of_scope: "(\<exists>x \<in> set (scope_strings src (Some b)). servlet_url (fst x) = [] \<and> c = java_class_target (fst x)) \<and> c \<noteq> []
  \<longleftrightarrow> c \<noteq> [] \<and> (\<exists>n \<in> set (filter is_js_string (own_scope is_js_string b)).
        servlet_url (literal_text src n) = [] \<and> c = java_class_target (literal_text src n))"
proof -
  have "set (js_scope is_js_string (Some b)) = set (own_scope is_js_string b)"
    using js_scope_own [of is_js_string b] by (metis set_mset_mset)
  moreover have "java_class_target [] = []" by (simp add: java_class_target_def strip_where_def)
  ultimately show ?thesis by (auto simp: scope_strings_def)
qed

text \<open>C7: a function is given one call reference for every call expression of its own scope that has a name, none for
  the calls of the functions and classes nested in it; and one reference to every Java class that a string of its
  scope names, however often, unless the string is the path of a servlet.\<close>

theorem js_refs_exact:
  "mset (filter (ref_is ''CALLS'') (js_body_refs env mid fs cn ps b)) =
     mset (List.map_filter (js_call_ref env mid (scope_var_types (fe_src env) ps (Some b) fs cn) fs cn)
       (filter (\<lambda>d. t_type d = ''call_expression'') (own_scope (\<lambda>n. False) b)))
   \<and> distinct (map r_target_name (filter (ref_is ''HANDLED_BY'') (js_body_refs env mid fs cn ps b)))
   \<and> r_target_name ` set (filter (ref_is ''HANDLED_BY'') (js_body_refs env mid fs cn ps b)) =
       {c. c \<noteq> [] \<and> (\<exists>n \<in> set (filter is_js_string (own_scope is_js_string b)).
         servlet_url (literal_text (fe_src env) n) = [] \<and> c = java_class_target (literal_text (fe_src env) n))}"
proof (intro conjI)
  have "mset (scope_calls (Some b)) = mset (filter (\<lambda>d. t_type d = ''call_expression'') (own_scope (\<lambda>n. False) b))"
    by (simp add: scope_calls_def has_type_def js_scope_own)
  then show "mset (filter (ref_is ''CALLS'') (js_body_refs env mid fs cn ps b)) =
     mset (List.map_filter (js_call_ref env mid (scope_var_types (fe_src env) ps (Some b) fs cn) fs cn)
       (filter (\<lambda>d. t_type d = ''call_expression'') (own_scope (\<lambda>n. False) b)))"
    unfolding calls_of_body by (rule mset_map_filter)
next
  show "distinct (map r_target_name (filter (ref_is ''HANDLED_BY'') (js_body_refs env mid fs cn ps b)))"
    unfolding handlers_of_body map_map comp_def by (rule class_targets_distinct) (rule kept_distinct)
next
  let ?ts = "List.map_filter java_target (scope_strings (fe_src env) (Some b))"
  have "r_target_name ` set (filter (ref_is ''HANDLED_BY'') (js_body_refs env mid fs cn ps b)) = {c. (False, c) \<in> fst ` set ?ts}"
    unfolding handlers_of_body class_targets_set [of env mid, symmetric] by (simp add: image_image)
  also have "\<dots> = {c. c \<noteq> [] \<and> (\<exists>n \<in> set (filter is_js_string (own_scope is_js_string b)).
         servlet_url (literal_text (fe_src env) n) = [] \<and> c = java_class_target (literal_text (fe_src env) n))}"
    unfolding java_target_class using strings_of_scope [of "fe_src env" b] by blast
  finally show "r_target_name ` set (filter (ref_is ''HANDLED_BY'') (js_body_refs env mid fs cn ps b)) = \<dots>" .
qed

end
