(* ===== verification/Discovery.thy ===== *)
theory Discovery
  imports FileNames "HOL-Library.List_Lexorder" "HOL-Library.Product_Lexorder" "HOL-Library.Char_ord"
begin

text \<open>
  Finding the files of a repository (\<open>graph_core/discovery.py\<close>): the walk over the tree, the list of candidates,
  reading them in batches, and the hash of a code base.  A tree of directories stands for the
  file system; a file without contents is one that cannot be read.  Hashes are arguments.
\<close>

section \<open>Tables\<close>

definition IGNORE_DIRS :: "string list" where
  "IGNORE_DIRS = [''.git'', ''.venv'', ''venv'', ''env'', ''node_modules'', ''__pycache__'', ''build'', ''target'', ''dist'', ''out'', ''bin'',
     ''.idea'', ''.gradle'', ''.mvn'', ''.pytest_cache'', ''.mypy_cache'', ''site-packages'', ''__MACOSX'']"

definition ARTIFACT_IGNORE_DIRS :: "string list" where
  "ARTIFACT_IGNORE_DIRS = filter (\<lambda>d. d \<notin> set ARTIFACT_DIR_OVERRIDES) IGNORE_DIRS"

definition EXT_LANG :: "(string \<times> string) list" where
  "EXT_LANG = [(''.java'', ''java''), (''.py'', ''python''), (''.sql'', ''sql''), (''.jsp'', ''jsp''), (''.jspf'', ''jsp''), (''.tag'', ''jsp''),
     (''.js'', ''javascript''), (''.jsx'', ''javascript''), (''.mjs'', ''javascript''), (''.cjs'', ''javascript''),
     (''.ts'', ''typescript''), (''.mts'', ''typescript''), (''.cts'', ''typescript''), (''.tsx'', ''tsx'')]"

definition is_macos_cruft :: "string \<Rightarrow> bool" where
  "is_macos_cruft filename = py_startswith filename ''._''"

definition source_lang :: "string \<Rightarrow> string option" where
  "source_lang nm = (if artifact_kind nm \<noteq> None then None else map_of EXT_LANG (path_ext nm))"

section \<open>The tree and the walk\<close>

datatype folder = Folder (files_in: "(string \<times> string option) list") (folders_in: "(string \<times> folder) list")

definition below :: "string \<Rightarrow> string \<Rightarrow> string" where
  "below rel nm = (if rel = [] then nm else rel @ ''/'' @ nm)"

lemma subfolder_smaller [termination_simp]: "(d, sub) \<in> set ds \<Longrightarrow> size sub < Suc (size_list (size_prod (\<lambda>x. 0) size) ds)"
  by (induction ds) auto

text \<open>\<open>os.walk\<close>, top down, with the ignored directories taken out of the list it goes on with; every file with its
  path below the root, its name and its contents.\<close>

fun walk :: "string list \<Rightarrow> string \<Rightarrow> folder \<Rightarrow> (string \<times> string \<times> string option) list" where
  "walk ignored rel (Folder fs ds) =
     map (\<lambda>(fn, src). (below rel fn, fn, src)) fs
     @ concat (map (\<lambda>(d, sub). if d \<in> set ignored then [] else walk ignored (below rel d) sub) ds)"

section \<open>Files of the repository\<close>

record file_info =
  in_relpath :: string
  in_lang :: string
  in_sha :: string
  in_source :: string

definition info_of :: "(string \<Rightarrow> string) \<Rightarrow> string \<Rightarrow> string \<Rightarrow> string option \<Rightarrow> file_info option" where
  "info_of hash rel lang src = (case src of None \<Rightarrow> None | Some s \<Rightarrow> Some \<lparr>in_relpath = rel, in_lang = lang, in_sha = hash s, in_source = s\<rparr>)"

definition discover_walk :: "(string \<Rightarrow> string) \<Rightarrow> folder \<Rightarrow> file_info list" where
  "discover_walk hash t = List.map_filter (\<lambda>(rel, fn, src).
     if is_macos_cruft fn then None
     else case source_lang fn of None \<Rightarrow> None | Some l \<Rightarrow> info_of hash rel l src) (walk IGNORE_DIRS [] t)"

text \<open>With a list of candidates: \<open>reads\<close> opens the file that the components of a path lead to.\<close>

definition discover_candidates :: "(string \<Rightarrow> string) \<Rightarrow> (string list \<Rightarrow> string option) \<Rightarrow> string list \<Rightarrow> file_info list" where
  "discover_candidates hash reads rels = List.map_filter (\<lambda>rel.
     if is_macos_cruft (basename rel) then None
     else case source_lang rel of None \<Rightarrow> None | Some l \<Rightarrow> info_of hash rel l (reads (split_on CHR ''/'' rel))) rels"

definition list_candidate_relpaths :: "folder \<Rightarrow> string list" where
  "list_candidate_relpaths t = List.map_filter (\<lambda>(rel, fn, src).
     if is_macos_cruft fn \<or> source_lang fn = None then None else Some (forward_slashes rel)) (walk IGNORE_DIRS [] t)"

definition discover_artifacts :: "folder \<Rightarrow> (string \<times> string) list" where
  "discover_artifacts t = List.map_filter (\<lambda>(rel, fn, src).
     if is_macos_cruft fn then None else map_option (\<lambda>k. (forward_slashes rel, k)) (artifact_kind fn)) (walk ARTIFACT_IGNORE_DIRS [] t)"

text \<open>The manifest is a dictionary: a path seen again keeps its place and gets the later hash.\<close>

definition build_manifest :: "file_info list \<Rightarrow> (string \<times> string) list" where
  "build_manifest infos = fold (\<lambda>f m. AList.update (in_relpath f) (in_sha f) m) infos []"

definition codebase_hash :: "(string \<Rightarrow> string) \<Rightarrow> (string \<times> string) list \<Rightarrow> string" where
  "codebase_hash sha1 manifest = sha1 (join_with CHR 0x0A (map (\<lambda>(rel, sha). rel @ '':'' @ sha) (sort manifest)))"

section \<open>Reading in batches\<close>

fun read_in :: "folder \<Rightarrow> string list \<Rightarrow> string option" where
  "read_in (Folder fs ds) [] = None"
| "read_in (Folder fs ds) [n] = (case map_of fs n of None \<Rightarrow> None | Some src \<Rightarrow> src)"
| "read_in (Folder fs ds) (n # m # rest) = (case map_of ds n of None \<Rightarrow> None | Some sub \<Rightarrow> read_in sub (m # rest))"

definition plain_name :: "string \<Rightarrow> bool" where
  "plain_name n \<longleftrightarrow> n \<noteq> [] \<and> CHR ''/'' \<notin> set n \<and> CHR 0x5C \<notin> set n"

fun plain_tree :: "folder \<Rightarrow> bool" where
  "plain_tree (Folder fs ds) \<longleftrightarrow> distinct (map fst fs) \<and> distinct (map fst ds) \<and> list_all (\<lambda>x. plain_name (fst x)) fs
     \<and> list_all (\<lambda>(d, sub). plain_name d \<and> plain_tree sub) ds"

text \<open>The walk by the components of the paths.\<close>

fun entries :: "string list \<Rightarrow> folder \<Rightarrow> (string list \<times> string option) list" where
  "entries ignored (Folder fs ds) = map (\<lambda>(fn, src). ([fn], src)) fs
     @ concat (map (\<lambda>(d, sub). if d \<in> set ignored then [] else map (\<lambda>(p, src). (d # p, src)) (entries ignored sub)) ds)"

lemma entries_read: "plain_tree t \<Longrightarrow> (p, src) \<in> set (entries ignored t) \<Longrightarrow> p \<noteq> [] \<and> list_all plain_name p \<and> read_in t p = src"
proof (induction ignored t arbitrary: p src rule: entries.induct)
  case (1 ignored fs ds)
  from "1.prems"(2) consider fn where "(fn, src) \<in> set fs" "p = [fn]"
    | d sub q where "(d, sub) \<in> set ds" "d \<notin> set ignored" "(q, src) \<in> set (entries ignored sub)" "p = d # q"
    by (fastforce split: if_splits)
  then show ?case
  proof cases
    case 1
    with "1.prems"(1) show ?thesis by (force simp: list_all_iff)
  next
    case 2
    have s: "plain_tree sub" "plain_name d" "map_of ds d = Some sub" using 2(1) "1.prems"(1) by (auto simp: list_all_iff)
    have "q \<noteq> [] \<and> list_all plain_name q \<and> read_in sub q = src" using "1.IH" [OF 2(1) refl 2(2) s(1) 2(3)] .
    with s 2(4) show ?thesis by (cases q) auto
  qed
qed

lemma join_snoc: "p \<noteq> [] \<Longrightarrow> join_with c (p @ [x]) = join_with c p @ c # x"
  by (induction c p rule: join_with.induct) auto

lemma split_joined: "p \<noteq> [] \<Longrightarrow> list_all (\<lambda>s. c \<notin> set s) p \<Longrightarrow> split_on c (join_with c p) = p"
proof (induction c p rule: join_with.induct)
  case (2 c p)
  then have "c \<notin> set p" by simp
  then show ?case by (induction p) auto
next
  case (3 c p q ps)
  have "split_on c (s @ c # t) = s # split_on c t" if "c \<notin> set s" for s t
    using that by (induction s) auto
  with 3 show ?case by simp
qed simp

lemma join_empty: "list_all plain_name p \<Longrightarrow> join_with CHR ''/'' p = [] \<longleftrightarrow> p = []"
  by (cases "(CHR ''/'', p)" rule: join_with.cases) (auto simp: plain_name_def)

lemma below_join: "list_all plain_name p \<Longrightarrow> below (join_with CHR ''/'' p) n = join_with CHR ''/'' (p @ [n])"
  by (cases "p = []") (auto simp: below_def join_snoc join_empty)

lemma walk_entries:
  "plain_tree t \<Longrightarrow> list_all plain_name pre \<Longrightarrow>
     walk ignored (join_with CHR ''/'' pre) t = map (\<lambda>(p, src). (join_with CHR ''/'' (pre @ p), last p, src)) (entries ignored t)"
proof (induction ignored t arbitrary: pre rule: entries.induct)
  case (1 ignored fs ds)
  have "(if d \<in> set ignored then [] else walk ignored (below (join_with CHR ''/'' pre) d) sub) =
      map (\<lambda>(p, src). (join_with CHR ''/'' (pre @ p), last p, src))
        (if d \<in> set ignored then [] else map (\<lambda>(p, src). (d # p, src)) (entries ignored sub))"
    if x: "(d, sub) \<in> set ds" for d sub
  proof (cases "d \<in> set ignored")
    case False
    have s: "plain_tree sub" "plain_name d" using x "1.prems"(1) by (auto simp: list_all_iff)
    have ne: "p \<noteq> []" if "(p, src) \<in> set (entries ignored sub)" for p src using entries_read [OF s(1) that] by blast
    have "walk ignored (below (join_with CHR ''/'' pre) d) sub =
        map (\<lambda>(p, src). (join_with CHR ''/'' ((pre @ [d]) @ p), last p, src)) (entries ignored sub)"
      using "1.IH" [OF x refl False s(1), of "pre @ [d]"] "1.prems"(2) s(2) by (simp add: below_join)
    with False show ?thesis by (auto intro!: map_cong dest: ne)
  qed simp
  then show ?case
    using "1.prems"(2) by (auto simp: below_join map_concat comp_def intro!: arg_cong [where f = concat] map_cong)
qed

lemma map_filter_twice:
  "(\<And>x. x \<in> set xs \<Longrightarrow> Option.bind (g x) f = h x) \<Longrightarrow> List.map_filter f (List.map_filter g xs) = List.map_filter h xs"
proof (induction xs)
  case (Cons a xs)
  have "h a = Option.bind (g a) f" using Cons.prems by simp
  moreover have "List.map_filter f (List.map_filter g xs) = List.map_filter h xs" using Cons by simp
  ultimately show ?case by (simp add: List.map_filter_simps split: option.split)
qed (simp add: List.map_filter_simps)

lemma split_name: "list_all plain_name p \<Longrightarrow> p \<noteq> [] \<Longrightarrow> \<exists>pre. join_with CHR ''/'' p = last p \<or> join_with CHR ''/'' p = pre @ CHR ''/'' # last p"
  by (cases p rule: rev_cases) (auto simp: join_snoc neq_Nil_conv split: list.splits, metis append_is_Nil_conv join_snoc join_with.simps(2) self_append_conv2)

lemma name_of_path:
  assumes "list_all plain_name p" "p \<noteq> []"
  shows "basename (join_with CHR ''/'' p) = last p" "source_lang (join_with CHR ''/'' p) = source_lang (last p)"
    "forward_slashes (join_with CHR ''/'' p) = join_with CHR ''/'' p"
proof -
  have l: "plain_name (last p)" using assms by (auto simp: list_all_iff)
  obtain pre where "join_with CHR ''/'' p = last p \<or> join_with CHR ''/'' p = pre @ CHR ''/'' # last p" using split_name [OF assms] by blast
  then show "basename (join_with CHR ''/'' p) = last p" "source_lang (join_with CHR ''/'' p) = source_lang (last p)"
    using l by (auto simp: basename_of source_lang_def artifact_kind_of path_ext_of plain_name_def)
  have "CHR 0x5C \<notin> set (join_with CHR ''/'' p)"
    using assms(1) by (induction "CHR ''/''" p rule: join_with.induct) (auto simp: plain_name_def)
  then show "forward_slashes (join_with CHR ''/'' p) = join_with CHR ''/'' p" by (rule forward_slashes_none)
qed

lemma batches_read: "discover_candidates hash reads (concat bs) = concat (map (discover_candidates hash reads) bs)"
  by (induction bs) (auto simp: discover_candidates_def List.map_filter_def)

text \<open>C40: in a repository whose file and folder names hold no backslash, listing the candidates first and reading them in batches finds
  the same files, in the same order and with the same contents, as one walk that reads them all, however the list is cut.  With
  a backslash in a name the two differ: the list holds a path with a slash in its place, under which nothing is found.\<close>

theorem batches_find_what_a_walk_finds:
  assumes "plain_tree t" "concat batches = list_candidate_relpaths t"
  shows "concat (map (discover_candidates hash (read_in t)) batches) = discover_walk hash t"
proof -
  have w: "walk IGNORE_DIRS [] t = map (\<lambda>(p, src). (join_with CHR ''/'' p, last p, src)) (entries IGNORE_DIRS t)"
    using walk_entries [OF assms(1), of "[]"] by simp
  have "discover_candidates hash (read_in t) (list_candidate_relpaths t) = discover_walk hash t"
    unfolding discover_candidates_def list_candidate_relpaths_def discover_walk_def
  proof (rule map_filter_twice, unfold w)
    fix x
    assume "x \<in> set (map (\<lambda>(p, src). (join_with CHR ''/'' p, last p, src)) (entries IGNORE_DIRS t))"
    then obtain p src where x: "(p, src) \<in> set (entries IGNORE_DIRS t)" "x = (join_with CHR ''/'' p, last p, src)" by auto
    have e: "p \<noteq> []" "list_all plain_name p" "read_in t p = src" using entries_read [OF assms(1) x(1)] by simp_all
    have "split_on CHR ''/'' (join_with CHR ''/'' p) = p"
      by (rule split_joined) (use e in \<open>auto simp: plain_name_def list_all_iff\<close>)
    with e show "Option.bind (case x of (rel, fn, src) \<Rightarrow> if is_macos_cruft fn \<or> source_lang fn = None then None else Some (forward_slashes rel))
        (\<lambda>rel. if is_macos_cruft (basename rel) then None
          else case source_lang rel of None \<Rightarrow> None | Some l \<Rightarrow> info_of hash rel l (read_in t (split_on CHR ''/'' rel))) =
      (case x of (rel, fn, src) \<Rightarrow> if is_macos_cruft fn then None
        else case source_lang fn of None \<Rightarrow> None | Some l \<Rightarrow> info_of hash rel l src)"
      by (auto simp: x(2) name_of_path)
  qed
  then show ?thesis by (simp only: batches_read [symmetric] assms(2))
qed

definition sample_tree :: folder where
  "sample_tree = Folder [(''A.java'', Some ''class A''), (''notes.txt'', Some ''n''), (''pom.xml'', Some ''p'')]
     [(''build'', Folder [(''B.java'', Some ''class B'')] []), (''src'', Folder [(''c.py'', Some ''x''), (''d.py'', None)] [])]"

lemma batches_find_what_a_walk_finds_witness:
  "plain_tree sample_tree \<and> concat [[''A.java''], [''src/c.py'', ''src/d.py'']] = list_candidate_relpaths sample_tree
   \<and> concat (map (discover_candidates (\<lambda>s. s) (read_in sample_tree)) [[''A.java''], [''src/c.py'', ''src/d.py'']]) = discover_walk (\<lambda>s. s) sample_tree"
proof -
  have a: "plain_tree sample_tree" "concat [[''A.java''], [''src/c.py'', ''src/d.py'']] = list_candidate_relpaths sample_tree"
    by code_simp+
  with batches_find_what_a_walk_finds [OF a] show ?thesis by blast
qed

text \<open>A name with a backslash is listed with a slash in its place, and is not found again.\<close>

lemma backslash_name_lost:
  "map in_relpath (discover_walk (\<lambda>s. s) (Folder [([CHR ''a'', CHR 0x5C] @ ''b.py'', Some ''x'')] [])) = [[CHR ''a'', CHR 0x5C] @ ''b.py'']"
  "discover_candidates (\<lambda>s. s) (read_in (Folder [([CHR ''a'', CHR 0x5C] @ ''b.py'', Some ''x'')] []))
     (list_candidate_relpaths (Folder [([CHR ''a'', CHR 0x5C] @ ''b.py'', Some ''x'')] [])) = []"
  by code_simp+

section \<open>Sources, artifacts and the hash\<close>

text \<open>No file is both a source and an artifact.\<close>

lemma source_no_artifact: "f \<in> set (discover_candidates hash reads rels) \<Longrightarrow> artifact_kind (in_relpath f) = None"
  by (auto simp: discover_candidates_def List.map_filter_def info_of_def source_lang_def split: if_splits option.splits)

text \<open>The hash of a code base does not depend on the order in which its files were found.\<close>

lemma codebase_hash_order: "mset m = mset m' \<Longrightarrow> codebase_hash sha1 m = codebase_hash sha1 m'"
  by (simp add: codebase_hash_def properties_for_sort [of "sort m" m'] )

end
