(* ===== verification/Upload.thy ===== *)
theory Upload
  imports Discovery
begin

text \<open>
  What is kept of an upload, and where it is written (\<open>ingest/upload_utils.py\<close>).  The contents of the archive and the
  files uploaded directly are given as names with bytes; what is written below the new directory is a
  map from paths to bytes.  The directory itself, the progress and the number of workers are left out, and so are
  archives whose members cannot be read, and failures to write other than a file in the place of a directory or a directory in that of a file.
\<close>

section \<open>Paths\<close>

datatype upload_error = Empty_Path | Invalid_Path | Path_Traversal | Drive_Specifier | Absolute_Path | Path_Conflict | No_Files

definition SUPPORTED_CODE_EXTS :: "string list" where
  "SUPPORTED_CODE_EXTS = [''.py'', ''.js'', ''.ts'', ''.tsx'', ''.jsx'', ''.java'', ''.go'', ''.cs'', ''.rb'', ''.php'', ''.rs'', ''.cpp'', ''.c'',
     ''.h'', ''.sql'', ''.jsp'', ''.jspf'', ''.tag'']"

definition DEFAULT_EXCLUDED_DIRS :: "string list" where
  "DEFAULT_EXCLUDED_DIRS = [''.git'', ''node_modules'', ''target'', ''dist'', ''build'', ''out'', ''coverage'', ''vendor'', ''__pycache__'']"

fun check_parts :: "string list \<Rightarrow> upload_error option" where
  "check_parts [] = None"
| "check_parts (part # rest) =
     (if part = ''..'' then Some Path_Traversal else if CHR '':'' \<in> set part then Some Drive_Specifier else check_parts rest)"

definition sanitize_upload_path :: "string \<Rightarrow> upload_error + string" where
  "sanitize_upload_path raw =
     (let p = py_strip (forward_slashes raw); parts = filter (\<lambda>s. s \<noteq> [] \<and> s \<noteq> ''.'') (split_on CHR ''/'' p) in
      if p = [] then Inl Empty_Path
      else if parts = [] then Inl Invalid_Path
      else case check_parts parts of Some e \<Rightarrow> Inl e
        | None \<Rightarrow> if py_startswith (join_with CHR ''/'' parts) ''/'' then Inl Absolute_Path else Inr (join_with CHR ''/'' parts))"

definition excluded_names :: "string list \<Rightarrow> string list" where
  "excluded_names ds = filter (\<lambda>d. d \<noteq> []) (map (\<lambda>d. py_lower (py_strip d)) ds)"

definition path_contains_excluded_dir :: "string \<Rightarrow> string list \<Rightarrow> bool" where
  "path_contains_excluded_dir rel excluded =
     list_ex (\<lambda>seg. py_lower seg \<in> set (excluded_names excluded)) (filter (\<lambda>s. s \<noteq> []) (split_on CHR ''/'' rel))"

definition admits :: "string \<Rightarrow> string list \<Rightarrow> string list \<Rightarrow> bool" where
  "admits rel allowed excluded =
     (if \<not> is_artifact rel \<and> py_lower (path_ext rel) \<notin> set allowed then False
      else \<not> path_contains_excluded_dir rel
             (if is_artifact rel then filter (\<lambda>d. d \<notin> set ARTIFACT_DIR_OVERRIDES) excluded else excluded))"

definition is_macos_zip_cruft :: "string \<Rightarrow> bool" where
  "is_macos_zip_cruft rel =
     (let segments = split_on CHR ''/'' rel in ''__MACOSX'' \<in> set segments \<or> py_startswith (last segments) ''._'')"

section \<open>Writing the files\<close>

text \<open>A path can be written unless a file is in the place of one of its directories, or a directory in its own.\<close>

definition clash :: "string \<Rightarrow> string \<Rightarrow> bool" where
  "clash p q = (strict_prefix (split_on CHR ''/'' p) (split_on CHR ''/'' q) \<or> strict_prefix (split_on CHR ''/'' q) (split_on CHR ''/'' p))"

fun write_all :: "(string \<times> string) list \<Rightarrow> (string \<times> string) list \<Rightarrow> upload_error + (string \<times> string) list" where
  "write_all written [] = Inr written"
| "write_all written ((rel, blob) # rest) =
     (if list_ex (\<lambda>(q, _). clash rel q) written then Inl Path_Conflict else write_all (AList.update rel blob written) rest)"

text \<open>What is kept of an archive and of the direct files, in their order.\<close>

definition admitted_path :: "bool \<Rightarrow> string list \<Rightarrow> string list \<Rightarrow> string \<Rightarrow> string option" where
  "admitted_path archive allowed excluded nm =
     (case sanitize_upload_path nm of Inl e \<Rightarrow> None
      | Inr rel \<Rightarrow> if archive \<and> is_macos_zip_cruft rel \<or> \<not> admits rel allowed excluded then None else Some rel)"

definition admitted :: "bool \<Rightarrow> string list \<Rightarrow> string list \<Rightarrow> (string \<times> string) list \<Rightarrow> (string \<times> string) list" where
  "admitted archive allowed excluded items = List.map_filter (\<lambda>(nm, blob). map_option (\<lambda>rel. (rel, blob)) (admitted_path archive allowed excluded nm))
     (filter (\<lambda>x. \<not> (archive \<and> py_endswith (fst x) ''/'')) items)"

definition all_excluded :: "string list \<Rightarrow> string list" where
  "all_excluded excluded_dirs = DEFAULT_EXCLUDED_DIRS @ excluded_names excluded_dirs"

definition selection :: "(string \<times> string) list \<Rightarrow> (string \<times> string) list \<Rightarrow> upload_error + (string \<rightharpoonup> string) \<times> string list" where
  "selection files written =
     (let selected = sort (remdups (map fst files)) in if selected = [] then Inl No_Files else Inr (map_of written, selected))"

definition materialize_uploaded_sources ::
    "(string \<times> string) list \<Rightarrow> (string \<times> string) list \<Rightarrow> string list \<Rightarrow> string list \<Rightarrow> upload_error + (string \<rightharpoonup> string) \<times> string list" where
  "materialize_uploaded_sources direct archive allowed_exts excluded_dirs =
     (let allowed = map py_lower allowed_exts; excluded = all_excluded excluded_dirs;
          files = admitted True allowed excluded archive @ admitted False allowed excluded direct
      in case write_all [] files of Inl e \<Rightarrow> Inl e | Inr written \<Rightarrow> selection files written)"

text \<open>From an archive on disk: all directories are made first, then workers write the files, in an order that is
  not determined: \<open>finished\<close> is a permutation of what is kept.\<close>

fun write_concurrently :: "string list \<Rightarrow> (string \<times> string) list \<Rightarrow> (string \<times> string) list \<Rightarrow> upload_error + (string \<times> string) list" where
  "write_concurrently paths written [] = Inr written"
| "write_concurrently paths written ((rel, blob) # rest) =
     (if list_ex (\<lambda>q. strict_prefix (split_on CHR ''/'' rel) (split_on CHR ''/'' q)) paths then Inl Path_Conflict
      else write_concurrently paths (AList.update rel blob written) rest)"

definition materialize_from_zip_path ::
    "((string \<times> string) list \<Rightarrow> (string \<times> string) list) \<Rightarrow> (string \<times> string) list \<Rightarrow> string list \<Rightarrow> string list \<Rightarrow>
       upload_error + (string \<rightharpoonup> string) \<times> string list" where
  "materialize_from_zip_path schedule archive allowed_exts excluded_dirs =
     (let files = admitted True (map py_lower allowed_exts) (all_excluded excluded_dirs) archive; finished = schedule files
      in case write_concurrently (map fst files) [] finished of Inl e \<Rightarrow> Inl e | Inr written \<Rightarrow> selection finished written)"

section \<open>What is written stays below the root\<close>

definition safe_part :: "string \<Rightarrow> bool" where
  "safe_part s \<longleftrightarrow> s \<noteq> [] \<and> s \<noteq> ''.'' \<and> s \<noteq> ''..'' \<and> CHR ''/'' \<notin> set s \<and> CHR 0x5C \<notin> set s \<and> CHR '':'' \<notin> set s"

definition safe_path :: "string \<Rightarrow> bool" where
  "safe_path rel \<longleftrightarrow> list_all safe_part (split_on CHR ''/'' rel)"

lemma split_parts: "s \<in> set (split_on c t) \<Longrightarrow> c \<notin> set s \<and> set s \<subseteq> set t"
  by (induction c t arbitrary: s rule: split_on.induct) (fastforce split: if_splits list.splits)+

lemma strip_subset: "set (strip_where p s) \<subseteq> set s"
  by (auto simp: strip_where_def dest!: set_dropWhileD)

lemma check_parts_None: "check_parts parts = None \<Longrightarrow> list_all (\<lambda>s. s \<noteq> ''..'' \<and> CHR '':'' \<notin> set s) parts"
  by (induction parts) (auto split: if_splits)

lemma sanitized_safe: "sanitize_upload_path raw = Inr rel \<Longrightarrow> safe_path rel"
proof -
  assume a: "sanitize_upload_path raw = Inr rel"
  let ?p = "py_strip (forward_slashes raw)" and ?parts = "filter (\<lambda>s. s \<noteq> [] \<and> s \<noteq> ''.'') (split_on CHR ''/'' (py_strip (forward_slashes raw)))"
  have r: "rel = join_with CHR ''/'' ?parts" "?parts \<noteq> []" "check_parts ?parts = None"
    using a by (auto simp: sanitize_upload_path_def Let_def split: if_splits option.splits)
  have "CHR 0x5C \<notin> set (forward_slashes raw)" by (auto simp: forward_slashes_def replace_char_def)
  then have b: "CHR 0x5C \<notin> set ?p" using strip_subset [of is_space "forward_slashes raw"] by blast
  have parts: "list_all safe_part ?parts"
    using check_parts_None [OF r(3)] b split_parts [of _ "CHR ''/''" ?p] by (fastforce simp: list_all_iff safe_part_def)
  have "split_on CHR ''/'' rel = ?parts"
    unfolding r(1) by (rule split_joined [OF r(2)]) (use parts in \<open>simp add: list_all_iff safe_part_def\<close>)
  with parts show ?thesis by (simp only: safe_path_def)
qed

text \<open>The test for a leading slash is never true: the parts are not empty and hold no slash.\<close>

lemma no_absolute_path: "sanitize_upload_path raw \<noteq> Inl Absolute_Path"
proof
  assume a: "sanitize_upload_path raw = Inl Absolute_Path"
  let ?parts = "filter (\<lambda>s. s \<noteq> [] \<and> s \<noteq> ''.'') (split_on CHR ''/'' (py_strip (forward_slashes raw)))"
  have e: "check_parts ps \<noteq> Some Absolute_Path" for ps by (induction ps) auto
  have "?parts \<noteq> []" "py_startswith (join_with CHR ''/'' ?parts) ''/''"
    using a e by (auto simp: sanitize_upload_path_def Let_def split: if_splits option.splits)
  then obtain x xs where p: "?parts = x # xs" by (cases ?parts) auto
  then have "x \<in> set ?parts" by simp
  then have x: "x \<noteq> []" "CHR ''/'' \<notin> set x" using split_on_no_sep by auto
  have "\<not> py_startswith (join_with CHR ''/'' (x # xs)) ''/''"
    using x by (cases x; cases xs) (auto simp: py_startswith_def)
  then show False using \<open>py_startswith (join_with CHR ''/'' ?parts) ''/''\<close> unfolding p by blast
qed

lemma admitted_safe: "list_all safe_path (map fst (admitted archive allowed excluded items))"
  by (auto simp: admitted_def admitted_path_def List.map_filter_def list_all_iff sanitized_safe split: sum.splits if_splits prod.splits)

section \<open>What is written\<close>

definition conflicting :: "(string \<times> string) list \<Rightarrow> bool" where
  "conflicting files = list_ex (\<lambda>(p, _). list_ex (\<lambda>(q, _). clash p q) files) files"

lemma clash_facts: "\<not> clash p p" "clash p q \<Longrightarrow> clash q p"
  by (auto simp: clash_def)

lemma clash_moved:
  assumes "\<not> (\<exists>q \<in> W. clash r q)"
  shows "(\<exists>p \<in> F. \<exists>q \<in> ({r} \<union> W) \<union> F. clash p q) \<longleftrightarrow> (\<exists>p \<in> insert r F. \<exists>q \<in> W \<union> insert r F. clash p q)"
proof
  assume "\<exists>p \<in> insert r F. \<exists>q \<in> W \<union> insert r F. clash p q"
  then obtain p q where pq: "p \<in> insert r F" "q \<in> W \<union> insert r F" "clash p q" by blast
  show "\<exists>p \<in> F. \<exists>q \<in> ({r} \<union> W) \<union> F. clash p q"
  proof (cases "p \<in> F")
    case False
    then have "p = r" "q \<in> F" using pq assms clash_facts(1) by auto
    with pq(3) clash_facts(2) show ?thesis by blast
  qed (use pq in blast)
qed blast

lemma write_all_exact:
  "write_all w fs =
     (if \<exists>p \<in> fst ` set fs. \<exists>q \<in> fst ` set w \<union> fst ` set fs. clash p q then Inl Path_Conflict
      else Inr (fold (\<lambda>(r, b). AList.update r b) fs w))"
proof (induction w fs rule: write_all.induct)
  case (2 w rel blob rest)
  let ?W = "fst ` set w" and ?F = "fst ` set rest"
  have now: "list_ex (\<lambda>(q, _). clash rel q) w \<longleftrightarrow> (\<exists>q \<in> ?W. clash rel q)" by (force simp: list_ex_iff)
  show ?case
  proof (cases "\<exists>q \<in> ?W. clash rel q")
    case False
    then have m: "(\<exists>p \<in> ?F. \<exists>q \<in> ({rel} \<union> ?W) \<union> ?F. clash p q) \<longleftrightarrow> (\<exists>p \<in> insert rel ?F. \<exists>q \<in> ?W \<union> insert rel ?F. clash p q)"
      by (rule clash_moved)
    have n: "\<not> list_ex (\<lambda>(q, _). clash rel q) w" using now False by blast
    have "write_all w ((rel, blob) # rest) = write_all (AList.update rel blob w) rest" using n by simp
    also have "\<dots> = (if \<exists>p \<in> insert rel ?F. \<exists>q \<in> ?W \<union> insert rel ?F. clash p q then Inl Path_Conflict
        else Inr (fold (\<lambda>(r, b). AList.update r b) rest (AList.update rel blob w)))"
      unfolding "2.IH" [OF n] dom_update m ..
    finally show ?thesis by (simp only: list.set image_insert fst_conv fold_simps case_prod_conv)
  next
    case True
    then have "list_ex (\<lambda>(q, _). clash rel q) w" using now by blast
    moreover have "\<exists>p \<in> fst ` set ((rel, blob) # rest). \<exists>q \<in> ?W \<union> fst ` set ((rel, blob) # rest). clash p q"
      using True by (simp only: list.set image_insert fst_conv) blast
    ultimately show ?thesis by (simp only: write_all.simps if_True)
  qed
qed simp

lemma conflicting_keys: "conflicting fs \<longleftrightarrow> (\<exists>p \<in> fst ` set fs. \<exists>q \<in> fst ` set fs. clash p q)"
  by (force simp: conflicting_def list_ex_iff)

lemma write_concurrently_exact:
  "write_concurrently ps w fs =
     (if list_ex (\<lambda>(p, _). list_ex (\<lambda>q. strict_prefix (split_on CHR ''/'' p) (split_on CHR ''/'' q)) ps) fs then Inl Path_Conflict
      else Inr (fold (\<lambda>(r, b). AList.update r b) fs w))"
  by (induction ps w fs rule: write_concurrently.induct) auto

lemma written_map: "map_of (fold (\<lambda>(r, b). AList.update r b) fs w) = map_of w ++ map_of (rev fs)"
  by (induction fs arbitrary: w) (auto simp: update_conv' map_add_def fun_eq_iff split: option.splits)

lemma selection_empty: "sort (remdups (map fst fs)) = [] \<longleftrightarrow> fs = []"
  by (cases fs) (auto dest!: arg_cong [where f = set])

lemma upload_decided:
  "materialize_uploaded_sources direct archive exts ds =
     (let files = admitted True (map py_lower exts) (all_excluded ds) archive @ admitted False (map py_lower exts) (all_excluded ds) direct
      in if conflicting files then Inl Path_Conflict
         else if files = [] then Inl No_Files
         else Inr (map_of (rev files), sort (remdups (map fst files))))"
proof -
  define files where "files = admitted True (map py_lower exts) (all_excluded ds) archive @ admitted False (map py_lower exts) (all_excluded ds) direct"
  have "selection files (fold (\<lambda>(r, b). AList.update r b) files []) =
      (if files = [] then Inl No_Files else Inr (map_of (rev files), sort (remdups (map fst files))))"
    using selection_empty [of files] by (simp add: selection_def written_map Let_def)
  then have "materialize_uploaded_sources direct archive exts ds =
      (if conflicting files then Inl Path_Conflict
       else if files = [] then Inl No_Files else Inr (map_of (rev files), sort (remdups (map fst files))))"
    unfolding materialize_uploaded_sources_def Let_def files_def [symmetric] write_all_exact conflicting_keys by simp
  then show ?thesis unfolding Let_def files_def [symmetric] .
qed

text \<open>C39: every path that is written consists of plain names: none is empty, a dot or two dots, none has a slash, a
  backslash or a colon, so nothing is written outside the root.  The upload fails exactly when a path is a directory of
  another or nothing is kept; else each path has the contents of the last file that was kept under it, and the selection is the sorted list of these
  paths.\<close>

theorem upload_exact_and_contained:
  "list_all safe_path (map fst (admitted True (map py_lower exts) (all_excluded ds) archive @ admitted False (map py_lower exts) (all_excluded ds) direct))
   \<and> materialize_uploaded_sources direct archive exts ds =
     (let files = admitted True (map py_lower exts) (all_excluded ds) archive @ admitted False (map py_lower exts) (all_excluded ds) direct
      in if conflicting files then Inl Path_Conflict
         else if files = [] then Inl No_Files
         else Inr (map_of (rev files), sort (remdups (map fst files))))"
  using admitted_safe upload_decided by (simp only: map_append list_all_append simp_thms)

section \<open>Concurrent extraction\<close>

lemma same_entries:
  assumes "distinct (map fst xs)" "mset ys = mset xs"
  shows "map_of (rev ys) = map_of (rev xs)"
proof -
  have "distinct (map fst ys)" using assms by (metis mset_eq_imp_distinct_iff mset_map)
  then have "map_of (rev ys) k = Some v \<longleftrightarrow> (k, v) \<in> set xs" for k v
    using assms(2) by (simp add: rev_map [symmetric]) (metis set_mset_mset)
  moreover have "map_of (rev xs) k = Some v \<longleftrightarrow> (k, v) \<in> set xs" for k v
    using assms(1) by (simp add: rev_map [symmetric])
  ultimately show ?thesis by (metis option.exhaust ext)
qed

lemma sort_remdups_mset: "set xs = set ys \<Longrightarrow> sort (remdups xs) = sort (remdups ys)"
  by (metis sorted_list_of_set_sort_remdups)

text \<open>Whatever order the workers finish in, an archive in which no two kept names come to the same path is extracted
  as it would be in order, with the same files, the same selection and the same failures.\<close>

theorem workers_agree:
  assumes "mset (schedule (admitted True (map py_lower exts) (all_excluded ds) archive)) = mset (admitted True (map py_lower exts) (all_excluded ds) archive)"
    "distinct (map fst (admitted True (map py_lower exts) (all_excluded ds) archive))"
  shows "materialize_from_zip_path schedule archive exts ds = materialize_uploaded_sources [] archive exts ds"
proof -
  let ?f = "admitted True (map py_lower exts) (all_excluded ds) archive"
  let ?d = "schedule ?f"
  have s: "set ?d = set ?f" using assms(1) by (metis set_mset_mset)
  have c: "list_ex (\<lambda>(p, _). list_ex (\<lambda>q. strict_prefix (split_on CHR ''/'' p) (split_on CHR ''/'' q)) (map fst ?f)) ?d \<longleftrightarrow> conflicting ?f"
  proof -
    have "(\<exists>p \<in> K. \<exists>q \<in> K. strict_prefix (split_on CHR ''/'' p) (split_on CHR ''/'' q)) \<longleftrightarrow> (\<exists>p \<in> K. \<exists>q \<in> K. clash p q)" for K
      unfolding clash_def by blast
    moreover have "list_ex (\<lambda>(p, _). list_ex (\<lambda>q. strict_prefix (split_on CHR ''/'' p) (split_on CHR ''/'' q)) (map fst ?f)) ?d
        \<longleftrightarrow> (\<exists>p \<in> fst ` set ?f. \<exists>q \<in> fst ` set ?f. strict_prefix (split_on CHR ''/'' p) (split_on CHR ''/'' q))"
      using s by (force simp: list_ex_iff)
    ultimately show ?thesis by (simp only: conflicting_keys)
  qed
  have e: "?d = [] \<longleftrightarrow> ?f = []" using assms(1) by (metis mset_zero_iff)
  have z: "admitted False a b [] = []" for a b by (simp add: admitted_def List.map_filter_simps)
  have m: "map_of (rev ?d) = map_of (rev ?f)" by (rule same_entries [OF assms(2,1)])
  have k: "sort (remdups (map fst ?d)) = sort (remdups (map fst ?f))" by (rule sort_remdups_mset) (simp add: s)
  have "materialize_uploaded_sources [] archive exts ds =
      (if conflicting ?f then Inl Path_Conflict else if ?f = [] then Inl No_Files else Inr (map_of (rev ?f), sort (remdups (map fst ?f))))"
    using upload_decided [of "[]" archive exts ds] by (simp only: z append_Nil2 Let_def)
  moreover have "materialize_from_zip_path schedule archive exts ds =
      (if conflicting ?f then Inl Path_Conflict else if ?f = [] then Inl No_Files else Inr (map_of (rev ?f), sort (remdups (map fst ?f))))"
  proof -
    have "selection ?d (fold (\<lambda>(r, b). AList.update r b) ?d []) =
        (if ?f = [] then Inl No_Files else Inr (map_of (rev ?f), sort (remdups (map fst ?f))))"
      using selection_empty [of ?f] by (simp add: selection_def written_map Let_def k m)
    then show ?thesis by (simp add: materialize_from_zip_path_def Let_def write_concurrently_exact c)
  qed
  ultimately show ?thesis by simp
qed

definition sample_archive :: "(string \<times> string) list" where
  "sample_archive = [(''src/'', []), (''src/A.java'', ''a''), (''./src/b.PY'', ''b''), (''../evil.py'', ''e''), (''node_modules/x.js'', ''x''),
     (''target/A.class'', ''c''), (''__MACOSX/src/._A.java'', ''m'')]"

lemma workers_agree_witness:
  "mset (rev (admitted True (map py_lower SUPPORTED_CODE_EXTS) (all_excluded []) sample_archive))
     = mset (admitted True (map py_lower SUPPORTED_CODE_EXTS) (all_excluded []) sample_archive)
   \<and> distinct (map fst (admitted True (map py_lower SUPPORTED_CODE_EXTS) (all_excluded []) sample_archive))
   \<and> map fst (admitted True (map py_lower SUPPORTED_CODE_EXTS) (all_excluded []) sample_archive) = [''src/A.java'', ''src/b.PY'', ''target/A.class'']
   \<and> materialize_from_zip_path rev sample_archive SUPPORTED_CODE_EXTS [] = materialize_uploaded_sources [] sample_archive SUPPORTED_CODE_EXTS []"
proof -
  have a: "map fst (admitted True (map py_lower SUPPORTED_CODE_EXTS) (all_excluded []) sample_archive) = [''src/A.java'', ''src/b.PY'', ''target/A.class'']"
    by code_simp
  have d: "distinct (map fst (admitted True (map py_lower SUPPORTED_CODE_EXTS) (all_excluded []) sample_archive))" unfolding a by simp
  have m: "mset (rev (admitted True (map py_lower SUPPORTED_CODE_EXTS) (all_excluded []) sample_archive))
      = mset (admitted True (map py_lower SUPPORTED_CODE_EXTS) (all_excluded []) sample_archive)" by simp
  show ?thesis using workers_agree [of rev, OF m d] a d m by blast
qed

text \<open>Two names of one path: what is found there depends on which worker finishes last.\<close>

lemma workers_disagree:
  "map_option fst (case materialize_from_zip_path (\<lambda>x. x) [(''a.py'', ''1''), (''./a.py'', ''2'')] [''.py''] [] of Inl e \<Rightarrow> None | Inr r \<Rightarrow> Some (fst r ''a.py'', ()))
     = Some (Some ''2'')"
  "map_option fst (case materialize_from_zip_path rev [(''a.py'', ''1''), (''./a.py'', ''2'')] [''.py''] [] of Inl e \<Rightarrow> None | Inr r \<Rightarrow> Some (fst r ''a.py'', ()))
     = Some (Some ''1'')"
  by code_simp+

section \<open>Where the upload and the discovery disagree\<close>

text \<open>Languages that discovery knows and the upload leaves out, and a name that the upload takes and discovery does
  not.\<close>

lemma sources_stripped: "filter (\<lambda>e. e \<notin> set SUPPORTED_CODE_EXTS) (map fst EXT_LANG) = [''.mjs'', ''.cjs'', ''.mts'', ''.cts'']"
  by (simp add: EXT_LANG_def SUPPORTED_CODE_EXTS_def)

lemma upper_case_unread: "admits ''A.JAVA'' SUPPORTED_CODE_EXTS DEFAULT_EXCLUDED_DIRS" "source_lang ''A.JAVA'' = None"
  by code_simp+

end
