(* ===== verification/SummaryJson.thy ===== *)
theory SummaryJson
  imports Contract Priority
begin

text \<open>
  How a summary, a JSON object, is read where its signals are derived and its calls are counted
  (\<open>derive_signals\<close> in \<open>analysis/priority.py\<close>, \<open>unknown_callee_rate\<close> in \<open>analysis/contract.py\<close>): which
  values are false, what a value is iterated over, and which values make the source raise.  \<open>None\<close> is an
  exception; \<open>py_str\<close>, an argument, is Python's \<open>str\<close> on values that are not strings.  A float is zero when its digits are.
\<close>

section \<open>Values\<close>

definition nonzero_float :: "string \<Rightarrow> bool" where
  "nonzero_float s = list_ex (\<lambda>c. c \<in> set ''123456789'') (takeWhile (\<lambda>c. c \<notin> set ''eE'') s)"

definition truthy :: "json \<Rightarrow> bool" where
  "truthy j = (case j of JNull \<Rightarrow> False | JBool b \<Rightarrow> b | JInt i \<Rightarrow> i \<noteq> 0 | JFloat s \<Rightarrow> nonzero_float s | JStr s \<Rightarrow> s \<noteq> []
     | JArr xs \<Rightarrow> xs \<noteq> [] | JObj kvs \<Rightarrow> kvs \<noteq> [])"

definition flag :: "fields \<Rightarrow> string \<Rightarrow> bool" where
  "flag kvs k = (case map_of kvs k of None \<Rightarrow> False | Some v \<Rightarrow> truthy v)"

text \<open>\<open>for x in kvs.get(k) or []\<close>.\<close>

definition elements :: "fields \<Rightarrow> string \<Rightarrow> json list option" where
  "elements kvs k = (case map_of kvs k of None \<Rightarrow> Some []
     | Some v \<Rightarrow> if \<not> truthy v then Some []
         else (case v of JArr xs \<Rightarrow> Some xs | JStr s \<Rightarrow> Some (map (\<lambda>c. JStr [c]) s) | JObj kvs \<Rightarrow> Some (map (\<lambda>x. JStr (fst x)) kvs) | _ \<Rightarrow> None))"

text \<open>\<open>kvs.get(k) or {}\<close>, of which members are read.\<close>

definition block_in :: "fields \<Rightarrow> string \<Rightarrow> fields option" where
  "block_in kvs k = (case map_of kvs k of None \<Rightarrow> Some []
     | Some v \<Rightarrow> if \<not> truthy v then Some [] else (case v of JObj inner \<Rightarrow> Some inner | _ \<Rightarrow> None))"

definition str_of :: "(json \<Rightarrow> string) \<Rightarrow> json \<Rightarrow> string" where
  "str_of py_str j = (case j of JStr s \<Rightarrow> s | _ \<Rightarrow> py_str j)"

text \<open>\<open>str(kvs.get(k) or "")\<close>.\<close>

definition text_in :: "(json \<Rightarrow> string) \<Rightarrow> fields \<Rightarrow> string \<Rightarrow> string" where
  "text_in py_str kvs k = (case map_of kvs k of None \<Rightarrow> [] | Some v \<Rightarrow> if truthy v then str_of py_str v else [])"

section \<open>Sets and lists of a summary\<close>

definition is_container :: "json \<Rightarrow> bool" where
  "is_container j = (case j of JArr xs \<Rightarrow> True | JObj kvs \<Rightarrow> True | _ \<Rightarrow> False)"

definition is_str :: "json \<Rightarrow> bool" where
  "is_str j = (case j of JStr s \<Rightarrow> True | _ \<Rightarrow> False)"

text \<open>\<open>{t for t in ... if t and t != "none"}\<close>: a list or an object has no hash.\<close>

definition set_in :: "fields \<Rightarrow> string \<Rightarrow> json list option" where
  "set_in kvs k = (case elements kvs k of None \<Rightarrow> None
     | Some xs \<Rightarrow> let ys = filter (\<lambda>j. truthy j \<and> j \<noteq> JStr ''none'') xs in if list_ex is_container ys then None else Some ys)"

text \<open>Sorting a set of strings and numbers raises.\<close>

definition sorted_in :: "(json \<Rightarrow> string) \<Rightarrow> fields \<Rightarrow> string \<Rightarrow> string list option" where
  "sorted_in py_str kvs k = (case set_in kvs k of None \<Rightarrow> None
     | Some ys \<Rightarrow> if list_ex is_str ys \<and> \<not> list_all is_str ys then None else Some (map (str_of py_str) ys))"

definition finding_levels :: "(json \<Rightarrow> string) \<Rightarrow> json list \<Rightarrow> (string \<times> string) list option" where
  "finding_levels py_str fs =
     (if list_all is_object fs
      then Some (map (\<lambda>f. case f of JObj kvs \<Rightarrow> (text_in py_str kvs ''certainty'', text_in py_str kvs ''impact'') | _ \<Rightarrow> ([], [])) fs) else None)"

section \<open>The summary and its signals\<close>

definition read_summary :: "(json \<Rightarrow> string) \<Rightarrow> fields \<Rightarrow> summary option" where
  "read_summary py_str kvs =
     Option.bind (block_in kvs ''db'') (\<lambda>db.
     Option.bind (block_in kvs ''source'') (\<lambda>src.
     Option.bind (block_in kvs ''guards'') (\<lambda>guards.
     Option.bind (block_in kvs ''contracts'') (\<lambda>contracts.
     Option.bind (set_in kvs ''touches'') (\<lambda>touched.
     Option.bind (Option.bind (elements kvs ''findings'') (finding_levels py_str)) (\<lambda>found.
     Option.bind (sorted_in py_str src ''kinds'') (\<lambda>kinds.
     Option.bind (elements contracts ''unguarded_calls'') (\<lambda>unguarded_calls.
     Option.bind (elements contracts ''swallowed_exception_calls'') (\<lambda>swallowed.
     Some \<lparr>sm_acquires = flag db ''acquires'', sm_released_in_finally = flag db ''released_in_finally'',
       sm_resources_leaked = (if flag db ''resources_leaked'' then [text_in py_str db ''resources_leaked''] else []),
       sm_throws_between = flag db ''throws_between_acquire_and_release'', sm_sql_is_dynamic = flag db ''sql_is_dynamic'',
       sm_touches = map (str_of py_str) (filter is_str touched), sm_is_entry_point = flag src ''is_entry_point'',
       sm_reads_untrusted = flag src ''reads_untrusted'', sm_kinds = kinds, sm_is_sanitizer = flag guards ''is_sanitizer'',
       sm_authenticates = flag guards ''authenticates'', sm_authorizes = flag guards ''authorizes'',
       sm_validates_input = flag guards ''validates_input'', sm_findings = found,
       sm_may_return_null = flag contracts ''may_return_null'', sm_null_condition = text_in py_str contracts ''null_condition'',
       sm_returns_sentinel = text_in py_str contracts ''returns_sentinel'',
       sm_unguarded_calls = map (str_of py_str) unguarded_calls, sm_swallowed_calls = map (str_of py_str) swallowed\<rparr>)))))))))"

definition signals_of :: "(json \<Rightarrow> string) \<Rightarrow> fields \<Rightarrow> signals option" where
  "signals_of py_str kvs = map_option derive_signals (read_summary py_str kvs)"

section \<open>Claimed callees\<close>

definition callee_tail :: "string \<Rightarrow> string" where
  "callee_tail nm = py_strip (before_first CHR ''('' (after_last CHR ''.'' nm))"

fun unknown_callee_rate :: "(json \<Rightarrow> string) \<Rightarrow> fields list \<Rightarrow> (string \<Rightarrow> string set) \<Rightarrow> (nat \<times> nat) option" where
  "unknown_callee_rate py_str [] known = Some (0, 0)"
| "unknown_callee_rate py_str (row # rows) known =
     (case elements row ''calls'' of None \<Rightarrow> None
      | Some names \<Rightarrow> map_option (\<lambda>(u, t).
          (u + length (filter (\<lambda>nm. let tl1 = callee_tail (str_of py_str nm) in tl1 \<noteq> [] \<and> tl1 \<notin> known (text_in py_str row ''id'')) names),
           t + length names)) (unknown_callee_rate py_str rows known))"

section \<open>Summaries that follow the schema\<close>

text \<open>An object with the types of the schema is read without an exception.\<close>

definition typed_list :: "(json \<Rightarrow> bool) \<Rightarrow> fields \<Rightarrow> string \<Rightarrow> bool" where
  "typed_list p kvs k \<longleftrightarrow> (case map_of kvs k of None \<Rightarrow> True | Some (JArr xs) \<Rightarrow> list_all p xs | _ \<Rightarrow> False)"

definition typed_block :: "fields \<Rightarrow> string \<Rightarrow> bool" where
  "typed_block kvs k \<longleftrightarrow> (case map_of kvs k of None \<Rightarrow> True | Some v \<Rightarrow> is_object v)"

definition inner :: "fields \<Rightarrow> string \<Rightarrow> fields" where
  "inner kvs k = (case map_of kvs k of Some (JObj i) \<Rightarrow> i | _ \<Rightarrow> [])"

definition typed_summary :: "fields \<Rightarrow> bool" where
  "typed_summary kvs \<longleftrightarrow> typed_block kvs ''db'' \<and> typed_block kvs ''source'' \<and> typed_block kvs ''guards'' \<and> typed_block kvs ''contracts''
     \<and> typed_list is_str kvs ''touches'' \<and> typed_list is_object kvs ''findings'' \<and> typed_list is_str (inner kvs ''source'') ''kinds''
     \<and> typed_list is_str (inner kvs ''contracts'') ''unguarded_calls'' \<and> typed_list is_str (inner kvs ''contracts'') ''swallowed_exception_calls''"

lemma block_in_typed: "typed_block kvs k \<Longrightarrow> block_in kvs k = Some (inner kvs k)"
  by (auto simp: typed_block_def block_in_def inner_def truthy_def is_object_def split: option.splits json.splits)

lemma elements_typed: "typed_list p kvs k \<Longrightarrow> \<exists>xs. elements kvs k = Some xs \<and> list_all p xs"
  by (auto simp: typed_list_def elements_def truthy_def split: option.splits json.splits)

lemma set_in_typed: "typed_list is_str kvs k \<Longrightarrow> \<exists>ys. set_in kvs k = Some ys \<and> list_all is_str ys"
  using elements_typed [of is_str kvs k]
  by (auto simp: set_in_def Let_def list_all_iff list_ex_iff is_str_def is_container_def split: json.splits)

lemma typed_signals: "typed_summary kvs \<Longrightarrow> signals_of py_str kvs \<noteq> None"
proof -
  assume t: "typed_summary kvs"
  then obtain touched found kinds us ss where
    "set_in kvs ''touches'' = Some touched" "elements kvs ''findings'' = Some found" "list_all is_object found"
    "set_in (inner kvs ''source'') ''kinds'' = Some kinds" "list_all is_str kinds"
    "elements (inner kvs ''contracts'') ''unguarded_calls'' = Some us" "elements (inner kvs ''contracts'') ''swallowed_exception_calls'' = Some ss"
    unfolding typed_summary_def by (metis set_in_typed elements_typed)
  with t show ?thesis
    by (simp add: signals_of_def read_summary_def block_in_typed typed_summary_def sorted_in_def finding_levels_def)
qed

text \<open>A block or a finding of another type raises, although the response was accepted.\<close>

lemma untyped_raises:
  "validate (JObj [(''summaries'', JArr [JObj [(''id'', JStr ''f''), (''db'', JObj [(''acquires'', JBool True)]), (''source'', JObj []),
      (''guards'', JObj []), (''contracts'', JObj []), (''findings'', JArr [JStr ''leak''])]])]) [''f'']
    = Inr [[(''id'', JStr ''f''), (''db'', JObj [(''acquires'', JBool True)]), (''source'', JObj []),
      (''guards'', JObj []), (''contracts'', JObj []), (''findings'', JArr [JStr ''leak''])]]"
  "signals_of py_str [(''id'', JStr ''f''), (''db'', JObj [(''acquires'', JBool True)]), (''source'', JObj []),
      (''guards'', JObj []), (''contracts'', JObj []), (''findings'', JArr [JStr ''leak''])] = None"
proof -
  show "validate (JObj [(''summaries'', JArr [JObj [(''id'', JStr ''f''), (''db'', JObj [(''acquires'', JBool True)]), (''source'', JObj []),
      (''guards'', JObj []), (''contracts'', JObj []), (''findings'', JArr [JStr ''leak''])]])]) [''f'']
    = Inr [[(''id'', JStr ''f''), (''db'', JObj [(''acquires'', JBool True)]), (''source'', JObj []),
      (''guards'', JObj []), (''contracts'', JObj []), (''findings'', JArr [JStr ''leak''])]]"
    by code_simp
qed (simp add: signals_of_def read_summary_def block_in_def elements_def finding_levels_def set_in_def truthy_def is_object_def)

end
