(* ===== verification/FilePass.thy ===== *)
theory FilePass
  imports SummaryJson Paths
begin

text \<open>
  The pass that summarizes every function (\<open>analysis/file_pass.py\<close>), with the parts of \<open>analysis/store.py\<close> it
  reads and writes.  The answers of the model are an argument, by file, chunk and attempt, and so are the
  contents of files and the order in which the workers finish.  Prompts, timing and logging are left
  out.  An exception in a worker loses the file; one while summaries are written ends the pass.
\<close>

section \<open>One request\<close>

record llm_result =
  lr_text :: string
  lr_error :: string
  lr_parsed :: "json option"
  lr_throttled :: bool
  lr_input :: int
  lr_output :: int
  lr_cache_read :: int
  lr_cache_write :: int

definition lr_ok :: "llm_result \<Rightarrow> bool" where
  "lr_ok r = (lr_error r = [] \<and> lr_text r \<noteq> [])"

text \<open>What is raised as \<open>ValidationError\<close>; the other two are a \<open>TypeError\<close>.\<close>

definition is_validation_error :: "contract_error \<Rightarrow> bool" where
  "is_validation_error e = (case e of Unhashable \<Rightarrow> False | Not_Assignable b \<Rightarrow> False | _ \<Rightarrow> True)"

fun attempts :: "llm_result list \<Rightarrow> string list \<Rightarrow> llm_result list \<Rightarrow> contract_error + fields list \<times> llm_result list" where
  "attempts [] expected sofar = Inr ([], sofar)"
| "attempts (res # later) expected sofar =
     (if \<not> lr_ok res then attempts later expected (sofar @ [res])
      else case lr_parsed res of None \<Rightarrow> attempts later expected (sofar @ [res])
        | Some p \<Rightarrow> (case validate p expected of Inr rows \<Rightarrow> Inr (rows, sofar @ [res])
            | Inl e \<Rightarrow> if is_validation_error e then attempts later expected (sofar @ [res]) else Inl e))"

definition run_chunk :: "(nat \<Rightarrow> llm_result) \<Rightarrow> string list \<Rightarrow> contract_error + fields list \<times> llm_result list" where
  "run_chunk ask expected = attempts [ask 1, ask 2] expected []"

section \<open>One file\<close>

record fn_state =
  fs_body_hash :: string
  fs_summary_hash :: "string option"
  fs_schema :: nat
  fs_summary :: "fields option"
  fs_signals :: "signals option"

definition needs_summary :: "fn_state \<Rightarrow> bool" where
  "needs_summary f = (fs_body_hash f \<noteq> [] \<and> (fs_summary_hash f \<noteq> Some (fs_body_hash f) \<or> fs_schema f < SCHEMA_VERSION))"

record summary_row =
  row_id :: string
  row_summary :: fields
  row_hash :: string

text \<open>\<open>by_id[row["id"]]\<close>; a missing key raises.\<close>

definition to_row :: "(string \<times> string) list \<Rightarrow> fields \<Rightarrow> summary_row option" where
  "to_row chunk row = (case map_of row ''id'' of
     Some (JStr i) \<Rightarrow> map_option (\<lambda>h. \<lparr>row_id = i, row_summary = row, row_hash = h\<rparr>) (map_of chunk i) | _ \<Rightarrow> None)"

record file_result =
  fr_rows :: "summary_row list"
  fr_results :: "llm_result list"
  fr_calls :: nat
  fr_rereads :: nat
  fr_rejected :: nat

definition empty_result :: file_result where
  "empty_result = \<lparr>fr_rows = [], fr_results = [], fr_calls = 0, fr_rereads = 0, fr_rejected = 0\<rparr>"

fun do_chunks :: "(nat \<Rightarrow> nat \<Rightarrow> llm_result) \<Rightarrow> nat \<Rightarrow> (string \<times> string) list list \<Rightarrow> file_result \<Rightarrow> file_result option" where
  "do_chunks ask idx [] r = Some r"
| "do_chunks ask idx (chunk # later) r =
     (case run_chunk (ask idx) (map fst chunk) of Inl e \<Rightarrow> None
      | Inr (rows, res) \<Rightarrow>
          let r1 = r\<lparr>fr_results := fr_results r @ res, fr_calls := fr_calls r + length res,
                     fr_rereads := fr_rereads r + (if idx = 0 then length res - 1 else length res)\<rparr>
          in if rows = [] then do_chunks ask (Suc idx) later (r1\<lparr>fr_rejected := Suc (fr_rejected r1)\<rparr>)
             else if list_all (\<lambda>row. to_row chunk row \<noteq> None) rows
             then do_chunks ask (Suc idx) later (r1\<lparr>fr_rows := fr_rows r1 @ List.map_filter (to_row chunk) rows\<rparr>)
             else None)"

datatype file_outcome = Unreadable | Raised | Done file_result nat nat

definition do_file :: "(json \<Rightarrow> string) \<Rightarrow> (string \<Rightarrow> string set) \<Rightarrow> nat \<Rightarrow> (nat \<Rightarrow> nat \<Rightarrow> llm_result) \<Rightarrow> bool \<Rightarrow> (string \<times> string) list \<Rightarrow> file_outcome" where
  "do_file py_str known per_call ask readable pending =
     (if \<not> readable then Unreadable
      else case do_chunks ask 0 (chunks per_call pending) empty_result of None \<Rightarrow> Raised
        | Some r \<Rightarrow> (case unknown_callee_rate py_str (map row_summary (fr_rows r)) known of None \<Rightarrow> Raised
            | Some (unknown, claimed) \<Rightarrow> Done r unknown claimed))"

section \<open>The whole pass\<close>

type_synonym fn_store = "string \<rightharpoonup> fn_state"

definition write_row :: "summary_row \<times> signals \<Rightarrow> fn_store \<Rightarrow> fn_store" where
  "write_row rs db = (case db (row_id (fst rs)) of None \<Rightarrow> db
     | Some f \<Rightarrow> db(row_id (fst rs) \<mapsto> f\<lparr>fs_summary := Some (row_summary (fst rs)), fs_summary_hash := Some (row_hash (fst rs)),
         fs_schema := sig_schema_version (snd rs), fs_signals := Some (snd rs)\<rparr>))"

text \<open>The signals of all rows are derived before any is written.\<close>

definition write_summaries :: "(json \<Rightarrow> string) \<Rightarrow> summary_row list \<Rightarrow> fn_store \<Rightarrow> fn_store option" where
  "write_summaries py_str rows db =
     (if list_ex (\<lambda>r. signals_of py_str (row_summary r) = None) rows then None
      else Some (fold write_row (map (\<lambda>r. (r, the (signals_of py_str (row_summary r)))) rows) db))"

record pass_report =
  fp_files_seen :: nat
  fp_skipped_files :: nat
  fp_skipped_functions :: nat
  fp_summarized :: nat
  fp_calls :: nat
  fp_rereads :: nat
  fp_rejected :: nat
  fp_throttled :: nat
  fp_unknown :: nat
  fp_claimed :: nat
  fp_input :: int
  fp_output :: int
  fp_cache_read :: int
  fp_cache_write :: int
  fp_errors :: "string list"

definition count_file :: "file_result \<Rightarrow> nat \<Rightarrow> nat \<Rightarrow> pass_report \<Rightarrow> pass_report" where
  "count_file r unknown claimed p = p\<lparr>fp_files_seen := Suc (fp_files_seen p), fp_calls := fp_calls p + fr_calls r,
     fp_rereads := fp_rereads p + fr_rereads r, fp_rejected := fp_rejected p + fr_rejected r,
     fp_unknown := fp_unknown p + unknown, fp_claimed := fp_claimed p + claimed,
     fp_throttled := fp_throttled p + length (filter lr_throttled (fr_results r)),
     fp_input := fp_input p + sum_list (map lr_input (fr_results r)), fp_output := fp_output p + sum_list (map lr_output (fr_results r)),
     fp_cache_read := fp_cache_read p + sum_list (map lr_cache_read (fr_results r)),
     fp_cache_write := fp_cache_write p + sum_list (map lr_cache_write (fr_results r))\<rparr>"

text \<open>The loop over the finished files; \<open>None\<close> when writing raises, with the store as it is then.\<close>

fun collect :: "(json \<Rightarrow> string) \<Rightarrow> (string \<times> file_outcome) list \<Rightarrow> pass_report \<Rightarrow> fn_store \<Rightarrow> pass_report option \<times> fn_store" where
  "collect py_str [] p db = (Some p, db)"
| "collect py_str ((relpath, outcome) # later) p db =
     (case outcome of
        Unreadable \<Rightarrow> collect py_str later (p\<lparr>fp_errors := fp_errors p @ [relpath]\<rparr>) db
      | Raised \<Rightarrow> collect py_str later (p\<lparr>fp_errors := fp_errors p @ [relpath]\<rparr>) db
      | Done r unknown claimed \<Rightarrow>
          let p1 = count_file r unknown claimed p
          in if fr_rows r = [] then collect py_str later p1 db
             else (case write_summaries py_str (fr_rows r) db of None \<Rightarrow> (None, db)
                   | Some db1 \<Rightarrow> collect py_str later (p1\<lparr>fp_summarized := fp_summarized p1 + length (fr_rows r)\<rparr>) db1))"

definition pending_of :: "fn_store \<Rightarrow> string list \<Rightarrow> (string \<times> string) list" where
  "pending_of db ids = List.map_filter (\<lambda>i. case db i of None \<Rightarrow> None | Some f \<Rightarrow> if needs_summary f then Some (i, fs_body_hash f) else None) ids"

definition fresh_report :: "fn_store \<Rightarrow> (string \<times> string list) list \<Rightarrow> pass_report" where
  "fresh_report db files = \<lparr>fp_files_seen = 0, fp_skipped_files = length (filter (\<lambda>(f, ids). pending_of db ids = []) files),
     fp_skipped_functions = sum_list (map (\<lambda>(f, ids). length ids - length (pending_of db ids)) files), fp_summarized = 0, fp_calls = 0,
     fp_rereads = 0, fp_rejected = 0, fp_throttled = 0, fp_unknown = 0, fp_claimed = 0, fp_input = 0, fp_output = 0, fp_cache_read = 0,
     fp_cache_write = 0, fp_errors = []\<rparr>"

record pass_env =
  pe_str :: "json \<Rightarrow> string"
  pe_callees :: "string \<Rightarrow> string set"
  pe_per_call :: nat
  pe_ask :: "string \<Rightarrow> nat \<Rightarrow> nat \<Rightarrow> llm_result"
  pe_readable :: "string \<Rightarrow> bool"
  pe_schedule :: "(string \<times> file_outcome) list \<Rightarrow> (string \<times> file_outcome) list"

definition outcomes :: "pass_env \<Rightarrow> fn_store \<Rightarrow> (string \<times> string list) list \<Rightarrow> (string \<times> file_outcome) list" where
  "outcomes env db files = map (\<lambda>(f, ids). (f, do_file (pe_str env) (pe_callees env) (pe_per_call env) (pe_ask env f) (pe_readable env f) (pending_of db ids)))
     (filter (\<lambda>(f, ids). pending_of db ids \<noteq> []) files)"

text \<open>\<open>files\<close> is what \<open>files_with_functions\<close> returned: each file with the ids of its functions.\<close>

definition limited :: "nat option \<Rightarrow> 'a list \<Rightarrow> 'a list" where
  "limited limit_files files = (case limit_files of None \<Rightarrow> files | Some n \<Rightarrow> if n = 0 then files else take n files)"

definition run_file_pass :: "pass_env \<Rightarrow> fn_store \<Rightarrow> (string \<times> string list) list \<Rightarrow> nat option \<Rightarrow> pass_report option \<times> fn_store" where
  "run_file_pass env db files limit_files =
     (let files1 = limited limit_files files
      in collect (pe_str env) (pe_schedule env (outcomes env db files1)) (fresh_report db files1) db)"

section \<open>What a chunk gives\<close>

lemma attempts_sound:
  "attempts rs expected sofar = Inr (rows, res) \<Longrightarrow>
     (rows = [] \<or> (\<exists>r \<in> set rs. \<exists>p. lr_ok r \<and> lr_parsed r = Some p \<and> validate p expected = Inr rows))
     \<and> length sofar + (if rs = [] then 0 else 1) \<le> length res \<and> length res \<le> length sofar + length rs"
proof (induction rs arbitrary: sofar)
  case (Cons r later)
  show ?case
  proof (cases "attempts later expected (sofar @ [r]) = Inr (rows, res)")
    case True
    from Cons.IH [OF this] show ?thesis by (auto split: if_splits)
  next
    case False
    then obtain p where "lr_ok r" "lr_parsed r = Some p" "validate p expected = Inr rows" "res = sofar @ [r]"
      using Cons.prems by (auto split: if_splits option.splits sum.splits)
    then show ?thesis by auto
  qed
qed simp

lemma run_chunk_sound:
  assumes "run_chunk ask expected = Inr (rows, res)"
  shows "rows = [] \<or> (\<exists>a \<in> {1, 2}. \<exists>p. lr_ok (ask a) \<and> lr_parsed (ask a) = Some p \<and> validate p expected = Inr rows)"
    "1 \<le> length res \<and> length res \<le> 2"
  using attempts_sound [OF assms [unfolded run_chunk_def]] by auto

text \<open>Nesting keeps the id of a row.\<close>

lemma block_names: "FLAT_TO_NESTED k = Some (block, sub) \<Longrightarrow> k \<noteq> ''id'' \<and> block \<noteq> ''id''"
proof -
  assume "FLAT_TO_NESTED k = Some (block, sub)"
  then have "(k, Some (block, sub)) \<in> set (flat_names SUMMARY_REQUIRED)"
    by (auto simp: FLAT_TO_NESTED_def split: option.splits dest: map_of_SomeD)
  then show ?thesis by (auto simp: required_defs FLATTEN_def)
qed

lemma put_nested_id: "put_nested block sub v out = Inr out1 \<Longrightarrow> block \<noteq> ''id'' \<Longrightarrow> map_of out1 ''id'' = map_of out ''id''"
  by (auto simp: put_nested_def update_conv' split: option.splits json.splits)

lemma nest_items_id:
  "nest_items row out = Inr r \<Longrightarrow> distinct (map fst row) \<Longrightarrow>
     map_of r ''id'' = (case map_of row ''id'' of Some v \<Rightarrow> Some v | None \<Rightarrow> map_of out ''id'')"
proof (induction row out rule: nest_items.induct)
  case (2 k v row out)
  show ?case
  proof (cases "FLAT_TO_NESTED k")
    case None
    have "map_of row ''id'' = None" if "k = ''id''" using 2(4) that by (auto simp: map_of_eq_None_iff)
    with 2 None show ?thesis by (auto simp: update_conv' split: option.splits)
  next
    case (Some bs)
    obtain block sub where bs: "bs = (block, sub)" by fastforce
    obtain out1 where o: "put_nested block sub v out = Inr out1" "nest_items row out1 = Inr r"
      using 2(3) Some bs by (auto split: sum.splits)
    have n: "k \<noteq> ''id''" "block \<noteq> ''id''" using block_names Some bs by blast+
    have "map_of r ''id'' = (case map_of row ''id'' of Some v \<Rightarrow> Some v | None \<Rightarrow> map_of out1 ''id'')"
      using "2.IH"(2) [OF Some bs [symmetric] o(1) o(2)] "2.prems"(2) by simp
    with n put_nested_id [OF o(1) n(2)] show ?thesis by (auto split: option.split)
  qed
qed simp

text \<open>The rows of a response are dictionaries: no key occurs twice.\<close>

definition dict_rows :: "json \<Rightarrow> bool" where
  "dict_rows p \<longleftrightarrow> (case p of JObj kvs \<Rightarrow> (case map_of kvs ''summaries'' of
       Some (JArr rows) \<Rightarrow> list_all (\<lambda>row. case row of JObj k \<Rightarrow> distinct (map fst k) | _ \<Rightarrow> True) rows | _ \<Rightarrow> True) | _ \<Rightarrow> True)"

definition row_key :: "fields \<Rightarrow> json option" where
  "row_key row = map_of row ''id''"

lemma nested_keys:
  "list_all2 (\<lambda>row i. case row of JObj kvs \<Rightarrow> map_of kvs ''id'' = Some (JStr i) | _ \<Rightarrow> False) rows ids \<Longrightarrow>
   list_all2 (\<lambda>row r. case row of JObj kvs \<Rightarrow> nest kvs = Inr r | _ \<Rightarrow> False) rows out \<Longrightarrow>
   list_all (\<lambda>row. case row of JObj k \<Rightarrow> distinct (map fst k) | _ \<Rightarrow> True) rows \<Longrightarrow>
   map row_key out = map (\<lambda>i. Some (JStr i)) ids"
proof (induction rows arbitrary: ids out)
  case (Cons row rows)
  obtain i jds where i: "ids = i # jds" using Cons.prems(1) by (auto simp: list_all2_Cons1)
  obtain r rs where r: "out = r # rs" using Cons.prems(2) by (auto simp: list_all2_Cons1)
  obtain kvs where k: "row = JObj kvs" using Cons.prems(1) i by (cases row) auto
  have "row_key r = Some (JStr i)"
    using Cons.prems nest_items_id [of kvs "[]" r] by (simp add: i r k nest_def row_key_def)
  with Cons show ?case by (simp add: i r)
qed auto

lemma validated_keys:
  assumes "validate p expected = Inr out" "dict_rows p"
  obtains ids where "map row_key out = map (\<lambda>i. Some (JStr i)) ids" "distinct ids" "set ids = set expected"
proof -
  obtain kvs rows ids where v: "p = JObj kvs" "map_of kvs ''summaries'' = Some (JArr rows)" "row_ids rows ids" "distinct ids"
    "set ids = set expected" "nested_as rows out"
    using assms(1) unfolding validate_exact by blast
  have "map row_key out = map (\<lambda>i. Some (JStr i)) ids"
    by (rule nested_keys) (use v assms(2) in \<open>simp_all add: row_ids_def nested_as_def dict_rows_def\<close>)
  with that v show ?thesis by blast
qed

definition chunk_rows :: "(nat \<Rightarrow> nat \<Rightarrow> llm_result) \<Rightarrow> nat \<times> (string \<times> string) list \<Rightarrow> summary_row list" where
  "chunk_rows ask kc = (case run_chunk (ask (fst kc)) (map fst (snd kc)) of Inl e \<Rightarrow> [] | Inr (rows, res) \<Rightarrow> List.map_filter (to_row (snd kc)) rows)"

definition chunk_good :: "(nat \<Rightarrow> nat \<Rightarrow> llm_result) \<Rightarrow> nat \<times> (string \<times> string) list \<Rightarrow> bool" where
  "chunk_good ask kc \<longleftrightarrow> (\<exists>rows res. run_chunk (ask (fst kc)) (map fst (snd kc)) = Inr (rows, res) \<and> list_all (\<lambda>row. to_row (snd kc) row \<noteq> None) rows)"

lemma do_chunks_rows:
  "do_chunks ask idx cs r = Some r' \<Longrightarrow>
     fr_rows r' = fr_rows r @ concat (map (chunk_rows ask) (enumerate idx cs)) \<and> list_all (chunk_good ask) (enumerate idx cs)"
proof (induction ask idx cs r rule: do_chunks.induct)
  case (2 ask idx chunk later r)
  obtain rows res where rc: "run_chunk (ask idx) (map fst chunk) = Inr (rows, res)" using "2.prems" by (auto split: sum.splits)
  show ?case
  proof (cases "rows = []")
    case True
    with 2 rc show ?thesis by (simp add: Let_def chunk_rows_def chunk_good_def List.map_filter_simps)
  next
    case False
    with "2.prems" rc have "list_all (\<lambda>row. to_row chunk row \<noteq> None) rows" by (auto simp: Let_def split: if_splits)
    with 2 rc False show ?thesis by (simp add: Let_def chunk_rows_def chunk_good_def)
  qed
qed simp

lemma do_chunks_counts:
  "do_chunks ask idx cs r = Some r' \<Longrightarrow> fr_calls r = length (fr_results r) \<Longrightarrow>
     fr_calls r' = length (fr_results r') \<and> fr_calls r + length cs \<le> fr_calls r' \<and> fr_calls r' \<le> fr_calls r + 2 * length cs
     \<and> fr_rereads r' + fr_calls r + (if idx = 0 \<and> cs \<noteq> [] then 1 else 0) = fr_calls r' + fr_rereads r
     \<and> fr_rejected r' \<le> fr_rejected r + length cs"
proof (induction ask idx cs r rule: do_chunks.induct)
  case (2 ask idx chunk later r)
  obtain rows res where rc: "run_chunk (ask idx) (map fst chunk) = Inr (rows, res)" using "2.prems" by (auto split: sum.splits)
  have n: "1 \<le> length res" "length res \<le> 2" using run_chunk_sound(2) [OF rc] by simp_all
  define r1 where "r1 = r\<lparr>fr_results := fr_results r @ res, fr_calls := fr_calls r + length res,
                     fr_rereads := fr_rereads r + (if idx = 0 then length res - 1 else length res)\<rparr>"
  define r2 where "r2 = (if rows = [] then r1\<lparr>fr_rejected := Suc (fr_rejected r1)\<rparr> else r1\<lparr>fr_rows := fr_rows r1 @ List.map_filter (to_row chunk) rows\<rparr>)"
  have d: "do_chunks ask (Suc idx) later r2 = Some r'"
    using "2.prems"(1) rc by (auto simp: Let_def r1_def r2_def split: if_splits)
  have f: "fr_calls r2 = fr_calls r + length res" "fr_results r2 = fr_results r @ res"
      "fr_rereads r2 = fr_rereads r + (if idx = 0 then length res - 1 else length res)" "fr_rejected r2 \<le> Suc (fr_rejected r)"
    by (simp_all add: r1_def r2_def)
  have "fr_calls r' = length (fr_results r') \<and> fr_calls r2 + length later \<le> fr_calls r' \<and> fr_calls r' \<le> fr_calls r2 + 2 * length later
     \<and> fr_rereads r' + fr_calls r2 = fr_calls r' + fr_rereads r2 \<and> fr_rejected r' \<le> fr_rejected r2 + length later"
  proof (cases "rows = []")
    case True
    from "2.IH"(1) [OF rc refl r1_def True] d "2.prems"(2) True f show ?thesis by (simp add: r2_def)
  next
    case False
    have "list_all (\<lambda>row. to_row chunk row \<noteq> None) rows" using "2.prems"(1) rc False by (auto simp: Let_def split: if_splits)
    from "2.IH"(2) [OF rc refl r1_def False this] d "2.prems"(2) False f show ?thesis by (simp add: r2_def)
  qed
  with f n show ?case by (auto split: if_splits)
qed simp

lemma rows_of_keys:
  "map row_key rows = map (\<lambda>i. Some (JStr i)) ids \<Longrightarrow> list_all (\<lambda>row. to_row chunk row \<noteq> None) rows \<Longrightarrow>
     map row_id (List.map_filter (to_row chunk) rows) = ids"
proof (induction rows arbitrary: ids)
  case (Cons row rows)
  obtain i jds where i: "ids = i # jds" "row_key row = Some (JStr i)" using Cons.prems(1) by (cases ids) auto
  then obtain h where "to_row chunk row = Some \<lparr>row_id = i, row_summary = row, row_hash = h\<rparr>"
    using Cons.prems(2) by (auto simp: to_row_def row_key_def)
  with Cons i show ?case by (simp add: List.map_filter_simps)
qed (simp add: List.map_filter_simps)

text \<open>Where a row comes from.\<close>

definition validated :: "(nat \<Rightarrow> llm_result) \<Rightarrow> string list \<Rightarrow> fields list \<Rightarrow> bool" where
  "validated ask expected rows \<longleftrightarrow> (\<exists>a \<in> {1, 2}. \<exists>p. lr_ok (ask a) \<and> lr_parsed (ask a) = Some p \<and> validate p expected = Inr rows)"

definition dict_answers :: "(nat \<Rightarrow> nat \<Rightarrow> llm_result) \<Rightarrow> bool" where
  "dict_answers ask \<longleftrightarrow> (\<forall>k a p. lr_parsed (ask k a) = Some p \<longrightarrow> dict_rows p)"

lemma chunk_rows_sound:
  assumes "chunk_good ask kc" "dict_answers ask"
  shows "chunk_rows ask kc = [] \<or>
    (\<exists>rows. validated (ask (fst kc)) (map fst (snd kc)) rows \<and> set (map row_id (chunk_rows ask kc)) = set (map fst (snd kc))
      \<and> distinct (map row_id (chunk_rows ask kc))
      \<and> list_all (\<lambda>x. row_summary x \<in> set rows \<and> row_key (row_summary x) = Some (JStr (row_id x)) \<and> map_of (snd kc) (row_id x) = Some (row_hash x))
          (chunk_rows ask kc))"
proof -
  obtain rows res where rc: "run_chunk (ask (fst kc)) (map fst (snd kc)) = Inr (rows, res)"
    and g: "list_all (\<lambda>row. to_row (snd kc) row \<noteq> None) rows"
    using assms(1) by (auto simp: chunk_good_def)
  have cr: "chunk_rows ask kc = List.map_filter (to_row (snd kc)) rows" by (simp add: chunk_rows_def rc)
  have each: "list_all (\<lambda>x. row_summary x \<in> set rows \<and> row_key (row_summary x) = Some (JStr (row_id x)) \<and> map_of (snd kc) (row_id x) = Some (row_hash x))
          (chunk_rows ask kc)"
    by (auto simp: cr list_all_iff List.map_filter_def to_row_def row_key_def split: option.splits json.splits)
  show ?thesis
  proof (cases "rows = []")
    case False
    then have v: "validated (ask (fst kc)) (map fst (snd kc)) rows" using run_chunk_sound(1) [OF rc] by (auto simp: validated_def)
    then obtain p where p: "validate p (map fst (snd kc)) = Inr rows" "dict_rows p" using assms(2) by (auto simp: validated_def dict_answers_def)
    obtain ids where ids: "map row_key rows = map (\<lambda>i. Some (JStr i)) ids" "distinct ids" "set ids = set (map fst (snd kc))"
      using validated_keys [OF p] .
    have "map row_id (chunk_rows ask kc) = ids" unfolding cr by (rule rows_of_keys [OF ids(1) g])
    with ids v each show ?thesis by auto
  qed (simp add: cr List.map_filter_simps)
qed

section \<open>The report\<close>

definition counted :: "file_outcome \<Rightarrow> bool" where
  "counted out \<longleftrightarrow> (case out of Done r u c \<Rightarrow> fr_calls r = Suc (fr_rereads r) \<and> fr_calls r = length (fr_results r) | _ \<Rightarrow> True)"

definition requests_of :: "file_outcome \<Rightarrow> nat" where
  "requests_of out = (case out of Done r u c \<Rightarrow> length (fr_results r) | _ \<Rightarrow> 0)"

lemma chunks_none: "0 < n \<Longrightarrow> chunks n xs = [] \<longleftrightarrow> xs = []"
  using chunks_concat [of n xs] by (auto simp: chunks.simps [of n "[]"])

lemma do_file_counted:
  assumes "0 < n" "pending \<noteq> []"
  shows "counted (do_file py_str known n ask readable pending)"
proof (cases "do_chunks ask 0 (chunks n pending) empty_result")
  case (Some r)
  from do_chunks_counts [OF this] assms have "fr_calls r = Suc (fr_rereads r)" "fr_calls r = length (fr_results r)"
    by (simp_all add: empty_result_def chunks_none)
  with Some show ?thesis by (auto simp: do_file_def counted_def split: option.split prod.split)
qed (simp add: do_file_def counted_def)

lemma collect_counts:
  "collect py_str os p db = (Some p', db') \<Longrightarrow> list_all (\<lambda>x. counted (snd x)) os \<Longrightarrow>
     fp_calls p' + fp_rereads p + fp_files_seen p = fp_calls p + fp_rereads p' + fp_files_seen p'
     \<and> fp_calls p' = fp_calls p + sum_list (map (\<lambda>x. requests_of (snd x)) os)
     \<and> fp_files_seen p' + length (fp_errors p') = fp_files_seen p + length (fp_errors p) + length os
     \<and> fp_throttled p' + fp_calls p \<le> fp_throttled p + fp_calls p' \<and> fp_skipped_files p' = fp_skipped_files p"
proof (induction os arbitrary: p db)
  case (Cons x os)
  obtain f out where x: "x = (f, out)" by fastforce
  show ?case
  proof (cases out)
    case (Done r u c)
    have c: "fr_calls r = Suc (fr_rereads r)" "fr_calls r = length (fr_results r)" using Cons.prems(2) by (simp_all add: x Done counted_def)
    have t: "length (filter lr_throttled (fr_results r)) \<le> fr_calls r" using length_filter_le [of lr_throttled "fr_results r"] c(2) by simp
    obtain db1 n where "collect py_str os ((count_file r u c p)\<lparr>fp_summarized := n\<rparr>) db1 = (Some p', db')"
    proof (cases "fr_rows r = []")
      case True
      have "(count_file r u c p)\<lparr>fp_summarized := fp_summarized (count_file r u c p)\<rparr> = count_file r u c p" by simp
      with Cons.prems(1) True that [of "fp_summarized (count_file r u c p)" db] show ?thesis by (simp add: x Done Let_def)
    next
      case False
      with Cons.prems(1) obtain db1 where "write_summaries py_str (fr_rows r) db = Some db1" by (auto simp: x Done Let_def split: option.splits)
      with Cons.prems(1) False that show ?thesis by (simp add: x Done Let_def)
    qed
    from Cons.IH [OF this] Cons.prems(2) c t show ?thesis by (simp add: count_file_def x Done requests_of_def)
  qed (use Cons.IH [of "p\<lparr>fp_errors := fp_errors p @ [f]\<rparr>" db] Cons.prems in \<open>simp_all add: x requests_of_def\<close>)
qed simp

text \<open>A file with one function: the first answer is throttled, the second is accepted.\<close>

definition one_row :: fields where
  "one_row = [(''id'', JStr ''f''), (''source'', JObj []), (''guards'', JObj []), (''db'', JObj []), (''contracts'', JObj []), (''calls'', JArr [])]"

definition one_answer :: json where
  "one_answer = JObj [(''summaries'', JArr [JObj one_row])]"

definition one_env :: pass_env where
  "one_env = \<lparr>pe_str = \<lambda>j. [], pe_callees = \<lambda>i. {}, pe_per_call = 4,
     pe_ask = \<lambda>f k a. if a = 1 then \<lparr>lr_text = [], lr_error = ''429'', lr_parsed = None, lr_throttled = True, lr_input = 0, lr_output = 0, lr_cache_read = 0, lr_cache_write = 0\<rparr>
       else \<lparr>lr_text = ''{}'', lr_error = [], lr_parsed = Some one_answer, lr_throttled = False, lr_input = 9, lr_output = 5, lr_cache_read = 0, lr_cache_write = 0\<rparr>,
     pe_readable = \<lambda>f. True, pe_schedule = \<lambda>xs. xs\<rparr>"

definition one_store :: fn_store where
  "one_store = [''f'' \<mapsto> \<lparr>fs_body_hash = ''h'', fs_summary_hash = None, fs_schema = 0, fs_summary = None, fs_signals = None\<rparr>]"

lemma one_report: "fst (run_file_pass one_env one_store [(''s.py'', [''f''])] None) =
    Some \<lparr>fp_files_seen = 1, fp_skipped_files = 0, fp_skipped_functions = 0, fp_summarized = 1, fp_calls = 2,
     fp_rereads = 1, fp_rejected = 0, fp_throttled = 1, fp_unknown = 0, fp_claimed = 0, fp_input = 9, fp_output = 5, fp_cache_read = 0,
     fp_cache_write = 0, fp_errors = []\<rparr>"
  by code_simp

text \<open>C38: when the pass ends without an exception, every file is counted once: as seen, as lost, or as fresh.  The requests
  counted are all those made for the files that were seen, of which every one beyond the first of a file is counted as a
  second look at it; what was requested for a file that was lost is in no counter.\<close>

theorem file_pass_accounts:
  assumes "0 < pe_per_call env" "\<And>xs. mset (pe_schedule env xs) = mset xs" "run_file_pass env db files limit_files = (Some p, db')"
  shows "fp_files_seen p + length (fp_errors p) + fp_skipped_files p = length (limited limit_files files)
    \<and> fp_calls p = sum_list (map (\<lambda>x. requests_of (snd x)) (outcomes env db (limited limit_files files)))
    \<and> fp_calls p = fp_rereads p + fp_files_seen p \<and> fp_throttled p \<le> fp_calls p"
proof -
  let ?fs = "limited limit_files files"
  have s: "set (pe_schedule env xs) = set xs" "length (pe_schedule env xs) = length xs" for xs
    using assms(2) [of xs] by (metis set_mset_mset, metis size_mset)
  have "list_all (\<lambda>x. counted (snd x)) (pe_schedule env (outcomes env db ?fs))"
    using assms(1) by (auto simp: list_all_iff s outcomes_def intro!: do_file_counted)
  moreover have "collect (pe_str env) (pe_schedule env (outcomes env db ?fs)) (fresh_report db ?fs) db = (Some p, db')"
    using assms(3) by (simp add: run_file_pass_def Let_def)
  ultimately have c: "fp_calls p + fp_rereads (fresh_report db ?fs) + fp_files_seen (fresh_report db ?fs) = fp_calls (fresh_report db ?fs) + fp_rereads p + fp_files_seen p
     \<and> fp_calls p = fp_calls (fresh_report db ?fs) + sum_list (map (\<lambda>x. requests_of (snd x)) (pe_schedule env (outcomes env db ?fs)))
     \<and> fp_files_seen p + length (fp_errors p) = fp_files_seen (fresh_report db ?fs) + length (fp_errors (fresh_report db ?fs)) + length (pe_schedule env (outcomes env db ?fs))
     \<and> fp_throttled p + fp_calls (fresh_report db ?fs) \<le> fp_throttled (fresh_report db ?fs) + fp_calls p \<and> fp_skipped_files p = fp_skipped_files (fresh_report db ?fs)"
    using collect_counts by blast
  have "length (outcomes env db ?fs) + length (filter (\<lambda>(f, ids). pending_of db ids = []) ?fs) = length ?fs"
    using sum_length_filter_compl [of "\<lambda>(f, ids). pending_of db ids \<noteq> []" ?fs] by (simp add: outcomes_def case_prod_unfold)
  moreover have "sum_list (map g (pe_schedule env xs)) = sum_list (map g xs)" for g :: "string \<times> file_outcome \<Rightarrow> nat" and xs
    using assms(2) [of xs] by (metis mset_map sum_mset_sum_list)
  ultimately show ?thesis using c by (simp add: fresh_report_def s)
qed

text \<open>A file of two groups whose second answer has an id that is a list: the file is lost, and its two requests are not counted.\<close>

definition lost_env :: pass_env where
  "lost_env = one_env\<lparr>pe_per_call := 1, pe_ask := \<lambda>f k a.
     \<lparr>lr_text = ''{}'', lr_error = [], lr_parsed = Some (if k = 0 then one_answer else JObj [(''summaries'', JArr [JObj [(''id'', JArr [])]])]),
       lr_throttled = False, lr_input = 9, lr_output = 5, lr_cache_read = 0, lr_cache_write = 0\<rparr>\<rparr>"

lemma lost_requests_uncounted:
  "map_option (\<lambda>p. (fp_calls p, fp_input p, fp_errors p)) (fst (run_file_pass lost_env
      (one_store(''g'' \<mapsto> \<lparr>fs_body_hash = ''k'', fs_summary_hash = None, fs_schema = 0, fs_summary = None, fs_signals = None\<rparr>))
      [(''s.py'', [''f'', ''g''])] None)) = Some (0, 0, [''s.py''])"
  by code_simp

theorem file_pass_accounts_witness:
  "map_option (\<lambda>p. (fp_calls p, fp_rereads p + fp_files_seen p, fp_throttled p)) (fst (run_file_pass one_env one_store [(''s.py'', [''f''])] None)) = Some (2, 2, 1)"
proof -
  obtain p db' where r: "run_file_pass one_env one_store [(''s.py'', [''f''])] None = (Some p, db')"
    using one_report by (cases "run_file_pass one_env one_store [(''s.py'', [''f''])] None") simp
  have "fp_calls p = fp_rereads p + fp_files_seen p" using file_pass_accounts [OF _ _ r] by (simp add: one_env_def)
  with r one_report show ?thesis by auto
qed

section \<open>The store\<close>

definition stored :: "(json \<Rightarrow> string) \<Rightarrow> fn_store \<Rightarrow> summary_row \<Rightarrow> fn_state option" where
  "stored py_str db x = map_option (\<lambda>f. f\<lparr>fs_summary := Some (row_summary x), fs_summary_hash := Some (row_hash x), fs_schema := SCHEMA_VERSION,
     fs_signals := signals_of py_str (row_summary x)\<rparr>) (db (row_id x))"

lemma write_row_at: "write_row rs db i = (if i = row_id (fst rs) then map_option (\<lambda>f. f\<lparr>fs_summary := Some (row_summary (fst rs)),
    fs_summary_hash := Some (row_hash (fst rs)), fs_schema := sig_schema_version (snd rs), fs_signals := Some (snd rs)\<rparr>) (db i) else db i)"
  by (simp add: write_row_def split: option.split)

lemma signals_schema: "signals_of py_str kvs = Some sg \<Longrightarrow> sig_schema_version sg = SCHEMA_VERSION"
  by (auto simp: signals_of_def derive_signals_def)

definition write_rows :: "(json \<Rightarrow> string) \<Rightarrow> summary_row list \<Rightarrow> fn_store \<Rightarrow> fn_store" where
  "write_rows py_str rows = fold write_row (map (\<lambda>r. (r, the (signals_of py_str (row_summary r)))) rows)"

lemma write_rows_other: "i \<notin> row_id ` set rows \<Longrightarrow> write_rows py_str rows db i = db i"
  by (induction rows arbitrary: db) (simp_all add: write_rows_def write_row_at)

lemma write_rows_at:
  "list_all (\<lambda>r. signals_of py_str (row_summary r) \<noteq> None) rows \<Longrightarrow> distinct (map row_id rows) \<Longrightarrow>
     list_all (\<lambda>x. write_rows py_str rows db (row_id x) = stored py_str db x) rows"
proof (induction rows arbitrary: db)
  case (Cons r rows)
  let ?db = "write_row (r, the (signals_of py_str (row_summary r))) db"
  have w: "write_rows py_str (r # rows) db = write_rows py_str rows ?db" by (simp add: write_rows_def)
  have n: "row_id r \<notin> row_id ` set rows" using Cons.prems(2) by (simp only: list.map distinct.simps set_map) simp
  have p: "list_all (\<lambda>r. signals_of py_str (row_summary r) \<noteq> None) rows"
    using Cons.prems(1) unfolding list.pred_inject by (rule conjunct2)
  have d: "distinct (map row_id rows)" using Cons.prems(2) by (simp only: list.map distinct.simps)
  have ih: "list_all (\<lambda>x. write_rows py_str rows ?db (row_id x) = stored py_str ?db x) rows"
    using Cons.IH [OF p d] .
  have "write_rows py_str rows ?db (row_id x) = stored py_str db x" if "x \<in> set rows" for x
  proof -
    from ih that have at: "write_rows py_str rows ?db (row_id x) = stored py_str ?db x" unfolding list_all_iff by (rule bspec)
    from that have "row_id x \<in> row_id ` set rows" by (rule imageI)
    with n have "row_id x \<noteq> row_id r" by metis
    then have "?db (row_id x) = db (row_id x)" by (simp only: write_row_at fst_conv if_False)
    with at show ?thesis by (simp only: stored_def)
  qed
  moreover have "write_rows py_str rows ?db (row_id r) = stored py_str db r"
  proof -
    obtain sg where sg: "signals_of py_str (row_summary r) = Some sg" using Cons.prems(1) by auto
    with signals_schema [OF sg] show ?thesis by (simp add: write_rows_other [OF n] stored_def write_row_at)
  qed
  ultimately show ?case unfolding w list_all_iff by (intro ballI) (metis set_ConsD)
qed simp

definition outcome_rows :: "string \<times> file_outcome \<Rightarrow> summary_row list" where
  "outcome_rows x = (case snd x of Done r u c \<Rightarrow> fr_rows r | _ \<Rightarrow> [])"

definition kept_or_stored :: "(json \<Rightarrow> string) \<Rightarrow> fn_store \<Rightarrow> fn_store \<Rightarrow> summary_row list \<Rightarrow> bool" where
  "kept_or_stored py_str db db' rows \<longleftrightarrow>
     list_all (\<lambda>x. db' (row_id x) = db (row_id x)) rows \<or> list_all (\<lambda>x. db' (row_id x) = stored py_str db x) rows"

lemma collect_store:
  "distinct (map row_id (concat (map outcome_rows os))) \<Longrightarrow>
     list_all (\<lambda>o1. kept_or_stored py_str db (snd (collect py_str os p db)) (outcome_rows o1)) os
     \<and> (\<forall>i. i \<notin> row_id ` set (concat (map outcome_rows os)) \<longrightarrow> snd (collect py_str os p db) i = db i)"
proof (induction os arbitrary: p db)
  case (Cons x os)
  obtain f out where x: "x = (f, out)" by fastforce
  let ?R = "outcome_rows x" and ?rest = "concat (map outcome_rows os)"
  have d: "distinct (map row_id ?R)" "distinct (map row_id ?rest)" "row_id ` set ?R \<inter> row_id ` set ?rest = {}"
    using Cons.prems by auto
  have ends: ?case if "collect py_str (x # os) p db = (None, db)"
    using that by (simp add: kept_or_stored_def list_all_iff)
  have step: ?case if c: "collect py_str (x # os) p db = collect py_str os p1 db1"
      and now: "list_all (\<lambda>y. db1 (row_id y) = stored py_str db y) ?R" "\<forall>i. i \<notin> row_id ` set ?R \<longrightarrow> db1 i = db i" for p1 db1
  proof -
    let ?db' = "snd (collect py_str os p1 db1)"
    from Cons.IH [OF d(2), where db = db1 and p = p1]
    have ih: "list_all (\<lambda>o1. kept_or_stored py_str db1 ?db' (outcome_rows o1)) os" "\<forall>i. i \<notin> row_id ` set ?rest \<longrightarrow> ?db' i = db1 i" by simp_all
    have same: "db1 (row_id y) = db (row_id y)" if "y \<in> set ?rest" for y using now(2) d(3) that by blast
    have "kept_or_stored py_str db ?db' (outcome_rows o1)" if "o1 \<in> set os" for o1
    proof -
      have k: "db1 (row_id y) = db (row_id y)" if "y \<in> set (outcome_rows o1)" for y
        using same [of y] that \<open>o1 \<in> set os\<close> by auto
      then have "stored py_str db1 y = stored py_str db y" if "y \<in> set (outcome_rows o1)" for y
        using that by (simp add: stored_def)
      with k have "kept_or_stored py_str db1 ?db' (outcome_rows o1) = kept_or_stored py_str db ?db' (outcome_rows o1)"
        unfolding kept_or_stored_def by (intro arg_cong2 [where f = "(\<or>)"] list.pred_cong) auto
      with ih(1) that show ?thesis by (simp add: list_all_iff)
    qed
    moreover have "list_all (\<lambda>y. ?db' (row_id y) = stored py_str db y) ?R"
      using now(1) ih(2) d(3) by (auto simp: list_all_iff disjoint_iff)
    moreover have "?db' i = db i" if "i \<notin> row_id ` set (concat (map outcome_rows (x # os)))" for i
    proof -
      have "i \<notin> row_id ` set ?rest" "i \<notin> row_id ` set ?R" using that by auto
      then show ?thesis using ih(2) now(2) by simp
    qed
    ultimately show ?thesis unfolding c by (simp add: list_all_iff kept_or_stored_def)
  qed
  show ?case
  proof (cases out)
    case (Done r u c)
    have r: "?R = fr_rows r" by (simp add: x Done outcome_rows_def)
    show ?thesis
    proof (cases "fr_rows r = []")
      case True
      then show ?thesis by (intro step [of "count_file r u c p" db]) (simp_all add: x Done Let_def outcome_rows_def)
    next
      case False
      show ?thesis
      proof (cases "write_summaries py_str (fr_rows r) db")
        case None
        with False show ?thesis by (intro ends) (simp add: x Done Let_def)
      next
        case (Some db1)
        then have s: "list_all (\<lambda>r. signals_of py_str (row_summary r) \<noteq> None) (fr_rows r)"
            "db1 = write_rows py_str (fr_rows r) db"
          by (auto simp: write_summaries_def write_rows_def list_all_iff list_ex_iff split: if_splits)
        show ?thesis
        proof (rule step)
          show "collect py_str (x # os) p db =
              collect py_str os ((count_file r u c p)\<lparr>fp_summarized := fp_summarized (count_file r u c p) + length (fr_rows r)\<rparr>) db1"
            using False Some by (simp add: x Done Let_def)
        qed (use write_rows_at [OF s(1) d(1) [unfolded r], of db] s(2) r write_rows_other in simp_all)
      qed
    qed
  next
    case Unreadable
    then show ?thesis by (intro step [of "p\<lparr>fp_errors := fp_errors p @ [f]\<rparr>" db]) (simp_all add: x outcome_rows_def)
  next
    case Raised
    then show ?thesis by (intro step [of "p\<lparr>fp_errors := fp_errors p @ [f]\<rparr>" db]) (simp_all add: x outcome_rows_def)
  qed
qed simp

lemma distinct_parts:
  "distinct (concat (map h xs)) \<Longrightarrow> list_all (\<lambda>x. distinct (g x) \<and> set (g x) \<subseteq> set (h x)) xs \<Longrightarrow> distinct (concat (map g xs))"
  by (induction xs) (fastforce simp: list_all_iff)+

text \<open>The ids a chunk, a file and the whole pass may write.\<close>

lemma owner_unique:
  "distinct (concat (map h xs)) \<Longrightarrow> x \<in> set xs \<Longrightarrow> y \<in> set xs \<Longrightarrow> i \<in> set (h x) \<Longrightarrow> i \<in> set (h y) \<Longrightarrow> x = y"
  by (induction xs) auto

lemma pending_set: "set (pending_of db ids) = {(i, fs_body_hash f) | i f. i \<in> set ids \<and> db i = Some f \<and> needs_summary f}"
  by (induction ids) (auto simp: pending_of_def List.map_filter_simps split: option.split)

lemma pending_ids: "distinct ids \<Longrightarrow> distinct (map fst (pending_of db ids))"
proof (induction ids)
  case (Cons i ids)
  have "i \<notin> fst ` set (pending_of db ids)" using Cons.prems by (auto simp: pending_set)
  with Cons show ?case by (auto simp: pending_of_def List.map_filter_simps split: option.split)
qed (simp add: pending_of_def List.map_filter_simps)

lemma enumerated: "map snd (enumerate k xs) = xs"
  by (induction xs arbitrary: k) simp_all

definition numbered :: "nat \<Rightarrow> (string \<times> string) list \<Rightarrow> (nat \<times> (string \<times> string) list) list" where
  "numbered n pending = enumerate 0 (chunks n pending)"

lemma numbered_ids: "0 < n \<Longrightarrow> concat (map (\<lambda>kc. map fst (snd kc)) (numbered n pending)) = map fst pending"
proof -
  assume "0 < n"
  have "concat (map (\<lambda>kc. map fst (snd kc)) (numbered n pending)) = map fst (concat (map snd (numbered n pending)))"
    by (simp add: map_concat comp_def)
  with chunks_concat [OF \<open>0 < n\<close>, of pending] show ?thesis by (simp add: numbered_def enumerated)
qed

lemma chunk_ids:
  assumes "chunk_good ask kc" "dict_answers ask"
  shows "distinct (map row_id (chunk_rows ask kc)) \<and> set (map row_id (chunk_rows ask kc)) \<subseteq> set (map fst (snd kc))"
  using chunk_rows_sound [OF assms]
  by (elim disjE exE conjE) (simp_all only: list.map distinct.simps list.set empty_subsetI subset_refl simp_thms)

lemma outcome_rows_of:
  assumes "out = do_file py_str known n ask readable pending"
  shows "outcome_rows (f, out) = [] \<or> outcome_rows (f, out) = concat (map (chunk_rows ask) (numbered n pending)) \<and> list_all (chunk_good ask) (numbered n pending)"
  using assms do_chunks_rows [of ask 0 "chunks n pending" empty_result]
  by (auto simp: outcome_rows_def do_file_def numbered_def empty_result_def split: option.splits if_splits)

lemma outcome_ids:
  assumes "0 < n" "distinct (map fst pending)" "dict_answers ask"
    "out = do_file py_str known n ask readable pending"
  shows "distinct (map row_id (outcome_rows (f, out))) \<and> set (map row_id (outcome_rows (f, out))) \<subseteq> fst ` set pending"
  using outcome_rows_of [OF assms(4), of f]
proof (elim disjE conjE)
  assume r: "outcome_rows (f, out) = concat (map (chunk_rows ask) (numbered n pending))" and g: "list_all (chunk_good ask) (numbered n pending)"
  let ?g = "\<lambda>kc. map row_id (chunk_rows ask kc)"
  have m: "map row_id (outcome_rows (f, out)) = concat (map ?g (numbered n pending))" by (simp add: r map_concat comp_def)
  have c: "list_all (\<lambda>kc. distinct (?g kc) \<and> set (?g kc) \<subseteq> set (map fst (snd kc))) (numbered n pending)"
    using g unfolding list_all_iff by (intro ballI chunk_ids [OF _ assms(3)]) (erule bspec)
  have "distinct (concat (map (\<lambda>kc. map fst (snd kc)) (numbered n pending)))"
    unfolding numbered_ids [OF assms(1)] by (rule assms(2))
  then have "distinct (concat (map ?g (numbered n pending)))" using c by (rule distinct_parts)
  moreover have "set (concat (map ?g (numbered n pending))) \<subseteq> set (concat (map (\<lambda>kc. map fst (snd kc)) (numbered n pending)))"
    using c unfolding list_all_iff set_concat set_map image_image by (intro UN_mono subset_refl) blast
  ultimately show ?thesis unfolding m numbered_ids [OF assms(1)] set_map by simp
qed simp

definition outcome :: "pass_env \<Rightarrow> fn_store \<Rightarrow> string \<times> string list \<Rightarrow> string \<times> file_outcome" where
  "outcome env db x = (fst x, do_file (pe_str env) (pe_callees env) (pe_per_call env) (pe_ask env (fst x)) (pe_readable env (fst x)) (pending_of db (snd x)))"

lemma outcomes_map: "outcomes env db files = map (outcome env db) (filter (\<lambda>x. pending_of db (snd x) \<noteq> []) files)"
  by (simp add: outcomes_def outcome_def case_prod_unfold)

definition well_asked :: "pass_env \<Rightarrow> (string \<times> string list) list \<Rightarrow> bool" where
  "well_asked env files \<longleftrightarrow> 0 < pe_per_call env \<and> (\<forall>xs. mset (pe_schedule env xs) = mset xs) \<and> distinct (concat (map snd files))
     \<and> (\<forall>f. dict_answers (pe_ask env f))"

lemma limited_set: "set (limited n xs) \<subseteq> set xs"
  by (auto simp: limited_def split: option.splits if_splits dest: in_set_takeD)

lemma limited_distinct:
  assumes "distinct (concat (map h xs))"
  shows "distinct (concat (map h (limited n xs)))"
proof -
  have "concat (map h xs) = concat (map h (take k xs)) @ concat (map h (drop k xs))" for k
    by (metis append_take_drop_id concat_append map_append)
  then have "distinct (concat (map h (take k xs)))" for k using assms by (metis distinct_append)
  with assms show ?thesis by (simp add: limited_def split: option.split)
qed

lemma outcome_owned:
  assumes "well_asked env files" "x \<in> set files"
  shows "distinct (map row_id (outcome_rows (outcome env db x))) \<and> set (map row_id (outcome_rows (outcome env db x))) \<subseteq> set (snd x)"
proof -
  have d: "distinct (snd x)" using assms by (auto simp: well_asked_def distinct_concat_iff)
  have "distinct (map row_id (outcome_rows (outcome env db x))) \<and> set (map row_id (outcome_rows (outcome env db x))) \<subseteq> fst ` set (pending_of db (snd x))"
    unfolding outcome_def by (rule outcome_ids [OF _ pending_ids [OF d] _ refl]) (use assms(1) in \<open>simp_all add: well_asked_def\<close>)
  moreover have "fst ` set (pending_of db (snd x)) \<subseteq> set (snd x)" by (auto simp: pending_set)
  ultimately show ?thesis by (metis subset_trans)
qed

lemma outcomes_distinct:
  assumes "well_asked env files"
  shows "distinct (map row_id (concat (map outcome_rows (pe_schedule env (outcomes env db (limited n files))))))"
proof -
  let ?fs = "limited n files" and ?P = "\<lambda>x. pending_of db (snd x) \<noteq> []"
  let ?g = "\<lambda>x. map row_id (outcome_rows (outcome env db x))"
  have "list_all (\<lambda>x. distinct (if ?P x then ?g x else []) \<and> set (if ?P x then ?g x else []) \<subseteq> set (snd x)) ?fs"
    unfolding list_all_iff
  proof
    fix x assume "x \<in> set ?fs"
    with limited_set have "x \<in> set files" by (rule subsetD)
    from outcome_owned [OF assms this, of db]
    show "distinct (if ?P x then ?g x else []) \<and> set (if ?P x then ?g x else []) \<subseteq> set (snd x)" by (cases "?P x") simp_all
  qed
  moreover have "distinct (concat (map snd ?fs))" using assms by (intro limited_distinct) (simp add: well_asked_def)
  ultimately have "distinct (concat (map (\<lambda>x. if ?P x then ?g x else []) ?fs))" by (rule distinct_parts [rotated])
  moreover have "concat (map (\<lambda>x. if ?P x then ?g x else []) xs) = map row_id (concat (map outcome_rows (outcomes env db xs)))" for xs
    unfolding outcomes_map by (induction xs) simp_all
  ultimately have d: "distinct (map row_id (concat (map outcome_rows (outcomes env db ?fs))))" by metis
  have "mset (pe_schedule env (outcomes env db ?fs)) = mset (outcomes env db ?fs)" using assms by (simp add: well_asked_def)
  then have "mset (map row_id (concat (map outcome_rows (pe_schedule env (outcomes env db ?fs))))) = mset (map row_id (concat (map outcome_rows (outcomes env db ?fs))))"
    by (simp add: mset_concat flip: sum_mset_sum_list)
  with d show ?thesis by (metis mset_eq_imp_distinct_iff)
qed

text \<open>Only the outcome of a function's own file can touch it.\<close>

lemma written_by_own_file:
  assumes "well_asked env files" "x \<in> set files" "i \<in> set (snd x)" "run_file_pass env db files n = (p, db')" "db' i \<noteq> db i"
  shows "i \<in> row_id ` set (outcome_rows (outcome env db x))"
    "kept_or_stored (pe_str env) db db' (outcome_rows (outcome env db x))"
proof -
  let ?fs = "limited n files"
  let ?os = "pe_schedule env (outcomes env db ?fs)"
  have db': "db' = snd (collect (pe_str env) ?os (fresh_report db ?fs) db)" using assms(4) by (simp add: run_file_pass_def Let_def)
  have store: "list_all (\<lambda>o1. kept_or_stored (pe_str env) db db' (outcome_rows o1)) ?os"
      "\<forall>i. i \<notin> row_id ` set (concat (map outcome_rows ?os)) \<longrightarrow> db' i = db i"
    using collect_store [OF outcomes_distinct [OF assms(1)], where p = "fresh_report db ?fs" and db = db and py_str = "pe_str env"] unfolding db' by (rule conjunct1, rule conjunct2)
  have "mset ?os = mset (outcomes env db ?fs)" using assms(1) by (simp add: well_asked_def)
  then have os: "set ?os = set (outcomes env db ?fs)" by (rule mset_eq_setD)
  from store(2) assms(5) have "i \<in> row_id ` set (concat (map outcome_rows ?os))" by metis
  then obtain o1 where o1: "o1 \<in> set (outcomes env db ?fs)" "i \<in> row_id ` set (outcome_rows o1)" unfolding set_concat set_map os by blast
  then obtain y where y: "y \<in> set ?fs" "o1 = outcome env db y" unfolding outcomes_map by auto
  have yf: "y \<in> set files" using limited_set y(1) by (rule subsetD)
  have "i \<in> set (snd y)" using outcome_owned [OF assms(1) yf, of db] o1(2) unfolding y(2) set_map by blast
  then have "x = y" using owner_unique [of snd files x y i] assms(1,2,3) yf by (simp add: well_asked_def)
  then have o: "o1 = outcome env db x" using y(2) by simp
  show "i \<in> row_id ` set (outcome_rows (outcome env db x))" using o1(2) unfolding o .
  show "kept_or_stored (pe_str env) db db' (outcome_rows (outcome env db x))"
    using store(1) o1(1) unfolding o list_all_iff os by (rule bspec)
qed

definition refreshed :: "(json \<Rightarrow> string) \<Rightarrow> fn_store \<Rightarrow> fields \<Rightarrow> string \<Rightarrow> fn_state option" where
  "refreshed py_str db row i = map_option (\<lambda>f. f\<lparr>fs_summary := Some row, fs_summary_hash := Some (fs_body_hash f), fs_schema := SCHEMA_VERSION,
     fs_signals := signals_of py_str row\<rparr>) (db i)"

lemma stored_refreshed:
  assumes "map_of chunk (row_id x) = Some (row_hash x)" "set chunk \<subseteq> set (pending_of db ids)"
  shows "stored py_str db x = refreshed py_str db (row_summary x) (row_id x)"
proof -
  have "(row_id x, row_hash x) \<in> set (pending_of db ids)" using map_of_SomeD [OF assms(1)] assms(2) by (rule subsetD [rotated])
  then obtain f where "db (row_id x) = Some f" "row_hash x = fs_body_hash f" unfolding pending_set by blast
  then show ?thesis by (simp add: stored_def refreshed_def)
qed

lemma numbered_owner:
  assumes "0 < n" "distinct (map fst pending)" "kc \<in> set (numbered n pending)" "kc' \<in> set (numbered n pending)"
    "i \<in> set (map fst (snd kc))" "i \<in> set (map fst (snd kc'))"
  shows "kc = kc'"
proof (rule owner_unique)
  show "distinct (concat (map (\<lambda>kc. map fst (snd kc)) (numbered n pending)))" unfolding numbered_ids [OF assms(1)] by (rule assms(2))
qed (rule assms)+

lemma numbered_pending:
  assumes "kc \<in> set (numbered n pending)"
  shows "set (snd kc) \<subseteq> set pending"
proof -
  have "snd kc \<in> set (map snd (numbered n pending))" using assms by simp
  then show ?thesis unfolding numbered_def enumerated by (rule chunks_sizes [THEN conjunct2, THEN conjunct2])
qed

lemma one_asked: "well_asked one_env [(''s.py'', [''f''])]"
  by (simp add: well_asked_def one_env_def dict_answers_def dict_rows_def one_answer_def one_row_def)

text \<open>C37: a request for a group of functions is stored whole or not at all: unless the store keeps what it had for every function of the
  group, one of the two answers to that request was valid for exactly the group, and every function of it holds its own row of that
  answer, with the hash of its present body, the current schema and the signals of that row.\<close>

theorem pass_all_or_nothing:
  assumes "well_asked env files" "x \<in> set files" "kc \<in> set (numbered (pe_per_call env) (pending_of db (snd x)))"
    "run_file_pass env db files limit_files = (p, db')"
  shows "(\<forall>i \<in> fst ` set (snd kc). db' i = db i) \<or>
    (\<exists>rows. validated (pe_ask env (fst x) (fst kc)) (map fst (snd kc)) rows
      \<and> (\<forall>i \<in> fst ` set (snd kc). \<exists>row \<in> set rows. row_key row = Some (JStr i) \<and> db' i = refreshed (pe_str env) db row i))"
proof (cases "\<forall>i \<in> fst ` set (snd kc). db' i = db i")
  case False
  then obtain i where i: "i \<in> fst ` set (snd kc)" "db' i \<noteq> db i" by blast
  let ?ask = "pe_ask env (fst x)" and ?pending = "pending_of db (snd x)"
  let ?n = "pe_per_call env" and ?R = "outcome_rows (outcome env db x)"
  have n: "0 < ?n" and da: "dict_answers ?ask" using assms(1) by (simp_all add: well_asked_def)
  have sub: "set (snd kc) \<subseteq> set ?pending" by (rule numbered_pending [OF assms(3)])
  have "distinct (snd x)" using assms(1,2) by (auto simp: well_asked_def distinct_concat_iff)
  then have dp: "distinct (map fst ?pending)" by (rule pending_ids)
  have "i \<in> set (snd x)" using i(1) sub unfolding pending_set by auto
  note w = written_by_own_file [OF assms(1,2) this assms(4) i(2)]
  from w(1) have ne: "?R \<noteq> []" by auto
  have R: "?R = concat (map (chunk_rows ?ask) (numbered ?n ?pending))" and good: "list_all (chunk_good ?ask) (numbered ?n ?pending)"
    using outcome_rows_of [OF refl, of "fst x" "pe_str env" "pe_callees env" ?n ?ask "pe_readable env (fst x)" ?pending] ne
    unfolding outcome_def by (elim disjE conjE; simp)+
  obtain y where y: "y \<in> set ?R" "row_id y = i" using w(1) by auto
  obtain kc' where kc': "kc' \<in> set (numbered ?n ?pending)" "y \<in> set (chunk_rows ?ask kc')" using y(1) unfolding R by auto
  have g: "chunk_good ?ask c" if "c \<in> set (numbered ?n ?pending)" for c using good that unfolding list_all_iff by (rule bspec)
  have "i \<in> set (map fst (snd kc'))" using chunk_ids [OF g [OF kc'(1)] da] kc'(2) y(2) by auto
  then have same: "kc' = kc" using numbered_owner [OF n dp kc'(1) assms(3), of i] i(1) by simp
  from chunk_rows_sound [OF g [OF assms(3)] da] kc'(2) obtain rows where rows:
      "validated (?ask (fst kc)) (map fst (snd kc)) rows" "set (map row_id (chunk_rows ?ask kc)) = set (map fst (snd kc))"
      "list_all (\<lambda>x. row_summary x \<in> set rows \<and> row_key (row_summary x) = Some (JStr (row_id x)) \<and> map_of (snd kc) (row_id x) = Some (row_hash x))
         (chunk_rows ?ask kc)"
    unfolding same by (elim disjE exE conjE) simp_all
  have "\<not> list_all (\<lambda>x. db' (row_id x) = db (row_id x)) ?R" using y i(2) unfolding list_all_iff by blast
  with w(2) have st: "list_all (\<lambda>x. db' (row_id x) = stored (pe_str env) db x) ?R" unfolding kept_or_stored_def by metis
  have "\<exists>row \<in> set rows. row_key row = Some (JStr j) \<and> db' j = refreshed (pe_str env) db row j" if "j \<in> fst ` set (snd kc)" for j
  proof -
    from that have "j \<in> row_id ` set (chunk_rows ?ask kc)" unfolding rows(2) [unfolded set_map] .
    then obtain z where z: "z \<in> set (chunk_rows ?ask kc)" "row_id z = j" by (elim imageE) metis
    have zr: "row_summary z \<in> set rows \<and> row_key (row_summary z) = Some (JStr (row_id z)) \<and> map_of (snd kc) (row_id z) = Some (row_hash z)"
      using rows(3) z(1) unfolding list_all_iff by (rule bspec)
    have "z \<in> set ?R" using z(1) assms(3) unfolding R by auto
    with st have "db' (row_id z) = stored (pe_str env) db z" unfolding list_all_iff by (rule bspec)
    also have "\<dots> = refreshed (pe_str env) db (row_summary z) (row_id z)" using zr sub by (intro stored_refreshed) simp_all
    finally have "db' j = refreshed (pe_str env) db (row_summary z) j" unfolding z(2) .
    moreover have "row_key (row_summary z) = Some (JStr j)" using zr unfolding z(2) by (rule conjunct2 [THEN conjunct1])
    ultimately show ?thesis using conjunct1 [OF zr] by blast
  qed
  with rows(1) show ?thesis by blast
qed blast

theorem pass_all_or_nothing_witness:
  "\<exists>row. row_key row = Some (JStr ''f'')
     \<and> snd (run_file_pass one_env one_store [(''s.py'', [''f''])] None) ''f'' = refreshed (pe_str one_env) one_store row ''f''"
proof -
  let ?db = "snd (run_file_pass one_env one_store [(''s.py'', [''f''])] None)"
  have m: "(0, [(''f'', ''h'')]) \<in> set (numbered (pe_per_call one_env) (pending_of one_store (snd (''s.py'', [''f'']))))" by code_simp
  have "map_option fs_summary_hash (?db ''f'') = Some (Some ''h'')" by code_simp
  then have "?db ''f'' \<noteq> one_store ''f''" by (auto simp: one_store_def)
  with pass_all_or_nothing [OF one_asked _ m, of None "fst (run_file_pass one_env one_store [(''s.py'', [''f''])] None)" ?db]
  show ?thesis by auto
qed

end
