(* ===== verification/Spec2Isabelle.thy ===== *)
theory Spec2Isabelle
  imports Validator ClassFile Matcher ResolveStream Checkpoint Derive BytecodeGround BuildLock Contract Paths Slug IndexProps
    SqlDdl JspProps PyProps JsProps Upload FilePass
begin

text \<open>
  A verification library for the code-graph ingester \<open>src/graph_core\<close>, the build lock of
  \<open>src/ingest\<close> and the deterministic part of \<open>src/analysis\<close>.

  The program unpacks an upload (\<open>ingest/upload_utils.py\<close>), finds its files (\<open>discovery.py\<close>) and writes a graph of them.
  Extractors turn each file into
  nodes, edges and unresolved references (\<open>extractors/\<close>); batches of files are merged and kept
  on disk (\<open>canonical_ir.py\<close>, \<open>checkpoint.py\<close>); compiled classes, when there are any, give exact
  Java edges (\<open>bytecode/\<close>, \<open>bytecode_resolver.py\<close>); the heuristic resolver turns what is left of
  the references into edges (\<open>resolver.py\<close>); overriding methods and the package tree are derived
  (\<open>pipeline.py\<close>); and the result is validated (\<open>validator.py\<close>) and written to a database.

  Which theory models what.

  Prelude: Python's string methods, \<open>defaultdict(list)\<close>, \<open>setdefault\<close>, and the loop that keeps
  the first element of every key.  Two locales state the interfaces: \<open>multimap\<close> (what a
  dictionary of lists returns after an append), interpreted on the function and on the
  insertion-ordered representation.

  FileNames, Discovery, Upload: \<open>artifacts.py\<close>, \<open>discovery.py\<close> and \<open>ingest/upload_utils.py\<close>.  Shown: reading a repository in
  batches of candidates finds what one walk finds, whatever the tree; an upload writes exactly the
  admitted members, each at a path that stays below the new directory; and where the two disagree on what a source is.

  Models, Canonical, Validator: the records of \<open>models.py\<close>; \<open>merge_bundles\<close> and the later
  first-wins appends of \<open>index_repo\<close>; \<open>EdgeStats\<close> and \<open>validate_graph\<close>.  Shown: merging keeps the
  first occurrence of every identity in order however the bundles are split; the counters kept
  batch by batch equal a scan of all edges; the report lists exactly the violated conditions,
  and what the pipeline appends never has a duplicate id.

  Descriptor, ByteReader, ConstPool, CodeScan, ClassFile: \<open>bytecode/classfile.py\<close>, from the
  descriptor scanner to \<open>parse_class\<close>.  A reader is a function from bytes and position to an
  error or a value and the new position.  Shown against writers built from the layouts of the
  class file format: parsing returns what was written, the instruction scanner follows every
  opcode of the machine, and every proper prefix of a class file is refused.  The loops over
  code and descriptors end because each turn advances.

  Matcher: \<open>bytecode/matcher.py\<close>.  A reference is answered with the node the node list pins, and
  with none when several remain.

  BytecodeState, Bytecode: \<open>bytecode_resolver.py\<close>, its local variables in one record, one
  definition for each block of the loop, the guards, the hierarchy and the overrides.
  BytecodeScan, BytecodeProps, BytecodeResult, BytecodeFacts, BytecodeGround hold its lemmas: a
  locale of observers (a view of the state that each step changes in a known way) reduces what
  the loop accumulates to a fold over the method bodies it enters; interpretations of it on the
  edges, the headers, the declarations, the tallies, the marks and the node ids give the exact
  edges, the exact overrides with the methods the pass answers for, the accounting of calls
  out of the repository, the catalog marks, both ends of every edge, and when it raises.  The
  walk over ancestors ends because each visited class is new and only parsed classes are
  extended.

  RouteSpec: \<open>apispec.py\<close>.  Route spellings of the frameworks normalise to the same route.

  CatalogData, Catalog, ExternalApi: the tables of \<open>catalog/\<close>, their merge and the simple-name
  index, and the classifiers of \<open>external_api.py\<close>.

  ResolveIndex, Hierarchy, Narrowing, ResolveState, Resolve: \<open>resolver.py\<close>, in its order: the
  indices, the enclosing class and ancestor chain, the narrowing of a reference to candidates,
  the emission with its counters, each branch of \<open>_resolve_one_ref\<close> and the loop.  The walk to an
  enclosing class takes as fuel one more than the number of containment edges, which is enough
  when containment has no cycle (the source loops forever on one).  ResolveProps and
  ResolveStream: the coverage adds up, every edge is traced to its reference and grounded in
  existing nodes, edges of the strategies that go by a name are capped (those to handlers, by kind and by tail name are not), streaming writes what a run in memory returns,
  and a resumed run leaves out the reference it stopped at.

  Checkpoint: \<open>checkpoint.py\<close> and the batch loop of \<open>index_repo\<close> as a step relation with a crash
  possible between any two atomic writes; a run that finishes has every batch, each as this run produces it or as it
  found it in a directory of the same shape.

  Derive: \<open>_derive_overrides\<close> and \<open>_build_package_tree\<close> of \<open>pipeline.py\<close>, both exact.  Regex: the
  regular expressions the sources use, as matchers that consume a prefix and continue, with what
  every search gives back.  SqlText, SqlLinks: \<open>_derive_sql_links\<close> with its patterns; each pattern is
  proved to read what a reader of SQL statements, written by hand, reads, and the links are exactly the accesses it finds.  TaintMarks: the facts stamped on nodes, which do not depend on the order
  in which classes were read.

  SyntaxTree, Extracted: \<open>extractors/common.py\<close>, and what the extractors share.  The tree of a file is an
  argument, and any tree is allowed.  What a part of the walk appends to the lists of nodes, edges and
  references is a bundle, and the whole is their concatenation; a walk that creates a field at its first mention
  passes the created ids along.  Lemmas on how parts compose carry the proofs of every extractor: a part is rooted in the ids
  it is given, and its containment edges end at its declarations.  JavaSyntax, JavaExtract, JavaProps:
  \<open>extractors/java.py\<close>.  PySyntax, PyExtract, PyProps: \<open>extractors/python.py\<close>.  JsSyntax, JsExtract, JsProps:
  \<open>extractors/javascript.py\<close>, for JavaScript and TypeScript.  Shown for each: the bundle is consistent whatever
  the parser returns; containment is a tree over the declarations; every call of a scope gives one call
  reference, its receiver typed by the bindings of the scope; loops with a stack visit what recursion over the tree
  does.  Jsp, JspProps: \<open>extractors/jsp.py\<close>; the generated unit maps every line of code to the line of the
  page it stands on.  SqlDdl: \<open>extractors/sql.py\<close>.  The consistency shown for the extractors is
  what the theorems on the index pipeline assume of their bundles.

  GraphStore: the database as \<open>store.py\<close> uses it, a map from ids to labelled nodes and one from type
  and ends to relationships; every sequence of statements leaves it well formed, and a write can be
  repeated.  A locale states what merging rows by key does and is interpreted for nodes and for
  relationships.

  Index: \<open>index_repo\<close> from the merged bundles on, one record for its local variables and one
  definition per stage, composed in the order of the code.  IndexKinds holds the labels and types that each producer may create,
  IndexProps what a run leaves behind: the database is exactly what the deletion left and what the
  stages produced, no edge dangles, no id occurs twice, and where the documentation of the code promises
  more than the code does.

  BuildLock: the lock on a namespace (\<open>store.py\<close>) and the statements of \<open>ensure_graph_indexed\<close>
  (\<open>ingest/indexing.py\<close>) as steps of builders that interleave and fail at any statement.  Builds
  that end before their lock is stale exclude each other, a namespace marked ready holds the files
  of the manifest stored with it but for those whose extraction raised, and a lock left behind is taken over once stale.
  Slug: \<open>slugify_project\<close>, whose results are well formed and stable.

  Contract: \<open>analysis/contract.py\<close>, the nesting of the flat wire format and the two validators of
  model responses, with the inputs that make them raise.  Reach: \<open>reach.py\<close>, each query a step on
  the marks; the loops with their guard of 50 rounds mark exactly what lies within 50 trusted
  calls of a seed, and the universe is exact when no function is farther than 49.  Priority:
  severity and signals of \<open>priority.py\<close>.  SummaryJson, FilePass: how a summary is read, and \<open>file_pass.py\<close> with the
  writes of \<open>store.py\<close>, for any answers of the model and any order of the workers: a request is stored whole
  or not at all, and the report accounts for every file and every request.  Paths: the chains of \<open>paths.py\<close>, their deduplication and
  batches, and the findings built by the passes.  Findings, Panel: \<open>findings.py\<close> and
  \<open>adversarial_pass.py\<close>: which finding stands for its duplicates, and which the votes dismiss.

  Parameters.  The answers of the language model, the hash function of fingerprints and the body
  hashes of the database are arguments.  The hash of a node identity (\<open>make_id\<close>), settings read from the environment, the
  clock (when a checkpoint is taken) and the extraction of a batch are arguments; theorems hold
  for all of them.  Rates compared as floating point numbers are rational numbers here.

  Not modelled.  The parser of tree-sitter, a library outside
  the repository, whose trees are an argument; the vector index and the metadata queries of \<open>store.py\<close> and the polymorphic calls of
  \<open>cypher_derive_reference.py\<close>, off by default; \<open>javac_resolver.py\<close> and \<open>javac_autocompile.py\<close>, which run a compiler; the cache
  of extractions (\<open>extract_cache.py\<close>); the prompts and the transport of requests of the
  analysis passes (\<open>llm.py\<close>, \<open>prompts.py\<close>) and the queries that only store or count;
  the end of \<open>run\<close> in \<open>analysis/pipeline.py\<close>, which raises in its stage trace because of an unbound variable; scripts, user interface and instrumentation; logging, timing
  and cancellation everywhere.  The handler around the resolution of one reference is left out
  because no branch raises on well-typed references.
\<close>

end
